(* ===== verification/Prelude.thy ===== *)
theory Prelude
  imports Main "HOL-Library.Word" "HOL-Library.Char_ord" "HOL-Library.List_Lexorder"
begin

text \<open>
  Shared vocabulary of the development.

  \<^item> Results: a Rust \<^verbatim>\<open>Result<T, E>\<close> is the sum \<open>'e + 't\<close>, with \<open>Inl\<close> for
    \<^verbatim>\<open>Err\<close> and \<open>Inr\<close> for \<^verbatim>\<open>Ok\<close>.  A function of the code that only validates returns
    \<^verbatim>\<open>Result<(), E>\<close>; its body is a sequence of statements that may leave through the
    \<^verbatim>\<open>?\<close> operator, which \<open>steps\<close> runs in order, returning the first error.
  \<^item> Machine integers: \<^verbatim>\<open>u8\<close>, \<^verbatim>\<open>u16\<close>, \<^verbatim>\<open>u32\<close> and \<^verbatim>\<open>u64\<close> are words of their width; the
    checked and saturating operations of the standard library are defined on words.
    A length or an index (\<^verbatim>\<open>usize\<close>) is a \<open>nat\<close>.
  \<^item> A \<^verbatim>\<open>String\<close> is the list of its UTF-8 bytes (\<open>string\<close>), so \<open>length\<close> is
    \<^verbatim>\<open>str::len\<close>, and its order is the lexicographic order on bytes, as in Rust.
\<close>

section \<open>Automation collections\<close>

named_theorems accepts \<open>when a validation step accepts\<close>
named_theorems word_bounds \<open>values of bounded word arithmetic\<close>

section \<open>Types\<close>

type_synonym u8 = "8 word"
type_synonym u16 = "16 word"
type_synonym u32 = "32 word"
type_synonym u64 = "64 word"
type_synonym ('e, 'a) result = "'e + 'a"

abbreviation Ok :: "'a \<Rightarrow> ('e, 'a) result" where
  "Ok \<equiv> Inr"

abbreviation Err :: "'e \<Rightarrow> ('e, 'a) result" where
  "Err \<equiv> Inl"

section \<open>Results\<close>

definition then_do :: "('e, 'a) result \<Rightarrow> ('a \<Rightarrow> ('e, 'b) result) \<Rightarrow> ('e, 'b) result" where
  "then_do r f = (case r of Inl e \<Rightarrow> Err e | Inr x \<Rightarrow> f x)"

definition reject_if :: "bool \<Rightarrow> 'e \<Rightarrow> ('e, unit) result" where
  "reject_if c e = (if c then Err e else Ok ())"

fun steps :: "('e, unit) result list \<Rightarrow> ('e, unit) result" where
  "steps [] = Ok ()"
| "steps (r # rs) = then_do r (\<lambda>_. steps rs)"

fun for_each :: "('a \<Rightarrow> ('e, unit) result) \<Rightarrow> 'a list \<Rightarrow> ('e, unit) result" where
  "for_each f [] = Ok ()"
| "for_each f (x # xs) = then_do (f x) (\<lambda>_. for_each f xs)"

definition if_some :: "('a \<Rightarrow> ('e, unit) result) \<Rightarrow> 'a option \<Rightarrow> ('e, unit) result" where
  "if_some f v = (case v of None \<Rightarrow> Ok () | Some x \<Rightarrow> f x)"

text \<open>
  A loop that inserts a key of every element into a set and stops at the first key that is
  already there: the elements pass a check of their own first, in the order of the code.
\<close>

fun for_each_new :: "('a \<Rightarrow> ('e, unit) result) \<Rightarrow> ('a \<Rightarrow> 'k) \<Rightarrow> ('a \<Rightarrow> 'e) \<Rightarrow> 'k set \<Rightarrow> 'a list
    \<Rightarrow> ('e, unit) result" where
  "for_each_new f key dup seen [] = Ok ()"
| "for_each_new f key dup seen (x # xs) =
     then_do (f x) (\<lambda>_.
       if key x \<in> seen then Err (dup x)
       else for_each_new f key dup (insert (key x) seen) xs)"

text \<open>The same loop with work on the element left after the key was found new.\<close>

fun for_each_fresh :: "('a \<Rightarrow> ('e, unit) result) \<Rightarrow> ('a \<Rightarrow> 'k) \<Rightarrow> ('a \<Rightarrow> 'e)
    \<Rightarrow> ('a \<Rightarrow> ('e, unit) result) \<Rightarrow> 'k set \<Rightarrow> 'a list \<Rightarrow> ('e, unit) result" where
  "for_each_fresh f key dup g seen [] = Ok ()"
| "for_each_fresh f key dup g seen (x # xs) =
     then_do (f x) (\<lambda>_.
       if key x \<in> seen then Err (dup x)
       else then_do (g x) (\<lambda>_. for_each_fresh f key dup g (insert (key x) seen) xs))"

definition optb :: "('a \<Rightarrow> bool) \<Rightarrow> 'a option \<Rightarrow> bool" where
  "optb P v = (case v of None \<Rightarrow> False | Some x \<Rightarrow> P x)"

text \<open>\<^verbatim>\<open>[a, b, c].into_iter().flatten()\<close> over options.\<close>

fun flatten_options :: "'a option list \<Rightarrow> 'a list" where
  "flatten_options [] = []"
| "flatten_options (None # vs) = flatten_options vs"
| "flatten_options (Some v # vs) = v # flatten_options vs"

lemma set_flatten_options: "x \<in> set (flatten_options vs) \<longleftrightarrow> Some x \<in> set vs"
  by (induction vs rule: flatten_options.induct) auto

lemma then_do_ok [simp, accepts]: "then_do r f = Ok y \<longleftrightarrow> (\<exists>x. r = Ok x \<and> f x = Ok y)"
  by (cases r) (auto simp: then_do_def)

lemma then_do_simps [simp]: "then_do (Inl e) f = Inl e" "then_do (Inr x) f = f x"
  by (simp_all add: then_do_def)

lemma optb_simps [simp]: "optb P None = False" "optb P (Some x) = P x"
  by (simp_all add: optb_def)

lemma optb_iff: "optb P v \<longleftrightarrow> (\<exists>x. v = Some x \<and> P x)"
  by (cases v) auto

lemma reject_if_ok [simp, accepts]: "reject_if c e = Ok u \<longleftrightarrow> \<not> c"
  by (simp add: reject_if_def)

lemma reject_if_err [simp]: "reject_if c e = Err e' \<longleftrightarrow> c \<and> e' = e"
  by (auto simp: reject_if_def)

lemma steps_ok [accepts]: "steps rs = Ok u \<longleftrightarrow> (\<forall>r \<in> set rs. r = Ok ())"
  by (induction rs) auto

lemma steps_append: "steps (rs @ qs) = then_do (steps rs) (\<lambda>_. steps qs)"
  by (induction rs) (auto simp: then_do_def split: sum.splits)

lemma for_each_ok [simp, accepts]: "for_each f xs = Ok u \<longleftrightarrow> (\<forall>x \<in> set xs. f x = Ok ())"
  by (induction xs) auto

lemma if_some_ok [simp, accepts]: "if_some f v = Ok u \<longleftrightarrow> (\<forall>x. v = Some x \<longrightarrow> f x = Ok ())"
  by (cases v) (auto simp: if_some_def)

lemma for_each_new_ok_gen:
  "for_each_new f key dup seen xs = Ok u \<longleftrightarrow>
     (\<forall>x \<in> set xs. f x = Ok ()) \<and> distinct (map key xs) \<and> seen \<inter> key ` set xs = {}"
  by (induction xs arbitrary: seen) auto

lemma for_each_new_ok [simp, accepts]:
  "for_each_new f key dup {} xs = Ok u \<longleftrightarrow> (\<forall>x \<in> set xs. f x = Ok ()) \<and> distinct (map key xs)"
  by (simp add: for_each_new_ok_gen)

lemma for_each_fresh_ok_gen:
  "for_each_fresh f key dup g seen xs = Ok u \<longleftrightarrow>
     (\<forall>x \<in> set xs. f x = Ok () \<and> g x = Ok ()) \<and> distinct (map key xs) \<and> seen \<inter> key ` set xs = {}"
  by (induction xs arbitrary: seen) auto

lemma for_each_fresh_ok [simp, accepts]:
  "for_each_fresh f key dup g {} xs = Ok u \<longleftrightarrow>
     (\<forall>x \<in> set xs. f x = Ok () \<and> g x = Ok ()) \<and> distinct (map key xs)"
  by (simp add: for_each_fresh_ok_gen)

text \<open>An accepting run of \<open>steps\<close> accepted each of its steps, and the converse.\<close>

lemma steps_ConsI: "r = Ok () \<Longrightarrow> steps rs = Ok () \<Longrightarrow> steps (r # rs) = Ok ()"
  by simp

lemma steps_mem: "steps rs = Ok () \<Longrightarrow> r \<in> set rs \<Longrightarrow> r = Ok ()"
  by (simp add: steps_ok)

section \<open>Machine integers\<close>

definition checked_add :: "'n::len word \<Rightarrow> 'n word \<Rightarrow> 'n word option" where
  "checked_add a b = (if unat a + unat b < 2 ^ LENGTH('n) then Some (a + b) else None)"

definition saturating_add :: "'n::len word \<Rightarrow> 'n word \<Rightarrow> 'n word" where
  "saturating_add a b = (if unat a + unat b < 2 ^ LENGTH('n) then a + b else - 1)"

definition saturating_mul :: "'n::len word \<Rightarrow> 'n word \<Rightarrow> 'n word" where
  "saturating_mul a b = (if unat a * unat b < 2 ^ LENGTH('n) then a * b else - 1)"

text \<open>\<^verbatim>\<open>usize::saturating_add\<close> on a 64-bit target.\<close>

definition usize_saturating_add :: "nat \<Rightarrow> nat \<Rightarrow> nat" where
  "usize_saturating_add a b = min (a + b) (2 ^ 64 - 1)"

text \<open>\<^verbatim>\<open>uN::try_from(n).unwrap_or(uN::MAX)\<close> for a length \<open>n\<close>.\<close>

definition saturating_of_nat :: "nat \<Rightarrow> 'n::len word" where
  "saturating_of_nat n = (if n < 2 ^ LENGTH('n) then of_nat n else - 1)"

lemma unat_minus_one: "unat (- 1 :: 'n::len word) = 2 ^ LENGTH('n) - 1"
  by (simp add: unsigned_minus_1_eq_mask mask_eq_exp_minus_1)

lemma checked_add_Some [word_bounds]:
  "checked_add a b = Some c \<longleftrightarrow>
     c = a + b \<and> unat (a :: 'n::len word) + unat b < 2 ^ LENGTH('n)"
  by (auto simp: checked_add_def)

lemma unat_add_bounded:
  "unat (a :: 'n::len word) + unat b < 2 ^ LENGTH('n) \<Longrightarrow> unat (a + b) = unat a + unat b"
  by (simp add: unat_add_lem)

lemma unat_saturating_add [word_bounds]:
  "unat (saturating_add (a :: 'n::len word) b) = min (unat a + unat b) (2 ^ LENGTH('n) - 1)"
proof (cases "unat a + unat b < 2 ^ LENGTH('n)")
  case True
  then show ?thesis by (simp add: saturating_add_def unat_add_bounded)
next
  case False
  then show ?thesis by (simp add: saturating_add_def unat_minus_one)
qed

lemma unat_saturating_mul [word_bounds]:
  "unat (saturating_mul (a :: 'n::len word) b) = min (unat a * unat b) (2 ^ LENGTH('n) - 1)"
proof (cases "unat a * unat b < 2 ^ LENGTH('n)")
  case True
  then have "unat (a * b) = unat a * unat b" by (simp add: unat_mult_lem)
  with True show ?thesis by (simp add: saturating_mul_def)
next
  case False
  then show ?thesis by (simp add: saturating_mul_def unat_minus_one)
qed

lemma unat_saturating_of_nat [word_bounds]:
  "unat (saturating_of_nat n :: 'n::len word) = min n (2 ^ LENGTH('n) - 1)"
  by (auto simp: saturating_of_nat_def unat_minus_one unat_of_nat take_bit_eq_mod)

text \<open>Evaluation compares words and integers, never unary numbers.\<close>

lemma nat_mod_wrap: "(m::nat) \<le> n \<Longrightarrow> n < 2 * m \<Longrightarrow> n mod m = n - m"
  by (simp add: le_mod_geq)

lemma overflow_iff: "unat (a :: 'n::len word) + unat b < 2 ^ LENGTH('n) \<longleftrightarrow> a \<le> a + b"
proof
  assume "unat a + unat b < 2 ^ LENGTH('n)"
  then show "a \<le> a + b" by (simp add: word_le_nat_alt unat_add_bounded)
next
  assume le: "a \<le> a + b"
  show "unat a + unat b < 2 ^ LENGTH('n)"
  proof (rule ccontr)
    assume over: "\<not> unat a + unat b < 2 ^ LENGTH('n)"
    have a: "unat a < 2 ^ LENGTH('n)" and b: "unat b < 2 ^ LENGTH('n)" by simp_all
    have wrap: "unat (a + b) = (unat a + unat b) mod 2 ^ LENGTH('n)" by (rule unat_word_ariths(1))
    have "(unat a + unat b) mod 2 ^ LENGTH('n) = unat a + unat b - 2 ^ LENGTH('n)"
      by (rule nat_mod_wrap) (use over a b in linarith)+
    with wrap over b have "unat (a + b) < unat a" by linarith
    with le show False by (simp add: word_le_nat_alt)
  qed
qed

lemma checked_add_code [code]: "checked_add a b = (if a \<le> a + b then Some (a + b) else None)"
  by (simp add: checked_add_def overflow_iff)

lemma saturating_add_code [code]: "saturating_add a b = (if a \<le> a + b then a + b else - 1)"
  by (simp add: saturating_add_def overflow_iff)

lemma saturating_mul_code [code]:
  "saturating_mul (a :: 'n::len word) b = (if uint a * uint b < 2 ^ LENGTH('n) then a * b else - 1)"
proof -
  have "uint a * uint b < 2 ^ LENGTH('n) \<longleftrightarrow> int (unat a * unat b) < int (2 ^ LENGTH('n))"
    by simp
  then show ?thesis unfolding saturating_mul_def by (simp only: of_nat_less_iff)
qed

lemma saturating_of_nat_code [code]:
  "saturating_of_nat n = (if int n < 2 ^ LENGTH('n) then of_nat n else - 1 :: 'n::len word)"
proof -
  have "int n < 2 ^ LENGTH('n) \<longleftrightarrow> n < 2 ^ LENGTH('n)" by (metis of_nat_less_iff of_nat_numeral of_nat_power)
  then show ?thesis by (simp add: saturating_of_nat_def)
qed

section \<open>Lists\<close>

lemma distinct_map_index_inj:
  "distinct (map f xs) \<Longrightarrow> i < length xs \<Longrightarrow> j < length xs \<Longrightarrow> f (xs ! i) = f (xs ! j) \<Longrightarrow> i = j"
  by (metis distinct_conv_nth length_map nth_map)

lemma filter_length_le_imp_eq:
  "(\<And>x. Q x \<Longrightarrow> P x) \<Longrightarrow> length (filter Q xs) = length (filter P xs) \<Longrightarrow>
     x \<in> set xs \<Longrightarrow> P x \<Longrightarrow> Q x"
proof (induction xs)
  case (Cons a xs)
  have "length (filter Q xs) \<le> length (filter P xs)"
    by (induction xs) (auto dest: Cons.prems(1))
  with Cons show ?case by (auto split: if_splits)
qed simp

text \<open>In a strictly descending list the position of an element counts the greater ones.\<close>

lemma descending_nth_rank:
  "sorted_wrt (>) (xs :: 'a::linorder list) \<Longrightarrow> i < length xs \<Longrightarrow> length (filter (\<lambda>x. xs ! i < x) xs) = i"
proof (induction xs arbitrary: i)
  case (Cons x xs)
  show ?case
  proof (cases i)
    case 0
    with Cons.prems show ?thesis by (auto simp: filter_empty_conv)
  next
    case (Suc j)
    with Cons show ?thesis by simp
  qed
qed simp

text \<open>The minimum a loop of \<^verbatim>\<open>map_or(x, |current| current.min(x))\<close> keeps.\<close>

definition min_option :: "'a::linorder option \<Rightarrow> 'a \<Rightarrow> 'a option" where
  "min_option current x = Some (case current of None \<Rightarrow> x | Some c \<Rightarrow> min c x)"

lemma fold_min_option:
  "fold (\<lambda>x m. min_option m x) xs m = Some y \<Longrightarrow>
     (y \<in> set xs \<or> m = Some y) \<and> (\<forall>x \<in> set xs. y \<le> x) \<and> (\<forall>c. m = Some c \<longrightarrow> y \<le> c)"
proof (induction xs arbitrary: m)
  case (Cons a xs)
  then have "(y \<in> set xs \<or> min_option m a = Some y) \<and> (\<forall>x \<in> set xs. y \<le> x) \<and>
      (\<forall>c. min_option m a = Some c \<longrightarrow> y \<le> c)" by simp
  then show ?case by (cases m) (auto simp: min_option_def min_def split: if_splits)
qed simp

lemma fold_min_option_None: "fold (\<lambda>x m. min_option m x) xs m = None \<longleftrightarrow> xs = [] \<and> m = None"
  by (induction xs arbitrary: m) (auto simp: min_option_def)

end
