(* ===== verification/Rust_Text.thy ===== *)
theory Rust_Text
  imports Prelude "HOL-Library.Sublist"
begin

text \<open>
  The parts of Rust's text and path libraries the code uses: byte classes, prefixes and
  suffixes of strings, and Unix paths read through \<^verbatim>\<open>Path::components\<close>.
\<close>

section \<open>Bytes and strings\<close>

definition is_ascii_lowercase :: "char \<Rightarrow> bool" where
  "is_ascii_lowercase c \<longleftrightarrow> 97 \<le> (of_char c :: nat) \<and> (of_char c :: nat) \<le> 122"

definition is_ascii_uppercase :: "char \<Rightarrow> bool" where
  "is_ascii_uppercase c \<longleftrightarrow> 65 \<le> (of_char c :: nat) \<and> (of_char c :: nat) \<le> 90"

definition is_ascii_digit :: "char \<Rightarrow> bool" where
  "is_ascii_digit c \<longleftrightarrow> 48 \<le> (of_char c :: nat) \<and> (of_char c :: nat) \<le> 57"

definition is_ascii_alphanumeric :: "char \<Rightarrow> bool" where
  "is_ascii_alphanumeric c \<longleftrightarrow> is_ascii_lowercase c \<or> is_ascii_uppercase c \<or> is_ascii_digit c"

definition is_lower_hex :: "char \<Rightarrow> bool" where
  "is_lower_hex c \<longleftrightarrow> is_ascii_digit c \<or> 97 \<le> (of_char c :: nat) \<and> (of_char c :: nat) \<le> 102"

definition is_ascii_hexdigit :: "char \<Rightarrow> bool" where
  "is_ascii_hexdigit c \<longleftrightarrow> is_lower_hex c \<or> 65 \<le> (of_char c :: nat) \<and> (of_char c :: nat) \<le> 70"

definition nul :: char where
  "nul = CHR 0x00"

lemmas ascii_defs = is_ascii_lowercase_def is_ascii_uppercase_def is_ascii_digit_def
  is_ascii_alphanumeric_def is_lower_hex_def is_ascii_hexdigit_def nul_def

text \<open>
  \<^verbatim>\<open>chars().any(char::is_control)\<close> on the UTF-8 bytes: the control characters are U+0000 to
  U+001F and U+007F, each a single byte, and U+0080 to U+009F, each the byte 194 followed by a
  byte from 128 to 159.
\<close>

fun has_control :: "string \<Rightarrow> bool" where
  "has_control [] = False"
| "has_control (c # cs) =
     ((of_char c :: nat) < 32 \<or> (of_char c :: nat) = 127 \<or>
      (of_char c :: nat) = 194 \<and>
        (case cs of [] \<Rightarrow> False | d # _ \<Rightarrow> 128 \<le> (of_char d :: nat) \<and> (of_char d :: nat) \<le> 159) \<or>
      has_control cs)"

definition str_starts_with :: "string \<Rightarrow> string \<Rightarrow> bool" where
  "str_starts_with s p \<longleftrightarrow> take (length p) s = p"

definition str_ends_with :: "string \<Rightarrow> string \<Rightarrow> bool" where
  "str_ends_with s p \<longleftrightarrow> length p \<le> length s \<and> drop (length s - length p) s = p"

definition strip_prefix :: "string \<Rightarrow> string \<Rightarrow> string option" where
  "strip_prefix p s = (if str_starts_with s p then Some (drop (length p) s) else None)"

definition str_contains :: "string \<Rightarrow> string \<Rightarrow> bool" where
  "str_contains s part = list_ex (\<lambda>suffix. str_starts_with suffix part) (suffixes s)"

definition to_ascii_lower :: "char \<Rightarrow> char" where
  "to_ascii_lower c = (if is_ascii_uppercase c then char_of ((of_char c :: nat) + 32) else c)"

definition to_ascii_lowercase :: "string \<Rightarrow> string" where
  "to_ascii_lowercase s = map to_ascii_lower s"

definition is_ascii_whitespace :: "char \<Rightarrow> bool" where
  "is_ascii_whitespace c \<longleftrightarrow> c = CHR '' '' \<or> c = CHR 0x09 \<or> c = CHR 0x0A \<or> c = CHR 0x0C \<or> c = CHR 0x0D"

text \<open>\<^verbatim>\<open>s.bytes().enumerate().all(..)\<close> where only the first byte is treated apart.\<close>

definition all_bytes :: "(char \<Rightarrow> bool) \<Rightarrow> (char \<Rightarrow> bool) \<Rightarrow> string \<Rightarrow> bool" where
  "all_bytes first rest s = (case s of [] \<Rightarrow> True | c # cs \<Rightarrow> first c \<and> list_all rest cs)"

lemma str_starts_with_prefix: "str_starts_with s p \<longleftrightarrow> prefix p s"
  by (simp add: str_starts_with_def) (metis append_eq_conv_conj prefix_def take_is_prefix)

lemma strip_prefix_Some: "strip_prefix p s = Some r \<longleftrightarrow> s = p @ r"
  by (auto simp: strip_prefix_def str_starts_with_def) (metis append_take_drop_id)

lemma all_bytes_set:
  "all_bytes first rest s \<Longrightarrow> (\<And>c. first c \<Longrightarrow> rest c) \<Longrightarrow> c \<in> set s \<Longrightarrow> rest c"
  by (cases s) (auto simp: all_bytes_def list_all_iff)

section \<open>Character boundaries\<close>

text \<open>
  \<^verbatim>\<open>str::is_char_boundary\<close>: an index that does not stand before a continuation byte of UTF-8; and
  the loop that lowers an index until it is one, at the latest at 0.
\<close>

definition is_continuation_byte :: "char \<Rightarrow> bool" where
  "is_continuation_byte c \<longleftrightarrow> 128 \<le> (of_char c :: nat) \<and> (of_char c :: nat) < 192"

definition is_char_boundary :: "string \<Rightarrow> nat \<Rightarrow> bool" where
  "is_char_boundary s i \<longleftrightarrow> i = 0 \<or> i = length s \<or> i < length s \<and> \<not> is_continuation_byte (s ! i)"

fun boundary_below :: "string \<Rightarrow> nat \<Rightarrow> nat" where
  "boundary_below s 0 = 0"
| "boundary_below s (Suc n) = (if is_char_boundary s (Suc n) then Suc n else boundary_below s n)"

lemma boundary_below_le: "boundary_below s n \<le> n"
  by (induction n) auto

lemma boundary_below_boundary: "is_char_boundary s (boundary_below s n)"
  by (induction n) (auto simp: is_char_boundary_def)

lemma boundary_below_greatest:
  "i \<le> n \<Longrightarrow> is_char_boundary s i \<Longrightarrow> i \<le> boundary_below s n"
  by (induction n) (auto simp: le_Suc_eq)

section \<open>Unix paths\<close>

datatype component = RootDir | CurDir | ParentDir | Normal string

text \<open>The segments between separators; \<^verbatim>\<open>a//b\<close> has an empty one.\<close>

fun segments :: "string \<Rightarrow> string list" where
  "segments [] = [[]]"
| "segments (c # cs) =
     (if c = CHR ''/'' then [] # segments cs
      else (case segments cs of [] \<Rightarrow> [[c]] | s # ss \<Rightarrow> (c # s) # ss))"

text \<open>
  \<^verbatim>\<open>Path::components\<close> drops empty segments and every \<^verbatim>\<open>.\<close> except one that starts a relative
  path.
\<close>

definition segment_component :: "string \<Rightarrow> component list" where
  "segment_component s =
     (if s = [] \<or> s = ''.'' then [] else if s = ''..'' then [ParentDir] else [Normal s])"

definition is_absolute :: "string \<Rightarrow> bool" where
  "is_absolute p = (case p of [] \<Rightarrow> False | c # _ \<Rightarrow> c = CHR ''/'')"

definition components :: "string \<Rightarrow> component list" where
  "components p =
     (if is_absolute p then [RootDir] else if hd (segments p) = ''.'' then [CurDir] else [])
     @ concat (map segment_component (segments p))"

text \<open>\<^verbatim>\<open>Path::starts_with\<close> compares whole components.\<close>

definition path_starts_with :: "string \<Rightarrow> string \<Rightarrow> bool" where
  "path_starts_with p base \<longleftrightarrow> prefix (components base) (components p)"

lemma segments_nonempty [simp]: "segments p \<noteq> []"
  by (induction p) (auto split: list.splits)

lemma segment_component_normal:
  "x \<in> set (segment_component s) \<Longrightarrow> x = ParentDir \<or> (\<exists>n. x = Normal n \<and> n \<noteq> [])"
  by (auto simp: segment_component_def split: if_splits)

lemma path_starts_with_refl [simp]: "path_starts_with p p"
  by (simp add: path_starts_with_def)

lemma path_starts_with_trans:
  "path_starts_with p q \<Longrightarrow> path_starts_with q r \<Longrightarrow> path_starts_with p r"
  unfolding path_starts_with_def by (rule prefix_order.trans)

text \<open>Appending a path behind a separator appends its segments.\<close>

lemma segments_append_slash: "segments (p @ CHR ''/'' # q) = segments p @ segments q"
proof (induction p)
  case (Cons c p)
  then show ?case by (cases "segments p") (auto split: list.splits)
qed simp

lemma is_absolute_append [simp]: "is_absolute p \<Longrightarrow> is_absolute (p @ q)"
  by (cases p) (auto simp: is_absolute_def)

lemma components_join:
  assumes "is_absolute p"
  shows "components (p @ CHR ''/'' # q) =
           components p @ concat (map segment_component (segments q))"
  using assms by (simp add: components_def segments_append_slash)

lemma components_relative:
  assumes "\<not> is_absolute q" and "\<forall>x \<in> set (components q). \<exists>n. x = Normal n"
  shows "components q = concat (map segment_component (segments q))"
proof -
  have "CurDir \<notin> set (components q)" using assms(2) by auto
  then show ?thesis using assms(1) by (auto simp: components_def split: if_splits)
qed

end
