(* ===== verification/BTree_Map.thy ===== *)
theory BTree_Map
  imports Prelude
begin

text \<open>
  The standard library's \<^verbatim>\<open>BTreeMap\<close> and \<^verbatim>\<open>BTreeSet\<close>: an association list in ascending key
  order, which is the order in which the code iterates over one.  The interface of a keyed
  store (what a lookup returns after an insertion or a removal, how the size follows) is the
  locale \<open>keyed_store\<close>; the components that keep their state in such maps use its facts.
\<close>

type_synonym ('k, 'v) btree_map = "('k \<times> 'v) list"

section \<open>Operations\<close>

abbreviation bt_get :: "('k, 'v) btree_map \<Rightarrow> 'k \<Rightarrow> 'v option" where
  "bt_get \<equiv> map_of"

fun bt_insert :: "'k::linorder \<Rightarrow> 'v \<Rightarrow> ('k, 'v) btree_map \<Rightarrow> ('k, 'v) btree_map" where
  "bt_insert k v [] = [(k, v)]"
| "bt_insert k v ((k', v') # m) =
     (if k = k' then (k, v) # m
      else if k < k' then (k, v) # (k', v') # m
      else (k', v') # bt_insert k v m)"

definition bt_remove :: "'k \<Rightarrow> ('k, 'v) btree_map \<Rightarrow> ('k, 'v) btree_map" where
  "bt_remove k m = filter (\<lambda>p. fst p \<noteq> k) m"

definition bt_retain :: "('k \<Rightarrow> 'v \<Rightarrow> bool) \<Rightarrow> ('k, 'v) btree_map \<Rightarrow> ('k, 'v) btree_map" where
  "bt_retain P m = filter (\<lambda>p. P (fst p) (snd p)) m"

definition bt_modify :: "'k \<Rightarrow> ('v \<Rightarrow> 'v) \<Rightarrow> ('k, 'v) btree_map \<Rightarrow> ('k, 'v) btree_map" where
  "bt_modify k f m = map (\<lambda>p. if fst p = k then (k, f (snd p)) else p) m"

definition bt_map :: "('v \<Rightarrow> 'v) \<Rightarrow> ('k, 'v) btree_map \<Rightarrow> ('k, 'v) btree_map" where
  "bt_map f m = map (\<lambda>p. (fst p, f (snd p))) m"

definition bt_contains :: "('k, 'v) btree_map \<Rightarrow> 'k \<Rightarrow> bool" where
  "bt_contains m k \<longleftrightarrow> bt_get m k \<noteq> None"

definition bt_any :: "('k \<Rightarrow> 'v \<Rightarrow> bool) \<Rightarrow> ('k, 'v) btree_map \<Rightarrow> bool" where
  "bt_any P m = list_ex (\<lambda>p. P (fst p) (snd p)) m"

definition bt_ok :: "('k::linorder, 'v) btree_map \<Rightarrow> bool" where
  "bt_ok m = sorted_wrt (<) (map fst m)"

section \<open>The interface of a keyed store\<close>

locale keyed_store =
  fixes get :: "'m \<Rightarrow> 'k \<Rightarrow> 'v option"
    and insert :: "'k \<Rightarrow> 'v \<Rightarrow> 'm \<Rightarrow> 'm"
    and remove :: "'k \<Rightarrow> 'm \<Rightarrow> 'm"
    and len :: "'m \<Rightarrow> nat"
    and ok :: "'m \<Rightarrow> bool"
  assumes get_insert: "ok m \<Longrightarrow> get (insert k v m) = (get m)(k \<mapsto> v)"
    and get_remove: "ok m \<Longrightarrow> get (remove k m) = (get m)(k := None)"
    and ok_insert: "ok m \<Longrightarrow> ok (insert k v m)"
    and ok_remove: "ok m \<Longrightarrow> ok (remove k m)"
    and finite_get: "finite (dom (get m))"
    and len_card: "ok m \<Longrightarrow> len m = card (dom (get m))"
begin

lemma len_insert:
  "ok m \<Longrightarrow> len (insert k v m) = (if get m k = None then Suc (len m) else len m)"
  by (auto simp: len_card ok_insert get_insert finite_get insert_absorb domIff)

lemma len_remove:
  "ok m \<Longrightarrow> len (remove k m) = (if get m k = None then len m else len m - 1)"
  by (auto simp: len_card ok_remove get_remove finite_get domIff)

lemma len_remove_less: "ok m \<Longrightarrow> get m k = Some v \<Longrightarrow> len (remove k m) < len m"
  using finite_get [of m]
  by (simp add: len_card ok_remove get_remove card_Diff1_less domI del: card_Diff_insert)

lemma get_insert_same: "ok m \<Longrightarrow> get (insert k v m) k = Some v"
  by (simp add: get_insert)

end

section \<open>Laws of the model\<close>

lemma fst_set_bt_insert: "fst ` set (bt_insert k v m) = insert k (fst ` set m)"
  by (induction k v m rule: bt_insert.induct) auto

lemma bt_ok_insert [simp]: "bt_ok m \<Longrightarrow> bt_ok (bt_insert k v m)"
proof (induction k v m rule: bt_insert.induct)
  case (2 k v k' v' m)
  then show ?case using fst_set_bt_insert [of k v m]
    by (auto simp: bt_ok_def)
qed (simp add: bt_ok_def)

lemma bt_ok_filter: "bt_ok m \<Longrightarrow> bt_ok (filter P m)"
  by (induction m) (auto simp: bt_ok_def)

lemma bt_ok_remove [simp]: "bt_ok m \<Longrightarrow> bt_ok (bt_remove k m)"
  unfolding bt_remove_def by (rule bt_ok_filter)

lemma bt_ok_retain [simp]: "bt_ok m \<Longrightarrow> bt_ok (bt_retain P m)"
  unfolding bt_retain_def by (rule bt_ok_filter)

lemma bt_keys_modify [simp]: "map fst (bt_modify k f m) = map fst m"
  by (simp add: bt_modify_def)

lemma bt_keys_map [simp]: "map fst (bt_map f m) = map fst m"
  by (simp add: bt_map_def)

lemma bt_ok_modify [simp]: "bt_ok (bt_modify k f m) = bt_ok m"
  by (simp add: bt_ok_def)

lemma bt_ok_map [simp]: "bt_ok (bt_map f m) = bt_ok m"
  by (simp add: bt_ok_def)

lemma bt_ok_Nil [simp]: "bt_ok []"
  by (simp add: bt_ok_def)

lemma bt_distinct: "bt_ok m \<Longrightarrow> distinct (map fst m)"
  unfolding bt_ok_def by (simp add: strict_sorted_iff)

lemma bt_get_Some: "bt_ok m \<Longrightarrow> bt_get m k = Some v \<longleftrightarrow> (k, v) \<in> set m"
  by (simp add: bt_distinct)

lemma bt_get_None: "bt_get m k = None \<longleftrightarrow> k \<notin> fst ` set m"
  by (rule map_of_eq_None_iff)

lemma bt_get_insert: "bt_ok m \<Longrightarrow> bt_get (bt_insert k v m) = (bt_get m)(k \<mapsto> v)"
proof (induction k v m rule: bt_insert.induct)
  case (2 k v k' v' m)
  then show ?case by (auto simp: bt_ok_def fun_eq_iff)
qed (simp add: fun_eq_iff)

lemma bt_get_remove: "bt_get (bt_remove k m) = (bt_get m)(k := None)"
  unfolding bt_remove_def by (induction m) (auto simp: fun_eq_iff)

lemma bt_get_modify: "bt_get (bt_modify k f m) = (bt_get m)(k := map_option f (bt_get m k))"
  unfolding bt_modify_def by (induction m) (auto simp: fun_eq_iff)

lemma bt_get_map: "bt_get (bt_map f m) k = map_option f (bt_get m k)"
  unfolding bt_map_def by (induction m) auto

lemma bt_get_retain:
  "bt_ok m \<Longrightarrow> bt_get (bt_retain P m) k =
     (case bt_get m k of None \<Rightarrow> None | Some v \<Rightarrow> if P k v then Some v else None)"
proof (induction m)
  case (Cons p m)
  have "bt_get m (fst p) = None"
    using Cons.prems by (auto simp: bt_ok_def bt_get_None)
  moreover have "bt_ok m" using Cons.prems by (simp add: bt_ok_def)
  ultimately show ?case
    using Cons.IH by (auto simp: bt_retain_def split: option.splits)
qed (simp add: bt_retain_def)

lemma length_bt_modify [simp]: "length (bt_modify k f m) = length m"
  by (simp add: bt_modify_def)

lemma length_bt_map [simp]: "length (bt_map f m) = length m"
  by (simp add: bt_map_def)

lemma length_bt_retain: "length (bt_retain P m) \<le> length m"
  by (simp add: bt_retain_def)

lemma length_bt_remove: "length (bt_remove k m) \<le> length m"
  by (simp add: bt_remove_def)

lemma bt_any_iff: "bt_ok m \<Longrightarrow> bt_any P m \<longleftrightarrow> (\<exists>k v. bt_get m k = Some v \<and> P k v)"
  by (force simp: bt_any_def list_ex_iff bt_get_Some)

lemma bt_len_card: "bt_ok m \<Longrightarrow> length m = card (dom (bt_get m))"
  by (metis bt_distinct distinct_card dom_map_of_conv_image_fst length_map set_map)

lemmas bt_get_simps = bt_get_insert bt_get_remove bt_get_modify bt_get_map bt_get_retain

interpretation btm: keyed_store bt_get bt_insert bt_remove length bt_ok
  by unfold_locales (simp_all add: bt_get_insert bt_get_remove finite_dom_map_of bt_len_card)

end
