(* ===== verification/F64.thy ===== *)
theory F64
  imports Prelude Complex_Main "HOL-Library.Log_Nat"
begin

text \<open>
  IEEE 754 binary64 values as the code uses them (\<^verbatim>\<open>f64\<close>): a finite value is the rational it
  denotes, arithmetic is exact arithmetic followed by rounding to the nearest binary64 value,
  ties to even, and comparisons with a NaN are false.  The two zeros are one value: no
  computation of the code tells them apart.
\<close>

datatype f64 = Finite rat | Infinite bool | NaN

section \<open>Rounding\<close>

text \<open>\<open>binary_exponent x\<close> is the \<open>e\<close> with \<open>2 ^ e \<le> x < 2 ^ (e + 1)\<close>, for a positive \<open>x\<close>.\<close>

definition binary_exponent :: "rat \<Rightarrow> int" where
  "binary_exponent x =
     (let (n, d) = quotient_of x; k = int (floorlog 2 (nat n)) - int (floorlog 2 (nat d))
      in if 2 powi k \<le> x then k else k - 1)"

definition unit_in_last_place :: "rat \<Rightarrow> rat" where
  "unit_in_last_place x = 2 powi (max (binary_exponent x - 52) (- 1074))"

definition round_half_even :: "rat \<Rightarrow> int" where
  "round_half_even q =
     (let n = \<lfloor>q\<rfloor>; r = q - of_int n
      in if r < 1 / 2 then n else if 1 / 2 < r then n + 1 else if even n then n else n + 1)"

definition f64_of_rat :: "rat \<Rightarrow> f64" where
  "f64_of_rat x =
     (if x = 0 then Finite 0
      else let u = unit_in_last_place \<bar>x\<bar>; y = of_int (round_half_even (x / u)) * u
           in if 2 ^ 1024 \<le> \<bar>y\<bar> then Infinite (y < 0) else Finite y)"

section \<open>Operations\<close>

fun f64_is_finite :: "f64 \<Rightarrow> bool" where
  "f64_is_finite (Finite x) = True"
| "f64_is_finite _ = False"

fun f64_less :: "f64 \<Rightarrow> f64 \<Rightarrow> bool" where
  "f64_less (Finite x) (Finite y) = (x < y)"
| "f64_less (Finite x) (Infinite neg) = (\<not> neg)"
| "f64_less (Infinite neg) (Finite y) = neg"
| "f64_less (Infinite n) (Infinite m) = (n \<and> \<not> m)"
| "f64_less _ _ = False"

definition f64_greater_eq :: "f64 \<Rightarrow> f64 \<Rightarrow> bool" where
  "f64_greater_eq x y \<longleftrightarrow> f64_less y x \<or> x = y \<and> x \<noteq> NaN"

fun f64_add :: "f64 \<Rightarrow> f64 \<Rightarrow> f64" where
  "f64_add (Finite x) (Finite y) = f64_of_rat (x + y)"
| "f64_add (Finite x) (Infinite n) = Infinite n"
| "f64_add (Infinite n) (Finite y) = Infinite n"
| "f64_add (Infinite n) (Infinite m) = (if n = m then Infinite n else NaN)"
| "f64_add _ _ = NaN"

fun f64_neg :: "f64 \<Rightarrow> f64" where
  "f64_neg (Finite x) = Finite (- x)"
| "f64_neg (Infinite n) = Infinite (\<not> n)"
| "f64_neg NaN = NaN"

definition f64_sub :: "f64 \<Rightarrow> f64 \<Rightarrow> f64" where
  "f64_sub x y = f64_add x (f64_neg y)"

fun f64_abs :: "f64 \<Rightarrow> f64" where
  "f64_abs (Finite x) = Finite \<bar>x\<bar>"
| "f64_abs (Infinite n) = Infinite False"
| "f64_abs NaN = NaN"

text \<open>\<^verbatim>\<open>f64::max\<close> returns the other operand when one is a NaN.\<close>

definition f64_max :: "f64 \<Rightarrow> f64 \<Rightarrow> f64" where
  "f64_max x y = (if x = NaN then y else if y = NaN then x else if f64_less x y then y else x)"

text \<open>\<^verbatim>\<open>n as f64 / d as f64\<close> for integers.\<close>

definition f64_of_nat :: "nat \<Rightarrow> f64" where
  "f64_of_nat n = f64_of_rat (of_nat n)"

fun f64_div :: "f64 \<Rightarrow> f64 \<Rightarrow> f64" where
  "f64_div (Finite x) (Finite y) =
     (if y = 0 then (if x = 0 then NaN else Infinite (x < 0)) else f64_of_rat (x / y))"
| "f64_div (Finite x) (Infinite n) = Finite 0"
| "f64_div (Infinite n) (Finite y) = Infinite (n \<noteq> (y < 0))"
| "f64_div _ _ = NaN"

fun f64_mul :: "f64 \<Rightarrow> f64 \<Rightarrow> f64" where
  "f64_mul (Finite x) (Finite y) = f64_of_rat (x * y)"
| "f64_mul (Finite x) (Infinite n) = (if x = 0 then NaN else Infinite (n \<noteq> (x < 0)))"
| "f64_mul (Infinite n) (Finite y) = (if y = 0 then NaN else Infinite (n \<noteq> (y < 0)))"
| "f64_mul (Infinite n) (Infinite m) = Infinite (n \<noteq> m)"
| "f64_mul _ _ = NaN"

text \<open>\<^verbatim>\<open>f64::round\<close>: to the nearest integer, halves away from zero.\<close>

fun f64_round :: "f64 \<Rightarrow> f64" where
  "f64_round (Finite x) =
     Finite (if 0 \<le> x then of_int \<lfloor>x + 1 / 2\<rfloor> else of_int \<lceil>x - 1 / 2\<rceil>)"
| "f64_round (Infinite n) = Infinite n"
| "f64_round NaN = NaN"

definition non_negative_finite :: "f64 \<Rightarrow> bool" where
  "non_negative_finite x \<longleftrightarrow> f64_is_finite x \<and> \<not> f64_less x (Finite 0)"

section \<open>Facts\<close>

lemma f64_is_finite_iff: "f64_is_finite x \<longleftrightarrow> (\<exists>q. x = Finite q)"
  by (cases x) auto

lemma non_negative_finite_iff: "non_negative_finite x \<longleftrightarrow> (\<exists>q \<ge> 0. x = Finite q)"
  by (cases x) (auto simp: non_negative_finite_def)

lemma f64_max_zero: "f64_max x (Finite 0) = Finite q \<Longrightarrow> 0 \<le> q"
  by (cases x) (auto simp: f64_max_def split: if_splits)

lemma round_half_even_of_int [simp]: "round_half_even (of_int n) = n"
  by (simp add: round_half_even_def Let_def)

lemma round_half_even_nonneg: "0 \<le> q \<Longrightarrow> 0 \<le> round_half_even q"
proof -
  assume "0 \<le> q"
  then have "0 \<le> \<lfloor>q\<rfloor>" by simp
  then show ?thesis by (auto simp: round_half_even_def Let_def)
qed

lemma unit_in_last_place_pos: "0 < unit_in_last_place x"
  by (simp add: unit_in_last_place_def)

text \<open>Rounding a non-negative rational never yields a negative value or a NaN.\<close>

lemma f64_of_rat_nonneg:
  "0 \<le> x \<Longrightarrow> f64_of_rat x = Infinite False \<or> (\<exists>q \<ge> 0. f64_of_rat x = Finite q)"
proof -
  assume "0 \<le> x"
  then have "0 \<le> round_half_even (x / unit_in_last_place \<bar>x\<bar>)"
    by (simp add: round_half_even_nonneg order_less_imp_le [OF unit_in_last_place_pos])
  then have "0 \<le> (of_int (round_half_even (x / unit_in_last_place \<bar>x\<bar>)) :: rat)
                  * unit_in_last_place \<bar>x\<bar>"
    by (simp add: order_less_imp_le [OF unit_in_last_place_pos])
  then show ?thesis by (auto simp: f64_of_rat_def Let_def)
qed

end
