(* ===== verification/Protocol_Types.thy ===== *)
theory Protocol_Types
  imports Rust_Text BTree_Map F64
begin

text \<open>
  The data of the executor contract, \<^verbatim>\<open>src/rust/executor-protocol/src/lib.rs\<close>: every enum is a
  datatype with the source's constructors (\<open>LeafStatus.Passed\<close> for \<^verbatim>\<open>LeafStatus::Passed\<close>), every
  struct a record whose fields carry the struct's initials (\<open>cp_name\<close> is \<^verbatim>\<open>CheckPlan::name\<close>).
  A \<^verbatim>\<open>ContractError\<close> keeps the format string of its message and the values put into it.
\<close>

section \<open>Bounds\<close>

definition EXECUTOR_SCHEMA :: u8 where "EXECUTOR_SCHEMA = 2"
definition MAX_TIMEOUT_SECONDS :: u64 where "MAX_TIMEOUT_SECONDS = 86400"
definition MAX_MANIFEST_BYTES :: nat where "MAX_MANIFEST_BYTES = 2 * 1024 * 1024"
definition MAX_REPORT_BYTES :: nat where "MAX_REPORT_BYTES = 2 * 1024 * 1024"
definition MAX_EVENT_BYTES :: nat where "MAX_EVENT_BYTES = 4096"
definition MAX_CASES :: nat where "MAX_CASES = 4096"
definition MAX_FAILURE_INDEX :: nat where "MAX_FAILURE_INDEX = 128"
definition MAX_ARG_BYTES :: nat where "MAX_ARG_BYTES = 4096"
definition MAX_CASE_ARG_BYTES :: nat where "MAX_CASE_ARG_BYTES = 64 * 1024"
definition MAX_COMMAND_ARGS :: nat where "MAX_COMMAND_ARGS = 256"
definition MAX_CASE_ARGS :: nat where "MAX_CASE_ARGS = 64"
definition MAX_DIAGNOSTIC_SOURCES :: nat where "MAX_DIAGNOSTIC_SOURCES = 8"
definition MAX_DIAGNOSTIC_EVENTS :: nat where "MAX_DIAGNOSTIC_EVENTS = 4096"
definition MAX_DIAGNOSTIC_PREVIEW_BYTES :: nat where "MAX_DIAGNOSTIC_PREVIEW_BYTES = 256"
definition MAX_DIAGNOSTIC_NAME_BYTES :: nat where "MAX_DIAGNOSTIC_NAME_BYTES = 256"
definition MAX_DIAGNOSTIC_PATH_BYTES :: nat where "MAX_DIAGNOSTIC_PATH_BYTES = 512"
definition MAX_DIAGNOSTIC_LOG_REFS :: nat where "MAX_DIAGNOSTIC_LOG_REFS = 16"
definition MAX_RETAINED_ARTIFACTS :: nat where "MAX_RETAINED_ARTIFACTS = 8"
definition MAX_RETAINED_ARTIFACT_BYTES :: u64 where
  "MAX_RETAINED_ARTIFACT_BYTES = 1024 * 1024 * 1024"
definition MAX_RETAINED_ARTIFACT_TOTAL_BYTES :: u64 where
  "MAX_RETAINED_ARTIFACT_TOTAL_BYTES = 2 * 1024 * 1024 * 1024"

lemmas protocol_bounds = EXECUTOR_SCHEMA_def MAX_TIMEOUT_SECONDS_def MAX_MANIFEST_BYTES_def
  MAX_REPORT_BYTES_def MAX_EVENT_BYTES_def MAX_CASES_def MAX_FAILURE_INDEX_def MAX_ARG_BYTES_def
  MAX_CASE_ARG_BYTES_def MAX_COMMAND_ARGS_def MAX_CASE_ARGS_def MAX_DIAGNOSTIC_SOURCES_def
  MAX_DIAGNOSTIC_EVENTS_def MAX_DIAGNOSTIC_PREVIEW_BYTES_def MAX_DIAGNOSTIC_NAME_BYTES_def
  MAX_DIAGNOSTIC_PATH_BYTES_def MAX_DIAGNOSTIC_LOG_REFS_def MAX_RETAINED_ARTIFACTS_def
  MAX_RETAINED_ARTIFACT_BYTES_def MAX_RETAINED_ARTIFACT_TOTAL_BYTES_def

section \<open>Errors\<close>

datatype ContractError = ContractError string "string list"

abbreviation contract_error :: "string \<Rightarrow> ContractError" where
  "contract_error message \<equiv> ContractError message []"

type_synonym validation = "(ContractError, unit) result"

section \<open>Enums\<close>

datatype ValidationTier = Development | PreMerge | Release

fun tier_rank :: "ValidationTier \<Rightarrow> nat" where
  "tier_rank Development = 0"
| "tier_rank PreMerge = 1"
| "tier_rank Release = 2"

lemma tier_rank_inject: "tier_rank a = tier_rank b \<Longrightarrow> a = b"
  by (cases a; cases b) simp_all

instantiation ValidationTier :: linorder
begin

definition less_eq_ValidationTier :: "ValidationTier \<Rightarrow> ValidationTier \<Rightarrow> bool" where
  "less_eq_ValidationTier a b \<longleftrightarrow> tier_rank a \<le> tier_rank b"

definition less_ValidationTier :: "ValidationTier \<Rightarrow> ValidationTier \<Rightarrow> bool" where
  "less_ValidationTier a b \<longleftrightarrow> tier_rank a < tier_rank b"

instance
  by standard (auto simp: less_eq_ValidationTier_def less_ValidationTier_def
      dest: tier_rank_inject intro: tier_rank_inject)

end

lemmas tier_order = less_eq_ValidationTier_def less_ValidationTier_def

datatype ProofKind = Complete | Selected | Retry

datatype CheckRole = Work | Preflight

datatype CheckPhase = Setup | Build | Fixture | Case | Cleanup | Qualification | Check

fun check_phase_rank :: "CheckPhase \<Rightarrow> nat" where
  "check_phase_rank CheckPhase.Setup = 0"
| "check_phase_rank CheckPhase.Build = 1"
| "check_phase_rank CheckPhase.Fixture = 2"
| "check_phase_rank CheckPhase.Case = 3"
| "check_phase_rank CheckPhase.Cleanup = 4"
| "check_phase_rank CheckPhase.Qualification = 5"
| "check_phase_rank CheckPhase.Check = 6"

lemma check_phase_rank_inject: "check_phase_rank a = check_phase_rank b \<Longrightarrow> a = b"
  by (cases a; cases b) simp_all

instantiation CheckPhase :: linorder
begin

definition less_eq_CheckPhase :: "CheckPhase \<Rightarrow> CheckPhase \<Rightarrow> bool" where
  "less_eq_CheckPhase a b \<longleftrightarrow> check_phase_rank a \<le> check_phase_rank b"

definition less_CheckPhase :: "CheckPhase \<Rightarrow> CheckPhase \<Rightarrow> bool" where
  "less_CheckPhase a b \<longleftrightarrow> check_phase_rank a < check_phase_rank b"

instance
  by standard (auto simp: less_eq_CheckPhase_def less_CheckPhase_def
      dest: check_phase_rank_inject intro: check_phase_rank_inject)

end

datatype ResourceKind = Database | Port | Directory | SourceSnapshot

datatype ResourceAccess = Shared | Exclusive

record ResourceClaim =
  rc_kind :: ResourceKind
  rc_id :: string
  rc_access :: ResourceAccess

record ConsumedArtifact =
  ca_check :: string
  ca_path :: string

datatype CompletionMode = Process | Event

datatype FailureMode = Continue | Stop

datatype DiagnosticReportFormat = Junit | PlaywrightJson | RustJson | CoordinatorJson

record DiagnosticReportSource =
  drs_format :: DiagnosticReportFormat
  drs_path :: string

datatype CoordinatorDiagnosticClass =
  Solver | ContainerStart | ContainerCleanup | CoordinatorInfrastructure

datatype CoordinatorCleanupStatus = NotRequired | Completed | Pending | Failed

datatype CoordinatorNextAction = NoAction | RetryAction | RetryCleanup | Inspect | Reconnect

datatype LogPhase = Executor | Check | Discovery | Case | Fixture | Cleanup

fun log_phase_rank :: "LogPhase \<Rightarrow> nat" where
  "log_phase_rank LogPhase.Executor = 0"
| "log_phase_rank LogPhase.Check = 1"
| "log_phase_rank LogPhase.Discovery = 2"
| "log_phase_rank LogPhase.Case = 3"
| "log_phase_rank LogPhase.Fixture = 4"
| "log_phase_rank LogPhase.Cleanup = 5"

lemma log_phase_rank_inject: "log_phase_rank a = log_phase_rank b \<Longrightarrow> a = b"
  by (cases a; cases b) simp_all

instantiation LogPhase :: linorder
begin

definition less_eq_LogPhase :: "LogPhase \<Rightarrow> LogPhase \<Rightarrow> bool" where
  "less_eq_LogPhase a b \<longleftrightarrow> log_phase_rank a \<le> log_phase_rank b"

definition less_LogPhase :: "LogPhase \<Rightarrow> LogPhase \<Rightarrow> bool" where
  "less_LogPhase a b \<longleftrightarrow> log_phase_rank a < log_phase_rank b"

instance
  by standard (auto simp: less_eq_LogPhase_def less_LogPhase_def
      dest: log_phase_rank_inject intro: log_phase_rank_inject)

end

datatype LogStream = Stdout | Stderr

record LogRef =
  lr_run_id :: string
  lr_check :: "string option"
  lr_phase :: LogPhase
  lr_case :: "string option"
  lr_stream :: LogStream

datatype ErrorCategory = Assertion | Compiler | Panic | Exception | StackFrame | Timeout
  | Cancellation | ProcessExit | BrowserConsole | NetworkRequest | StructuredEvidenceInvalid
  | LogStorage | SourceChanged | Artifact | Dependency | Internal

datatype TerminationReason = DeadlineExceeded | UserCancelled | Superseded | RunCancelled
  | DaemonInterrupted | UnsafeStop

datatype DiagnosticOrigin = ExplicitEvent | Junit | PlaywrightJson | RustJson | Executor

datatype DiagnosticValueType = NullValue | BooleanValue | NumberValue | StringValue | JsonValue

datatype LeafStatus = Pending | Running | Reused | Passed | Failed | TimedOut | Invalidated
  | NotMeaningful | Cancelled | Unsafe

datatype RunStatus = Running | Passed | Failed

datatype EventStatus = Passed | Failed | Unsafe

definition LeafStatus_is_terminal :: "LeafStatus \<Rightarrow> bool" where
  "LeafStatus_is_terminal s \<longleftrightarrow> \<not> (s = LeafStatus.Pending \<or> s = LeafStatus.Running)"

definition LeafStatus_is_success :: "LeafStatus \<Rightarrow> bool" where
  "LeafStatus_is_success s \<longleftrightarrow> s = LeafStatus.Passed \<or> s = LeafStatus.Reused"

lemma success_is_terminal: "LeafStatus_is_success s \<Longrightarrow> LeafStatus_is_terminal s"
  by (auto simp: LeafStatus_is_success_def LeafStatus_is_terminal_def)

section \<open>Diagnostics\<close>

record DiagnosticValue =
  dv_type :: DiagnosticValueType
  dv_preview :: "string option"
  dv_sha256 :: string
  dv_byte_count :: u64
  dv_truncated :: bool
  dv_redacted :: bool

record SourceLocation =
  sl_file :: string
  sl_line :: u32
  sl_column :: "u32 option"

record DiagnosticExit =
  de_code :: "int option"
  de_signal :: "u8 option"

definition DiagnosticExit_default :: DiagnosticExit where
  "DiagnosticExit_default = \<lparr>de_code = None, de_signal = None\<rparr>"

record CoordinatorDiagnosticEntry =
  cde_class :: CoordinatorDiagnosticClass
  cde_command_phase :: CheckPhase
  cde_status :: LeafStatus
  cde_exit :: DiagnosticExit
  cde_native_execution_started :: bool
  cde_cleanup_status :: CoordinatorCleanupStatus
  cde_retryable :: bool
  cde_next_action :: CoordinatorNextAction
  cde_container_id :: "string option"
  cde_container_name :: "string option"
  cde_container_labels :: "(string, string) btree_map"
  cde_stdout_ref :: "LogRef option"
  cde_stderr_ref :: "LogRef option"
  cde_cleanup_stderr_ref :: "LogRef option"
  cde_stdout_bytes :: u64
  cde_stderr_bytes :: u64
  cde_cleanup_stderr_bytes :: u64

record CoordinatorDiagnosticReport =
  cdr_run_id :: string
  cdr_check :: string
  cdr_case :: "string option"
  cdr_phase :: LogPhase
  cdr_failed_diagnostics :: u32
  cdr_diagnostics :: "CoordinatorDiagnosticEntry list"

record FailureIndexEntry =
  fie_check :: "string option"
  fie_case :: "string option"
  fie_status :: LeafStatus
  fie_exit :: DiagnosticExit
  fie_termination_reason :: "TerminationReason option"
  fie_source :: "SourceLocation option"
  fie_error_category :: ErrorCategory
  fie_expected :: "DiagnosticValue option"
  fie_actual :: "DiagnosticValue option"
  fie_fingerprint :: string
  fie_occurrences :: u32
  fie_log_refs :: "LogRef list"
  fie_origin :: DiagnosticOrigin
  fie_coordinator :: "CoordinatorDiagnosticEntry option"

record DiagnosticEvent =
  ev_run_id :: string
  ev_check :: string
  ev_case :: "string option"
  ev_status :: LeafStatus
  ev_exit :: DiagnosticExit
  ev_termination_reason :: "TerminationReason option"
  ev_source :: "SourceLocation option"
  ev_error_category :: ErrorCategory
  ev_expected :: "DiagnosticValue option"
  ev_actual :: "DiagnosticValue option"
  ev_log_refs :: "LogRef list"

record CompletionEvent =
  ce_run_id :: string
  ce_check :: string
  ce_status :: EventStatus
  ce_reason :: "string option"

section \<open>Plans\<close>

record ArtifactReceipt =
  ar_path :: string
  ar_size :: u64
  ar_sha256 :: string

record RetainedArtifactSpec =
  ras_name :: string
  ras_path :: string
  ras_max_bytes :: u64

record RetainedArtifactReceipt =
  rar_name :: string
  rar_size :: u64
  rar_files :: u32
  rar_sha256 :: string

record CaseSpec =
  cs_id :: string
  cs_args :: "string list"
  cs_postgres :: "string option"

record CheckPlan =
  cp_name :: string
  cp_display_name :: "string option"
  cp_source_name :: "string option"
  cp_tier :: ValidationTier
  cp_role :: CheckRole
  cp_phase :: CheckPhase
  cp_resources :: "ResourceClaim list"
  cp_after :: "string list"
  cp_requires :: "string list"
  cp_invalidates :: "string list"
  cp_cwd :: string
  cp_env :: "(string, string) btree_map"
  cp_timeout_seconds :: "u64 option"
  cp_completion :: CompletionMode
  cp_on_failure :: FailureMode
  cp_produces :: "string list"
  cp_consumes :: "ConsumedArtifact list"
  cp_cacheable :: bool
  cp_cache_inputs :: "string list"
  cp_fingerprint :: string
  cp_expect_failure :: bool
  cp_qualification_of :: "string option"
  cp_expected_failure :: "string option"
  cp_expected_exit_code :: "int option"
  cp_retained_artifacts :: "RetainedArtifactSpec list"
  cp_diagnostic_sources :: "DiagnosticReportSource list"
  cp_command :: "string list option"
  cp_discover :: "string list option"
  cp_case_command :: "string list option"
  cp_cases :: "CaseSpec list option"

record ExecutionPlan =
  ep_database_checks :: "string list"
  ep_fixture_program :: "string option"
  ep_environment_files :: "(string, string) btree_map"
  ep_run_id :: string
  ep_test :: string
  ep_worktree_root :: string
  ep_current_dir :: string
  ep_log_dir :: string
  ep_requested_tier :: ValidationTier
  ep_readiness_eligible :: bool
  ep_proof :: ProofKind
  ep_selection :: "string list"
  ep_origin_run_id :: "string option"
  ep_source_digest :: string
  ep_config_digest :: string
  ep_reused :: "(string, ArtifactReceipt list) btree_map"
  ep_reused_qualifications :: "string list"
  ep_case_selection :: "(string, string list) btree_map"
  ep_postgres_databases :: "(string, string) btree_map"
  ep_checks :: "CheckPlan list"

section \<open>Reports\<close>

record LogStreamSummary =
  lss_log_ref :: LogRef
  lss_bytes :: u64
  lss_lines :: u64
  lss_sha256 :: string
  lss_first_write_epoch_ms :: "u64 option"
  lss_last_write_epoch_ms :: "u64 option"
  lss_complete :: bool

record ExecutionProgress =
  xp_waiting :: u32
  xp_admitted :: u32
  xp_executing :: u32
  xp_finished :: u32
  xp_queued_at_epoch_ms :: u64
  xp_admitted_at_epoch_ms :: "u64 option"
  xp_started_at_epoch_ms :: "u64 option"
  xp_finished_at_epoch_ms :: "u64 option"
  xp_capacity_wait_ms :: u64
  xp_process_duration_ms :: u64

definition ExecutionProgress_default :: ExecutionProgress where
  "ExecutionProgress_default =
     \<lparr>xp_waiting = 0, xp_admitted = 0, xp_executing = 0, xp_finished = 0,
      xp_queued_at_epoch_ms = 0, xp_admitted_at_epoch_ms = None, xp_started_at_epoch_ms = None,
      xp_finished_at_epoch_ms = None, xp_capacity_wait_ms = 0, xp_process_duration_ms = 0\<rparr>"

record CasePhaseReport =
  cpr_phase :: CheckPhase
  cpr_status :: LeafStatus
  cpr_duration_ms :: u64
  cpr_streams :: "LogStreamSummary list"

record CaseReport =
  cr_phases :: "CasePhaseReport list"
  cr_execution :: "ExecutionProgress option"
  cr_id :: string
  cr_status :: LeafStatus
  cr_exit :: DiagnosticExit
  cr_duration_ms :: u64
  cr_streams :: "LogStreamSummary list"

record PhaseDuration =
  pd_phase :: CheckPhase
  pd_duration_seconds :: f64
  pd_elapsed_seconds :: "f64 option"
  pd_checks :: u32

record CheckReport =
  kr_phase_durations :: "PhaseDuration list"
  kr_resource_waiting :: bool
  kr_display_name :: "string option"
  kr_execution :: "ExecutionProgress option"
  kr_name :: string
  kr_tier :: ValidationTier
  kr_role :: CheckRole
  kr_phase :: CheckPhase
  kr_fingerprint :: string
  kr_cache_inputs :: "ArtifactReceipt list"
  kr_consumed_artifacts :: "ArtifactReceipt list"
  kr_status :: LeafStatus
  kr_failed_diagnostics :: u32
  kr_started_at :: "string option"
  kr_finished_at :: "string option"
  kr_duration_seconds :: "f64 option"
  kr_exit :: DiagnosticExit
  kr_artifacts :: "ArtifactReceipt list"
  kr_retained_artifacts :: "RetainedArtifactReceipt list"
  kr_streams :: "LogStreamSummary list"
  kr_case_count :: u32
  kr_cases :: "CaseReport list"
  kr_cases_truncated :: bool

record CapacityReport =
  cap_learned_capacity :: "u32 option"
  cap_effective_capacity :: "u32 option"
  cap_capacity_wait_count :: u64

record ExecutionReport =
  er_run_id :: string
  er_test :: string
  er_requested_tier :: ValidationTier
  er_readiness_eligible :: bool
  er_proof :: ProofKind
  er_selection :: "string list"
  er_origin_run_id :: "string option"
  er_status :: RunStatus
  er_started_at :: string
  er_finished_at :: "string option"
  er_duration_seconds :: f64
  er_source_digest :: string
  er_config_digest :: string
  er_source_changed :: bool
  er_capacity :: CapacityReport
  er_counts :: "(string, u32) btree_map"
  er_failed_diagnostics :: u32
  er_checks :: "CheckReport list"
  er_phase_durations :: "PhaseDuration list"
  er_failure_index :: "FailureIndexEntry list"
  er_failure_index_truncated :: bool

end
