(* ===== verification/Retention.thy ===== *)
theory Retention
  imports Protocol_Types "HOL-Library.Product_Lexorder" "HOL-Library.Option_ord" "HOL-Library.Multiset"
begin

text \<open>
  \<^verbatim>\<open>src/rust/executor-core/src/retention.rs\<close>: which leaf directories of completed runs are
  removed.  \<open>select_expired\<close> is the code's grouping, sorting and scanning; \<open>expired\<close> is the
  policy as its documentation states it, and the theorems show the two agree, that every
  history keeps at most the configured depth, and that the announced next expiry is the
  earliest of the kept entries.
\<close>

section \<open>Data\<close>

text \<open>The order of \<^verbatim>\<open>std::path::Component\<close>; paths compare by their components.\<close>

fun component_key :: "component \<Rightarrow> nat \<times> string" where
  "component_key RootDir = (0, [])"
| "component_key CurDir = (1, [])"
| "component_key ParentDir = (2, [])"
| "component_key (Normal n) = (3, n)"

lemma component_key_inject: "component_key a = component_key b \<Longrightarrow> a = b"
  by (cases a; cases b) simp_all

instantiation component :: linorder
begin

definition less_eq_component :: "component \<Rightarrow> component \<Rightarrow> bool" where
  "less_eq_component a b \<longleftrightarrow> component_key a \<le> component_key b"

definition less_component :: "component \<Rightarrow> component \<Rightarrow> bool" where
  "less_component a b \<longleftrightarrow> component_key a < component_key b"

instance
  by standard (auto simp: less_eq_component_def less_component_def
      dest: component_key_inject intro: component_key_inject)

end

definition DEFAULT_MAX_AGE_SECONDS :: u64 where "DEFAULT_MAX_AGE_SECONDS = 86400"
definition DEFAULT_HISTORY_DEPTH :: nat where "DEFAULT_HISTORY_DEPTH = 3"

datatype ExecutorError = ExecutorError string

record RetentionPolicy =
  max_age_seconds :: u64
  history_depth :: nat

definition RetentionPolicy_default :: RetentionPolicy where
  "RetentionPolicy_default =
     \<lparr>max_age_seconds = DEFAULT_MAX_AGE_SECONDS, history_depth = DEFAULT_HISTORY_DEPTH\<rparr>"

definition RetentionPolicy_validate ::
  "RetentionPolicy \<Rightarrow> (ExecutorError, RetentionPolicy) result" where
  "RetentionPolicy_validate self =
     (if max_age_seconds self = 0
      then Err (ExecutorError ''log retention max_age_seconds must be positive'')
      else if history_depth self = 0
      then Err (ExecutorError ''log retention history_depth must be positive'')
      else Ok self)"

definition max_age_ms :: "RetentionPolicy \<Rightarrow> u64" where
  "max_age_ms self = saturating_mul (max_age_seconds self) 1000"

record RetentionEntry =
  re_run_id :: string
  re_test :: string
  re_check :: "string option"
  re_phase :: LogPhase
  re_case :: "string option"
  re_directory :: "component list"
  re_finished_at_ms :: u64
  re_active :: bool

type_synonym HistoryKey = "string \<times> string option \<times> LogPhase \<times> string option"

definition HistoryKey_from :: "RetentionEntry \<Rightarrow> HistoryKey" where
  "HistoryKey_from entry = (re_test entry, re_check entry, re_phase entry, re_case entry)"

record RetentionDecision =
  rd_victims :: "component list list"
  rd_retained_active :: nat
  rd_next_age_expiry_ms :: "u64 option"

definition RetentionDecision_default :: RetentionDecision where
  "RetentionDecision_default =
     \<lparr>rd_victims = [], rd_retained_active = 0, rd_next_age_expiry_ms = None\<rparr>"

section \<open>The selection\<close>

type_synonym groups = "(HistoryKey, RetentionEntry list) btree_map"

definition push_group :: "RetentionEntry \<Rightarrow> groups \<Rightarrow> groups" where
  "push_group entry grouped =
     bt_insert (HistoryKey_from entry)
       ((case bt_get grouped (HistoryKey_from entry) of None \<Rightarrow> [] | Some rows \<Rightarrow> rows) @ [entry])
       grouped"

definition group_entry :: "RetentionEntry \<Rightarrow> groups \<times> RetentionDecision \<Rightarrow> groups \<times> RetentionDecision" where
  "group_entry entry = (\<lambda>(grouped, decision).
     if re_active entry
     then (grouped, decision\<lparr>rd_retained_active := usize_saturating_add (rd_retained_active decision) 1\<rparr>)
     else (push_group entry grouped, decision))"

text \<open>
  The stable sort with the arguments of the comparison exchanged: newest first, then the
  greater run id, then the greater directory.
\<close>

definition entry_age :: "RetentionEntry \<Rightarrow> u64 \<times> string \<times> component list" where
  "entry_age entry = (re_finished_at_ms entry, re_run_id entry, re_directory entry)"

definition sort_newest :: "RetentionEntry list \<Rightarrow> RetentionEntry list" where
  "sort_newest rows = rev (sort_key entry_age (rev rows))"

definition age_expiry :: "RetentionPolicy \<Rightarrow> RetentionEntry \<Rightarrow> u64" where
  "age_expiry policy entry = saturating_add (re_finished_at_ms entry) (max_age_ms policy)"

definition scan_row :: "RetentionPolicy \<Rightarrow> u64 \<Rightarrow> nat \<times> RetentionEntry \<Rightarrow> RetentionDecision
    \<Rightarrow> RetentionDecision" where
  "scan_row policy now_ms = (\<lambda>(index, entry) decision.
     let expiry = age_expiry policy entry in
     if expiry \<le> now_ms \<or> history_depth policy \<le> index
     then decision\<lparr>rd_victims := rd_victims decision @ [re_directory entry]\<rparr>
     else if now_ms < expiry
     then decision\<lparr>rd_next_age_expiry_ms := min_option (rd_next_age_expiry_ms decision) expiry\<rparr>
     else decision)"

definition scan_rows :: "RetentionPolicy \<Rightarrow> u64 \<Rightarrow> RetentionEntry list \<Rightarrow> RetentionDecision
    \<Rightarrow> RetentionDecision" where
  "scan_rows policy now_ms rows decision =
     fold (scan_row policy now_ms) (enumerate 0 (sort_newest rows)) decision"

definition select_expired :: "RetentionEntry list \<Rightarrow> u64 \<Rightarrow> RetentionPolicy
    \<Rightarrow> (ExecutorError, RetentionDecision) result" where
  "select_expired entries now_ms policy =
     then_do (RetentionPolicy_validate policy) (\<lambda>policy.
       let (grouped, decision) = fold group_entry entries ([], RetentionDecision_default);
           decision = fold (\<lambda>(key, rows). scan_rows policy now_ms rows) grouped decision
       in Ok (decision\<lparr>rd_victims := remdups_adj (sort (rd_victims decision))\<rparr>))"

section \<open>The policy\<close>

definition same_history :: "RetentionEntry \<Rightarrow> RetentionEntry \<Rightarrow> bool" where
  "same_history a b \<longleftrightarrow> HistoryKey_from a = HistoryKey_from b"

definition newer_in_history :: "RetentionEntry list \<Rightarrow> RetentionEntry \<Rightarrow> nat" where
  "newer_in_history entries e =
     length (filter (\<lambda>x. \<not> re_active x \<and> same_history x e \<and> entry_age e < entry_age x) entries)"

definition expired :: "RetentionPolicy \<Rightarrow> u64 \<Rightarrow> RetentionEntry list \<Rightarrow> RetentionEntry \<Rightarrow> bool" where
  "expired policy now_ms entries e \<longleftrightarrow> \<not> re_active e \<and>
     (age_expiry policy e \<le> now_ms \<or> history_depth policy \<le> newer_in_history entries e)"

section \<open>Grouping\<close>

definition completed :: "RetentionEntry list \<Rightarrow> RetentionEntry list" where
  "completed entries = filter (\<lambda>e. \<not> re_active e) entries"

definition rows_of :: "HistoryKey \<Rightarrow> RetentionEntry list \<Rightarrow> RetentionEntry list" where
  "rows_of key entries = filter (\<lambda>e. HistoryKey_from e = key) (completed entries)"

definition groups_ok :: "RetentionEntry list \<Rightarrow> groups \<Rightarrow> bool" where
  "groups_ok entries grouped \<longleftrightarrow> bt_ok grouped \<and>
     (\<forall>key. bt_get grouped key =
        (if rows_of key entries = [] then None else Some (rows_of key entries)))"

lemma groups_ok_get:
  "groups_ok entries grouped \<Longrightarrow>
     bt_get grouped key = (if rows_of key entries = [] then None else Some (rows_of key entries))"
  unfolding groups_ok_def by blast

lemma groups_ok_bt: "groups_ok entries grouped \<Longrightarrow> bt_ok grouped"
  by (simp add: groups_ok_def)

lemma groups_ok_snoc:
  assumes "groups_ok entries grouped"
  shows "groups_ok (entries @ [e]) (if re_active e then grouped else push_group e grouped)"
proof (cases "re_active e")
  case True
  with assms show ?thesis by (simp add: groups_ok_def rows_of_def completed_def)
next
  case False
  have "bt_get (push_group e grouped) key =
      (if rows_of key (entries @ [e]) = [] then None else Some (rows_of key (entries @ [e])))" for key
    using groups_ok_get [OF assms] groups_ok_bt [OF assms] False
    by (auto simp: push_group_def bt_get_insert rows_of_def completed_def)
  with groups_ok_bt [OF assms] False show ?thesis by (simp add: groups_ok_def push_group_def)
qed

lemma group_entries_ok:
  "groups_ok entries (fst (fold group_entry entries ([], RetentionDecision_default)))"
proof (induction entries rule: rev_induct)
  case Nil
  show ?case by (simp add: groups_ok_def rows_of_def completed_def)
next
  case (snoc e entries)
  from groups_ok_snoc [OF this, of e] show ?case
    by (cases "fold group_entry entries ([], RetentionDecision_default)"; cases "re_active e")
      (simp_all add: group_entry_def [of e])
qed

lemma group_entries_decision:
  "rd_victims (snd (fold group_entry entries (g, d))) = rd_victims d \<and>
   rd_next_age_expiry_ms (snd (fold group_entry entries (g, d))) = rd_next_age_expiry_ms d \<and>
   rd_retained_active (snd (fold group_entry entries (g, d))) =
     foldl usize_saturating_add (rd_retained_active d) (map (\<lambda>e. 1) (filter re_active entries))"
  by (induction entries arbitrary: g d) (simp_all add: group_entry_def)

lemma groups_members:
  assumes "groups_ok entries grouped" and "(key, rows) \<in> set grouped"
  shows "rows = rows_of key entries" and "rows \<noteq> []"
proof -
  have "bt_get grouped key = Some rows" using assms groups_ok_bt by (simp add: bt_get_Some)
  with groups_ok_get [OF assms(1), of key] show "rows = rows_of key entries" and "rows \<noteq> []"
    by (auto split: if_splits)
qed

lemma groups_cover:
  assumes "groups_ok entries grouped" and "e \<in> set entries" and "\<not> re_active e"
  shows "(HistoryKey_from e, rows_of (HistoryKey_from e) entries) \<in> set grouped"
proof -
  have "rows_of (HistoryKey_from e) entries \<noteq> []"
    using assms(2,3) by (auto simp: rows_of_def completed_def filter_empty_conv)
  then have "bt_get grouped (HistoryKey_from e) = Some (rows_of (HistoryKey_from e) entries)"
    using groups_ok_get [OF assms(1)] by simp
  with groups_ok_bt [OF assms(1)] show ?thesis by (simp add: bt_get_Some)
qed

section \<open>Scanning\<close>

definition row_kept :: "RetentionPolicy \<Rightarrow> u64 \<Rightarrow> nat \<times> RetentionEntry \<Rightarrow> bool" where
  "row_kept policy now_ms = (\<lambda>(index, e). now_ms < age_expiry policy e \<and> index < history_depth policy)"

lemma scan_row_cases:
  "scan_row policy now_ms (i, e) d =
     (if row_kept policy now_ms (i, e)
      then d\<lparr>rd_next_age_expiry_ms := min_option (rd_next_age_expiry_ms d) (age_expiry policy e)\<rparr>
      else d\<lparr>rd_victims := rd_victims d @ [re_directory e]\<rparr>)"
  by (auto simp: scan_row_def row_kept_def Let_def)

lemma scan_row_fold:
  "rd_victims (fold (scan_row policy now_ms) irs d) =
     rd_victims d @ map (\<lambda>(i, e). re_directory e) (filter (\<lambda>r. \<not> row_kept policy now_ms r) irs)"
  "rd_next_age_expiry_ms (fold (scan_row policy now_ms) irs d) =
     fold (\<lambda>x m. min_option m x) (map (\<lambda>(i, e). age_expiry policy e)
       (filter (row_kept policy now_ms) irs)) (rd_next_age_expiry_ms d)"
  "rd_retained_active (fold (scan_row policy now_ms) irs d) = rd_retained_active d"
  by (induction irs arbitrary: d) (auto simp: scan_row_cases)

definition all_rows :: "groups \<Rightarrow> (nat \<times> RetentionEntry) list" where
  "all_rows grouped = concat (map (\<lambda>(key, rows). enumerate 0 (sort_newest rows)) grouped)"

lemma all_rows_set:
  "r \<in> set (all_rows grouped) \<longleftrightarrow>
     (\<exists>key rows. (key, rows) \<in> set grouped \<and> r \<in> set (enumerate 0 (sort_newest rows)))"
  unfolding all_rows_def by (simp add: split_paired_Ex Bex_def case_prod_beta)

lemma scan_groups:
  "fold (\<lambda>(key, rows). scan_rows policy now_ms rows) grouped d =
     fold (scan_row policy now_ms) (all_rows grouped) d"
  by (induction grouped arbitrary: d) (auto simp: all_rows_def scan_rows_def)

lemma set_sort_newest [simp]: "set (sort_newest rows) = set rows"
  by (simp add: sort_newest_def)

lemma length_sort_newest [simp]: "length (sort_newest rows) = length rows"
  by (simp add: sort_newest_def)

lemma mset_sort_newest: "mset (sort_newest rows) = mset rows"
  by (simp add: sort_newest_def)

lemma sort_newest_descending:
  assumes "distinct (map entry_age rows)"
  shows "sorted_wrt (>) (map entry_age (sort_newest rows))"
proof -
  have "distinct (map entry_age (sort_key entry_age (rev rows)))"
    using assms by (metis distinct_rev rev_map mset_map mset_rev mset_sort mset_eq_imp_distinct_iff)
  then have "sorted_wrt (<) (map entry_age (sort_key entry_age (rev rows)))"
    by (simp add: strict_sorted_iff)
  then show ?thesis by (simp add: sort_newest_def rev_map [symmetric] sorted_wrt_rev)
qed

text \<open>Entries of one history that agree on the sort key are equal.\<close>

lemma rows_of_distinct_age:
  assumes "distinct entries"
  shows "distinct (map entry_age (rows_of key entries))"
proof -
  have "inj_on entry_age (set (rows_of key entries))"
    by (rule inj_onI) (auto simp: rows_of_def completed_def entry_age_def HistoryKey_from_def)
  moreover have "distinct (rows_of key entries)" using assms by (simp add: rows_of_def completed_def)
  ultimately show ?thesis by (simp add: distinct_map)
qed

lemma sort_newest_rank:
  assumes "distinct entries" and "i < length (rows_of key entries)"
  shows "newer_in_history entries (sort_newest (rows_of key entries) ! i) = i"
proof -
  let ?rows = "rows_of key entries"
  let ?sorted = "sort_newest ?rows"
  let ?e = "?sorted ! i"
  have len: "length ?sorted = length ?rows" by simp
  have e: "?e \<in> set ?rows" using assms(2) len by (metis nth_mem set_sort_newest)
  have "length (filter (\<lambda>x. entry_age ?e < x) (map entry_age ?sorted)) = i"
    using descending_nth_rank [OF sort_newest_descending [OF rows_of_distinct_age [OF assms(1)]], of i key]
      assms(2) len by simp
  then have "length (filter (\<lambda>x. entry_age ?e < entry_age x) ?sorted) = i"
    by (simp add: filter_map comp_def)
  then have "length (filter (\<lambda>x. entry_age ?e < entry_age x) ?rows) = i"
    by (metis mset_sort_newest mset_filter size_mset)
  moreover have "filter (\<lambda>x. \<not> re_active x \<and> same_history x ?e \<and> entry_age ?e < entry_age x) entries =
      filter (\<lambda>x. entry_age ?e < entry_age x) ?rows"
    using e by (auto simp: rows_of_def completed_def same_history_def intro!: filter_cong)
  ultimately show ?thesis by (simp add: newer_in_history_def)
qed

section \<open>The selection implements the policy\<close>

lemma all_rows_iff:
  assumes "groups_ok entries grouped" and "distinct entries"
  shows "(i, e) \<in> set (all_rows grouped) \<longleftrightarrow>
           e \<in> set entries \<and> \<not> re_active e \<and> i = newer_in_history entries e"
proof
  assume "(i, e) \<in> set (all_rows grouped)"
  then obtain key where row: "(i, e) \<in> set (enumerate 0 (sort_newest (rows_of key entries)))"
    using groups_members(1) [OF assms(1)] unfolding all_rows_set by blast
  then have i: "i < length (rows_of key entries)" and e: "e = sort_newest (rows_of key entries) ! i"
    by (auto simp: in_set_enumerate_eq)
  have "e \<in> set (rows_of key entries)"
    using i e by (metis nth_mem set_sort_newest length_sort_newest)
  with sort_newest_rank [OF assms(2) i] e
  show "e \<in> set entries \<and> \<not> re_active e \<and> i = newer_in_history entries e"
    by (auto simp: rows_of_def completed_def)
next
  assume r: "e \<in> set entries \<and> \<not> re_active e \<and> i = newer_in_history entries e"
  let ?rows = "rows_of (HistoryKey_from e) entries"
  have "e \<in> set (sort_newest ?rows)" using r by (simp add: rows_of_def completed_def)
  then obtain j where j: "j < length ?rows" "sort_newest ?rows ! j = e"
    by (metis in_set_conv_nth length_sort_newest)
  with sort_newest_rank [OF assms(2) j(1)] r have "j = i" by simp
  with j have "(i, e) \<in> set (enumerate 0 (sort_newest ?rows))"
    by (auto simp: in_set_enumerate_eq)
  moreover have "(HistoryKey_from e, ?rows) \<in> set grouped" using groups_cover [OF assms(1)] r by simp
  ultimately show "(i, e) \<in> set (all_rows grouped)" unfolding all_rows_set by blast
qed

lemma select_expired_Ok:
  assumes "select_expired entries now_ms policy = Ok decision"
  obtains grouped where "groups_ok entries grouped"
    and "rd_victims decision = remdups_adj (sort (map (\<lambda>(i, e). re_directory e)
           (filter (\<lambda>r. \<not> row_kept policy now_ms r) (all_rows grouped))))"
    and "rd_next_age_expiry_ms decision = fold (\<lambda>x m. min_option m x)
           (map (\<lambda>(i, e). age_expiry policy e) (filter (row_kept policy now_ms) (all_rows grouped))) None"
proof -
  let ?s = "fold group_entry entries ([], RetentionDecision_default)"
  have "policy = policy' \<Longrightarrow> RetentionPolicy_validate policy = Ok policy'" if "RetentionPolicy_validate policy = Ok p" for p policy'
    using that by (auto simp: RetentionPolicy_validate_def split: if_splits)
  then have valid: "RetentionPolicy_validate policy = Ok policy"
    using assms by (auto simp: select_expired_def)
  have "groups_ok entries (fst ?s)" by (rule group_entries_ok)
  moreover have "decision = (let d = fold (scan_row policy now_ms) (all_rows (fst ?s)) (snd ?s)
      in d\<lparr>rd_victims := remdups_adj (sort (rd_victims d))\<rparr>)"
    using assms valid by (simp add: select_expired_def scan_groups Let_def split: prod.splits)
  ultimately show ?thesis
    using group_entries_decision [of entries "[]" RetentionDecision_default] that [of "fst ?s"]
    by (simp add: scan_row_fold RetentionDecision_default_def Let_def)
qed

lemma sorted_remdups_adj_strict: "sorted (xs :: 'a::linorder list) \<Longrightarrow> sorted_wrt (<) (remdups_adj xs)"
  by (induction xs rule: remdups_adj.induct) (auto simp: less_le)

lemma fold_min_option_iff:
  "fold (\<lambda>x m. min_option m x) xs None = Some t \<longleftrightarrow> xs \<noteq> [] \<and> t = Min (set xs)"
proof (cases "fold (\<lambda>x m. min_option m x) xs None")
  case None
  then show ?thesis by (simp add: fold_min_option_None)
next
  case (Some y)
  from fold_min_option [OF Some] have y: "y \<in> set xs" and "\<forall>x \<in> set xs. y \<le> x" by auto
  then have "Min (set xs) = y" by (auto intro!: Min_eqI)
  moreover have "xs \<noteq> []" using y by auto
  ultimately show ?thesis using Some by auto
qed

lemma row_kept_iff:
  "\<not> re_active e \<Longrightarrow> row_kept policy now_ms (newer_in_history entries e, e) \<longleftrightarrow>
     \<not> expired policy now_ms entries e"
  by (auto simp: row_kept_def expired_def)

lemma victims_set:
  assumes "select_expired entries now_ms policy = Ok decision" and "distinct entries"
  shows "set (rd_victims decision) = re_directory ` {e \<in> set entries. expired policy now_ms entries e}"
proof -
  obtain grouped where g: "groups_ok entries grouped"
    and v: "rd_victims decision = remdups_adj (sort (map (\<lambda>(i, e). re_directory e)
           (filter (\<lambda>r. \<not> row_kept policy now_ms r) (all_rows grouped))))"
    using assms(1) by (rule select_expired_Ok)
  show ?thesis unfolding v
    by (force simp: all_rows_iff [OF g assms(2)] row_kept_iff expired_def row_kept_def image_iff)
qed

lemma expired_kept:
  assumes "select_expired entries now_ms policy = Ok decision" and "distinct entries"
    and "e \<in> set entries" and "re_directory e \<notin> set (rd_victims decision)"
  shows "\<not> expired policy now_ms entries e"
  using assms(3,4) victims_set [OF assms(1,2)] by auto

text \<open>
  C6: for pairwise different entries, a directory is selected for removal
  exactly when it is the directory of a completed entry that is expired by age or has at
  least \<open>history_depth\<close> newer completed entries in its history; the victims are listed once
  each, in order; the next expiry announced is that of a kept entry, in the future, and the
  earliest.
\<close>

theorem select_expired_exact:
  assumes "select_expired entries now_ms policy = Ok decision" and "distinct entries"
  shows "set (rd_victims decision) = re_directory ` {e \<in> set entries. expired policy now_ms entries e}
    \<and> sorted_wrt (<) (rd_victims decision)
    \<and> (\<forall>t. rd_next_age_expiry_ms decision = Some t \<longleftrightarrow>
         (\<exists>e \<in> set entries. \<not> re_active e \<and> \<not> expired policy now_ms entries e) \<and>
         t = Min (age_expiry policy ` {e \<in> set entries. \<not> re_active e \<and> \<not> expired policy now_ms entries e}))"
proof (intro conjI allI)
  obtain grouped where g: "groups_ok entries grouped"
    and v: "rd_victims decision = remdups_adj (sort (map (\<lambda>(i, e). re_directory e)
           (filter (\<lambda>r. \<not> row_kept policy now_ms r) (all_rows grouped))))"
    and n: "rd_next_age_expiry_ms decision = fold (\<lambda>x m. min_option m x)
           (map (\<lambda>(i, e). age_expiry policy e) (filter (row_kept policy now_ms) (all_rows grouped))) None"
    using assms(1) by (rule select_expired_Ok)
  note rows = all_rows_iff [OF g assms(2)]
  show "set (rd_victims decision) = re_directory ` {e \<in> set entries. expired policy now_ms entries e}"
    by (rule victims_set [OF assms])
  show "sorted_wrt (<) (rd_victims decision)"
    unfolding v by (simp add: sorted_remdups_adj_strict)
  fix t
  let ?kept = "{e \<in> set entries. \<not> re_active e \<and> \<not> expired policy now_ms entries e}"
  let ?ages = "map (\<lambda>(i, e). age_expiry policy e) (filter (row_kept policy now_ms) (all_rows grouped))"
  have ages: "set ?ages = age_expiry policy ` ?kept"
    by (force simp: rows row_kept_iff image_iff)
  have "fold (\<lambda>x m. min_option m x) ?ages None = Some t \<longleftrightarrow> set ?ages \<noteq> {} \<and> t = Min (set ?ages)"
    by (simp only: fold_min_option_iff set_empty)
  then show "rd_next_age_expiry_ms decision = Some t \<longleftrightarrow>
      (\<exists>e \<in> set entries. \<not> re_active e \<and> \<not> expired policy now_ms entries e) \<and>
      t = Min (age_expiry policy ` ?kept)"
    unfolding n ages image_is_empty by blast
qed

definition sample_entry :: "string \<Rightarrow> u64 \<Rightarrow> bool \<Rightarrow> RetentionEntry" where
  "sample_entry run finished active =
     \<lparr>re_run_id = run, re_test = ''unit'', re_check = Some ''lint'', re_phase = LogPhase.Check,
      re_case = None, re_directory = [RootDir, Normal ''logs'', Normal run],
      re_finished_at_ms = finished, re_active = active\<rparr>"

definition sample_entries :: "RetentionEntry list" where
  "sample_entries = [sample_entry ''a'' 1000 False, sample_entry ''b'' 50000 False,
     sample_entry ''c'' 90000 False, sample_entry ''d'' 95000 False, sample_entry ''e'' 0 True]"

definition sample_policy :: RetentionPolicy where
  "sample_policy = \<lparr>max_age_seconds = 60, history_depth = 2\<rparr>"

lemma sample_selection:
  "select_expired sample_entries 100000 sample_policy =
     Ok \<lparr>rd_victims = [[RootDir, Normal ''logs'', Normal ''a''], [RootDir, Normal ''logs'', Normal ''b'']],
         rd_retained_active = 1, rd_next_age_expiry_ms = Some 150000\<rparr>"
  by (simp add: sample_entries_def sample_entry_def sample_policy_def select_expired_def
      RetentionPolicy_validate_def group_entry_def push_group_def HistoryKey_from_def scan_rows_def
      scan_row_def sort_newest_def entry_age_def age_expiry_def max_age_ms_def saturating_mul_def
      saturating_add_def RetentionDecision_default_def usize_saturating_add_def min_option_def
      less_component_def less_eq_component_def)

lemma sample_distinct: "distinct sample_entries"
  by (simp add: sample_entries_def sample_entry_def)

theorem select_expired_exact_witness:
  "[RootDir, Normal ''logs'', Normal ''b''] \<in>
     re_directory ` {e \<in> set sample_entries. expired sample_policy 100000 sample_entries e}"
  using select_expired_exact [OF sample_selection sample_distinct] by auto

text \<open>
  Whatever is not selected for removal respects the policy: of every
  history at most \<open>history_depth\<close> completed entries keep their directory, and none of them is
  older than the maximal age.
\<close>

theorem select_expired_depth:
  assumes "select_expired entries now_ms policy = Ok decision" and "distinct entries"
  defines "kept key \<equiv> filter (\<lambda>e. re_directory e \<notin> set (rd_victims decision)) (rows_of key entries)"
  shows "length (kept key) \<le> history_depth policy \<and> (\<forall>e \<in> set (kept key). now_ms < age_expiry policy e)"
proof (rule conjI)
  have live: "\<not> re_active e \<and> now_ms < age_expiry policy e \<and> newer_in_history entries e < history_depth policy"
    if "e \<in> set (kept key)" for e
  proof -
    from that have e: "e \<in> set entries" "\<not> re_active e" "re_directory e \<notin> set (rd_victims decision)"
      by (simp_all add: kept_def rows_of_def completed_def)
    from expired_kept [OF assms(1,2) e(1,3)] e(2) show ?thesis by (simp add: expired_def not_le)
  qed
  then show "\<forall>e \<in> set (kept key). now_ms < age_expiry policy e" by blast
  have "e \<in> set (take (history_depth policy) (sort_newest (rows_of key entries)))"
    if "e \<in> set (kept key)" for e
  proof -
    from that have "e \<in> set (sort_newest (rows_of key entries))" by (simp add: kept_def)
    then obtain i where i: "i < length (rows_of key entries)" "sort_newest (rows_of key entries) ! i = e"
      by (metis in_set_conv_nth length_sort_newest)
    with sort_newest_rank [OF assms(2) i(1)] live [OF that] have "i < history_depth policy" by simp
    with i show ?thesis by (auto simp: in_set_conv_nth)
  qed
  then have "set (kept key) \<subseteq> set (take (history_depth policy) (sort_newest (rows_of key entries)))"
    by blast
  moreover have "distinct (kept key)"
    using assms(2) by (simp add: kept_def rows_of_def completed_def)
  ultimately have "length (kept key) \<le> length (take (history_depth policy) (sort_newest (rows_of key entries)))"
    by (metis card_length card_mono distinct_card finite_set le_trans)
  then show "length (kept key) \<le> history_depth policy" by simp
qed

theorem select_expired_depth_witness:
  "length (filter (\<lambda>e. re_directory e \<notin> {[RootDir, Normal ''logs'', Normal ''a''],
       [RootDir, Normal ''logs'', Normal ''b'']})
     (rows_of (''unit'', Some ''lint'', LogPhase.Check, None) sample_entries)) \<le> 2"
  using select_expired_depth [OF sample_selection sample_distinct]
  by (simp add: sample_policy_def)

end
