(* ===== verification/Protocol_Fields.thy ===== *)
theory Protocol_Fields
  imports Protocol_Types
begin

text \<open>
  The validators of single fields and of the diagnostic structures of
  \<^verbatim>\<open>src/rust/executor-protocol/src/lib.rs\<close>: names, identities, digests, relative paths, log
  references, log stream summaries, failure diagnostics.  The lemmas show what an accepted
  value is good for: names are single path components, relative paths stay below every root
  they are joined to, an accepted log reference names a check and a case exactly as its phase
  demands.
\<close>

section \<open>Names, identities, digests\<close>

definition validate_name :: "string \<Rightarrow> string \<Rightarrow> nat \<Rightarrow> validation" where
  "validate_name kind value maximum =
     reject_if
       (\<not> (value \<noteq> [] \<and> length value \<le> maximum \<and>
           all_bytes (\<lambda>b. is_ascii_lowercase b \<or> is_ascii_digit b)
             (\<lambda>b. is_ascii_lowercase b \<or> is_ascii_digit b \<or> b = CHR ''-'') value))
       (ContractError ''{kind} {value:?} is not a normalized lower-case name'' [kind, value])"

definition validate_database_name :: "string \<Rightarrow> validation" where
  "validate_database_name value =
     reject_if
       (\<not> (value \<noteq> [] \<and> length value \<le> 63 \<and>
           all_bytes (\<lambda>b. is_ascii_lowercase b \<or> is_ascii_digit b)
             (\<lambda>b. is_ascii_lowercase b \<or> is_ascii_digit b \<or> b = CHR ''_'') value))
       (ContractError ''PostgreSQL database {value:?} is not a normalized lower-case name'' [value])"

definition is_identity_byte :: "char \<Rightarrow> bool" where
  "is_identity_byte b \<longleftrightarrow> is_ascii_alphanumeric b \<or> b = CHR ''-'' \<or> b = CHR ''_'' \<or> b = CHR ''.''"

definition validate_identity :: "string \<Rightarrow> string \<Rightarrow> nat \<Rightarrow> validation" where
  "validate_identity kind value maximum =
     reject_if
       (\<not> (value \<noteq> [] \<and> length value \<le> maximum \<and> is_ascii_alphanumeric (hd value) \<and>
           list_all is_identity_byte value))
       (ContractError ''{kind} is not a bounded normalized identity'' [kind])"

definition validate_case_id :: "string \<Rightarrow> validation" where
  "validate_case_id value =
     reject_if
       (\<not> (value \<noteq> [] \<and> length value \<le> 128 \<and>
           all_bytes is_ascii_alphanumeric is_identity_byte value))
       (ContractError ''case id {value:?} is not path-safe'' [value])"

definition validate_digest :: "string \<Rightarrow> string \<Rightarrow> validation" where
  "validate_digest kind value =
     reject_if (length value \<noteq> 64 \<or> \<not> list_all is_lower_hex value)
       (ContractError ''{kind} must be 64 lower-case hexadecimal characters'' [kind])"

definition validate_fingerprint :: "string \<Rightarrow> validation" where
  "validate_fingerprint value =
     (case strip_prefix ''sha256:'' value of
        None \<Rightarrow> Err (contract_error ''diagnostic fingerprint must use the sha256 scheme'')
      | Some digest \<Rightarrow> validate_digest ''diagnostic fingerprint'' digest)"

definition validate_diagnostic_name :: "string \<Rightarrow> string \<Rightarrow> validation" where
  "validate_diagnostic_name kind value =
     reject_if (value = [] \<or> MAX_DIAGNOSTIC_NAME_BYTES < length value \<or> has_control value)
       (ContractError ''{kind} is not a bounded single-line name'' [kind])"

section \<open>Paths\<close>

fun is_normal :: "component \<Rightarrow> bool" where
  "is_normal (Normal n) = True"
| "is_normal _ = False"

definition validate_relative_path :: "string \<Rightarrow> string \<Rightarrow> validation" where
  "validate_relative_path kind value =
     reject_if
       (\<not> (value \<noteq> [] \<and> \<not> is_absolute value \<and> CHR 0x5C \<notin> set value \<and> nul \<notin> set value \<and>
           list_all is_normal (components value)))
       (ContractError ''{kind} path {value:?} is not normalized repository-relative'' [kind, value])"

text \<open>
  The loop of \<^verbatim>\<open>normalize_absolute_path\<close> over the components, with the \<^verbatim>\<open>PathBuf\<close> built so far as
  its component list: \<^verbatim>\<open>pop\<close> fails on the root and on the empty path.
\<close>

fun normalize_components :: "component list \<Rightarrow> component list \<Rightarrow> component list option" where
  "normalize_components done [] = Some done"
| "normalize_components done (RootDir # cs) = normalize_components [RootDir] cs"
| "normalize_components done (CurDir # cs) = normalize_components done cs"
| "normalize_components done (ParentDir # cs) =
     (if done = [] \<or> done = [RootDir] then None else normalize_components (butlast done) cs)"
| "normalize_components done (Normal n # cs) = normalize_components (done @ [Normal n]) cs"

definition normalize_absolute_path :: "string \<Rightarrow> component list option" where
  "normalize_absolute_path path =
     (if \<not> is_absolute path then None else normalize_components [] (components path))"

section \<open>Resource claims\<close>

definition ResourceClaim_conflicts :: "ResourceClaim \<Rightarrow> ResourceClaim \<Rightarrow> bool" where
  "ResourceClaim_conflicts self other \<longleftrightarrow>
     rc_kind self = rc_kind other \<and>
     \<not> (rc_access self = Shared \<and> rc_access other = Shared) \<and>
     (rc_id self = rc_id other \<or>
      rc_kind self = Directory \<and>
        (path_starts_with (rc_id self) (rc_id other) \<or> path_starts_with (rc_id other) (rc_id self)))"

section \<open>Schema marker\<close>

definition Schema2_deserialize :: "u8 \<Rightarrow> validation" where
  "Schema2_deserialize value =
     reject_if (value \<noteq> EXECUTOR_SCHEMA)
       (contract_error ''executor schema must be {EXECUTOR_SCHEMA}; schema {value} is unsupported'')"

section \<open>Log references and stream summaries\<close>

definition check_log_ref :: "LogRef \<Rightarrow> validation" where
  "check_log_ref self =
     (case lr_check self of
        None \<Rightarrow> Err (contract_error ''check and discovery log references require a check'')
      | Some check \<Rightarrow> steps [
          validate_name ''log check'' check 64,
          reject_if (lr_case self \<noteq> None)
            (contract_error ''only case log references may name a case'')])"

definition case_log_ref :: "LogRef \<Rightarrow> validation" where
  "case_log_ref self =
     (case lr_check self of
        None \<Rightarrow> Err (contract_error ''case log references require a check'')
      | Some check \<Rightarrow>
          (case lr_case self of
             None \<Rightarrow> Err (contract_error ''case log references require a case'')
           | Some case_id \<Rightarrow> steps [
               validate_name ''log check'' check 64,
               validate_case_id case_id]))"

definition LogRef_validate :: "LogRef \<Rightarrow> validation" where
  "LogRef_validate self = steps [
     validate_identity ''log run_id'' (lr_run_id self) 128,
     (case lr_phase self of
        LogPhase.Executor \<Rightarrow>
          reject_if (lr_check self \<noteq> None \<or> lr_case self \<noteq> None)
            (contract_error ''executor log references cannot name a check or case'')
      | LogPhase.Check \<Rightarrow> check_log_ref self
      | LogPhase.Discovery \<Rightarrow> check_log_ref self
      | LogPhase.Case \<Rightarrow> case_log_ref self
      | LogPhase.Fixture \<Rightarrow> case_log_ref self
      | LogPhase.Cleanup \<Rightarrow> case_log_ref self)]"

definition LogStreamSummary_validate :: "LogStreamSummary \<Rightarrow> validation" where
  "LogStreamSummary_validate self = steps [
     LogRef_validate (lss_log_ref self),
     validate_digest ''log stream sha256'' (lss_sha256 self),
     reject_if ((lss_first_write_epoch_ms self \<noteq> None) \<noteq> (lss_last_write_epoch_ms self \<noteq> None))
       (contract_error ''log stream first and last write times must appear together''),
     reject_if (lss_bytes self = 0 \<and> lss_first_write_epoch_ms self \<noteq> None)
       (contract_error ''empty log streams cannot have write times''),
     reject_if (0 < lss_bytes self \<and> lss_first_write_epoch_ms self = None)
       (contract_error ''non-empty log streams require write times''),
     reject_if ((lss_bytes self = 0 \<and> lss_lines self \<noteq> 0) \<or>
         (0 < lss_bytes self \<and> (lss_lines self = 0 \<or> lss_bytes self < lss_lines self)))
       (contract_error ''log stream line count is inconsistent with its byte count''),
     reject_if
       (case (lss_first_write_epoch_ms self, lss_last_write_epoch_ms self) of
          (Some first_ms, Some last_ms) \<Rightarrow> last_ms < first_ms | _ \<Rightarrow> False)
       (contract_error ''log stream last write precedes its first write'')]"

section \<open>Diagnostic values, locations, exits\<close>

definition DiagnosticValue_validate :: "DiagnosticValue \<Rightarrow> validation" where
  "DiagnosticValue_validate self = steps [
     validate_digest ''diagnostic value sha256'' (dv_sha256 self),
     reject_if (dv_redacted self \<and> dv_preview self \<noteq> None)
       (contract_error ''redacted diagnostic values cannot include a preview''),
     reject_if
       (optb (\<lambda>preview. MAX_DIAGNOSTIC_PREVIEW_BYTES < length preview \<or> has_control preview \<or>
            dv_byte_count self < saturating_of_nat (length preview)) (dv_preview self))
       (contract_error ''diagnostic value preview is not a bounded single-line value'')]"

definition SourceLocation_validate :: "SourceLocation \<Rightarrow> validation" where
  "SourceLocation_validate self = steps [
     reject_if (MAX_DIAGNOSTIC_PATH_BYTES < length (sl_file self))
       (contract_error ''diagnostic source path exceeds 512 bytes''),
     validate_relative_path ''diagnostic source'' (sl_file self),
     reject_if (sl_line self = 0 \<or> sl_column self = Some 0)
       (contract_error ''diagnostic source line and column are one-based'')]"

definition DiagnosticExit_validate :: "DiagnosticExit \<Rightarrow> validation" where
  "DiagnosticExit_validate self = steps [
     reject_if (de_code self \<noteq> None \<and> de_signal self \<noteq> None)
       (contract_error ''diagnostic exit cannot contain both a code and signal''),
     reject_if (de_signal self = Some 0 \<or> optb (\<lambda>signal. 127 < signal) (de_signal self))
       (contract_error ''diagnostic signal must be in [1, 127]'')]"

section \<open>Coordinator diagnostics\<close>

definition invalid_container_name :: "string \<Rightarrow> bool" where
  "invalid_container_name name =
     (let name = (case strip_prefix ''/'' name of Some rest \<Rightarrow> rest | None \<Rightarrow> name)
      in name = [] \<or> 128 < length name \<or>
         list_ex (\<lambda>b. b = CHR ''/'' \<or> b = CHR 0x5C \<or> b = CHR 0x0A \<or> b = CHR 0x0D) name)"

definition managed_labels :: "string list" where
  "managed_labels = [''devcoordinator2.run'', ''devcoordinator2.check'',
     ''devcoordinator2.repository'', ''devcoordinator2.owner'']"

definition is_container_class :: "CoordinatorDiagnosticClass \<Rightarrow> bool" where
  "is_container_class c \<longleftrightarrow> c = ContainerStart \<or> c = ContainerCleanup"

definition cde_refs :: "CoordinatorDiagnosticEntry \<Rightarrow> LogRef list" where
  "cde_refs self =
     flatten_options [cde_stdout_ref self, cde_stderr_ref self, cde_cleanup_stderr_ref self]"

definition cde_class_validate :: "CoordinatorDiagnosticEntry \<Rightarrow> validation" where
  "cde_class_validate self =
     (if cde_class self = Solver \<and>
         (\<not> cde_native_execution_started self \<or> cde_cleanup_status self = NotRequired)
      then Err (contract_error ''solver diagnostics require native execution and cleanup state'')
      else if is_container_class (cde_class self) \<and> cde_container_labels self = []
      then Err (contract_error ''container diagnostics require ownership labels'')
      else if is_container_class (cde_class self) \<and>
         list_ex (\<lambda>managed. \<not> bt_contains (cde_container_labels self) managed) managed_labels
      then Err (contract_error
        ''container diagnostics require run_id, check, repository, and owner labels'')
      else if cde_class self = ContainerCleanup \<and>
         \<not> (cde_cleanup_status self = CoordinatorCleanupStatus.Pending \<or>
            cde_cleanup_status self = CoordinatorCleanupStatus.Failed)
      then Err (contract_error ''container cleanup diagnostics require pending or failed cleanup'')
      else if cde_class self = ContainerCleanup \<and> cde_command_phase self \<noteq> CheckPhase.Cleanup
      then Err (contract_error ''container cleanup diagnostics require the cleanup command phase'')
      else if cde_class self = ContainerCleanup \<and> cde_container_id self = None
      then Err (contract_error ''container cleanup diagnostics require the exact container id'')
      else Ok ())"

definition CoordinatorDiagnosticEntry_validate :: "CoordinatorDiagnosticEntry \<Rightarrow> validation" where
  "CoordinatorDiagnosticEntry_validate self = steps [
     DiagnosticExit_validate (cde_exit self),
     reject_if (cde_retryable self \<and> cde_next_action self = NoAction)
       (contract_error ''retryable coordinator diagnostics require a next action''),
     reject_if
       (optb (\<lambda>id. length id \<noteq> 64 \<or> \<not> list_all is_ascii_hexdigit id) (cde_container_id self))
       (contract_error ''coordinator container id must be a full 64-character hex id''),
     reject_if (optb invalid_container_name (cde_container_name self))
       (contract_error ''coordinator container name is invalid or unbounded''),
     reject_if (16 < length (cde_container_labels self))
       (contract_error ''coordinator container labels exceed their bound''),
     for_each (\<lambda>(key, value).
       reject_if (key = [] \<or> 128 < length key \<or> value = [] \<or> 256 < length value \<or>
           has_control key \<or> has_control value)
         (contract_error ''coordinator container label is invalid or unbounded''))
       (cde_container_labels self),
     for_each LogRef_validate (cde_refs self),
     reject_if
       (optb (\<lambda>r. lr_stream r \<noteq> Stdout) (cde_stdout_ref self) \<or>
        optb (\<lambda>r. lr_stream r \<noteq> Stderr) (cde_stderr_ref self) \<or>
        optb (\<lambda>r. lr_stream r \<noteq> Stderr \<or> lr_phase r \<noteq> LogPhase.Cleanup)
          (cde_cleanup_stderr_ref self))
       (contract_error ''coordinator diagnostic log reference has the wrong stream or phase''),
     reject_if
       (cde_stdout_ref self = None \<and> cde_stdout_bytes self \<noteq> 0 \<or>
        cde_stderr_ref self = None \<and> cde_stderr_bytes self \<noteq> 0 \<or>
        cde_cleanup_stderr_ref self = None \<and> cde_cleanup_stderr_bytes self \<noteq> 0)
       (contract_error ''coordinator diagnostic byte counts require bounded log references''),
     cde_class_validate self]"

definition is_reported_failure :: "LeafStatus \<Rightarrow> bool" where
  "is_reported_failure s \<longleftrightarrow> s = LeafStatus.Failed \<or> s = LeafStatus.TimedOut \<or>
     s = LeafStatus.Cancelled \<or> s = LeafStatus.Unsafe"

definition CoordinatorDiagnosticReport_validate ::
  "CoordinatorDiagnosticReport \<Rightarrow> string \<Rightarrow> string \<Rightarrow> string option \<Rightarrow> LogPhase \<Rightarrow> validation" where
  "CoordinatorDiagnosticReport_validate self run check case_id phase = steps [
     validate_identity ''coordinator diagnostic run_id'' (cdr_run_id self) 128,
     validate_name ''coordinator diagnostic check'' (cdr_check self) 64,
     reject_if (cdr_run_id self \<noteq> run \<or> cdr_check self \<noteq> check \<or> cdr_case self \<noteq> case_id \<or>
         cdr_phase self \<noteq> phase)
       (contract_error ''coordinator diagnostic identity does not match its execution leaf''),
     if_some validate_case_id (cdr_case self),
     reject_if (MAX_DIAGNOSTIC_EVENTS < length (cdr_diagnostics self) \<or>
         unat (cdr_failed_diagnostics self) \<noteq> length (cdr_diagnostics self))
       (contract_error ''coordinator diagnostic count does not match its entries''),
     for_each (\<lambda>diagnostic. steps [
       reject_if (\<not> is_reported_failure (cde_status diagnostic))
         (contract_error ''coordinator diagnostics require a terminal failure status''),
       CoordinatorDiagnosticEntry_validate diagnostic,
       reject_if
         (is_container_class (cde_class diagnostic) \<and>
          (bt_get (cde_container_labels diagnostic) ''devcoordinator2.run'' \<noteq> Some (cdr_run_id self) \<or>
           bt_get (cde_container_labels diagnostic) ''devcoordinator2.check'' \<noteq> Some (cdr_check self)))
         (contract_error ''container diagnostic ownership labels do not match its run or check''),
       for_each (\<lambda>reference.
         reject_if (lr_run_id reference \<noteq> cdr_run_id self \<or>
             lr_check reference \<noteq> Some (cdr_check self) \<or> lr_case reference \<noteq> cdr_case self)
           (contract_error ''coordinator diagnostic log reference belongs to another leaf''))
         (cde_refs diagnostic)]) (cdr_diagnostics self)]"

section \<open>Failure index entries and diagnostic events\<close>

definition is_failure_status :: "LeafStatus \<Rightarrow> bool" where
  "is_failure_status s \<longleftrightarrow> s = LeafStatus.Failed \<or> s = LeafStatus.TimedOut \<or>
     s = LeafStatus.Invalidated \<or> s = LeafStatus.NotMeaningful \<or> s = LeafStatus.Cancelled \<or>
     s = LeafStatus.Unsafe"

definition FailureIndexEntry_validate :: "FailureIndexEntry \<Rightarrow> validation" where
  "FailureIndexEntry_validate self = steps [
     if_some (\<lambda>check. validate_name ''diagnostic check'' check 64) (fie_check self),
     if_some (\<lambda>case_id. steps [
       reject_if (fie_check self = None)
         (contract_error ''diagnostic case cannot be present without a check''),
       validate_diagnostic_name ''diagnostic case'' case_id]) (fie_case self),
     reject_if (\<not> is_failure_status (fie_status self))
       (contract_error ''failure diagnostics require a terminal non-success status''),
     DiagnosticExit_validate (fie_exit self),
     if_some SourceLocation_validate (fie_source self),
     if_some DiagnosticValue_validate (fie_expected self),
     if_some DiagnosticValue_validate (fie_actual self),
     validate_fingerprint (fie_fingerprint self),
     reject_if (fie_occurrences self = 0)
       (contract_error ''diagnostic occurrence count must be positive''),
     reject_if (MAX_DIAGNOSTIC_LOG_REFS < length (fie_log_refs self))
       (contract_error ''diagnostic has more than {MAX_DIAGNOSTIC_LOG_REFS} log references''),
     for_each_new LogRef_validate (\<lambda>r. r)
       (\<lambda>_. contract_error ''diagnostic repeats a log reference'') {} (fie_log_refs self),
     if_some CoordinatorDiagnosticEntry_validate (fie_coordinator self)]"

definition DiagnosticEvent_validate ::
  "DiagnosticEvent \<Rightarrow> string \<Rightarrow> string \<Rightarrow> string option \<Rightarrow> LogPhase \<Rightarrow> validation" where
  "DiagnosticEvent_validate self run check case_id phase = steps [
     validate_identity ''diagnostic run_id'' (ev_run_id self) 128,
     validate_name ''diagnostic check'' (ev_check self) 64,
     reject_if (ev_run_id self \<noteq> run \<or> ev_check self \<noteq> check \<or> ev_case self \<noteq> case_id)
       (contract_error ''diagnostic event identity does not match its execution leaf''),
     if_some validate_case_id (ev_case self),
     reject_if (\<not> is_reported_failure (ev_status self))
       (contract_error
         ''diagnostic events require a failed, timed_out, cancelled, or unsafe status''),
     DiagnosticExit_validate (ev_exit self),
     if_some SourceLocation_validate (ev_source self),
     if_some DiagnosticValue_validate (ev_expected self),
     if_some DiagnosticValue_validate (ev_actual self),
     reject_if (MAX_DIAGNOSTIC_LOG_REFS < length (ev_log_refs self))
       (contract_error ''diagnostic event has more than {MAX_DIAGNOSTIC_LOG_REFS} log references''),
     for_each_new (\<lambda>log_ref. steps [
         LogRef_validate log_ref,
         reject_if (lr_run_id log_ref \<noteq> ev_run_id self \<or> lr_check log_ref \<noteq> Some (ev_check self))
           (contract_error ''diagnostic event log reference belongs to another leaf''),
         reject_if (lr_case log_ref \<noteq> ev_case self)
           (contract_error ''diagnostic event case log reference belongs to another case''),
         reject_if (lr_phase log_ref \<noteq> phase)
           (contract_error ''diagnostic event log reference has the wrong leaf phase'')])
       (\<lambda>r. r) (\<lambda>_. contract_error ''diagnostic event repeats a log reference'') {}
       (ev_log_refs self)]"

text \<open>The JSON decoder is a parameter: it is the \<^verbatim>\<open>serde_json\<close> crate.\<close>

definition DiagnosticEvent_from_json ::
  "(string \<Rightarrow> DiagnosticEvent option) \<Rightarrow> string \<Rightarrow> string \<Rightarrow> string \<Rightarrow> string option \<Rightarrow> LogPhase
     \<Rightarrow> (ContractError, DiagnosticEvent) result" where
  "DiagnosticEvent_from_json decode input run check case_id phase =
     (if MAX_EVENT_BYTES < length input
      then Err (contract_error ''diagnostic event exceeds 4096 bytes'')
      else case decode input of
             None \<Rightarrow> Err (contract_error ''diagnostic event is not valid schema-2 JSON'')
           | Some event \<Rightarrow> then_do (DiagnosticEvent_validate event run check case_id phase)
                             (\<lambda>_. Ok event))"

section \<open>What accepted fields are\<close>

definition path_safe_byte :: "char \<Rightarrow> bool" where
  "path_safe_byte b \<longleftrightarrow> b \<noteq> CHR ''/'' \<and> b \<noteq> nul \<and> b \<noteq> CHR 0x5C"

lemma identity_byte_path_safe: "is_identity_byte b \<Longrightarrow> path_safe_byte b"
  by (auto simp: is_identity_byte_def path_safe_byte_def ascii_defs)

lemma name_byte_path_safe:
  "is_ascii_lowercase b \<or> is_ascii_digit b \<or> b = CHR ''-'' \<Longrightarrow> is_identity_byte b"
  by (auto simp: is_identity_byte_def is_ascii_alphanumeric_def)

lemma segments_single: "CHR ''/'' \<notin> set s \<Longrightarrow> segments s = [s]"
  by (induction s) auto

lemma components_single:
  assumes "s \<noteq> []" and "CHR ''/'' \<notin> set s" and "hd s \<noteq> CHR ''.''"
  shows "components s = [Normal s]"
proof -
  have "\<not> is_absolute s" using assms(1,2) by (cases s) (auto simp: is_absolute_def)
  moreover have "s \<noteq> ''.''" and "s \<noteq> ''..''" using assms(3) by auto
  ultimately show ?thesis
    using assms(1,2) by (simp add: components_def segments_single segment_component_def)
qed

text \<open>The shape shared by names, identities and case ids.\<close>

lemma identity_component:
  assumes "s \<noteq> []" and "is_ascii_alphanumeric (hd s)" and "\<forall>b \<in> set s. is_identity_byte b"
  shows "components s = [Normal s]" and "\<forall>b \<in> set s. path_safe_byte b"
proof -
  show safe: "\<forall>b \<in> set s. path_safe_byte b"
    using assms(3) by (blast intro: identity_byte_path_safe)
  then have "CHR ''/'' \<notin> set s" by (auto simp: path_safe_byte_def)
  moreover have "hd s \<noteq> CHR ''.''" using assms(2) by (auto simp: ascii_defs)
  ultimately show "components s = [Normal s]" by (rule components_single [OF assms(1)])
qed

lemma validate_name_shape:
  assumes "validate_name kind s n = Ok ()"
  shows "s \<noteq> []" and "is_ascii_alphanumeric (hd s)" and "\<forall>b \<in> set s. is_identity_byte b"
  using assms
  by (auto simp: validate_name_def all_bytes_def list_all_iff is_ascii_alphanumeric_def
      is_identity_byte_def split: list.splits)

lemma validate_identity_shape:
  assumes "validate_identity kind s n = Ok ()"
  shows "s \<noteq> []" and "is_ascii_alphanumeric (hd s)" and "\<forall>b \<in> set s. is_identity_byte b"
  using assms by (auto simp: validate_identity_def list_all_iff)

lemma validate_case_id_shape:
  assumes "validate_case_id s = Ok ()"
  shows "s \<noteq> []" and "is_ascii_alphanumeric (hd s)" and "\<forall>b \<in> set s. is_identity_byte b"
  using assms
  by (auto simp: validate_case_id_def all_bytes_def list_all_iff is_identity_byte_def
      split: list.splits)

lemma relative_path_components:
  assumes "validate_relative_path kind s = Ok ()"
  shows "\<not> is_absolute s" and "\<forall>x \<in> set (components s). \<exists>n. x = Normal n"
proof -
  have "\<exists>n. x = Normal n" if "is_normal x" for x using that by (cases x) auto
  then show "\<not> is_absolute s" and "\<forall>x \<in> set (components s). \<exists>n. x = Normal n"
    using assms by (auto simp: validate_relative_path_def list_all_iff)
qed

section \<open>Normalisation\<close>

definition rooted :: "component list \<Rightarrow> bool" where
  "rooted cs \<longleftrightarrow> (\<exists>ns. cs = RootDir # map Normal ns)"

lemma rooted_snoc: "rooted cs \<Longrightarrow> rooted (cs @ [Normal n])"
  unfolding rooted_def by (metis append_Cons list.simps(8,9) map_append)

lemma rooted_butlast: "rooted cs \<Longrightarrow> cs \<noteq> [RootDir] \<Longrightarrow> rooted (butlast cs)"
  unfolding rooted_def by (auto simp: map_butlast [symmetric])

lemma normalize_components_rooted:
  "rooted done \<Longrightarrow> normalize_components done cs = Some r \<Longrightarrow> rooted r"
proof (induction "done" cs rule: normalize_components.induct)
  case (2 "done" cs)
  then show ?case by (simp add: rooted_def)
next
  case (4 "done" cs)
  then show ?case by (auto split: if_splits intro: rooted_butlast)
next
  case (5 "done" n cs)
  then show ?case by (simp add: rooted_snoc)
qed simp_all

lemma normalize_components_normals:
  "\<forall>x \<in> set cs. \<exists>n. x = Normal n \<Longrightarrow> normalize_components done cs = Some (done @ cs)"
  by (induction cs arbitrary: "done") auto

lemma normalize_components_append:
  "normalize_components done (cs @ ds) =
     Option.bind (normalize_components done cs) (\<lambda>r. normalize_components r ds)"
  by (induction "done" cs rule: normalize_components.induct) auto

lemma absolute_components:
  assumes "is_absolute p"
  obtains cs where "components p = RootDir # cs" and "RootDir \<notin> set cs"
  using assms by (force simp: components_def segment_component_def split: if_splits)

lemma normalize_absolute_path_rooted:
  assumes "normalize_absolute_path p = Some r"
  shows "rooted r"
proof -
  have abs: "is_absolute p" using assms by (simp add: normalize_absolute_path_def split: if_splits)
  then obtain cs where "components p = RootDir # cs" by (rule absolute_components)
  then have "normalize_components [RootDir] cs = Some r"
    using assms abs by (simp add: normalize_absolute_path_def)
  moreover have "rooted [RootDir]" by (simp add: rooted_def)
  ultimately show ?thesis by (rule normalize_components_rooted [rotated])
qed

lemma conflicts_sym: "ResourceClaim_conflicts a b \<longleftrightarrow> ResourceClaim_conflicts b a"
  by (auto simp: ResourceClaim_conflicts_def)

section \<open>Names and paths are safe\<close>

text \<open>
  A value accepted as a name, an identity or a case id is one
  normal component of a path: it has no separator, no backslash and no NUL byte, and it is
  neither \<^verbatim>\<open>.\<close> nor \<^verbatim>\<open>..\<close>.
\<close>

theorem accepted_names_are_components:
  assumes "validate_name kind s n = Ok () \<or> validate_identity kind s n = Ok () \<or>
           validate_case_id s = Ok ()"
  shows "components s = [Normal s] \<and> (\<forall>b \<in> set s. b \<noteq> CHR ''/'' \<and> b \<noteq> CHR 0x5C \<and> b \<noteq> nul)"
proof -
  have "s \<noteq> []" and "is_ascii_alphanumeric (hd s)" and "\<forall>b \<in> set s. is_identity_byte b"
    using assms validate_name_shape validate_identity_shape validate_case_id_shape by metis+
  from identity_component [OF this] show ?thesis by (simp add: path_safe_byte_def)
qed

theorem accepted_names_are_components_witness:
  "components ''lint-rust'' = [Normal ''lint-rust'']"
  using accepted_names_are_components [of "''check''" "''lint-rust''" 64]
  by (simp add: validate_name_def all_bytes_def ascii_defs)

text \<open>
  A path accepted as repository-relative stays below every root it is
  joined to: the normalised joined path is the normalised root followed by the components of
  the path, and none of those leaves the root.
\<close>

theorem relative_path_contained:
  assumes "validate_relative_path kind path = Ok ()" and "normalize_absolute_path base = Some r"
  shows "normalize_absolute_path (base @ CHR ''/'' # path) = Some (r @ components path)
    \<and> rooted (r @ components path) \<and> prefix r (r @ components path)"
proof -
  note rel = relative_path_components [OF assms(1)]
  have root: "is_absolute base" "normalize_components [] (components base) = Some r"
    using assms(2) by (simp_all add: normalize_absolute_path_def split: if_splits)
  have joined: "components (base @ CHR ''/'' # path) = components base @ components path"
    using components_join [OF root(1)] components_relative [OF rel] by simp
  have norm: "normalize_absolute_path (base @ CHR ''/'' # path) = Some (r @ components path)"
    using root rel(2)
    by (simp add: normalize_absolute_path_def joined normalize_components_append
        normalize_components_normals)
  with normalize_absolute_path_rooted [OF norm] show ?thesis by simp
qed

theorem relative_path_contained_witness:
  "normalize_absolute_path ''/work/./tree/../repo/out/log.txt'' =
     Some [RootDir, Normal ''work'', Normal ''repo'', Normal ''out'', Normal ''log.txt'']"
  using relative_path_contained [of "''artifact''" "''out/log.txt''" "''/work/./tree/../repo''"
      "[RootDir, Normal ''work'', Normal ''repo'']"]
  by (simp add: validate_relative_path_def normalize_absolute_path_def components_def
      is_absolute_def segment_component_def)

definition sample_digest :: string where
  "sample_digest = replicate 64 (CHR ''0'')"

lemma sample_digest_valid [simp]:
  "length sample_digest = 64" "list_all is_lower_hex sample_digest" "validate_digest kind sample_digest = Ok ()"
  by (simp_all add: sample_digest_def list_all_iff is_lower_hex_def ascii_defs validate_digest_def)

end
