(* ===== verification/Report_Contract.thy ===== *)
theory Report_Contract
  imports Protocol_Fields
begin

text \<open>
  \<^verbatim>\<open>ExecutionReport::validate\<close> and the functions it calls in
  \<^verbatim>\<open>src/rust/executor-protocol/src/lib.rs\<close>: the report the executor hands to the control plane.
  The theorems show what an accepted report says of itself: its counts are the counts of its
  checks, its diagnostic totals add up, every log reference belongs to the run.
\<close>

section \<open>Process admission\<close>

definition progress_total :: "ExecutionProgress \<Rightarrow> nat" where
  "progress_total progress =
     unat (xp_waiting progress) + unat (xp_admitted progress) + unat (xp_executing progress) +
     unat (xp_finished progress)"

definition validate_execution_progress :: "ExecutionProgress \<Rightarrow> validation" where
  "validate_execution_progress progress =
     reject_if
       (progress_total progress = 0 \<or> 4097 < progress_total progress \<or>
        xp_queued_at_epoch_ms progress = 0 \<or>
        xp_started_at_epoch_ms progress \<noteq> None \<and> xp_admitted_at_epoch_ms progress = None \<or>
        0 < xp_executing progress \<and> xp_started_at_epoch_ms progress = None \<or>
        0 < xp_admitted progress \<and> xp_admitted_at_epoch_ms progress = None \<or>
        xp_finished_at_epoch_ms progress \<noteq> None \<and>
          0 < xp_waiting progress + xp_admitted progress + xp_executing progress)
       (contract_error ''process admission observation is inconsistent'')"

section \<open>Reports of checks\<close>

definition invalid_seconds :: "f64 \<Rightarrow> bool" where
  "invalid_seconds x \<longleftrightarrow> \<not> f64_is_finite x \<or> f64_less x (Finite 0)"

definition validate_receipts :: "string \<Rightarrow> ArtifactReceipt list \<Rightarrow> validation" where
  "validate_receipts label receipts =
     for_each_new (\<lambda>receipt. steps [
         validate_relative_path label (ar_path receipt),
         validate_digest (label @ '' sha256'') (ar_sha256 receipt)])
       ar_path (\<lambda>_. ContractError ''check report repeats a {label}'' [label]) {} receipts"

definition validate_check_stream :: "string \<Rightarrow> string \<Rightarrow> LogStreamSummary \<Rightarrow> validation" where
  "validate_check_stream run check stream = steps [
     LogStreamSummary_validate stream,
     reject_if (lr_run_id (lss_log_ref stream) \<noteq> run \<or> lr_check (lss_log_ref stream) \<noteq> Some check \<or>
         lr_case (lss_log_ref stream) \<noteq> None)
       (contract_error ''check stream belongs to another execution leaf'')]"

fun case_log_phase :: "CheckPhase \<Rightarrow> (ContractError, LogPhase) result" where
  "case_log_phase CheckPhase.Fixture = Ok LogPhase.Fixture"
| "case_log_phase CheckPhase.Cleanup = Ok LogPhase.Cleanup"
| "case_log_phase CheckPhase.Case = Ok LogPhase.Case"
| "case_log_phase _ = Err (contract_error ''unsupported case phase'')"

definition validate_case_phase :: "string \<Rightarrow> string \<Rightarrow> string \<Rightarrow> CasePhaseReport \<Rightarrow> validation" where
  "validate_case_phase run check case_id phase =
     then_do (case_log_phase (cpr_phase phase)) (\<lambda>expected.
       for_each (\<lambda>stream. steps [
           LogStreamSummary_validate stream,
           reject_if (lr_run_id (lss_log_ref stream) \<noteq> run \<or>
               lr_check (lss_log_ref stream) \<noteq> Some check \<or>
               lr_case (lss_log_ref stream) \<noteq> Some case_id \<or>
               lr_phase (lss_log_ref stream) \<noteq> expected)
             (contract_error ''case phase stream belongs to another leaf'')])
         (cpr_streams phase))"

definition validate_report_case :: "string \<Rightarrow> string \<Rightarrow> CaseReport \<Rightarrow> validation" where
  "validate_report_case run check c = steps [
     if_some validate_execution_progress (cr_execution c),
     DiagnosticExit_validate (cr_exit c),
     reject_if (8 < length (cr_phases c)) (contract_error ''case phase report exceeds its bound''),
     for_each_fresh (\<lambda>_. Ok ()) cpr_phase (\<lambda>_. contract_error ''case report repeats a phase'')
       (validate_case_phase run check (cr_id c)) {} (cr_phases c),
     for_each (\<lambda>stream. steps [
         LogStreamSummary_validate stream,
         reject_if (lr_run_id (lss_log_ref stream) \<noteq> run \<or>
             lr_check (lss_log_ref stream) \<noteq> Some check \<or>
             lr_case (lss_log_ref stream) \<noteq> Some (cr_id c))
           (contract_error ''case stream belongs to another execution leaf'')])
       (cr_streams c)]"

definition validate_report_check :: "string \<Rightarrow> CheckReport \<Rightarrow> validation" where
  "validate_report_check run check = steps [
     reject_if (8 < length (kr_phase_durations check))
       (contract_error ''check phase durations exceed their bound''),
     for_each_new (\<lambda>phase.
         reject_if (pd_checks phase = 0 \<or> 3 * of_nat MAX_CASES + 1 < pd_checks phase \<or>
             invalid_seconds (pd_duration_seconds phase) \<or>
             optb invalid_seconds (pd_elapsed_seconds phase))
           (contract_error ''check phase duration is invalid''))
       pd_phase (\<lambda>_. contract_error ''check phase duration is invalid'') {}
       (kr_phase_durations check),
     validate_name ''report check'' (kr_name check) 64,
     reject_if (0 < kr_failed_diagnostics check \<and> LeafStatus_is_success (kr_status check))
       (contract_error ''successful check cannot contain failed diagnostics''),
     (if kr_fingerprint check \<noteq> []
      then validate_digest ''report check fingerprint'' (kr_fingerprint check) else Ok ()),
     reject_if (optb invalid_seconds (kr_duration_seconds check))
       (contract_error ''check duration must be finite and non-negative''),
     if_some validate_execution_progress (kr_execution check),
     DiagnosticExit_validate (kr_exit check),
     reject_if (16 < length (kr_artifacts check) \<or> 32 < length (kr_cache_inputs check) \<or>
         16 < length (kr_consumed_artifacts check) \<or>
         MAX_RETAINED_ARTIFACTS < length (kr_retained_artifacts check))
       (contract_error ''check report exceeds artifact bounds''),
     for_each_new (\<lambda>artifact. steps [
         validate_relative_path ''report artifact'' (ar_path artifact),
         validate_digest ''report artifact sha256'' (ar_sha256 artifact)])
       ar_path (\<lambda>_. contract_error ''check report repeats an artifact'') {} (kr_artifacts check),
     validate_receipts ''cache input'' (kr_cache_inputs check),
     validate_receipts ''consumed artifact'' (kr_consumed_artifacts check),
     for_each_new (\<lambda>artifact. steps [
         validate_name ''report retained artifact'' (rar_name artifact) 64,
         validate_digest ''report retained artifact sha256'' (rar_sha256 artifact),
         reject_if (rar_files artifact = 0)
           (contract_error ''retained artifact receipt is empty or duplicated'')])
       rar_name (\<lambda>_. contract_error ''retained artifact receipt is empty or duplicated'') {}
       (kr_retained_artifacts check),
     for_each (validate_check_stream run (kr_name check)) (kr_streams check),
     reject_if (MAX_CASES < length (kr_cases check) \<or>
         unat (kr_case_count check) < length (kr_cases check) \<or>
         \<not> kr_cases_truncated check \<and> unat (kr_case_count check) \<noteq> length (kr_cases check))
       (contract_error ''check case count or truncation is inconsistent''),
     for_each_fresh (\<lambda>c. validate_case_id (cr_id c)) cr_id
       (\<lambda>_. contract_error ''check report repeats a case'')
       (validate_report_case run (kr_name check)) {} (kr_cases check)]"

section \<open>Counts\<close>

fun report_leaf_name :: "LeafStatus \<Rightarrow> string" where
  "report_leaf_name LeafStatus.Pending = ''pending''"
| "report_leaf_name LeafStatus.Running = ''running''"
| "report_leaf_name LeafStatus.Reused = ''reused''"
| "report_leaf_name LeafStatus.Passed = ''passed''"
| "report_leaf_name LeafStatus.Failed = ''failed''"
| "report_leaf_name LeafStatus.TimedOut = ''timed_out''"
| "report_leaf_name LeafStatus.Invalidated = ''invalidated''"
| "report_leaf_name LeafStatus.NotMeaningful = ''not_meaningful''"
| "report_leaf_name LeafStatus.Cancelled = ''cancelled''"
| "report_leaf_name LeafStatus.Unsafe = ''unsafe''"

definition leaf_names :: "string list" where
  "leaf_names = [''pending'', ''running'', ''reused'', ''passed'', ''failed'', ''timed_out'',
     ''invalidated'', ''not_meaningful'', ''cancelled'', ''unsafe'']"

definition report_count_template :: "(string, u32) btree_map" where
  "report_count_template = fold (\<lambda>name m. bt_insert name 0 m) leaf_names []"

definition count_check :: "CheckReport \<Rightarrow> (string, u32) btree_map \<Rightarrow> (string, u32) btree_map" where
  "count_check check calculated =
     bt_modify (report_leaf_name (kr_status check)) (\<lambda>n. n + 1) calculated"

definition calculated_counts :: "CheckReport list \<Rightarrow> (string, u32) btree_map" where
  "calculated_counts checks = fold count_check checks report_count_template"

section \<open>The report\<close>

fun wrong_proof :: "ProofKind \<Rightarrow> string list \<Rightarrow> string option \<Rightarrow> validation" where
  "wrong_proof Complete selection origin =
     reject_if (selection \<noteq> [] \<or> origin \<noteq> None)
       (contract_error ''complete report cannot include selection or origin_run_id'')"
| "wrong_proof Selected selection origin =
     reject_if (selection = [] \<or> origin \<noteq> None)
       (contract_error ''selected report requires selection and no origin_run_id'')"
| "wrong_proof Retry selection origin =
     reject_if (length selection \<noteq> 1 \<or> origin = None \<or> origin = Some [])
       (contract_error ''retry report requires one selection and an origin_run_id'')"

definition validate_report_header :: "ExecutionReport \<Rightarrow> validation" where
  "validate_report_header self = steps [
     validate_identity ''report run_id'' (er_run_id self) 128,
     validate_name ''report test'' (er_test self) 32,
     validate_digest ''report source_digest'' (er_source_digest self),
     validate_digest ''report config_digest'' (er_config_digest self),
     reject_if (invalid_seconds (er_duration_seconds self))
       (contract_error ''report duration_seconds must be finite and non-negative''),
     reject_if
       (er_readiness_eligible self \<noteq> (er_proof self = Complete \<and> er_requested_tier self = Release))
       (contract_error ''report readiness_eligible contradicts proof and tier''),
     wrong_proof (er_proof self) (er_selection self) (er_origin_run_id self),
     if_some (\<lambda>origin. validate_identity ''report origin_run_id'' origin 128)
       (er_origin_run_id self),
     reject_if (256 < length (er_selection self) \<or> \<not> distinct (er_selection self))
       (contract_error ''report selection is duplicated or exceeds 256 checks''),
     for_each (\<lambda>check. validate_name ''report selection'' check 64) (er_selection self),
     reject_if (er_status self = RunStatus.Running \<and> er_finished_at self \<noteq> None)
       (contract_error ''running report cannot have finished_at''),
     reject_if (er_status self \<noteq> RunStatus.Running \<and> er_finished_at self = None)
       (contract_error ''terminal report requires finished_at''),
     for_each (\<lambda>value. reject_if (value = Some 0)
         (contract_error ''report capacity must be null or positive''))
       [cap_learned_capacity (er_capacity self), cap_effective_capacity (er_capacity self)],
     reject_if (256 < length (er_checks self)) (contract_error ''report exceeds 256 checks'')]"

definition validate_report_checks :: "ExecutionReport \<Rightarrow> validation" where
  "validate_report_checks self = steps [
     for_each_new (validate_report_check (er_run_id self)) kr_name
       (\<lambda>_. contract_error ''report repeats a check'') {} (er_checks self),
     reject_if (er_counts self \<noteq> calculated_counts (er_checks self))
       (contract_error ''report counts do not match check states'')]"

text \<open>The two sums of \<^verbatim>\<open>u64\<close>: fewer than \<open>2 ^ 32\<close> summands of 32 bits cannot overflow.\<close>

definition calculated_failed_diagnostics :: "ExecutionReport \<Rightarrow> nat" where
  "calculated_failed_diagnostics self = (\<Sum>check\<leftarrow>er_checks self. unat (kr_failed_diagnostics check))"

definition indexed_failed_diagnostics :: "ExecutionReport \<Rightarrow> nat" where
  "indexed_failed_diagnostics self =
     (\<Sum>failure\<leftarrow>filter (\<lambda>f. fie_origin f \<noteq> DiagnosticOrigin.Executor) (er_failure_index self).
        unat (fie_occurrences failure))"

definition validate_report_diagnostics :: "ExecutionReport \<Rightarrow> validation" where
  "validate_report_diagnostics self = steps [
     reject_if (calculated_failed_diagnostics self \<noteq> unat (er_failed_diagnostics self))
       (contract_error ''report failed_diagnostics does not match check summaries''),
     reject_if
       (\<not> er_failure_index_truncated self \<and>
          indexed_failed_diagnostics self \<noteq> calculated_failed_diagnostics self \<or>
        er_status self = RunStatus.Passed \<and>
          (0 < er_failed_diagnostics self \<or> er_failure_index self \<noteq> []))
       (contract_error ''passed report contains diagnostic failures or a non-zero failure index''),
     reject_if (er_status self = RunStatus.Passed \<and> 0 < er_failed_diagnostics self)
       (contract_error ''passed report cannot contain failed diagnostics'')]"

definition check_seconds :: "CheckReport \<Rightarrow> f64" where
  "check_seconds check =
     (case kr_execution check of
        Some progress \<Rightarrow>
          f64_div (f64_of_nat (unat (xp_process_duration_ms progress))) (Finite 1000)
      | None \<Rightarrow> (case kr_duration_seconds check of Some x \<Rightarrow> x | None \<Rightarrow> Finite 0))"

text \<open>One pass of the inner loop: the count and the seconds of the checks of a phase.\<close>

definition phase_step :: "CheckPhase \<Rightarrow> CheckReport \<Rightarrow> u32 \<times> f64 \<Rightarrow> u32 \<times> f64" where
  "phase_step phase check = (\<lambda>(count, total).
     case find (\<lambda>observed. pd_phase observed = phase) (kr_phase_durations check) of
       Some observed \<Rightarrow> (count + pd_checks observed, f64_add total (pd_duration_seconds observed))
     | None \<Rightarrow>
         if kr_phase_durations check = [] \<and> kr_phase check = phase
         then (count + 1, f64_add total (check_seconds check))
         else (count, total))"

definition validate_phase_totals :: "CheckReport list \<Rightarrow> PhaseDuration \<Rightarrow> validation" where
  "validate_phase_totals checks phase =
     (let (count, total) = fold (phase_step (pd_phase phase)) checks (0, Finite 0)
      in reject_if
           (pd_checks phase \<noteq> count \<or>
            f64_less (f64_of_rat (1 / 1000)) (f64_abs (f64_sub total (pd_duration_seconds phase))))
           (contract_error ''report phase duration does not match its independent checks''))"

definition validate_report_phases :: "ExecutionReport \<Rightarrow> validation" where
  "validate_report_phases self =
     for_each_fresh (\<lambda>phase.
         reject_if (invalid_seconds (pd_duration_seconds phase) \<or>
             optb invalid_seconds (pd_elapsed_seconds phase) \<or> pd_checks phase = 0)
           (contract_error ''report phase durations are invalid or duplicated''))
       pd_phase (\<lambda>_. contract_error ''report phase durations are invalid or duplicated'')
       (validate_phase_totals (er_checks self)) {} (er_phase_durations self)"

definition validate_failure_coordinator ::
  "string \<Rightarrow> FailureIndexEntry \<Rightarrow> CoordinatorDiagnosticEntry \<Rightarrow> validation" where
  "validate_failure_coordinator run failure coordinator = steps [
     reject_if (fie_origin failure \<noteq> DiagnosticOrigin.ExplicitEvent)
       (contract_error ''coordinator diagnostic evidence requires an explicit origin''),
     reject_if
       (is_container_class (cde_class coordinator) \<and>
        (bt_get (cde_container_labels coordinator) ''devcoordinator2.run'' \<noteq> Some run \<or>
         bt_get (cde_container_labels coordinator) ''devcoordinator2.check'' \<noteq> fie_check failure))
       (contract_error ''coordinator diagnostic ownership labels do not match its failure''),
     for_each (\<lambda>reference.
         reject_if (lr_run_id reference \<noteq> run \<or> lr_check reference \<noteq> fie_check failure \<or>
             lr_case reference \<noteq> fie_case failure)
           (contract_error ''coordinator diagnostic reference belongs to another failure''))
       (cde_refs coordinator)]"

definition validate_report_failure :: "ExecutionReport \<Rightarrow> FailureIndexEntry \<Rightarrow> validation" where
  "validate_report_failure self failure = steps [
     FailureIndexEntry_validate failure,
     if_some (validate_failure_coordinator (er_run_id self) failure) (fie_coordinator failure),
     reject_if (optb (\<lambda>check. check \<notin> set (map kr_name (er_checks self))) (fie_check failure))
       (contract_error ''failure entry names an unknown check''),
     reject_if
       (fie_origin failure \<noteq> DiagnosticOrigin.Executor \<and>
        optb (\<lambda>name. optb (\<lambda>check. LeafStatus_is_success (kr_status check))
            (find (\<lambda>check. kr_name check = name) (er_checks self))) (fie_check failure))
       (contract_error ''successful check contains a structured diagnostic failure''),
     for_each (\<lambda>log_ref.
         reject_if (lr_run_id log_ref \<noteq> er_run_id self \<or>
             optb (\<lambda>check. lr_check log_ref \<noteq> Some check) (fie_check failure))
           (contract_error ''failure log reference belongs to another run or check''))
       (fie_log_refs failure)]"

definition ExecutionReport_validate :: "ExecutionReport \<Rightarrow> validation" where
  "ExecutionReport_validate self = steps [
     validate_report_header self,
     validate_report_checks self,
     validate_report_diagnostics self,
     validate_report_phases self,
     reject_if (MAX_FAILURE_INDEX < length (er_failure_index self))
       (contract_error ''report exceeds {MAX_FAILURE_INDEX} failure entries''),
     for_each (validate_report_failure self) (er_failure_index self)]"

definition ExecutionReport_from_json ::
  "(string \<Rightarrow> ExecutionReport option) \<Rightarrow> string \<Rightarrow> (ContractError, ExecutionReport) result" where
  "ExecutionReport_from_json decode input =
     (if MAX_REPORT_BYTES < length input then Err (contract_error ''executor report exceeds 2 MiB'')
      else case decode input of
             None \<Rightarrow> Err (contract_error ''executor report is not valid schema-2 JSON'')
           | Some report \<Rightarrow> then_do (ExecutionReport_validate report) (\<lambda>_. Ok report))"

section \<open>What an accepted report says\<close>

definition status_count :: "LeafStatus \<Rightarrow> CheckReport list \<Rightarrow> nat" where
  "status_count s checks = length (filter (\<lambda>c. kr_status c = s) checks)"

lemma report_leaf_name_inj: "report_leaf_name s = report_leaf_name t \<longleftrightarrow> s = t"
  by (cases s; cases t) simp_all

lemma report_count_template_get: "bt_get report_count_template (report_leaf_name s) = Some 0"
  by (cases s) (simp_all add: report_count_template_def leaf_names_def)

lemma count_check_get:
  "bt_get (count_check c m) (report_leaf_name s) =
     (if kr_status c = s then map_option (\<lambda>n. n + 1) (bt_get m (report_leaf_name s))
      else bt_get m (report_leaf_name s))"
  by (auto simp: count_check_def bt_get_modify report_leaf_name_inj)

lemma count_checks_get:
  "bt_get (fold count_check checks m) (report_leaf_name s) =
     map_option (\<lambda>n. n + of_nat (status_count s checks)) (bt_get m (report_leaf_name s))"
proof (induction checks arbitrary: m)
  case Nil
  show ?case by (cases "bt_get m (report_leaf_name s)") (simp_all add: status_count_def)
next
  case (Cons c checks)
  show ?case
    by (cases "bt_get m (report_leaf_name s)")
      (auto simp: Cons.IH count_check_get status_count_def add.assoc)
qed

lemma calculated_counts_get:
  "bt_get (calculated_counts checks) (report_leaf_name s) = Some (of_nat (status_count s checks))"
  by (simp add: calculated_counts_def count_checks_get report_count_template_get)

lemma status_count_bounded: "status_count s checks \<le> length checks"
  by (simp add: status_count_def)

lemma ExecutionReport_validate_parts [accepts]:
  "ExecutionReport_validate r = Ok () \<longleftrightarrow>
     validate_report_header r = Ok () \<and> validate_report_checks r = Ok () \<and>
     validate_report_diagnostics r = Ok () \<and> validate_report_phases r = Ok () \<and>
     length (er_failure_index r) \<le> MAX_FAILURE_INDEX \<and>
     (\<forall>f \<in> set (er_failure_index r). validate_report_failure r f = Ok ())"
  by (auto simp: ExecutionReport_validate_def)

lemma validate_report_header_bound:
  "validate_report_header r = Ok () \<Longrightarrow> length (er_checks r) \<le> 256"
  by (simp add: validate_report_header_def)

section \<open>Properties of an accepted report\<close>

text \<open>
  The counts of an accepted report are the true numbers of its checks
  in each state, and no check is reported twice.
\<close>

theorem accepted_report_counts:
  assumes "ExecutionReport_validate r = Ok ()"
  shows "distinct (map kr_name (er_checks r)) \<and>
    (\<exists>n. bt_get (er_counts r) (report_leaf_name s) = Some n \<and>
       unat n = length (filter (\<lambda>c. kr_status c = s) (er_checks r)))"
proof -
  have parts: "validate_report_checks r = Ok ()" "length (er_checks r) \<le> 256"
    using assms by (simp_all add: ExecutionReport_validate_parts validate_report_header_bound)
  then have counts: "er_counts r = calculated_counts (er_checks r)"
    and names: "distinct (map kr_name (er_checks r))"
    by (simp_all add: validate_report_checks_def)
  have "status_count s (er_checks r) < 2 ^ 32"
    using parts(2) status_count_bounded [of s "er_checks r"] by simp
  then have "unat (of_nat (status_count s (er_checks r)) :: u32) = status_count s (er_checks r)"
    by (simp add: unat_of_nat take_bit_nat_eq_self_iff)
  with names show ?thesis by (simp add: counts calculated_counts_get status_count_def)
qed

text \<open>
  The diagnostic totals of an accepted report add up: the total is
  the sum over the checks and, unless the failure index is truncated, the sum of the
  occurrences indexed; a passed report has no failure at all, and a check with structured
  failures is not reported as successful.
\<close>

theorem accepted_report_diagnostics:
  assumes "ExecutionReport_validate r = Ok ()"
  shows "unat (er_failed_diagnostics r) = calculated_failed_diagnostics r
    \<and> (\<not> er_failure_index_truncated r \<longrightarrow>
         indexed_failed_diagnostics r = calculated_failed_diagnostics r)
    \<and> (er_status r = RunStatus.Passed \<longrightarrow> er_failure_index r = [] \<and>
         (\<forall>c \<in> set (er_checks r). kr_failed_diagnostics c = 0))
    \<and> (\<forall>c \<in> set (er_checks r). LeafStatus_is_success (kr_status c) \<longrightarrow> kr_failed_diagnostics c = 0)"
proof (intro conjI impI)
  have diag: "validate_report_diagnostics r = Ok ()" and checks: "validate_report_checks r = Ok ()"
    using assms by (simp_all add: ExecutionReport_validate_parts)
  from diag show total: "unat (er_failed_diagnostics r) = calculated_failed_diagnostics r"
    by (simp add: validate_report_diagnostics_def)
  from diag show "indexed_failed_diagnostics r = calculated_failed_diagnostics r"
    if "\<not> er_failure_index_truncated r"
    using that by (simp add: validate_report_diagnostics_def)
  show "\<forall>c \<in> set (er_checks r). LeafStatus_is_success (kr_status c) \<longrightarrow> kr_failed_diagnostics c = 0"
    using checks by (auto simp: validate_report_checks_def validate_report_check_def word_gt_0)
  assume passed: "er_status r = RunStatus.Passed"
  with diag show "er_failure_index r = []" by (simp add: validate_report_diagnostics_def)
  from passed diag have "er_failed_diagnostics r = 0"
    by (simp add: validate_report_diagnostics_def word_gt_0)
  with total show "\<forall>c \<in> set (er_checks r). kr_failed_diagnostics c = 0"
    by (auto simp: calculated_failed_diagnostics_def sum_list_eq_0_iff unat_eq_zero)
qed

section \<open>Sample reports\<close>

definition sample_check_report :: CheckReport where
  "sample_check_report =
     \<lparr>kr_phase_durations = [], kr_resource_waiting = False, kr_display_name = None,
      kr_execution = None, kr_name = ''lint'', kr_tier = Development, kr_role = Work,
      kr_phase = CheckPhase.Check, kr_fingerprint = [], kr_cache_inputs = [],
      kr_consumed_artifacts = [], kr_status = LeafStatus.Passed, kr_failed_diagnostics = 0,
      kr_started_at = None, kr_finished_at = None, kr_duration_seconds = Some (Finite 1),
      kr_exit = DiagnosticExit_default, kr_artifacts = [], kr_retained_artifacts = [],
      kr_streams = [], kr_case_count = 0, kr_cases = [], kr_cases_truncated = False\<rparr>"

definition sample_report :: ExecutionReport where
  "sample_report =
     \<lparr>er_run_id = ''run-1'', er_test = ''unit'', er_requested_tier = Release,
      er_readiness_eligible = True, er_proof = Complete, er_selection = [],
      er_origin_run_id = None, er_status = RunStatus.Passed, er_started_at = ''2026-01-01T00:00:00Z'',
      er_finished_at = Some ''2026-01-01T00:00:01Z'', er_duration_seconds = Finite 1,
      er_source_digest = sample_digest, er_config_digest = sample_digest,
      er_source_changed = False,
      er_capacity = \<lparr>cap_learned_capacity = Some 4, cap_effective_capacity = Some 2,
        cap_capacity_wait_count = 0\<rparr>,
      er_counts = calculated_counts [sample_check_report], er_failed_diagnostics = 0,
      er_checks = [sample_check_report], er_phase_durations = [],
      er_failure_index = [], er_failure_index_truncated = False\<rparr>"

lemma sample_report_valid: "ExecutionReport_validate sample_report = Ok ()"
  by (simp add: ExecutionReport_validate_parts validate_report_header_def validate_report_checks_def
      validate_report_diagnostics_def validate_report_phases_def validate_report_check_def
      validate_identity_def validate_name_def all_bytes_def is_identity_byte_def ascii_defs
      invalid_seconds_def validate_receipts_def DiagnosticExit_validate_def
      DiagnosticExit_default_def calculated_failed_diagnostics_def indexed_failed_diagnostics_def
      sample_report_def sample_check_report_def protocol_bounds)

theorem accepted_report_counts_witness:
  "\<exists>n. bt_get (er_counts sample_report) (report_leaf_name LeafStatus.Passed) = Some n \<and> unat n = 1"
  using accepted_report_counts [OF sample_report_valid, of LeafStatus.Passed]
  by (auto simp: sample_report_def sample_check_report_def)

theorem accepted_report_diagnostics_witness: "calculated_failed_diagnostics sample_report = 0"
  using accepted_report_diagnostics [OF sample_report_valid] by (simp add: sample_report_def)

end
