(* ===== verification/Progress.thy ===== *)
theory Progress
  imports Report_Contract
begin

text \<open>
  \<^verbatim>\<open>src/rust/executor-core/src/progress.rs\<close>, the observations a leaf process sends while it waits
  for a permit, is admitted, executes and ends, and their aggregation per check in
  \<^verbatim>\<open>src/rust/executor-core/src/runner.rs\<close>.  Wall-clock readings (milliseconds) and monotonic
  readings (nanoseconds) are arguments.  The theorems connect the observations to the report
  contract: every observation a process sends is accepted by
  \<open>validate_execution_progress\<close>, and the aggregate of a check is accepted exactly when the
  check has at most 4097 processes.
\<close>

section \<open>Observations\<close>

record LeafSelector =
  ls_check :: "string option"
  ls_phase :: LogPhase
  ls_case_id :: "string option"

record CapacityObservation =
  co_learned_capacity :: "u32 option"
  co_effective_capacity :: "u32 option"
  co_waited :: bool

record ProcessUpdate =
  pu_leaf_id :: string
  pu_selector :: LeafSelector
  pu_progress :: ExecutionProgress
  pu_capacity :: "CapacityObservation option"
  pu_status :: "LeafStatus option"
  pu_started_mono :: "nat option"
  pu_finished_mono :: "nat option"

record ProgressReporter =
  pr_update :: ProcessUpdate
  pr_queued :: nat
  pr_started :: "nat option"

text \<open>\<^verbatim>\<open>started.elapsed().as_millis()\<close> at the monotonic reading \<open>clock\<close>, capped at 64 bits.\<close>

definition elapsed :: "nat \<Rightarrow> nat \<Rightarrow> u64" where
  "elapsed clock started = saturating_of_nat ((clock - started) div 1000000)"

definition ProgressReporter_new :: "string \<Rightarrow> LeafSelector \<Rightarrow> u64 \<Rightarrow> nat \<Rightarrow> ProgressReporter" where
  "ProgressReporter_new leaf_id selector now clock =
     \<lparr>pr_update =
        \<lparr>pu_leaf_id = leaf_id, pu_selector = selector,
         pu_progress = ExecutionProgress_default\<lparr>xp_waiting := 1, xp_queued_at_epoch_ms := now\<rparr>,
         pu_capacity = None, pu_status = None, pu_started_mono = None, pu_finished_mono = None\<rparr>,
      pr_queued = clock, pr_started = None\<rparr>"

text \<open>The reporter after \<^verbatim>\<open>admitted\<close> and the update it sent.\<close>

definition ProgressReporter_admitted ::
  "CapacityObservation \<Rightarrow> u64 \<Rightarrow> nat \<Rightarrow> ProgressReporter \<Rightarrow> ProgressReporter \<times> ProcessUpdate" where
  "ProgressReporter_admitted capacity now clock self =
     (let progress = (pu_progress (pr_update self))
            \<lparr>xp_waiting := 0, xp_admitted := 1, xp_admitted_at_epoch_ms := Some now,
             xp_capacity_wait_ms := elapsed clock (pr_queued self)\<rparr>;
          update = (pr_update self)\<lparr>pu_progress := progress, pu_capacity := Some capacity\<rparr>
      in (self\<lparr>pr_update := update\<lparr>pu_capacity := None\<rparr>\<rparr>, update))"

definition ProgressReporter_executing ::
  "u64 \<Rightarrow> nat \<Rightarrow> ProgressReporter \<Rightarrow> ProgressReporter \<times> ProcessUpdate" where
  "ProgressReporter_executing now clock self =
     (let progress = (pu_progress (pr_update self))
            \<lparr>xp_admitted := 0, xp_executing := 1, xp_started_at_epoch_ms := Some now\<rparr>;
          update = (pr_update self)\<lparr>pu_progress := progress, pu_started_mono := Some clock\<rparr>
      in (self\<lparr>pr_update := update, pr_started := Some clock\<rparr>, update))"

definition ProgressReporter_finish :: "LeafStatus \<Rightarrow> ProgressReporter \<Rightarrow> ProgressReporter" where
  "ProgressReporter_finish status self =
     self\<lparr>pr_update := (pr_update self)\<lparr>pu_status := Some status\<rparr>\<rparr>"

text \<open>What \<^verbatim>\<open>drop\<close> sends.\<close>

definition ProgressReporter_drop :: "u64 \<Rightarrow> nat \<Rightarrow> ProgressReporter \<Rightarrow> ProcessUpdate" where
  "ProgressReporter_drop now clock self =
     (let update = pr_update self; progress = pu_progress update;
          progress = (if xp_admitted_at_epoch_ms progress = None
            then progress\<lparr>xp_capacity_wait_ms := elapsed clock (pr_queued self)\<rparr> else progress)
      in update\<lparr>
           pu_progress := progress\<lparr>xp_waiting := 0, xp_admitted := 0, xp_executing := 0,
             xp_finished := 1, xp_finished_at_epoch_ms := Some now,
             xp_process_duration_ms :=
               (case pr_started self of Some started \<Rightarrow> elapsed clock started | None \<Rightarrow> 0)\<rparr>,
           pu_finished_mono := Some clock,
           pu_status := (case pu_status update of None \<Rightarrow> Some LeafStatus.Cancelled | s \<Rightarrow> s)\<rparr>)"

section \<open>The life of a reporter\<close>

text \<open>
  The calls of \<^verbatim>\<open>run_process\<close> and \<^verbatim>\<open>run_process_observed\<close> (\<^verbatim>\<open>src/rust/executor-core/src/process.rs\<close>):
  a reporter is created, admitted at most once and then set executing at most once; the
  outcome may be recorded at any point and the reporter is dropped at any point.  The last
  argument holds the updates sent so far, the latest first.
\<close>

datatype stage = Queued | Admitted | Executing | Dropped

inductive reporter_run :: "u64 \<Rightarrow> stage \<Rightarrow> ProgressReporter \<Rightarrow> ProcessUpdate list \<Rightarrow> bool"
  for created :: u64 where
  new: "reporter_run created Queued (ProgressReporter_new leaf_id selector created clock)
          [pr_update (ProgressReporter_new leaf_id selector created clock)]"
| admitted: "reporter_run created Queued r sent \<Longrightarrow>
     ProgressReporter_admitted capacity now clock r = (r', update) \<Longrightarrow>
     reporter_run created Admitted r' (update # sent)"
| executing: "reporter_run created Admitted r sent \<Longrightarrow>
     ProgressReporter_executing now clock r = (r', update) \<Longrightarrow>
     reporter_run created Executing r' (update # sent)"
| finish: "reporter_run created stage r sent \<Longrightarrow> stage \<noteq> Dropped \<Longrightarrow>
     reporter_run created stage (ProgressReporter_finish status r) sent"
| dropped: "reporter_run created stage r sent \<Longrightarrow> stage \<noteq> Dropped \<Longrightarrow>
     reporter_run created Dropped r (ProgressReporter_drop now clock r # sent)"

inductive_cases reporter_run_dropped: "reporter_run created Dropped r sent"

section \<open>Aggregation\<close>

text \<open>\<^verbatim>\<open>a.into_iter().chain(b).min()\<close> and its twin with \<^verbatim>\<open>max\<close> over options.\<close>

definition chain_min :: "'a::linorder option \<Rightarrow> 'a option \<Rightarrow> 'a option" where
  "chain_min a b = (case (a, b) of (Some x, Some y) \<Rightarrow> Some (min x y) | (None, _) \<Rightarrow> b | _ \<Rightarrow> a)"

definition chain_max :: "'a::linorder option \<Rightarrow> 'a option \<Rightarrow> 'a option" where
  "chain_max a b = (case (a, b) of (Some x, Some y) \<Rightarrow> Some (max x y) | (None, _) \<Rightarrow> b | _ \<Rightarrow> a)"

definition empty_progress :: ExecutionProgress where
  "empty_progress = ExecutionProgress_default\<lparr>xp_queued_at_epoch_ms := - 1\<rparr>"

definition combine_progress :: "ExecutionProgress \<Rightarrow> ExecutionProgress \<Rightarrow> ExecutionProgress" where
  "combine_progress execution p =
     \<lparr>xp_waiting = xp_waiting execution + xp_waiting p,
      xp_admitted = xp_admitted execution + xp_admitted p,
      xp_executing = xp_executing execution + xp_executing p,
      xp_finished = xp_finished execution + xp_finished p,
      xp_queued_at_epoch_ms = min (xp_queued_at_epoch_ms execution) (xp_queued_at_epoch_ms p),
      xp_admitted_at_epoch_ms =
        chain_min (xp_admitted_at_epoch_ms execution) (xp_admitted_at_epoch_ms p),
      xp_started_at_epoch_ms =
        chain_min (xp_started_at_epoch_ms execution) (xp_started_at_epoch_ms p),
      xp_finished_at_epoch_ms =
        chain_max (xp_finished_at_epoch_ms execution) (xp_finished_at_epoch_ms p),
      xp_capacity_wait_ms = saturating_add (xp_capacity_wait_ms execution) (xp_capacity_wait_ms p),
      xp_process_duration_ms =
        saturating_add (xp_process_duration_ms execution) (xp_process_duration_ms p)\<rparr>"

definition settle_progress :: "ExecutionProgress \<Rightarrow> ExecutionProgress" where
  "settle_progress execution =
     (if 0 < xp_waiting execution + xp_admitted execution + xp_executing execution
      then execution\<lparr>xp_finished_at_epoch_ms := None\<rparr> else execution)"

definition aggregate_progress :: "ProcessUpdate list \<Rightarrow> ExecutionProgress" where
  "aggregate_progress updates =
     settle_progress (foldl combine_progress empty_progress (map pu_progress updates))"

section \<open>Every observation is acceptable\<close>

definition progress_ok :: "ExecutionProgress \<Rightarrow> bool" where
  "progress_ok p \<longleftrightarrow> validate_execution_progress p = Ok () \<and> progress_total p = 1"

definition stage_ok :: "u64 \<Rightarrow> stage \<Rightarrow> ProgressReporter \<Rightarrow> bool" where
  "stage_ok created stage r \<longleftrightarrow>
     (let p = pu_progress (pr_update r)
      in xp_queued_at_epoch_ms p = created \<and> xp_finished p = 0 \<and> xp_finished_at_epoch_ms p = None \<and>
         (stage = Queued \<longrightarrow> xp_waiting p = 1 \<and> xp_admitted p = 0 \<and> xp_executing p = 0 \<and>
            xp_admitted_at_epoch_ms p = None \<and> xp_started_at_epoch_ms p = None) \<and>
         (stage = Admitted \<longrightarrow> xp_waiting p = 0 \<and> xp_admitted p = 1 \<and> xp_executing p = 0 \<and>
            xp_admitted_at_epoch_ms p \<noteq> None \<and> xp_started_at_epoch_ms p = None) \<and>
         (stage = Executing \<longrightarrow> xp_waiting p = 0 \<and> xp_admitted p = 0 \<and> xp_executing p = 1 \<and>
            xp_admitted_at_epoch_ms p \<noteq> None \<and> xp_started_at_epoch_ms p \<noteq> None))"

lemmas reporter_defs = ProgressReporter_new_def ProgressReporter_admitted_def
  ProgressReporter_executing_def ProgressReporter_finish_def ProgressReporter_drop_def
  ExecutionProgress_default_def Let_def

lemma reporter_run_stage: "reporter_run created stage r sent \<Longrightarrow> stage \<noteq> Dropped \<Longrightarrow> stage_ok created stage r"
proof (induction rule: reporter_run.induct)
  case (finish stage r sent status)
  then show ?case by (simp add: stage_ok_def reporter_defs)
qed (auto simp: stage_ok_def reporter_defs)

lemma stage_progress_ok:
  assumes "stage_ok created stage r" and "created \<noteq> 0" and "stage \<noteq> Dropped"
  shows "progress_ok (pu_progress (pr_update r))"
  using assms
  by (cases stage) (auto simp: progress_ok_def validate_execution_progress_def progress_total_def
      stage_ok_def Let_def)

lemma drop_progress_ok:
  assumes "stage_ok created stage r" and "created \<noteq> 0" and "stage \<noteq> Dropped"
  shows "progress_ok (pu_progress (ProgressReporter_drop now clock r))"
  using assms
  by (cases stage) (auto simp: progress_ok_def validate_execution_progress_def progress_total_def
      stage_ok_def ProgressReporter_drop_def Let_def)

lemma reporter_run_sent:
  "reporter_run created stage r sent \<Longrightarrow> created \<noteq> 0 \<Longrightarrow> u \<in> set sent \<Longrightarrow> progress_ok (pu_progress u)"
proof (induction rule: reporter_run.induct)
  case (new leaf_id selector clock)
  then show ?case
    using stage_progress_ok [OF reporter_run_stage [OF reporter_run.new]] by auto
next
  case (admitted r sent capacity now clock r' update)
  have "pu_progress update = pu_progress (pr_update r')"
    using admitted.hyps(2) by (auto simp: ProgressReporter_admitted_def Let_def)
  moreover have "progress_ok (pu_progress (pr_update r'))"
    using stage_progress_ok [OF reporter_run_stage [OF reporter_run.admitted [OF admitted.hyps]]]
      admitted.prems(1) by simp
  ultimately show ?case using admitted by auto
next
  case (executing r sent now clock r' update)
  have "pu_progress update = pu_progress (pr_update r')"
    using executing.hyps(2) by (auto simp: ProgressReporter_executing_def Let_def)
  moreover have "progress_ok (pu_progress (pr_update r'))"
    using stage_progress_ok [OF reporter_run_stage [OF reporter_run.executing [OF executing.hyps]]]
      executing.prems(1) by simp
  ultimately show ?case using executing by auto
next
  case (dropped stage r sent now clock)
  then show ?case
    using drop_progress_ok [OF reporter_run_stage [OF dropped.hyps]] by auto
qed simp

section \<open>Aggregates\<close>

text \<open>What holds of the aggregate of \<open>n\<close> observations before it is settled.\<close>

definition aggregate_ok :: "nat \<Rightarrow> ExecutionProgress \<Rightarrow> bool" where
  "aggregate_ok n q \<longleftrightarrow> progress_total q = n \<and> xp_queued_at_epoch_ms q \<noteq> 0 \<and>
     (xp_started_at_epoch_ms q \<noteq> None \<longrightarrow> xp_admitted_at_epoch_ms q \<noteq> None) \<and>
     (0 < xp_executing q \<longrightarrow> xp_started_at_epoch_ms q \<noteq> None) \<and>
     (0 < xp_admitted q \<longrightarrow> xp_admitted_at_epoch_ms q \<noteq> None)"

lemma chain_min_None [simp]: "chain_min a b = None \<longleftrightarrow> a = None \<and> b = None"
  by (auto simp: chain_min_def split: option.splits)

lemma empty_progress_ok: "aggregate_ok 0 empty_progress"
  by (simp add: aggregate_ok_def empty_progress_def ExecutionProgress_default_def progress_total_def)

lemma progress_ok_aggregate: "progress_ok p \<Longrightarrow> aggregate_ok (Suc 0) p"
  by (auto simp: progress_ok_def aggregate_ok_def validate_execution_progress_def)

lemma unat_add_below:
  "unat (a :: u32) + unat b < 2 ^ 32 \<Longrightarrow> unat (a + b) = unat a + unat b"
  by (simp add: unat_add_bounded)

lemma combine_total:
  assumes "progress_total q + progress_total p < 2 ^ 32"
  shows "progress_total (combine_progress q p) = progress_total q + progress_total p"
  using assms by (simp add: progress_total_def combine_progress_def unat_add_below)

lemma combine_ok:
  assumes q: "aggregate_ok n q" and p: "aggregate_ok m p" and bound: "n + m < 2 ^ 32"
  shows "aggregate_ok (n + m) (combine_progress q p)"
proof -
  have total: "progress_total (combine_progress q p) = n + m"
    using assms by (simp add: aggregate_ok_def combine_total)
  have split: "0 < a + b \<Longrightarrow> 0 < a \<or> 0 < b" for a b :: u32
    by (auto simp: word_neq_0_conv [symmetric])
  from q p have "xp_queued_at_epoch_ms (combine_progress q p) \<noteq> 0"
    by (auto simp: aggregate_ok_def combine_progress_def min_def)
  with q p total show ?thesis
    by (auto simp: aggregate_ok_def combine_progress_def dest!: split)
qed

lemma foldl_combine_ok:
  "\<forall>p \<in> set ps. progress_ok p \<Longrightarrow> aggregate_ok n q \<Longrightarrow> n + length ps < 2 ^ 32 \<Longrightarrow>
     aggregate_ok (n + length ps) (foldl combine_progress q ps)"
proof (induction ps arbitrary: n q)
  case (Cons p ps)
  then have "aggregate_ok (n + Suc 0) (combine_progress q p)"
    by (intro combine_ok) (simp_all add: progress_ok_aggregate)
  from Cons.IH [OF _ this] Cons.prems show ?case by simp
qed simp

lemma settle_valid:
  assumes "aggregate_ok n q"
  shows "validate_execution_progress (settle_progress q) = Ok () \<longleftrightarrow> 0 < n \<and> n \<le> 4097"
proof -
  have "progress_total (settle_progress q) = n"
    using assms by (simp add: aggregate_ok_def settle_progress_def progress_total_def)
  with assms show ?thesis
    by (auto simp: validate_execution_progress_def aggregate_ok_def settle_progress_def)
qed

text \<open>
  C36: the aggregate of the observations of a check's processes,
  each sent by a reporter whose clock was not at the epoch, is accepted by the report contract
  exactly when the check has at least one and at most 4097 processes.
\<close>

theorem aggregate_progress_valid_iff:
  assumes "\<forall>u \<in> set updates. \<exists>created stage r sent.
      reporter_run created stage r sent \<and> created \<noteq> 0 \<and> u \<in> set sent"
    and "length updates < 2 ^ 32"
  shows "validate_execution_progress (aggregate_progress updates) = Ok () \<longleftrightarrow>
           updates \<noteq> [] \<and> length updates \<le> 4097"
proof -
  have "\<forall>p \<in> set (map pu_progress updates). progress_ok p"
    using assms(1) reporter_run_sent by fastforce
  from foldl_combine_ok [OF this empty_progress_ok] assms(2)
  have "aggregate_ok (length updates) (foldl combine_progress empty_progress (map pu_progress updates))"
    by simp
  from settle_valid [OF this] show ?thesis by (auto simp: aggregate_progress_def)
qed

definition sample_update :: ProcessUpdate where
  "sample_update =
     pr_update (ProgressReporter_new ''lint'' \<lparr>ls_check = Some ''lint'', ls_phase = LogPhase.Check,
       ls_case_id = None\<rparr> 1000 5)"

theorem aggregate_progress_valid_iff_witness:
  "validate_execution_progress (aggregate_progress [sample_update, sample_update]) = Ok () \<and>
   validate_execution_progress (aggregate_progress (replicate 12289 sample_update)) \<noteq> Ok ()"
proof -
  have sent: "\<exists>created stage r sent. reporter_run created stage r sent \<and> created \<noteq> 0 \<and>
      sample_update \<in> set sent"
    using reporter_run.new [of "1000" "''lint''"] unfolding sample_update_def by fastforce
  have "validate_execution_progress (aggregate_progress [sample_update, sample_update]) = Ok ()"
    using aggregate_progress_valid_iff [of "[sample_update, sample_update]"] sent by simp
  moreover have "validate_execution_progress (aggregate_progress (replicate 12289 sample_update)) \<noteq> Ok ()"
    using aggregate_progress_valid_iff [of "replicate 12289 sample_update"] sent
    by (simp add: set_replicate_conv_if)
  ultimately show ?thesis by simp
qed

text \<open>
  Every observation a process reporter sends, over its whole life and
  wherever it is dropped, counts exactly one process and is accepted by the report contract;
  the last one of a dropped reporter is a finished one with a status.
\<close>

theorem reporter_updates_valid:
  assumes "reporter_run created stage r sent" and "created \<noteq> 0"
  shows "(\<forall>u \<in> set sent. validate_execution_progress (pu_progress u) = Ok () \<and>
            progress_total (pu_progress u) = 1)
    \<and> (stage = Dropped \<longrightarrow> sent \<noteq> [] \<and> xp_finished (pu_progress (hd sent)) = 1 \<and>
         pu_status (hd sent) \<noteq> None \<and> pu_finished_mono (hd sent) \<noteq> None)"
proof (intro conjI impI)
  show "\<forall>u \<in> set sent. validate_execution_progress (pu_progress u) = Ok () \<and> progress_total (pu_progress u) = 1"
    using reporter_run_sent [OF assms] by (simp add: progress_ok_def)
  assume "stage = Dropped"
  then have "\<exists>now clock rest. sent = ProgressReporter_drop now clock r # rest"
    using assms(1) by (metis reporter_run_dropped)
  then show "sent \<noteq> []" and "xp_finished (pu_progress (hd sent)) = 1" and "pu_status (hd sent) \<noteq> None"
    and "pu_finished_mono (hd sent) \<noteq> None"
    by (auto simp: ProgressReporter_drop_def Let_def split: option.splits)
qed

theorem reporter_updates_valid_witness:
  "pu_status (ProgressReporter_drop 2000 9 (ProgressReporter_new ''lint''
     \<lparr>ls_check = Some ''lint'', ls_phase = LogPhase.Check, ls_case_id = None\<rparr> 1000 5)) \<noteq> None"
  using reporter_updates_valid [OF reporter_run.dropped [OF reporter_run.new], of 1000] by simp

end
