(* ===== verification/Civil_Time.thy ===== *)
theory Civil_Time
  imports Prelude "HOL-Library.Signed_Division"
begin

text \<open>
  The timestamps of \<^verbatim>\<open>src/rust/executor-core/src/runner.rs\<close>: \<^verbatim>\<open>civil_from_days\<close>, which turns days
  since 1970-01-01 into a date of the Gregorian calendar, and \<^verbatim>\<open>iso_at\<close>, which prints seconds
  since the epoch.  The theorems show that the arithmetic walks the calendar day by day.
\<close>

section \<open>Definitions\<close>

definition i64_saturate :: "int \<Rightarrow> int" where
  "i64_saturate x = max (- (2 ^ 63)) (min (2 ^ 63 - 1) x)"

text \<open>Division of \<^verbatim>\<open>i64\<close> truncates, which is \<open>sdiv\<close>.\<close>

definition civil_from_days :: "int \<Rightarrow> int \<times> int \<times> int" where
  "civil_from_days days_since_epoch =
     (let shifted = i64_saturate (days_since_epoch + 719468);
          era = (if 0 \<le> shifted then shifted else i64_saturate (shifted - 146096)) sdiv 146097;
          day_of_era = shifted - era * 146097;
          year_of_era = (day_of_era - day_of_era sdiv 1460 + day_of_era sdiv 36524 -
            day_of_era sdiv 146096) sdiv 365;
          year = year_of_era + era * 400;
          day_of_year = day_of_era - (365 * year_of_era + year_of_era sdiv 4 - year_of_era sdiv 100);
          month_prime = (5 * day_of_year + 2) sdiv 153;
          day = day_of_year - (153 * month_prime + 2) sdiv 5 + 1;
          month = month_prime + (if month_prime < 10 then 3 else - 9)
      in (if month \<le> 2 then year + 1 else year, month, day))"

fun decimal :: "nat \<Rightarrow> string" where
  "decimal n =
     (if n < 10 then [char_of (48 + n)] else decimal (n div 10) @ [char_of (48 + n mod 10)])"

declare decimal.simps [simp del]

text \<open>Zero padding of a non-negative number to a width.\<close>

definition padded :: "nat \<Rightarrow> int \<Rightarrow> string" where
  "padded width n =
     (let s = decimal (nat n) in replicate (width - length s) (CHR ''0'') @ s)"

definition iso_at :: "u64 \<Rightarrow> string" where
  "iso_at seconds =
     (let s = uint seconds;
          (year, month, day) = civil_from_days (s div 86400);
          day_seconds = s mod 86400
      in padded 4 year @ ''-'' @ padded 2 month @ ''-'' @ padded 2 day @ ''T'' @
         padded 2 (day_seconds div 3600) @ '':'' @ padded 2 (day_seconds mod 3600 div 60) @ '':'' @
         padded 2 (day_seconds mod 60) @ ''Z'')"

section \<open>The Gregorian calendar\<close>

definition is_leap :: "int \<Rightarrow> bool" where
  "is_leap y \<longleftrightarrow> y mod 4 = 0 \<and> (y mod 100 \<noteq> 0 \<or> y mod 400 = 0)"

definition days_in_month :: "int \<Rightarrow> int \<Rightarrow> int" where
  "days_in_month y m =
     (if m = 2 then (if is_leap y then 29 else 28)
      else if m = 4 \<or> m = 6 \<or> m = 9 \<or> m = 11 then 30 else 31)"

definition next_day :: "int \<times> int \<times> int \<Rightarrow> int \<times> int \<times> int" where
  "next_day = (\<lambda>(y, m, d).
     if d < days_in_month y m then (y, m, d + 1)
     else if m < 12 then (y, m + 1, 1)
     else (y + 1, 1, 1))"

section \<open>Years of an era\<close>

text \<open>
  An era is 400 years that start on March 1.  \<open>year_start y\<close> is the day of the era on which
  year \<open>y\<close> of it starts, \<open>era_scale\<close> the numerator of the code's year.
\<close>

definition year_start :: "int \<Rightarrow> int" where
  "year_start y = 365 * y + y div 4 - y div 100 + y div 400"

definition era_scale :: "int \<Rightarrow> int" where
  "era_scale d = d - d div 1460 + d div 36524 - d div 146096"

definition year_of :: "int \<Rightarrow> int" where
  "year_of d = era_scale d div 365"

lemma era_scale_step: "era_scale d \<le> era_scale (d + 1)"
proof -
  have split: "x div 146096 = x div 36524 div 4" for x :: int
    using zdiv_zmult2_eq [of 4 x 36524] by simp
  have "u' div 4 - u div 4 \<le> u' - u" if "u \<le> u'" "u' \<le> u + 1" for u u' :: int
  proof (cases "u' = u")
    case False
    with that have "u' = u + 1" by simp
    then show ?thesis by linarith
  qed simp
  moreover have "d div 36524 \<le> (d + 1) div 36524" "(d + 1) div 36524 \<le> d div 36524 + 1"
    by linarith+
  ultimately have "(d + 1) div 36524 div 4 - d div 36524 div 4 \<le> (d + 1) div 36524 - d div 36524"
    by blast
  moreover have "(d + 1) div 1460 \<le> d div 1460 + 1" by linarith
  ultimately show ?thesis unfolding era_scale_def split by linarith
qed

lemma era_scale_mono: "d \<le> e \<Longrightarrow> era_scale d \<le> era_scale e"
proof (induction e rule: int_ge_induct)
  case (step e)
  then show ?case using era_scale_step [of e] by simp
qed simp

text \<open>The code's year is right at the first and the last day of each of the 400 years.\<close>

definition year_bounds :: "int \<Rightarrow> bool" where
  "year_bounds y \<longleftrightarrow> 365 * y \<le> era_scale (year_start y) \<and>
     era_scale (year_start (y + 1) - 1) < 365 * (y + 1)"

lemma year_bounds_all: "list_all year_bounds (map int [0..<400])"
  by code_simp

lemma year_bounds: "0 \<le> y \<Longrightarrow> y < 400 \<Longrightarrow> year_bounds y"
proof -
  assume y: "0 \<le> y" "y < 400"
  then have "nat y \<in> set [0..<400]" by simp
  then have "int (nat y) \<in> set (map int [0..<400])" by (simp only: set_map) blast
  with year_bounds_all have "year_bounds (int (nat y))" unfolding list_all_iff by blast
  with y show ?thesis by simp
qed

lemma year_of_exact:
  assumes "0 \<le> y" and "y < 400" and "year_start y \<le> d" and "d < year_start (y + 1)"
  shows "year_of d = y"
proof -
  have "365 * y \<le> era_scale d"
    using year_bounds [OF assms(1,2)] era_scale_mono [OF assms(3)] by (simp add: year_bounds_def)
  moreover have "era_scale d < 365 * (y + 1)"
    using year_bounds [OF assms(1,2)] era_scale_mono [of d "year_start (y + 1) - 1"] assms(4)
    by (simp add: year_bounds_def)
  ultimately show ?thesis
    unfolding year_of_def by (intro int_div_pos_eq [where r = "era_scale d - 365 * y"]) simp_all
qed

section \<open>Days of a year\<close>

definition month_day :: "int \<Rightarrow> int \<times> int" where
  "month_day doy =
     (let mp = (5 * doy + 2) div 153
      in (mp + (if mp < 10 then 3 else - 9), doy - (153 * mp + 2) div 5 + 1))"

definition month_length :: "bool \<Rightarrow> int \<Rightarrow> int" where
  "month_length leap m =
     (if m = 2 then (if leap then 29 else 28)
      else if m = 4 \<or> m = 6 \<or> m = 9 \<or> m = 11 then 30 else 31)"

text \<open>One step of the table of dates of a year that starts in March.\<close>

definition month_step :: "bool \<Rightarrow> int \<Rightarrow> bool" where
  "month_step leap doy =
     (let (m, d) = month_day doy; (m', d') = month_day (doy + 1)
      in 1 \<le> m \<and> m \<le> 12 \<and> 1 \<le> d \<and> d \<le> month_length leap m \<and>
         (if d < month_length leap m then m' = m \<and> d' = d + 1
          else d' = 1 \<and> (if m < 12 then m' = m + 1 \<and> (m \<le> 2) = (m' \<le> 2) else m' = 1)))"

lemma month_step_all:
  "list_all (\<lambda>doy. month_step True doy \<and> month_step False doy) (map int [0..<364])"
  by code_simp

lemma month_step: "0 \<le> doy \<Longrightarrow> doy < 364 \<Longrightarrow> month_step leap doy"
proof -
  assume d: "0 \<le> doy" "doy < 364"
  then have "nat doy \<in> set [0..<364]" by simp
  then have "int (nat doy) \<in> set (map int [0..<364])" by (simp only: set_map) blast
  with month_step_all have "month_step True (int (nat doy)) \<and> month_step False (int (nat doy))"
    unfolding list_all_iff by blast
  with d show ?thesis by (cases leap) simp_all
qed

section \<open>The arithmetic walks the calendar\<close>

definition civil_of :: "int \<Rightarrow> int \<Rightarrow> int \<Rightarrow> int \<times> int \<times> int" where
  "civil_of era y doy =
     (let (m, d) = month_day doy in (if m \<le> 2 then 400 * era + y + 1 else 400 * era + y, m, d))"

text \<open>Era, year of the era and day of the year of a shifted day number.\<close>

definition calendar_rep :: "int \<Rightarrow> int \<Rightarrow> int \<Rightarrow> int \<Rightarrow> bool" where
  "calendar_rep s era y doy \<longleftrightarrow> 0 \<le> era \<and> 0 \<le> y \<and> y < 400 \<and> 0 \<le> doy \<and>
     year_start y + doy < year_start (y + 1) \<and> s = era * 146097 + year_start y + doy"

lemma sdiv_nonneg: "0 \<le> a \<Longrightarrow> 0 < b \<Longrightarrow> a sdiv b = a div (b :: int)"
  by (cases "a = 0") (auto simp: signed_divide_int_def)

lemma year_start_bounds:
  assumes "0 \<le> y" and "y < 400"
  shows "0 \<le> year_start y" and "year_start (y + 1) \<le> 146097"
proof -
  have "0 \<le> y div 4" "y div 100 \<le> y" "0 \<le> y div 400" using assms by linarith+
  with assms show "0 \<le> year_start y" unfolding year_start_def by linarith
  show "year_start (y + 1) \<le> 146097"
  proof (cases "y = 399")
    case False
    with assms have "(y + 1) div 4 \<le> 99" "0 \<le> (y + 1) div 100" "(y + 1) div 400 = 0" by linarith+
    moreover have "365 * (y + 1) \<le> 145635" using assms False by simp
    moreover have "a + b - c + d \<le> 146097" if "a \<le> 145635" "b \<le> 99" "0 \<le> c" "d = 0" for a b c d :: int
      using that by linarith
    ultimately show ?thesis unfolding year_start_def by blast
  qed (simp add: year_start_def)
qed

lemma succ_div:
  assumes "(0::int) < k"
  shows "(y + 1) div k = y div k + (if (y + 1) mod k = 0 then 1 else 0)"
proof -
  let ?q = "(y + 1) div k" and ?r = "(y + 1) mod k"
  have y: "y = k * ?q + ?r - 1" using mult_div_mod_eq [of k "y + 1"] by simp
  have r: "0 \<le> ?r" "?r < k" using assms by simp_all
  show ?thesis
  proof (cases "?r = 0")
    case True
    have "y div k = ?q - 1"
    proof (rule int_div_pos_eq [where r = "k - 1"])
      show "y = k * (?q - 1) + (k - 1)" using y True by (simp add: right_diff_distrib)
    qed (use assms in simp_all)
    with True show ?thesis by simp
  next
    case False
    have "y div k = ?q"
      using y r False by (intro int_div_pos_eq [where r = "?r - 1"]) linarith+
    with False show ?thesis by simp
  qed
qed

lemma year_length:
  "year_start (y + 1) = year_start y + (if is_leap (y + 1) then 366 else 365)"
proof -
  have q: "(y + 1) mod 4 = 0" if "(y + 1) mod 100 = 0"
    using that dvd_trans [of 4 100 "y + 1"] by (simp add: mod_eq_0_iff_dvd)
  have r: "(y + 1) mod 100 = 0" if "(y + 1) mod 400 = 0"
    using that dvd_trans [of 100 400 "y + 1"] by (simp add: mod_eq_0_iff_dvd)
  have d: "(y + 1) div 4 = y div 4 + (if (y + 1) mod 4 = 0 then 1 else 0)"
    "(y + 1) div 100 = y div 100 + (if (y + 1) mod 100 = 0 then 1 else 0)"
    "(y + 1) div 400 = y div 400 + (if (y + 1) mod 400 = 0 then 1 else 0)"
    by (rule succ_div, simp)+
  have sum: "365 * (y + 1) + (a + (if p then 1 else 0)) - (b + (if q then 1 else 0)) +
      (c + (if r then 1 else 0)) = 365 * y + a - b + c + (if p \<and> (\<not> q \<or> r) then 366 else 365)"
    if "q \<Longrightarrow> p" "r \<Longrightarrow> q" for a b c :: int and p q r
    using that by (cases p; cases q; cases r) simp_all
  show ?thesis unfolding year_start_def is_leap_def d by (rule sum [OF q r])
qed

lemma civil_from_days_rep:
  assumes "calendar_rep (days + 719468) era y doy" and "days + 719468 < 2 ^ 63"
  shows "civil_from_days days = civil_of era y doy"
proof -
  let ?s = "days + 719468"
  let ?doe = "year_start y + doy"
  from assms(1) have y: "0 \<le> y" "y < 400" and doy: "0 \<le> doy" and era: "0 \<le> era"
    and less: "?doe < year_start (y + 1)" and s: "?s = era * 146097 + ?doe"
    by (auto simp: calendar_rep_def)
  have doe: "0 \<le> ?doe" "?doe < 146097" using year_start_bounds [OF y] doy less by linarith+
  have s0: "0 \<le> ?s" using s doe era by simp
  then have sat: "i64_saturate ?s = ?s" using assms(2) by (simp add: i64_saturate_def)
  have e: "?s sdiv 146097 = era"
    using s doe by (subst sdiv_nonneg [OF s0]) (auto intro!: int_div_pos_eq [where r = ?doe])
  have yo: "year_of ?doe = y" using year_of_exact [OF y] less doy by simp
  have scale: "0 \<le> era_scale ?doe"
    using era_scale_mono [of 0 ?doe] doe by (simp add: era_scale_def)
  have code_year: "(?doe - ?doe sdiv 1460 + ?doe sdiv 36524 - ?doe sdiv 146096) sdiv 365 = y"
    using doe scale yo unfolding year_of_def era_scale_def by (simp add: sdiv_nonneg)
  have start: "365 * y + y sdiv 4 - y sdiv 100 = year_start y"
    using y by (simp add: sdiv_nonneg year_start_def)
  have mp: "(5 * doy + 2) sdiv 153 = (5 * doy + 2) div 153" using doy by (simp add: sdiv_nonneg)
  have dd: "(153 * ((5 * doy + 2) div 153) + 2) sdiv 5 = (153 * ((5 * doy + 2) div 153) + 2) div 5"
    using doy by (simp add: sdiv_nonneg)
  have diff: "?s - era * 146097 = ?doe" using s by simp
  show ?thesis
    unfolding civil_from_days_def Let_def sat if_P [OF s0] e diff code_year start
      add_diff_cancel_left' mp dd civil_of_def month_day_def
    by simp
qed

lemma is_leap_era: "is_leap (400 * era + y) \<longleftrightarrow> is_leap y"
proof -
  have "(400 * era + y) mod 4 = y mod 4" "(400 * era + y) mod 100 = y mod 100"
    "(400 * era + y) mod 400 = y mod 400"
    using mod_mult_self4 [of 4 "100 * era" y] mod_mult_self4 [of 100 "4 * era" y] by simp_all
  then show ?thesis by (simp add: is_leap_def)
qed

lemma days_in_month_length: "days_in_month y m = month_length (is_leap y) m"
  by (simp add: days_in_month_def month_length_def)

lemma next_day_within:
  assumes "0 \<le> doy" and "doy < 364"
  shows "next_day (civil_of era y doy) = civil_of era y (doy + 1)"
  using month_step [OF assms, of "is_leap (fst (civil_of era y doy))"]
  by (auto simp: month_step_def next_day_def civil_of_def days_in_month_length Let_def
      split: prod.splits if_splits)

lemma next_day_february:
  "next_day (civil_of era y 364) =
     (if is_leap (y + 1) then civil_of era y 365 else (400 * era + y + 1, 3, 1))"
  "next_day (civil_of era y 365) =
     (if is_leap (y + 1) then (400 * era + y + 1, 3, 1) else next_day (civil_of era y 365))"
  using is_leap_era [of era "y + 1"]
  by (simp_all add: civil_of_def month_day_def next_day_def days_in_month_def add.assoc)

lemma civil_of_start: "civil_of era y 0 = (400 * era + y, 3, 1)"
  by (simp add: civil_of_def month_day_def)

lemma calendar_rep_step:
  assumes "calendar_rep s era y doy"
  shows "\<exists>era' y' doy'. calendar_rep (s + 1) era' y' doy' \<and>
           civil_of era' y' doy' = next_day (civil_of era y doy)"
proof -
  from assms have y: "0 \<le> y" "y < 400" and doy: "0 \<le> doy" and era: "0 \<le> era"
    and less: "year_start y + doy < year_start (y + 1)" and s: "s = era * 146097 + year_start y + doy"
    by (auto simp: calendar_rep_def)
  show ?thesis
  proof (cases "year_start y + doy + 1 < year_start (y + 1)")
    case True
    then have "doy < 364 \<or> doy = 364 \<and> is_leap (y + 1)"
      unfolding year_length using doy by (auto split: if_splits)
    then have "next_day (civil_of era y doy) = civil_of era y (doy + 1)"
      using doy by (auto simp: next_day_within next_day_february)
    moreover have "calendar_rep (s + 1) era y (doy + 1)"
      using True y doy era s by (simp add: calendar_rep_def)
    ultimately show ?thesis by metis
  next
    case False
    with less have last_day: "year_start y + doy + 1 = year_start (y + 1)" by simp
    then have "doy = (if is_leap (y + 1) then 365 else 364)"
      unfolding year_length by (auto split: if_splits)
    then have next_year: "next_day (civil_of era y doy) = (400 * era + y + 1, 3, 1)"
      by (simp add: next_day_february split: if_splits)
    show ?thesis
    proof (cases "y = 399")
      case True
      then have "calendar_rep (s + 1) (era + 1) 0 0"
        using last_day s era by (simp add: calendar_rep_def year_start_def)
      then show ?thesis using next_year True civil_of_start [of "era + 1" 0] by fastforce
    next
      case 399: False
      then have "year_start (y + 1) < year_start (y + 1 + 1)"
        using year_length [of "y + 1"] y by simp
      with 399 last_day s era y have "calendar_rep (s + 1) era (y + 1) 0"
        by (simp add: calendar_rep_def)
      then show ?thesis using next_year civil_of_start [of era "y + 1"] by (metis add.assoc)
    qed
  qed
qed

text \<open>
  \<open>civil_from_days\<close> starts at 1970-01-01 and each further day is the
  next day of the Gregorian calendar, for every day number whose computation stays within
  64 bits.
\<close>

theorem civil_from_days_calendar:
  "civil_from_days 0 = (1970, 1, 1) \<and>
   (int n + 719469 < 2 ^ 63 \<longrightarrow>
      civil_from_days (int n + 1) = next_day (civil_from_days (int n)))"
proof -
  have start: "calendar_rep 719468 4 369 306" by (simp add: calendar_rep_def year_start_def)
  have rep: "\<exists>era y doy. calendar_rep (int n + 719468) era y doy" for n
  proof (induction n)
    case 0
    show ?case using start by auto
  next
    case (Suc n)
    then obtain era y doy where "calendar_rep (int n + 719468) era y doy" by blast
    from calendar_rep_step [OF this] show ?case by (auto simp: algebra_simps)
  qed
  have "civil_from_days 0 = (1970, 1, 1)"
    using civil_from_days_rep [of 0 4 369 306] start by (simp add: civil_of_def month_day_def)
  moreover have "civil_from_days (int n + 1) = next_day (civil_from_days (int n))"
    if "int n + 719469 < 2 ^ 63"
  proof -
    obtain era y doy where r: "calendar_rep (int n + 719468) era y doy" using rep by blast
    from calendar_rep_step [OF r] obtain era' y' doy' where
      r': "calendar_rep (int n + 1 + 719468) era' y' doy'"
        "civil_of era' y' doy' = next_day (civil_of era y doy)"
      by (auto simp: algebra_simps)
    have "civil_from_days (int n) = civil_of era y doy"
      using civil_from_days_rep [OF r] that by simp
    moreover have "civil_from_days (int n + 1) = civil_of era' y' doy'"
      using civil_from_days_rep [OF r'(1)] that by simp
    ultimately show ?thesis using r'(2) by simp
  qed
  ultimately show ?thesis by blast
qed

theorem civil_from_days_calendar_witness: "civil_from_days 1 = (1970, 1, 2)"
  using civil_from_days_calendar [of 0]
  by (simp add: next_day_def days_in_month_def)

end
