(* ===== verification/Diagnostic_Values.thy ===== *)
theory Diagnostic_Values
  imports Protocol_Fields Civil_Time
begin

text \<open>
  The bounded text of \<^verbatim>\<open>src/rust/executor-core/src/diagnostics.rs\<close>: hexadecimal digests, UTF-8
  truncation, names and values that are cut to a bound, and source locations.  A report's text
  is untrusted; the lemmas show that whatever it holds, the names and values made of it are
  accepted by the protocol's validators, and that a text which looks like a credential is never
  shown.  The digest function is a parameter: it is the \<^verbatim>\<open>sha2\<close> crate, which returns 32 bytes.
\<close>

section \<open>Text\<close>

definition lower_hex_digit :: "nat \<Rightarrow> char" where
  "lower_hex_digit n = ''0123456789abcdef'' ! n"

definition lower_hex :: "string \<Rightarrow> string" where
  "lower_hex bytes = concat (map (\<lambda>b.
     [lower_hex_digit ((of_char b :: nat) div 16), lower_hex_digit ((of_char b :: nat) mod 16)]) bytes)"

definition truncate_utf8_diagnostic :: "string \<Rightarrow> nat \<Rightarrow> string \<times> bool" where
  "truncate_utf8_diagnostic value limit =
     (if length value \<le> limit then (value, False)
      else (take (boundary_below value limit) value, True))"

text \<open>
  \<^verbatim>\<open>str::trim\<close>: the UTF-8 encodings of the characters with the property White\_Space.  An
  encoding is not a proper part of another character's, so a match at an end of the text is a
  character of it.
\<close>

definition whitespace_bytes :: "nat list list" where
  "whitespace_bytes =
     map (\<lambda>n. [n]) [9, 10, 11, 12, 13, 32] @ [[194, 133], [194, 160], [225, 154, 128]] @
     map (\<lambda>n. [226, 128, n]) [128, 129, 130, 131, 132, 133, 134, 135, 136, 137, 138, 168, 169, 175] @
     [[226, 129, 159], [227, 128, 128]]"

definition whitespace :: "string list" where
  "whitespace = map (map char_of) whitespace_bytes"

fun strip_any :: "string list \<Rightarrow> string \<Rightarrow> string option" where
  "strip_any [] s = None"
| "strip_any (w # ws) s = (case strip_prefix w s of None \<Rightarrow> strip_any ws s | Some r \<Rightarrow> Some r)"

lemma strip_any_Some: "strip_any ws s = Some r \<Longrightarrow> \<exists>w \<in> set ws. s = w @ r"
  by (induction ws) (auto simp: strip_prefix_Some split: option.splits)

lemma strip_any_shorter: "[] \<notin> set ws \<Longrightarrow> strip_any ws s = Some r \<Longrightarrow> length r < length s"
  by (drule strip_any_Some) (metis length_append length_greater_0_conv less_add_same_cancel2)

lemma whitespace_nonempty: "[] \<notin> set whitespace" "[] \<notin> set (map rev whitespace)"
  by (auto simp: whitespace_def whitespace_bytes_def)

function strip_all :: "string list \<Rightarrow> string \<Rightarrow> string" where
  "strip_all ws s =
     (if [] \<in> set ws then s
      else case strip_any ws s of None \<Rightarrow> s | Some r \<Rightarrow> strip_all ws r)"
  by pat_completeness auto
termination strip_all
  by (relation "measure (\<lambda>(ws, s). length s)") (auto dest: strip_any_shorter)

declare strip_all.simps [simp del]

definition trim :: "string \<Rightarrow> string" where
  "trim s = rev (strip_all (map rev whitespace) (rev (strip_all whitespace s)))"

text \<open>\<^verbatim>\<open>chars().map(|c| if c.is_control() { ' ' } else { c })\<close> on the UTF-8 bytes.\<close>

fun blank_control :: "string \<Rightarrow> string" where
  "blank_control [] = []"
| "blank_control [c] =
     [if (of_char c :: nat) < 32 \<or> (of_char c :: nat) = 127 then CHR '' '' else c]"
| "blank_control (c # d # cs) =
     (if (of_char c :: nat) < 32 \<or> (of_char c :: nat) = 127 then CHR '' '' # blank_control (d # cs)
      else if (of_char c :: nat) = 194 \<and> 128 \<le> (of_char d :: nat) \<and> (of_char d :: nat) \<le> 159
      then CHR '' '' # blank_control cs
      else c # blank_control (d # cs))"

section \<open>Names\<close>

definition bounded_name :: "(string \<Rightarrow> string) \<Rightarrow> string \<Rightarrow> string option" where
  "bounded_name sha256 value =
     (let normalized = trim (blank_control value)
      in if normalized = [] then None
         else if length normalized \<le> MAX_DIAGNOSTIC_NAME_BYTES then Some normalized
         else let digest = lower_hex (sha256 normalized);
                  suffix = ''~'' @ take 16 digest;
                  limit = MAX_DIAGNOSTIC_NAME_BYTES - length suffix;
                  (prefix, truncated) = truncate_utf8_diagnostic normalized limit
              in Some (prefix @ suffix))"

definition combined_case :: "(string \<Rightarrow> string) \<Rightarrow> string option \<Rightarrow> string option \<Rightarrow> string option" where
  "combined_case sha256 executor_case framework_case =
     (case (executor_case, Option.bind framework_case (bounded_name sha256)) of
        (Some executor, Some framework) \<Rightarrow>
          if executor \<noteq> framework then bounded_name sha256 (executor @ '' :: '' @ framework)
          else Some executor
      | (Some executor, None) \<Rightarrow> Some executor
      | (None, framework) \<Rightarrow> framework)"

section \<open>Values\<close>

definition looks_sensitive :: "string \<Rightarrow> bool" where
  "looks_sensitive value =
     (let lower = to_ascii_lowercase value
      in str_contains lower ''password='' \<or> str_contains lower ''password:'' \<or>
         str_contains lower ''token='' \<or> str_contains lower ''token:'' \<or>
         str_contains lower ''secret='' \<or> str_contains lower ''secret:'' \<or>
         str_contains lower ''authorization: bearer'' \<or>
         str_contains lower ''-----begin private key-----'' \<or>
         str_contains value ''AKIA'' \<or> str_contains value ''ghp_'' \<or>
         str_starts_with value ''sk-'' \<or> str_contains value '' sk-'' \<or>
         str_contains value (CHR 0x22 # ''sk-'') \<or> str_contains value (CHR 0x27 # ''sk-''))"

definition bounded_diagnostic_value ::
  "(string \<Rightarrow> string) \<Rightarrow> DiagnosticValueType \<Rightarrow> string \<Rightarrow> DiagnosticValue" where
  "bounded_diagnostic_value sha256 value_type raw =
     (let digest = lower_hex (sha256 raw);
          byte_count = saturating_of_nat (length raw)
      in if looks_sensitive raw
         then \<lparr>dv_type = value_type, dv_preview = None, dv_sha256 = digest,
               dv_byte_count = byte_count,
               dv_truncated = MAX_DIAGNOSTIC_PREVIEW_BYTES < length raw, dv_redacted = True\<rparr>
         else if has_control raw
         then \<lparr>dv_type = value_type, dv_preview = None, dv_sha256 = digest,
               dv_byte_count = byte_count, dv_truncated = True, dv_redacted = False\<rparr>
         else let (preview, truncated) = truncate_utf8_diagnostic raw MAX_DIAGNOSTIC_PREVIEW_BYTES
              in \<lparr>dv_type = value_type, dv_preview = Some preview, dv_sha256 = digest,
                  dv_byte_count = byte_count, dv_truncated = truncated, dv_redacted = False\<rparr>)"

section \<open>Source locations\<close>

text \<open>The loop \<^verbatim>\<open>while let Some(stripped) = file.strip_prefix("./")\<close>.\<close>

fun strip_dot_slash :: "string \<Rightarrow> string" where
  "strip_dot_slash (c # d # rest) =
     (if c = CHR ''.'' \<and> d = CHR ''/'' then strip_dot_slash rest else c # d # rest)"
| "strip_dot_slash s = s"

definition u32_try_from :: "u64 \<Rightarrow> u32 option" where
  "u32_try_from n = (if n < 2 ^ 32 then Some (ucast n) else None)"

definition source_location :: "string option \<Rightarrow> u64 option \<Rightarrow> u64 option \<Rightarrow> SourceLocation option" where
  "source_location file line column =
     Option.bind file (\<lambda>file.
       let file = strip_dot_slash (trim file)
       in if file = [] \<or> 512 < length file \<or> CHR 0x5C \<in> set file \<or> is_absolute file then None
          else if \<not> list_all is_normal (components file) then None
          else Option.bind line (\<lambda>line.
            Option.bind (u32_try_from line) (\<lambda>line.
              if line = 0 then None
              else if column \<noteq> None \<and> Option.bind column u32_try_from = None then None
              else let column = Option.bind column (\<lambda>n. Option.bind (u32_try_from n)
                         (\<lambda>n. if 0 < n then Some n else None));
                       source = \<lparr>sl_file = file, sl_line = line, sl_column = column\<rparr>
                   in (case SourceLocation_validate source of Inr u \<Rightarrow> Some source | Inl e \<Rightarrow> None))))"

section \<open>Decimal text\<close>

definition decimal_value :: "string \<Rightarrow> nat" where
  "decimal_value s = foldl (\<lambda>n c. n * 10 + (of_char c - 48)) 0 s"

lemma decimal_value_decimal: "decimal_value (decimal n) = n"
proof (induction n rule: decimal.induct)
  case (1 n)
  show ?case
  proof (cases "n < 10")
    case True
    then show ?thesis by (simp add: decimal.simps [of n] decimal_value_def)
  next
    case False
    have "decimal_value (decimal n) = n div 10 * 10 + n mod 10"
      using 1 False by (simp add: decimal.simps [of n] decimal_value_def)
    then show ?thesis by simp
  qed
qed

lemma decimal_nonempty [simp]: "decimal n \<noteq> []" "[] \<noteq> decimal n"
  by (subst decimal.simps, simp)+

lemma decimal_digits: "c \<in> set (decimal n) \<Longrightarrow> 48 \<le> (of_char c :: nat) \<and> (of_char c :: nat) \<le> 57"
proof (induction n rule: decimal.induct)
  case (1 n)
  then show ?case by (subst (asm) decimal.simps) (auto split: if_splits)
qed

section \<open>Digests\<close>

text \<open>What the digest function is relied on for: 32 bytes.\<close>

definition digest_size :: "(string \<Rightarrow> string) \<Rightarrow> bool" where
  "digest_size sha256 \<longleftrightarrow> (\<forall>s. length (sha256 s) = 32)"

lemma lower_hex_digit_hex: "n < 16 \<Longrightarrow> is_lower_hex (lower_hex_digit n)"
  unfolding lower_hex_digit_def
  by (auto simp: less_Suc_eq numeral_eq_Suc ascii_defs)

lemma of_char_bound: "(of_char c :: nat) < 256"
  using of_char_mod_256 [of c, where ?'a = nat] by (metis mod_less_divisor zero_less_numeral)

lemma char_nibble: "(of_char c :: nat) div 16 < 16"
  using of_char_bound [of c] by (simp add: less_mult_imp_div_less)

lemma length_lower_hex: "length (lower_hex s) = 2 * length s"
  by (induction s) (auto simp: lower_hex_def)

lemma lower_hex_Cons:
  "lower_hex (b # s) = lower_hex_digit ((of_char b :: nat) div 16) #
     lower_hex_digit ((of_char b :: nat) mod 16) # lower_hex s"
  by (simp add: lower_hex_def)

lemma lower_hex_hex: "list_all is_lower_hex (lower_hex s)"
proof (induction s)
  case (Cons b s)
  then show ?case by (simp add: lower_hex_Cons lower_hex_digit_hex char_nibble)
qed (simp add: lower_hex_def)

lemma lower_hex_digit_inject: "m < 16 \<Longrightarrow> n < 16 \<Longrightarrow> lower_hex_digit m = lower_hex_digit n \<Longrightarrow> m = n"
  unfolding lower_hex_digit_def
  by (drule nth_eq_iff_index_eq [THEN iffD1, rotated -1]) auto

lemma lower_hex_inject: "lower_hex a = lower_hex b \<longleftrightarrow> a = b"
proof
  show "lower_hex a = lower_hex b \<Longrightarrow> a = b"
  proof (induction a arbitrary: b)
    case Nil
    then show ?case by (cases b) (auto simp: lower_hex_def)
  next
    case (Cons x a)
    then obtain y b' where b: "b = y # b'" by (cases b) (auto simp: lower_hex_def)
    have "(of_char x :: nat) div 16 = of_char y div 16" and "(of_char x :: nat) mod 16 = of_char y mod 16"
      using Cons.prems by (auto simp: b lower_hex_Cons char_nibble intro!: lower_hex_digit_inject)
    then have "(of_char x :: nat) = of_char y" by (metis div_mult_mod_eq)
    with Cons show ?case by (simp add: b lower_hex_Cons)
  qed
qed simp

lemma digest_valid: "digest_size sha256 \<Longrightarrow> validate_digest kind (lower_hex (sha256 s)) = Ok ()"
  by (simp add: validate_digest_def digest_size_def length_lower_hex lower_hex_hex)

section \<open>Truncation\<close>

lemma truncate_utf8_spec:
  assumes "truncate_utf8_diagnostic value limit = (out, c)"
  shows "prefix out value" and "length out \<le> limit" and "is_char_boundary value (length out)"
    and "c \<longleftrightarrow> limit < length value" and "\<not> c \<Longrightarrow> out = value"
proof -
  have "boundary_below value limit \<le> limit" by (rule boundary_below_le)
  then show "prefix out value" and "length out \<le> limit" and "is_char_boundary value (length out)"
    and "c \<longleftrightarrow> limit < length value" and "\<not> c \<Longrightarrow> out = value"
    using assms boundary_below_boundary [of "value" limit]
    by (auto simp: truncate_utf8_diagnostic_def take_is_prefix is_char_boundary_def split: if_splits)
qed

section \<open>Control characters\<close>

lemma has_control_append:
  "has_control (a @ b) \<Longrightarrow> has_control a \<or> has_control b \<or>
     (\<exists>c cs. b = c # cs \<and> 128 \<le> (of_char c :: nat))"
proof (induction a)
  case (Cons x a)
  then show ?case by (cases a; cases b) auto
qed simp

lemma has_control_prefix: "has_control p \<Longrightarrow> has_control (p @ q)"
proof (induction p)
  case (Cons x p)
  then show ?case by (cases p) auto
qed simp

lemma has_control_suffix: "has_control q \<Longrightarrow> has_control (p @ q)"
  by (induction p) auto

lemma has_control_blank: "\<not> has_control (blank_control s)"
proof (induction s rule: blank_control.induct)
  case (3 c d cs)
  have hd: "\<exists>ds. blank_control (d # cs) = CHR '' '' # ds \<or> blank_control (d # cs) = d # ds"
    by (cases cs) auto
  with 3 show ?case by (auto split: list.splits)
qed auto

lemma strip_all_suffix: "suffix (strip_all ws s) s"
proof (induction ws s rule: strip_all.induct)
  case (1 ws s)
  show ?case
  proof (cases "[] \<in> set ws \<or> strip_any ws s = None")
    case True
    then show ?thesis by (auto simp: strip_all.simps [of ws s])
  next
    case False
    then obtain r where r: "strip_any ws s = Some r" by auto
    then have "suffix r s" using strip_any_Some [OF r] by (auto simp: suffix_def)
    moreover have "suffix (strip_all ws r) r" using 1 False r by blast
    ultimately show ?thesis using False r by (auto simp: strip_all.simps [of ws s] intro: suffix_order.trans)
  qed
qed

text \<open>What is left of a trimmed text is a part of it.\<close>

lemma trim_part: "\<exists>a b. s = a @ trim s @ b"
proof -
  obtain a where a: "s = a @ strip_all whitespace s"
    using strip_all_suffix [of whitespace s] by (auto simp: suffix_def)
  obtain b where "rev (strip_all whitespace s) = b @ strip_all (map rev whitespace) (rev (strip_all whitespace s))"
    using strip_all_suffix [of "map rev whitespace" "rev (strip_all whitespace s)"] by (auto simp: suffix_def)
  then have "strip_all whitespace s = trim s @ rev b"
    unfolding trim_def by (metis rev_append rev_rev_ident)
  with a show ?thesis by metis
qed

lemma has_control_trim: "\<not> has_control s \<Longrightarrow> \<not> has_control (trim s)"
  using trim_part [of s] by (metis has_control_prefix has_control_suffix)

section \<open>Names are accepted\<close>

lemma hex_no_control: "list_all is_lower_hex s \<Longrightarrow> \<not> has_control s"
  by (induction s) (auto simp: ascii_defs)

lemma bounded_name_valid:
  assumes "digest_size sha256" and "bounded_name sha256 value = Some name"
  shows "validate_diagnostic_name kind name = Ok ()"
proof -
  define n where "n = trim (blank_control value)"
  have clean: "\<not> has_control n" by (simp add: n_def has_control_trim has_control_blank)
  show ?thesis
  proof (cases "length n \<le> MAX_DIAGNOSTIC_NAME_BYTES")
    case True
    then show ?thesis using assms(2) clean
      by (auto simp: bounded_name_def Let_def n_def [symmetric] validate_diagnostic_name_def split: if_splits)
  next
    case False
    define suf where "suf = ''~'' @ take 16 (lower_hex (sha256 n))"
    have hex: "length (lower_hex (sha256 n)) = 64"
      using assms(1) by (simp add: digest_size_def length_lower_hex)
    then have len: "length suf = 17" by (simp add: suf_def)
    obtain p c where t: "truncate_utf8_diagnostic n (256 - 17) = (p, c)" by (cases "truncate_utf8_diagnostic n (256 - 17)")
    have name: "name = p @ suf"
      using assms(2) False t
      by (auto simp: bounded_name_def Let_def n_def [symmetric] suf_def hex
          MAX_DIAGNOSTIC_NAME_BYTES_def split: if_splits)
    have p: "prefix p n" "length p \<le> 239" using truncate_utf8_spec [OF t] by simp_all
    have "\<not> has_control p" using p(1) clean has_control_prefix by (auto simp: prefix_def)
    moreover have "list_all is_lower_hex (take 16 (lower_hex (sha256 n)))"
      using lower_hex_hex [of "sha256 n"] by (auto simp: list_all_iff dest: in_set_takeD)
    then have "\<not> has_control suf" by (simp add: suf_def hex_no_control)
    moreover have "hd suf = CHR ''~''" by (simp add: suf_def)
    ultimately have "\<not> has_control name"
      using has_control_append [of p suf] len by (auto simp: name)
    then show ?thesis using p(2) len by (auto simp: validate_diagnostic_name_def MAX_DIAGNOSTIC_NAME_BYTES_def name)
  qed
qed

lemma identity_no_control: "\<forall>b \<in> set s. is_identity_byte b \<Longrightarrow> \<not> has_control s"
  by (induction s) (auto simp: is_identity_byte_def ascii_defs)

lemma case_id_diagnostic_name:
  assumes "validate_case_id s = Ok ()"
  shows "validate_diagnostic_name kind s = Ok ()"
  using assms validate_case_id_shape [OF assms] identity_no_control
  by (simp add: validate_diagnostic_name_def validate_case_id_def MAX_DIAGNOSTIC_NAME_BYTES_def)

lemma combined_case_valid:
  assumes "digest_size sha256" and "combined_case sha256 executor_case framework_case = Some name"
    and "\<And>id. executor_case = Some id \<Longrightarrow> validate_diagnostic_name kind id = Ok ()"
  shows "validate_diagnostic_name kind name = Ok ()"
  using assms bounded_name_valid [OF assms(1)]
  by (auto simp: combined_case_def split: option.splits if_splits simp: bind_eq_Some_conv)

section \<open>Values are accepted\<close>

lemma bounded_value_valid:
  assumes "digest_size sha256"
  shows "DiagnosticValue_validate (bounded_diagnostic_value sha256 ty raw) = Ok ()"
proof -
  obtain p c where t: "truncate_utf8_diagnostic raw 256 = (p, c)" by (cases "truncate_utf8_diagnostic raw 256")
  note spec = truncate_utf8_spec [OF t]
  have len: "length p \<le> length raw" using spec(1) by (rule prefix_length_le)
  have clean: "\<not> has_control p" if "\<not> has_control raw"
    using that spec(1) has_control_prefix by (auto simp: prefix_def)
  have le: "\<not> (saturating_of_nat (length raw) :: u64) < saturating_of_nat (length p)"
    using len by (auto simp: word_less_nat_alt unat_saturating_of_nat)
  show ?thesis
    using spec(2) clean le
    by (auto simp: bounded_diagnostic_value_def Let_def MAX_DIAGNOSTIC_PREVIEW_BYTES_def t
        DiagnosticValue_validate_def digest_valid [OF assms])
qed

text \<open>
  C33: whatever text a failure carries, the value made of it is accepted by the
  protocol: its preview is at most 256 bytes of the text, cut between two characters, with no
  control character, and it is the whole text unless the value says that it was truncated; a
  text that looks like a credential is redacted and never shown.
\<close>

theorem bounded_value_safe:
  assumes "digest_size sha256"
  shows "DiagnosticValue_validate (bounded_diagnostic_value sha256 ty raw) = Ok ()
    \<and> (looks_sensitive raw \<longrightarrow> dv_redacted (bounded_diagnostic_value sha256 ty raw)
         \<and> dv_preview (bounded_diagnostic_value sha256 ty raw) = None)
    \<and> (\<forall>p. dv_preview (bounded_diagnostic_value sha256 ty raw) = Some p \<longrightarrow>
         prefix p raw \<and> is_char_boundary raw (length p) \<and> length p \<le> 256 \<and> \<not> has_control p)
    \<and> (\<not> dv_truncated (bounded_diagnostic_value sha256 ty raw) \<and>
         \<not> dv_redacted (bounded_diagnostic_value sha256 ty raw) \<longrightarrow>
         dv_preview (bounded_diagnostic_value sha256 ty raw) = Some raw)"
proof -
  obtain p c where t: "truncate_utf8_diagnostic raw 256 = (p, c)" by (cases "truncate_utf8_diagnostic raw 256")
  note spec = truncate_utf8_spec [OF t]
  have clean: "\<not> has_control p" if "\<not> has_control raw"
    using that spec(1) has_control_prefix by (auto simp: prefix_def)
  show ?thesis
    using spec clean bounded_value_valid [OF assms]
    by (auto simp: bounded_diagnostic_value_def Let_def MAX_DIAGNOSTIC_PREVIEW_BYTES_def t)
qed

lemma sample_sensitive: "looks_sensitive ''Token: abc''"
  by code_simp

theorem bounded_value_safe_witness:
  "dv_preview (bounded_diagnostic_value (\<lambda>_. replicate 32 (CHR ''x'')) StringValue ''Token: abc'') = None"
  using bounded_value_safe [of "\<lambda>_. replicate 32 (CHR ''x'')" StringValue "''Token: abc''"]
  by (simp add: digest_size_def sample_sensitive)

lemma source_location_valid: "source_location file line column = Some source \<Longrightarrow> SourceLocation_validate source = Ok ()"
  by (auto simp: source_location_def Let_def bind_eq_Some_conv split: if_splits sum.splits)

end
