(* ===== verification/Diagnostics.thy ===== *)
theory Diagnostics
  imports Diagnostic_Values "HOL-Library.Option_ord" "HOL-Library.Product_Lexorder"
    "HOL-Library.Multiset"
begin

text \<open>
  The normalisation of failures of \<^verbatim>\<open>src/rust/executor-core/src/diagnostics.rs\<close>: the fingerprint
  that identifies a failure, the order of importance, the collapsing of repeated failures, and
  the explicit diagnostic events and coordinator reports.  The lemmas show what the failure
  index of a report is: one entry per distinct failure, with all its occurrences and log
  references, the most important ones when there are too many; and that the fingerprint
  separates failures that differ in an identifying field.  The digest function and the JSON
  decoder are parameters.
\<close>

section \<open>Context and errors\<close>

record DiagnosticContext =
  dc_run_id :: string
  dc_check :: string
  dc_case :: "string option"
  dc_phase :: LogPhase

datatype DiagnosticParseError = InvalidContext | InvalidReport | InvalidEvent | LimitExceeded

text \<open>\<^verbatim>\<open>map_err(|_| e)\<close>.\<close>

definition or_error :: "'e \<Rightarrow> ('d, 'a) result \<Rightarrow> ('e, 'a) result" where
  "or_error e r = (case r of Inl d \<Rightarrow> Err e | Inr x \<Rightarrow> Ok x)"

definition DiagnosticContext_log_refs :: "DiagnosticContext \<Rightarrow> LogRef list" where
  "DiagnosticContext_log_refs self = map (\<lambda>stream.
     \<lparr>lr_run_id = dc_run_id self, lr_check = Some (dc_check self), lr_phase = dc_phase self,
      lr_case = dc_case self, lr_stream = stream\<rparr>) [Stdout, Stderr]"

definition DiagnosticContext_validate :: "DiagnosticContext \<Rightarrow> (DiagnosticParseError, unit) result" where
  "DiagnosticContext_validate self = steps [
     for_each (\<lambda>r. or_error InvalidContext (LogRef_validate r)) (DiagnosticContext_log_refs self),
     reject_if (dc_phase self = LogPhase.Executor) InvalidContext]"

record NormalizedDiagnostics =
  nd_entries :: "FailureIndexEntry list"
  nd_total_unique :: nat
  nd_truncated :: bool

section \<open>Names of the enumerations\<close>

fun status_name :: "LeafStatus \<Rightarrow> string" where
  "status_name LeafStatus.Pending = ''pending''"
| "status_name LeafStatus.Running = ''running''"
| "status_name LeafStatus.Reused = ''reused''"
| "status_name LeafStatus.Passed = ''passed''"
| "status_name LeafStatus.Failed = ''failed''"
| "status_name LeafStatus.TimedOut = ''timed_out''"
| "status_name LeafStatus.Invalidated = ''invalidated''"
| "status_name LeafStatus.NotMeaningful = ''not_meaningful''"
| "status_name LeafStatus.Cancelled = ''cancelled''"
| "status_name LeafStatus.Unsafe = ''unsafe''"

fun category_name :: "ErrorCategory \<Rightarrow> string" where
  "category_name ErrorCategory.Assertion = ''assertion''"
| "category_name ErrorCategory.Compiler = ''compiler''"
| "category_name ErrorCategory.Panic = ''panic''"
| "category_name ErrorCategory.Exception = ''exception''"
| "category_name ErrorCategory.StackFrame = ''stack_frame''"
| "category_name ErrorCategory.Timeout = ''timeout''"
| "category_name ErrorCategory.Cancellation = ''cancellation''"
| "category_name ErrorCategory.ProcessExit = ''process_exit''"
| "category_name ErrorCategory.BrowserConsole = ''browser_console''"
| "category_name ErrorCategory.NetworkRequest = ''network_request''"
| "category_name ErrorCategory.StructuredEvidenceInvalid = ''structured_evidence_invalid''"
| "category_name ErrorCategory.LogStorage = ''log_storage''"
| "category_name ErrorCategory.SourceChanged = ''source_changed''"
| "category_name ErrorCategory.Artifact = ''artifact''"
| "category_name ErrorCategory.Dependency = ''dependency''"
| "category_name ErrorCategory.Internal = ''internal''"

fun termination_name :: "TerminationReason \<Rightarrow> string" where
  "termination_name DeadlineExceeded = ''deadline_exceeded''"
| "termination_name UserCancelled = ''user_cancelled''"
| "termination_name Superseded = ''superseded''"
| "termination_name RunCancelled = ''run_cancelled''"
| "termination_name DaemonInterrupted = ''daemon_interrupted''"
| "termination_name UnsafeStop = ''unsafe_stop''"

text \<open>The derived \<^verbatim>\<open>Debug\<close> of the coordinator's enumerations: the name of the variant.\<close>

fun debug_class :: "CoordinatorDiagnosticClass \<Rightarrow> string" where
  "debug_class Solver = ''Solver''"
| "debug_class ContainerStart = ''ContainerStart''"
| "debug_class ContainerCleanup = ''ContainerCleanup''"
| "debug_class CoordinatorInfrastructure = ''CoordinatorInfrastructure''"

fun debug_phase :: "CheckPhase \<Rightarrow> string" where
  "debug_phase CheckPhase.Setup = ''Setup''"
| "debug_phase CheckPhase.Build = ''Build''"
| "debug_phase CheckPhase.Fixture = ''Fixture''"
| "debug_phase CheckPhase.Case = ''Case''"
| "debug_phase CheckPhase.Cleanup = ''Cleanup''"
| "debug_phase CheckPhase.Qualification = ''Qualification''"
| "debug_phase CheckPhase.Check = ''Check''"

fun debug_cleanup :: "CoordinatorCleanupStatus \<Rightarrow> string" where
  "debug_cleanup CoordinatorCleanupStatus.NotRequired = ''NotRequired''"
| "debug_cleanup CoordinatorCleanupStatus.Completed = ''Completed''"
| "debug_cleanup CoordinatorCleanupStatus.Pending = ''Pending''"
| "debug_cleanup CoordinatorCleanupStatus.Failed = ''Failed''"

fun debug_action :: "CoordinatorNextAction \<Rightarrow> string" where
  "debug_action NoAction = ''None''"
| "debug_action RetryAction = ''Retry''"
| "debug_action RetryCleanup = ''RetryCleanup''"
| "debug_action Inspect = ''Inspect''"
| "debug_action Reconnect = ''Reconnect''"

section \<open>Fingerprints\<close>

text \<open>\<^verbatim>\<open>to_string\<close> of signed integers and booleans.\<close>

definition int_to_string :: "int \<Rightarrow> string" where
  "int_to_string n = (if n < 0 then ''-'' @ decimal (nat (- n)) else decimal (nat n))"

definition bool_to_string :: "bool \<Rightarrow> string" where
  "bool_to_string b = (if b then ''true'' else ''false'')"

definition or_default :: "string option \<Rightarrow> string" where
  "or_default v = (case v of None \<Rightarrow> [] | Some s \<Rightarrow> s)"

text \<open>\<^verbatim>\<open>u64::to_be_bytes\<close> of a length, and a field behind its length.\<close>

fun be_bytes :: "nat \<Rightarrow> nat \<Rightarrow> string" where
  "be_bytes 0 n = []"
| "be_bytes (Suc k) n = be_bytes k (n div 256) @ [char_of (n mod 256)]"

definition framed :: "string \<Rightarrow> string" where
  "framed field = be_bytes 8 (length field) @ field"

definition diagnostic_fields :: "FailureIndexEntry \<Rightarrow> string list" where
  "diagnostic_fields entry =
     [''devcoordinator-diagnostic-v1'',
      status_name (fie_status entry),
      category_name (fie_error_category entry),
      or_default (fie_check entry),
      or_default (fie_case entry),
      or_default (map_option sl_file (fie_source entry)),
      or_default (map_option (\<lambda>source. decimal (unat (sl_line source))) (fie_source entry)),
      or_default (map_option (\<lambda>column. decimal (unat column)) (Option.bind (fie_source entry) sl_column)),
      or_default (map_option dv_sha256 (fie_expected entry)),
      or_default (map_option int_to_string (de_code (fie_exit entry))),
      or_default (map_option (\<lambda>signal. decimal (unat signal)) (de_signal (fie_exit entry))),
      or_default (map_option termination_name (fie_termination_reason entry))]"

definition coordinator_fields :: "CoordinatorDiagnosticEntry \<Rightarrow> string list" where
  "coordinator_fields coordinator =
     [debug_class (cde_class coordinator),
      debug_phase (cde_command_phase coordinator),
      debug_cleanup (cde_cleanup_status coordinator),
      or_default (cde_container_id coordinator),
      or_default (cde_container_name coordinator),
      bool_to_string (cde_native_execution_started coordinator),
      bool_to_string (cde_retryable coordinator),
      debug_action (cde_next_action coordinator),
      decimal (unat (cde_stdout_bytes coordinator)),
      decimal (unat (cde_stderr_bytes coordinator)),
      decimal (unat (cde_cleanup_stderr_bytes coordinator))]
     @ concat (map (\<lambda>(key, value). [key, value]) (cde_container_labels coordinator))"

text \<open>The bytes fed to the hasher, in the order of the \<^verbatim>\<open>update\<close> calls.\<close>

definition fingerprint_bytes :: "FailureIndexEntry \<Rightarrow> string" where
  "fingerprint_bytes entry =
     concat (map framed (diagnostic_fields entry @
       (case fie_coordinator entry of None \<Rightarrow> [] | Some coordinator \<Rightarrow> coordinator_fields coordinator)))"

definition diagnostic_fingerprint :: "(string \<Rightarrow> string) \<Rightarrow> FailureIndexEntry \<Rightarrow> string" where
  "diagnostic_fingerprint sha256 entry = ''sha256:'' @ lower_hex (sha256 (fingerprint_bytes entry))"

section \<open>Order\<close>

definition diagnostic_rank :: "FailureIndexEntry \<Rightarrow> nat" where
  "diagnostic_rank entry =
     (if fie_origin entry = DiagnosticOrigin.ExplicitEvent then 0
      else case fie_error_category entry of
        ErrorCategory.Assertion \<Rightarrow> 1
      | ErrorCategory.Compiler \<Rightarrow> 2
      | ErrorCategory.Panic \<Rightarrow> 3 | ErrorCategory.Exception \<Rightarrow> 3
      | ErrorCategory.StackFrame \<Rightarrow> 4
      | ErrorCategory.Timeout \<Rightarrow> 5 | ErrorCategory.Cancellation \<Rightarrow> 5 | ErrorCategory.ProcessExit \<Rightarrow> 5
      | ErrorCategory.BrowserConsole \<Rightarrow> 6 | ErrorCategory.NetworkRequest \<Rightarrow> 6
      | ErrorCategory.StructuredEvidenceInvalid \<Rightarrow> 7 | ErrorCategory.LogStorage \<Rightarrow> 7
      | ErrorCategory.SourceChanged \<Rightarrow> 7 | ErrorCategory.Artifact \<Rightarrow> 7
      | ErrorCategory.Dependency \<Rightarrow> 7 | ErrorCategory.Internal \<Rightarrow> 7)"

text \<open>
  The derived orders of the structures compare their fields in order of declaration, and those
  of the enumerations the positions of the variants: the order of the keys below.
\<close>

fun log_stream_rank :: "LogStream \<Rightarrow> nat" where
  "log_stream_rank Stdout = 0"
| "log_stream_rank Stderr = 1"

fun value_type_rank :: "DiagnosticValueType \<Rightarrow> nat" where
  "value_type_rank NullValue = 0"
| "value_type_rank BooleanValue = 1"
| "value_type_rank NumberValue = 2"
| "value_type_rank StringValue = 3"
| "value_type_rank JsonValue = 4"

definition log_ref_key :: "LogRef \<Rightarrow> string \<times> string option \<times> LogPhase \<times> string option \<times> nat" where
  "log_ref_key r = (lr_run_id r, lr_check r, lr_phase r, lr_case r, log_stream_rank (lr_stream r))"

definition source_key :: "SourceLocation \<Rightarrow> string \<times> u32 \<times> u32 option" where
  "source_key s = (sl_file s, sl_line s, sl_column s)"

definition value_key :: "DiagnosticValue \<Rightarrow> nat \<times> string option \<times> string \<times> u64 \<times> bool \<times> bool" where
  "value_key v = (value_type_rank (dv_type v), dv_preview v, dv_sha256 v, dv_byte_count v,
     dv_truncated v, dv_redacted v)"

type_synonym diagnostic_key =
  "nat \<times> string option \<times> string option \<times> (string \<times> u32 \<times> u32 option) option \<times> string
   \<times> (nat \<times> string option \<times> string \<times> u64 \<times> bool \<times> bool) option
   \<times> (string \<times> string option \<times> LogPhase \<times> string option \<times> nat) list"

definition stable_diagnostic_order :: "FailureIndexEntry \<Rightarrow> diagnostic_key" where
  "stable_diagnostic_order entry =
     (diagnostic_rank entry, fie_check entry, fie_case entry,
      map_option source_key (fie_source entry), fie_fingerprint entry,
      map_option value_key (fie_actual entry), map log_ref_key (fie_log_refs entry))"

section \<open>Normalisation\<close>

text \<open>One turn of the first loop, and the loop over all entries.\<close>

definition prepare_entry ::
  "(string \<Rightarrow> string) \<Rightarrow> FailureIndexEntry \<Rightarrow> (DiagnosticParseError, FailureIndexEntry) result" where
  "prepare_entry sha256 entry =
     (let entry = entry\<lparr>fie_fingerprint := diagnostic_fingerprint sha256 entry\<rparr>
      in then_do (or_error InvalidReport (FailureIndexEntry_validate entry))
           (\<lambda>_. Ok (entry\<lparr>fie_log_refs := sort_key log_ref_key (fie_log_refs entry)\<rparr>)))"

fun prepare_entries ::
  "(string \<Rightarrow> string) \<Rightarrow> FailureIndexEntry list \<Rightarrow> (DiagnosticParseError, FailureIndexEntry list) result" where
  "prepare_entries sha256 [] = Ok []"
| "prepare_entries sha256 (entry # entries) =
     then_do (prepare_entry sha256 entry) (\<lambda>entry.
       then_do (prepare_entries sha256 entries) (\<lambda>entries. Ok (entry # entries)))"

definition push_log_ref :: "LogRef \<Rightarrow> LogRef list \<Rightarrow> LogRef list" where
  "push_log_ref log_ref refs = (if log_ref \<in> set refs then refs else refs @ [log_ref])"

definition absorb_entry :: "FailureIndexEntry \<Rightarrow> FailureIndexEntry \<Rightarrow> FailureIndexEntry" where
  "absorb_entry entry existing =
     existing\<lparr>fie_occurrences := saturating_add (fie_occurrences existing) (fie_occurrences entry),
       fie_log_refs := sort_key log_ref_key (fold push_log_ref (fie_log_refs entry) (fie_log_refs existing))\<rparr>"

definition group_diagnostic ::
  "FailureIndexEntry \<Rightarrow> (string, FailureIndexEntry) btree_map \<Rightarrow> (string, FailureIndexEntry) btree_map" where
  "group_diagnostic entry grouped =
     (if bt_contains grouped (fie_fingerprint entry)
      then bt_modify (fie_fingerprint entry) (absorb_entry entry) grouped
      else bt_insert (fie_fingerprint entry) entry grouped)"

definition normalize_diagnostics ::
  "(string \<Rightarrow> string) \<Rightarrow> FailureIndexEntry list \<Rightarrow> (DiagnosticParseError, NormalizedDiagnostics) result" where
  "normalize_diagnostics sha256 entries =
     (if MAX_DIAGNOSTIC_EVENTS < length entries then Err LimitExceeded
      else then_do (prepare_entries sha256 entries) (\<lambda>entries.
        let entries = sort_key stable_diagnostic_order entries;
            grouped = fold group_diagnostic entries [];
            total_unique = length grouped;
            entries = take MAX_FAILURE_INDEX (sort_key stable_diagnostic_order (map snd grouped))
        in Ok \<lparr>nd_entries = entries, nd_total_unique = total_unique,
               nd_truncated = (length entries < total_unique)\<rparr>))"

section \<open>Events and coordinator reports\<close>

definition new_entry ::
  "(string \<Rightarrow> string) \<Rightarrow> DiagnosticContext \<Rightarrow> string option \<Rightarrow> LeafStatus \<Rightarrow> DiagnosticExit
   \<Rightarrow> TerminationReason option \<Rightarrow> SourceLocation option \<Rightarrow> ErrorCategory \<Rightarrow> DiagnosticValue option
   \<Rightarrow> DiagnosticValue option \<Rightarrow> DiagnosticOrigin \<Rightarrow> FailureIndexEntry" where
  "new_entry sha256 context framework_case status exit reason source category expected actual origin =
     (let entry = \<lparr>fie_check = Some (dc_check context),
        fie_case = combined_case sha256 (dc_case context) framework_case,
        fie_status = status, fie_exit = exit, fie_termination_reason = reason, fie_source = source,
        fie_error_category = category, fie_expected = expected, fie_actual = actual,
        fie_fingerprint = [], fie_occurrences = 1,
        fie_log_refs = DiagnosticContext_log_refs context, fie_origin = origin,
        fie_coordinator = None\<rparr>
      in entry\<lparr>fie_fingerprint := diagnostic_fingerprint sha256 entry\<rparr>)"

definition MAX_COORDINATOR_REPORT_BYTES :: nat where
  "MAX_COORDINATOR_REPORT_BYTES = 256 * 1024"

fun coordinator_category :: "CoordinatorDiagnosticClass \<Rightarrow> ErrorCategory" where
  "coordinator_category Solver = ErrorCategory.ProcessExit"
| "coordinator_category ContainerStart = ErrorCategory.Dependency"
| "coordinator_category ContainerCleanup = ErrorCategory.Artifact"
| "coordinator_category CoordinatorInfrastructure = ErrorCategory.Internal"

definition parse_coordinator_json ::
  "(string \<Rightarrow> string) \<Rightarrow> (string \<Rightarrow> CoordinatorDiagnosticReport option) \<Rightarrow> string \<Rightarrow> DiagnosticContext
   \<Rightarrow> (DiagnosticParseError, FailureIndexEntry list) result" where
  "parse_coordinator_json sha256 decode input context =
     (if MAX_COORDINATOR_REPORT_BYTES < length input then Err LimitExceeded
      else case decode input of
        None \<Rightarrow> Err InvalidReport
      | Some report \<Rightarrow>
          then_do (or_error InvalidReport (CoordinatorDiagnosticReport_validate report
              (dc_run_id context) (dc_check context) (dc_case context) (dc_phase context)))
            (\<lambda>_. Ok (map (\<lambda>diagnostic.
               (new_entry sha256 context None (cde_status diagnostic) (cde_exit diagnostic) None None
                  (coordinator_category (cde_class diagnostic)) None None
                  DiagnosticOrigin.ExplicitEvent)\<lparr>fie_coordinator := Some diagnostic\<rparr>)
               (cdr_diagnostics report))))"

definition parse_diagnostic_event ::
  "(string \<Rightarrow> string) \<Rightarrow> (string \<Rightarrow> DiagnosticEvent option) \<Rightarrow> string \<Rightarrow> DiagnosticContext
   \<Rightarrow> (DiagnosticParseError, FailureIndexEntry) result" where
  "parse_diagnostic_event sha256 decode input context =
     then_do (DiagnosticContext_validate context) (\<lambda>_.
       then_do (or_error InvalidEvent (DiagnosticEvent_from_json decode input (dc_run_id context)
           (dc_check context) (dc_case context) (dc_phase context))) (\<lambda>event.
         let log_refs = (if ev_log_refs event = [] then DiagnosticContext_log_refs context
                         else ev_log_refs event);
             entry = \<lparr>fie_check = Some (ev_check event), fie_case = ev_case event,
               fie_status = ev_status event, fie_exit = ev_exit event,
               fie_termination_reason = ev_termination_reason event, fie_source = ev_source event,
               fie_error_category = ev_error_category event, fie_expected = ev_expected event,
               fie_actual = ev_actual event, fie_fingerprint = [], fie_occurrences = 1,
               fie_log_refs = log_refs, fie_origin = DiagnosticOrigin.ExplicitEvent,
               fie_coordinator = None\<rparr>;
             entry = entry\<lparr>fie_fingerprint := diagnostic_fingerprint sha256 entry\<rparr>
         in then_do (or_error InvalidEvent (FailureIndexEntry_validate entry)) (\<lambda>_. Ok entry)))"

section \<open>Sorting by keys\<close>

lemma log_stream_rank_inject: "log_stream_rank a = log_stream_rank b \<longleftrightarrow> a = b"
  by (cases a; cases b) simp_all

lemma log_ref_key_inject: "log_ref_key a = log_ref_key b \<longleftrightarrow> a = b"
  by (cases a; cases b) (auto simp: log_ref_key_def log_stream_rank_inject)

lemma hd_filter_sort_key:
  assumes "filter P (sort_key f xs) = y # ys" and "x \<in> set xs" and "P x"
  shows "f y \<le> f x" and "y \<in> set xs" and "P y"
proof -
  have "sorted (map f (filter P (sort_key f xs)))" by (rule sorted_filter) simp
  then have "\<forall>z \<in> set ys. f y \<le> f z" using assms(1) by simp
  moreover have "x \<in> set (y # ys)" using assms by (metis (mono_tags) filter_set mem_Collect_eq set_filter set_sort)
  ultimately show "f y \<le> f x" by auto
  have "y \<in> set (filter P (sort_key f xs))" using assms(1) by simp
  then show "y \<in> set xs" and "P y" by auto
qed

lemma sort_key_filter: "filter P (sort_key f xs) = [] \<longleftrightarrow> (\<forall>x \<in> set xs. \<not> P x)"
  by (simp add: filter_empty_conv)

lemma distinct_map_sort_key: "distinct (map g (sort_key f xs)) = distinct (map g xs)"
  by (simp add: distinct_map)

lemma sum_list_filter_sort_key:
  "(\<Sum>x\<leftarrow>filter P (sort_key f xs). g x) = (\<Sum>x\<leftarrow>filter P xs. g x :: nat)"
proof -
  have "mset (map g (filter P (sort_key f xs))) = mset (map g (filter P xs))" by simp
  then show ?thesis by (metis sum_mset_sum_list)
qed

section \<open>Collapsing\<close>

lemma set_push_log_ref: "set (fold push_log_ref new refs) = set refs \<union> set new"
  by (induction new arbitrary: refs) (auto simp: push_log_ref_def)

lemma distinct_push_log_ref: "distinct refs \<Longrightarrow> distinct (fold push_log_ref new refs)"
  by (induction new arbitrary: refs) (auto simp: push_log_ref_def)

lemma absorb_entry_fields:
  "fie_occurrences (absorb_entry entry existing) = saturating_add (fie_occurrences existing) (fie_occurrences entry)"
  "set (fie_log_refs (absorb_entry entry existing)) = set (fie_log_refs existing) \<union> set (fie_log_refs entry)"
  "distinct (fie_log_refs existing) \<Longrightarrow> distinct (fie_log_refs (absorb_entry entry existing))"
  "sorted (map log_ref_key (fie_log_refs (absorb_entry entry existing)))"
  "absorb_entry entry existing =
     existing\<lparr>fie_occurrences := fie_occurrences (absorb_entry entry existing),
       fie_log_refs := fie_log_refs (absorb_entry entry existing)\<rparr>"
  by (simp_all add: absorb_entry_def set_push_log_ref distinct_push_log_ref)

text \<open>The sum of the occurrences of a list of entries.\<close>

definition occurrences_of :: "FailureIndexEntry list \<Rightarrow> nat" where
  "occurrences_of entries = (\<Sum>entry\<leftarrow>entries. unat (fie_occurrences entry))"

lemma absorb_all_shape:
  "\<exists>n refs. fold absorb_entry entries existing = existing\<lparr>fie_occurrences := n, fie_log_refs := refs\<rparr>"
proof (induction entries arbitrary: existing)
  case Nil
  show ?case
    by (intro exI [of _ "fie_occurrences existing"] exI [of _ "fie_log_refs existing"]) simp
next
  case (Cons entry entries)
  then obtain n refs where "fold absorb_entry entries (absorb_entry entry existing) =
      (absorb_entry entry existing)\<lparr>fie_occurrences := n, fie_log_refs := refs\<rparr>" by blast
  then have "fold absorb_entry (entry # entries) existing = existing\<lparr>fie_occurrences := n, fie_log_refs := refs\<rparr>"
    by (simp add: absorb_entry_def)
  then show ?case by blast
qed

lemma saturating_sum: "min (min (a + b) m + c) m = min (a + (b + c)) (m::nat)"
  by simp

lemma absorb_all_occurrences:
  "unat (fie_occurrences (fold absorb_entry entries existing)) =
     min (unat (fie_occurrences existing) + occurrences_of entries) (2 ^ 32 - 1)"
proof (induction entries arbitrary: existing)
  case Nil
  have "unat (fie_occurrences existing) < 2 ^ LENGTH(32)" by (rule unsigned_less)
  then show ?case by (simp add: occurrences_of_def)
next
  case (Cons entry entries)
  have "unat (fie_occurrences (absorb_entry entry existing)) =
      min (unat (fie_occurrences existing) + unat (fie_occurrences entry)) (2 ^ 32 - 1)"
    using unat_saturating_add [of "fie_occurrences existing" "fie_occurrences entry"]
    by (simp add: absorb_entry_fields(1))
  then show ?case
    using saturating_sum [of "unat (fie_occurrences existing)" "unat (fie_occurrences entry)"
        "2 ^ 32 - 1" "occurrences_of entries"]
    by (simp only: fold_simps Cons.IH occurrences_of_def list.map sum_list.Cons)
qed

lemma absorb_all_refs:
  "set (fie_log_refs (fold absorb_entry entries existing)) =
     set (fie_log_refs existing) \<union> (\<Union>entry \<in> set entries. set (fie_log_refs entry))"
  "distinct (fie_log_refs existing) \<Longrightarrow> distinct (fie_log_refs (fold absorb_entry entries existing))"
  "sorted (map log_ref_key (fie_log_refs existing)) \<Longrightarrow>
     sorted (map log_ref_key (fie_log_refs (fold absorb_entry entries existing)))"
  by (induction entries arbitrary: existing) (auto simp: absorb_entry_fields(2-4))

section \<open>Grouping\<close>

text \<open>The group of a fingerprint: its first entry, with the later ones absorbed.\<close>

definition collapse :: "FailureIndexEntry list \<Rightarrow> FailureIndexEntry option" where
  "collapse entries = (case entries of [] \<Rightarrow> None | entry # rest \<Rightarrow> Some (fold absorb_entry rest entry))"

lemma collapse_None: "collapse entries = None \<longleftrightarrow> entries = []"
  by (cases entries) (simp_all add: collapse_def)

lemma group_diagnostic_ok: "bt_ok grouped \<Longrightarrow> bt_ok (group_diagnostic entry grouped)"
  by (simp add: group_diagnostic_def)

lemma group_diagnostic_get:
  "bt_ok grouped \<Longrightarrow> bt_get (group_diagnostic entry grouped) k =
     (if k = fie_fingerprint entry
      then Some (case bt_get grouped k of None \<Rightarrow> entry | Some existing \<Rightarrow> absorb_entry entry existing)
      else bt_get grouped k)"
  by (auto simp: group_diagnostic_def bt_contains_def bt_get_modify bt_get_insert split: option.splits)

lemma group_diagnostics:
  assumes "bt_ok grouped"
  shows "bt_ok (fold group_diagnostic entries grouped)
    \<and> bt_get (fold group_diagnostic entries grouped) k =
        (case bt_get grouped k of
           None \<Rightarrow> collapse (filter (\<lambda>e. fie_fingerprint e = k) entries)
         | Some existing \<Rightarrow> Some (fold absorb_entry (filter (\<lambda>e. fie_fingerprint e = k) entries) existing))"
  using assms
proof (induction entries arbitrary: grouped)
  case (Cons entry entries)
  from Cons.IH [OF group_diagnostic_ok [OF Cons.prems, of entry]] Cons.prems show ?case
    by (auto simp: group_diagnostic_get collapse_def split: option.splits)
qed (simp add: collapse_def split: option.splits)

lemmas grouped_table = group_diagnostics [OF bt_ok_Nil, simplified]

section \<open>What a normalised index holds\<close>

definition prepared :: "(string \<Rightarrow> string) \<Rightarrow> FailureIndexEntry \<Rightarrow> FailureIndexEntry" where
  "prepared sha256 entry =
     entry\<lparr>fie_fingerprint := diagnostic_fingerprint sha256 entry,
       fie_log_refs := sort_key log_ref_key (fie_log_refs entry)\<rparr>"

lemma or_error_ok [simp, accepts]: "or_error e r = Ok x \<longleftrightarrow> r = Ok x"
  by (cases r) (auto simp: or_error_def)

lemma prepare_entry_ok:
  "prepare_entry sha256 entry = Ok y \<longleftrightarrow>
     y = prepared sha256 entry \<and>
     FailureIndexEntry_validate (entry\<lparr>fie_fingerprint := diagnostic_fingerprint sha256 entry\<rparr>) = Ok ()"
  by (auto simp: prepare_entry_def prepared_def Let_def)

lemma prepare_entries_ok:
  "prepare_entries sha256 entries = Ok ys \<longleftrightarrow>
     ys = map (prepared sha256) entries \<and>
     (\<forall>entry \<in> set entries.
        FailureIndexEntry_validate (entry\<lparr>fie_fingerprint := diagnostic_fingerprint sha256 entry\<rparr>) = Ok ())"
  by (induction entries arbitrary: ys) (auto simp: prepare_entry_ok)

lemma prepared_fields [simp]:
  "fie_fingerprint (prepared sha256 entry) = diagnostic_fingerprint sha256 entry"
  "fie_occurrences (prepared sha256 entry) = fie_occurrences entry"
  "set (fie_log_refs (prepared sha256 entry)) = set (fie_log_refs entry)"
  "distinct (fie_log_refs (prepared sha256 entry)) = distinct (fie_log_refs entry)"
  "sorted (map log_ref_key (fie_log_refs (prepared sha256 entry)))"
  "diagnostic_rank (prepared sha256 entry) = diagnostic_rank entry"
  by (simp_all add: prepared_def diagnostic_rank_def)

lemma validated_log_refs_distinct: "FailureIndexEntry_validate entry = Ok () \<Longrightarrow> distinct (fie_log_refs entry)"
  by (auto simp: FailureIndexEntry_validate_def steps_ok)

text \<open>The table of groups of a list of entries, in the order of importance.\<close>

definition groups_of :: "(string \<Rightarrow> string) \<Rightarrow> FailureIndexEntry list \<Rightarrow> (string, FailureIndexEntry) btree_map" where
  "groups_of sha256 entries =
     fold group_diagnostic (sort_key stable_diagnostic_order (map (prepared sha256) entries)) []"

lemma normalize_ok:
  assumes "normalize_diagnostics sha256 entries = Ok result"
  shows "nd_entries result =
      take MAX_FAILURE_INDEX (sort_key stable_diagnostic_order (map snd (groups_of sha256 entries)))"
    and "nd_total_unique result = length (groups_of sha256 entries)"
    and "nd_truncated result \<longleftrightarrow> MAX_FAILURE_INDEX < nd_total_unique result"
    and "length entries \<le> MAX_DIAGNOSTIC_EVENTS"
    and "\<And>entry. entry \<in> set entries \<Longrightarrow> distinct (fie_log_refs entry)"
proof -
  have "\<And>entry. entry \<in> set entries \<Longrightarrow>
      FailureIndexEntry_validate (entry\<lparr>fie_fingerprint := diagnostic_fingerprint sha256 entry\<rparr>) = Ok ()"
    using assms by (auto simp: normalize_diagnostics_def prepare_entries_ok split: if_splits)
  then show "\<And>entry. entry \<in> set entries \<Longrightarrow> distinct (fie_log_refs entry)"
    using validated_log_refs_distinct by force
  show "nd_entries result =
      take MAX_FAILURE_INDEX (sort_key stable_diagnostic_order (map snd (groups_of sha256 entries)))"
    and "nd_total_unique result = length (groups_of sha256 entries)"
    and "nd_truncated result \<longleftrightarrow> MAX_FAILURE_INDEX < nd_total_unique result"
    and "length entries \<le> MAX_DIAGNOSTIC_EVENTS"
    using assms
    by (auto simp: normalize_diagnostics_def prepare_entries_ok Let_def groups_of_def split: if_splits)
qed

text \<open>The entry a table holds for a fingerprint.\<close>

lemma groups_of_get:
  "bt_ok (groups_of sha256 entries)"
  "bt_get (groups_of sha256 entries) k =
     collapse (filter (\<lambda>e. fie_fingerprint e = k) (sort_key stable_diagnostic_order (map (prepared sha256) entries)))"
  using grouped_table [of "sort_key stable_diagnostic_order (map (prepared sha256) entries)" k]
  by (simp_all add: groups_of_def)

lemma groups_of_keys: "fst ` set (groups_of sha256 entries) = diagnostic_fingerprint sha256 ` set entries"
proof -
  have "k \<in> fst ` set (groups_of sha256 entries) \<longleftrightarrow> k \<in> diagnostic_fingerprint sha256 ` set entries" for k
    using bt_get_None [of "groups_of sha256 entries" k]
    unfolding groups_of_get(2) collapse_None sort_key_filter by auto
  then show ?thesis by blast
qed

text \<open>A group stands for all the entries with its fingerprint, and is led by one of the most important.\<close>

definition group_of :: "(string \<Rightarrow> string) \<Rightarrow> FailureIndexEntry list \<Rightarrow> FailureIndexEntry \<Rightarrow> bool" where
  "group_of sha256 entries e \<longleftrightarrow>
     (let members = filter (\<lambda>x. diagnostic_fingerprint sha256 x = fie_fingerprint e) entries
      in unat (fie_occurrences e) = min (occurrences_of members) (2 ^ 32 - 1) \<and>
         set (fie_log_refs e) = (\<Union>x \<in> set members. set (fie_log_refs x)) \<and>
         distinct (fie_log_refs e) \<and> sorted (map log_ref_key (fie_log_refs e)) \<and>
         (\<exists>first \<in> set members. e = first\<lparr>fie_fingerprint := fie_fingerprint e,
            fie_occurrences := fie_occurrences e, fie_log_refs := fie_log_refs e\<rparr> \<and>
            (\<forall>x \<in> set members. diagnostic_rank first \<le> diagnostic_rank x)))"

lemma rank_of_order: "stable_diagnostic_order a \<le> stable_diagnostic_order b \<Longrightarrow> diagnostic_rank a \<le> diagnostic_rank b"
  by (auto simp: stable_diagnostic_order_def less_eq_prod_def)

lemma collapse_members:
  assumes "\<forall>x \<in> set (y # ys). distinct (fie_log_refs x) \<and> sorted (map log_ref_key (fie_log_refs x))"
    and "e = fold absorb_entry ys y"
  shows "unat (fie_occurrences e) = min (occurrences_of (y # ys)) (2 ^ 32 - 1)"
    and "set (fie_log_refs e) = (\<Union>x \<in> set (y # ys). set (fie_log_refs x))"
    and "distinct (fie_log_refs e)" and "sorted (map log_ref_key (fie_log_refs e))"
    and "e = y\<lparr>fie_occurrences := fie_occurrences e, fie_log_refs := fie_log_refs e\<rparr>"
proof -
  show "unat (fie_occurrences e) = min (occurrences_of (y # ys)) (2 ^ 32 - 1)"
    using absorb_all_occurrences [of ys y] assms(2) by (simp add: occurrences_of_def)
  show "set (fie_log_refs e) = (\<Union>x \<in> set (y # ys). set (fie_log_refs x))"
    using absorb_all_refs(1) [of ys y] assms(2) by simp
  show "distinct (fie_log_refs e)" and "sorted (map log_ref_key (fie_log_refs e))"
    using absorb_all_refs(2,3) [of y ys] assms by simp_all
  show "e = y\<lparr>fie_occurrences := fie_occurrences e, fie_log_refs := fie_log_refs e\<rparr>"
    using absorb_all_shape [of ys y] assms(2) by auto
qed

lemma groups_of_group:
  assumes "(k, e) \<in> set (groups_of sha256 entries)"
    and "\<And>entry. entry \<in> set entries \<Longrightarrow> distinct (fie_log_refs entry)"
  shows "fie_fingerprint e = k \<and> group_of sha256 entries e"
proof -
  let ?P = "\<lambda>x. fie_fingerprint x = k" and ?xs = "map (prepared sha256) entries"
  have "bt_get (groups_of sha256 entries) k = Some e"
    using assms(1) by (simp only: bt_get_Some [OF groups_of_get(1)])
  then obtain y ys where f: "filter ?P (sort_key stable_diagnostic_order ?xs) = y # ys"
    and e: "e = fold absorb_entry ys y"
    by (auto simp: groups_of_get(2) collapse_def split: list.splits)
  have mem: "set (y # ys) = prepared sha256 ` {x \<in> set entries. diagnostic_fingerprint sha256 x = k}"
    unfolding f [symmetric] by auto
  have "y \<in> set (y # ys)" by simp
  then obtain first where first: "first \<in> set entries" "diagnostic_fingerprint sha256 first = k"
    "y = prepared sha256 first" unfolding mem by blast
  have "\<forall>x \<in> set (y # ys). distinct (fie_log_refs x) \<and> sorted (map log_ref_key (fie_log_refs x))"
    using assms(2) unfolding mem by auto
  note c = collapse_members [OF this e]
  have "fie_fingerprint y = k" by (simp add: first(2,3))
  then have fp: "fie_fingerprint e = k" by (subst c(5)) simp
  let ?members = "filter (\<lambda>x. diagnostic_fingerprint sha256 x = k) entries"
  have "occurrences_of (y # ys) = occurrences_of ?members"
    unfolding f [symmetric] occurrences_of_def sum_list_filter_sort_key by (simp add: filter_map o_def)
  then have occ: "unat (fie_occurrences e) = min (occurrences_of ?members) (2 ^ 32 - 1)" using c(1) by simp
  have refs: "set (fie_log_refs e) = (\<Union>x \<in> set ?members. set (fie_log_refs x))"
    unfolding c(2) mem by simp
  have lead: "e = first\<lparr>fie_fingerprint := k, fie_occurrences := fie_occurrences e, fie_log_refs := fie_log_refs e\<rparr>"
    by (subst c(5)) (simp add: first(3) prepared_def first(2))
  have rank: "\<forall>x \<in> set ?members. diagnostic_rank first \<le> diagnostic_rank x"
  proof
    fix x assume "x \<in> set ?members"
    then have "prepared sha256 x \<in> set ?xs" and "?P (prepared sha256 x)" by auto
    from rank_of_order [OF hd_filter_sort_key(1) [OF f this]]
    show "diagnostic_rank first \<le> diagnostic_rank x" by (simp add: first(3))
  qed
  have "first \<in> set ?members" using first by simp
  with occ refs c(3,4) lead rank fp show ?thesis unfolding group_of_def Let_def by blast
qed

text \<open>
  C30: the failure index has one entry for each distinct failure: its
  entries have pairwise different fingerprints, and each stands for exactly the input entries
  with its fingerprint, counting all their occurrences (up to the maximum of the counter) and
  holding all their log references once, under the data of one that none of them outranks.  The
  total counts the distinct failures, shown or not.
\<close>

theorem normalized_index_merges:
  assumes "normalize_diagnostics sha256 entries = Ok result"
  shows "distinct (map fie_fingerprint (nd_entries result))
    \<and> (\<forall>e \<in> set (nd_entries result). group_of sha256 entries e)
    \<and> nd_total_unique result = card (diagnostic_fingerprint sha256 ` set entries)"
proof (intro conjI)
  note ok = normalize_ok [OF assms]
  let ?m = "groups_of sha256 entries"
  have group: "fie_fingerprint e = k \<and> group_of sha256 entries e" if "(k, e) \<in> set ?m" for k e
    using that ok(5) by (rule groups_of_group)
  have keys: "map fie_fingerprint (map snd ?m) = map fst ?m" using group by auto
  have "distinct (map fie_fingerprint (map snd ?m))"
    unfolding keys by (rule bt_distinct [OF groups_of_get(1)])
  then have "distinct (map fie_fingerprint (sort_key stable_diagnostic_order (map snd ?m)))"
    by (simp only: distinct_map_sort_key)
  then show "distinct (map fie_fingerprint (nd_entries result))"
    unfolding ok(1) take_map [symmetric] by (rule distinct_take)
  show "\<forall>e \<in> set (nd_entries result). group_of sha256 entries e"
  proof
    fix e assume "e \<in> set (nd_entries result)"
    then have "e \<in> set (map snd ?m)" unfolding ok(1) by (metis in_set_takeD set_sort)
    then obtain k where "(k, e) \<in> set ?m" by auto
    then show "group_of sha256 entries e" using group by blast
  qed
  have "length ?m = card (fst ` set ?m)"
    using distinct_card [OF bt_distinct [OF groups_of_get(1), of sha256 entries]] by simp
  then show "nd_total_unique result = card (diagnostic_fingerprint sha256 ` set entries)"
    by (simp add: ok(2) groups_of_keys)
qed

lemma take_sorted_key:
  assumes "x \<in> set (take n (sort_key f xs))" and "y \<in> set xs" and "y \<notin> set (take n (sort_key f xs))"
  shows "f x \<le> f y"
proof -
  have "sorted (map f (take n (sort_key f xs) @ drop n (sort_key f xs)))" by simp
  then have "\<forall>a \<in> set (take n (sort_key f xs)). \<forall>b \<in> set (drop n (sort_key f xs)). f a \<le> f b"
    unfolding map_append sorted_append by auto
  moreover have "y \<in> set (drop n (sort_key f xs))"
    using assms(2,3) by (metis Un_iff append_take_drop_id set_append set_sort)
  ultimately show ?thesis using assms(1) by blast
qed

text \<open>
  The index shows every distinct failure when there are at most 128 of
  them, and says so; when there are more it shows 128, and no failure it leaves out is more
  important than one it shows.
\<close>

theorem normalized_index_ranked:
  assumes "normalize_diagnostics sha256 entries = Ok result"
  shows "length (nd_entries result) = min (nd_total_unique result) 128
    \<and> (nd_truncated result \<longleftrightarrow> 128 < nd_total_unique result)
    \<and> sorted (map diagnostic_rank (nd_entries result))
    \<and> (\<forall>e x. e \<in> set (nd_entries result) \<and> x \<in> set entries \<and>
         diagnostic_fingerprint sha256 x \<notin> fie_fingerprint ` set (nd_entries result) \<longrightarrow>
         diagnostic_rank e \<le> diagnostic_rank x)"
proof (intro conjI allI impI)
  note ok = normalize_ok [OF assms]
  let ?m = "groups_of sha256 entries"
  show "length (nd_entries result) = min (nd_total_unique result) 128"
    by (simp add: ok(1,2) MAX_FAILURE_INDEX_def min.commute)
  show "nd_truncated result \<longleftrightarrow> 128 < nd_total_unique result" by (simp add: ok(3) MAX_FAILURE_INDEX_def)
  have "sorted (map stable_diagnostic_order (nd_entries result))"
    unfolding ok(1) take_map [symmetric] by (rule sorted_wrt_take) simp
  then show "sorted (map diagnostic_rank (nd_entries result))"
    by (auto simp: sorted_wrt_map intro: sorted_wrt_mono_rel [rotated] dest: rank_of_order)
  fix e x
  assume h: "e \<in> set (nd_entries result) \<and> x \<in> set entries \<and>
    diagnostic_fingerprint sha256 x \<notin> fie_fingerprint ` set (nd_entries result)"
  then have "diagnostic_fingerprint sha256 x \<in> fst ` set ?m" by (simp add: groups_of_keys)
  then obtain g where g: "(diagnostic_fingerprint sha256 x, g) \<in> set ?m" by auto
  note group = groups_of_group [OF g ok(5)]
  obtain first where first: "g = first\<lparr>fie_fingerprint := fie_fingerprint g,
      fie_occurrences := fie_occurrences g, fie_log_refs := fie_log_refs g\<rparr>"
    "diagnostic_rank first \<le> diagnostic_rank x"
    using group h unfolding group_of_def Let_def by auto
  have "diagnostic_rank g = diagnostic_rank first" by (subst first(1)) (simp add: diagnostic_rank_def)
  moreover have "stable_diagnostic_order e \<le> stable_diagnostic_order g"
  proof (rule take_sorted_key [where f = stable_diagnostic_order and xs = "map snd ?m"])
    show "e \<in> set (take MAX_FAILURE_INDEX (sort_key stable_diagnostic_order (map snd ?m)))"
      using h ok(1) by simp
    show "g \<in> set (map snd ?m)" using g by force
    show "g \<notin> set (take MAX_FAILURE_INDEX (sort_key stable_diagnostic_order (map snd ?m)))"
      using h group unfolding ok(1) [symmetric] by (metis imageI)
  qed
  ultimately show "diagnostic_rank e \<le> diagnostic_rank x" using rank_of_order first(2) by fastforce
qed

section \<open>Accepted entries are normalised\<close>

lemma fingerprint_valid: "digest_size sha256 \<Longrightarrow> validate_fingerprint (diagnostic_fingerprint sha256 entry) = Ok ()"
  by (simp add: validate_fingerprint_def diagnostic_fingerprint_def strip_prefix_def str_starts_with_def digest_valid)

lemma fingerprinted_valid:
  assumes "digest_size sha256" and "FailureIndexEntry_validate entry = Ok ()"
  shows "FailureIndexEntry_validate (entry\<lparr>fie_fingerprint := diagnostic_fingerprint sha256 entry\<rparr>) = Ok ()"
  using assms(2) fingerprint_valid [OF assms(1), of entry]
  by (simp add: FailureIndexEntry_validate_def)

lemma normalize_accepts:
  assumes "digest_size sha256" and "\<And>entry. entry \<in> set entries \<Longrightarrow> FailureIndexEntry_validate entry = Ok ()"
  shows "normalize_diagnostics sha256 entries = Err LimitExceeded \<and> MAX_DIAGNOSTIC_EVENTS < length entries
    \<or> (\<exists>result. normalize_diagnostics sha256 entries = Ok result)"
proof -
  have "prepare_entries sha256 entries = Ok (map (prepared sha256) entries)"
    using assms fingerprinted_valid by (simp add: prepare_entries_ok)
  then show ?thesis by (simp add: normalize_diagnostics_def Let_def)
qed

lemma context_valid:
  assumes "DiagnosticContext_validate context = Ok ()"
  shows "validate_name kind (dc_check context) 64 = Ok ()"
    and "dc_case context = Some case_id \<Longrightarrow> validate_case_id case_id = Ok ()"
    and "\<And>r. r \<in> set (DiagnosticContext_log_refs context) \<Longrightarrow> LogRef_validate r = Ok ()"
    and "distinct (DiagnosticContext_log_refs context)" and "length (DiagnosticContext_log_refs context) = 2"
proof -
  show refs: "\<And>r. r \<in> set (DiagnosticContext_log_refs context) \<Longrightarrow> LogRef_validate r = Ok ()"
    using assms by (auto simp: DiagnosticContext_validate_def steps_ok)
  show "distinct (DiagnosticContext_log_refs context)" and "length (DiagnosticContext_log_refs context) = 2"
    by (simp_all add: DiagnosticContext_log_refs_def)
  have phase: "dc_phase context \<noteq> LogPhase.Executor" using assms by (auto simp: DiagnosticContext_validate_def steps_ok)
  have out: "LogRef_validate \<lparr>lr_run_id = dc_run_id context, lr_check = Some (dc_check context),
      lr_phase = dc_phase context, lr_case = dc_case context, lr_stream = Stdout\<rparr> = Ok ()"
    by (rule refs) (simp add: DiagnosticContext_log_refs_def)
  show "validate_name kind (dc_check context) 64 = Ok ()"
    using out phase
    by (auto simp: LogRef_validate_def check_log_ref_def case_log_ref_def validate_name_def
        split: LogPhase.splits option.splits)
  show "dc_case context = Some case_id \<Longrightarrow> validate_case_id case_id = Ok ()"
    using out phase
    by (auto simp: LogRef_validate_def check_log_ref_def case_log_ref_def split: LogPhase.splits option.splits)
qed

lemma new_entry_valid:
  assumes "digest_size sha256" and "DiagnosticContext_validate context = Ok ()" and "is_failure_status status"
    and "DiagnosticExit_validate exit = Ok ()" and "if_some SourceLocation_validate source = Ok ()"
    and "if_some DiagnosticValue_validate expected = Ok ()" and "if_some DiagnosticValue_validate actual = Ok ()"
  shows "FailureIndexEntry_validate
    (new_entry sha256 context framework_case status exit reason source category expected actual origin) = Ok ()"
proof -
  note ctx = context_valid [OF assms(2)]
  have case_ok: "validate_diagnostic_name kind name = Ok ()"
    if "combined_case sha256 (dc_case context) framework_case = Some name" for kind name
    using combined_case_valid [OF assms(1) that] ctx(2) case_id_diagnostic_name by blast
  define entry where "entry = new_entry sha256 context framework_case status exit reason source category expected
    actual origin"
  have fields: "fie_check entry = Some (dc_check context)"
    "fie_case entry = combined_case sha256 (dc_case context) framework_case" "fie_status entry = status"
    "fie_exit entry = exit" "fie_source entry = source" "fie_expected entry = expected" "fie_actual entry = actual"
    "fie_occurrences entry = 1" "fie_log_refs entry = DiagnosticContext_log_refs context" "fie_coordinator entry = None"
    by (simp_all add: entry_def new_entry_def Let_def)
  have "\<exists>e. fie_fingerprint entry = diagnostic_fingerprint sha256 e"
    unfolding entry_def new_entry_def Let_def by (rule exI) simp
  then have fp: "validate_fingerprint (fie_fingerprint entry) = Ok ()" using fingerprint_valid [OF assms(1)] by auto
  have "FailureIndexEntry_validate entry = Ok ()"
    unfolding FailureIndexEntry_validate_def steps_ok fields
    using assms(3-7) ctx(1,3,4,5) case_ok fp
    by (simp add: if_some_def reject_if_def MAX_DIAGNOSTIC_LOG_REFS_def split: option.splits)
  then show ?thesis by (simp add: entry_def)
qed

lemma coordinator_report_entries:
  assumes "CoordinatorDiagnosticReport_validate report run check case_id phase = Ok ()"
    and "diagnostic \<in> set (cdr_diagnostics report)"
  shows "is_failure_status (cde_status diagnostic)" and "DiagnosticExit_validate (cde_exit diagnostic) = Ok ()"
    and "CoordinatorDiagnosticEntry_validate diagnostic = Ok ()"
proof -
  have "is_reported_failure (cde_status diagnostic)"
    and valid: "CoordinatorDiagnosticEntry_validate diagnostic = Ok ()"
    using assms by (auto simp: CoordinatorDiagnosticReport_validate_def steps_ok)
  then show "is_failure_status (cde_status diagnostic)"
    by (auto simp: is_reported_failure_def is_failure_status_def)
  show "DiagnosticExit_validate (cde_exit diagnostic) = Ok ()"
    using valid by (auto simp: CoordinatorDiagnosticEntry_validate_def steps_ok)
  show "CoordinatorDiagnosticEntry_validate diagnostic = Ok ()" by (rule valid)
qed

lemma with_coordinator_valid:
  "FailureIndexEntry_validate entry = Ok () \<Longrightarrow> CoordinatorDiagnosticEntry_validate c = Ok () \<Longrightarrow>
     FailureIndexEntry_validate (entry\<lparr>fie_coordinator := Some c\<rparr>) = Ok ()"
  by (simp add: FailureIndexEntry_validate_def)

lemma parse_coordinator_valid:
  assumes "digest_size sha256" and "DiagnosticContext_validate context = Ok ()"
    and "parse_coordinator_json sha256 decode input context = Ok entries" and "entry \<in> set entries"
  shows "FailureIndexEntry_validate entry = Ok ()"
proof -
  obtain report where
    report: "CoordinatorDiagnosticReport_validate report (dc_run_id context) (dc_check context)
      (dc_case context) (dc_phase context) = Ok ()"
    and entries: "entries = map (\<lambda>diagnostic. (new_entry sha256 context None (cde_status diagnostic)
      (cde_exit diagnostic) None None (coordinator_category (cde_class diagnostic)) None None
      DiagnosticOrigin.ExplicitEvent)\<lparr>fie_coordinator := Some diagnostic\<rparr>) (cdr_diagnostics report)"
    using assms(3) by (auto simp: parse_coordinator_json_def split: if_splits option.splits)
  obtain diagnostic where d: "diagnostic \<in> set (cdr_diagnostics report)"
    and e: "entry = (new_entry sha256 context None (cde_status diagnostic)
      (cde_exit diagnostic) None None (coordinator_category (cde_class diagnostic)) None None
      DiagnosticOrigin.ExplicitEvent)\<lparr>fie_coordinator := Some diagnostic\<rparr>"
    using assms(4) entries by auto
  note parts = coordinator_report_entries [OF report d]
  show ?thesis unfolding e
    by (rule with_coordinator_valid, rule new_entry_valid) (use assms(1,2) parts in \<open>simp_all add: if_some_def\<close>)
qed

section \<open>Samples\<close>

definition sample_failure :: "string option \<Rightarrow> FailureIndexEntry" where
  "sample_failure case_id =
     \<lparr>fie_check = Some ''unit'', fie_case = case_id, fie_status = LeafStatus.Failed,
      fie_exit = \<lparr>de_code = Some 1, de_signal = None\<rparr>, fie_termination_reason = None, fie_source = None,
      fie_error_category = ErrorCategory.Assertion, fie_expected = None, fie_actual = None,
      fie_fingerprint = ''sha256:'' @ sample_digest, fie_occurrences = 1, fie_log_refs = [],
      fie_origin = DiagnosticOrigin.Junit, fie_coordinator = None\<rparr>"

lemma sample_fingerprint: "validate_fingerprint (''sha256:'' @ sample_digest) = Ok ()"
  by (simp add: validate_fingerprint_def strip_prefix_def str_starts_with_def)

lemma sample_failure_valid:
  "FailureIndexEntry_validate (sample_failure None) = Ok ()"
  "FailureIndexEntry_validate (sample_failure (Some ''a'')) = Ok ()"
  using sample_fingerprint
  by (simp_all add: sample_failure_def FailureIndexEntry_validate_def validate_name_def all_bytes_def ascii_defs
      is_failure_status_def DiagnosticExit_validate_def MAX_DIAGNOSTIC_LOG_REFS_def validate_diagnostic_name_def
      MAX_DIAGNOSTIC_NAME_BYTES_def if_some_def)

lemma sample_digest_size: "digest_size (\<lambda>_. replicate 32 (CHR ''x''))"
  by (simp add: digest_size_def)

lemma sample_normalized:
  "\<exists>result. normalize_diagnostics (\<lambda>_. replicate 32 (CHR ''x'')) [sample_failure None, sample_failure None] = Ok result"
  using normalize_accepts [OF sample_digest_size, of "[sample_failure None, sample_failure None]"] sample_failure_valid
  by (auto simp: MAX_DIAGNOSTIC_EVENTS_def)

theorem normalized_index_merges_witness:
  "\<exists>result. normalize_diagnostics (\<lambda>_. replicate 32 (CHR ''x'')) [sample_failure None, sample_failure None] = Ok result
     \<and> nd_total_unique result = 1"
  using sample_normalized normalized_index_merges by fastforce

theorem normalized_index_ranked_witness:
  "\<exists>result. normalize_diagnostics (\<lambda>_. replicate 32 (CHR ''x'')) [sample_failure None, sample_failure None] = Ok result
     \<and> (nd_truncated result \<longleftrightarrow> 128 < nd_total_unique result)"
  using sample_normalized normalized_index_ranked by blast

end
