(* ===== verification/Check_Contract.thy ===== *)
theory Check_Contract
  imports Protocol_Fields
begin

text \<open>
  The contract of a single check of a plan, \<^verbatim>\<open>validate_check\<close> and the helpers it calls, in
  \<^verbatim>\<open>src/rust/executor-protocol/src/lib.rs\<close>.  The lemmas show what an accepted check
  guarantees to the executor: exactly one way to run, bounded and disjoint retained
  artifacts, unique bounded cases.
\<close>

section \<open>Cases and commands\<close>

definition case_args_total :: "string list \<Rightarrow> nat" where
  "case_args_total args = foldl (\<lambda>total arg. usize_saturating_add total (length arg)) 0 args"

definition validate_case_arguments :: "CaseSpec \<Rightarrow> validation" where
  "validate_case_arguments c = steps [
     reject_if (MAX_CASE_ARGS < length (cs_args c))
       (ContractError ''case {:?} has too many arguments'' [cs_id c]),
     for_each (\<lambda>arg. reject_if (arg = [] \<or> nul \<in> set arg \<or> MAX_ARG_BYTES < length arg)
         (ContractError ''case {:?} contains an invalid argument'' [cs_id c])) (cs_args c),
     reject_if (MAX_CASE_ARG_BYTES < case_args_total (cs_args c))
       (ContractError ''case {:?} arguments exceed 64 KiB'' [cs_id c]),
     if_some (\<lambda>postgres. validate_name ''PostgreSQL case branch'' postgres 32) (cs_postgres c)]"

text \<open>The loop of \<^verbatim>\<open>validate_cases\<close>: identity, duplicate, then the arguments of each case.\<close>

fun validate_cases_loop :: "string set \<Rightarrow> CaseSpec list \<Rightarrow> validation" where
  "validate_cases_loop ids [] = Ok ()"
| "validate_cases_loop ids (c # cs) =
     then_do (steps [
        validate_case_id (cs_id c),
        reject_if (cs_id c \<in> ids) (ContractError ''duplicate case id {:?}'' [cs_id c]),
        validate_case_arguments c])
       (\<lambda>_. validate_cases_loop (insert (cs_id c) ids) cs)"

definition validate_cases :: "CaseSpec list \<Rightarrow> validation" where
  "validate_cases cs = steps [
     reject_if (MAX_CASES < length cs)
       (contract_error ''case manifest exceeds {MAX_CASES} cases''),
     validate_cases_loop {} cs]"

definition validate_case_selection :: "string list \<Rightarrow> validation" where
  "validate_case_selection selected = steps [
     reject_if (selected = [] \<or> MAX_CASES < length selected)
       (contract_error ''case selection must contain 1..=4096 case ids''),
     for_each_new validate_case_id (\<lambda>c. c)
       (\<lambda>_. contract_error ''case selection contains duplicates'') {} selected]"

definition validate_command :: "string \<Rightarrow> string list \<Rightarrow> validation" where
  "validate_command check command = steps [
     reject_if (command = [] \<or> MAX_COMMAND_ARGS < length command)
       (ContractError ''check {check:?} command must contain 1..={MAX_COMMAND_ARGS} arguments''
         [check]),
     for_each (\<lambda>(index, arg). steps [
         reject_if (index = 0 \<and> arg = [])
           (ContractError ''check {check:?} command executable is empty'' [check]),
         reject_if (nul \<in> set arg \<or> MAX_ARG_BYTES < length arg)
           (ContractError ''check {check:?} command contains an invalid argument'' [check])])
       (enumerate 0 command)]"

section \<open>Retained artifacts\<close>

definition reserved_path :: "string \<Rightarrow> bool" where
  "reserved_path path \<longleftrightarrow>
     path = ''.git'' \<or> str_starts_with path ''.git/'' \<or>
     path = ''.devcoordinator'' \<or> str_starts_with path ''.devcoordinator/''"

definition validate_retained :: "string \<Rightarrow> RetainedArtifactSpec \<Rightarrow> validation" where
  "validate_retained check a = steps [
     validate_name ''retained artifact'' (ras_name a) 64,
     validate_relative_path ''retained artifact'' (ras_path a),
     reject_if (256 < length (ras_path a) \<or> has_control (ras_path a))
       (ContractError ''check {:?} retained artifact path exceeds its safe bound'' [check]),
     reject_if (reserved_path (ras_path a))
       (ContractError ''check {:?} retained artifact path is reserved'' [check]),
     reject_if (ras_max_bytes a = 0 \<or> MAX_RETAINED_ARTIFACT_BYTES < ras_max_bytes a)
       (ContractError
         ''check {:?} retained artifact {:?} max_bytes must be in [1, {MAX_RETAINED_ARTIFACT_BYTES}]''
         [check, ras_name a])]"

text \<open>The loop over the retained artifacts, which carries the byte total and the names and
  paths seen so far.\<close>

fun retained_loop :: "string \<Rightarrow> u64 \<Rightarrow> string set \<Rightarrow> string set \<Rightarrow> RetainedArtifactSpec list
    \<Rightarrow> (ContractError, u64) result" where
  "retained_loop check limit names paths [] = Ok limit"
| "retained_loop check limit names paths (a # as) =
     then_do (validate_retained check a) (\<lambda>_.
       case checked_add limit (ras_max_bytes a) of
         None \<Rightarrow> Err (contract_error ''retained artifact byte limit overflow'')
       | Some limit' \<Rightarrow>
           if ras_name a \<in> names
           then Err (ContractError ''check {:?} repeats a retained artifact name'' [check])
           else if ras_path a \<in> paths
           then Err (ContractError ''check {:?} repeats a retained artifact path'' [check])
           else retained_loop check limit' (insert (ras_name a) names) (insert (ras_path a) paths) as)"

definition retained_overlap :: "RetainedArtifactSpec list \<Rightarrow> bool" where
  "retained_overlap as =
     list_ex (\<lambda>left. list_ex (\<lambda>right.
       ras_name left \<noteq> ras_name right \<and> path_starts_with (ras_path right) (ras_path left)) as) as"

definition validate_retained_artifacts :: "string \<Rightarrow> RetainedArtifactSpec list \<Rightarrow> validation" where
  "validate_retained_artifacts check as =
     then_do (retained_loop check 0 {} {} as) (\<lambda>total. steps [
       reject_if (MAX_RETAINED_ARTIFACT_TOTAL_BYTES < total)
         (ContractError
           ''check {:?} retained artifact limits exceed {MAX_RETAINED_ARTIFACT_TOTAL_BYTES} bytes''
           [check]),
       reject_if (retained_overlap as)
         (ContractError ''check {:?} retained artifact paths overlap'' [check])])"

section \<open>The check\<close>

definition CheckPlan_is_fanout :: "CheckPlan \<Rightarrow> bool" where
  "CheckPlan_is_fanout self \<longleftrightarrow> cp_case_command self \<noteq> None"

definition validate_resource_id :: "ResourceClaim \<Rightarrow> validation" where
  "validate_resource_id r =
     (if rc_kind r = Directory then validate_relative_path ''resource directory'' (rc_id r)
      else validate_identity ''resource id'' (rc_id r) 128)"

definition wrong_execution_form :: "CheckPlan \<Rightarrow> bool" where
  "wrong_execution_form check =
     (let direct = cp_command check \<noteq> None;
          dynamic = cp_discover check \<noteq> None;
          static_cases = cp_cases check \<noteq> None;
          fanout = cp_case_command check \<noteq> None
      in direct = fanout \<or> \<not> fanout \<and> (dynamic \<or> static_cases) \<or>
         fanout \<and> dynamic = static_cases)"

definition validate_check_identity :: "CheckPlan \<Rightarrow> validation" where
  "validate_check_identity check = steps [
     reject_if (cp_phase check = CheckPhase.Cleanup \<and>
         (cp_role check \<noteq> Work \<or> cp_completion check \<noteq> Process \<or> cp_command check = None \<or>
          cp_cacheable check))
       (contract_error ''cleanup must be an uncached direct process check''),
     if_some (\<lambda>name. validate_name ''source check'' name 64) (cp_source_name check),
     if_some (validate_diagnostic_name ''check display name'') (cp_display_name check),
     if_some validate_fingerprint (cp_expected_failure check),
     reject_if (cp_expect_failure check \<noteq> (cp_expected_failure check \<noteq> None))
       (contract_error ''qualification must identify its expected structured failure''),
     reject_if (optb (\<lambda>code. \<not> (0 \<le> code \<and> code \<le> 125)) (cp_expected_exit_code check) \<or>
         \<not> cp_expect_failure check \<and> cp_expected_exit_code check \<noteq> None)
       (contract_error ''expected exit code requires failure qualification and must be in 0..125''),
     validate_name ''check'' (cp_name check) 64]"

definition validate_check_execution :: "CheckPlan \<Rightarrow> validation" where
  "validate_check_execution check = steps [
     reject_if (32 < length (cp_resources check))
       (ContractError ''check {:?} declares more than 32 resource claims'' [cp_name check]),
     for_each_new validate_resource_id (\<lambda>r. (rc_kind r, rc_id r))
       (\<lambda>_. ContractError ''check {:?} repeats a resource claim'' [cp_name check]) {}
       (cp_resources check),
     (if cp_cwd check \<noteq> ''.'' then validate_relative_path ''cwd'' (cp_cwd check) else Ok ()),
     reject_if (optb (\<lambda>t. \<not> (1 \<le> t \<and> t \<le> MAX_TIMEOUT_SECONDS)) (cp_timeout_seconds check))
       (ContractError ''check {:?} timeout_seconds must be null or in [1, {MAX_TIMEOUT_SECONDS}]''
         [cp_name check]),
     reject_if (wrong_execution_form check)
       (ContractError
         ''check {:?} must declare exactly one command or one discover/static fan-out''
         [cp_name check]),
     for_each (validate_command (cp_name check))
       (flatten_options [cp_command check, cp_discover check, cp_case_command check]),
     reject_if (CheckPlan_is_fanout check \<and> cp_completion check \<noteq> Process)
       (ContractError ''fan-out check {:?} must use process completion'' [cp_name check]),
     reject_if (cp_role check = Preflight \<and> cp_completion check \<noteq> Process)
       (ContractError ''preflight {:?} must use process completion'' [cp_name check]),
     reject_if (cp_role check \<noteq> Preflight \<and> cp_invalidates check \<noteq> [])
       (ContractError ''work check {:?} cannot invalidate other checks'' [cp_name check]),
     reject_if (\<not> distinct (cp_invalidates check))
       (ContractError ''preflight {:?} repeats an invalidated check'' [cp_name check]),
     for_each (\<lambda>(key, value). steps [
         reject_if (str_starts_with key ''DEVCOORDINATOR_'')
           (ContractError ''check {:?} overrides reserved environment variable {key:?}''
             [cp_name check, key]),
         reject_if (key = [] \<or> CHR ''='' \<in> set key \<or> nul \<in> set key)
           (ContractError ''check {:?} contains an invalid environment name'' [cp_name check])])
       (cp_env check)]"

definition validate_check_artifacts :: "CheckPlan \<Rightarrow> validation" where
  "validate_check_artifacts check = steps [
     reject_if (16 < length (cp_produces check))
       (ContractError ''check {:?} declares more than 16 artifacts'' [cp_name check]),
     reject_if (\<not> distinct (cp_produces check))
       (ContractError ''check {:?} repeats an artifact path'' [cp_name check]),
     for_each (validate_relative_path ''artifact'') (cp_produces check),
     reject_if (16 < length (cp_consumes check))
       (ContractError ''check {:?} consumes more than 16 artifacts'' [cp_name check]),
     for_each_new (\<lambda>consumed. steps [
         validate_name ''consumed artifact check'' (ca_check consumed) 64,
         validate_relative_path ''consumed artifact'' (ca_path consumed)])
       (\<lambda>consumed. (ca_check consumed, ca_path consumed))
       (\<lambda>_. ContractError ''check {:?} repeats a consumed artifact'' [cp_name check]) {}
       (cp_consumes check),
     reject_if (32 < length (cp_cache_inputs check))
       (ContractError ''check {:?} declares more than 32 cache inputs'' [cp_name check]),
     for_each_new (validate_relative_path ''cache input'') (\<lambda>path. path)
       (\<lambda>_. ContractError ''check {:?} repeats a cache input'' [cp_name check]) {}
       (cp_cache_inputs check),
     (if cp_fingerprint check \<noteq> [] then validate_digest ''check fingerprint'' (cp_fingerprint check)
      else Ok ()),
     reject_if (cp_cacheable check \<and>
         (cp_completion check \<noteq> Process \<or> cp_command check = None \<or> cp_cache_inputs check = [] \<or>
          cp_produces check = [] \<and> cp_phase check \<noteq> CheckPhase.Qualification \<or>
          cp_fingerprint check = []))
       (ContractError ''cacheable check {:?} requires a direct process, cache inputs, fingerprint, and outputs unless it is a qualification''
         [cp_name check])]"

definition validate_check_evidence :: "CheckPlan \<Rightarrow> validation" where
  "validate_check_evidence check = steps [
     reject_if (cp_expect_failure check \<noteq> (cp_phase check = CheckPhase.Qualification) \<or>
         (cp_phase check = CheckPhase.Qualification) \<noteq> (cp_qualification_of check \<noteq> None))
       (ContractError ''qualification check {:?} must name its target and expect failure''
         [cp_name check]),
     if_some (\<lambda>target. validate_name ''qualification target'' target 64)
       (cp_qualification_of check),
     reject_if (MAX_RETAINED_ARTIFACTS < length (cp_retained_artifacts check))
       (ContractError ''check {:?} declares more than {MAX_RETAINED_ARTIFACTS} retained artifacts''
         [cp_name check]),
     reject_if (CheckPlan_is_fanout check \<and> cp_retained_artifacts check \<noteq> [])
       (ContractError ''fan-out check {:?} cannot declare retained artifacts'' [cp_name check]),
     reject_if (cp_completion check \<noteq> Process \<and> cp_retained_artifacts check \<noteq> [])
       (ContractError ''event-completed check {:?} cannot declare retained artifacts''
         [cp_name check]),
     validate_retained_artifacts (cp_name check) (cp_retained_artifacts check),
     reject_if (MAX_DIAGNOSTIC_SOURCES < length (cp_diagnostic_sources check))
       (ContractError ''check {:?} declares more than {MAX_DIAGNOSTIC_SOURCES} diagnostic sources''
         [cp_name check]),
     for_each_new (\<lambda>source. steps [
         reject_if (MAX_DIAGNOSTIC_PATH_BYTES < length (drs_path source))
           (ContractError ''check {:?} diagnostic source path exceeds 512 bytes'' [cp_name check]),
         validate_relative_path ''diagnostic report'' (drs_path source)])
       (\<lambda>source. (drs_format source, drs_path source))
       (\<lambda>_. ContractError ''check {:?} repeats a diagnostic source'' [cp_name check]) {}
       (cp_diagnostic_sources check),
     if_some validate_cases (cp_cases check)]"

definition validate_check :: "CheckPlan \<Rightarrow> validation" where
  "validate_check check = steps [
     validate_check_identity check,
     validate_check_execution check,
     validate_check_artifacts check,
     validate_check_evidence check]"

definition CheckPlan_validate_case_selection :: "CheckPlan \<Rightarrow> string list \<Rightarrow> validation" where
  "CheckPlan_validate_case_selection self selected = steps [
     reject_if (\<not> CheckPlan_is_fanout self)
       (contract_error ''case selection must name a fan-out check''),
     validate_case_selection selected,
     reject_if (optb (\<lambda>cs. list_ex (\<lambda>s. \<not> list_ex (\<lambda>c. cs_id c = s) cs) selected) (cp_cases self))
       (contract_error ''case selection names an undeclared static case'')]"

definition CaseManifest_from_json ::
  "(string \<Rightarrow> CaseSpec list option) \<Rightarrow> string \<Rightarrow> (ContractError, CaseSpec list) result" where
  "CaseManifest_from_json decode input =
     (if MAX_MANIFEST_BYTES < length input
      then Err (contract_error ''case manifest exceeds 2 MiB'')
      else case decode input of
             None \<Rightarrow> Err (contract_error ''invalid case manifest: {error}'')
           | Some cs \<Rightarrow> then_do (validate_cases cs) (\<lambda>_. Ok cs))"

section \<open>What an accepted check guarantees\<close>

lemma validate_cases_loop_ok:
  "validate_cases_loop ids cs = Ok () \<longleftrightarrow>
     (\<forall>c \<in> set cs. validate_case_id (cs_id c) = Ok () \<and> validate_case_arguments c = Ok ()) \<and>
     distinct (map cs_id cs) \<and> ids \<inter> cs_id ` set cs = {}"
  by (induction cs arbitrary: ids) auto

lemma validate_cases_ok [accepts]:
  "validate_cases cs = Ok () \<longleftrightarrow> length cs \<le> MAX_CASES \<and> distinct (map cs_id cs) \<and>
     (\<forall>c \<in> set cs. validate_case_id (cs_id c) = Ok () \<and> validate_case_arguments c = Ok ())"
  by (auto simp: validate_cases_def validate_cases_loop_ok)

lemma retained_loop_ok:
  "retained_loop check limit names paths as = Ok final \<Longrightarrow>
     (\<forall>a \<in> set as. validate_retained check a = Ok ()) \<and> distinct (map ras_name as) \<and>
     names \<inter> ras_name ` set as = {} \<and>
     unat final = unat limit + (\<Sum>a\<leftarrow>as. unat (ras_max_bytes a))"
proof (induction as arbitrary: limit names paths)
  case (Cons a as)
  from Cons.prems have a: "validate_retained check a = Ok ()" "ras_name a \<notin> names"
    and add: "unat limit + unat (ras_max_bytes a) < 2 ^ 64"
    and rest: "retained_loop check (limit + ras_max_bytes a) (insert (ras_name a) names)
                 (insert (ras_path a) paths) as = Ok final"
    by (auto simp: then_do_ok checked_add_def split: if_splits)
  from add have "unat (limit + ras_max_bytes a) = unat limit + unat (ras_max_bytes a)"
    by (intro unat_add_bounded) simp
  with a Cons.IH [OF rest] show ?case by auto
qed simp

text \<open>The four parts of \<open>validate_check\<close>, each accepted.\<close>

lemma validate_check_ok [accepts]:
  "validate_check c = Ok () \<longleftrightarrow>
     validate_check_identity c = Ok () \<and> validate_check_execution c = Ok () \<and>
     validate_check_artifacts c = Ok () \<and> validate_check_evidence c = Ok ()"
  by (simp add: validate_check_def)

lemma validate_check_name:
  "validate_check c = Ok () \<Longrightarrow> validate_name ''check'' (cp_name c) 64 = Ok ()"
  by (simp add: validate_check_ok validate_check_identity_def)

lemma validate_check_retained:
  "validate_check c = Ok () \<Longrightarrow>
     validate_retained_artifacts (cp_name c) (cp_retained_artifacts c) = Ok ()"
  by (simp add: validate_check_ok validate_check_evidence_def)

section \<open>Properties of an accepted check\<close>

lemma path_overlap_sym:
  assumes "\<not> retained_overlap as" and "a \<in> set as" and "b \<in> set as" and "ras_name a \<noteq> ras_name b"
  shows "\<not> path_starts_with (ras_path a) (ras_path b)"
  using assms unfolding retained_overlap_def list_ex_iff by metis

text \<open>
  The retained artifacts of an accepted check have different names
  and paths none of which lies inside another; each is limited to 1 GiB and all of them together
  to 2 GiB, as true sums without wrap-around.
\<close>

theorem retained_artifacts_bounded:
  assumes "validate_check c = Ok ()"
  shows "length (cp_retained_artifacts c) \<le> 8
    \<and> distinct (map ras_name (cp_retained_artifacts c))
    \<and> (\<forall>a \<in> set (cp_retained_artifacts c). 0 < unat (ras_max_bytes a) \<and> unat (ras_max_bytes a) \<le> 2 ^ 30)
    \<and> (\<Sum>a\<leftarrow>cp_retained_artifacts c. unat (ras_max_bytes a)) \<le> 2 ^ 31
    \<and> (\<forall>a \<in> set (cp_retained_artifacts c). \<forall>b \<in> set (cp_retained_artifacts c).
         a \<noteq> b \<longrightarrow> \<not> path_starts_with (ras_path a) (ras_path b))"
proof -
  let ?as = "cp_retained_artifacts c"
  have len: "length ?as \<le> 8"
    using assms by (simp add: validate_check_ok validate_check_evidence_def MAX_RETAINED_ARTIFACTS_def)
  obtain final where loop: "retained_loop (cp_name c) 0 {} {} ?as = Ok final"
    and total: "final \<le> MAX_RETAINED_ARTIFACT_TOTAL_BYTES" and overlap: "\<not> retained_overlap ?as"
    using validate_check_retained [OF assms] by (auto simp: validate_retained_artifacts_def not_less)
  note facts = retained_loop_ok [OF loop]
  have each: "0 < unat (ras_max_bytes a) \<and> unat (ras_max_bytes a) \<le> 2 ^ 30" if "a \<in> set ?as" for a
    using facts that
    by (auto simp: validate_retained_def MAX_RETAINED_ARTIFACT_BYTES_def not_less word_le_nat_alt
        unat_gt_0)
  have "unat final \<le> 2 ^ 31"
    using total by (simp add: word_le_nat_alt MAX_RETAINED_ARTIFACT_TOTAL_BYTES_def)
  then have "(\<Sum>a\<leftarrow>?as. unat (ras_max_bytes a)) \<le> 2 ^ 31" using facts by simp
  moreover have "ras_name a \<noteq> ras_name b" if "a \<in> set ?as" "b \<in> set ?as" "a \<noteq> b" for a b
    using facts that by (metis distinct_map inj_on_def)
  ultimately show ?thesis using len facts each path_overlap_sym [OF overlap] by blast
qed

section \<open>Sample checks\<close>

definition sample_check :: "string \<Rightarrow> ValidationTier \<Rightarrow> CheckPhase \<Rightarrow> string list \<Rightarrow> CheckPlan" where
  "sample_check name tier phase requires =
     \<lparr>cp_name = name, cp_display_name = None, cp_source_name = None, cp_tier = tier, cp_role = Work,
      cp_phase = phase, cp_resources = [], cp_after = [], cp_requires = requires,
      cp_invalidates = [], cp_cwd = ''.'', cp_env = [], cp_timeout_seconds = Some 60,
      cp_completion = Process, cp_on_failure = Continue, cp_produces = [], cp_consumes = [],
      cp_cacheable = False, cp_cache_inputs = [], cp_fingerprint = [], cp_expect_failure = False,
      cp_qualification_of = None, cp_expected_failure = None, cp_expected_exit_code = None,
      cp_retained_artifacts = [], cp_diagnostic_sources = [], cp_command = Some [''make''],
      cp_discover = None, cp_case_command = None, cp_cases = None\<rparr>"

lemmas check_field_defs = validate_name_def validate_identity_def validate_digest_def all_bytes_def
  is_identity_byte_def ascii_defs protocol_bounds optb_def

lemmas validate_check_defs = validate_check_ok validate_check_identity_def
  validate_check_execution_def validate_check_artifacts_def validate_check_evidence_def
  wrong_execution_form_def validate_command_def CheckPlan_is_fanout_def

definition sample_artifacts :: "RetainedArtifactSpec list" where
  "sample_artifacts = [\<lparr>ras_name = ''report'', ras_path = ''out/report'', ras_max_bytes = 1024\<rparr>,
     \<lparr>ras_name = ''trace'', ras_path = ''out/trace'', ras_max_bytes = 4096\<rparr>]"

lemma sample_artifacts_valid: "validate_retained_artifacts check sample_artifacts = Ok ()"
  by (simp add: sample_artifacts_def validate_retained_artifacts_def validate_retained_def
      retained_overlap_def checked_add_def check_field_defs reserved_path_def str_starts_with_def
      validate_relative_path_def path_starts_with_def components_def is_absolute_def
      segment_component_def)

lemma sample_check_valid:
  assumes "name \<in> {''build'', ''test'', ''sweep''}"
    and "phase \<in> {CheckPhase.Check, CheckPhase.Build, CheckPhase.Cleanup}"
  shows "validate_check (sample_check name tier phase requires) = Ok ()"
    and "validate_check ((sample_check name tier phase requires)\<lparr>cp_retained_artifacts := sample_artifacts\<rparr>) = Ok ()"
proof -
  have "validate_retained_artifacts check [] = Ok ()" for check
    by (simp add: validate_retained_artifacts_def retained_overlap_def protocol_bounds)
  then show "validate_check (sample_check name tier phase requires) = Ok ()"
    and "validate_check ((sample_check name tier phase requires)\<lparr>cp_retained_artifacts := sample_artifacts\<rparr>) = Ok ()"
    using assms sample_artifacts_valid
    by (auto simp: sample_check_def validate_check_defs check_field_defs sample_artifacts_def)
qed

theorem retained_artifacts_bounded_witness:
  "(\<Sum>a\<leftarrow>sample_artifacts. unat (ras_max_bytes a)) \<le> 2 ^ 31"
  using retained_artifacts_bounded [OF sample_check_valid(2)
      [of "''build''" CheckPhase.Build Development "[]"]]
  by simp

end
