(* ===== verification/Check_Graph.thy ===== *)
theory Check_Graph
  imports Prelude
begin

text \<open>
  The two graph searches of \<^verbatim>\<open>src/rust/executor-protocol/src/lib.rs\<close>: the depth-first search
  with marks of \<^verbatim>\<open>ensure_acyclic\<close> and the stack search \<^verbatim>\<open>reaches\<close> of
  \<^verbatim>\<open>validate_output_ownership\<close>.  A graph is the vector of successor vectors the code builds.
  The locale \<open>check_graph\<close> states what the code relies on, every successor is a node, and its
  lemmas show both searches exact: the first accepts precisely the acyclic graphs, the second
  decides reachability.
\<close>

type_synonym graph = "nat list list"

section \<open>Depth-first search with marks\<close>

datatype visit_error = CycleAt nat | IndexPanic

lemma then_do_cong [fundef_cong]:
  "r = r' \<Longrightarrow> (\<And>x. r' = Inr x \<Longrightarrow> f x = f' x) \<Longrightarrow> then_do r f = then_do r' f'"
  by (cases r') (simp_all add: then_do_def)

text \<open>
  \<open>marks ! node\<close> is 0 for a node not visited, 1 for one on the recursion stack, 2 for a
  finished one; an index out of range would be a panic.
\<close>

function visit :: "graph \<Rightarrow> nat list \<Rightarrow> nat \<Rightarrow> (visit_error, nat list) result"
  and visit_all :: "graph \<Rightarrow> nat list \<Rightarrow> nat list \<Rightarrow> (visit_error, nat list) result" where
  "visit graph marks node =
     (if length marks \<le> node \<or> length graph \<le> node then Err IndexPanic
      else if marks ! node = 1 then Err (CycleAt node)
      else if marks ! node = 2 then Ok marks
      else then_do (visit_all graph (marks[node := 1]) (graph ! node))
             (\<lambda>marks'. Ok (marks'[node := 2])))"
| "visit_all graph marks [] = Ok marks"
| "visit_all graph marks (next # rest) =
     then_do (visit graph marks next) (\<lambda>marks'. visit_all graph marks' rest)"
  by pat_completeness auto

definition unmarked :: "nat list \<Rightarrow> nat" where
  "unmarked marks = length (filter (\<lambda>m. m \<noteq> 1 \<and> m \<noteq> 2) marks)"

lemma unmarked_update_le: "v = 1 \<or> v = 2 \<Longrightarrow> unmarked (marks[i := v]) \<le> unmarked marks"
proof (induction marks arbitrary: i)
  case (Cons m marks)
  then show ?case by (cases i) (auto simp: unmarked_def le_SucI)
qed simp

lemma unmarked_update_less:
  "i < length marks \<Longrightarrow> marks ! i \<noteq> 1 \<Longrightarrow> marks ! i \<noteq> 2 \<Longrightarrow> v = 1 \<or> v = 2 \<Longrightarrow>
     unmarked (marks[i := v]) < unmarked marks"
proof (induction marks arbitrary: i)
  case (Cons m marks)
  then show ?case by (cases i) (auto simp: unmarked_def)
qed simp

lemma visit_unmarked:
  "visit_visit_all_dom (Inl (graph, marks, node)) \<Longrightarrow> visit graph marks node = Ok marks' \<Longrightarrow>
     unmarked marks' \<le> unmarked marks"
  "visit_visit_all_dom (Inr (graph, marks, nodes)) \<Longrightarrow> visit_all graph marks nodes = Ok marks' \<Longrightarrow>
     unmarked marks' \<le> unmarked marks"
proof (induction graph marks node and graph marks nodes arbitrary: marks' and marks'
    rule: visit_visit_all.pinduct)
  case (1 graph marks node)
  consider "marks' = marks"
    | x where "marks' = x[node := 2]" "unmarked x \<le> unmarked (marks[node := 1])"
    using "1.prems" "1.hyps" "1.IH" by (auto simp: visit.psimps split: if_splits)
  then show ?case
  proof cases
    case 2
    have "unmarked (x[node := 2]) \<le> unmarked x" by (simp add: unmarked_update_le)
    also have "\<dots> \<le> unmarked (marks[node := 1])" by (rule 2)
    also have "\<dots> \<le> unmarked marks" by (simp add: unmarked_update_le)
    finally show ?thesis using 2 by simp
  qed simp
next
  case (2 graph marks)
  then show ?case by (simp add: visit_all.psimps)
next
  case (3 graph marks "next" rest)
  then show ?case by (fastforce simp: visit_all.psimps dest: order_trans)
qed

termination visit
proof (relation "measures [\<lambda>x. case x of Inl (g, m, n) \<Rightarrow> unmarked m | Inr (g, m, ns) \<Rightarrow> unmarked m,
      \<lambda>x. case x of Inl (g, m, n) \<Rightarrow> 0 | Inr (g, m, ns) \<Rightarrow> Suc (length ns)]")
qed (auto simp: unmarked_update_less dest: visit_unmarked(1) le_imp_less_or_eq)

declare visit.simps [simp del]

text \<open>The driver loop of \<^verbatim>\<open>ensure_acyclic\<close>: every node, with no mark at first.\<close>

definition ensure_acyclic_marks :: "graph \<Rightarrow> (visit_error, nat list) result" where
  "ensure_acyclic_marks graph = visit_all graph (replicate (length graph) 0) [0..<length graph]"

section \<open>Search with a stack\<close>

text \<open>
  \<open>pending\<close> is the vector \<^verbatim>\<open>pending\<close> with its top at the end, \<open>seen\<close> the set; \<open>None\<close> is the
  panic of an index out of range.
\<close>

function reaches_loop :: "graph \<Rightarrow> nat \<Rightarrow> nat set \<Rightarrow> nat list \<Rightarrow> bool option" where
  "reaches_loop graph target seen pending =
     (if pending = [] then Some False
      else let index = List.last pending; rest = butlast pending in
        if index = target then Some True
        else if index \<in> seen then reaches_loop graph target seen rest
        else if length graph \<le> index then None
        else reaches_loop graph target (insert index seen) (rest @ graph ! index))"
  by pat_completeness auto

lemma unseen_insert:
  assumes "i < (n :: nat)" and "i \<notin> seen"
  shows "card ({..<n} - insert i seen) < card ({..<n} - seen)"
proof (rule psubset_card_mono)
  show "{..<n} - insert i seen \<subset> {..<n} - seen" using assms by blast
qed simp

termination reaches_loop
proof (relation "measures [\<lambda>(g, t, s, p). card ({..<length g} - s), \<lambda>(g, t, s, p). length p]",
    goal_cases)
  case 1
  show ?case by (rule wf_measures)
next
  case (2 graph target seen pending index rest)
  then show ?case by simp
next
  case (3 graph target seen pending index rest)
  then have "card ({..<length graph} - insert index seen) < card ({..<length graph} - seen)"
    by (intro unseen_insert) simp_all
  then show ?case by (simp only: in_measures prod.case simp_thms)
qed

declare reaches_loop.simps [simp del]

definition reaches :: "graph \<Rightarrow> nat \<Rightarrow> nat \<Rightarrow> bool option" where
  "reaches graph source target = reaches_loop graph target {} [source]"

section \<open>Both searches are exact\<close>

definition edges :: "graph \<Rightarrow> (nat \<times> nat) set" where
  "edges graph = {(i, j). i < length graph \<and> j \<in> set (graph ! i)}"

definition closed_black :: "graph \<Rightarrow> nat list \<Rightarrow> bool" where
  "closed_black graph marks \<longleftrightarrow>
     (\<forall>(b, s) \<in> edges graph. marks ! b = 2 \<longrightarrow> marks ! s = 2) \<and>
     (\<forall>b < length graph. marks ! b = 2 \<longrightarrow> (b, b) \<notin> (edges graph)\<^sup>+)"

lemma closed_black_edge: "closed_black graph marks \<Longrightarrow> (b, s) \<in> edges graph \<Longrightarrow> marks ! b = 2 \<Longrightarrow> marks ! s = 2"
  by (auto simp: closed_black_def)

lemma closed_black_loop:
  "closed_black graph marks \<Longrightarrow> b < length graph \<Longrightarrow> marks ! b = 2 \<Longrightarrow> (b, b) \<notin> (edges graph)\<^sup>+"
  by (simp add: closed_black_def)

lemma edges_iff: "(i, j) \<in> edges graph \<longleftrightarrow> i < length graph \<and> j \<in> set (graph ! i)"
  by (simp add: edges_def)

lemma closed_black_grey:
  "closed_black graph marks \<Longrightarrow> node < length marks \<Longrightarrow> marks ! node \<noteq> 2 \<Longrightarrow>
     closed_black graph (marks[node := 1])"
  unfolding closed_black_def by (fastforce simp: nth_list_update split: if_splits)

locale check_graph =
  fixes graph :: graph
  assumes in_range: "i < length graph \<Longrightarrow> j \<in> set (graph ! i) \<Longrightarrow> j < length graph"
begin

lemma edges_in_range: "(i, j) \<in> edges graph \<Longrightarrow> i < length graph \<and> j < length graph"
  by (auto simp: edges_def dest: in_range)

lemma black_reach:
  assumes "(a, b) \<in> (edges graph)\<^sup>*" and "closed_black graph marks" and "marks ! a = 2"
  shows "marks ! b = 2"
  using assms by (induction rule: rtrancl_induct) (auto intro: closed_black_edge)

lemma closed_black_blacken:
  assumes "closed_black graph marks" and "node < length marks" and "length marks = length graph"
    and "marks ! node \<noteq> 2" and "\<forall>s \<in> set (graph ! node). marks ! s = 2"
  shows "closed_black graph (marks[node := 2])"
proof -
  have "(node, node) \<notin> (edges graph)\<^sup>+"
  proof
    assume "(node, node) \<in> (edges graph)\<^sup>+"
    then obtain s where "(node, s) \<in> edges graph" "(s, node) \<in> (edges graph)\<^sup>*"
      by (meson tranclD)
    with assms show False using black_reach [of s node marks] by (simp add: edges_iff)
  qed
  moreover have "marks[node := 2] ! s = 2" if "(b, s) \<in> edges graph" "marks[node := 2] ! b = 2" for b s
    using that assms closed_black_edge [OF assms(1) that(1)]
    by (cases "b = node"; cases "s = node") (simp_all add: edges_iff)
  moreover have "(b, b) \<notin> (edges graph)\<^sup>+" if "b < length graph" "b \<noteq> node" "marks[node := 2] ! b = 2" for b
    using that closed_black_loop [OF assms(1)] by simp
  ultimately show ?thesis unfolding closed_black_def by blast
qed

lemma visit_ok:
  "visit g marks node = Ok marks' \<Longrightarrow> g = graph \<Longrightarrow> length marks = length graph \<Longrightarrow>
     closed_black graph marks \<Longrightarrow>
     length marks' = length graph \<and> closed_black graph marks' \<and> marks' ! node = 2 \<and>
     (\<forall>i < length graph. (marks' ! i = 1 \<longleftrightarrow> marks ! i = 1) \<and> (marks ! i = 2 \<longrightarrow> marks' ! i = 2))"
  "visit_all g marks nodes = Ok marks' \<Longrightarrow> g = graph \<Longrightarrow> length marks = length graph \<Longrightarrow>
     closed_black graph marks \<Longrightarrow> \<forall>x \<in> set nodes. x < length graph \<Longrightarrow>
     length marks' = length graph \<and> closed_black graph marks' \<and> (\<forall>x \<in> set nodes. marks' ! x = 2) \<and>
     (\<forall>i < length graph. (marks' ! i = 1 \<longleftrightarrow> marks ! i = 1) \<and> (marks ! i = 2 \<longrightarrow> marks' ! i = 2))"
proof (induction g marks node and g marks nodes arbitrary: marks' and marks'
    rule: visit_visit_all.induct)
  case (1 g marks node)
  show ?case
  proof (cases "marks ! node = 2")
    case True
    with "1.prems" show ?thesis by (auto simp: visit.simps split: if_splits)
  next
    case False
    with "1.prems" have n: "node < length graph" "marks ! node \<noteq> 1" and g: "g = graph"
      by (auto simp: visit.simps split: if_splits)
    with False "1.prems" obtain x where
      x: "visit_all g (marks[node := 1]) (g ! node) = Ok x" and m: "marks' = x[node := 2]"
      by (auto simp: visit.simps)
    have "closed_black graph (marks[node := 1])"
      using "1.prems"(3,4) False n by (intro closed_black_grey) simp_all
    then have IH: "length x = length graph" "closed_black graph x" "\<forall>y \<in> set (graph ! node). x ! y = 2"
      "\<forall>i < length graph. (x ! i = 1 \<longleftrightarrow> marks[node := 1] ! i = 1) \<and>
         (marks[node := 1] ! i = 2 \<longrightarrow> x ! i = 2)"
      using "1.IH" [OF _ _ _ x] "1.prems"(2,3) False n in_range by auto
    have "x ! node = 1" using IH(4) n "1.prems"(3) by auto
    with IH n "1.prems"(3) show ?thesis unfolding m
      by (auto simp: closed_black_blacken nth_list_update)
  qed
next
  case (2 g marks)
  then show ?case by simp
next
  case (3 g marks "next" rest)
  then obtain x where x: "visit g marks next = Ok x" "visit_all g x rest = Ok marks'"
    by auto
  note first = "3.IH"(1) [OF x(1) "3.prems"(2-4)]
  note second = "3.IH"(2) [OF x "3.prems"(2)]
  from first second "3.prems" show ?case by auto
qed

lemma visit_err:
  "visit g marks node = Err e \<Longrightarrow> g = graph \<Longrightarrow> length marks = length graph \<Longrightarrow>
     closed_black graph marks \<Longrightarrow> node < length graph \<Longrightarrow>
     \<forall>i < length graph. marks ! i = 1 \<longrightarrow> (i, node) \<in> (edges graph)\<^sup>+ \<Longrightarrow>
     \<exists>w. e = CycleAt w \<and> w < length graph \<and> (w, w) \<in> (edges graph)\<^sup>+"
  "visit_all g marks nodes = Err e \<Longrightarrow> g = graph \<Longrightarrow> length marks = length graph \<Longrightarrow>
     closed_black graph marks \<Longrightarrow> \<forall>x \<in> set nodes. x < length graph \<Longrightarrow>
     \<forall>i < length graph. marks ! i = 1 \<longrightarrow> (\<forall>x \<in> set nodes. (i, x) \<in> (edges graph)\<^sup>+) \<Longrightarrow>
     \<exists>w. e = CycleAt w \<and> w < length graph \<and> (w, w) \<in> (edges graph)\<^sup>+"
proof (induction g marks node and g marks nodes rule: visit_visit_all.induct)
  case (1 g marks node)
  show ?case
  proof (cases "marks ! node = 1")
    case True
    with "1.prems" show ?thesis by (auto simp: visit.simps split: if_splits)
  next
    case False
    with "1.prems" have n2: "marks ! node \<noteq> 2"
      by (auto simp: visit.simps split: if_splits)
    with False "1.prems" have err: "visit_all g (marks[node := 1]) (g ! node) = Err e"
      by (cases "visit_all g (marks[node := 1]) (g ! node)")
        (auto simp: visit.simps split: if_splits)
    have cb: "closed_black graph (marks[node := 1])"
      using "1.prems"(3-5) n2 by (intro closed_black_grey) simp_all
    have step: "x \<in> set (graph ! node) \<Longrightarrow> (node, x) \<in> edges graph" for x
      using "1.prems"(5) by (simp add: edges_def)
    have "\<forall>i < length graph. marks[node := 1] ! i = 1 \<longrightarrow>
        (\<forall>x \<in> set (g ! node). (i, x) \<in> (edges graph)\<^sup>+)"
      using "1.prems" step
      by (auto simp: nth_list_update intro: r_into_trancl trancl_into_trancl)
    with "1.IH" [OF _ False n2 err] "1.prems"(2,3,5) cb in_range show ?thesis by auto
  qed
next
  case (2 g marks)
  then show ?case by simp
next
  case (3 g marks "next" rest)
  show ?case
  proof (cases "visit g marks next")
    case (Inl e')
    with "3.prems" show ?thesis by (intro "3.IH"(1)) auto
  next
    case (Inr x)
    with visit_ok(1) [OF Inr "3.prems"(2-4)] "3.prems" show ?thesis
      by (intro "3.IH"(2) [OF Inr]) auto
  qed
qed

lemma initial_marks: "closed_black graph (replicate (length graph) 0)"
  by (auto simp: closed_black_def edges_iff)

lemma acyclic_iff_no_loop: "acyclic (edges graph) \<longleftrightarrow> (\<forall>w < length graph. (w, w) \<notin> (edges graph)\<^sup>+)"
  unfolding acyclic_def using edges_in_range by (meson tranclD)

lemma ensure_acyclic_marks_ok:
  "(\<exists>marks. ensure_acyclic_marks graph = Ok marks) \<longleftrightarrow> acyclic (edges graph)"
proof
  assume "\<exists>marks. ensure_acyclic_marks graph = Ok marks"
  then obtain marks where "visit_all graph (replicate (length graph) 0) [0..<length graph] = Ok marks"
    by (auto simp: ensure_acyclic_marks_def)
  from visit_ok(2) [OF this refl _ initial_marks]
  show "acyclic (edges graph)" by (auto simp: acyclic_iff_no_loop dest: closed_black_loop)
next
  assume ac: "acyclic (edges graph)"
  show "\<exists>marks. ensure_acyclic_marks graph = Ok marks"
  proof (cases "ensure_acyclic_marks graph")
    case (Inl e)
    then have "visit_all graph (replicate (length graph) 0) [0..<length graph] = Err e"
      by (simp add: ensure_acyclic_marks_def)
    from visit_err(2) [OF this refl _ initial_marks] ac show ?thesis
      by (auto simp: acyclic_def)
  qed simp
qed

lemma ensure_acyclic_marks_err:
  "ensure_acyclic_marks graph = Err e \<Longrightarrow>
     \<exists>w. e = CycleAt w \<and> w < length graph \<and> (w, w) \<in> (edges graph)\<^sup>+"
  unfolding ensure_acyclic_marks_def by (drule visit_err(2)) (auto simp: initial_marks)

lemma seen_closed_reach:
  assumes "(a, b) \<in> (edges graph)\<^sup>*" and "a \<in> seen"
    and "\<forall>s \<in> seen. s < length graph \<and> set (graph ! s) \<subseteq> seen"
  shows "b \<in> seen"
  using assms by (induction rule: rtrancl_induct) (auto simp: edges_def)

lemma reaches_loop_iff:
  "g = graph \<Longrightarrow> \<forall>s \<in> seen. s < length graph \<and> s \<noteq> target \<and> set (graph ! s) \<subseteq> seen \<union> set pending \<Longrightarrow>
   \<forall>p \<in> set pending. p < length graph \<Longrightarrow>
   reaches_loop g target seen pending =
     Some (\<exists>p \<in> seen \<union> set pending. (p, target) \<in> (edges graph)\<^sup>*)"
proof (induction g target seen pending rule: reaches_loop.induct)
  case (1 g target seen pending)
  show ?case
  proof (cases "pending = []")
    case True
    have "\<not> (\<exists>p \<in> seen. (p, target) \<in> (edges graph)\<^sup>*)"
      using "1.prems"(2) True seen_closed_reach [of _ target seen] by auto
    with True show ?thesis by (simp add: reaches_loop.simps)
  next
    case False
    define index rest where "index = List.last pending" and "rest = butlast pending"
    have p: "pending = rest @ [index]" and less: "index < length graph"
      using False "1.prems"(3) by (simp_all add: index_def rest_def)
    note unfold = reaches_loop.simps [of g target seen pending, folded index_def rest_def]
    consider "index = target" | "index \<noteq> target" "index \<in> seen" | "index \<noteq> target" "index \<notin> seen"
      by blast
    then show ?thesis
    proof cases
      case 1
      then have "reaches_loop g target seen pending = Some True" using False by (simp add: unfold)
      with 1 p show ?thesis by auto
    next
      case 2
      have eq: "seen \<union> set pending = seen \<union> set rest" using 2 p by auto
      have "reaches_loop g target seen rest =
          Some (\<exists>p \<in> seen \<union> set rest. (p, target) \<in> (edges graph)\<^sup>*)"
        using "1.prems" 2 by (intro "1.IH"(1) [OF False index_def rest_def]) (auto simp: p)
      then show ?thesis unfolding eq unfold using 2 False by simp
    next
      case 3
      have "reaches_loop g target (insert index seen) (rest @ g ! index) =
          Some (\<exists>p \<in> insert index seen \<union> set (rest @ g ! index). (p, target) \<in> (edges graph)\<^sup>*)"
        using "1.prems" 3 less in_range
        by (intro "1.IH"(2) [OF False index_def rest_def]) (auto simp: p)
      moreover have "s \<in> set (graph ! index) \<Longrightarrow> (s, target) \<in> (edges graph)\<^sup>* \<Longrightarrow>
          (index, target) \<in> (edges graph)\<^sup>*" for s
        using less by (intro converse_rtrancl_into_rtrancl [of index s]) (auto simp: edges_def)
      ultimately have "reaches_loop g target (insert index seen) (rest @ g ! index) =
          Some (\<exists>p \<in> seen \<union> set pending. (p, target) \<in> (edges graph)\<^sup>*)"
        using "1.prems"(1) by (auto simp: p)
      then show ?thesis unfolding unfold using 3 False less "1.prems"(1) by simp
    qed
  qed
qed

lemma reaches_iff:
  "source < length graph \<Longrightarrow> reaches graph source target = Some ((source, target) \<in> (edges graph)\<^sup>*)"
  by (simp add: reaches_def reaches_loop_iff)

end

end
