(* ===== verification/Plan_Contract.thy ===== *)
theory Plan_Contract
  imports Check_Contract Check_Graph
begin

text \<open>
  \<^verbatim>\<open>ExecutionPlan::validate\<close> of \<^verbatim>\<open>src/rust/executor-protocol/src/lib.rs\<close>, cut into the groups of
  statements of its body in their order: the identity of the run, containment of the log
  directory, the table of check names, selection and reuse, the compilation of the dependency
  graph, and the two graph checks.  The theorems say what the executor may rely on once a plan
  was accepted.
\<close>

section \<open>Identity of the run\<close>

definition invalid_fixture_program :: "string \<Rightarrow> bool" where
  "invalid_fixture_program program \<longleftrightarrow>
     \<not> is_absolute program \<or> 4096 < length program \<or> nul \<in> set program"

definition validate_environment_file :: "CheckPlan list \<Rightarrow> string \<Rightarrow> string \<Rightarrow> validation" where
  "validate_environment_file checks check file = steps [
     reject_if
       (\<not> list_ex (\<lambda>candidate. cp_name candidate = takeWhile (\<lambda>b. b \<noteq> CHR ''/'') check) checks \<or>
        \<not> str_starts_with file ''database-'' \<or> \<not> str_ends_with file ''.json'' \<or>
        length (components file) \<noteq> 1)
       (contract_error ''private database environment must name an exact check or check/case and run-local file''),
     validate_relative_path ''database environment'' file]"

definition validate_plan_identity :: "ExecutionPlan \<Rightarrow> validation" where
  "validate_plan_identity self = steps [
     validate_identity ''run_id'' (ep_run_id self) 128,
     reject_if (optb invalid_fixture_program (ep_fixture_program self))
       (contract_error ''fixture program must be an absolute bounded executable path''),
     validate_name ''test'' (ep_test self) 32,
     validate_digest ''source_digest'' (ep_source_digest self),
     validate_digest ''config_digest'' (ep_config_digest self),
     reject_if (ep_checks self = []) (contract_error ''executor plan has no checks''),
     reject_if (256 < length (ep_checks self))
       (contract_error ''executor plan exceeds 256 checks''),
     reject_if
       (list_ex (\<lambda>name. \<not> list_ex (\<lambda>check. cp_name check = name) (ep_checks self))
          (ep_database_checks self))
       (contract_error ''database ownership names an unknown check''),
     for_each (\<lambda>(check, file). validate_environment_file (ep_checks self) check file)
       (ep_environment_files self),
     reject_if ((ep_origin_run_id self \<noteq> None) \<noteq> (ep_proof self = Retry))
       (contract_error ''origin_run_id is required only for retry proof''),
     if_some (\<lambda>origin. validate_identity ''origin_run_id'' origin 128) (ep_origin_run_id self),
     reject_if
       (ep_readiness_eligible self \<noteq>
          (ep_requested_tier self = Release \<and> ep_proof self = Complete \<and> ep_selection self = []))
       (contract_error ''readiness_eligible does not match tier, proof, and selection''),
     reject_if (ep_proof self = Complete \<and> ep_selection self \<noteq> [])
       (contract_error ''complete proof cannot carry a check selection''),
     reject_if (ep_proof self \<noteq> Complete \<and> ep_selection self = [])
       (contract_error ''selected and retry proofs require a non-empty selection'')]"

definition validate_plan_paths :: "ExecutionPlan \<Rightarrow> validation" where
  "validate_plan_paths self =
     (if \<not> is_absolute (ep_worktree_root self) \<or> \<not> is_absolute (ep_current_dir self) \<or>
         \<not> is_absolute (ep_log_dir self)
      then Err (contract_error ''worktree_root, current_dir, and log_dir must be absolute paths'')
      else case normalize_absolute_path (ep_worktree_root self) of
        None \<Rightarrow> Err (contract_error ''worktree_root cannot escape its filesystem root'')
      | Some normalized_root \<Rightarrow>
          (case normalize_absolute_path (ep_log_dir self) of
             None \<Rightarrow> Err (contract_error ''log_dir cannot escape its filesystem root'')
           | Some normalized_log \<Rightarrow>
               reject_if (normalized_log = normalized_root \<or> \<not> prefix normalized_root normalized_log)
                 (contract_error ''log_dir must be contained below worktree_root'')))"

section \<open>Names, selection, reuse\<close>

type_synonym names = "(string, nat) btree_map"

fun names_loop :: "nat \<Rightarrow> names \<Rightarrow> CheckPlan list \<Rightarrow> (ContractError, names) result" where
  "names_loop index names [] = Ok names"
| "names_loop index names (check # checks) =
     then_do (validate_check check) (\<lambda>_.
       if bt_contains names (cp_name check)
       then Err (ContractError ''duplicate check name {:?}'' [cp_name check])
       else names_loop (Suc index) (bt_insert (cp_name check) index names) checks)"

definition validate_selection :: "names \<Rightarrow> ExecutionPlan \<Rightarrow> validation" where
  "validate_selection names self = steps [
     reject_if (\<not> distinct (ep_selection self))
       (contract_error ''selection contains duplicate checks''),
     reject_if (256 < length (ep_selection self))
       (contract_error ''selection exceeds 256 checks''),
     for_each (\<lambda>name. reject_if (\<not> bt_contains names name)
         (ContractError ''selection references unknown check {name:?}'' [name]))
       (ep_selection self),
     for_each (\<lambda>(name, cases).
       case bt_get names name of
         None \<Rightarrow> Err (ContractError ''case selection references unknown check {name:?}'' [name])
       | Some index \<Rightarrow> steps [
           reject_if (name \<notin> set (ep_selection self) \<or> \<not> CheckPlan_is_fanout (ep_checks self ! index))
             (ContractError ''case selection {name:?} must name a selected fan-out check'' [name]),
           validate_case_selection cases,
           reject_if
             (optb (\<lambda>declared. list_ex (\<lambda>c. c \<notin> set (map cs_id declared)) cases)
                (cp_cases (ep_checks self ! index)))
             (ContractError ''case selection {name:?} names an undeclared static case'' [name])])
       (ep_case_selection self)]"

definition validate_databases :: "ExecutionPlan \<Rightarrow> validation" where
  "validate_databases self = steps [
     for_each (\<lambda>(branch, database). steps [
         validate_name ''PostgreSQL branch'' branch 32,
         validate_database_name database]) (ep_postgres_databases self),
     for_each (\<lambda>check. if_some (for_each (\<lambda>c.
         reject_if
           (ep_fixture_program self = None \<and>
            optb (\<lambda>branch. \<not> bt_contains (ep_postgres_databases self) branch) (cs_postgres c))
           (ContractError ''case {:?} references an unknown PostgreSQL branch'' [cs_id c])))
         (cp_cases check)) (ep_checks self)]"

definition validate_reuse :: "names \<Rightarrow> ExecutionPlan \<Rightarrow> validation" where
  "validate_reuse names self = steps [
     for_each (\<lambda>(name, receipts).
       case bt_get names name of
         None \<Rightarrow> Err (ContractError ''reused evidence references unknown check {name:?}'' [name])
       | Some index \<Rightarrow> steps [
           reject_if
             (ep_requested_tier self < cp_tier (ep_checks self ! index) \<and>
              cp_phase (ep_checks self ! index) \<noteq> CheckPhase.Cleanup)
             (ContractError ''reused evidence references inactive check {name:?}'' [name]),
           reject_if (receipts = [])
             (ContractError ''reused check {name:?} has no artifact receipts'' [name]),
           for_each (\<lambda>receipt. steps [
               validate_relative_path ''artifact'' (ar_path receipt),
               validate_digest ''artifact sha256'' (ar_sha256 receipt)]) receipts])
       (ep_reused self),
     reject_if (ep_reused_qualifications self \<noteq> [])
       (contract_error ''qualification reuse requires verified cache receipts, not plan flags'')]"

section \<open>The dependency graph\<close>

record compiled =
  cg_graph :: graph
  cg_compiled_edges :: "(nat \<times> nat) set"
  cg_requires_edges :: "(nat \<times> nat) set"

definition push_edge :: "nat \<Rightarrow> nat \<Rightarrow> graph \<Rightarrow> graph" where
  "push_edge i j graph = graph[i := graph ! i @ [j]]"

fun dependency_loop :: "names \<Rightarrow> CheckPlan list \<Rightarrow> nat \<Rightarrow> CheckPlan \<Rightarrow> nat set \<Rightarrow> compiled
    \<Rightarrow> string list \<Rightarrow> (ContractError, compiled) result" where
  "dependency_loop names checks index check local_edges g [] = Ok g"
| "dependency_loop names checks index check local_edges g (dependency # rest) =
     (case bt_get names dependency of
        None \<Rightarrow> Err (ContractError ''check {:?} references unknown dependency {dependency:?}''
                  [cp_name check, dependency])
      | Some dep_index \<Rightarrow>
          if dep_index = index
          then Err (ContractError ''check {:?} depends on itself'' [cp_name check])
          else if dep_index \<in> local_edges
          then Err (ContractError ''check {:?} repeats dependency {dependency:?}''
                 [cp_name check, dependency])
          else if cp_phase check \<noteq> CheckPhase.Cleanup \<and>
                  cp_tier check < cp_tier (checks ! dep_index)
          then Err (ContractError ''check {:?} depends on higher-tier check {dependency:?}''
                 [cp_name check, dependency])
          else dependency_loop names checks index check (insert dep_index local_edges)
                 (g\<lparr>cg_graph := push_edge dep_index index (cg_graph g),
                    cg_compiled_edges := insert (dep_index, index) (cg_compiled_edges g)\<rparr>) rest)"

text \<open>\<^verbatim>\<open>names[dependency]\<close> cannot panic here: the loop above resolved every required name.\<close>

definition record_requires :: "names \<Rightarrow> nat \<Rightarrow> CheckPlan \<Rightarrow> compiled \<Rightarrow> compiled" where
  "record_requires names index check g =
     g\<lparr>cg_requires_edges := cg_requires_edges g \<union>
        (\<lambda>dep_index. (dep_index, index)) ` set (flatten_options (map (bt_get names) (cp_requires check)))\<rparr>"

definition validate_consumes :: "names \<Rightarrow> CheckPlan list \<Rightarrow> CheckPlan \<Rightarrow> validation" where
  "validate_consumes names checks check =
     for_each (\<lambda>consumed.
       case bt_get names (ca_check consumed) of
         None \<Rightarrow> Err (ContractError ''check {:?} consumes from unknown check {:?}''
                   [cp_name check, ca_check consumed])
       | Some producer_index \<Rightarrow>
           reject_if (ca_check consumed \<notin> set (cp_requires check) \<or>
               ca_path consumed \<notin> set (cp_produces (checks ! producer_index)))
             (ContractError ''check {:?} consumed artifact {:?} is not a required producer output''
               [cp_name check, ca_path consumed]))
       (cp_consumes check)"

fun compile_dependencies :: "names \<Rightarrow> CheckPlan list \<Rightarrow> nat \<Rightarrow> compiled \<Rightarrow> CheckPlan list
    \<Rightarrow> (ContractError, compiled) result" where
  "compile_dependencies names checks index g [] = Ok g"
| "compile_dependencies names checks index g (check # rest) =
     then_do (dependency_loop names checks index check {} g (cp_after check @ cp_requires check))
       (\<lambda>g. then_do (validate_consumes names checks check)
         (\<lambda>_. compile_dependencies names checks (Suc index) (record_requires names index check g) rest))"

fun invalidates_loop :: "names \<Rightarrow> CheckPlan list \<Rightarrow> nat \<Rightarrow> CheckPlan \<Rightarrow> compiled \<Rightarrow> string list
    \<Rightarrow> (ContractError, compiled) result" where
  "invalidates_loop names checks pre preflight g [] = Ok g"
| "invalidates_loop names checks pre preflight g (target # rest) =
     (case bt_get names target of
        None \<Rightarrow> Err (ContractError ''preflight {:?} invalidates unknown check {target:?}''
                  [cp_name preflight, target])
      | Some target_index \<Rightarrow>
          if target_index = pre
          then Err (ContractError ''preflight {:?} invalidates itself'' [cp_name preflight])
          else if cp_tier (checks ! target_index) < cp_tier preflight
          then Err (ContractError ''preflight {:?} invalidates lower-tier check {target:?}''
                 [cp_name preflight, target])
          else if (pre, target_index) \<in> cg_compiled_edges g \<and>
                  (pre, target_index) \<notin> cg_requires_edges g
          then Err (ContractError ''preflight {:?} duplicates a dependency edge to {target:?}''
                 [cp_name preflight, target])
          else invalidates_loop names checks pre preflight
                 (g\<lparr>cg_compiled_edges := insert (pre, target_index) (cg_compiled_edges g),
                    cg_graph := (if (pre, target_index) \<in> cg_requires_edges g then cg_graph g
                                 else push_edge pre target_index (cg_graph g))\<rparr>) rest)"

fun compile_invalidations :: "names \<Rightarrow> CheckPlan list \<Rightarrow> nat \<Rightarrow> compiled \<Rightarrow> CheckPlan list
    \<Rightarrow> (ContractError, compiled) result" where
  "compile_invalidations names checks index g [] = Ok g"
| "compile_invalidations names checks index g (preflight # rest) =
     then_do (if_some (\<lambda>target. reject_if (target \<notin> set (cp_invalidates preflight))
           (ContractError ''qualification {:?} must invalidate its target {target:?}''
             [cp_name preflight, target])) (cp_qualification_of preflight))
       (\<lambda>_. then_do (invalidates_loop names checks index preflight g (cp_invalidates preflight))
         (\<lambda>g. compile_invalidations names checks (Suc index) g rest))"

definition compile_graph :: "names \<Rightarrow> CheckPlan list \<Rightarrow> (ContractError, compiled) result" where
  "compile_graph names checks =
     then_do (compile_dependencies names checks 0
         \<lparr>cg_graph = replicate (length checks) [], cg_compiled_edges = {}, cg_requires_edges = {}\<rparr>
         checks)
       (\<lambda>g. compile_invalidations names checks 0 g checks)"

text \<open>An index out of range would be a panic; \<open>plan_graph_no_panic\<close> shows there is none.\<close>

definition ensure_acyclic :: "graph \<Rightarrow> CheckPlan list \<Rightarrow> validation" where
  "ensure_acyclic graph checks =
     (case ensure_acyclic_marks graph of
        Inr marks \<Rightarrow> Ok ()
      | Inl (CycleAt node) \<Rightarrow>
          Err (ContractError ''check graph contains a cycle at {:?}'' [cp_name (checks ! node)])
      | Inl IndexPanic \<Rightarrow> Err (contract_error ''index out of bounds''))"

definition check_outputs :: "CheckPlan \<Rightarrow> string list" where
  "check_outputs check = cp_produces check @ map ras_path (cp_retained_artifacts check)"

definition outputs_collide :: "CheckPlan \<Rightarrow> CheckPlan \<Rightarrow> bool" where
  "outputs_collide left right =
     list_ex (\<lambda>l. list_ex (\<lambda>r. path_starts_with l r \<or> path_starts_with r l) (check_outputs right))
       (check_outputs left)"

definition resources_conflict :: "CheckPlan \<Rightarrow> CheckPlan \<Rightarrow> bool" where
  "resources_conflict left right =
     list_ex (\<lambda>claim. list_ex (ResourceClaim_conflicts claim) (cp_resources right))
       (cp_resources left)"

definition validate_output_ownership :: "graph \<Rightarrow> CheckPlan list \<Rightarrow> validation" where
  "validate_output_ownership graph checks =
     for_each (\<lambda>left_index. for_each (\<lambda>right_index.
         let left = checks ! left_index; right = checks ! right_index in
         reject_if
           (outputs_collide left right \<and>
            \<not> (resources_conflict left right \<or>
               cp_completion left = Process \<and> reaches graph left_index right_index = Some True \<or>
               cp_completion right = Process \<and> reaches graph right_index left_index = Some True))
           (ContractError ''checks {:?} and {:?} have overlapping output paths without ordering or conflicting resource claims''
             [cp_name left, cp_name right]))
         [Suc left_index..<length checks]) [0..<length checks]"

section \<open>The plan\<close>

definition ExecutionPlan_validate :: "ExecutionPlan \<Rightarrow> validation" where
  "ExecutionPlan_validate self =
     then_do (steps [validate_plan_identity self, validate_plan_paths self]) (\<lambda>_.
     then_do (names_loop 0 [] (ep_checks self)) (\<lambda>names.
     then_do (steps [
         validate_selection names self,
         validate_databases self,
         validate_reuse names self]) (\<lambda>_.
     then_do (compile_graph names (ep_checks self)) (\<lambda>g. steps [
         ensure_acyclic (cg_graph g) (ep_checks self),
         validate_output_ownership (cg_graph g) (ep_checks self)]))))"

text \<open>The decoder is the \<^verbatim>\<open>serde_json\<close> or \<^verbatim>\<open>toml\<close> crate.\<close>

definition ExecutionPlan_from_json ::
  "(string \<Rightarrow> ExecutionPlan option) \<Rightarrow> string \<Rightarrow> (ContractError, ExecutionPlan) result" where
  "ExecutionPlan_from_json decode input =
     (if MAX_REPORT_BYTES < length input then Err (contract_error ''executor plan exceeds 2 MiB'')
      else case decode input of
             None \<Rightarrow> Err (contract_error ''invalid executor JSON: {error}'')
           | Some plan \<Rightarrow> then_do (ExecutionPlan_validate plan) (\<lambda>_. Ok plan))"

definition ExecutionPlan_from_toml ::
  "(string \<Rightarrow> ExecutionPlan option) \<Rightarrow> string \<Rightarrow> (ContractError, ExecutionPlan) result" where
  "ExecutionPlan_from_toml decode input =
     (if MAX_REPORT_BYTES < length input then Err (contract_error ''executor plan exceeds 2 MiB'')
      else case decode input of
             None \<Rightarrow> Err (contract_error ''invalid executor TOML: {error}'')
           | Some plan \<Rightarrow> then_do (ExecutionPlan_validate plan) (\<lambda>_. Ok plan))"

definition check_is_active :: "ExecutionPlan \<Rightarrow> CheckPlan \<Rightarrow> bool" where
  "check_is_active self check \<longleftrightarrow>
     cp_tier check \<le> ep_requested_tier self \<or> cp_phase check = CheckPhase.Cleanup"

definition active_checks :: "ExecutionPlan \<Rightarrow> CheckPlan list" where
  "active_checks self = filter (check_is_active self) (ep_checks self)"

section \<open>The table of names\<close>

definition names_of :: "CheckPlan list \<Rightarrow> names \<Rightarrow> bool" where
  "names_of checks names \<longleftrightarrow>
     (\<forall>n i. bt_get names n = Some i \<longleftrightarrow> i < length checks \<and> cp_name (checks ! i) = n)"

lemma names_of_Some:
  "names_of checks names \<Longrightarrow> bt_get names n = Some i \<Longrightarrow> i < length checks \<and> cp_name (checks ! i) = n"
  by (simp add: names_of_def)

lemma names_loop_ok_gen:
  "names_loop (length prior) names checks = Ok result \<Longrightarrow> bt_ok names \<Longrightarrow>
     names_of prior names \<Longrightarrow> distinct (map cp_name prior) \<Longrightarrow>
     (\<forall>c \<in> set checks. validate_check c = Ok ()) \<and> distinct (map cp_name (prior @ checks)) \<and>
     names_of (prior @ checks) result"
proof (induction checks arbitrary: prior names)
  case (Cons check checks)
  have new: "cp_name check \<notin> cp_name ` set prior"
    using Cons.prems(1,3)
    by (auto simp: bt_contains_def names_of_def in_set_conv_nth split: if_splits)
  have "names_of (prior @ [check]) (bt_insert (cp_name check) (length prior) names)"
    using Cons.prems(2,3) new
    by (auto simp: names_of_def bt_get_insert nth_append less_Suc_eq) (metis image_eqI nth_mem)
  moreover have "distinct (map cp_name (prior @ [check]))" using Cons.prems(4) new by simp
  moreover have "validate_check check = Ok ()"
    "names_loop (length (prior @ [check])) (bt_insert (cp_name check) (length prior) names) checks = Ok result"
    using Cons.prems(1) by (auto split: if_splits)
  ultimately show ?case
    using Cons.IH [of "prior @ [check]" "bt_insert (cp_name check) (length prior) names"]
      Cons.prems(2) by simp
qed simp

lemma names_loop_ok:
  assumes "names_loop 0 [] checks = Ok names"
  shows "\<forall>c \<in> set checks. validate_check c = Ok ()" and "distinct (map cp_name checks)"
    and "names_of checks names"
  using names_loop_ok_gen [of "[]" "[]" checks names] assms by (auto simp: names_of_def)

section \<open>The compiled graph\<close>

text \<open>What the graph is meant to hold: the pairs of a check and one that waits for it.\<close>

definition plan_edges :: "CheckPlan list \<Rightarrow> (nat \<times> nat) set" where
  "plan_edges checks = {(i, j). i < length checks \<and> j < length checks \<and>
     (cp_name (checks ! i) \<in> set (cp_after (checks ! j)) \<union> set (cp_requires (checks ! j)) \<or>
      cp_name (checks ! j) \<in> set (cp_invalidates (checks ! i)))}"

definition compiled_ok :: "nat \<Rightarrow> compiled \<Rightarrow> bool" where
  "compiled_ok n g \<longleftrightarrow> length (cg_graph g) = n \<and> edges (cg_graph g) = cg_compiled_edges g \<and>
     cg_requires_edges g \<subseteq> cg_compiled_edges g \<and> cg_compiled_edges g \<subseteq> {..<n} \<times> {..<n}"

lemma edges_push: "i < length graph \<Longrightarrow> edges (push_edge i j graph) = insert (i, j) (edges graph)"
  by (auto simp: edges_def push_edge_def nth_list_update split: if_splits)

lemma length_push_edge [simp]: "length (push_edge i j graph) = length graph"
  by (simp add: push_edge_def)

lemma compiled_ok_insert:
  "compiled_ok n g \<Longrightarrow> i < n \<Longrightarrow> j < n \<Longrightarrow>
     compiled_ok n (g\<lparr>cg_graph := push_edge i j (cg_graph g),
       cg_compiled_edges := insert (i, j) (cg_compiled_edges g)\<rparr>)"
  by (auto simp: compiled_ok_def edges_push)

text \<open>Edges into the check at \<open>index\<close> from the names \<open>deps\<close>, and out of it to the names.\<close>

definition into :: "names \<Rightarrow> nat \<Rightarrow> string list \<Rightarrow> (nat \<times> nat) set" where
  "into names index deps = {(i, j). j = index \<and> (\<exists>d \<in> set deps. bt_get names d = Some i)}"

definition out_of :: "names \<Rightarrow> nat \<Rightarrow> string list \<Rightarrow> (nat \<times> nat) set" where
  "out_of names index targets = {(i, j). i = index \<and> (\<exists>t \<in> set targets. bt_get names t = Some j)}"

lemma dependency_loop_ok:
  "dependency_loop names checks index check local_edges g deps = Ok g' \<Longrightarrow>
     names_of checks names \<Longrightarrow> index < length checks \<Longrightarrow> compiled_ok (length checks) g \<Longrightarrow>
     compiled_ok (length checks) g' \<and>
     cg_compiled_edges g' = cg_compiled_edges g \<union> into names index deps \<and>
     cg_requires_edges g' = cg_requires_edges g \<and>
     (\<forall>d \<in> set deps. \<exists>i. bt_get names d = Some i \<and> i \<noteq> index \<and>
        (cp_phase check \<noteq> CheckPhase.Cleanup \<longrightarrow> cp_tier (checks ! i) \<le> cp_tier check))"
proof (induction names checks index check local_edges g deps rule: dependency_loop.induct)
  case (2 names checks index check local_edges g dependency rest)
  then obtain i where i: "bt_get names dependency = Some i" "i \<noteq> index" "i \<notin> local_edges"
    "\<not> (cp_phase check \<noteq> CheckPhase.Cleanup \<and> cp_tier check < cp_tier (checks ! i))"
    by (auto split: option.splits if_splits)
  moreover have "i < length checks" using names_of_Some [OF "2.prems"(2) i(1)] by simp
  ultimately show ?case
    using "2.IH" [OF i(1-4)] "2.prems" compiled_ok_insert [of "length checks" g i index]
    by (auto simp: into_def)
qed (simp add: into_def)

lemma record_requires_ok:
  assumes "compiled_ok n g" and "into names index (cp_requires check) \<subseteq> cg_compiled_edges g"
  shows "compiled_ok n (record_requires names index check g)"
    and "cg_compiled_edges (record_requires names index check g) = cg_compiled_edges g"
  using assms
  by (force simp: compiled_ok_def record_requires_def into_def set_flatten_options)+

definition dependency_accepted :: "names \<Rightarrow> CheckPlan list \<Rightarrow> nat \<Rightarrow> bool" where
  "dependency_accepted names checks j \<longleftrightarrow>
     (\<forall>d \<in> set (cp_after (checks ! j)) \<union> set (cp_requires (checks ! j)).
        \<exists>i. bt_get names d = Some i \<and> i \<noteq> j \<and>
          (cp_phase (checks ! j) \<noteq> CheckPhase.Cleanup \<longrightarrow> cp_tier (checks ! i) \<le> cp_tier (checks ! j))) \<and>
     validate_consumes names checks (checks ! j) = Ok ()"

lemma compile_dependencies_ok:
  "compile_dependencies names checks index g rest = Ok g' \<Longrightarrow> names_of checks names \<Longrightarrow>
     rest = drop index checks \<Longrightarrow> index \<le> length checks \<Longrightarrow> compiled_ok (length checks) g \<Longrightarrow>
     compiled_ok (length checks) g' \<and>
     cg_compiled_edges g' = cg_compiled_edges g \<union>
       (\<Union>j \<in> {index..<length checks}. into names j (cp_after (checks ! j) @ cp_requires (checks ! j))) \<and>
     (\<forall>j \<in> {index..<length checks}. dependency_accepted names checks j)"
proof (induction names checks index g rest rule: compile_dependencies.induct)
  case (2 names checks index g check rest)
  have index: "index < length checks" and check: "check = checks ! index"
    and rest: "rest = drop (Suc index) checks"
    using "2.prems"(3) by (metis drop_all linorder_not_le list.distinct(1))
      (metis "2.prems"(3) drop_all Cons_nth_drop_Suc linorder_not_le list.distinct(1) list.inject)+
  obtain h where h: "dependency_loop names checks index check {} g (cp_after check @ cp_requires check) = Ok h"
    and cons: "validate_consumes names checks check = Ok ()"
    and next_ok: "compile_dependencies names checks (Suc index) (record_requires names index check h) rest = Ok g'"
    using "2.prems"(1) by auto
  note loop = dependency_loop_ok [OF h "2.prems"(2) index "2.prems"(5)]
  have req: "compiled_ok (length checks) (record_requires names index check h)"
    "cg_compiled_edges (record_requires names index check h) = cg_compiled_edges h"
    using loop record_requires_ok [of "length checks" h names index check]
    by (auto simp: into_def)
  have split: "{index..<length checks} = insert index {Suc index..<length checks}"
    using index by auto
  have "dependency_accepted names checks index"
    using loop cons by (simp add: dependency_accepted_def check)
  with "2.IH" [OF h cons next_ok "2.prems"(2) rest _ req(1)] index req(2) loop
  show ?case by (simp add: split check Un_assoc)
qed simp

definition invalidation_accepted :: "names \<Rightarrow> CheckPlan list \<Rightarrow> nat \<Rightarrow> bool" where
  "invalidation_accepted names checks i \<longleftrightarrow>
     (\<forall>t \<in> set (cp_invalidates (checks ! i)).
        \<exists>j. bt_get names t = Some j \<and> j \<noteq> i \<and> cp_tier (checks ! i) \<le> cp_tier (checks ! j))"

lemma invalidates_loop_ok:
  "invalidates_loop names checks pre preflight g targets = Ok g' \<Longrightarrow> names_of checks names \<Longrightarrow>
     pre < length checks \<Longrightarrow> compiled_ok (length checks) g \<Longrightarrow>
     compiled_ok (length checks) g' \<and>
     cg_compiled_edges g' = cg_compiled_edges g \<union> out_of names pre targets \<and>
     (\<forall>t \<in> set targets. \<exists>j. bt_get names t = Some j \<and> j \<noteq> pre \<and>
        cp_tier preflight \<le> cp_tier (checks ! j))"
proof (induction names checks pre preflight g targets rule: invalidates_loop.induct)
  case (2 names checks pre preflight g target rest)
  then obtain j where j: "bt_get names target = Some j" "j \<noteq> pre"
    "\<not> cp_tier (checks ! j) < cp_tier preflight"
    "\<not> ((pre, j) \<in> cg_compiled_edges g \<and> (pre, j) \<notin> cg_requires_edges g)"
    by (auto split: option.splits if_splits)
  have len: "j < length checks" using names_of_Some [OF "2.prems"(2) j(1)] by simp
  let ?g = "g\<lparr>cg_compiled_edges := insert (pre, j) (cg_compiled_edges g),
    cg_graph := (if (pre, j) \<in> cg_requires_edges g then cg_graph g else push_edge pre j (cg_graph g))\<rparr>"
  have "compiled_ok (length checks) ?g"
    using "2.prems"(3,4) len by (auto simp: compiled_ok_def edges_push)
  with "2.IH" [OF j(1-4)] "2.prems" j show ?case by (auto simp: out_of_def)
qed (simp add: out_of_def)

lemma compile_invalidations_ok:
  "compile_invalidations names checks index g rest = Ok g' \<Longrightarrow> names_of checks names \<Longrightarrow>
     rest = drop index checks \<Longrightarrow> index \<le> length checks \<Longrightarrow> compiled_ok (length checks) g \<Longrightarrow>
     compiled_ok (length checks) g' \<and>
     cg_compiled_edges g' = cg_compiled_edges g \<union>
       (\<Union>i \<in> {index..<length checks}. out_of names i (cp_invalidates (checks ! i))) \<and>
     (\<forall>i \<in> {index..<length checks}. invalidation_accepted names checks i \<and>
        (\<forall>t. cp_qualification_of (checks ! i) = Some t \<longrightarrow> t \<in> set (cp_invalidates (checks ! i))))"
proof (induction names checks index g rest rule: compile_invalidations.induct)
  case (2 names checks index g preflight rest)
  have index: "index < length checks" and check: "preflight = checks ! index"
    and rest: "rest = drop (Suc index) checks"
    using "2.prems"(3) by (metis drop_all linorder_not_le list.distinct(1))
      (metis "2.prems"(3) drop_all Cons_nth_drop_Suc linorder_not_le list.distinct(1) list.inject)+
  obtain h where h: "invalidates_loop names checks index preflight g (cp_invalidates preflight) = Ok h"
    and qual: "if_some (\<lambda>target. reject_if (target \<notin> set (cp_invalidates preflight))
        (ContractError ''qualification {:?} must invalidate its target {target:?}''
          [cp_name preflight, target])) (cp_qualification_of preflight) = Ok ()"
    and next_ok: "compile_invalidations names checks (Suc index) h rest = Ok g'"
    using "2.prems"(1) by auto
  note loop = invalidates_loop_ok [OF h "2.prems"(2) index "2.prems"(5)]
  have split: "{index..<length checks} = insert index {Suc index..<length checks}"
    using index by auto
  have "invalidation_accepted names checks index"
    using loop by (simp add: invalidation_accepted_def check)
  moreover have "\<forall>t. cp_qualification_of preflight = Some t \<longrightarrow> t \<in> set (cp_invalidates preflight)"
    using qual by simp
  ultimately show ?case
    using "2.IH" [OF qual h next_ok "2.prems"(2) rest _ conjunct1 [OF loop]] index loop
    by (simp add: split check Un_assoc)
qed simp

lemma into_out_of_edges:
  assumes "names_of checks names"
  shows "(\<Union>j \<in> {0..<length checks}. into names j (cp_after (checks ! j) @ cp_requires (checks ! j))) \<union>
         (\<Union>i \<in> {0..<length checks}. out_of names i (cp_invalidates (checks ! i))) = plan_edges checks"
  using assms by (force simp: names_of_def into_def out_of_def plan_edges_def)

lemma compile_graph_ok:
  assumes "compile_graph names checks = Ok g" and "names_of checks names"
  shows "compiled_ok (length checks) g" and "cg_compiled_edges g = plan_edges checks"
    and "\<forall>j < length checks. dependency_accepted names checks j"
    and "\<forall>i < length checks. invalidation_accepted names checks i"
proof -
  let ?g0 = "\<lparr>cg_graph = replicate (length checks) [], cg_compiled_edges = {}, cg_requires_edges = {}\<rparr>"
  obtain h where h: "compile_dependencies names checks 0 ?g0 checks = Ok h"
    and g: "compile_invalidations names checks 0 h checks = Ok g"
    using assms(1) by (auto simp: compile_graph_def)
  have "compiled_ok (length checks) ?g0" by (auto simp: compiled_ok_def edges_def)
  note deps = compile_dependencies_ok [OF h assms(2) _ _ this, simplified]
  then have "compiled_ok (length checks) h" by simp
  note invs = compile_invalidations_ok [OF g assms(2) _ _ this, simplified]
  show "compiled_ok (length checks) g" and "\<forall>j < length checks. dependency_accepted names checks j"
    and "\<forall>i < length checks. invalidation_accepted names checks i"
    using deps invs by auto
  show "cg_compiled_edges g = plan_edges checks"
    using deps invs into_out_of_edges [OF assms(2)] by simp
qed

text \<open>The graph the code compiles for a plan, empty when the compilation stops with an error.\<close>

definition plan_graph :: "ExecutionPlan \<Rightarrow> graph" where
  "plan_graph p =
     (case then_do (names_loop 0 [] (ep_checks p)) (\<lambda>names. compile_graph names (ep_checks p)) of
        Inr g \<Rightarrow> cg_graph g
      | Inl _ \<Rightarrow> [])"

lemma plan_graph_cases:
  "plan_graph p = [] \<or>
     length (plan_graph p) = length (ep_checks p) \<and> edges (plan_graph p) = plan_edges (ep_checks p)"
proof (cases "then_do (names_loop 0 [] (ep_checks p)) (\<lambda>names. compile_graph names (ep_checks p))")
  case (Inr g)
  then obtain names where n: "names_loop 0 [] (ep_checks p) = Ok names"
    and c: "compile_graph names (ep_checks p) = Ok g" by auto
  from compile_graph_ok(1,2) [OF c names_loop_ok(3) [OF n]] show ?thesis
    by (simp add: plan_graph_def compiled_ok_def n c)
qed (simp add: plan_graph_def)

interpretation plan: check_graph "plan_graph p" for p
proof
  fix i j
  assume "i < length (plan_graph p)" and "j \<in> set (plan_graph p ! i)"
  then have "(i, j) \<in> edges (plan_graph p)" and "plan_graph p \<noteq> []" by (auto simp: edges_iff)
  with plan_graph_cases [of p] show "j < length (plan_graph p)" by (auto simp: plan_edges_def)
qed

section \<open>What an accepted plan guarantees\<close>

lemma validate_plan_parts:
  assumes "ExecutionPlan_validate p = Ok ()"
  obtains names g where "names_loop 0 [] (ep_checks p) = Ok names"
    and "compile_graph names (ep_checks p) = Ok g" and "plan_graph p = cg_graph g"
    and "ensure_acyclic (plan_graph p) (ep_checks p) = Ok ()"
    and "validate_output_ownership (plan_graph p) (ep_checks p) = Ok ()"
    and "validate_plan_identity p = Ok ()" and "validate_plan_paths p = Ok ()"
    and "validate_selection names p = Ok ()" and "validate_reuse names p = Ok ()"
  using assms by (auto simp: ExecutionPlan_validate_def plan_graph_def)

lemma valid_plan_graph:
  assumes "ExecutionPlan_validate p = Ok ()"
  shows "length (plan_graph p) = length (ep_checks p)" and "edges (plan_graph p) = plan_edges (ep_checks p)"
proof -
  from assms obtain names g where n: "names_loop 0 [] (ep_checks p) = Ok names"
    and c: "compile_graph names (ep_checks p) = Ok g" and g: "plan_graph p = cg_graph g"
    by (rule validate_plan_parts)
  from compile_graph_ok(1,2) [OF c names_loop_ok(3) [OF n]] g
  show "length (plan_graph p) = length (ep_checks p)"
    and "edges (plan_graph p) = plan_edges (ep_checks p)" by (simp_all add: compiled_ok_def)
qed

lemma ensure_acyclic_plan:
  "ensure_acyclic (plan_graph p) (ep_checks p) = Ok () \<longleftrightarrow> acyclic (edges (plan_graph p))"
  using plan.ensure_acyclic_marks_ok [of p]
  by (auto simp: ensure_acyclic_def split: sum.splits visit_error.splits)

lemma plan_graph_no_panic: "ensure_acyclic_marks (plan_graph p) \<noteq> Err IndexPanic"
  using plan.ensure_acyclic_marks_err by blast

lemma valid_plan_acyclic:
  "ExecutionPlan_validate p = Ok () \<Longrightarrow> acyclic (plan_edges (ep_checks p))"
  by (metis validate_plan_parts ensure_acyclic_plan valid_plan_graph(2))

lemma valid_plan_names:
  assumes "ExecutionPlan_validate p = Ok ()"
  shows "distinct (map cp_name (ep_checks p))"
    and "\<forall>c \<in> set (ep_checks p). validate_check c = Ok ()"
  using assms names_loop_ok by (metis validate_plan_parts)+

lemma valid_plan_dependency:
  assumes "ExecutionPlan_validate p = Ok ()" and "c \<in> set (ep_checks p)"
    and "d \<in> set (cp_after c) \<union> set (cp_requires c)"
  shows "\<exists>e \<in> set (ep_checks p). cp_name e = d \<and>
           (cp_phase c \<noteq> CheckPhase.Cleanup \<longrightarrow> cp_tier e \<le> cp_tier c)"
proof -
  from assms(1) obtain names g where n: "names_loop 0 [] (ep_checks p) = Ok names"
    and c: "compile_graph names (ep_checks p) = Ok g"
    by (rule validate_plan_parts)
  note names = names_loop_ok(3) [OF n]
  from assms(2) obtain j where j: "j < length (ep_checks p)" "ep_checks p ! j = c"
    by (auto simp: in_set_conv_nth)
  with compile_graph_ok(3) [OF c names] assms(3) obtain i where
    "bt_get names d = Some i" "cp_phase c \<noteq> CheckPhase.Cleanup \<longrightarrow> cp_tier (ep_checks p ! i) \<le> cp_tier c"
    by (auto simp: dependency_accepted_def)
  with names_of_Some [OF names, of d i] show ?thesis by (metis nth_mem)
qed

lemma valid_plan_invalidates:
  assumes "ExecutionPlan_validate p = Ok ()" and "c \<in> set (ep_checks p)" and "t \<in> set (cp_invalidates c)"
  shows "\<exists>e \<in> set (ep_checks p). cp_name e = t \<and> cp_tier c \<le> cp_tier e"
proof -
  from assms(1) obtain names g where n: "names_loop 0 [] (ep_checks p) = Ok names"
    and c: "compile_graph names (ep_checks p) = Ok g"
    by (rule validate_plan_parts)
  note names = names_loop_ok(3) [OF n]
  from assms(2) obtain i where i: "i < length (ep_checks p)" "ep_checks p ! i = c"
    by (auto simp: in_set_conv_nth)
  with compile_graph_ok(4) [OF c names] assms(3) obtain j where
    "bt_get names t = Some j" "cp_tier c \<le> cp_tier (ep_checks p ! j)"
    by (auto simp: invalidation_accepted_def)
  with names_of_Some [OF names, of t j] show ?thesis by (metis nth_mem)
qed

lemma valid_plan_serialized:
  assumes "ExecutionPlan_validate p = Ok ()" and "i < j" and "j < length (ep_checks p)"
    and "outputs_collide (ep_checks p ! i) (ep_checks p ! j)"
  shows "resources_conflict (ep_checks p ! i) (ep_checks p ! j) \<or>
         cp_completion (ep_checks p ! i) = Process \<and> (i, j) \<in> (plan_edges (ep_checks p))\<^sup>+ \<or>
         cp_completion (ep_checks p ! j) = Process \<and> (j, i) \<in> (plan_edges (ep_checks p))\<^sup>+"
proof -
  from assms(1) have "validate_output_ownership (plan_graph p) (ep_checks p) = Ok ()"
    by (rule validate_plan_parts)
  moreover have "i < length (ep_checks p)" using assms by simp
  ultimately have
    "resources_conflict (ep_checks p ! i) (ep_checks p ! j) \<or>
     cp_completion (ep_checks p ! i) = Process \<and> reaches (plan_graph p) i j = Some True \<or>
     cp_completion (ep_checks p ! j) = Process \<and> reaches (plan_graph p) j i = Some True"
    using assms(2-4) by (auto simp: validate_output_ownership_def Let_def)
  then show ?thesis
    using assms(2,3) valid_plan_graph [OF assms(1)]
    by (auto simp: plan.reaches_iff rtrancl_eq_or_trancl)
qed

section \<open>Sample plans\<close>

definition sample_plan :: "CheckPlan list \<Rightarrow> ExecutionPlan" where
  "sample_plan checks =
     \<lparr>ep_database_checks = [], ep_fixture_program = None, ep_environment_files = [],
      ep_run_id = ''run-1'', ep_test = ''unit'', ep_worktree_root = ''/work'',
      ep_current_dir = ''/work/current'', ep_log_dir = ''/work/logs'',
      ep_requested_tier = Development, ep_readiness_eligible = False, ep_proof = Complete,
      ep_selection = [], ep_origin_run_id = None, ep_source_digest = sample_digest,
      ep_config_digest = sample_digest, ep_reused = [], ep_reused_qualifications = [],
      ep_case_selection = [], ep_postgres_databases = [], ep_checks = checks\<rparr>"

definition build_check :: CheckPlan where
  "build_check = (sample_check ''build'' Development CheckPhase.Build [])
     \<lparr>cp_retained_artifacts := sample_artifacts\<rparr>"

definition test_check :: CheckPlan where
  "test_check = (sample_check ''test'' Development CheckPhase.Check [''build''])
     \<lparr>cp_retained_artifacts := sample_artifacts\<rparr>"

lemma sample_plan_identity:
  assumes "checks \<noteq> []" and "length checks \<le> 256"
  shows "validate_plan_identity (sample_plan checks) = Ok ()"
  using assms
  by (simp add: validate_plan_identity_def sample_plan_def check_field_defs sample_digest_valid)

lemma sample_plan_paths: "validate_plan_paths (sample_plan checks) = Ok ()"
  by (simp add: validate_plan_paths_def sample_plan_def is_absolute_def normalize_absolute_path_def
      components_def segment_component_def)

lemmas plan_evaluation = sample_plan_def bt_contains_def validate_selection_def
  validate_databases_def validate_reuse_def compile_graph_def validate_consumes_def
  record_requires_def push_edge_def ensure_acyclic_def ensure_acyclic_marks_def visit.simps
  validate_output_ownership_def

lemma sample_plan_valid: "ExecutionPlan_validate (sample_plan [build_check, test_check]) = Ok ()"
proof -
  have "validate_check build_check = Ok ()" "validate_check test_check = Ok ()"
    by (simp_all add: build_check_def test_check_def sample_check_valid)
  moreover have "reaches [[Suc 0], []] 0 (Suc 0) = Some True"
    by (simp add: reaches_def reaches_loop.simps)
  moreover have "cp_name build_check = ''build''" "cp_name test_check = ''test''"
    "cp_after build_check = []" "cp_requires build_check = []" "cp_invalidates build_check = []"
    "cp_after test_check = []" "cp_requires test_check = [''build'']" "cp_invalidates test_check = []"
    "cp_consumes build_check = []" "cp_consumes test_check = []" "cp_completion build_check = Process"
    "cp_qualification_of build_check = None" "cp_qualification_of test_check = None"
    "cp_cases build_check = None" "cp_cases test_check = None"
    "cp_tier build_check = Development" "cp_tier test_check = Development"
    by (simp_all add: build_check_def test_check_def sample_check_def)
  ultimately show ?thesis
    by (simp add: ExecutionPlan_validate_def sample_plan_identity sample_plan_paths)
      (simp add: plan_evaluation)
qed

section \<open>Properties of an accepted plan\<close>

text \<open>
  C5: an accepted plan is a schedule the executor can follow: names are
  unique, every dependency and every invalidated check exists, a check never waits for a check
  of a higher tier (cleanup apart) nor invalidates one of a lower tier, and the waiting relation
  has no cycle.
\<close>

theorem valid_plan_well_formed:
  assumes "ExecutionPlan_validate p = Ok ()"
  shows "distinct (map cp_name (ep_checks p))
    \<and> (\<forall>c \<in> set (ep_checks p). \<forall>d \<in> set (cp_after c) \<union> set (cp_requires c).
         \<exists>e \<in> set (ep_checks p). cp_name e = d \<and>
           (cp_phase c \<noteq> CheckPhase.Cleanup \<longrightarrow> cp_tier e \<le> cp_tier c))
    \<and> (\<forall>c \<in> set (ep_checks p). \<forall>t \<in> set (cp_invalidates c).
         \<exists>e \<in> set (ep_checks p). cp_name e = t \<and> cp_tier c \<le> cp_tier e)
    \<and> acyclic (plan_edges (ep_checks p))"
proof (intro conjI ballI)
  show "distinct (map cp_name (ep_checks p))" by (rule valid_plan_names(1) [OF assms])
  show "acyclic (plan_edges (ep_checks p))" by (rule valid_plan_acyclic [OF assms])
qed (use valid_plan_dependency [OF assms] valid_plan_invalidates [OF assms] in blast)+

theorem valid_plan_well_formed_witness: "acyclic (plan_edges [build_check, test_check])"
  using valid_plan_well_formed [OF sample_plan_valid] by (simp add: sample_plan_def)

text \<open>
  C26: on the graph compiled from any plan the depth-first search accepts
  exactly the graphs without a cycle, and an error it reports names a check that waits for
  itself.
\<close>

theorem ensure_acyclic_exact:
  "(ensure_acyclic (plan_graph p) (ep_checks p) = Ok () \<longleftrightarrow> acyclic (edges (plan_graph p)))
   \<and> (\<forall>e. ensure_acyclic (plan_graph p) (ep_checks p) = Err e \<longrightarrow>
        (\<exists>w < length (ep_checks p). (w, w) \<in> (edges (plan_graph p))\<^sup>+ \<and>
           e = ContractError ''check graph contains a cycle at {:?}'' [cp_name (ep_checks p ! w)]))"
proof (intro conjI allI impI)
  show "ensure_acyclic (plan_graph p) (ep_checks p) = Ok () \<longleftrightarrow> acyclic (edges (plan_graph p))"
    by (rule ensure_acyclic_plan)
  fix e
  assume err: "ensure_acyclic (plan_graph p) (ep_checks p) = Err e"
  then obtain v where v: "ensure_acyclic_marks (plan_graph p) = Err v"
    by (auto simp: ensure_acyclic_def split: sum.splits)
  from plan.ensure_acyclic_marks_err [OF this] obtain w where
    w: "v = CycleAt w" "w < length (plan_graph p)" "(w, w) \<in> (edges (plan_graph p))\<^sup>+" by blast
  moreover have "w < length (ep_checks p)" using w(2) plan_graph_cases [of p] by auto
  ultimately show "\<exists>w < length (ep_checks p). (w, w) \<in> (edges (plan_graph p))\<^sup>+ \<and>
      e = ContractError ''check graph contains a cycle at {:?}'' [cp_name (ep_checks p ! w)]"
    using err v by (auto simp: ensure_acyclic_def)
qed

theorem ensure_acyclic_exact_witness:
  "acyclic (edges (plan_graph (sample_plan [build_check, test_check])))"
  using ensure_acyclic_exact [of "sample_plan [build_check, test_check]"] sample_plan_valid
  by (auto elim: validate_plan_parts)

text \<open>
  C27: two checks of an accepted plan whose outputs overlap never
  write at the same time: they hold conflicting resources, or one of them completes as a
  process and the other waits for it through the graph.
\<close>

theorem valid_plan_outputs_serialized:
  assumes "ExecutionPlan_validate p = Ok ()" and "i < j" and "j < length (ep_checks p)"
    and "outputs_collide (ep_checks p ! i) (ep_checks p ! j)"
  shows "resources_conflict (ep_checks p ! i) (ep_checks p ! j) \<or>
         cp_completion (ep_checks p ! i) = Process \<and> (i, j) \<in> (plan_edges (ep_checks p))\<^sup>+ \<or>
         cp_completion (ep_checks p ! j) = Process \<and> (j, i) \<in> (plan_edges (ep_checks p))\<^sup>+"
  by (rule valid_plan_serialized [OF assms])

theorem valid_plan_outputs_serialized_witness:
  "(0, 1) \<in> (plan_edges [build_check, test_check])\<^sup>+ \<or> (1, 0) \<in> (plan_edges [build_check, test_check])\<^sup>+"
proof -
  have "outputs_collide build_check test_check"
    by (simp add: outputs_collide_def check_outputs_def build_check_def test_check_def
        sample_check_def sample_artifacts_def)
  then show ?thesis
    using valid_plan_outputs_serialized [OF sample_plan_valid, of 0 1]
    by (auto simp: sample_plan_def resources_conflict_def build_check_def test_check_def
        sample_check_def)
qed

text \<open>
  The log directory of an accepted plan lies strictly below its
  worktree, after all \<^verbatim>\<open>.\<close> and \<^verbatim>\<open>..\<close> are resolved.
\<close>

theorem valid_plan_log_containment:
  assumes "ExecutionPlan_validate p = Ok ()"
  shows "\<exists>base below. normalize_absolute_path (ep_worktree_root p) = Some base \<and> below \<noteq> [] \<and>
           normalize_absolute_path (ep_log_dir p) = Some (base @ below) \<and>
           (\<forall>x \<in> set below. \<exists>n. x = Normal n)"
proof -
  from assms have "validate_plan_paths p = Ok ()" by (rule validate_plan_parts)
  then obtain base logs where base: "normalize_absolute_path (ep_worktree_root p) = Some base"
    and logs: "normalize_absolute_path (ep_log_dir p) = Some logs" and "logs \<noteq> base" "prefix base logs"
    by (auto simp: validate_plan_paths_def split: if_splits option.splits)
  then obtain below where below: "logs = base @ below" "below \<noteq> []" by (auto elim: prefixE)
  from normalize_absolute_path_rooted [OF base] normalize_absolute_path_rooted [OF logs] below
  have "\<forall>x \<in> set below. \<exists>n. x = Normal n" by (auto simp: rooted_def) (metis Un_iff imageE list.set_map set_append)
  with base logs below show ?thesis by blast
qed

theorem valid_plan_log_containment_witness:
  "\<exists>below. below \<noteq> [] \<and> normalize_absolute_path ''/work/logs'' = Some ([RootDir, Normal ''work''] @ below)"
  using valid_plan_log_containment [OF sample_plan_valid]
  by (auto simp: sample_plan_def normalize_absolute_path_def components_def is_absolute_def
      segment_component_def)

end
