(* ===== verification/Check_Runtime.thy ===== *)
theory Check_Runtime
  imports Progress Retention Diagnostics Plan_Contract
begin

text \<open>
  The state the runner keeps of each active check, and the functions that update it from
  process observations and outcomes: \<^verbatim>\<open>apply_process_update\<close>, \<^verbatim>\<open>refresh_execution\<close>,
  \<^verbatim>\<open>apply_outcome\<close>, the failure records, and the report they are written into,
  all of \<^verbatim>\<open>src/rust/executor-core/src/runner.rs\<close>.  A monotonic instant is a number of
  nanoseconds; the digest function is a parameter, as in the theory of diagnostics.
\<close>

section \<open>State\<close>

record CheckRuntime =
  rt_cache_key :: "string option"
  rt_completed_mono :: "nat option"
  rt_processes :: "(string, ProcessUpdate) btree_map"
  rt_plan :: CheckPlan
  rt_report :: CheckReport
  rt_failures :: "FailureIndexEntry list"
  rt_started_epoch_ms :: "u64 option"

definition rt_status :: "CheckRuntime \<Rightarrow> LeafStatus" where
  "rt_status check = kr_status (rt_report check)"

definition rt_name :: "CheckRuntime \<Rightarrow> string" where
  "rt_name check = cp_name (rt_plan check)"

definition set_status :: "LeafStatus \<Rightarrow> CheckRuntime \<Rightarrow> CheckRuntime" where
  "set_status status check = check\<lparr>rt_report := (rt_report check)\<lparr>kr_status := status\<rparr>\<rparr>"

text \<open>
  The state of an active check when the run starts: \<open>reused\<close> holds the receipts of a check whose
  evidence the plan reuses, \<open>cache_inputs\<close> the receipts of its cache inputs.
\<close>

definition new_runtime :: "CheckPlan \<Rightarrow> ArtifactReceipt list option \<Rightarrow> bool \<Rightarrow> string
    \<Rightarrow> ArtifactReceipt list \<Rightarrow> u64 \<Rightarrow> CheckRuntime" where
  "new_runtime check reused reused_qualification started_at cache_inputs now =
     (let done = (reused \<noteq> None \<or> reused_qualification);
          stamp = (if done then Some started_at else None)
      in \<lparr>rt_cache_key = None, rt_completed_mono = None, rt_processes = [], rt_plan = check,
          rt_report =
            \<lparr>kr_phase_durations = [], kr_resource_waiting = False,
             kr_display_name = cp_display_name check, kr_execution = None, kr_name = cp_name check,
             kr_tier = cp_tier check, kr_role = cp_role check, kr_phase = cp_phase check,
             kr_fingerprint = cp_fingerprint check, kr_cache_inputs = cache_inputs,
             kr_consumed_artifacts = [],
             kr_status = (if done then LeafStatus.Reused else LeafStatus.Pending),
             kr_failed_diagnostics = 0, kr_started_at = stamp, kr_finished_at = stamp,
             kr_duration_seconds = (if done then Some (Finite 0) else None),
             kr_exit = DiagnosticExit_default,
             kr_artifacts = (case reused of Some receipts \<Rightarrow> receipts | None \<Rightarrow> []),
             kr_retained_artifacts = [], kr_streams = [], kr_case_count = 0, kr_cases = [],
             kr_cases_truncated = False\<rparr>,
          rt_failures = [],
          rt_started_epoch_ms = (if done then Some now else None)\<rparr>)"

section \<open>Durations\<close>

definition seconds :: "nat \<Rightarrow> f64" where
  "seconds nanos =
     f64_div (f64_round (f64_mul
       (f64_add (f64_of_nat (nanos div 1000000000))
          (f64_div (f64_of_nat (nanos mod 1000000000)) (f64_of_nat 1000000000)))
       (Finite 1000))) (Finite 1000)"

section \<open>Failure records\<close>

definition diagnostic_exit :: "int option \<Rightarrow> DiagnosticExit" where
  "diagnostic_exit exit_code =
     (case exit_code of
        Some value \<Rightarrow>
          if value < 0
          then \<lparr>de_code = None, de_signal = (if - value < 256 then Some (of_int (- value)) else None)\<rparr>
          else \<lparr>de_code = exit_code, de_signal = None\<rparr>
      | None \<Rightarrow> \<lparr>de_code = None, de_signal = None\<rparr>)"

definition failure_log_refs :: "string \<Rightarrow> string option \<Rightarrow> string option \<Rightarrow> LogPhase option \<Rightarrow> LogRef list" where
  "failure_log_refs run check case_id phase =
     (case (check, phase) of
        (Some c, Some p) \<Rightarrow>
          map (\<lambda>stream. \<lparr>lr_run_id = run, lr_check = Some c, lr_phase = p, lr_case = case_id,
            lr_stream = stream\<rparr>) [Stdout, Stderr]
      | _ \<Rightarrow> [])"

definition failure_entry :: "(string \<Rightarrow> string) \<Rightarrow> string \<Rightarrow> string option \<Rightarrow> string option
    \<Rightarrow> LeafStatus \<Rightarrow> int option \<Rightarrow> TerminationReason option \<Rightarrow> ErrorCategory \<Rightarrow> LogPhase option
    \<Rightarrow> FailureIndexEntry" where
  "failure_entry sha256 run check case_id status exit_code reason category phase =
     (let entry = \<lparr>fie_check = check, fie_case = case_id, fie_status = status,
        fie_exit = diagnostic_exit exit_code, fie_termination_reason = reason, fie_source = None,
        fie_error_category = category, fie_expected = None, fie_actual = None,
        fie_fingerprint = [], fie_occurrences = 1,
        fie_log_refs = failure_log_refs run check case_id phase,
        fie_origin = DiagnosticOrigin.Executor, fie_coordinator = None\<rparr>
      in entry\<lparr>fie_fingerprint := diagnostic_fingerprint sha256 entry\<rparr>)"

definition failure_entry_with_reason ::
  "(string \<Rightarrow> string) \<Rightarrow> FailureIndexEntry \<Rightarrow> string option \<Rightarrow> FailureIndexEntry" where
  "failure_entry_with_reason sha256 entry reason =
     (case reason of
        None \<Rightarrow> entry
      | Some reason \<Rightarrow>
          let entry = entry\<lparr>fie_actual := Some (bounded_diagnostic_value sha256 StringValue reason)\<rparr>
          in entry\<lparr>fie_fingerprint := diagnostic_fingerprint sha256 entry\<rparr>)"

definition mentions_log_storage :: "string \<Rightarrow> bool" where
  "mentions_log_storage reason =
     list_ex (str_contains reason) [''leaf output'', ''retain leaf output'', ''sync leaf output'',
       ''log storage'', ''leaf log metadata'', ''stdout task'', ''stderr task'']"

fun leaf_failure_semantics :: "LeafStatus \<Rightarrow> int option \<Rightarrow> string option
    \<Rightarrow> TerminationReason option \<times> ErrorCategory" where
  "leaf_failure_semantics LeafStatus.Failed exit_code reason =
     (None, if exit_code \<noteq> None then ErrorCategory.ProcessExit else ErrorCategory.Internal)"
| "leaf_failure_semantics LeafStatus.TimedOut exit_code reason =
     (Some DeadlineExceeded, ErrorCategory.Timeout)"
| "leaf_failure_semantics LeafStatus.Cancelled exit_code reason =
     (Some RunCancelled, ErrorCategory.Cancellation)"
| "leaf_failure_semantics LeafStatus.Unsafe exit_code reason =
     (Some UnsafeStop,
      if optb mentions_log_storage reason then ErrorCategory.LogStorage
      else if optb (\<lambda>r. str_contains r ''event'') reason
      then ErrorCategory.StructuredEvidenceInvalid
      else ErrorCategory.Internal)"
| "leaf_failure_semantics LeafStatus.Invalidated exit_code reason = (None, ErrorCategory.Dependency)"
| "leaf_failure_semantics LeafStatus.NotMeaningful exit_code reason = (None, ErrorCategory.Dependency)"
| "leaf_failure_semantics _ exit_code reason = (None, ErrorCategory.Internal)"

section \<open>Process observations\<close>

definition update_first :: "('a \<Rightarrow> bool) \<Rightarrow> ('a \<Rightarrow> 'a) \<Rightarrow> 'a list \<Rightarrow> 'a list" where
  "update_first P f xs =
     (case List.extract P xs of None \<Rightarrow> xs | Some (before, x, after) \<Rightarrow> before @ f x # after)"

text \<open>The part of the first loop of \<^verbatim>\<open>refresh_execution\<close> that follows the cases.\<close>

definition observe_known_case :: "ProcessUpdate \<Rightarrow> CaseReport \<Rightarrow> CaseReport" where
  "observe_known_case update c =
     (let c = c\<lparr>cr_execution := Some (pu_progress update)\<rparr>
      in if cr_phases c = []
         then c\<lparr>cr_status := (case pu_status update of Some status \<Rightarrow> status | None \<Rightarrow> cr_status c),
                cr_duration_ms := xp_process_duration_ms (pu_progress update)\<rparr>
         else c)"

definition live_case :: "ProcessUpdate \<Rightarrow> string \<Rightarrow> CaseReport" where
  "live_case update case_id =
     \<lparr>cr_phases = [], cr_execution = Some (pu_progress update), cr_id = case_id,
      cr_status = (case pu_status update of Some s \<Rightarrow> s | None \<Rightarrow> LeafStatus.Running),
      cr_exit = DiagnosticExit_default, cr_duration_ms = 0, cr_streams = []\<rparr>"

definition observe_case :: "ProcessUpdate \<Rightarrow> CheckReport \<Rightarrow> CheckReport" where
  "observe_case update report =
     (case ls_case_id (pu_selector update) of
        None \<Rightarrow> report
      | Some case_id \<Rightarrow>
          if list_ex (\<lambda>c. cr_id c = case_id) (kr_cases report)
          then report\<lparr>kr_cases := update_first (\<lambda>c. cr_id c = case_id)
            (observe_known_case update) (kr_cases report)\<rparr>
          else if \<not> LeafStatus_is_terminal (kr_status report) \<and> length (kr_cases report) < 64
          then report\<lparr>kr_cases := kr_cases report @ [live_case update case_id]\<rparr>
          else report)"

definition case_phase_of :: "LogPhase \<Rightarrow> CheckPhase" where
  "case_phase_of phase =
     (case phase of LogPhase.Fixture \<Rightarrow> CheckPhase.Fixture | LogPhase.Cleanup \<Rightarrow> CheckPhase.Cleanup
      | _ \<Rightarrow> CheckPhase.Case)"

definition observe_phase :: "ProcessUpdate \<Rightarrow> CasePhaseReport list \<Rightarrow> CasePhaseReport list" where
  "observe_phase update phases =
     update_first (\<lambda>entry. cpr_phase entry = case_phase_of (ls_phase (pu_selector update)))
       (\<lambda>entry. entry\<lparr>cpr_duration_ms := xp_process_duration_ms (pu_progress update)\<rparr>) phases"

text \<open>The second loop: a case that runs with a fixture has several processes.\<close>

definition combine_case :: "ProcessUpdate list \<Rightarrow> CaseReport \<Rightarrow> CaseReport" where
  "combine_case processes c =
     (let members = filter (\<lambda>update. ls_case_id (pu_selector update) = Some (cr_id c)) processes;
          native = list_ex (\<lambda>update. ls_phase (pu_selector update) = LogPhase.Fixture \<or>
            ls_phase (pu_selector update) = LogPhase.Cleanup) members
      in if \<not> native then c
         else
           let combined = aggregate_progress members;
               c = c\<lparr>cr_phases := fold observe_phase members (cr_phases c)\<rparr>;
               c = (if cr_phases c = []
                    then c\<lparr>cr_status :=
                      (if list_ex (\<lambda>update. ls_phase (pu_selector update) = LogPhase.Cleanup \<and>
                            xp_finished (pu_progress update) = 1) members
                       then (case find (\<lambda>status. \<not> LeafStatus_is_success status)
                               (flatten_options (map pu_status members)) of
                               Some status \<Rightarrow> status | None \<Rightarrow> LeafStatus.Passed)
                       else LeafStatus.Running)\<rparr>
                    else c)
           in c\<lparr>cr_duration_ms := xp_process_duration_ms combined, cr_execution := Some combined\<rparr>)"

definition min_of :: "'a::linorder list \<Rightarrow> 'a option" where
  "min_of xs = (if xs = [] then None else Some (Min (set xs)))"

definition max_of :: "'a::linorder list \<Rightarrow> 'a option" where
  "max_of xs = (if xs = [] then None else Some (Max (set xs)))"

definition observed_duration :: "CheckRuntime \<Rightarrow> f64 option" where
  "observed_duration check =
     (let processes = map snd (rt_processes check);
          first_start = min_of (flatten_options (map pu_started_mono processes));
          last_end = (if cp_completion (rt_plan check) = Event then rt_completed_mono check
                      else max_of (flatten_options (map pu_finished_mono processes)))
      in case (first_start, last_end) of
           (Some start, Some finish) \<Rightarrow> Some (seconds (finish - start))
         | _ \<Rightarrow> None)"

definition refresh_report :: "CheckRuntime \<Rightarrow> CheckReport" where
  "refresh_report check =
     (let processes = map snd (rt_processes check);
          execution = aggregate_progress processes;
          report = (rt_report check)\<lparr>kr_resource_waiting := False\<rparr>;
          report = fold observe_case processes report;
          report = report\<lparr>kr_cases := map (combine_case processes) (kr_cases report)\<rparr>;
          report = (case xp_started_at_epoch_ms execution of
                      Some started \<Rightarrow> report\<lparr>kr_started_at := Some (iso_at (started div 1000))\<rparr>
                    | None \<Rightarrow> report);
          report = (if \<not> LeafStatus_is_terminal (kr_status report)
            then let count = saturating_of_nat (length (remdups
                       (flatten_options (map (\<lambda>u. ls_case_id (pu_selector u)) processes))))
                 in report\<lparr>kr_case_count := count,
                      kr_cases_truncated := length (kr_cases report) < unat count\<rparr>
            else case observed_duration check of
                   Some duration \<Rightarrow> report\<lparr>kr_duration_seconds := Some duration\<rparr>
                 | None \<Rightarrow> report)
      in report\<lparr>kr_execution := Some execution\<rparr>)"

definition refresh_execution :: "CheckRuntime \<Rightarrow> CheckRuntime" where
  "refresh_execution check =
     (if rt_processes check = [] then check else check\<lparr>rt_report := refresh_report check\<rparr>)"

text \<open>The form \<^verbatim>\<open>{:?}\<close> of a name, which has no character to escape.\<close>

definition debug_str :: "string \<Rightarrow> string" where
  "debug_str name = CHR 0x22 # name @ [CHR 0x22]"

definition check_index :: "CheckRuntime list \<Rightarrow> string \<Rightarrow> (ExecutorError, nat) result" where
  "check_index checks name =
     (case find (\<lambda>i. rt_name (checks ! i) = name) [0..<length checks] of
        Some i \<Rightarrow> Ok i
      | None \<Rightarrow> Err (ExecutorError (''unknown active check '' @ debug_str name)))"

definition observe_capacity :: "CapacityObservation \<Rightarrow> CapacityReport \<Rightarrow> CapacityReport" where
  "observe_capacity observation current =
     (let current = (if co_learned_capacity observation \<noteq> None
            then current\<lparr>cap_learned_capacity := co_learned_capacity observation\<rparr> else current);
          current = (if co_effective_capacity observation \<noteq> None
            then current\<lparr>cap_effective_capacity := co_effective_capacity observation\<rparr> else current)
      in if co_waited observation
         then current\<lparr>cap_capacity_wait_count := saturating_add (cap_capacity_wait_count current) 1\<rparr>
         else current)"

definition apply_process_update :: "ProcessUpdate \<Rightarrow> CheckRuntime list \<times> CapacityReport
    \<Rightarrow> (ExecutorError, CheckRuntime list \<times> CapacityReport) result" where
  "apply_process_update update = (\<lambda>(checks, capacity).
     let capacity =
       (case pu_capacity update of
          Some observation \<Rightarrow> observe_capacity observation capacity
        | None \<Rightarrow>
            if xp_finished (pu_progress update) = 1 \<and>
               xp_admitted_at_epoch_ms (pu_progress update) = None
            then observe_capacity \<lparr>co_learned_capacity = None, co_effective_capacity = None,
              co_waited = True\<rparr> capacity
            else capacity)
     in case ls_check (pu_selector update) of
          None \<Rightarrow> Err (ExecutorError ''process update has no check'')
        | Some name \<Rightarrow>
            then_do (check_index checks name) (\<lambda>index.
              Ok (checks[index := refresh_execution ((checks ! index)
                    \<lparr>rt_processes := bt_insert (pu_leaf_id update) update
                       (rt_processes (checks ! index))\<rparr>)], capacity)))"

section \<open>Outcomes\<close>

record CheckOutcome =
  oc_cache_key :: "string option"
  oc_status :: LeafStatus
  oc_exit_code :: "int option"
  oc_reason :: "string option"
  oc_artifacts :: "ArtifactReceipt list"
  oc_cache_inputs :: "ArtifactReceipt list"
  oc_consumed_artifacts :: "ArtifactReceipt list"
  oc_retained_artifacts :: "RetainedArtifactReceipt list"
  oc_streams :: "LogStreamSummary list"
  oc_case_count :: u32
  oc_cases :: "CaseReport list"
  oc_cases_truncated :: bool
  oc_failures :: "FailureIndexEntry list"
  oc_service :: "int option"
  oc_duration_seconds :: f64

text \<open>
  The service of an outcome is its process group; \<open>clock\<close> and \<open>now\<close> are the readings of the
  monotonic and the wall clock.
\<close>

definition apply_outcome :: "nat \<Rightarrow> u64 \<Rightarrow> CheckOutcome \<Rightarrow> CheckRuntime \<times> (string, int) btree_map
    \<Rightarrow> CheckRuntime \<times> (string, int) btree_map" where
  "apply_outcome clock now outcome = (\<lambda>(runtime, service_pgids).
     let started = min_of (flatten_options (map pu_started_mono (map snd (rt_processes runtime))));
         report = (rt_report runtime)\<lparr>
           kr_resource_waiting := False,
           kr_status := oc_status outcome,
           kr_finished_at := Some (iso_at now),
           kr_duration_seconds :=
             (if cp_completion (rt_plan runtime) = Event
              then map_option (\<lambda>start. seconds (clock - start)) started
              else Some (oc_duration_seconds outcome)),
           kr_exit := diagnostic_exit (oc_exit_code outcome),
           kr_artifacts := oc_artifacts outcome,
           kr_cache_inputs := oc_cache_inputs outcome,
           kr_consumed_artifacts := oc_consumed_artifacts outcome,
           kr_retained_artifacts := oc_retained_artifacts outcome,
           kr_streams := oc_streams outcome,
           kr_case_count := oc_case_count outcome,
           kr_cases := oc_cases outcome,
           kr_cases_truncated := oc_cases_truncated outcome\<rparr>
     in (runtime\<lparr>rt_completed_mono := Some clock, rt_cache_key := oc_cache_key outcome,
           rt_report := report, rt_failures := oc_failures outcome\<rparr>,
         case oc_service outcome of
           Some pgid \<Rightarrow> bt_insert (rt_name runtime) pgid service_pgids
         | None \<Rightarrow> service_pgids))"

section \<open>The report\<close>

type_synonym timing_node = "CheckPhase \<times> f64 \<times> nat option \<times> nat option"

definition timing_nodes :: "CheckRuntime \<Rightarrow> timing_node list" where
  "timing_nodes check =
     (if rt_processes check = [] then [(cp_phase (rt_plan check), Finite 0, None, None)]
      else map (\<lambda>update.
        (case ls_phase (pu_selector update) of
           LogPhase.Fixture \<Rightarrow> CheckPhase.Fixture
         | LogPhase.Cleanup \<Rightarrow> CheckPhase.Cleanup
         | LogPhase.Case \<Rightarrow> CheckPhase.Case
         | LogPhase.Discovery \<Rightarrow> CheckPhase.Setup
         | _ \<Rightarrow> cp_phase (rt_plan check),
         f64_div (f64_of_nat (unat (xp_process_duration_ms (pu_progress update)))) (Finite 1000),
         pu_started_mono update, pu_finished_mono update)) (map snd (rt_processes check)))"

type_synonym phase_times = "(CheckPhase, f64 \<times> u32 \<times> nat option \<times> nat option) btree_map"

definition add_timing_node :: "timing_node \<Rightarrow> phase_times \<Rightarrow> phase_times" where
  "add_timing_node = (\<lambda>(phase, duration, start, finish) phases.
     let (total, count, first_start, last_end) =
           (case bt_get phases phase of Some entry \<Rightarrow> entry | None \<Rightarrow> (Finite 0, 0, None, None))
     in bt_insert phase (f64_add total duration, count + 1, chain_min first_start start,
          chain_max last_end finish) phases)"

definition phase_duration_of :: "CheckPhase \<Rightarrow> f64 \<times> u32 \<times> nat option \<times> nat option \<Rightarrow> PhaseDuration" where
  "phase_duration_of phase = (\<lambda>(duration, checks, start, finish).
     \<lparr>pd_phase = phase, pd_duration_seconds = duration,
      pd_elapsed_seconds =
        (case (start, finish) of (Some s, Some e) \<Rightarrow> Some (seconds (e - s)) | _ \<Rightarrow> None),
      pd_checks = checks\<rparr>)"

definition aggregate_phase_times :: "timing_node list \<Rightarrow> PhaseDuration list" where
  "aggregate_phase_times observations =
     map (\<lambda>(phase, entry). phase_duration_of phase entry) (fold add_timing_node observations [])"

fun status_key :: "LeafStatus \<Rightarrow> string" where
  "status_key LeafStatus.Pending = ''pending''"
| "status_key LeafStatus.Running = ''running''"
| "status_key LeafStatus.Reused = ''reused''"
| "status_key LeafStatus.Passed = ''passed''"
| "status_key LeafStatus.Failed = ''failed''"
| "status_key LeafStatus.TimedOut = ''timed_out''"
| "status_key LeafStatus.Invalidated = ''invalidated''"
| "status_key LeafStatus.NotMeaningful = ''not_meaningful''"
| "status_key LeafStatus.Cancelled = ''cancelled''"
| "status_key LeafStatus.Unsafe = ''unsafe''"

definition count_status :: "CheckReport \<Rightarrow> (string, u32) btree_map \<Rightarrow> (string, u32) btree_map" where
  "count_status check counts =
     bt_insert (status_key (kr_status check))
       ((case bt_get counts (status_key (kr_status check)) of Some n \<Rightarrow> n | None \<Rightarrow> 0) + 1) counts"

definition source_failure :: "(string \<Rightarrow> string) \<Rightarrow> string \<Rightarrow> bool \<Rightarrow> FailureIndexEntry" where
  "source_failure sha256 run unsafe =
     failure_entry sha256 run None None
       (if unsafe then LeafStatus.Unsafe else LeafStatus.Failed) None
       (if unsafe then Some UnsafeStop else None) ErrorCategory.SourceChanged None"

text \<open>The sum of the structured failures of each check.\<close>

definition count_failure :: "FailureIndexEntry \<Rightarrow> (string, u32) btree_map \<Rightarrow> (string, u32) btree_map" where
  "count_failure failure counts =
     (case fie_check failure of
        Some check \<Rightarrow>
          if fie_origin failure \<noteq> DiagnosticOrigin.Executor
          then bt_insert check (saturating_add
                 (case bt_get counts check of Some n \<Rightarrow> n | None \<Rightarrow> 0) (fie_occurrences failure)) counts
          else counts
      | None \<Rightarrow> counts)"

definition finish_check_report :: "(string, u32) btree_map \<Rightarrow> CheckRuntime \<Rightarrow> CheckReport" where
  "finish_check_report failed_by_check check =
     (let failed = (case bt_get failed_by_check (kr_name (rt_report check)) of
                      Some n \<Rightarrow> n | None \<Rightarrow> 0);
          report = (rt_report check)\<lparr>
            kr_phase_durations := aggregate_phase_times (timing_nodes check),
            kr_failed_diagnostics := failed\<rparr>
      in if 0 < failed \<and> LeafStatus_is_success (kr_status report)
         then report\<lparr>kr_status := LeafStatus.Failed\<rparr> else report)"

definition waiting_processes :: "CheckRuntime list \<Rightarrow> u64" where
  "waiting_processes checks =
     (\<Sum>execution\<leftarrow>flatten_options (map (\<lambda>check. kr_execution (rt_report check)) checks).
        ucast (xp_waiting execution))"

fun DiagnosticParseError_display :: "DiagnosticParseError \<Rightarrow> string" where
  "DiagnosticParseError_display InvalidContext = ''diagnostic execution context is invalid''"
| "DiagnosticParseError_display InvalidReport = ''declared structured diagnostic report is invalid''"
| "DiagnosticParseError_display InvalidEvent = ''structured diagnostic event is invalid''"
| "DiagnosticParseError_display LimitExceeded = ''structured diagnostic evidence exceeds a safety bound''"

definition normalize_failures ::
  "(string \<Rightarrow> string) \<Rightarrow> FailureIndexEntry list \<Rightarrow> (ExecutorError, NormalizedDiagnostics) result" where
  "normalize_failures sha256 failures =
     (case normalize_diagnostics sha256 failures of
        Inl e \<Rightarrow> Err (ExecutorError (''cannot normalize diagnostics: '' @ DiagnosticParseError_display e))
      | Inr normalized \<Rightarrow> Ok normalized)"

text \<open>Writing the file and publishing the observation are the caller's.\<close>

definition write_report ::
  "(string \<Rightarrow> string) \<Rightarrow>
   ExecutionPlan \<Rightarrow> CheckRuntime list \<Rightarrow> CapacityReport \<Rightarrow> string \<Rightarrow> nat \<Rightarrow> RunStatus \<Rightarrow>
   string option \<Rightarrow> bool \<Rightarrow> bool \<Rightarrow> (ExecutorError, ExecutionReport) result" where
  "write_report sha256 plan checks capacity started_at elapsed_nanos status finished_at
     source_changed source_error =
     (let failures = concat (map rt_failures checks);
          failures = (if source_changed
            then failures @ [source_failure sha256 (ep_run_id plan) source_error] else failures);
          candidate_truncated = (MAX_DIAGNOSTIC_EVENTS < length failures)
      in then_do (normalize_failures sha256 (take MAX_DIAGNOSTIC_EVENTS failures)) (\<lambda>normalized.
        let entries = nd_entries normalized;
            check_reports = map (finish_check_report (fold count_failure entries [])) checks;
            failed = (\<Sum>check\<leftarrow>check_reports. kr_failed_diagnostics check)
        in Ok \<lparr>er_run_id = ep_run_id plan, er_test = ep_test plan,
             er_requested_tier = ep_requested_tier plan,
             er_readiness_eligible = ep_readiness_eligible plan, er_proof = ep_proof plan,
             er_selection = ep_selection plan, er_origin_run_id = ep_origin_run_id plan,
             er_status = (if status = RunStatus.Passed \<and> 0 < failed then RunStatus.Failed else status),
             er_started_at = started_at, er_finished_at = finished_at,
             er_duration_seconds = seconds elapsed_nanos,
             er_source_digest = ep_source_digest plan, er_config_digest = ep_config_digest plan,
             er_source_changed = source_changed,
             er_capacity = capacity\<lparr>cap_capacity_wait_count :=
               saturating_add (cap_capacity_wait_count capacity) (waiting_processes checks)\<rparr>,
             er_counts = fold count_status check_reports report_count_template,
             er_failed_diagnostics = failed,
             er_checks = check_reports,
             er_phase_durations = aggregate_phase_times (concat (map timing_nodes checks)),
             er_failure_index = entries,
             er_failure_index_truncated = candidate_truncated \<or> nd_truncated normalized\<rparr>))"

section \<open>The counts of a written report\<close>

lemma status_key_leaf_name: "status_key s = report_leaf_name s"
  by (cases s) simp_all

lemma bt_insert_present:
  "bt_ok m \<Longrightarrow> bt_get m k = Some v \<Longrightarrow> bt_insert k (f v) m = bt_modify k f m"
proof (induction m)
  case (Cons p m)
  obtain k' v' where p: "p = (k', v')" by (cases p)
  have ok: "bt_ok m" and above: "\<forall>x \<in> set m. k' < fst x" using Cons.prems(1) by (auto simp: bt_ok_def p)
  show ?case
  proof (cases "k = k'")
    case True
    have "fst x \<noteq> k" if "x \<in> set m" for x using above that True by fastforce
    then have "bt_modify k f m = m" by (auto simp: bt_modify_def intro: map_idI)
    with True Cons.prems(2) p show ?thesis by (simp add: bt_modify_def)
  next
    case False
    with Cons.prems(2) p have get: "bt_get m k = Some v" by simp
    then have "k \<in> fst ` set m" by (metis bt_get_None option.distinct(1))
    with above have "k' < k" by auto
    with False Cons.IH [OF ok get] p show ?thesis by (simp add: bt_modify_def)
  qed
qed simp

lemma report_count_template_ok: "bt_ok report_count_template"
  by (simp add: report_count_template_def leaf_names_def bt_ok_def)

lemma count_status_check:
  assumes "bt_ok counts" and "\<forall>s. bt_get counts (report_leaf_name s) \<noteq> None"
  shows "count_status check counts = count_check check counts"
proof -
  obtain n where n: "bt_get counts (report_leaf_name (kr_status check)) = Some n"
    using assms(2) by blast
  then show ?thesis
    using bt_insert_present [OF assms(1) n, of "\<lambda>n. n + 1"]
    by (simp add: count_status_def count_check_def status_key_leaf_name)
qed

lemma count_check_keeps:
  "bt_ok counts \<Longrightarrow> bt_ok (count_check check counts)"
  "\<forall>s. bt_get counts (report_leaf_name s) \<noteq> None \<Longrightarrow>
     bt_get (count_check check counts) (report_leaf_name s) \<noteq> None"
  by (auto simp: count_check_def bt_get_modify)

lemma count_statuses:
  "bt_ok counts \<Longrightarrow> \<forall>s. bt_get counts (report_leaf_name s) \<noteq> None \<Longrightarrow>
     fold count_status checks counts = fold count_check checks counts"
proof (induction checks arbitrary: counts)
  case (Cons check checks)
  have "fold count_status checks (count_check check counts) = fold count_check checks (count_check check counts)"
    by (rule Cons.IH) (use Cons.prems count_check_keeps in blast)+
  with Cons.prems show ?case by (simp add: count_status_check)
qed simp

lemma written_counts: "fold count_status checks report_count_template = calculated_counts checks"
  unfolding calculated_counts_def
  by (rule count_statuses) (simp_all add: report_count_template_ok report_count_template_get)

lemma finish_check_report_failed:
  "0 < kr_failed_diagnostics (finish_check_report m check) \<Longrightarrow>
     \<not> LeafStatus_is_success (kr_status (finish_check_report m check))"
  by (auto simp: finish_check_report_def Let_def LeafStatus_is_success_def split: option.splits)

lemma write_report_fields:
  assumes "write_report sha256 plan checks capacity started_at nanos status finished_at
             source_changed source_error = Ok report"
  shows "\<exists>m. er_checks report = map (finish_check_report m) checks"
    and "er_counts report = fold count_status (er_checks report) report_count_template"
    and "er_failed_diagnostics report = (\<Sum>check\<leftarrow>er_checks report. kr_failed_diagnostics check)"
    and "er_status report =
           (if status = RunStatus.Passed \<and> 0 < er_failed_diagnostics report then RunStatus.Failed else status)"
    and "er_phase_durations report = aggregate_phase_times (concat (map timing_nodes checks))"
  using assms by (auto simp: write_report_def Let_def)

text \<open>
  A report the runner writes agrees with itself the way the report
  contract demands: its counts are the counts of the check states, no check that has structured
  failures is reported as successful, and a run with failed diagnostics is never reported as
  passed.
\<close>

theorem write_report_consistent:
  assumes "write_report sha256 plan checks capacity started_at nanos status finished_at
             source_changed source_error = Ok report"
  shows "er_counts report = calculated_counts (er_checks report)
    \<and> (\<forall>check \<in> set (er_checks report). 0 < kr_failed_diagnostics check \<longrightarrow>
         \<not> LeafStatus_is_success (kr_status check))
    \<and> (er_status report = RunStatus.Passed \<longrightarrow> er_failed_diagnostics report = 0)"
proof (intro conjI)
  note fields = write_report_fields [OF assms]
  show "er_counts report = calculated_counts (er_checks report)" by (simp add: fields(2) written_counts)
  show "\<forall>check \<in> set (er_checks report). 0 < kr_failed_diagnostics check \<longrightarrow>
      \<not> LeafStatus_is_success (kr_status check)"
    using fields(1) finish_check_report_failed by fastforce
  show "er_status report = RunStatus.Passed \<longrightarrow> er_failed_diagnostics report = 0"
    using fields(4) by (auto simp: word_gt_0 split: if_splits)
qed

section \<open>The phase times of a written report\<close>

definition node_count :: "CheckPhase \<Rightarrow> timing_node list \<Rightarrow> nat" where
  "node_count phase nodes = length (filter (\<lambda>n. fst n = phase) nodes)"

definition phase_count :: "phase_times \<Rightarrow> CheckPhase \<Rightarrow> u32" where
  "phase_count phases phase =
     (case bt_get phases phase of Some (secs, n, start, finish) \<Rightarrow> n | None \<Rightarrow> 0)"

lemma add_timing_node_ok: "bt_ok phases \<Longrightarrow> bt_ok (add_timing_node n phases)"
  by (auto simp: add_timing_node_def split: prod.splits)

lemma phase_count_add:
  "bt_ok phases \<Longrightarrow>
     phase_count (add_timing_node n phases) phase =
       phase_count phases phase + (if fst n = phase then 1 else 0)"
  "bt_ok phases \<Longrightarrow>
     bt_get (add_timing_node n phases) phase = None \<longleftrightarrow> bt_get phases phase = None \<and> fst n \<noteq> phase"
  by (auto simp: phase_count_def add_timing_node_def bt_get_insert split: prod.splits option.splits)

lemma fold_timing_nodes:
  "bt_ok phases \<Longrightarrow> bt_ok (fold add_timing_node nodes phases) \<and>
     phase_count (fold add_timing_node nodes phases) phase =
       phase_count phases phase + of_nat (node_count phase nodes) \<and>
     (bt_get (fold add_timing_node nodes phases) phase = None \<longleftrightarrow>
        bt_get phases phase = None \<and> node_count phase nodes = 0)"
proof (induction nodes arbitrary: phases)
  case (Cons n nodes)
  from Cons.IH [OF add_timing_node_ok [OF Cons.prems, of n]] Cons.prems show ?case
    by (simp add: phase_count_add node_count_def)
qed (simp add: node_count_def)

lemmas timing_table = fold_timing_nodes [OF bt_ok_Nil, simplified]

lemma find_key: "find (\<lambda>x. key x = k) (map (\<lambda>(k, v). mk k v) m) = map_option (mk k) (map_of m k)"
  if "\<And>k v. key (mk k v) = k"
  by (induction m) (auto simp: that)

lemma find_distinct:
  "x \<in> set xs \<Longrightarrow> distinct (map f xs) \<Longrightarrow> find (\<lambda>y. f y = f x) xs = Some x"
  by (induction xs) (auto simp: image_iff)

lemma phase_duration_of_simps [simp]:
  "pd_phase (phase_duration_of phase entry) = phase"
  "pd_checks (phase_duration_of phase entry) = fst (snd entry)"
  by (simp_all add: phase_duration_of_def split: prod.splits)

lemma aggregate_find:
  "find (\<lambda>pd. pd_phase pd = phase) (aggregate_phase_times nodes) =
     map_option (phase_duration_of phase) (bt_get (fold add_timing_node nodes []) phase)"
  unfolding aggregate_phase_times_def by (rule find_key) simp

lemma aggregate_find_None:
  "node_count phase nodes = 0 \<Longrightarrow> find (\<lambda>pd. pd_phase pd = phase) (aggregate_phase_times nodes) = None"
  using timing_table [of nodes phase] by (simp add: aggregate_find)

lemma aggregate_find_Some:
  assumes "node_count phase nodes \<noteq> 0"
  shows "\<exists>pd. find (\<lambda>pd. pd_phase pd = phase) (aggregate_phase_times nodes) = Some pd \<and>
           pd_checks pd = of_nat (node_count phase nodes)"
proof -
  from timing_table [of nodes phase] assms obtain entry where
    e: "bt_get (fold add_timing_node nodes []) phase = Some entry" by auto
  moreover have "fst (snd entry) = of_nat (node_count phase nodes)"
    using timing_table [of nodes phase] e by (simp add: phase_count_def split: prod.splits)
  ultimately show ?thesis by (simp add: aggregate_find)
qed

lemma aggregate_nonempty: "nodes \<noteq> [] \<Longrightarrow> aggregate_phase_times nodes \<noteq> []"
  using timing_table [of nodes "fst (hd nodes)"]
  by (cases nodes) (auto simp: aggregate_phase_times_def node_count_def)

lemma timing_nodes_nonempty: "timing_nodes check \<noteq> []"
  by (auto simp: timing_nodes_def)

lemma finish_check_report_phases:
  "kr_phase_durations (finish_check_report m check) = aggregate_phase_times (timing_nodes check)"
  by (auto simp: finish_check_report_def Let_def)

lemma phase_step_count:
  "fst (phase_step phase (finish_check_report m check) (n, secs)) =
     n + of_nat (node_count phase (timing_nodes check))"
proof (cases "node_count phase (timing_nodes check) = 0")
  case True
  then show ?thesis
    using aggregate_find_None [of phase "timing_nodes check"] aggregate_nonempty [OF timing_nodes_nonempty]
    by (simp add: phase_step_def finish_check_report_phases)
next
  case False
  then show ?thesis
    using aggregate_find_Some [of phase "timing_nodes check"]
    by (auto simp: phase_step_def finish_check_report_phases)
qed

lemma phase_fold_count:
  "fst (fold (phase_step phase) (map (finish_check_report m) checks) acc) =
     fst acc + of_nat (node_count phase (concat (map timing_nodes checks)))"
proof (induction checks arbitrary: acc)
  case (Cons check checks)
  then show ?case
    using phase_step_count [of phase m check "fst acc" "snd acc"]
    by (simp add: node_count_def add.assoc)
qed (simp add: node_count_def)

text \<open>
  The phase totals of a written report count exactly what the report
  contract recomputes from the checks of the report: the number of processes (or of checks
  without any) observed in each phase, and every phase is listed once.
\<close>

theorem write_report_phase_counts:
  assumes "write_report sha256 plan checks capacity started_at nanos status finished_at
             source_changed source_error = Ok report"
    and "phase \<in> set (er_phase_durations report)"
  shows "fst (fold (phase_step (pd_phase phase)) (er_checks report) (0, Finite 0)) = pd_checks phase
    \<and> distinct (map pd_phase (er_phase_durations report))"
proof -
  let ?nodes = "concat (map timing_nodes checks)"
  note durations = write_report_fields(5) [OF assms(1)]
  note reports = write_report_fields(1) [OF assms(1)]
  have keys: "map pd_phase (aggregate_phase_times ?nodes) = map fst (fold add_timing_node ?nodes [])"
    by (auto simp: aggregate_phase_times_def)
  have distinct: "distinct (map pd_phase (aggregate_phase_times ?nodes))"
    unfolding keys using timing_table by (intro bt_distinct) blast
  have mem: "phase \<in> set (aggregate_phase_times ?nodes)" using assms(2) durations by simp
  then have found: "find (\<lambda>pd. pd_phase pd = pd_phase phase) (aggregate_phase_times ?nodes) = Some phase"
    using distinct by (rule find_distinct)
  then have "node_count (pd_phase phase) ?nodes \<noteq> 0" using aggregate_find_None by fastforce
  then have "pd_checks phase = of_nat (node_count (pd_phase phase) ?nodes)"
    using aggregate_find_Some [of "pd_phase phase" ?nodes] found by auto
  with reports distinct durations show ?thesis by (auto simp: phase_fold_count)
qed

section \<open>Live cases\<close>

text \<open>The case ids the processes of a check name, each once.\<close>

definition process_cases :: "CheckRuntime \<Rightarrow> string list" where
  "process_cases check =
     remdups (flatten_options (map (\<lambda>u. ls_case_id (pu_selector u)) (map snd (rt_processes check))))"

definition cases_ok :: "string set \<Rightarrow> CaseReport list \<Rightarrow> bool" where
  "cases_ok ids cases \<longleftrightarrow> distinct (map cr_id cases) \<and> set (map cr_id cases) \<subseteq> ids \<and> length cases \<le> 64"

lemma update_first_ids:
  "(\<And>x. g (f x) = g x) \<Longrightarrow> map g (update_first P f xs) = map g xs"
  by (auto simp: update_first_def extract_def split: option.splits list.splits)
    (metis dropWhile_eq_Cons_conv map_append list.simps(9) takeWhile_dropWhile_id)

lemma observe_case_ids:
  assumes "cases_ok ids (kr_cases report)" and "\<forall>case_id. ls_case_id (pu_selector u) = Some case_id \<longrightarrow> case_id \<in> ids"
    and "\<not> LeafStatus_is_terminal (kr_status report)"
  shows "cases_ok ids (kr_cases (observe_case u report)) \<and> kr_status (observe_case u report) = kr_status report"
proof (cases "ls_case_id (pu_selector u)")
  case None
  with assms show ?thesis by (simp add: observe_case_def)
next
  case (Some case_id)
  show ?thesis
  proof (cases "list_ex (\<lambda>c. cr_id c = case_id) (kr_cases report)")
    case True
    let ?cases = "update_first (\<lambda>c. cr_id c = case_id) (observe_known_case u) (kr_cases report)"
    have "map cr_id ?cases = map cr_id (kr_cases report)"
      by (rule update_first_ids) (simp add: observe_known_case_def Let_def)
    moreover from this have "length ?cases = length (kr_cases report)" by (metis length_map)
    ultimately show ?thesis using assms(1) Some True by (simp add: observe_case_def cases_ok_def)
  next
    case False
    then have "case_id \<notin> cr_id ` set (kr_cases report)" by (auto simp: list_ex_iff)
    with False assms Some show ?thesis
      by (simp add: observe_case_def cases_ok_def live_case_def)
  qed
qed

lemma observe_cases_ids:
  "cases_ok ids (kr_cases report) \<Longrightarrow>
   \<forall>u \<in> set us. \<forall>case_id. ls_case_id (pu_selector u) = Some case_id \<longrightarrow> case_id \<in> ids \<Longrightarrow>
   \<not> LeafStatus_is_terminal (kr_status report) \<Longrightarrow>
   cases_ok ids (kr_cases (fold observe_case us report)) \<and>
   kr_status (fold observe_case us report) = kr_status report"
proof (induction us arbitrary: report)
  case (Cons u us)
  from observe_case_ids [OF Cons.prems(1) _ Cons.prems(3), of u] Cons.prems(2)
  have "cases_ok ids (kr_cases (observe_case u report))" "kr_status (observe_case u report) = kr_status report"
    by auto
  with Cons.IH [of "observe_case u report"] Cons.prems show ?case by simp
qed simp

lemma combine_case_id [simp]: "cr_id (combine_case ps c) = cr_id c"
  by (simp add: combine_case_def Let_def)

lemma refresh_cases:
  assumes "rt_processes check \<noteq> []" and "\<not> LeafStatus_is_terminal (rt_status check)"
    and "cases_ok (set (process_cases check)) (kr_cases (rt_report check))"
  shows "cases_ok (set (process_cases check)) (kr_cases (rt_report (refresh_execution check)))"
    and "rt_status (refresh_execution check) = rt_status check"
    and "kr_case_count (rt_report (refresh_execution check)) = saturating_of_nat (length (process_cases check))"
    and "kr_cases_truncated (rt_report (refresh_execution check)) \<longleftrightarrow>
           length (kr_cases (rt_report (refresh_execution check))) <
             unat (kr_case_count (rt_report (refresh_execution check)))"
proof -
  let ?ps = "map snd (rt_processes check)"
  let ?r0 = "(rt_report check)\<lparr>kr_resource_waiting := False\<rparr>"
  let ?r1 = "fold observe_case ?ps ?r0"
  have ids: "\<forall>u \<in> set ?ps. \<forall>case_id. ls_case_id (pu_selector u) = Some case_id \<longrightarrow>
      case_id \<in> set (process_cases check)"
    by (force simp: process_cases_def set_flatten_options)
  have r1: "cases_ok (set (process_cases check)) (kr_cases ?r1)" "kr_status ?r1 = rt_status check"
    using observe_cases_ids [of "set (process_cases check)" ?r0 ?ps] ids assms(2,3)
    by (simp_all add: rt_status_def)
  have live: "\<not> LeafStatus_is_terminal (kr_status ?r1)" using r1(2) assms(2) by simp
  define r where "r = refresh_report check"
  have fields: "kr_cases r = map (combine_case ?ps) (kr_cases ?r1) \<and> kr_status r = kr_status ?r1 \<and>
      kr_case_count r = saturating_of_nat (length (process_cases check)) \<and>
      kr_cases_truncated r = (length (kr_cases ?r1) < unat (kr_case_count r))"
    using live
    by (cases "xp_started_at_epoch_ms (aggregate_progress ?ps)")
      (simp_all add: r_def refresh_report_def Let_def process_cases_def)
  then have r: "rt_report (refresh_execution check) = r"
      "kr_cases r = map (combine_case ?ps) (kr_cases ?r1)" "kr_status r = kr_status ?r1"
      "kr_case_count r = saturating_of_nat (length (process_cases check))"
      "kr_cases_truncated r = (length (kr_cases ?r1) < unat (kr_case_count r))"
    using assms(1) by (simp_all add: refresh_execution_def r_def)
  show "cases_ok (set (process_cases check)) (kr_cases (rt_report (refresh_execution check)))"
    using r1(1) by (simp add: r cases_ok_def comp_def)
  show "rt_status (refresh_execution check) = rt_status check" using r1(2) by (simp add: r rt_status_def)
  show "kr_case_count (rt_report (refresh_execution check)) = saturating_of_nat (length (process_cases check))"
    by (simp add: r)
  show "kr_cases_truncated (rt_report (refresh_execution check)) \<longleftrightarrow>
      length (kr_cases (rt_report (refresh_execution check))) <
        unat (kr_case_count (rt_report (refresh_execution check)))"
    by (simp add: r)
qed

text \<open>
  While a check runs, the refreshed report keeps at most 64 cases, each of
  them once and each of them seen in a process, and its case count and truncation flag satisfy
  the report contract: the count is the number of distinct cases seen, at least the number
  listed, and the flag is set exactly when cases are missing.
\<close>

theorem refresh_live_cases:
  assumes "rt_processes check \<noteq> []" and "\<not> LeafStatus_is_terminal (rt_status check)"
    and "cases_ok (set (process_cases check)) (kr_cases (rt_report check))"
    and "length (process_cases check) < 2 ^ 32"
  defines "report \<equiv> rt_report (refresh_execution check)"
  shows "cases_ok (set (process_cases check)) (kr_cases report)
    \<and> unat (kr_case_count report) = length (process_cases check)
    \<and> length (kr_cases report) \<le> unat (kr_case_count report)
    \<and> (\<not> kr_cases_truncated report \<longrightarrow> unat (kr_case_count report) = length (kr_cases report))"
proof -
  note facts = refresh_cases [OF assms(1-3)]
  have count: "unat (kr_case_count report) = length (process_cases check)"
    using assms(4) by (simp add: report_def facts(3) unat_saturating_of_nat)
  have "length (kr_cases report) = card (set (map cr_id (kr_cases report)))"
    using facts(1) by (metis cases_ok_def distinct_card length_map report_def)
  also have "\<dots> \<le> card (set (process_cases check))"
    using facts(1) by (intro card_mono) (simp_all add: cases_ok_def report_def)
  also have "\<dots> = length (process_cases check)"
    by (rule distinct_card) (simp add: process_cases_def)
  finally show ?thesis using facts(1,4) count by (simp add: report_def)
qed

section \<open>Sample states\<close>

definition sample_runtime :: CheckRuntime where
  "sample_runtime =
     set_status LeafStatus.Running
       (new_runtime (sample_check ''test'' Development CheckPhase.Check []) None False [] [] 0)
       \<lparr>rt_processes := [(''test/case/one'', sample_update\<lparr>pu_selector :=
          \<lparr>ls_check = Some ''test'', ls_phase = LogPhase.Case, ls_case_id = Some ''one''\<rparr>\<rparr>)]\<rparr>"

definition sample_write :: "CheckRuntime list \<Rightarrow> (ExecutorError, ExecutionReport) result" where
  "sample_write checks =
     write_report (\<lambda>_. replicate 32 (CHR ''x'')) (sample_plan []) checks
       \<lparr>cap_learned_capacity = None, cap_effective_capacity = None, cap_capacity_wait_count = 0\<rparr>
       [] 0 RunStatus.Running None False False"

lemma sample_write_ok: "\<exists>report. sample_write [sample_runtime] = Ok report"
  by (simp add: sample_write_def write_report_def Let_def normalize_failures_def normalize_diagnostics_def
      sample_runtime_def set_status_def new_runtime_def)

theorem write_report_consistent_witness:
  "\<exists>report. sample_write [sample_runtime] = Ok report \<and>
     er_counts report = calculated_counts (er_checks report)"
  using sample_write_ok write_report_consistent
  unfolding sample_write_def by blast

theorem write_report_phase_counts_witness:
  "\<exists>report phase. sample_write [sample_runtime] = Ok report \<and> phase \<in> set (er_phase_durations report) \<and>
     fst (fold (phase_step (pd_phase phase)) (er_checks report) (0, Finite 0)) = pd_checks phase"
proof -
  obtain report where r: "sample_write [sample_runtime] = Ok report" using sample_write_ok by blast
  then have "er_phase_durations report \<noteq> []"
    using write_report_fields(5) aggregate_nonempty timing_nodes_nonempty
    unfolding sample_write_def by fastforce
  then obtain phase where "phase \<in> set (er_phase_durations report)" by (meson list.set_sel(1))
  with r write_report_phase_counts show ?thesis unfolding sample_write_def by blast
qed

theorem refresh_live_cases_witness:
  "unat (kr_case_count (rt_report (refresh_execution sample_runtime))) = length (process_cases sample_runtime)"
proof -
  have "rt_processes sample_runtime \<noteq> []" "\<not> LeafStatus_is_terminal (rt_status sample_runtime)"
    "kr_cases (rt_report sample_runtime) = []" "length (process_cases sample_runtime) < 2 ^ 32"
    by (simp_all add: sample_runtime_def set_status_def new_runtime_def Let_def rt_status_def
        LeafStatus_is_terminal_def process_cases_def)
  then show ?thesis using refresh_live_cases [of sample_runtime] by (simp add: cases_ok_def)
qed

end
