(* ===== verification/Diagnostic_Reports.thy ===== *)
theory Diagnostic_Reports
  imports Diagnostics
begin

text \<open>
  The structured reports a check may declare (\<^verbatim>\<open>parse_declared_report\<close> of
  \<^verbatim>\<open>src/rust/executor-core/src/diagnostics.rs\<close>): JUnit XML, Playwright JSON, the JSON lines of
  Cargo and libtest, and the coordinator's own reports.  The XML reader and the JSON decoder are
  parameters: they are the crates \<^verbatim>\<open>quick_xml\<close> and \<^verbatim>\<open>serde_json\<close>.  The lemmas show that every
  entry made of a report is accepted by the protocol, whatever the report holds, so that a
  report is refused by its own parser or for its size and never because an entry made of it is
  malformed.
\<close>

definition MAX_XML_DEPTH :: nat where
  "MAX_XML_DEPTH = 64"

definition MAX_XML_NODES :: nat where
  "MAX_XML_NODES = 65536"

definition MAX_XML_ATTRIBUTE_BYTES :: nat where
  "MAX_XML_ATTRIBUTE_BYTES = 4096"

definition MAX_RUST_RECORD_BYTES :: nat where
  "MAX_RUST_RECORD_BYTES = 1024 * 1024"

definition MAX_RUST_RECORDS :: nat where
  "MAX_RUST_RECORDS = 65536"

section \<open>Numbers\<close>

text \<open>\<^verbatim>\<open>str::parse::<u64>\<close>: an optional sign \<^verbatim>\<open>+\<close>, at least one digit, no overflow.\<close>

definition parse_digits :: "string \<Rightarrow> u64 option" where
  "parse_digits s =
     (if s = [] \<or> \<not> list_all is_ascii_digit s \<or> 2 ^ 64 \<le> decimal_value s then None
      else Some (of_nat (decimal_value s)))"

definition parse_u64 :: "string option \<Rightarrow> u64 option" where
  "parse_u64 v = Option.bind v (\<lambda>s.
     case s of c # rest \<Rightarrow> if c = CHR ''+'' then parse_digits rest else parse_digits s
     | [] \<Rightarrow> None)"

section \<open>JUnit XML\<close>

text \<open>
  What the reader yields: a tag with its attributes (a malformed attribute is \<open>None\<close>), an
  attribute with its raw value and the decoded one (\<open>None\<close> when it cannot be decoded).  A failing
  read is \<open>None\<close> in the list of events; the end of the list is the end of the file.
\<close>

record XmlAttribute =
  xa_key :: string
  xa_value :: string
  xa_decoded :: "string option"

record XmlTag =
  xt_name :: string
  xt_attributes :: "XmlAttribute option list"

datatype XmlEvent = Start XmlTag | Empty XmlTag | End string | DocType | OtherEvent

fun xml_attribute_loop ::
  "XmlAttribute option list \<Rightarrow> string \<Rightarrow> string option \<Rightarrow> (DiagnosticParseError, string option) result" where
  "xml_attribute_loop [] name found = Ok found"
| "xml_attribute_loop (None # attributes) name found = Err InvalidReport"
| "xml_attribute_loop (Some attribute # attributes) name found =
     (if MAX_XML_ATTRIBUTE_BYTES < length (xa_value attribute) then Err LimitExceeded
      else if xa_key attribute = name
      then (if found \<noteq> None then Err InvalidReport
            else case xa_decoded attribute of
              None \<Rightarrow> Err InvalidReport
            | Some value \<Rightarrow> xml_attribute_loop attributes name (Some value))
      else xml_attribute_loop attributes name found)"

definition xml_attribute :: "XmlTag \<Rightarrow> string \<Rightarrow> (DiagnosticParseError, string option) result" where
  "xml_attribute start name = xml_attribute_loop (xt_attributes start) name None"

record JunitCase =
  jc_name :: "string option"
  jc_class_name :: "string option"
  jc_file :: "string option"
  jc_line :: "u64 option"
  jc_column :: "u64 option"

definition junit_case :: "XmlTag \<Rightarrow> (DiagnosticParseError, JunitCase) result" where
  "junit_case start =
     then_do (xml_attribute start ''name'') (\<lambda>name.
     then_do (xml_attribute start ''classname'') (\<lambda>class_name.
     then_do (xml_attribute start ''file'') (\<lambda>file.
     then_do (xml_attribute start ''line'') (\<lambda>line.
     then_do (xml_attribute start ''column'') (\<lambda>column.
       Ok \<lparr>jc_name = name, jc_class_name = class_name, jc_file = file,
           jc_line = parse_u64 line, jc_column = parse_u64 column\<rparr>)))))"

definition or_else :: "'a option \<Rightarrow> 'a option \<Rightarrow> 'a option" where
  "or_else a b = (case a of None \<Rightarrow> b | Some x \<Rightarrow> Some x)"

definition junit_case_name :: "JunitCase \<Rightarrow> string option" where
  "junit_case_name c =
     (case (jc_class_name c, jc_name c) of
        (Some class_name, Some name) \<Rightarrow> Some (class_name @ ''::'' @ name)
      | (None, Some name) \<Rightarrow> Some name
      | (Some class_name, None) \<Rightarrow> Some class_name
      | (None, None) \<Rightarrow> None)"

definition junit_category :: "string \<Rightarrow> string option \<Rightarrow> ErrorCategory" where
  "junit_category tag failure_type =
     (if tag = ''failure'' then ErrorCategory.Assertion
      else if optb (\<lambda>value. str_contains (to_ascii_lowercase value) ''panic'') failure_type
      then ErrorCategory.Panic else ErrorCategory.Exception)"

definition junit_failure ::
  "(string \<Rightarrow> string) \<Rightarrow> XmlTag \<Rightarrow> JunitCase option \<Rightarrow> DiagnosticContext
   \<Rightarrow> (DiagnosticParseError, FailureIndexEntry) result" where
  "junit_failure sha256 start case_data context =
     then_do (xml_attribute start ''type'') (\<lambda>failure_type.
     then_do (xml_attribute start ''expected'') (\<lambda>expected.
     then_do (xml_attribute start ''actual'') (\<lambda>actual.
     then_do (xml_attribute start ''file'') (\<lambda>file.
     then_do (xml_attribute start ''line'') (\<lambda>line.
     then_do (xml_attribute start ''column'') (\<lambda>column.
       let file = or_else file (Option.bind case_data jc_file);
           line = or_else (parse_u64 line) (Option.bind case_data jc_line);
           column = or_else (parse_u64 column) (Option.bind case_data jc_column)
       in Ok (new_entry sha256 context (Option.bind case_data junit_case_name) LeafStatus.Failed
            DiagnosticExit_default None (source_location file line column)
            (junit_category (xt_name start) failure_type)
            (map_option (bounded_diagnostic_value sha256 StringValue) expected)
            (map_option (bounded_diagnostic_value sha256 StringValue) actual)
            DiagnosticOrigin.Junit)))))))"

record JunitState =
  js_depth :: nat
  js_nodes :: nat
  js_saw_root :: bool
  js_current_case :: "JunitCase option"
  js_entries :: "FailureIndexEntry list"

definition is_suite :: "string \<Rightarrow> bool" where
  "is_suite name \<longleftrightarrow> name = ''testsuites'' \<or> name = ''testsuite''"

definition is_failure_tag :: "string \<Rightarrow> bool" where
  "is_failure_tag name \<longleftrightarrow> name = ''failure'' \<or> name = ''error''"

definition junit_push ::
  "(string \<Rightarrow> string) \<Rightarrow> DiagnosticContext \<Rightarrow> XmlTag \<Rightarrow> JunitState \<Rightarrow> (DiagnosticParseError, JunitState) result" where
  "junit_push sha256 context start st =
     then_do (junit_failure sha256 start (js_current_case st) context) (\<lambda>entry.
       Ok (st\<lparr>js_entries := js_entries st @ [entry]\<rparr>))"

text \<open>The \<^verbatim>\<open>match\<close> of one event; the end of the file leaves the loop instead.\<close>

fun junit_event ::
  "(string \<Rightarrow> string) \<Rightarrow> DiagnosticContext \<Rightarrow> XmlEvent \<Rightarrow> JunitState \<Rightarrow> (DiagnosticParseError, JunitState) result" where
  "junit_event sha256 context (Start start) st =
     (let st = st\<lparr>js_depth := usize_saturating_add (js_depth st) 1\<rparr>
      in if MAX_XML_DEPTH < js_depth st then Err LimitExceeded
         else if is_suite (xt_name start) then Ok (st\<lparr>js_saw_root := True\<rparr>)
         else if xt_name start = ''testcase''
         then then_do (junit_case start) (\<lambda>c. Ok (st\<lparr>js_current_case := Some c\<rparr>))
         else if is_failure_tag (xt_name start) then junit_push sha256 context start st
         else Ok st)"
| "junit_event sha256 context (Empty start) st =
     (if is_suite (xt_name start) then Ok (st\<lparr>js_saw_root := True\<rparr>)
      else if is_failure_tag (xt_name start) then junit_push sha256 context start st
      else Ok st)"
| "junit_event sha256 context (End name) st =
     (let st = (if name = ''testcase'' then st\<lparr>js_current_case := None\<rparr> else st)
      in if js_depth st = 0 then Err InvalidReport else Ok (st\<lparr>js_depth := js_depth st - 1\<rparr>))"
| "junit_event sha256 context DocType st = Err InvalidReport"
| "junit_event sha256 context OtherEvent st = Ok st"

fun junit_loop ::
  "(string \<Rightarrow> string) \<Rightarrow> DiagnosticContext \<Rightarrow> XmlEvent option list \<Rightarrow> JunitState
   \<Rightarrow> (DiagnosticParseError, JunitState) result" where
  "junit_loop sha256 context [] st =
     (if MAX_XML_NODES < usize_saturating_add (js_nodes st) 1 then Err LimitExceeded
      else Ok (st\<lparr>js_nodes := usize_saturating_add (js_nodes st) 1\<rparr>))"
| "junit_loop sha256 context (None # events) st = Err InvalidReport"
| "junit_loop sha256 context (Some event # events) st =
     (let st = st\<lparr>js_nodes := usize_saturating_add (js_nodes st) 1\<rparr>
      in if MAX_XML_NODES < js_nodes st then Err LimitExceeded
         else then_do (junit_event sha256 context event st) (\<lambda>st.
           if MAX_DIAGNOSTIC_EVENTS < length (js_entries st) then Err LimitExceeded
           else junit_loop sha256 context events st))"

definition junit_start :: JunitState where
  "junit_start = \<lparr>js_depth = 0, js_nodes = 0, js_saw_root = False, js_current_case = None, js_entries = []\<rparr>"

definition parse_junit ::
  "(string \<Rightarrow> string) \<Rightarrow> (string \<Rightarrow> XmlEvent option list) \<Rightarrow> string \<Rightarrow> DiagnosticContext
   \<Rightarrow> (DiagnosticParseError, FailureIndexEntry list) result" where
  "parse_junit sha256 read_events input context =
     then_do (junit_loop sha256 context (read_events input) junit_start) (\<lambda>st.
       if \<not> js_saw_root st \<or> js_depth st \<noteq> 0 then Err InvalidReport else Ok (js_entries st))"

section \<open>Playwright JSON\<close>

record PlaywrightLocation =
  pl_file :: string
  pl_line :: u64
  pl_column :: u64

record PlaywrightResult =
  pr_status :: "string option"
  pr_error_location :: "PlaywrightLocation option"

record PlaywrightTest =
  pt_project_name :: string
  pt_status :: string
  pt_results :: "PlaywrightResult list"

record PlaywrightSpec =
  ps_title :: string
  ps_id :: string
  ps_file :: string
  ps_line :: u64
  ps_column :: u64
  ps_tests :: "PlaywrightTest list"

text \<open>Title, specs and nested suites.\<close>

datatype PlaywrightSuite = PlaywrightSuite string "PlaywrightSpec list" "PlaywrightSuite list"

text \<open>Suites, and the locations of the errors.\<close>

record PlaywrightReport =
  pw_suites :: "PlaywrightSuite list"
  pw_errors :: "PlaywrightLocation option list"

definition playwright_location :: "PlaywrightLocation option \<Rightarrow> SourceLocation option" where
  "playwright_location location = Option.bind location (\<lambda>location.
     source_location (Some (pl_file location)) (Some (pl_line location)) (Some (pl_column location)))"

definition playwright_failure ::
  "string option \<Rightarrow> (LeafStatus \<times> TerminationReason option \<times> ErrorCategory) option" where
  "playwright_failure status =
     (if status = Some ''failed'' then Some (LeafStatus.Failed, None, ErrorCategory.Exception)
      else if status = Some ''timedOut''
      then Some (LeafStatus.TimedOut, Some DeadlineExceeded, ErrorCategory.Timeout)
      else if status = Some ''interrupted''
      then Some (LeafStatus.Cancelled, Some RunCancelled, ErrorCategory.Cancellation)
      else None)"

fun join :: "string \<Rightarrow> string list \<Rightarrow> string" where
  "join separator [] = []"
| "join separator [part] = part"
| "join separator (part # q # parts) = part @ separator @ join separator (q # parts)"

definition option_list :: "'a option \<Rightarrow> 'a list" where
  "option_list v = (case v of None \<Rightarrow> [] | Some x \<Rightarrow> [x])"

definition playwright_case_name ::
  "(string \<Rightarrow> string) \<Rightarrow> string list \<Rightarrow> PlaywrightSpec \<Rightarrow> PlaywrightTest \<Rightarrow> string option" where
  "playwright_case_name sha256 path spec test =
     (let parts = option_list (bounded_name sha256 (pt_project_name test)) @ path @
            option_list (bounded_name sha256 (ps_title spec))
      in if parts = [] then bounded_name sha256 (ps_id spec)
         else bounded_name sha256 (join '' :: '' parts))"

definition spec_location :: "PlaywrightSpec \<Rightarrow> SourceLocation option" where
  "spec_location spec = source_location (Some (ps_file spec)) (Some (ps_line spec)) (Some (ps_column spec))"

definition playwright_entry ::
  "(string \<Rightarrow> string) \<Rightarrow> DiagnosticContext \<Rightarrow> PlaywrightSpec \<Rightarrow> string option \<Rightarrow> PlaywrightResult
   \<Rightarrow> FailureIndexEntry option" where
  "playwright_entry sha256 context spec framework_case result =
     map_option (\<lambda>(status, reason, category).
       new_entry sha256 context framework_case status DiagnosticExit_default reason
         (or_else (playwright_location (pr_error_location result)) (spec_location spec))
         category None None DiagnosticOrigin.PlaywrightJson)
       (playwright_failure (pr_status result))"

text \<open>The entries of one unexpected test: one per failed result, or one if there is none.\<close>

definition playwright_test_entries ::
  "(string \<Rightarrow> string) \<Rightarrow> DiagnosticContext \<Rightarrow> string list \<Rightarrow> PlaywrightSpec \<Rightarrow> PlaywrightTest
   \<Rightarrow> FailureIndexEntry list" where
  "playwright_test_entries sha256 context path spec test =
     (let framework_case = playwright_case_name sha256 path spec test;
          failed = flatten_options (map (playwright_entry sha256 context spec framework_case) (pt_results test))
      in if failed = []
         then [new_entry sha256 context framework_case LeafStatus.Failed DiagnosticExit_default None
                 (spec_location spec) ErrorCategory.Exception None None DiagnosticOrigin.PlaywrightJson]
         else failed)"

type_synonym walk_state = "nat \<times> FailureIndexEntry list"

definition visit_node :: "walk_state \<Rightarrow> (DiagnosticParseError, walk_state) result" where
  "visit_node st =
     (let visited = usize_saturating_add (fst st) 1
      in if MAX_DIAGNOSTIC_EVENTS < visited then Err LimitExceeded else Ok (visited, snd st))"

fun walk_tests ::
  "(string \<Rightarrow> string) \<Rightarrow> DiagnosticContext \<Rightarrow> string list \<Rightarrow> PlaywrightSpec \<Rightarrow> PlaywrightTest list
   \<Rightarrow> walk_state \<Rightarrow> (DiagnosticParseError, walk_state) result" where
  "walk_tests sha256 context path spec [] st = Ok st"
| "walk_tests sha256 context path spec (test # tests) st =
     then_do (visit_node st) (\<lambda>(visited, entries).
       walk_tests sha256 context path spec tests
         (if pt_status test \<noteq> ''unexpected'' then (visited, entries)
          else (visited, entries @ playwright_test_entries sha256 context path spec test)))"

fun walk_specs ::
  "(string \<Rightarrow> string) \<Rightarrow> DiagnosticContext \<Rightarrow> string list \<Rightarrow> PlaywrightSpec list
   \<Rightarrow> walk_state \<Rightarrow> (DiagnosticParseError, walk_state) result" where
  "walk_specs sha256 context path [] st = Ok st"
| "walk_specs sha256 context path (spec # specs) st =
     then_do (visit_node st) (\<lambda>st.
       then_do (walk_tests sha256 context path spec (ps_tests spec) st) (\<lambda>st.
         walk_specs sha256 context path specs st))"

fun walk_playwright_suite ::
    "(string \<Rightarrow> string) \<Rightarrow> DiagnosticContext \<Rightarrow> PlaywrightSuite \<Rightarrow> string list \<Rightarrow> nat
     \<Rightarrow> walk_state \<Rightarrow> (DiagnosticParseError, walk_state) result"
  and walk_playwright_suites ::
    "(string \<Rightarrow> string) \<Rightarrow> DiagnosticContext \<Rightarrow> PlaywrightSuite list \<Rightarrow> string list \<Rightarrow> nat
     \<Rightarrow> walk_state \<Rightarrow> (DiagnosticParseError, walk_state) result" where
  "walk_playwright_suite sha256 context (PlaywrightSuite title specs suites) parents depth st =
     (if MAX_XML_DEPTH < depth then Err LimitExceeded
      else then_do (visit_node st) (\<lambda>st.
        let path = parents @ option_list (bounded_name sha256 title)
        in then_do (walk_specs sha256 context path specs st) (\<lambda>st.
             walk_playwright_suites sha256 context suites path (depth + 1) st)))"
| "walk_playwright_suites sha256 context [] path depth st = Ok st"
| "walk_playwright_suites sha256 context (suite # suites) path depth st =
     then_do (walk_playwright_suite sha256 context suite path depth st) (\<lambda>st.
       walk_playwright_suites sha256 context suites path depth st)"

fun walk_errors ::
  "(string \<Rightarrow> string) \<Rightarrow> DiagnosticContext \<Rightarrow> PlaywrightLocation option list
   \<Rightarrow> walk_state \<Rightarrow> (DiagnosticParseError, walk_state) result" where
  "walk_errors sha256 context [] st = Ok st"
| "walk_errors sha256 context (location # locations) st =
     then_do (visit_node st) (\<lambda>(visited, entries).
       walk_errors sha256 context locations (visited, entries @
         [new_entry sha256 context None LeafStatus.Failed DiagnosticExit_default None
            (playwright_location location) ErrorCategory.Exception None None
            DiagnosticOrigin.PlaywrightJson]))"

definition parse_playwright ::
  "(string \<Rightarrow> string) \<Rightarrow> (string \<Rightarrow> PlaywrightReport option) \<Rightarrow> string \<Rightarrow> DiagnosticContext
   \<Rightarrow> (DiagnosticParseError, FailureIndexEntry list) result" where
  "parse_playwright sha256 decode input context =
     (case decode input of
        None \<Rightarrow> Err InvalidReport
      | Some report \<Rightarrow>
          then_do (walk_playwright_suites sha256 context (pw_suites report) [] 1 (0, [])) (\<lambda>st.
            then_do (walk_errors sha256 context (pw_errors report) st) (\<lambda>(visited, entries). Ok entries)))"

section \<open>Rust JSON lines\<close>

record RustCompilerSpan =
  rs_file_name :: string
  rs_line_start :: u64
  rs_column_start :: u64
  rs_is_primary :: bool

record RustCompilerMessage =
  rm_level :: string
  rm_spans :: "RustCompilerSpan list"

record RustJsonRecord =
  rj_reason :: "string option"
  rj_kind :: "string option"
  rj_event :: "string option"
  rj_name :: "string option"
  rj_message :: "RustCompilerMessage option"

definition rust_test_failure ::
  "string option \<Rightarrow> (LeafStatus \<times> TerminationReason option \<times> ErrorCategory) option" where
  "rust_test_failure event =
     (if event = Some ''failed'' then Some (LeafStatus.Failed, None, ErrorCategory.Panic)
      else if event = Some ''timeout'' \<or> event = Some ''timed_out''
      then Some (LeafStatus.TimedOut, Some DeadlineExceeded, ErrorCategory.Timeout)
      else if event = Some ''cancelled'' \<or> event = Some ''interrupted''
      then Some (LeafStatus.Cancelled, Some RunCancelled, ErrorCategory.Cancellation)
      else None)"

definition trim_ascii :: "string \<Rightarrow> string" where
  "trim_ascii s = rev (dropWhile is_ascii_whitespace (rev (dropWhile is_ascii_whitespace s)))"

text \<open>\<^verbatim>\<open>input.split(|byte| *byte == b'\n')\<close>.\<close>

fun split_lines :: "string \<Rightarrow> string list" where
  "split_lines [] = [[]]"
| "split_lines (c # cs) =
     (if c = CHR 0x0A then [] # split_lines cs
      else (case split_lines cs of [] \<Rightarrow> [[c]] | l # ls \<Rightarrow> (c # l) # ls))"

definition span_location :: "RustCompilerSpan \<Rightarrow> SourceLocation option" where
  "span_location sp =
     source_location (Some (rs_file_name sp)) (Some (rs_line_start sp)) (Some (rs_column_start sp))"

text \<open>
  What one record adds: whether it is a recognised record, and the failure it describes, if any.
\<close>

definition rust_record ::
  "(string \<Rightarrow> string) \<Rightarrow> DiagnosticContext \<Rightarrow> RustJsonRecord
   \<Rightarrow> (DiagnosticParseError, bool \<times> FailureIndexEntry list) result" where
  "rust_record sha256 context record_data =
     (if rj_reason record_data = Some ''compiler-message''
      then (case rj_message record_data of
        None \<Rightarrow> Err InvalidReport
      | Some message \<Rightarrow>
          if MAX_DIAGNOSTIC_EVENTS < length (rm_spans message) then Err LimitExceeded
          else Ok (True, if rm_level message = ''error''
            then [new_entry sha256 context None LeafStatus.Failed DiagnosticExit_default None
                    (Option.bind (find rs_is_primary (rm_spans message)) span_location)
                    ErrorCategory.Compiler None None DiagnosticOrigin.RustJson]
            else []))
      else if rj_kind record_data = Some ''test''
      then (case rust_test_failure (rj_event record_data) of
        None \<Rightarrow> Ok (True, [])
      | Some (status, reason, category) \<Rightarrow>
          Ok (True, [new_entry sha256 context (Option.bind (rj_name record_data) (bounded_name sha256)) status
            DiagnosticExit_default reason None category None None DiagnosticOrigin.RustJson]))
      else if rj_kind record_data = Some ''suite''
      then Ok (True, if rj_event record_data = Some ''failed''
        then [new_entry sha256 context None LeafStatus.Failed DiagnosticExit_default None None
                ErrorCategory.Panic None None DiagnosticOrigin.RustJson]
        else [])
      else Ok (rj_reason record_data \<noteq> None, []))"

fun rust_loop ::
  "(string \<Rightarrow> string) \<Rightarrow> (string \<Rightarrow> RustJsonRecord option) \<Rightarrow> DiagnosticContext \<Rightarrow> string list
   \<Rightarrow> nat \<Rightarrow> bool \<Rightarrow> FailureIndexEntry list
   \<Rightarrow> (DiagnosticParseError, nat \<times> bool \<times> FailureIndexEntry list) result" where
  "rust_loop sha256 decode context [] records recognized entries = Ok (records, recognized, entries)"
| "rust_loop sha256 decode context (raw # lines) records recognized entries =
     (let line = trim_ascii raw
      in if line = [] then rust_loop sha256 decode context lines records recognized entries
         else let records = usize_saturating_add records 1
              in if MAX_RUST_RECORDS < records \<or> MAX_RUST_RECORD_BYTES < length line then Err LimitExceeded
                 else case decode line of
                   None \<Rightarrow> Err InvalidReport
                 | Some record_data \<Rightarrow>
                     then_do (rust_record sha256 context record_data) (\<lambda>(known, new_entries).
                       if MAX_DIAGNOSTIC_EVENTS < length (entries @ new_entries) then Err LimitExceeded
                       else rust_loop sha256 decode context lines records (recognized \<or> known)
                              (entries @ new_entries)))"

definition parse_rust_json ::
  "(string \<Rightarrow> string) \<Rightarrow> (string \<Rightarrow> RustJsonRecord option) \<Rightarrow> string \<Rightarrow> DiagnosticContext
   \<Rightarrow> (DiagnosticParseError, FailureIndexEntry list) result" where
  "parse_rust_json sha256 decode input context =
     then_do (rust_loop sha256 decode context (split_lines input) 0 False []) (\<lambda>(records, recognized, entries).
       if records = 0 \<or> \<not> recognized then Err InvalidReport else Ok entries)"

section \<open>Declared reports\<close>

text \<open>The decoders of the four formats.\<close>

record ReportDecoders =
  rd_xml :: "string \<Rightarrow> XmlEvent option list"
  rd_playwright :: "string \<Rightarrow> PlaywrightReport option"
  rd_rust :: "string \<Rightarrow> RustJsonRecord option"
  rd_coordinator :: "string \<Rightarrow> CoordinatorDiagnosticReport option"

definition parse_report_entries ::
  "(string \<Rightarrow> string) \<Rightarrow> ReportDecoders \<Rightarrow> DiagnosticReportFormat \<Rightarrow> string \<Rightarrow> DiagnosticContext
   \<Rightarrow> (DiagnosticParseError, FailureIndexEntry list) result" where
  "parse_report_entries sha256 decoders format input context =
     (case format of
        DiagnosticReportFormat.Junit \<Rightarrow> parse_junit sha256 (rd_xml decoders) input context
      | DiagnosticReportFormat.PlaywrightJson \<Rightarrow> parse_playwright sha256 (rd_playwright decoders) input context
      | DiagnosticReportFormat.RustJson \<Rightarrow> parse_rust_json sha256 (rd_rust decoders) input context
      | DiagnosticReportFormat.CoordinatorJson \<Rightarrow>
          parse_coordinator_json sha256 (rd_coordinator decoders) input context)"

definition parse_declared_report ::
  "(string \<Rightarrow> string) \<Rightarrow> ReportDecoders \<Rightarrow> DiagnosticReportSource \<Rightarrow> string \<Rightarrow> DiagnosticContext
   \<Rightarrow> (DiagnosticParseError, NormalizedDiagnostics) result" where
  "parse_declared_report sha256 decoders source input context =
     then_do (DiagnosticContext_validate context) (\<lambda>_.
       then_do (parse_report_entries sha256 decoders (drs_format source) input context) (\<lambda>entries.
         normalize_diagnostics sha256 entries))"

section \<open>Numbers are read back\<close>

lemma decimal_all_digits: "list_all is_ascii_digit (decimal n)"
  using decimal_digits by (auto simp: list_all_iff is_ascii_digit_def)

lemma parse_digits_decimal: "parse_digits (decimal (unat n)) = Some n"
proof -
  have "unat n < 2 ^ LENGTH(64)" by (rule unsigned_less)
  then show ?thesis by (simp add: parse_digits_def decimal_all_digits decimal_value_decimal)
qed

text \<open>
  A line or column number written in decimal is read back, with or without
  a leading plus sign.
\<close>

lemma parse_u64_decimal: "parse_u64 (Some (decimal (unat n))) = Some n \<and> parse_u64 (Some (CHR ''+'' # decimal (unat n))) = Some n"
proof -
  have "hd (decimal (unat n)) \<in> set (decimal (unat n))" by simp
  then have "hd (decimal (unat n)) \<noteq> CHR ''+''" using decimal_digits [of "hd (decimal (unat n))"] by fastforce
  then show ?thesis
    using parse_digits_decimal [of n] by (cases "decimal (unat n)") (auto simp: parse_u64_def)
qed

section \<open>Entries of reports are accepted\<close>

text \<open>A valid entry of a leaf: it names the check and refers to the two logs of the leaf.\<close>

definition leaf_entry :: "DiagnosticContext \<Rightarrow> FailureIndexEntry \<Rightarrow> bool" where
  "leaf_entry context entry \<longleftrightarrow> FailureIndexEntry_validate entry = Ok () \<and>
     fie_check entry = Some (dc_check context) \<and>
     set (fie_log_refs entry) \<subseteq> set (DiagnosticContext_log_refs context)"

definition accepted :: "DiagnosticContext \<Rightarrow> FailureIndexEntry list \<Rightarrow> bool" where
  "accepted context entries \<longleftrightarrow> list_all (leaf_entry context) entries"

lemma accepted_simps [simp]:
  "accepted context []" "accepted context (e # es) \<longleftrightarrow> leaf_entry context e \<and> accepted context es"
  "accepted context (xs @ ys) \<longleftrightarrow> accepted context xs \<and> accepted context ys"
  by (simp_all add: accepted_def)

lemma new_leaf_entry:
  assumes "digest_size sha256" and "DiagnosticContext_validate context = Ok ()" and "is_failure_status status"
    and "DiagnosticExit_validate exit = Ok ()" and "if_some SourceLocation_validate source = Ok ()"
    and "if_some DiagnosticValue_validate expected = Ok ()" and "if_some DiagnosticValue_validate actual = Ok ()"
  shows "leaf_entry context
    (new_entry sha256 context framework_case status exit reason source category expected actual origin)"
  using new_entry_valid [OF assms] by (simp add: leaf_entry_def) (simp add: new_entry_def Let_def)

lemma default_exit_valid: "DiagnosticExit_validate DiagnosticExit_default = Ok ()"
  by (simp add: DiagnosticExit_validate_def DiagnosticExit_default_def)

lemma located: "if_some SourceLocation_validate (source_location file line column) = Ok ()"
  using source_location_valid by (auto simp: if_some_def split: option.splits)

lemma located_or_else:
  "if_some SourceLocation_validate a = Ok () \<Longrightarrow> if_some SourceLocation_validate b = Ok () \<Longrightarrow>
     if_some SourceLocation_validate (or_else a b) = Ok ()"
  by (auto simp: or_else_def split: option.splits)

lemma located_bind:
  "(\<And>x. if_some SourceLocation_validate (f x) = Ok ()) \<Longrightarrow> if_some SourceLocation_validate (Option.bind v f) = Ok ()"
  by (cases v) (auto simp: if_some_def)

lemma playwright_located: "if_some SourceLocation_validate (playwright_location location) = Ok ()"
  unfolding playwright_location_def by (rule located_bind) (rule located)

text \<open>The entries of the report parsers: a default exit and a location that was checked.\<close>

lemma report_entry_valid:
  assumes "digest_size sha256" and "DiagnosticContext_validate context = Ok ()" and "is_failure_status status"
    and "if_some SourceLocation_validate source = Ok ()"
  shows "leaf_entry context (new_entry sha256 context framework_case status DiagnosticExit_default reason
    source category (map_option (bounded_diagnostic_value sha256 StringValue) expected)
    (map_option (bounded_diagnostic_value sha256 StringValue) actual) origin)"
  using assms
  by (intro new_leaf_entry) (auto simp: default_exit_valid if_some_def bounded_value_valid split: option.splits)

lemmas plain_entry_valid = report_entry_valid [where expected = None and actual = None, unfolded option.map(1)]

lemma junit_failure_valid:
  assumes "digest_size sha256" and "DiagnosticContext_validate context = Ok ()"
    and "junit_failure sha256 start case_data context = Ok entry"
  shows "leaf_entry context entry"
  using assms(3) report_entry_valid [OF assms(1,2) _ located, of LeafStatus.Failed]
  by (auto simp: junit_failure_def Let_def is_failure_status_def)

lemma junit_push_valid:
  assumes "digest_size sha256" and "DiagnosticContext_validate context = Ok ()"
    and "junit_push sha256 context start st = Ok st'" and "accepted context (js_entries st)"
  shows "accepted context (js_entries st')"
  using assms(3,4) junit_failure_valid [OF assms(1,2)] by (auto simp: junit_push_def)

lemma junit_event_valid:
  assumes "digest_size sha256" and "DiagnosticContext_validate context = Ok ()"
    and "junit_event sha256 context event st = Ok st'" and "accepted context (js_entries st)"
  shows "accepted context (js_entries st')"
  using assms(3,4) junit_push_valid [OF assms(1,2)]
  by (cases event) (fastforce simp: Let_def split: if_splits)+

lemma junit_loop_valid:
  assumes "digest_size sha256" and "DiagnosticContext_validate context = Ok ()"
  shows "junit_loop sha256 context events st = Ok st' \<Longrightarrow> accepted context (js_entries st) \<Longrightarrow> accepted context (js_entries st')"
proof (induction events arbitrary: st)
  case (Cons event events)
  then obtain ev where ev: "event = Some ev" by (cases event) auto
  let ?st = "st\<lparr>js_nodes := usize_saturating_add (js_nodes st) 1\<rparr>"
  from Cons.prems(1) obtain st1 where "junit_event sha256 context ev ?st = Ok st1"
    and "junit_loop sha256 context events st1 = Ok st'"
    by (auto simp: ev Let_def split: if_splits)
  moreover have "accepted context (js_entries ?st)" using Cons.prems(2) by simp
  ultimately show ?case using Cons.IH junit_event_valid [OF assms] by blast
qed (auto split: if_splits)

lemma parse_junit_valid:
  assumes "digest_size sha256" and "DiagnosticContext_validate context = Ok ()"
    and "parse_junit sha256 read_events input context = Ok entries"
  shows "accepted context entries"
  using assms(3) junit_loop_valid [OF assms(1,2)]
  by (auto simp: parse_junit_def junit_start_def split: if_splits)

lemma playwright_failure_status: "playwright_failure status = Some (st, reason, category) \<Longrightarrow> is_failure_status st"
  by (auto simp: playwright_failure_def is_failure_status_def split: if_splits)

lemma playwright_test_valid:
  assumes "digest_size sha256" and "DiagnosticContext_validate context = Ok ()"
  shows "accepted context (playwright_test_entries sha256 context path spec test)"
proof -
  have spec: "if_some SourceLocation_validate (spec_location spec) = Ok ()"
    unfolding spec_location_def by (rule located)
  have "leaf_entry context entry"
    if "playwright_entry sha256 context spec framework_case result = Some entry" for framework_case result entry
    using that plain_entry_valid [OF assms playwright_failure_status located_or_else [OF playwright_located spec]]
    by (auto simp: playwright_entry_def)
  moreover have "leaf_entry context (new_entry sha256 context framework_case LeafStatus.Failed
      DiagnosticExit_default None (spec_location spec) ErrorCategory.Exception None None
      DiagnosticOrigin.PlaywrightJson)" for framework_case
    by (rule plain_entry_valid [OF assms _ spec]) (simp add: is_failure_status_def)
  ultimately show ?thesis
    by (auto simp: playwright_test_entries_def Let_def accepted_def list_all_iff set_flatten_options)
qed

lemma visit_node_entries: "visit_node st = Ok st' \<Longrightarrow> snd st' = snd st"
  by (auto simp: visit_node_def Let_def split: if_splits)

lemma walk_tests_valid:
  assumes "digest_size sha256" and "DiagnosticContext_validate context = Ok ()"
  shows "walk_tests sha256 context path spec tests st = Ok st' \<Longrightarrow> accepted context (snd st) \<Longrightarrow> accepted context (snd st')"
proof (induction tests arbitrary: st)
  case (Cons test tests)
  then obtain v es where node: "visit_node st = Ok (v, es)"
    and rest: "walk_tests sha256 context path spec tests (if pt_status test \<noteq> ''unexpected'' then (v, es)
      else (v, es @ playwright_test_entries sha256 context path spec test)) = Ok st'"
    by (auto split: prod.splits)
  have "accepted context es" using visit_node_entries [OF node] Cons.prems(2) by simp
  then show ?case using Cons.IH [OF rest] playwright_test_valid [OF assms] by (simp split: if_splits)
qed simp

lemma walk_specs_valid:
  assumes "digest_size sha256" and "DiagnosticContext_validate context = Ok ()"
  shows "walk_specs sha256 context path specs st = Ok st' \<Longrightarrow> accepted context (snd st) \<Longrightarrow> accepted context (snd st')"
proof (induction specs arbitrary: st)
  case (Cons spec specs)
  then obtain st1 st2 where "visit_node st = Ok st1" "walk_tests sha256 context path spec (ps_tests spec) st1 = Ok st2"
    "walk_specs sha256 context path specs st2 = Ok st'" by auto
  with Cons show ?case using walk_tests_valid [OF assms] visit_node_entries by metis
qed simp

lemma walk_suites_valid:
  assumes "digest_size sha256" and "DiagnosticContext_validate context = Ok ()"
  shows "walk_playwright_suite sha256 context suite parents depth st = Ok st' \<Longrightarrow> accepted context (snd st) \<Longrightarrow>
      accepted context (snd st')"
    and "walk_playwright_suites sha256 context suites path depth st = Ok st' \<Longrightarrow> accepted context (snd st) \<Longrightarrow>
      accepted context (snd st')"
  using assms
proof (induction sha256 "context" suite parents depth st and sha256 "context" suites path depth st
    arbitrary: st' and st' rule: walk_playwright_suite_walk_playwright_suites.induct)
  case (1 sha256 "context" title specs suites parents depth st)
  let ?path = "parents @ option_list (bounded_name sha256 title)"
  from "1.prems"(1) obtain st1 st2 where
    "\<not> MAX_XML_DEPTH < depth" and "visit_node st = Ok st1" and "walk_specs sha256 context ?path specs st1 = Ok st2"
    and "walk_playwright_suites sha256 context suites ?path (depth + 1) st2 = Ok st'"
    by (auto simp: Let_def split: if_splits)
  with 1 show ?case using walk_specs_valid [OF "1.prems"(3,4)] visit_node_entries by metis
next
  case (3 sha256 "context" suite suites path depth st)
  from "3.prems"(1) obtain st1 where "walk_playwright_suite sha256 context suite path depth st = Ok st1"
    and "walk_playwright_suites sha256 context suites path depth st1 = Ok st'" by auto
  with 3 show ?case by metis
qed simp

lemma walk_errors_valid:
  assumes "digest_size sha256" and "DiagnosticContext_validate context = Ok ()"
  shows "walk_errors sha256 context locations st = Ok st' \<Longrightarrow> accepted context (snd st) \<Longrightarrow> accepted context (snd st')"
proof (induction locations arbitrary: st)
  case (Cons location locations)
  have "leaf_entry context (new_entry sha256 context None LeafStatus.Failed DiagnosticExit_default None
      (playwright_location location) ErrorCategory.Exception None None DiagnosticOrigin.PlaywrightJson)"
    by (rule plain_entry_valid [OF assms _ playwright_located]) (simp add: is_failure_status_def)
  with Cons show ?case using visit_node_entries by (fastforce split: prod.splits)
qed simp

lemma parse_playwright_valid:
  assumes "digest_size sha256" and "DiagnosticContext_validate context = Ok ()"
    and "parse_playwright sha256 decode input context = Ok entries"
  shows "accepted context entries"
proof -
  obtain report where "decode input = Some report"
    using assms(3) by (cases "decode input") (auto simp: parse_playwright_def)
  then obtain st v where "walk_playwright_suites sha256 context (pw_suites report) [] 1 (0, []) = Ok st"
    and "walk_errors sha256 context (pw_errors report) st = Ok (v, entries)"
    using assms(3) by (auto simp: parse_playwright_def split: prod.splits simp del: One_nat_def)
  then show ?thesis using walk_suites_valid(2) [OF assms(1,2)] walk_errors_valid [OF assms(1,2)] by fastforce
qed

lemma rust_record_valid:
  assumes "digest_size sha256" and "DiagnosticContext_validate context = Ok ()"
    and "rust_record sha256 context record_data = Ok (known, entries)"
  shows "accepted context entries"
proof -
  have span: "if_some SourceLocation_validate (Option.bind v span_location) = Ok ()" for v
    by (rule located_bind) (simp only: span_location_def located)
  have test: "is_failure_status st" if "rust_test_failure e = Some (st, reason, category)" for e st reason category
    using that by (auto simp: rust_test_failure_def is_failure_status_def split: if_splits)
  have none: "if_some SourceLocation_validate None = Ok ()" by (simp add: if_some_def)
  have failed: "is_failure_status LeafStatus.Failed" by (simp add: is_failure_status_def)
  show ?thesis
    using assms(3) plain_entry_valid [OF assms(1,2) failed span] plain_entry_valid [OF assms(1,2) test none]
      plain_entry_valid [OF assms(1,2) failed none]
    by (auto simp: rust_record_def split: if_splits option.splits prod.splits)
qed

lemma rust_loop_valid:
  assumes "digest_size sha256" and "DiagnosticContext_validate context = Ok ()"
  shows "rust_loop sha256 decode context lines records recognized entries = Ok (n, r, out) \<Longrightarrow>
    accepted context entries \<Longrightarrow> accepted context out"
proof (induction lines arbitrary: records recognized entries)
  case (Cons raw lines)
  then show ?case using rust_record_valid [OF assms]
    by (fastforce simp: Let_def split: if_splits option.splits prod.splits)
qed simp

lemma parse_rust_valid:
  assumes "digest_size sha256" and "DiagnosticContext_validate context = Ok ()"
    and "parse_rust_json sha256 decode input context = Ok entries"
  shows "accepted context entries"
proof -
  obtain n r where "rust_loop sha256 decode context (split_lines input) 0 False [] = Ok (n, r, entries)"
    using assms(3) by (auto simp: parse_rust_json_def split: prod.splits if_splits)
  then show ?thesis using rust_loop_valid [OF assms(1,2)] by fastforce
qed

lemma parse_coordinator_refs:
  assumes "parse_coordinator_json sha256 decode input context = Ok entries" and "entry \<in> set entries"
  shows "fie_log_refs entry = DiagnosticContext_log_refs context \<and> fie_check entry = Some (dc_check context)"
  using assms
  by (auto simp: parse_coordinator_json_def new_entry_def Let_def split: if_splits option.splits)

lemma parse_report_entries_valid:
  assumes "digest_size sha256" and "DiagnosticContext_validate context = Ok ()"
    and "parse_report_entries sha256 decoders format input context = Ok entries"
  shows "accepted context entries"
  using assms(3) parse_junit_valid [OF assms(1,2)] parse_playwright_valid [OF assms(1,2)]
    parse_rust_valid [OF assms(1,2)] parse_coordinator_valid [OF assms(1,2)] parse_coordinator_refs
  by (fastforce simp: parse_report_entries_def accepted_def leaf_entry_def list_all_iff
      split: DiagnosticReportFormat.splits)

text \<open>
  C32: a declared report whose execution context is valid is refused only by
  the parser of its format or for having more than 4096 failures: every entry the parsers make
  of untrusted names, values and locations is accepted by the protocol, so the normalisation
  never refuses one.
\<close>

theorem declared_report_accepted:
  assumes "digest_size sha256" and "DiagnosticContext_validate context = Ok ()"
  shows "(case parse_report_entries sha256 decoders (drs_format source) input context of
      Inl e \<Rightarrow> parse_declared_report sha256 decoders source input context = Err e
    | Inr entries \<Rightarrow>
        if 4096 < length entries then parse_declared_report sha256 decoders source input context = Err LimitExceeded
        else \<exists>result. parse_declared_report sha256 decoders source input context = Ok result
          \<and> normalize_diagnostics sha256 entries = Ok result)"
proof (cases "parse_report_entries sha256 decoders (drs_format source) input context")
  case (Inl e)
  then show ?thesis using assms(2) by (simp add: parse_declared_report_def)
next
  case (Inr entries)
  then have "accepted context entries" by (rule parse_report_entries_valid [OF assms])
  then have "normalize_diagnostics sha256 entries = Err LimitExceeded \<and> MAX_DIAGNOSTIC_EVENTS < length entries
      \<or> (\<exists>result. normalize_diagnostics sha256 entries = Ok result)"
    by (intro normalize_accepts [OF assms(1)]) (simp add: accepted_def leaf_entry_def list_all_iff)
  moreover have "normalize_diagnostics sha256 entries = Err LimitExceeded" if "4096 < length entries"
    using that by (simp add: normalize_diagnostics_def MAX_DIAGNOSTIC_EVENTS_def)
  ultimately show ?thesis
    using Inr assms(2) by (auto simp: parse_declared_report_def MAX_DIAGNOSTIC_EVENTS_def)
qed

definition sample_context :: DiagnosticContext where
  "sample_context = \<lparr>dc_run_id = ''run-1'', dc_check = ''unit'', dc_case = None, dc_phase = LogPhase.Check\<rparr>"

definition sample_xml :: "XmlEvent option list" where
  "sample_xml =
     [Some (Start \<lparr>xt_name = ''testsuite'', xt_attributes = []\<rparr>),
      Some (Start \<lparr>xt_name = ''testcase'', xt_attributes =
        [Some \<lparr>xa_key = ''name'', xa_value = ''adds'', xa_decoded = Some ''adds''\<rparr>]\<rparr>),
      Some (Empty \<lparr>xt_name = ''failure'', xt_attributes = []\<rparr>),
      Some (End ''testcase''), Some (End ''testsuite'')]"

definition sample_decoders :: ReportDecoders where
  "sample_decoders = \<lparr>rd_xml = (\<lambda>_. sample_xml), rd_playwright = (\<lambda>_. None), rd_rust = (\<lambda>_. None),
     rd_coordinator = (\<lambda>_. None)\<rparr>"

lemma sample_context_valid: "DiagnosticContext_validate sample_context = Ok ()"
  by (simp add: sample_context_def DiagnosticContext_validate_def DiagnosticContext_log_refs_def LogRef_validate_def
      validate_identity_def check_log_ref_def validate_name_def all_bytes_def ascii_defs is_identity_byte_def)

text \<open>A JUnit report with one failing test yields one entry, for that test.\<close>

lemma sample_report_entries:
  "\<exists>entry. parse_report_entries sha256 sample_decoders DiagnosticReportFormat.Junit input sample_context = Ok [entry]
     \<and> fie_error_category entry = ErrorCategory.Assertion"
  by (simp add: parse_report_entries_def sample_decoders_def parse_junit_def sample_xml_def junit_start_def
      usize_saturating_add_def MAX_XML_NODES_def MAX_XML_DEPTH_def MAX_DIAGNOSTIC_EVENTS_def is_suite_def
      is_failure_tag_def junit_case_def xml_attribute_def MAX_XML_ATTRIBUTE_BYTES_def junit_push_def
      junit_failure_def new_entry_def junit_category_def Let_def del: then_do_ok)

theorem declared_report_accepted_witness:
  "\<exists>result. parse_declared_report (\<lambda>_. replicate 32 (CHR ''x'')) sample_decoders
     \<lparr>drs_format = DiagnosticReportFormat.Junit, drs_path = ''report.xml''\<rparr> [] sample_context = Ok result"
  using declared_report_accepted [OF sample_digest_size sample_context_valid, of sample_decoders
      "\<lparr>drs_format = DiagnosticReportFormat.Junit, drs_path = ''report.xml''\<rparr>" "[]"]
    sample_report_entries [of "\<lambda>_. replicate 32 (CHR ''x'')" "[]"]
  by auto

end
