(* ===== verification/Leaf_Evidence.thy ===== *)
theory Leaf_Evidence
  imports Check_Runtime Diagnostic_Reports
begin

text \<open>
  What happens to the result of a process before it counts: \<^verbatim>\<open>finalize_leaf_evidence\<close> and
  \<^verbatim>\<open>record_leaf_postprocess_failure\<close> of \<^verbatim>\<open>src/rust/executor-core/src/runner.rs\<close> complete the
  log summaries, read the declared reports, decide whether the process passed, compare a
  qualification with the failure it expects, and publish the evidence.  The lemmas show that the
  verdict and the evidence never contradict each other: a leaf passes exactly when it has no
  diagnostic.  Reading and writing of files are parameters, fields of the environment.
\<close>

section \<open>Data\<close>

record LeafLogMetadata =
  llm_selector :: LeafSelector
  llm_status :: LeafStatus
  llm_exit :: DiagnosticExit
  llm_started_at_epoch_ms :: u64
  llm_finished_at_epoch_ms :: "u64 option"
  llm_process_started :: bool
  llm_complete :: bool
  llm_structured_evidence_formats :: "DiagnosticReportFormat list"
  llm_structured_evidence_count :: u64

datatype ProcessStatus = Passed | Failed | TimedOut | Cancelled | Unsafe

fun leaf_status_of :: "ProcessStatus \<Rightarrow> LeafStatus" where
  "leaf_status_of ProcessStatus.Passed = LeafStatus.Passed"
| "leaf_status_of ProcessStatus.Failed = LeafStatus.Failed"
| "leaf_status_of ProcessStatus.TimedOut = LeafStatus.TimedOut"
| "leaf_status_of ProcessStatus.Cancelled = LeafStatus.Cancelled"
| "leaf_status_of ProcessStatus.Unsafe = LeafStatus.Unsafe"

record ManifestCapture =
  mc_payload :: string
  mc_observed :: u64
  mc_truncated :: bool

text \<open>The service of a result is its process group.\<close>

record ProcessResult =
  px_status :: ProcessStatus
  px_exit_code :: "int option"
  px_reason :: "string option"
  px_streams :: "LogStreamSummary list"
  px_diagnostics :: "FailureIndexEntry list"
  px_log_storage_failed :: bool
  px_structured_evidence_invalid :: bool
  px_process_started :: bool
  px_service :: "int option"
  px_manifest :: "ManifestCapture option"

text \<open>The fields of the metadata file of a stream that the runner uses.\<close>

record StreamMetadata =
  sm_selector :: LeafSelector
  sm_stream :: LogStream
  sm_bytes :: u64
  sm_lines :: u64
  sm_first_write_epoch_ms :: "u64 option"
  sm_last_write_epoch_ms :: "u64 option"
  sm_complete :: bool
  sm_sha256 :: string

text \<open>
  The environment: the digest function, the decoders of reports, the files of the log store (a
  metadata file that is missing or malformed is \<open>None\<close>), whether publishing succeeds, and the
  reading of the wall clock.
\<close>

record Env =
  env_sha256 :: "string \<Rightarrow> string"
  env_decoders :: ReportDecoders
  env_stream_metadata :: "LeafSelector \<Rightarrow> LogStream \<Rightarrow> StreamMetadata option"
  env_read_report :: "LeafSelector \<Rightarrow> string \<Rightarrow> string option"
  env_publish_diagnostics :: "LeafSelector \<Rightarrow> FailureIndexEntry list \<Rightarrow> bool"
  env_publish :: "LeafLogMetadata \<Rightarrow> bool"
  env_epoch_ms :: u64

definition check_selector :: "string \<Rightarrow> LeafSelector" where
  "check_selector name = \<lparr>ls_check = Some name, ls_phase = LogPhase.Check, ls_case_id = None\<rparr>"

section \<open>Reasons\<close>

definition MAX_REASON_BYTES :: nat where
  "MAX_REASON_BYTES = 512"

text \<open>The bytes of the first character of a text: one byte and the continuation bytes behind it.\<close>

fun first_char :: "string \<Rightarrow> string" where
  "first_char [] = []"
| "first_char (c # cs) = c # takeWhile is_continuation_byte cs"

function reason_loop :: "string \<Rightarrow> string \<Rightarrow> string" where
  "reason_loop result s =
     (if s = [] then result
      else if MAX_REASON_BYTES < length result + length (first_char s) then result
      else reason_loop (result @ first_char s) (drop (length (first_char s)) s))"
  by pat_completeness auto
termination reason_loop
  by (relation "measure (\<lambda>(result, s). length s)") (auto simp: neq_Nil_conv)

declare reason_loop.simps [simp del]

definition bounded_reason :: "string \<Rightarrow> string" where
  "bounded_reason s = reason_loop [] s"

section \<open>Failure semantics of a process\<close>

definition process_failure_semantics ::
  "ProcessResult \<Rightarrow> CompletionMode \<Rightarrow> TerminationReason option \<times> ErrorCategory" where
  "process_failure_semantics process completion =
     (if px_log_storage_failed process then (Some UnsafeStop, ErrorCategory.LogStorage)
      else if px_structured_evidence_invalid process
      then (Some UnsafeStop, ErrorCategory.StructuredEvidenceInvalid)
      else if completion = Event \<and> px_status process = ProcessStatus.Failed \<and>
         \<not> optb (\<lambda>reason. str_contains reason ''before its completion event'' \<or>
              str_contains reason ''event process exited'') (px_reason process)
      then (None, ErrorCategory.Exception)
      else leaf_failure_semantics (leaf_status_of (px_status process)) (px_exit_code process)
             (px_reason process))"

definition leaf_failure ::
  "Env \<Rightarrow> string \<Rightarrow> CheckPlan \<Rightarrow> LeafSelector \<Rightarrow> ProcessResult \<Rightarrow> LeafStatus \<Rightarrow> TerminationReason option
   \<Rightarrow> ErrorCategory \<Rightarrow> FailureIndexEntry" where
  "leaf_failure env run check selector process status reason category =
     failure_entry (env_sha256 env) run (Some (cp_name check)) (ls_case_id selector) status
       (px_exit_code process) reason category (Some (ls_phase selector))"

section \<open>Streams\<close>

definition stream_summary :: "string \<Rightarrow> LeafSelector \<Rightarrow> LogStream \<Rightarrow> StreamMetadata \<Rightarrow> LogStreamSummary" where
  "stream_summary run selector stream metadata =
     \<lparr>lss_log_ref = \<lparr>lr_run_id = run, lr_check = ls_check selector, lr_phase = ls_phase selector,
        lr_case = ls_case_id selector, lr_stream = stream\<rparr>,
      lss_bytes = sm_bytes metadata, lss_lines = sm_lines metadata, lss_sha256 = sm_sha256 metadata,
      lss_first_write_epoch_ms = sm_first_write_epoch_ms metadata,
      lss_last_write_epoch_ms = sm_last_write_epoch_ms metadata, lss_complete = sm_complete metadata\<rparr>"

definition supplement_stream ::
  "Env \<Rightarrow> string \<Rightarrow> LeafSelector \<Rightarrow> LogStream \<Rightarrow> LogStreamSummary list \<Rightarrow> LogStreamSummary list" where
  "supplement_stream env run selector stream streams =
     (if list_ex (\<lambda>summary. lr_stream (lss_log_ref summary) = stream) streams then streams
      else case env_stream_metadata env selector stream of
        None \<Rightarrow> streams
      | Some metadata \<Rightarrow>
          if sm_selector metadata \<noteq> selector \<or> sm_stream metadata \<noteq> stream then streams
          else streams @ [stream_summary run selector stream metadata])"

definition supplement_stream_summaries ::
  "Env \<Rightarrow> string \<Rightarrow> LeafSelector \<Rightarrow> LogStreamSummary list \<Rightarrow> LogStreamSummary list" where
  "supplement_stream_summaries env run selector streams =
     sort_key (\<lambda>summary. log_stream_rank (lr_stream (lss_log_ref summary)))
       (fold (supplement_stream env run selector) [Stdout, Stderr] streams)"

definition streams_complete :: "ProcessResult \<Rightarrow> bool" where
  "streams_complete process \<longleftrightarrow> length (px_streams process) = 2 \<and> list_all lss_complete (px_streams process)"

definition require_streams :: "ProcessResult \<Rightarrow> ProcessResult" where
  "require_streams process =
     (if px_process_started process \<and> \<not> streams_complete process
      then process\<lparr>px_status := ProcessStatus.Unsafe, px_log_storage_failed := True,
             px_reason := Some ''log storage became incomplete''\<rparr>
      else process)"

section \<open>Declared reports\<close>

definition read_declared_diagnostics ::
  "Env \<Rightarrow> LeafSelector \<Rightarrow> DiagnosticReportSource \<Rightarrow> DiagnosticContext \<Rightarrow> FailureIndexEntry list option" where
  "read_declared_diagnostics env selector source context =
     (case env_read_report env selector (''diagnostics/'' @ drs_path source) of
        None \<Rightarrow> None
      | Some input \<Rightarrow>
          (case parse_declared_report (env_sha256 env) (env_decoders env) source input context of
             Inl e \<Rightarrow> None
           | Inr parsed \<Rightarrow> Some (nd_entries parsed)))"

text \<open>The loop over the declared sources: formats read, diagnostics, and whether one was invalid.\<close>

fun read_sources ::
  "Env \<Rightarrow> LeafSelector \<Rightarrow> DiagnosticContext \<Rightarrow> DiagnosticReportSource list
   \<Rightarrow> DiagnosticReportFormat list \<times> FailureIndexEntry list \<times> bool
   \<Rightarrow> DiagnosticReportFormat list \<times> FailureIndexEntry list \<times> bool" where
  "read_sources env selector context [] acc = acc"
| "read_sources env selector context (source # sources) (formats, diagnostics, invalid) =
     read_sources env selector context sources
       (case read_declared_diagnostics env selector source context of
          Some entries \<Rightarrow> (formats @ [drs_format source], diagnostics @ entries, invalid)
        | None \<Rightarrow> (formats, diagnostics, True))"

definition leaf_context :: "string \<Rightarrow> CheckPlan \<Rightarrow> LeafSelector \<Rightarrow> DiagnosticContext" where
  "leaf_context run check selector =
     \<lparr>dc_run_id = run, dc_check = cp_name check, dc_case = ls_case_id selector, dc_phase = ls_phase selector\<rparr>"

section \<open>The verdict\<close>

definition fail_on_diagnostics :: "ProcessResult \<Rightarrow> ProcessResult" where
  "fail_on_diagnostics process =
     (if px_diagnostics process \<noteq> [] \<and> px_status process = ProcessStatus.Passed
      then process\<lparr>px_status := ProcessStatus.Failed\<rparr> else process)"

definition mark_invalid_evidence ::
  "Env \<Rightarrow> string \<Rightarrow> CheckPlan \<Rightarrow> LeafSelector \<Rightarrow> ProcessResult \<Rightarrow> ProcessResult" where
  "mark_invalid_evidence env run check selector process =
     process\<lparr>px_status := ProcessStatus.Unsafe, px_structured_evidence_invalid := True,
       px_reason := Some ''structured diagnostic evidence is invalid'',
       px_diagnostics := px_diagnostics process @
         [leaf_failure env run check selector process LeafStatus.Unsafe (Some UnsafeStop)
            ErrorCategory.StructuredEvidenceInvalid]\<rparr>"

text \<open>A diagnostic of a qualification that is the one it expects.\<close>

definition expected_diagnostic :: "Env \<Rightarrow> CheckPlan \<Rightarrow> ProcessResult \<Rightarrow> FailureIndexEntry \<Rightarrow> bool" where
  "expected_diagnostic env check process diagnostic =
     (if fie_origin diagnostic = DiagnosticOrigin.Executor
      then fie_error_category diagnostic = ErrorCategory.ProcessExit \<and>
           de_code (fie_exit diagnostic) = px_exit_code process \<and>
           de_signal (fie_exit diagnostic) = None \<and> fie_termination_reason diagnostic = None
      else let canonical = (case cp_source_name check of
                 Some source_name \<Rightarrow> diagnostic\<lparr>fie_check := Some source_name\<rparr> | None \<Rightarrow> diagnostic)
           in cp_expected_failure check = Some (diagnostic_fingerprint (env_sha256 env) canonical))"

definition failed_as_expected :: "Env \<Rightarrow> CheckPlan \<Rightarrow> ProcessResult \<Rightarrow> bool" where
  "failed_as_expected env check process \<longleftrightarrow>
     px_process_started process \<and>
     px_exit_code process = Some (case cp_expected_exit_code check of Some code \<Rightarrow> code | None \<Rightarrow> 1) \<and>
     list_ex (\<lambda>diagnostic. fie_origin diagnostic \<noteq> DiagnosticOrigin.Executor) (px_diagnostics process) \<and>
     list_all (expected_diagnostic env check process) (px_diagnostics process)"

definition judge_qualification :: "Env \<Rightarrow> CheckPlan \<Rightarrow> ProcessResult \<Rightarrow> ProcessResult" where
  "judge_qualification env check process =
     (case px_status process of
        ProcessStatus.Failed \<Rightarrow>
          if failed_as_expected env check process
          then process\<lparr>px_status := ProcessStatus.Passed, px_reason := None, px_diagnostics := []\<rparr>
          else process\<lparr>px_reason := Some ''qualification failed for an unexpected diagnostic''\<rparr>
      | ProcessStatus.Passed \<Rightarrow>
          process\<lparr>px_status := ProcessStatus.Failed,
            px_reason := Some ''known failing fixture was not detected''\<rparr>
      | _ \<Rightarrow> process)"

definition ensure_executor_failure ::
  "Env \<Rightarrow> string \<Rightarrow> CheckPlan \<Rightarrow> LeafSelector \<Rightarrow> ProcessResult \<Rightarrow> ProcessResult" where
  "ensure_executor_failure env run check selector process =
     (let status = leaf_status_of (px_status process)
      in if \<not> LeafStatus_is_success status \<and>
            \<not> list_ex (\<lambda>entry. fie_origin entry = DiagnosticOrigin.Executor) (px_diagnostics process)
         then let (reason, category) = process_failure_semantics process (cp_completion check)
              in process\<lparr>px_diagnostics := px_diagnostics process @
                   [leaf_failure env run check selector process status reason category]\<rparr>
         else process)"

definition normalize_leaf ::
  "Env \<Rightarrow> string \<Rightarrow> CheckPlan \<Rightarrow> LeafSelector \<Rightarrow> ProcessResult \<Rightarrow> ProcessResult" where
  "normalize_leaf env run check selector process =
     (case normalize_diagnostics (env_sha256 env) (px_diagnostics process) of
        Inr normalized \<Rightarrow> process\<lparr>px_diagnostics := nd_entries normalized\<rparr>
      | Inl e \<Rightarrow> process\<lparr>px_status := ProcessStatus.Unsafe, px_structured_evidence_invalid := True,
          px_diagnostics := [leaf_failure env run check selector process LeafStatus.Unsafe
            (Some UnsafeStop) ErrorCategory.StructuredEvidenceInvalid]\<rparr>)"

text \<open>A leaf whose evidence cannot be stored.\<close>

definition lose_evidence ::
  "Env \<Rightarrow> string \<Rightarrow> CheckPlan \<Rightarrow> LeafSelector \<Rightarrow> string \<Rightarrow> ProcessResult \<Rightarrow> ProcessResult" where
  "lose_evidence env run check selector reason process =
     process\<lparr>px_status := ProcessStatus.Unsafe, px_log_storage_failed := True, px_reason := Some reason,
       px_diagnostics := px_diagnostics process @
         [leaf_failure env run check selector process LeafStatus.Unsafe (Some UnsafeStop)
            ErrorCategory.LogStorage]\<rparr>"

fun format_rank :: "DiagnosticReportFormat \<Rightarrow> nat" where
  "format_rank DiagnosticReportFormat.Junit = 0"
| "format_rank DiagnosticReportFormat.PlaywrightJson = 1"
| "format_rank DiagnosticReportFormat.RustJson = 2"
| "format_rank DiagnosticReportFormat.CoordinatorJson = 3"

definition leaf_metadata ::
  "Env \<Rightarrow> LeafSelector \<Rightarrow> u64 \<Rightarrow> DiagnosticReportFormat list \<Rightarrow> LeafStatus \<Rightarrow> ProcessResult \<Rightarrow> LeafLogMetadata" where
  "leaf_metadata env selector started formats status process =
     \<lparr>llm_selector = selector, llm_status = status, llm_exit = diagnostic_exit (px_exit_code process),
      llm_started_at_epoch_ms = started, llm_finished_at_epoch_ms = Some (env_epoch_ms env),
      llm_process_started = px_process_started process,
      llm_complete = (\<not> px_log_storage_failed process \<and>
        (\<not> px_process_started process \<or> streams_complete process)),
      llm_structured_evidence_formats = remdups_adj (sort_key format_rank formats),
      llm_structured_evidence_count = of_nat (length (px_diagnostics process))\<rparr>"

definition publish_leaf ::
  "Env \<Rightarrow> string \<Rightarrow> CheckPlan \<Rightarrow> LeafSelector \<Rightarrow> u64 \<Rightarrow> DiagnosticReportFormat list \<Rightarrow> ProcessResult \<Rightarrow> ProcessResult" where
  "publish_leaf env run check selector started formats process =
     (let process = (if env_publish_diagnostics env selector (px_diagnostics process) then process
            else lose_evidence env run check selector ''cannot publish structured diagnostic evidence'' process)
      in if env_publish env (leaf_metadata env selector started formats (leaf_status_of (px_status process)) process)
         then process
         else lose_evidence env run check selector ''cannot publish leaf log metadata'' process)"

definition judge_leaf ::
  "Env \<Rightarrow> string \<Rightarrow> CheckPlan \<Rightarrow> LeafSelector \<Rightarrow> bool \<Rightarrow> ProcessResult \<Rightarrow> ProcessResult" where
  "judge_leaf env run check selector invalid process =
     (let process = fail_on_diagnostics process;
          process = (if invalid then mark_invalid_evidence env run check selector process else process);
          process = (if cp_expect_failure check \<and> \<not> invalid \<and> \<not> px_log_storage_failed process
                     then judge_qualification env check process else process)
      in normalize_leaf env run check selector (ensure_executor_failure env run check selector process))"

definition finalize_leaf_evidence ::
  "Env \<Rightarrow> string \<Rightarrow> CheckPlan \<Rightarrow> LeafSelector \<Rightarrow> u64 \<Rightarrow> ProcessResult \<Rightarrow> ProcessResult" where
  "finalize_leaf_evidence env run check selector started process =
     (if px_service process \<noteq> None then process
      else
        let process = require_streams (process\<lparr>px_streams :=
              supplement_stream_summaries env run selector (px_streams process)\<rparr>);
            (formats, diagnostics, invalid) = read_sources env selector (leaf_context run check selector)
              (cp_diagnostic_sources check)
              ([], px_diagnostics process, px_structured_evidence_invalid process)
        in publish_leaf env run check selector started formats
             (judge_leaf env run check selector invalid (process\<lparr>px_diagnostics := diagnostics\<rparr>)))"

section \<open>Failures after the process\<close>

definition record_leaf_postprocess_failure ::
  "Env \<Rightarrow> string \<Rightarrow> CheckPlan \<Rightarrow> LeafSelector \<Rightarrow> u64 \<Rightarrow> LeafStatus \<Rightarrow> ErrorCategory \<Rightarrow> TerminationReason option
   \<Rightarrow> string option \<Rightarrow> ProcessResult \<Rightarrow> ProcessResult" where
  "record_leaf_postprocess_failure env run check selector started status category termination reason process =
     (let process = process\<lparr>
            px_status := (if status = LeafStatus.Unsafe then ProcessStatus.Unsafe else ProcessStatus.Failed),
            px_log_storage_failed := (px_log_storage_failed process \<or> category = ErrorCategory.LogStorage),
            px_structured_evidence_invalid := (px_structured_evidence_invalid process \<or>
              category = ErrorCategory.StructuredEvidenceInvalid),
            px_reason := or_else (map_option bounded_reason reason) (px_reason process)\<rparr>;
          entry = failure_entry_with_reason (env_sha256 env)
            (leaf_failure env run check selector process status termination category) (px_reason process);
          process = (case normalize_diagnostics (env_sha256 env) (px_diagnostics process @ [entry]) of
              Inr normalized \<Rightarrow> process\<lparr>px_diagnostics := nd_entries normalized\<rparr>
            | Inl e \<Rightarrow> process\<lparr>px_diagnostics := [], px_structured_evidence_invalid := True\<rparr>);
          diagnostics_failed = (\<not> env_publish_diagnostics env selector (px_diagnostics process));
          metadata_failed = (\<not> env_publish env (leaf_metadata env selector started
            (map drs_format (cp_diagnostic_sources check)) status process))
      in if diagnostics_failed \<or> metadata_failed
         then lose_evidence env run check selector ''cannot publish terminal leaf evidence'' process
         else process)"

section \<open>Reasons are bounded\<close>

lemma first_char_nonempty: "s \<noteq> [] \<Longrightarrow> first_char s \<noteq> []"
  by (cases s) simp_all

lemma first_char_append: "first_char s @ drop (length (first_char s)) s = s"
  by (cases s) (simp_all flip: dropWhile_eq_drop)

lemma reason_loop_bounded: "length result \<le> MAX_REASON_BYTES \<Longrightarrow>
    length (reason_loop result s) \<le> MAX_REASON_BYTES \<and> prefix (reason_loop result s) (result @ s)"
proof (induction result s rule: reason_loop.induct)
  case (1 result s)
  show ?case
  proof (cases "s = [] \<or> MAX_REASON_BYTES < length result + length (first_char s)")
    case True
    then show ?thesis using "1.prems" by (subst (1 2) reason_loop.simps) auto
  next
    case False
    then have "reason_loop result s = reason_loop (result @ first_char s) (drop (length (first_char s)) s)"
      by (subst reason_loop.simps) simp
    with "1.IH" False show ?thesis by (simp add: first_char_append)
  qed
qed

lemma bounded_reason_bounded: "length (bounded_reason s) \<le> 512 \<and> prefix (bounded_reason s) s"
  using reason_loop_bounded [of "[]" s] by (simp add: bounded_reason_def MAX_REASON_BYTES_def)

section \<open>Verdict and evidence agree\<close>

text \<open>A result whose verdict and diagnostics agree.\<close>

definition settled_leaf :: "ProcessResult \<Rightarrow> bool" where
  "settled_leaf process \<longleftrightarrow> (px_status process = ProcessStatus.Passed \<longleftrightarrow> px_diagnostics process = [])"

lemma leaf_status_success: "LeafStatus_is_success (leaf_status_of status) \<longleftrightarrow> status = ProcessStatus.Passed"
  by (cases status) (simp_all add: LeafStatus_is_success_def)

lemma normalize_empty_iff:
  assumes "normalize_diagnostics sha256 entries = Ok result"
  shows "nd_entries result = [] \<longleftrightarrow> entries = []"
proof -
  note ok = normalize_ok [OF assms]
  have "nd_entries result = [] \<longleftrightarrow> groups_of sha256 entries = []"
    by (simp add: ok(1) MAX_FAILURE_INDEX_def) (metis length_0_conv length_sort length_map)
  also have "\<dots> \<longleftrightarrow> fst ` set (groups_of sha256 entries) = {}" by simp
  finally show ?thesis by (simp add: groups_of_keys)
qed

lemma fail_on_diagnostics_settles:
  "px_status (fail_on_diagnostics process) = ProcessStatus.Passed \<Longrightarrow> px_diagnostics (fail_on_diagnostics process) = []"
  by (auto simp: fail_on_diagnostics_def split: if_splits)

lemma judge_qualification_settles:
  "(px_status process = ProcessStatus.Passed \<Longrightarrow> px_diagnostics process = []) \<Longrightarrow>
     px_status (judge_qualification env check process) = ProcessStatus.Passed \<Longrightarrow>
     px_diagnostics (judge_qualification env check process) = []"
  by (auto simp: judge_qualification_def split: ProcessStatus.splits if_splits)

lemma ensure_executor_failure_settles:
  assumes "px_status process = ProcessStatus.Passed \<Longrightarrow> px_diagnostics process = []"
  shows "settled_leaf (ensure_executor_failure env run check selector process)"
  using assms
  by (auto simp: settled_leaf_def ensure_executor_failure_def Let_def leaf_status_success list_ex_iff
      split: prod.splits)

lemma normalize_leaf_settles: "settled_leaf process \<Longrightarrow> settled_leaf (normalize_leaf env run check selector process)"
  using normalize_empty_iff
  by (auto simp: settled_leaf_def normalize_leaf_def split: sum.splits)

lemma lose_evidence_settles: "settled_leaf (lose_evidence env run check selector reason process)"
  by (simp add: settled_leaf_def lose_evidence_def)

lemma publish_leaf_settles: "settled_leaf process \<Longrightarrow> settled_leaf (publish_leaf env run check selector started formats process)"
  by (simp add: publish_leaf_def Let_def lose_evidence_settles)

lemma judge_leaf_settles: "settled_leaf (judge_leaf env run check selector invalid process)"
proof -
  let ?p1 = "fail_on_diagnostics process"
  let ?p2 = "if invalid then mark_invalid_evidence env run check selector ?p1 else ?p1"
  let ?p3 = "if cp_expect_failure check \<and> \<not> invalid \<and> \<not> px_log_storage_failed ?p2
    then judge_qualification env check ?p2 else ?p2"
  have "px_status ?p2 = ProcessStatus.Passed \<Longrightarrow> px_diagnostics ?p2 = []"
    using fail_on_diagnostics_settles [of process] by (auto simp: mark_invalid_evidence_def)
  then have "px_status ?p3 = ProcessStatus.Passed \<Longrightarrow> px_diagnostics ?p3 = []"
    using judge_qualification_settles [of ?p2] by (auto split: if_splits)
  then show ?thesis
    unfolding judge_leaf_def Let_def by (intro normalize_leaf_settles ensure_executor_failure_settles)
qed

text \<open>
  When the evidence of a leaf has been finalised, its verdict and its
  diagnostics agree, whatever the process, its reports and the log store did: the leaf passed
  exactly when it has no diagnostic, so that no failure is silent and no success carries one.
\<close>

theorem leaf_verdict_settled:
  assumes "px_service process = None"
  shows "px_status (finalize_leaf_evidence env run check selector started process) = ProcessStatus.Passed \<longleftrightarrow>
    px_diagnostics (finalize_leaf_evidence env run check selector started process) = []"
  using assms publish_leaf_settles [OF judge_leaf_settles]
  by (simp add: finalize_leaf_evidence_def Let_def settled_leaf_def split: prod.splits)

text \<open>A store in which everything can be published and no report was left.\<close>

definition sample_env :: Env where
  "sample_env = \<lparr>env_sha256 = (\<lambda>_. replicate 32 (CHR ''x'')), env_decoders = sample_decoders,
     env_stream_metadata = (\<lambda>_ _. None), env_read_report = (\<lambda>_ _. None),
     env_publish_diagnostics = (\<lambda>_ _. True), env_publish = (\<lambda>_. True), env_epoch_ms = 1000\<rparr>"

text \<open>A process whose logs were lost: it ended with code zero, and does not pass.\<close>

definition sample_process :: ProcessResult where
  "sample_process = \<lparr>px_status = ProcessStatus.Passed, px_exit_code = Some 0, px_reason = None,
     px_streams = [], px_diagnostics = [], px_log_storage_failed = False,
     px_structured_evidence_invalid = False, px_process_started = True, px_service = None,
     px_manifest = None\<rparr>"

definition sample_result :: ProcessResult where
  "sample_result =
     finalize_leaf_evidence sample_env ''run-1'' build_check (check_selector ''build'') 1 sample_process"

lemma sample_result_status: "px_status sample_result \<noteq> ProcessStatus.Passed"
  by (simp add: sample_result_def finalize_leaf_evidence_def sample_process_def sample_env_def
      supplement_stream_summaries_def supplement_stream_def require_streams_def streams_complete_def
      build_check_def sample_check_def judge_leaf_def fail_on_diagnostics_def ensure_executor_failure_def
      normalize_leaf_def publish_leaf_def Let_def LeafStatus_is_success_def
      split: sum.split prod.split)

theorem leaf_verdict_settled_witness:
  "px_status sample_result \<noteq> ProcessStatus.Passed \<and> px_diagnostics sample_result \<noteq> []"
  using sample_result_status leaf_verdict_settled [of sample_process sample_env "''run-1''" build_check
      "check_selector ''build''" 1]
  by (simp add: sample_result_def sample_process_def)

end
