(* ===== verification/Systems.thy ===== *)
theory Systems
  imports Protocol_Fields
begin

text \<open>
  Two contracts several components share.  A transition system has initial states and steps;
  what holds initially and is kept by every step holds in every reachable state (locale
  \<open>invariant_system\<close>).  A conflict relation is symmetric; owners of resources exclude each
  other when the claims of no two of them conflict, and a new owner may join when its claims
  conflict with nobody's (locale \<open>conflict_relation\<close>).
\<close>

section \<open>Transition systems\<close>

inductive reachable :: "('s \<Rightarrow> bool) \<Rightarrow> ('s \<Rightarrow> 's \<Rightarrow> bool) \<Rightarrow> 's \<Rightarrow> bool"
  for init :: "'s \<Rightarrow> bool" and step :: "'s \<Rightarrow> 's \<Rightarrow> bool" where
  initial: "init s \<Longrightarrow> reachable init step s"
| step: "reachable init step s \<Longrightarrow> step s s' \<Longrightarrow> reachable init step s'"

locale invariant_system =
  fixes init :: "'s \<Rightarrow> bool" and step :: "'s \<Rightarrow> 's \<Rightarrow> bool" and inv :: "'s \<Rightarrow> bool"
  assumes init_inv: "init s \<Longrightarrow> inv s"
    and step_inv: "inv s \<Longrightarrow> step s s' \<Longrightarrow> inv s'"
begin

lemma reachable_inv: "reachable init step s \<Longrightarrow> inv s"
  by (induction rule: reachable.induct) (auto intro: init_inv step_inv)

lemma steps_inv: "inv s \<Longrightarrow> step\<^sup>*\<^sup>* s s' \<Longrightarrow> inv s'"
  by (rotate_tac, induction rule: rtranclp_induct) (auto intro: step_inv)

end

section \<open>Exclusive owners\<close>

definition compatible :: "('c \<Rightarrow> 'c \<Rightarrow> bool) \<Rightarrow> 'c list \<Rightarrow> 'c list \<Rightarrow> bool" where
  "compatible conflict xs ys \<longleftrightarrow> (\<forall>x \<in> set xs. \<forall>y \<in> set ys. \<not> conflict x y)"

definition exclusive :: "('c \<Rightarrow> 'c \<Rightarrow> bool) \<Rightarrow> ('o \<Rightarrow> 'c list) \<Rightarrow> 'o set \<Rightarrow> bool" where
  "exclusive conflict claims owners \<longleftrightarrow>
     (\<forall>a \<in> owners. \<forall>b \<in> owners. a \<noteq> b \<longrightarrow> compatible conflict (claims a) (claims b))"

lemma exclusive_subset: "exclusive conflict claims S \<Longrightarrow> T \<subseteq> S \<Longrightarrow> exclusive conflict claims T"
  by (auto simp: exclusive_def)

lemma exclusive_empty [simp]: "exclusive conflict claims {}"
  by (simp add: exclusive_def)

locale conflict_relation =
  fixes conflict :: "'c \<Rightarrow> 'c \<Rightarrow> bool"
  assumes conflict_sym: "conflict x y \<Longrightarrow> conflict y x"
begin

lemma compatible_sym: "compatible conflict xs ys \<Longrightarrow> compatible conflict ys xs"
  by (auto simp: compatible_def dest: conflict_sym)

lemma exclusive_insert:
  "exclusive conflict claims S \<Longrightarrow> \<forall>b \<in> S. a \<noteq> b \<longrightarrow> compatible conflict (claims a) (claims b) \<Longrightarrow>
     exclusive conflict claims (insert a S)"
  by (auto simp: exclusive_def intro: compatible_sym)

lemma exclusive_insert_concat:
  assumes "exclusive conflict claims (set owners)"
    and "compatible conflict (claims a) (concat (map claims owners))"
  shows "exclusive conflict claims (insert a (set owners))"
proof (rule exclusive_insert [OF assms(1)], intro ballI impI)
  fix b
  assume "b \<in> set owners"
  with assms(2) show "compatible conflict (claims a) (claims b)" by (auto simp: compatible_def)
qed

end

interpretation resource: conflict_relation ResourceClaim_conflicts
  by unfold_locales (simp add: conflicts_sym)

end
