(* ===== verification/Schedule.thy ===== *)
theory Schedule
  imports Leaf_Evidence Systems
begin

text \<open>
  The scheduler of \<^verbatim>\<open>src/rust/executor-core/src/runner.rs\<close>: which checks are blocked, ready and
  admitted, and the loop of \<^verbatim>\<open>Executor::execute\<close> that launches them and takes up their outcomes.
  An access \<^verbatim>\<open>statuses[name]\<close> to a name that is not an active check is a panic, the value
  \<open>None\<close>.  What the code reads from outside is collected in \<open>Env\<close>; the readings of the wall
  clock within one operation are taken to be equal.
\<close>

section \<open>Start of a run\<close>

text \<open>
  \<open>resolve\<close> stands for joining a working directory to the root and resolving it,
  \<open>receipts_match\<close> and \<open>artifact_receipts\<close> for the digests of files.
\<close>

fun initialize_loop :: "(string \<Rightarrow> (ExecutorError, component list) result)
    \<Rightarrow> (ArtifactReceipt list \<Rightarrow> (ExecutorError, bool) result)
    \<Rightarrow> (string list \<Rightarrow> (ExecutorError, ArtifactReceipt list) result)
    \<Rightarrow> ExecutionPlan \<Rightarrow> component list \<Rightarrow> string \<Rightarrow> u64 \<Rightarrow> CheckPlan list
    \<Rightarrow> (ExecutorError, CheckRuntime list) result" where
  "initialize_loop resolve receipts_match artifact_receipts plan base started_at now [] = Ok []"
| "initialize_loop resolve receipts_match artifact_receipts plan base started_at now (check # checks) =
     then_do (resolve (cp_cwd check)) (\<lambda>resolved.
       if \<not> prefix base resolved
       then Err (ExecutorError (''check '' @ debug_str (cp_name check) @ '' cwd escapes the worktree''))
       else
         then_do (case bt_get (ep_reused plan) (cp_name check) of
                    Some receipts \<Rightarrow> then_do (receipts_match receipts) (\<lambda>ok.
                      if ok then Ok () else Err (ExecutorError (''reused evidence for '' @ debug_str (cp_name check) @ '' is stale'')))
                  | None \<Rightarrow> Ok ()) (\<lambda>_.
         then_do (artifact_receipts (cp_cache_inputs check)) (\<lambda>inputs.
         then_do (initialize_loop resolve receipts_match artifact_receipts plan base started_at now checks)
           (\<lambda>rest. Ok (new_runtime check (bt_get (ep_reused plan) (cp_name check))
              (cp_name check \<in> set (ep_reused_qualifications plan)) started_at inputs now # rest)))))"

definition initialize_checks where
  "initialize_checks resolve receipts_match artifact_receipts plan base started_at now =
     initialize_loop resolve receipts_match artifact_receipts plan base started_at now (active_checks plan)"

definition publish_reused_check :: "Env \<Rightarrow> string \<Rightarrow> u64 \<Rightarrow> CheckRuntime \<Rightarrow> CheckRuntime" where
  "publish_reused_check env run started check =
     (if rt_status check \<noteq> LeafStatus.Reused then check
      else if env_publish env
           \<lparr>llm_selector = check_selector (rt_name check), llm_status = LeafStatus.Reused,
            llm_exit = DiagnosticExit_default, llm_started_at_epoch_ms = started,
            llm_finished_at_epoch_ms = Some started, llm_process_started = False, llm_complete = True,
            llm_structured_evidence_formats = [], llm_structured_evidence_count = 0\<rparr>
      then check
      else (set_status LeafStatus.Unsafe check)\<lparr>rt_failures := rt_failures check @
             [failure_entry (env_sha256 env) run (Some (rt_name check)) None LeafStatus.Unsafe None
                (Some UnsafeStop) ErrorCategory.LogStorage (Some LogPhase.Check)]\<rparr>)"

definition publish_reused_leaf_metadata :: "Env \<Rightarrow> string \<Rightarrow> u64 \<Rightarrow> CheckRuntime list \<Rightarrow> CheckRuntime list" where
  "publish_reused_leaf_metadata env run started checks = map (publish_reused_check env run started) checks"

text \<open>The checks with which the loop of \<^verbatim>\<open>Executor::run\<close> starts.\<close>

definition start_checks where
  "start_checks env resolve receipts_match artifact_receipts plan base started_at now started =
     then_do (initialize_checks resolve receipts_match artifact_receipts plan base started_at now) (\<lambda>checks.
       Ok (publish_reused_leaf_metadata env (ep_run_id plan) started checks))"

section \<open>Invalidators\<close>

type_synonym invalidators = "(string, string list) btree_map"

definition push_invalidator :: "string \<Rightarrow> string \<Rightarrow> invalidators \<Rightarrow> invalidators" where
  "push_invalidator name target m =
     bt_insert target ((case bt_get m target of Some names \<Rightarrow> names | None \<Rightarrow> []) @ [name]) m"

definition invalidator_map :: "CheckRuntime list \<Rightarrow> invalidators" where
  "invalidator_map checks =
     bt_map sort (fold (\<lambda>check m. fold (\<lambda>target m.
         if target \<in> set (map rt_name checks) then push_invalidator (rt_name check) target m else m)
       (cp_invalidates (rt_plan check)) m) checks [])"

section \<open>Blocked checks\<close>

type_synonym statuses = "(string, LeafStatus) btree_map"

definition statuses_of :: "CheckRuntime list \<Rightarrow> statuses" where
  "statuses_of checks = fold (\<lambda>check m. bt_insert (rt_name check) (rt_status check) m) checks []"

text \<open>\<^verbatim>\<open>names.iter().all(|name| P(statuses[name]))\<close>, which stops at the first name that fails.\<close>

fun all_status :: "(LeafStatus \<Rightarrow> bool) \<Rightarrow> statuses \<Rightarrow> string list \<Rightarrow> bool option" where
  "all_status P statuses [] = Some True"
| "all_status P statuses (name # names) =
     (case bt_get statuses name of
        None \<Rightarrow> None
      | Some s \<Rightarrow> if P s then all_status P statuses names else Some False)"

text \<open>\<^verbatim>\<open>names.iter().filter(..).collect()\<close>, which reads the status of every name.\<close>

fun filter_status :: "(LeafStatus \<Rightarrow> bool) \<Rightarrow> statuses \<Rightarrow> string list \<Rightarrow> string list option" where
  "filter_status P statuses [] = Some []"
| "filter_status P statuses (name # names) =
     (case (bt_get statuses name, filter_status P statuses names) of
        (Some s, Some rest) \<Rightarrow> Some (if P s then name # rest else rest)
      | _ \<Rightarrow> None)"

definition did_not_pass :: "LeafStatus \<Rightarrow> bool" where
  "did_not_pass s \<longleftrightarrow> LeafStatus_is_terminal s \<and> \<not> LeafStatus_is_success s"

fun blocked_semantics :: "LeafStatus \<Rightarrow> TerminationReason option \<times> ErrorCategory" where
  "blocked_semantics LeafStatus.Invalidated = (None, ErrorCategory.Dependency)"
| "blocked_semantics LeafStatus.NotMeaningful = (None, ErrorCategory.Dependency)"
| "blocked_semantics LeafStatus.Cancelled = (Some RunCancelled, ErrorCategory.Cancellation)"
| "blocked_semantics LeafStatus.TimedOut = (Some DeadlineExceeded, ErrorCategory.Timeout)"
| "blocked_semantics LeafStatus.Unsafe = (Some UnsafeStop, ErrorCategory.Internal)"
| "blocked_semantics _ = (None, ErrorCategory.Internal)"

definition finish_blocked :: "Env \<Rightarrow> string \<Rightarrow> LeafStatus \<Rightarrow> CheckRuntime \<Rightarrow> CheckRuntime" where
  "finish_blocked env run status check =
     (let now = env_epoch_ms env;
          published = env_publish env
            \<lparr>llm_selector = check_selector (rt_name check), llm_status = status,
             llm_exit = DiagnosticExit_default,
             llm_started_at_epoch_ms = (case rt_started_epoch_ms check of Some t \<Rightarrow> t | None \<Rightarrow> now),
             llm_finished_at_epoch_ms = Some now, llm_process_started = False, llm_complete = True,
             llm_structured_evidence_formats = [], llm_structured_evidence_count = 0\<rparr>;
          final = (if published then status else LeafStatus.Unsafe);
          (reason, category) = (if published then blocked_semantics status
                                else (Some UnsafeStop, ErrorCategory.LogStorage))
      in check\<lparr>rt_report := (rt_report check)
             \<lparr>kr_status := final, kr_finished_at := Some (iso_at (now div 1000)),
              kr_duration_seconds := Some (Finite 0)\<rparr>,
           rt_failures := rt_failures check @
             [failure_entry (env_sha256 env) run (Some (rt_name check)) None final None reason
                category None]\<rparr>)"

text \<open>The body of the loop of \<^verbatim>\<open>mark_blocked_once\<close>.\<close>

definition block_check :: "Env \<Rightarrow> string \<Rightarrow> invalidators \<Rightarrow> statuses \<Rightarrow> CheckRuntime
    \<Rightarrow> CheckRuntime option" where
  "block_check env run invalidators statuses check =
     (if rt_status check \<noteq> LeafStatus.Pending \<or> cp_phase (rt_plan check) = CheckPhase.Cleanup
      then Some check
      else
        case (case bt_get invalidators (rt_name check) of
                Some preflights \<Rightarrow> filter_status did_not_pass statuses preflights
              | None \<Rightarrow> Some []) of
          None \<Rightarrow> None
        | Some failed \<Rightarrow>
            if failed \<noteq> [] then Some (finish_blocked env run LeafStatus.Invalidated check)
            else
              (case (filter_status did_not_pass statuses (cp_requires (rt_plan check)),
                     all_status LeafStatus_is_terminal statuses (cp_requires (rt_plan check))) of
                 (Some dependencies, Some all_terminal) \<Rightarrow>
                   Some (if all_terminal \<and> dependencies \<noteq> []
                         then finish_blocked env run LeafStatus.NotMeaningful check else check)
               | _ \<Rightarrow> None))"

fun traverse :: "('a \<Rightarrow> 'b option) \<Rightarrow> 'a list \<Rightarrow> 'b list option" where
  "traverse f [] = Some []"
| "traverse f (x # xs) =
     (case f x of
        None \<Rightarrow> None
      | Some y \<Rightarrow> (case traverse f xs of None \<Rightarrow> None | Some ys \<Rightarrow> Some (y # ys)))"

definition mark_blocked_once :: "Env \<Rightarrow> string \<Rightarrow> invalidators \<Rightarrow> CheckRuntime list
    \<Rightarrow> CheckRuntime list option" where
  "mark_blocked_once env run invalidators checks =
     traverse (block_check env run invalidators (statuses_of checks)) checks"

definition pending_count :: "CheckRuntime list \<Rightarrow> nat" where
  "pending_count checks = length (filter (\<lambda>check. rt_status check = LeafStatus.Pending) checks)"

lemma traverse_Some: "traverse f xs = Some ys \<longleftrightarrow> list_all2 (\<lambda>x y. f x = Some y) xs ys"
proof (induction xs arbitrary: ys)
  case (Cons x xs)
  show ?case
    by (cases ys; cases "f x"; cases "traverse f xs") (auto simp: Cons.IH [symmetric])
qed auto

lemma finish_blocked_status:
  "rt_status (finish_blocked env run status check) = status \<or>
   rt_status (finish_blocked env run status check) = LeafStatus.Unsafe"
  by (simp add: finish_blocked_def rt_status_def Let_def split: prod.splits)

lemma finish_blocked_plan [simp]:
  "rt_plan (finish_blocked env run status check) = rt_plan check"
  "rt_name (finish_blocked env run status check) = rt_name check"
  by (simp_all add: finish_blocked_def rt_name_def Let_def split: prod.splits)

lemma block_check_cases:
  "block_check env run invalidators statuses check = Some check' \<Longrightarrow>
     check' = check \<or>
     rt_status check = LeafStatus.Pending \<and> cp_phase (rt_plan check) \<noteq> CheckPhase.Cleanup \<and>
     (check' = finish_blocked env run LeafStatus.Invalidated check \<or>
      check' = finish_blocked env run LeafStatus.NotMeaningful check)"
  by (auto simp: block_check_def split: if_splits option.splits)

lemma block_check_pending:
  "block_check env run invalidators statuses check = Some check' \<Longrightarrow>
     rt_status check' = LeafStatus.Pending \<Longrightarrow> check' = check"
  using finish_blocked_status [of env run LeafStatus.Invalidated check]
    finish_blocked_status [of env run LeafStatus.NotMeaningful check]
  by (auto dest: block_check_cases)

lemma pending_count_le:
  "list_all2 (\<lambda>c c'. rt_status c' = LeafStatus.Pending \<longrightarrow> c' = c) cs cs' \<Longrightarrow>
     pending_count cs' \<le> pending_count cs"
  by (induction rule: list_all2_induct) (auto simp: pending_count_def)

lemma mark_blocked_once_all2:
  "mark_blocked_once env run invalidators checks = Some checks' \<Longrightarrow>
     list_all2 (\<lambda>c c'. rt_status c' = LeafStatus.Pending \<longrightarrow> c' = c) checks checks'"
  unfolding mark_blocked_once_def traverse_Some
  by (erule list_all2_mono) (blast dest: block_check_pending)

text \<open>The loop of \<^verbatim>\<open>mark_blocked\<close>: until a pass leaves the number of pending checks unchanged.\<close>

function mark_blocked :: "Env \<Rightarrow> string \<Rightarrow> invalidators \<Rightarrow> CheckRuntime list
    \<Rightarrow> CheckRuntime list option" where
  "mark_blocked env run invalidators checks =
     (case mark_blocked_once env run invalidators checks of
        None \<Rightarrow> None
      | Some checks' \<Rightarrow>
          if pending_count checks' = pending_count checks then Some checks'
          else mark_blocked env run invalidators checks')"
  by pat_completeness auto

termination
proof (relation "measure (\<lambda>(env, run, invalidators, checks). pending_count checks)", goal_cases)
  case (2 env run invalidators checks checks')
  then show ?case using pending_count_le [OF mark_blocked_once_all2 [OF 2(1)]] by simp
qed simp

declare mark_blocked.simps [simp del]

section \<open>Ready and admitted checks\<close>

definition is_ready :: "invalidators \<Rightarrow> statuses \<Rightarrow> CheckRuntime \<Rightarrow> bool option" where
  "is_ready invalidators statuses check =
     (let plan = rt_plan check; cleanup = (cp_phase plan = CheckPhase.Cleanup) in
      if rt_status check \<noteq> LeafStatus.Pending then Some False
      else case all_status LeafStatus_is_terminal statuses (cp_after plan @ cp_requires plan) of
        None \<Rightarrow> None
      | Some False \<Rightarrow> Some False
      | Some True \<Rightarrow>
          if cleanup then Some True
          else case all_status LeafStatus_is_success statuses (cp_requires plan) of
            None \<Rightarrow> None
          | Some False \<Rightarrow> Some False
          | Some True \<Rightarrow> all_status LeafStatus_is_success statuses
              (case bt_get invalidators (rt_name check) of Some names \<Rightarrow> names | None \<Rightarrow> []))"

fun filter_ready :: "invalidators \<Rightarrow> statuses \<Rightarrow> CheckRuntime list \<Rightarrow> string list option" where
  "filter_ready invalidators statuses [] = Some []"
| "filter_ready invalidators statuses (check # checks) =
     (case is_ready invalidators statuses check of
        None \<Rightarrow> None
      | Some b \<Rightarrow> map_option (\<lambda>names. if b then rt_name check # names else names)
                    (filter_ready invalidators statuses checks))"

definition ready_checks :: "invalidators \<Rightarrow> CheckRuntime list \<Rightarrow> string list option" where
  "ready_checks invalidators checks = filter_ready invalidators (statuses_of checks) checks"

definition claims_conflict :: "ResourceClaim list \<Rightarrow> ResourceClaim list \<Rightarrow> bool" where
  "claims_conflict claimed resources =
     list_ex (\<lambda>candidate. list_ex (ResourceClaim_conflicts candidate) claimed) resources"

fun admit_loop :: "CheckRuntime list \<Rightarrow> ResourceClaim list \<Rightarrow> string list \<Rightarrow> string list" where
  "admit_loop checks claimed [] = []"
| "admit_loop checks claimed (name # names) =
     (case find (\<lambda>check. rt_name check = name) checks of
        None \<Rightarrow> admit_loop checks claimed names
      | Some check \<Rightarrow>
          if claims_conflict claimed (cp_resources (rt_plan check))
          then admit_loop checks claimed names
          else name # admit_loop checks (claimed @ cp_resources (rt_plan check)) names)"

definition holds_resources :: "string list \<Rightarrow> CheckRuntime \<Rightarrow> bool" where
  "holds_resources services check \<longleftrightarrow> rt_status check = LeafStatus.Running \<or> rt_name check \<in> set services"

definition ready_checks_with_available_resources ::
  "invalidators \<Rightarrow> string list \<Rightarrow> CheckRuntime list \<Rightarrow> string list option" where
  "ready_checks_with_available_resources invalidators services checks =
     map_option (admit_loop checks
         (concat (map (\<lambda>check. cp_resources (rt_plan check)) (filter (holds_resources services) checks))))
       (ready_checks invalidators checks)"

section \<open>The run\<close>

datatype Abort = Cancelled | Stopped string | Unsafe string

record RunState =
  rs_checks :: "CheckRuntime list"
  rs_running :: "string list"
  rs_services :: "(string, int) btree_map"
  rs_abort :: "Abort option"
  rs_cancelled :: bool

definition mark_pending_cancelled :: "Env \<Rightarrow> string \<Rightarrow> bool \<Rightarrow> CheckRuntime list \<Rightarrow> CheckRuntime list" where
  "mark_pending_cancelled env run retain_cleanup checks =
     map (\<lambda>check.
       if rt_status check = LeafStatus.Pending \<and>
          \<not> (retain_cleanup \<and> cp_phase (rt_plan check) = CheckPhase.Cleanup)
       then finish_blocked env run LeafStatus.Cancelled check else check) checks"

definition is_unsafe :: "Abort option \<Rightarrow> bool" where
  "is_unsafe abort \<longleftrightarrow> (\<exists>reason. abort = Some (Abort.Unsafe reason))"

lemma is_unsafe_code [code]:
  "is_unsafe abort = (case abort of Some (Abort.Unsafe reason) \<Rightarrow> True | _ \<Rightarrow> False)"
  by (auto simp: is_unsafe_def split: option.splits Abort.splits)

definition launch_check :: "Env \<Rightarrow> CheckRuntime \<Rightarrow> CheckRuntime" where
  "launch_check env check =
     check\<lparr>rt_report := (rt_report check)\<lparr>kr_status := LeafStatus.Running, kr_started_at := None,
             kr_resource_waiting := cp_resources (rt_plan check) \<noteq> []\<rparr>,
           rt_started_epoch_ms := Some (env_epoch_ms env)\<rparr>"

fun launch_loop :: "Env \<Rightarrow> Abort option \<Rightarrow> string list \<Rightarrow> CheckRuntime list \<Rightarrow> string list
    \<Rightarrow> (ExecutorError, CheckRuntime list \<times> string list) result" where
  "launch_loop env abort [] checks running = Ok (checks, running)"
| "launch_loop env abort (name # names) checks running =
     then_do (check_index checks name) (\<lambda>index.
       if abort \<noteq> None \<and> cp_phase (rt_plan (checks ! index)) \<noteq> CheckPhase.Cleanup
       then launch_loop env abort names checks running
       else launch_loop env abort names (checks[index := launch_check env (checks ! index)])
              (running @ [name]))"

text \<open>The end of a pass of the loop: leave it, report that nothing can run, or wait.\<close>

datatype pass = Finished RunState | Waiting RunState | NoProgress | Panicked | Failing ExecutorError

definition conclude_pass :: "RunState \<Rightarrow> pass" where
  "conclude_pass s =
     (if list_all (\<lambda>check. LeafStatus_is_terminal (rt_status check)) (rs_checks s) then Finished s
      else if rs_running s = [] then NoProgress
      else Waiting s)"

definition schedule_pass :: "Env \<Rightarrow> string \<Rightarrow> invalidators \<Rightarrow> RunState \<Rightarrow> pass" where
  "schedule_pass env run invalidators s =
     (case mark_blocked env run invalidators (rs_checks s) of
        None \<Rightarrow> Panicked
      | Some checks \<Rightarrow>
          let abort = (if rs_cancelled s \<and> rs_abort s = None then Some Abort.Cancelled else rs_abort s);
              checks = (if abort \<noteq> None
                then mark_pending_cancelled env run (\<not> is_unsafe abort) checks else checks);
              s = s\<lparr>rs_checks := checks, rs_abort := abort\<rparr>
          in if is_unsafe abort then conclude_pass s
             else case ready_checks_with_available_resources invalidators (map fst (rs_services s)) checks of
               None \<Rightarrow> Panicked
             | Some names \<Rightarrow>
                 (case launch_loop env abort names checks (rs_running s) of
                    Inl error \<Rightarrow> Failing error
                  | Inr (checks, running) \<Rightarrow>
                      conclude_pass (s\<lparr>rs_checks := checks, rs_running := running\<rparr>)))"

text \<open>A finished check: its task left the set of running tasks and its outcome is applied.\<close>

definition take_outcome :: "nat \<Rightarrow> u64 \<Rightarrow> string \<Rightarrow> CheckOutcome \<Rightarrow> RunState
    \<Rightarrow> (ExecutorError, RunState) result" where
  "take_outcome clock now name outcome s =
     then_do (check_index (rs_checks s) name) (\<lambda>index.
       let failure_mode = cp_on_failure (rt_plan (rs_checks s ! index));
           status = oc_status outcome;
           (runtime, services) = apply_outcome clock now outcome (rs_checks s ! index, rs_services s);
           s = s\<lparr>rs_checks := (rs_checks s)[index := runtime], rs_services := services,
                 rs_running := remove1 name (rs_running s)\<rparr>
       in Ok (if rs_abort s = None \<and>
                 (status = LeafStatus.Unsafe \<or> \<not> LeafStatus_is_success status \<and> failure_mode = Stop)
              then s\<lparr>rs_abort := Some (if status = LeafStatus.Unsafe
                       then Abort.Unsafe (''check '' @ name @ '' became unsafe'')
                       else Abort.Stopped (''check '' @ name @ '' requested stop on failure'')),
                     rs_cancelled := True\<rparr>
              else s))"

section \<open>Services\<close>

record ServiceExit =
  se_exit_code :: "int option"
  se_streams :: "LogStreamSummary list"
  se_diagnostics :: "FailureIndexEntry list"
  se_log_storage_failed :: bool
  se_structured_evidence_invalid :: bool

text \<open>The result of a service that ended, as a process whose evidence is finalised.\<close>

definition exit_process :: "bool \<Rightarrow> ServiceExit \<Rightarrow> ProcessResult" where
  "exit_process cleanup exit =
     \<lparr>px_status = (if \<not> cleanup \<or> se_log_storage_failed exit \<or> se_structured_evidence_invalid exit
        then ProcessStatus.Unsafe else ProcessStatus.Passed),
      px_exit_code = se_exit_code exit, px_reason = None, px_streams = se_streams exit,
      px_diagnostics = se_diagnostics exit, px_log_storage_failed = se_log_storage_failed exit,
      px_structured_evidence_invalid = se_structured_evidence_invalid exit, px_process_started = True,
      px_service = None, px_manifest = None\<rparr>"

definition exit_runtime :: "Env \<Rightarrow> string \<Rightarrow> bool \<Rightarrow> ServiceExit \<Rightarrow> CheckRuntime \<Rightarrow> CheckRuntime" where
  "exit_runtime env run cleanup exit runtime =
     (let process = finalize_leaf_evidence env run (rt_plan runtime) (check_selector (rt_name runtime))
            (case rt_started_epoch_ms runtime of Some t \<Rightarrow> t | None \<Rightarrow> env_epoch_ms env)
            (exit_process cleanup exit);
          final = (if \<not> cleanup \<or> px_log_storage_failed process \<or> px_structured_evidence_invalid process
                   then LeafStatus.Unsafe
                   else if px_status process \<noteq> ProcessStatus.Passed then leaf_status_of (px_status process)
                   else rt_status runtime)
      in runtime\<lparr>rt_report := (rt_report runtime)\<lparr>kr_exit := diagnostic_exit (px_exit_code process),
             kr_streams := px_streams process, kr_status := final\<rparr>,
           rt_failures := rt_failures runtime @ px_diagnostics process\<rparr>)"

definition mark_service_exit :: "Env \<Rightarrow> string \<Rightarrow> bool \<Rightarrow> string \<Rightarrow> ServiceExit \<Rightarrow> CheckRuntime list
    \<Rightarrow> (ExecutorError, CheckRuntime list) result" where
  "mark_service_exit env run cleanup name exit checks =
     then_do (check_index checks name) (\<lambda>index.
       Ok (checks[index := exit_runtime env run cleanup exit (checks ! index)]))"

text \<open>A service that exits while the run still needs it makes the run unsafe.\<close>

definition lose_service :: "Env \<Rightarrow> string \<Rightarrow> string \<Rightarrow> ServiceExit \<Rightarrow> RunState
    \<Rightarrow> (ExecutorError, RunState) result" where
  "lose_service env run name exit s =
     then_do (mark_service_exit env run False name exit (rs_checks s)) (\<lambda>checks.
       let s = s\<lparr>rs_checks := checks, rs_services := bt_remove name (rs_services s)\<rparr>
       in Ok (if rs_abort s = None
              then s\<lparr>rs_abort := Some (Abort.Unsafe (''required long-lived check '' @ name @ '' exited'')),
                     rs_cancelled := True\<rparr>
              else s))"

text \<open>\<open>stop_services\<close> joins every service; \<open>exits\<close> lists them in the order they end.\<close>

fun stop_services :: "Env \<Rightarrow> string \<Rightarrow> (string \<times> ServiceExit) list \<Rightarrow> RunState
    \<Rightarrow> (ExecutorError, RunState) result" where
  "stop_services env run [] s = Ok s"
| "stop_services env run ((name, exit) # exits) s =
     then_do (mark_service_exit env run True name exit (rs_checks s)) (\<lambda>checks.
       stop_services env run exits
         (s\<lparr>rs_checks := checks, rs_services := bt_remove name (rs_services s)\<rparr>))"

definition services_done :: "RunState \<Rightarrow> bool" where
  "services_done s \<longleftrightarrow> rs_services s \<noteq> [] \<and>
     list_all (\<lambda>check. cp_phase (rt_plan check) = CheckPhase.Cleanup \<or>
       LeafStatus_is_terminal (rt_status check)) (rs_checks s)"

section \<open>The verdict\<close>

definition final_status :: "bool \<Rightarrow> RunState \<Rightarrow> RunStatus" where
  "final_status source_changed s =
     (if source_changed \<or> rs_abort s \<noteq> None \<or>
         list_ex (\<lambda>check. \<not> LeafStatus_is_success (rt_status check) \<or>
           list_ex (\<lambda>failure. fie_origin failure \<noteq> DiagnosticOrigin.Executor) (rt_failures check)) (rs_checks s)
      then RunStatus.Failed else RunStatus.Passed)"

section \<open>Steps of a run\<close>

definition initial_run :: "CheckRuntime list \<Rightarrow> RunState" where
  "initial_run checks =
     \<lparr>rs_checks = checks, rs_running = [], rs_services = [], rs_abort = None, rs_cancelled = False\<rparr>"

text \<open>
  The loop of \<^verbatim>\<open>execute\<close> interleaves these steps: a pass of the scheduler, a process observation,
  the outcome of a running check, the loss of a service, the stop of the services, the
  cancellation from outside, the branch of the loop that notices it while it waits, and the refreshing of
  all reports at the top of an iteration.  The outcome of a check is terminal.
\<close>

inductive run_step :: "string \<Rightarrow> invalidators \<Rightarrow> RunState \<Rightarrow> RunState \<Rightarrow> bool"
  for run :: string and invalidators :: invalidators where
  pass: "schedule_pass env run invalidators s = Waiting s' \<Longrightarrow> run_step run invalidators s s'"
| finish: "schedule_pass env run invalidators s = Finished s' \<Longrightarrow> run_step run invalidators s s'"
| observe: "apply_process_update update (rs_checks s, capacity) = Ok (checks, capacity') \<Longrightarrow>
     run_step run invalidators s (s\<lparr>rs_checks := checks\<rparr>)"
| outcome: "name \<in> set (rs_running s) \<Longrightarrow> LeafStatus_is_terminal (oc_status outcome) \<Longrightarrow>
     take_outcome clock now name outcome s = Ok s' \<Longrightarrow> run_step run invalidators s s'"
| lost: "bt_contains (rs_services s) name \<Longrightarrow> lose_service env run name exit s = Ok s' \<Longrightarrow>
     run_step run invalidators s s'"
| stop: "services_done s \<Longrightarrow> set (map fst exits) = set (map fst (rs_services s)) \<Longrightarrow>
     stop_services env run exits s = Ok s' \<Longrightarrow> run_step run invalidators s s'"
| cancel: "run_step run invalidators s (s\<lparr>rs_cancelled := True\<rparr>)"
| notice: "rs_cancelled s \<Longrightarrow> rs_abort s = None \<Longrightarrow>
     run_step run invalidators s (s\<lparr>rs_abort := Some Abort.Cancelled\<rparr>)"
| refresh: "run_step run invalidators s (s\<lparr>rs_checks := map refresh_execution (rs_checks s)\<rparr>)"

inductive_cases run_step_cases: "run_step run invalidators s s'"

section \<open>Statuses by name\<close>

definition names_of_checks :: "CheckRuntime list \<Rightarrow> string set" where
  "names_of_checks checks = rt_name ` set checks"

definition plans_of :: "CheckRuntime list \<Rightarrow> CheckPlan list" where
  "plans_of checks = map rt_plan checks"

lemma bt_ok_fold_insert: "bt_ok m \<Longrightarrow> bt_ok (fold (\<lambda>x. bt_insert (k x) (v x)) xs m)"
  by (induction xs arbitrary: m) simp_all

lemma bt_get_fold_other:
  "bt_ok m \<Longrightarrow> n \<notin> k ` set xs \<Longrightarrow> bt_get (fold (\<lambda>x. bt_insert (k x) (v x)) xs m) n = bt_get m n"
  by (induction xs arbitrary: m) (simp_all add: bt_get_insert)

lemma bt_get_fold_insert:
  "bt_ok m \<Longrightarrow> distinct (map k xs) \<Longrightarrow> x \<in> set xs \<Longrightarrow>
     bt_get (fold (\<lambda>x. bt_insert (k x) (v x)) xs m) (k x) = Some (v x)"
proof (induction xs arbitrary: m)
  case (Cons y xs)
  show ?case
  proof (cases "x = y")
    case True
    with Cons.prems show ?thesis by (simp add: bt_get_fold_other bt_get_insert)
  next
    case False
    with Cons.prems Cons.IH [of "bt_insert (k y) (v y) m"] show ?thesis by simp
  qed
qed simp

lemma statuses_get:
  assumes "distinct (map rt_name checks)" and "c \<in> set checks"
  shows "bt_get (statuses_of checks) (rt_name c) = Some (rt_status c)"
  unfolding statuses_of_def by (rule bt_get_fold_insert [OF bt_ok_Nil assms])

text \<open>The status of a name, for the names of active checks.\<close>

definition name_status :: "CheckRuntime list \<Rightarrow> (LeafStatus \<Rightarrow> bool) \<Rightarrow> string \<Rightarrow> bool" where
  "name_status checks P name \<longleftrightarrow> (\<exists>c \<in> set checks. rt_name c = name \<and> P (rt_status c))"

lemma all_status_known:
  assumes "distinct (map rt_name checks)"
  shows "set names \<subseteq> names_of_checks checks \<Longrightarrow>
    all_status P (statuses_of checks) names = Some (\<forall>n \<in> set names. name_status checks P n)"
proof (induction names)
  case (Cons n names)
  then obtain c where c: "c \<in> set checks" "rt_name c = n" by (auto simp: names_of_checks_def)
  have "name_status checks P n \<longleftrightarrow> P (rt_status c)"
    using c assms by (auto simp: name_status_def) (metis distinct_map inj_on_def)
  with Cons statuses_get [OF assms c(1)] c(2) show ?case by simp
qed simp

lemma filter_status_known:
  assumes "distinct (map rt_name checks)"
  shows "set names \<subseteq> names_of_checks checks \<Longrightarrow>
    filter_status P (statuses_of checks) names = Some (filter (name_status checks P) names)"
proof (induction names)
  case (Cons n names)
  then obtain c where c: "c \<in> set checks" "rt_name c = n" by (auto simp: names_of_checks_def)
  have "name_status checks P n \<longleftrightarrow> P (rt_status c)"
    using c assms by (auto simp: name_status_def) (metis distinct_map inj_on_def)
  with Cons statuses_get [OF assms c(1)] c(2) show ?case by simp
qed simp

section \<open>Graphs of active checks\<close>

definition inv_names :: "invalidators \<Rightarrow> string \<Rightarrow> string list" where
  "inv_names invalidators name =
     (case bt_get invalidators name of Some names \<Rightarrow> names | None \<Rightarrow> [])"

text \<open>
  What the loop relies on: names are unique, the names a check waits for are active, and the
  invalidators are those of the plans.
\<close>

definition graph_ok :: "invalidators \<Rightarrow> CheckPlan list \<Rightarrow> bool" where
  "graph_ok invalidators plans \<longleftrightarrow>
     distinct (map cp_name plans) \<and>
     (\<forall>p \<in> set plans. set (cp_after p) \<union> set (cp_requires p) \<subseteq> cp_name ` set plans) \<and>
     (\<forall>p \<in> set plans. set (inv_names invalidators (cp_name p)) =
        {cp_name q | q. q \<in> set plans \<and> cp_name p \<in> set (cp_invalidates q)})"

text \<open>What the blocking of checks relies on, which never looks at what a cleanup check waits for.\<close>

definition blocking_ok :: "invalidators \<Rightarrow> CheckPlan list \<Rightarrow> bool" where
  "blocking_ok invalidators plans \<longleftrightarrow>
     distinct (map cp_name plans) \<and>
     (\<forall>p \<in> set plans. cp_phase p \<noteq> CheckPhase.Cleanup \<longrightarrow> set (cp_requires p) \<subseteq> cp_name ` set plans) \<and>
     (\<forall>p \<in> set plans. set (inv_names invalidators (cp_name p)) =
        {cp_name q | q. q \<in> set plans \<and> cp_name p \<in> set (cp_invalidates q)})"

lemma graph_ok_blocking: "graph_ok invalidators plans \<Longrightarrow> blocking_ok invalidators plans"
  by (auto simp: graph_ok_def blocking_ok_def)

definition name_edges :: "CheckPlan list \<Rightarrow> (string \<times> string) set" where
  "name_edges plans = {(cp_name p, cp_name q) | p q. p \<in> set plans \<and> q \<in> set plans \<and>
     (cp_name p \<in> set (cp_after q) \<union> set (cp_requires q) \<or> cp_name q \<in> set (cp_invalidates p))}"

lemma plans_names: "map cp_name (plans_of checks) = map rt_name checks"
  by (simp add: plans_of_def rt_name_def)

lemma plans_names_set: "cp_name ` set (plans_of checks) = names_of_checks checks"
  by (auto simp: plans_of_def names_of_checks_def rt_name_def)

lemma graph_ok_facts:
  assumes "graph_ok invalidators (plans_of checks)" and "c \<in> set checks"
  shows "distinct (map rt_name checks)"
    and "set (cp_after (rt_plan c)) \<subseteq> names_of_checks checks"
    and "set (cp_requires (rt_plan c)) \<subseteq> names_of_checks checks"
    and "set (inv_names invalidators (rt_name c)) \<subseteq> names_of_checks checks"
proof -
  have p: "rt_plan c \<in> set (plans_of checks)" using assms(2) by (simp add: plans_of_def)
  show "distinct (map rt_name checks)" using assms(1) by (simp add: graph_ok_def plans_names)
  show "set (cp_after (rt_plan c)) \<subseteq> names_of_checks checks"
    and "set (cp_requires (rt_plan c)) \<subseteq> names_of_checks checks"
    using assms(1) p by (auto simp: graph_ok_def plans_names_set)
  show "set (inv_names invalidators (rt_name c)) \<subseteq> names_of_checks checks"
    using assms(1) p by (force simp: graph_ok_def rt_name_def plans_names_set [symmetric])
qed

lemma blocking_ok_facts:
  assumes "blocking_ok invalidators (plans_of checks)" and "c \<in> set checks"
  shows "distinct (map rt_name checks)"
    and "cp_phase (rt_plan c) \<noteq> CheckPhase.Cleanup \<Longrightarrow> set (cp_requires (rt_plan c)) \<subseteq> names_of_checks checks"
    and "set (inv_names invalidators (rt_name c)) \<subseteq> names_of_checks checks"
proof -
  have p: "rt_plan c \<in> set (plans_of checks)" using assms(2) by (simp add: plans_of_def)
  show "distinct (map rt_name checks)" using assms(1) by (simp add: blocking_ok_def plans_names)
  show "cp_phase (rt_plan c) \<noteq> CheckPhase.Cleanup \<Longrightarrow> set (cp_requires (rt_plan c)) \<subseteq> names_of_checks checks"
    using assms(1) p by (auto simp: blocking_ok_def plans_names_set)
  show "set (inv_names invalidators (rt_name c)) \<subseteq> names_of_checks checks"
    using assms(1) p by (force simp: blocking_ok_def rt_name_def plans_names_set [symmetric])
qed

lemma name_edges_finite: "finite (name_edges plans)"
proof (rule finite_subset)
  show "name_edges plans \<subseteq> (cp_name ` set plans) \<times> (cp_name ` set plans)"
    by (auto simp: name_edges_def)
qed simp

lemma name_edges_subset: "set ps \<subseteq> set qs \<Longrightarrow> name_edges ps \<subseteq> name_edges qs"
  by (auto simp: name_edges_def)

lemma name_edges_index:
  assumes "distinct (map cp_name plans)" and "(a, b) \<in> (name_edges plans)\<^sup>+"
  shows "\<exists>i j. i < length plans \<and> j < length plans \<and> cp_name (plans ! i) = a \<and> cp_name (plans ! j) = b \<and>
           (i, j) \<in> (plan_edges plans)\<^sup>+"
  using assms(2)
proof (induction rule: trancl_induct)
  case (base b)
  then show ?case by (fastforce simp: name_edges_def plan_edges_def in_set_conv_nth)
next
  case (step b c)
  then obtain i j where ij: "i < length plans" "j < length plans" "cp_name (plans ! i) = a"
    "cp_name (plans ! j) = b" "(i, j) \<in> (plan_edges plans)\<^sup>+" by blast
  from step.hyps(2) obtain j' k where jk: "j' < length plans" "k < length plans"
    "cp_name (plans ! j') = b" "cp_name (plans ! k) = c" "(j', k) \<in> plan_edges plans"
    by (fastforce simp: name_edges_def plan_edges_def in_set_conv_nth)
  have "j' = j" using distinct_map_index_inj [OF assms(1) jk(1) ij(2)] ij(4) jk(3) by simp
  with ij(5) jk(5) have "(i, k) \<in> (plan_edges plans)\<^sup>+" by (blast intro: trancl_into_trancl)
  with ij(1,3) jk(2,4) show ?case by blast
qed

lemma name_edges_acyclic:
  assumes "distinct (map cp_name plans)" and "acyclic (plan_edges plans)"
  shows "acyclic (name_edges plans)"
proof (rule acyclicI, rule allI, rule notI)
  fix a
  assume "(a, a) \<in> (name_edges plans)\<^sup>+"
  from name_edges_index [OF assms(1) this] obtain i j where
    "i < length plans" "j < length plans" "cp_name (plans ! i) = cp_name (plans ! j)"
    "(i, j) \<in> (plan_edges plans)\<^sup>+" by metis
  moreover from this have "i = j" using distinct_map_index_inj [OF assms(1)] by blast
  ultimately show False using assms(2) by (simp add: acyclic_def)
qed

section \<open>Blocking reaches a fixed point\<close>

definition blocked_by :: "CheckRuntime \<Rightarrow> CheckRuntime \<Rightarrow> bool" where
  "blocked_by c c' \<longleftrightarrow> c' = c \<or>
     rt_status c = LeafStatus.Pending \<and> cp_phase (rt_plan c) \<noteq> CheckPhase.Cleanup \<and>
     did_not_pass (rt_status c') \<and> rt_plan c' = rt_plan c"

lemma finish_blocked_did_not_pass:
  "did_not_pass status \<Longrightarrow> did_not_pass (rt_status (finish_blocked env run status c))"
  using finish_blocked_status [of env run status c]
  by (auto simp: did_not_pass_def LeafStatus_is_terminal_def LeafStatus_is_success_def)

lemma did_not_pass_simps [simp]:
  "did_not_pass LeafStatus.Invalidated" "did_not_pass LeafStatus.NotMeaningful"
  "did_not_pass LeafStatus.Cancelled" "\<not> did_not_pass LeafStatus.Pending" "\<not> did_not_pass LeafStatus.Running"
  by (auto simp: did_not_pass_def LeafStatus_is_terminal_def LeafStatus_is_success_def)

lemma mark_blocked_once_blocked:
  "mark_blocked_once env run invalidators checks = Some checks' \<Longrightarrow> list_all2 blocked_by checks checks'"
  unfolding mark_blocked_once_def traverse_Some
  by (erule list_all2_mono)
    (auto simp: blocked_by_def finish_blocked_did_not_pass dest!: block_check_cases)

lemma blocked_by_trans: "blocked_by a b \<Longrightarrow> blocked_by b c \<Longrightarrow> blocked_by a c"
  by (auto simp: blocked_by_def)

lemma pending_count_equal:
  "list_all2 blocked_by cs cs' \<Longrightarrow> pending_count cs' = pending_count cs \<Longrightarrow> cs' = cs"
proof (induction rule: list_all2_induct)
  case (Cons c cs c' cs')
  have "pending_count cs' \<le> pending_count cs"
    by (rule pending_count_le, rule list_all2_mono [OF Cons.hyps(2)]) (auto simp: blocked_by_def)
  with Cons.hyps(1) Cons.prems have "c' = c"
    by (auto simp: pending_count_def blocked_by_def split: if_splits)
  with Cons show ?case by (auto simp: pending_count_def split: if_splits)
qed simp

lemma mark_blocked_Some:
  "mark_blocked env run invalidators cs = Some cs' \<longleftrightarrow>
     (\<exists>n. mark_blocked_once env run invalidators cs = Some n \<and>
        (if pending_count n = pending_count cs then cs' = n
         else mark_blocked env run invalidators n = Some cs'))"
  by (subst mark_blocked.simps) (auto split: option.splits)

lemma mark_blocked_fixpoint:
  "mark_blocked env run invalidators checks = Some checks' \<Longrightarrow>
     mark_blocked_once env run invalidators checks' = Some checks' \<and> list_all2 blocked_by checks checks'"
proof (induction env run invalidators checks rule: mark_blocked.induct)
  case (1 env run invalidators checks)
  from "1.prems" obtain next_checks where
    once: "mark_blocked_once env run invalidators checks = Some next_checks"
    and rest: "if pending_count next_checks = pending_count checks then checks' = next_checks
               else mark_blocked env run invalidators next_checks = Some checks'"
    unfolding mark_blocked_Some [of env run invalidators checks] by blast
  note blocked = mark_blocked_once_blocked [OF once]
  show ?case
  proof (cases "pending_count next_checks = pending_count checks")
    case True
    have "next_checks = checks" by (rule pending_count_equal [OF blocked True])
    with rest True once blocked show ?thesis by metis
  next
    case False
    with rest have "mark_blocked env run invalidators next_checks = Some checks'" by simp
    note IH = "1.IH" [OF once False this]
    have "list_all2 blocked_by checks checks'"
      using list_all2_trans [OF blocked_by_trans blocked conjunct2 [OF IH]] .
    with IH show ?thesis by simp
  qed
qed

lemma blocked_plans: "list_all2 blocked_by cs cs' \<Longrightarrow> plans_of cs' = plans_of cs"
  by (induction rule: list_all2_induct) (auto simp: plans_of_def blocked_by_def)

lemma block_check_known:
  assumes "blocking_ok invalidators (plans_of checks)" and "c \<in> set checks"
  shows "\<exists>c'. block_check env run invalidators (statuses_of checks) c = Some c'"
proof (cases "cp_phase (rt_plan c) = CheckPhase.Cleanup")
  case False
  note facts = blocking_ok_facts [OF assms]
  show ?thesis
    using filter_status_known [OF facts(1) facts(2) [OF False]] all_status_known [OF facts(1) facts(2) [OF False]]
      filter_status_known [OF facts(1,3)]
    by (auto simp: block_check_def inv_names_def split: option.splits)
qed (simp add: block_check_def)

lemma traverse_total: "(\<forall>x \<in> set xs. \<exists>y. f x = Some y) \<Longrightarrow> \<exists>ys. traverse f xs = Some ys"
  by (induction xs) auto

lemma mark_blocked_known:
  "blocking_ok invalidators (plans_of checks) \<Longrightarrow>
     \<exists>checks'. mark_blocked env run invalidators checks = Some checks'"
proof (induction env run invalidators checks rule: mark_blocked.induct)
  case (1 env run invalidators checks)
  have "\<exists>checks'. mark_blocked_once env run invalidators checks = Some checks'"
    unfolding mark_blocked_once_def
    by (rule traverse_total) (use "1.prems" block_check_known in blast)
  then obtain next_checks where once: "mark_blocked_once env run invalidators checks = Some next_checks"
    by blast
  have "blocking_ok invalidators (plans_of next_checks)"
    using "1.prems" blocked_plans [OF mark_blocked_once_blocked [OF once]] by simp
  note IH = "1.IH" [OF once _ this]
  show ?case
  proof (cases "pending_count next_checks = pending_count checks")
    case True
    with once show ?thesis unfolding mark_blocked_Some [of env run invalidators checks] by auto
  next
    case False
    with once IH show ?thesis unfolding mark_blocked_Some [of env run invalidators checks] by auto
  qed
qed

section \<open>Ready checks\<close>

text \<open>When a pending check may start.\<close>

definition startable :: "invalidators \<Rightarrow> CheckRuntime list \<Rightarrow> CheckRuntime \<Rightarrow> bool" where
  "startable invalidators checks c \<longleftrightarrow> rt_status c = LeafStatus.Pending \<and>
     (\<forall>n \<in> set (cp_after (rt_plan c)) \<union> set (cp_requires (rt_plan c)).
        name_status checks LeafStatus_is_terminal n) \<and>
     (cp_phase (rt_plan c) = CheckPhase.Cleanup \<or>
      (\<forall>n \<in> set (cp_requires (rt_plan c)) \<union> set (inv_names invalidators (rt_name c)).
         name_status checks LeafStatus_is_success n))"

lemma is_ready_known:
  assumes "graph_ok invalidators (plans_of checks)" and "c \<in> set checks"
  shows "is_ready invalidators (statuses_of checks) c = Some (startable invalidators checks c)"
proof -
  note facts = graph_ok_facts [OF assms]
  have "set (cp_after (rt_plan c) @ cp_requires (rt_plan c)) \<subseteq> names_of_checks checks"
    using facts by simp
  note known = all_status_known [OF facts(1) this] all_status_known [OF facts(1,3)]
    all_status_known [OF facts(1,4)]
  show ?thesis
    using known
    by (auto simp: is_ready_def startable_def Let_def inv_names_def split: option.splits bool.splits)
qed

lemma filter_ready_known:
  assumes "graph_ok invalidators (plans_of checks)"
  shows "set cs \<subseteq> set checks \<Longrightarrow>
    filter_ready invalidators (statuses_of checks) cs =
      Some (map rt_name (filter (startable invalidators checks) cs))"
  by (induction cs) (auto simp: is_ready_known [OF assms])

lemma ready_checks_known:
  "graph_ok invalidators (plans_of checks) \<Longrightarrow>
     ready_checks invalidators checks = Some (map rt_name (filter (startable invalidators checks) checks))"
  unfolding ready_checks_def by (rule filter_ready_known) simp_all

section \<open>The scheduler is never stuck\<close>

definition unblocked :: "invalidators \<Rightarrow> CheckRuntime list \<Rightarrow> bool" where
  "unblocked invalidators checks \<longleftrightarrow>
     (\<forall>c \<in> set checks. rt_status c = LeafStatus.Pending \<longrightarrow> cp_phase (rt_plan c) \<noteq> CheckPhase.Cleanup \<longrightarrow>
        (\<forall>n \<in> set (inv_names invalidators (rt_name c)). \<not> name_status checks did_not_pass n) \<and>
        ((\<forall>n \<in> set (cp_requires (rt_plan c)). name_status checks LeafStatus_is_terminal n) \<longrightarrow>
         (\<forall>n \<in> set (cp_requires (rt_plan c)). \<not> name_status checks did_not_pass n)))"

definition none_running :: "CheckRuntime list \<Rightarrow> bool" where
  "none_running checks \<longleftrightarrow> (\<forall>c \<in> set checks. rt_status c \<noteq> LeafStatus.Running)"

lemma list_all2_diag: "list_all2 P xs xs \<Longrightarrow> x \<in> set xs \<Longrightarrow> P x x"
  by (induction xs) auto

lemma finish_blocked_neq:
  "rt_status c = LeafStatus.Pending \<Longrightarrow> did_not_pass status \<Longrightarrow> finish_blocked env run status c \<noteq> c"
  using finish_blocked_did_not_pass [of status env run c] by auto

lemma fixpoint_unblocked:
  assumes "mark_blocked_once env run invalidators checks = Some checks"
    and "blocking_ok invalidators (plans_of checks)"
  shows "unblocked invalidators checks"
  unfolding unblocked_def
proof (intro ballI impI)
  fix c
  assume c: "c \<in> set checks" and pending: "rt_status c = LeafStatus.Pending"
    and phase: "cp_phase (rt_plan c) \<noteq> CheckPhase.Cleanup"
  note facts = blocking_ok_facts(1) [OF assms(2) c] blocking_ok_facts(2) [OF assms(2) c phase] blocking_ok_facts(3) [OF assms(2) c]
  have same: "block_check env run invalidators (statuses_of checks) c = Some c"
    using list_all2_diag [OF assms(1) [unfolded mark_blocked_once_def traverse_Some] c] .
  have inv: "(case bt_get invalidators (rt_name c) of
      Some preflights \<Rightarrow> filter_status did_not_pass (statuses_of checks) preflights | None \<Rightarrow> Some []) =
      Some (filter (name_status checks did_not_pass) (inv_names invalidators (rt_name c)))"
    using filter_status_known [OF facts(1,3), where P = did_not_pass]
    by (cases "bt_get invalidators (rt_name c)") (simp_all add: inv_names_def)
  have no_inv: "filter (name_status checks did_not_pass) (inv_names invalidators (rt_name c)) = []"
    using same pending phase finish_blocked_neq [OF pending]
    by (auto simp: block_check_def inv split: if_splits)
  have "\<not> ((\<forall>n \<in> set (cp_requires (rt_plan c)). name_status checks LeafStatus_is_terminal n) \<and>
      filter (name_status checks did_not_pass) (cp_requires (rt_plan c)) \<noteq> [])"
    using same pending phase no_inv finish_blocked_neq [OF pending]
      filter_status_known [OF facts(1,2)] all_status_known [OF facts(1,2)]
    by (auto simp: block_check_def inv split: if_splits)
  with no_inv show "(\<forall>n \<in> set (inv_names invalidators (rt_name c)). \<not> name_status checks did_not_pass n) \<and>
      ((\<forall>n \<in> set (cp_requires (rt_plan c)). name_status checks LeafStatus_is_terminal n) \<longrightarrow>
       (\<forall>n \<in> set (cp_requires (rt_plan c)). \<not> name_status checks did_not_pass n))"
    by (auto simp: filter_empty_conv)
qed

lemma terminal_iff: "LeafStatus_is_terminal s \<longleftrightarrow> s \<noteq> LeafStatus.Pending \<and> s \<noteq> LeafStatus.Running"
  by (auto simp: LeafStatus_is_terminal_def)

lemma name_status_cases:
  assumes "n \<in> names_of_checks checks" and "none_running checks"
    and "\<not> name_status checks (\<lambda>s. s = LeafStatus.Pending) n"
  shows "name_status checks LeafStatus_is_terminal n"
    and "\<not> name_status checks did_not_pass n \<Longrightarrow> name_status checks LeafStatus_is_success n"
  using assms by (auto simp: name_status_def names_of_checks_def none_running_def terminal_iff did_not_pass_def)

lemma startable_exists:
  assumes graph: "graph_ok invalidators (plans_of checks)" and acyclic: "acyclic (name_edges (plans_of checks))"
    and idle: "none_running checks" and unblocked: "unblocked invalidators checks"
    and pending: "c0 \<in> set checks" "rt_status c0 = LeafStatus.Pending"
  shows "\<exists>c \<in> set checks. startable invalidators checks c"
proof -
  let ?Q = "{rt_name c | c. c \<in> set checks \<and> rt_status c = LeafStatus.Pending}"
  have "wf (name_edges (plans_of checks))" by (rule finite_acyclic_wf [OF name_edges_finite acyclic])
  moreover have "rt_name c0 \<in> ?Q" using pending by blast
  ultimately obtain z where z: "z \<in> ?Q" "\<And>y. (y, z) \<in> name_edges (plans_of checks) \<Longrightarrow> y \<notin> ?Q"
    by (metis (no_types, lifting) wfE_min)
  then obtain c where c: "c \<in> set checks" "rt_status c = LeafStatus.Pending" "rt_name c = z" by blast
  note facts = graph_ok_facts [OF graph c(1)]
  have plan: "rt_plan c \<in> set (plans_of checks)" using c(1) by (simp add: plans_of_def)
  have settled: "\<not> name_status checks (\<lambda>s. s = LeafStatus.Pending) n"
    if "(n, z) \<in> name_edges (plans_of checks)" for n
    using z(2) [OF that] by (auto simp: name_status_def)
  have dep: "(n, z) \<in> name_edges (plans_of checks)"
    if "n \<in> set (cp_after (rt_plan c)) \<union> set (cp_requires (rt_plan c))" for n
  proof -
    have "n \<in> cp_name ` set (plans_of checks)" using facts(2,3) that by (auto simp: plans_names_set)
    then show ?thesis using that plan c(3) by (auto simp: name_edges_def rt_name_def)
  qed
  have inv: "(n, z) \<in> name_edges (plans_of checks)" if n: "n \<in> set (inv_names invalidators z)" for n
  proof -
    from graph plan n c(3) obtain q where "q \<in> set (plans_of checks)" "n = cp_name q" "z \<in> set (cp_invalidates q)"
      by (auto simp: graph_ok_def rt_name_def)
    then show ?thesis using plan c(3) by (auto simp: name_edges_def rt_name_def)
  qed
  have terminal: "name_status checks LeafStatus_is_terminal n"
    if "n \<in> set (cp_after (rt_plan c)) \<union> set (cp_requires (rt_plan c))" for n
    using name_status_cases(1) [OF _ idle settled [OF dep [OF that]]] that facts(2,3) by blast
  have success: "name_status checks LeafStatus_is_success n"
    if "cp_phase (rt_plan c) \<noteq> CheckPhase.Cleanup"
      "n \<in> set (cp_requires (rt_plan c)) \<union> set (inv_names invalidators (rt_name c))" for n
  proof -
    have "\<not> name_status checks did_not_pass n"
      using unblocked that c(1,2) terminal unfolding unblocked_def by blast
    moreover have "n \<in> names_of_checks checks" using that(2) facts(3,4) by blast
    moreover have "(n, z) \<in> name_edges (plans_of checks)" using that(2) dep inv c(3) by blast
    ultimately show ?thesis using name_status_cases(2) [OF _ idle settled] by blast
  qed
  have "startable invalidators checks c"
    using c(2) terminal success unfolding startable_def by blast
  with c(1) show ?thesis by blast
qed

lemma check_index_known:
  assumes "name \<in> names_of_checks checks"
  shows "\<exists>i < length checks. check_index checks name = Ok i \<and> rt_name (checks ! i) = name"
proof -
  have "find (\<lambda>i. rt_name (checks ! i) = name) [0..<length checks] \<noteq> None"
    using assms by (auto simp: find_None_iff names_of_checks_def in_set_conv_nth)
  then obtain i where i: "find (\<lambda>i. rt_name (checks ! i) = name) [0..<length checks] = Some i" by blast
  then have "i < length checks \<and> rt_name (checks ! i) = name" by (auto simp: find_Some_iff)
  with i show ?thesis by (auto simp: check_index_def)
qed

lemma launch_check_simps [simp]:
  "rt_plan (launch_check env c) = rt_plan c" "rt_name (launch_check env c) = rt_name c"
  "rt_status (launch_check env c) = LeafStatus.Running"
  by (simp_all add: launch_check_def rt_name_def rt_status_def)

lemma launch_plans [simp]: "plans_of (checks[i := launch_check env (checks ! i)]) = plans_of checks"
proof (cases "i < length checks")
  case True
  then show ?thesis
    by (simp add: plans_of_def map_update) (metis list_update_id nth_map)
qed (simp add: list_update_beyond)

lemma launch_names: "names_of_checks (checks[i := launch_check env (checks ! i)]) = names_of_checks checks"
  by (metis launch_plans plans_names_set)

definition all_cleanup :: "CheckPlan list \<Rightarrow> string set \<Rightarrow> bool" where
  "all_cleanup plans names \<longleftrightarrow> (\<forall>p \<in> set plans. cp_name p \<in> names \<longrightarrow> cp_phase p = CheckPhase.Cleanup)"

lemma launch_loop_ok:
  "set names \<subseteq> names_of_checks checks \<Longrightarrow> abort = None \<or> all_cleanup (plans_of checks) (set names) \<Longrightarrow>
     \<exists>checks'. launch_loop env abort names checks running = Ok (checks', running @ names)"
proof (induction names arbitrary: checks running)
  case (Cons name names)
  obtain i where i: "i < length checks" "check_index checks name = Ok i" "rt_name (checks ! i) = name"
    using check_index_known [of name checks] Cons.prems(1) by auto
  have "rt_plan (checks ! i) \<in> set (plans_of checks)" using i(1) by (simp add: plans_of_def)
  then have launch: "\<not> (abort \<noteq> None \<and> cp_phase (rt_plan (checks ! i)) \<noteq> CheckPhase.Cleanup)"
    using Cons.prems(2) i(3) by (auto simp: all_cleanup_def rt_name_def)
  have "\<exists>checks'. launch_loop env abort names (checks[i := launch_check env (checks ! i)]) (running @ [name]) =
      Ok (checks', (running @ [name]) @ names)"
    using Cons.prems by (intro Cons.IH) (auto simp: launch_names all_cleanup_def)
  with i(2) launch show ?case by auto
qed simp

lemma admit_loop_first:
  "name \<in> names_of_checks checks \<Longrightarrow> \<exists>rest. admit_loop checks [] (name # names) = name # rest"
proof -
  assume "name \<in> names_of_checks checks"
  then have "find (\<lambda>check. rt_name check = name) checks \<noteq> None"
    by (auto simp: find_None_iff names_of_checks_def)
  then show ?thesis by (auto simp: claims_conflict_def list_ex_iff)
qed

lemma admit_loop_subset: "set (admit_loop checks claimed names) \<subseteq> set names"
  by (induction checks claimed names rule: admit_loop.induct) (auto split: option.splits if_splits)

lemma cancelled_plans: "plans_of (mark_pending_cancelled env run retain checks) = plans_of checks"
  by (simp add: plans_of_def mark_pending_cancelled_def)

lemma cancelled_cases:
  assumes "c \<in> set (mark_pending_cancelled env run retain checks)"
  shows "did_not_pass (rt_status c) \<or>
    c \<in> set checks \<and> (rt_status c = LeafStatus.Pending \<longrightarrow> retain \<and> cp_phase (rt_plan c) = CheckPhase.Cleanup)"
  using assms finish_blocked_did_not_pass [of LeafStatus.Cancelled env run]
  by (auto simp: mark_pending_cancelled_def)

lemma cancelled_pending:
  assumes "c \<in> set (mark_pending_cancelled env run retain checks)" and "rt_status c = LeafStatus.Pending"
  shows "c \<in> set checks \<and> retain \<and> cp_phase (rt_plan c) = CheckPhase.Cleanup"
  using cancelled_cases [OF assms(1)] assms(2) by auto

lemma cancelled_idle:
  "none_running checks \<Longrightarrow> none_running (mark_pending_cancelled env run retain checks)"
  by (auto simp: none_running_def dest: cancelled_cases)

lemma blocked_idle: "list_all2 blocked_by cs cs' \<Longrightarrow> none_running cs \<Longrightarrow> none_running cs'"
  by (induction rule: list_all2_induct) (auto simp: none_running_def blocked_by_def)

lemma idle_terminal:
  "none_running checks \<Longrightarrow> \<not> (\<exists>c \<in> set checks. rt_status c = LeafStatus.Pending) \<Longrightarrow>
     list_all (\<lambda>check. LeafStatus_is_terminal (rt_status check)) checks"
  by (auto simp: list_all_iff none_running_def terminal_iff)

lemma conclude_cases:
  "list_all (\<lambda>check. LeafStatus_is_terminal (rt_status check)) (rs_checks s) \<or> rs_running s \<noteq> [] \<Longrightarrow>
     conclude_pass s = Finished s \<or> conclude_pass s = Waiting s \<and> rs_running s \<noteq> []"
  by (auto simp: conclude_pass_def)

lemma scheduled_launch:
  assumes graph: "graph_ok invalidators (plans_of checks)" and acyclic: "acyclic (name_edges (plans_of checks))"
    and idle: "none_running checks" and unblocked: "unblocked invalidators checks"
    and abort: "abort = None \<or> (\<forall>c \<in> set checks. rt_status c = LeafStatus.Pending \<longrightarrow>
                  cp_phase (rt_plan c) = CheckPhase.Cleanup)"
  shows "\<exists>names checks' running'. ready_checks_with_available_resources invalidators [] checks = Some names \<and>
           launch_loop env abort names checks running = Ok (checks', running') \<and>
           (list_all (\<lambda>check. LeafStatus_is_terminal (rt_status check)) checks' \<or> running' \<noteq> [])"
proof -
  let ?start = "filter (startable invalidators checks) checks"
  have holders: "filter (holds_resources []) checks = []"
    using idle by (auto simp: filter_empty_conv holds_resources_def none_running_def)
  have ready: "ready_checks_with_available_resources invalidators [] checks =
      Some (admit_loop checks [] (map rt_name ?start))"
    using ready_checks_known [OF graph] holders by (simp add: ready_checks_with_available_resources_def)
  show ?thesis
  proof (cases "?start = []")
    case True
    then have "\<not> (\<exists>c \<in> set checks. rt_status c = LeafStatus.Pending)"
      using startable_exists [OF graph acyclic idle unblocked] by (auto simp: filter_empty_conv)
    with True ready idle_terminal [OF idle] show ?thesis by simp
  next
    case False
    then obtain c cs where start: "?start = c # cs" by (cases ?start) auto
    have c: "c \<in> set checks" using start by (metis filter_is_subset list.set_intros(1) subsetD)
    then obtain rest where admitted: "admit_loop checks [] (map rt_name ?start) = rt_name c # rest"
      using admit_loop_first [of "rt_name c" checks "map rt_name cs"] start
      by (auto simp: names_of_checks_def)
    have names: "set (rt_name c # rest) \<subseteq> rt_name ` set ?start"
      using admit_loop_subset [of checks "[]" "map rt_name ?start"] admitted by simp
    have distinct: "distinct (map rt_name checks)" using graph by (simp add: graph_ok_def plans_names)
    have "abort = None \<or> all_cleanup (plans_of checks) (set (rt_name c # rest))"
    proof (rule disjCI)
      assume "\<not> all_cleanup (plans_of checks) (set (rt_name c # rest))"
      then obtain d where d: "d \<in> set checks" "rt_name d \<in> rt_name ` set ?start"
        "cp_phase (rt_plan d) \<noteq> CheckPhase.Cleanup"
        using names by (auto simp: all_cleanup_def plans_of_def rt_name_def)
      then obtain e where "e \<in> set ?start" "rt_name e = rt_name d" by auto
      with d(1) distinct have "d \<in> set ?start" by (metis distinct_map filter_is_subset inj_onD subsetD)
      with d(3) abort d(1) show "abort = None" by (auto simp: startable_def)
    qed
    moreover have "set (rt_name c # rest) \<subseteq> names_of_checks checks"
      using names by (auto simp: names_of_checks_def)
    ultimately obtain checks' where
      "launch_loop env abort (rt_name c # rest) checks running = Ok (checks', running @ rt_name c # rest)"
      using launch_loop_ok by blast
    then show ?thesis unfolding ready admitted by blast
  qed
qed


lemma cancelled_unblocked: "unblocked invalidators (mark_pending_cancelled env run retain checks)"
  unfolding unblocked_def by (blast dest: cancelled_pending)

text \<open>The state a pass acts on after blocking and cancellation.\<close>

definition abort_now :: "RunState \<Rightarrow> Abort option" where
  "abort_now s = (if rs_cancelled s \<and> rs_abort s = None then Some Abort.Cancelled else rs_abort s)"

definition cancel_now :: "Env \<Rightarrow> string \<Rightarrow> RunState \<Rightarrow> CheckRuntime list \<Rightarrow> CheckRuntime list" where
  "cancel_now env run s checks =
     (if abort_now s \<noteq> None then mark_pending_cancelled env run (\<not> is_unsafe (abort_now s)) checks else checks)"

lemma schedule_pass_eq:
  assumes "mark_blocked env run invalidators (rs_checks s) = Some checks"
  shows "schedule_pass env run invalidators s =
    (let cs = cancel_now env run s checks in
     if is_unsafe (abort_now s) then conclude_pass (s\<lparr>rs_checks := cs, rs_abort := abort_now s\<rparr>)
     else case ready_checks_with_available_resources invalidators (map fst (rs_services s)) cs of
       None \<Rightarrow> Panicked
     | Some names \<Rightarrow>
         (case launch_loop env (abort_now s) names cs (rs_running s) of
            Inl error \<Rightarrow> Failing error
          | Inr (checks, running) \<Rightarrow>
              conclude_pass (s\<lparr>rs_checks := checks, rs_running := running, rs_abort := abort_now s\<rparr>)))"
  unfolding schedule_pass_def assms option.case Let_def abort_now_def [symmetric] cancel_now_def [symmetric]
  by (cases s) (simp split: option.splits sum.splits)

lemma cancel_now_plans [simp]: "plans_of (cancel_now env run s checks) = plans_of checks"
  by (simp add: cancel_now_def cancelled_plans)

lemma cancel_now_idle: "none_running checks \<Longrightarrow> none_running (cancel_now env run s checks)"
  by (simp add: cancel_now_def cancelled_idle)

lemma cancel_now_pending:
  "abort_now s \<noteq> None \<Longrightarrow> c \<in> set (cancel_now env run s checks) \<Longrightarrow> rt_status c = LeafStatus.Pending \<Longrightarrow>
     \<not> is_unsafe (abort_now s) \<and> cp_phase (rt_plan c) = CheckPhase.Cleanup"
  by (auto simp: cancel_now_def dest: cancelled_pending)

lemma pass_progress:
  assumes graph: "graph_ok invalidators (plans_of (rs_checks s))"
    and acyclic: "acyclic (name_edges (plans_of (rs_checks s)))"
    and idle: "none_running (rs_checks s)" and services: "rs_services s = []"
  shows "\<exists>s'. schedule_pass env run invalidators s = Finished s' \<or>
              schedule_pass env run invalidators s = Waiting s' \<and> rs_running s' \<noteq> []"
proof -
  obtain checks where marked: "mark_blocked env run invalidators (rs_checks s) = Some checks"
    using mark_blocked_known [OF graph_ok_blocking [OF graph]] by blast
  note fixpoint = mark_blocked_fixpoint [OF marked]
  let ?cs = "cancel_now env run s checks"
  have plans: "plans_of ?cs = plans_of (rs_checks s)" using blocked_plans fixpoint by simp
  have idle': "none_running ?cs" using blocked_idle fixpoint idle by (blast intro: cancel_now_idle)
  have unblocked: "unblocked invalidators ?cs"
    using cancelled_unblocked fixpoint_unblocked [OF conjunct1 [OF fixpoint]]
      graph_ok_blocking [OF graph [folded plans, unfolded cancel_now_plans]] by (simp add: cancel_now_def)
  have cleanup: "abort_now s = None \<or> (\<forall>c \<in> set ?cs. rt_status c = LeafStatus.Pending \<longrightarrow>
      cp_phase (rt_plan c) = CheckPhase.Cleanup)"
    using cancel_now_pending by blast
  note launch = scheduled_launch [OF graph [folded plans] acyclic [folded plans] idle' unblocked cleanup,
      of env "rs_running s"]
  show ?thesis
  proof (cases "is_unsafe (abort_now s)")
    case True
    then have "\<not> (\<exists>c \<in> set ?cs. rt_status c = LeafStatus.Pending)"
      using cancel_now_pending [of s] by (auto simp: is_unsafe_def)
    then have "list_all (\<lambda>check. LeafStatus_is_terminal (rt_status check)) ?cs"
      by (rule idle_terminal [OF idle'])
    with True show ?thesis
      by (simp add: schedule_pass_eq [OF marked] conclude_pass_def)
  next
    case False
    from launch obtain names checks' running' where l:
      "ready_checks_with_available_resources invalidators [] ?cs = Some names"
      "launch_loop env (abort_now s) names ?cs (rs_running s) = Ok (checks', running')"
      "list_all (\<lambda>check. LeafStatus_is_terminal (rt_status check)) checks' \<or> running' \<noteq> []" by blast
    have "schedule_pass env run invalidators s =
        conclude_pass (s\<lparr>rs_checks := checks', rs_running := running', rs_abort := abort_now s\<rparr>)"
      using False l(1,2) services by (simp add: schedule_pass_eq [OF marked])
    then show ?thesis
      using conclude_cases [of "s\<lparr>rs_checks := checks', rs_running := running', rs_abort := abort_now s\<rparr>"] l(3)
      by auto
  qed
qed

end
