(* ===== verification/Run_Safety.thy ===== *)
theory Run_Safety
  imports Schedule
begin

text \<open>
  Safety of a run of the executor: the invariant of the states its loop reaches (as an instance
  of \<open>invariant_system\<close>), exclusion of checks whose resources conflict (as an instance of
  \<open>conflict_relation\<close>), the order of launches, and what the table of invalidators holds.
\<close>

section \<open>The invariant\<close>

definition holders :: "RunState \<Rightarrow> CheckPlan set" where
  "holders s = rt_plan ` {c \<in> set (rs_checks s). holds_resources (map fst (rs_services s)) c}"

text \<open>The names of running checks are the running tasks; services belong to checks that ended.\<close>

definition tasks_ok :: "RunState \<Rightarrow> bool" where
  "tasks_ok s \<longleftrightarrow> distinct (map rt_name (rs_checks s)) \<and> distinct (rs_running s) \<and>
     set (rs_running s) = rt_name ` {c \<in> set (rs_checks s). rt_status c = LeafStatus.Running} \<and>
     bt_ok (rs_services s) \<and>
     (\<forall>n \<in> fst ` set (rs_services s). name_status (rs_checks s) LeafStatus_is_terminal n)"

definition order_ok :: "CheckRuntime list \<Rightarrow> bool" where
  "order_ok checks \<longleftrightarrow> (\<forall>c \<in> set checks. rt_status c = LeafStatus.Running \<longrightarrow>
     (\<forall>n \<in> set (cp_after (rt_plan c)) \<union> set (cp_requires (rt_plan c)). name_status checks LeafStatus_is_terminal n))"

definition run_inv :: "CheckPlan list \<Rightarrow> RunState \<Rightarrow> bool" where
  "run_inv plans s \<longleftrightarrow> plans_of (rs_checks s) = plans \<and> tasks_ok s \<and> order_ok (rs_checks s) \<and>
     exclusive ResourceClaim_conflicts cp_resources (holders s)"

definition run_initial :: "CheckPlan list \<Rightarrow> RunState \<Rightarrow> bool" where
  "run_initial plans s \<longleftrightarrow> distinct (map cp_name plans) \<and>
     (\<exists>checks. plans_of checks = plans \<and> none_running checks \<and> s = initial_run checks)"

lemma idle_holders: "none_running checks \<Longrightarrow> holders (initial_run checks) = {}"
  by (auto simp: holders_def initial_run_def none_running_def holds_resources_def)

lemma run_initial_inv:
  assumes "run_initial plans s"
  shows "run_inv plans s"
proof -
  from assms obtain checks where checks: "plans_of checks = plans" "none_running checks" "s = initial_run checks"
    and names: "distinct (map rt_name checks)"
    by (auto simp: run_initial_def plans_names)
  have "tasks_ok s" "order_ok (rs_checks s)" "rs_checks s = checks"
    using checks(2,3) names by (auto simp: tasks_ok_def order_ok_def none_running_def initial_run_def)
  with checks show ?thesis by (simp add: run_inv_def idle_holders)
qed

section \<open>Steps that settle checks\<close>

text \<open>A check settles when its plan stays, it neither starts nor ends, and an ended check stays ended.\<close>

definition settles :: "CheckRuntime \<Rightarrow> CheckRuntime \<Rightarrow> bool" where
  "settles c c' \<longleftrightarrow> rt_plan c' = rt_plan c \<and>
     (rt_status c' = LeafStatus.Running \<longleftrightarrow> rt_status c = LeafStatus.Running) \<and>
     (LeafStatus_is_terminal (rt_status c) \<longrightarrow> LeafStatus_is_terminal (rt_status c'))"

lemma settles_refl [simp]: "settles c c"
  by (simp add: settles_def)

lemma settles_trans: "settles a b \<Longrightarrow> settles b c \<Longrightarrow> settles a c"
  by (simp add: settles_def)

lemma settled_trans: "list_all2 settles xs ys \<Longrightarrow> list_all2 settles ys zs \<Longrightarrow> list_all2 settles xs zs"
  by (rule list_all2_trans [OF settles_trans])

lemma settles_name: "settles c c' \<Longrightarrow> rt_name c' = rt_name c"
  by (simp add: settles_def rt_name_def)

lemma did_not_pass_terminal: "did_not_pass s \<Longrightarrow> LeafStatus_is_terminal s \<and> s \<noteq> LeafStatus.Running"
  by (simp add: did_not_pass_def terminal_iff)

lemma blocked_settles: "blocked_by c c' \<Longrightarrow> settles c c'"
  by (auto simp: blocked_by_def settles_def terminal_iff)

lemma cancelled_settles: "list_all2 settles checks (mark_pending_cancelled env run retain checks)"
proof -
  have "settles c (finish_blocked env run LeafStatus.Cancelled c)" if "rt_status c = LeafStatus.Pending" for c
    using finish_blocked_did_not_pass [of LeafStatus.Cancelled env run c] that
    by (auto simp: settles_def terminal_iff)
  then show ?thesis by (simp add: mark_pending_cancelled_def list_all2_map2 List.list_all2_same)
qed

lemma settled_names: "list_all2 settles cs cs' \<Longrightarrow> map rt_name cs' = map rt_name cs"
  by (induction rule: list_all2_induct) (simp_all add: settles_name)

lemma settled_plans: "list_all2 settles cs cs' \<Longrightarrow> plans_of cs' = plans_of cs"
  by (induction rule: list_all2_induct) (simp_all add: plans_of_def settles_def)

lemma settled_name_status:
  assumes "list_all2 settles cs cs'" and "name_status cs LeafStatus_is_terminal n"
  shows "name_status cs' LeafStatus_is_terminal n"
proof -
  from assms(2) obtain i where i: "i < length cs" "rt_name (cs ! i) = n" "LeafStatus_is_terminal (rt_status (cs ! i))"
    by (auto simp: name_status_def in_set_conv_nth)
  with assms(1) have "settles (cs ! i) (cs' ! i)" "cs' ! i \<in> set cs'"
    by (simp_all add: list_all2_conv_all_nth)
  with i show ?thesis unfolding name_status_def by (metis settles_def settles_name)
qed

lemma settled_image:
  assumes "list_all2 settles cs cs'"
    and "\<And>c c'. settles c c' \<Longrightarrow> f c' = f c \<and> (P c' \<longleftrightarrow> P c)"
  shows "f ` {c \<in> set cs'. P c} = f ` {c \<in> set cs. P c}"
  using assms(1)
proof (induction rule: list_all2_induct)
  case (Cons c cs c' cs')
  have "{c \<in> set (x # xs). P c} = (if P x then insert x {c \<in> set xs. P c} else {c \<in> set xs. P c})" for x xs
    by auto
  with Cons.IH assms(2) [OF Cons.hyps(1)] show ?case by auto
qed simp

lemma settled_holders:
  assumes "list_all2 settles cs cs'"
  shows "rt_plan ` {c \<in> set cs'. holds_resources names c} = rt_plan ` {c \<in> set cs. holds_resources names c}"
  by (rule settled_image [OF assms]) (auto simp: settles_def holds_resources_def rt_name_def)

lemma settled_running:
  assumes "list_all2 settles cs cs'"
  shows "rt_name ` {c \<in> set cs'. rt_status c = LeafStatus.Running} =
         rt_name ` {c \<in> set cs. rt_status c = LeafStatus.Running}"
  by (rule settled_image [OF assms]) (auto simp: settles_def rt_name_def)

lemma settled_order:
  assumes "list_all2 settles cs cs'" and "order_ok cs"
  shows "order_ok cs'"
  unfolding order_ok_def
proof (intro ballI impI)
  fix c' n
  assume c': "c' \<in> set cs'" "rt_status c' = LeafStatus.Running"
    and n: "n \<in> set (cp_after (rt_plan c')) \<union> set (cp_requires (rt_plan c'))"
  from c'(1) assms(1) obtain c where "c \<in> set cs" "settles c c'"
    by (metis in_set_conv_nth list_all2_conv_all_nth)
  with c' n assms(2) have "name_status cs LeafStatus_is_terminal n"
    by (simp add: order_ok_def settles_def)
  then show "name_status cs' LeafStatus_is_terminal n" by (rule settled_name_status [OF assms(1)])
qed

lemma settled_inv:
  assumes settled: "list_all2 settles (rs_checks s) cs'" and inv: "run_inv plans s"
  shows "run_inv plans (s\<lparr>rs_checks := cs'\<rparr>)"
  using inv settled_plans [OF settled] settled_names [OF settled] settled_holders [OF settled]
    settled_running [OF settled] settled_order [OF settled] settled_name_status [OF settled]
  by (simp add: run_inv_def tasks_ok_def holders_def)

lemma run_inv_flags [simp]:
  "run_inv plans (s\<lparr>rs_abort := a\<rparr>) = run_inv plans s"
  "run_inv plans (s\<lparr>rs_cancelled := b\<rparr>) = run_inv plans s"
  by (simp_all add: run_inv_def tasks_ok_def holders_def)

lemma remove_service_inv:
  assumes "run_inv plans s"
  shows "run_inv plans (s\<lparr>rs_services := bt_remove name (rs_services s)\<rparr>)"
proof -
  have sub: "set (bt_remove name (rs_services s)) \<subseteq> set (rs_services s)" by (auto simp: bt_remove_def)
  then have "holders (s\<lparr>rs_services := bt_remove name (rs_services s)\<rparr>) \<subseteq> holders s"
    by (fastforce simp: holders_def holds_resources_def)
  with assms sub show ?thesis
    by (auto simp: run_inv_def tasks_ok_def intro: exclusive_subset)
qed


section \<open>Admission\<close>

lemma claims_conflict_compatible:
  "claims_conflict claimed resources \<longleftrightarrow> \<not> compatible ResourceClaim_conflicts resources claimed"
  by (auto simp: claims_conflict_def compatible_def list_ex_iff)

lemma find_named:
  assumes "distinct (map rt_name checks)" and "c \<in> set checks"
  shows "find (\<lambda>check. rt_name check = rt_name c) checks = Some c"
proof -
  have "find (\<lambda>check. rt_name check = rt_name c) checks \<noteq> None" using assms(2) by (auto simp: find_None_iff)
  then obtain d where "find (\<lambda>check. rt_name check = rt_name c) checks = Some d" by blast
  moreover from this have "d \<in> set checks" "rt_name d = rt_name c" by (auto simp: find_Some_iff)
  ultimately show ?thesis using assms by (metis distinct_map inj_onD)
qed

lemma admit_loop_distinct: "distinct names \<Longrightarrow> distinct (admit_loop checks claimed names)"
  by (induction checks claimed names rule: admit_loop.induct)
    (auto split: option.splits dest: subsetD [OF admit_loop_subset])

text \<open>Whoever is admitted conflicts neither with the owners nor with another admitted check.\<close>

lemma admit_loop_exclusive:
  assumes "distinct (map rt_name checks)"
  shows "exclusive ResourceClaim_conflicts cp_resources (set owners) \<Longrightarrow>
    exclusive ResourceClaim_conflicts cp_resources
      (set owners \<union> rt_plan ` {c \<in> set checks. rt_name c \<in> set (admit_loop checks (concat (map cp_resources owners)) names)})"
proof (induction names arbitrary: owners)
  case (Cons name names)
  let ?claimed = "concat (map cp_resources owners)"
  show ?case
  proof (cases "find (\<lambda>check. rt_name check = name) checks")
    case (Some check)
    then have check: "check \<in> set checks" "rt_name check = name" by (auto simp: find_Some_iff)
    show ?thesis
    proof (cases "claims_conflict ?claimed (cp_resources (rt_plan check))")
      case False
      then have "exclusive ResourceClaim_conflicts cp_resources (set (owners @ [rt_plan check]))"
        using resource.exclusive_insert_concat [OF Cons.prems] by (simp add: claims_conflict_compatible)
      note IH = Cons.IH [OF this]
      have "{c \<in> set checks. rt_name c \<in> insert name A} = insert check {c \<in> set checks. rt_name c \<in> A}" for A
        using check assms by (auto dest: inj_onD simp: distinct_map)
      with IH Some False show ?thesis by simp
    qed (use Some Cons in simp)
  qed (use Cons in simp)
qed simp

section \<open>Launching\<close>

lemma launch_check_idem [simp]: "launch_check env (launch_check env c) = launch_check env c"
  by (simp add: launch_check_def)

lemma update_by_name:
  assumes "distinct (map rt_name checks)" and "i < length checks"
  shows "checks[i := f (checks ! i)] = map (\<lambda>c. if rt_name c = rt_name (checks ! i) then f c else c) checks"
proof (rule nth_equalityI)
  fix j
  assume "j < length (checks[i := f (checks ! i)])"
  with assms show "checks[i := f (checks ! i)] ! j =
      map (\<lambda>c. if rt_name c = rt_name (checks ! i) then f c else c) checks ! j"
    by (auto simp: nth_list_update nth_eq_iff_index_eq distinct_conv_nth)
qed simp

definition launched :: "Env \<Rightarrow> string set \<Rightarrow> CheckRuntime \<Rightarrow> CheckRuntime" where
  "launched env names c = (if rt_name c \<in> names then launch_check env c else c)"

lemma launched_name [simp]: "rt_name (launched env names c) = rt_name c" "rt_plan (launched env names c) = rt_plan c"
  by (simp_all add: launched_def)

lemma launched_status: "rt_status (launched env names c) = (if rt_name c \<in> names then LeafStatus.Running else rt_status c)"
  by (simp add: launched_def)

lemma image_map_filter: "f ` {x \<in> set (map g xs). P x} = (\<lambda>x. f (g x)) ` {x \<in> set xs. P (g x)}"
  by auto

lemma check_index_Ok: "check_index checks name = Ok i \<Longrightarrow> i < length checks \<and> rt_name (checks ! i) = name"
  by (auto simp: check_index_def find_Some_iff split: option.splits)

lemma launch_loop_result:
  "launch_loop env abort names checks running = Ok (checks', running') \<Longrightarrow> distinct (map rt_name checks) \<Longrightarrow>
     distinct names \<Longrightarrow>
     \<exists>ls. distinct ls \<and> set ls \<subseteq> set names \<and> running' = running @ ls \<and> checks' = map (launched env (set ls)) checks"
proof (induction env abort names checks running rule: launch_loop.induct)
  case (1 env abort checks running)
  have "map (launched env {}) checks = checks" by (simp add: launched_def map_idI)
  with 1 show ?case by simp
next
  case (2 env abort name names checks running)
  from "2.prems"(1) obtain i where index: "check_index checks name = Ok i" by auto
  note i = check_index_Ok [OF index]
  show ?case
  proof (cases "abort \<noteq> None \<and> cp_phase (rt_plan (checks ! i)) \<noteq> CheckPhase.Cleanup")
    case True
    with 2 index show ?thesis by auto
  next
    case False
    let ?checks = "checks[i := launch_check env (checks ! i)]"
    have up: "?checks = map (launched env {name}) checks"
      using update_by_name [OF "2.prems"(2), of i "launch_check env"] i by (simp add: launched_def)
    then have "distinct (map rt_name ?checks)" using "2.prems"(2) by (simp add: comp_def)
    then obtain ls where ls: "distinct ls" "set ls \<subseteq> set names" "running' = (running @ [name]) @ ls"
      "checks' = map (launched env (set ls)) ?checks"
      using "2.IH"(2) [OF index False] "2.prems"(1,3) index False by auto
    have "map (launched env (set ls)) ?checks = map (launched env (set (name # ls))) checks"
      unfolding up by (simp add: launched_def)
    with ls "2.prems"(3) show ?thesis by (intro exI [of _ "name # ls"]) auto
  qed
qed


lemma same_check: "distinct (map rt_name checks) \<Longrightarrow> c \<in> set checks \<Longrightarrow> d \<in> set checks \<Longrightarrow> rt_name c = rt_name d \<Longrightarrow> c = d"
  by (auto simp: distinct_map dest: inj_onD)

lemma statuses_get_Some:
  assumes "bt_get (statuses_of checks) n = Some st" and "distinct (map rt_name checks)"
  shows "\<exists>c \<in> set checks. rt_name c = n \<and> rt_status c = st"
proof -
  have "n \<in> rt_name ` set checks"
    using assms(1) bt_get_fold_other [OF bt_ok_Nil, of n rt_name checks rt_status]
    by (auto simp: statuses_of_def)
  then show ?thesis using assms statuses_get by fastforce
qed

lemma all_status_True:
  assumes "distinct (map rt_name checks)"
  shows "all_status P (statuses_of checks) names = Some True \<Longrightarrow> \<forall>n \<in> set names. name_status checks P n"
  by (induction names)
    (auto simp: name_status_def split: option.splits if_splits dest!: statuses_get_Some [OF _ assms])

lemma is_ready_startable:
  assumes "distinct (map rt_name checks)" and "is_ready invalidators (statuses_of checks) c = Some True"
  shows "startable invalidators checks c"
  using assms(2) all_status_True [OF assms(1)]
  by (auto simp: is_ready_def startable_def Let_def inv_names_def split: if_splits option.splits bool.splits)

lemma filter_ready_names:
  "filter_ready invalidators statuses checks = Some names \<Longrightarrow>
     names = map rt_name (filter (\<lambda>c. is_ready invalidators statuses c = Some True) checks)"
  by (induction checks arbitrary: names) (auto split: option.splits)

text \<open>What the scheduler admits: startable checks, each once, whose resources are free.\<close>

lemma admission:
  assumes names: "distinct (map rt_name checks)"
    and ready: "ready_checks_with_available_resources invalidators services checks = Some admitted"
    and free: "exclusive ResourceClaim_conflicts cp_resources (rt_plan ` {c \<in> set checks. holds_resources services c})"
  shows "distinct admitted" and "set admitted \<subseteq> rt_name ` {c \<in> set checks. startable invalidators checks c}"
    and "exclusive ResourceClaim_conflicts cp_resources
      (rt_plan ` {c \<in> set checks. holds_resources services c \<or> rt_name c \<in> set admitted})"
proof -
  let ?ready = "filter (\<lambda>c. is_ready invalidators (statuses_of checks) c = Some True) checks"
  let ?owners = "map rt_plan (filter (holds_resources services) checks)"
  have admitted: "admitted = admit_loop checks (concat (map cp_resources ?owners)) (map rt_name ?ready)"
    using ready filter_ready_names [of invalidators "statuses_of checks" checks]
    by (auto simp: ready_checks_with_available_resources_def ready_checks_def comp_def)
  show "distinct admitted" unfolding admitted
    by (rule admit_loop_distinct) (simp add: names distinct_map_filter)
  have "set admitted \<subseteq> rt_name ` set ?ready"
    unfolding admitted using admit_loop_subset by fastforce
  then show "set admitted \<subseteq> rt_name ` {c \<in> set checks. startable invalidators checks c}"
    using is_ready_startable [OF names] by fastforce
  have "exclusive ResourceClaim_conflicts cp_resources (set ?owners)" using free by (simp add: image_def)
  from admit_loop_exclusive [OF names this, of "map rt_name ?ready"]
  show "exclusive ResourceClaim_conflicts cp_resources
      (rt_plan ` {c \<in> set checks. holds_resources services c \<or> rt_name c \<in> set admitted})"
    unfolding admitted [symmetric] by (rule exclusive_subset) auto
qed

section \<open>Launching keeps the invariant\<close>

lemma launched_terminal:
  assumes "distinct (map rt_name checks)" and "A \<subseteq> rt_name ` {c \<in> set checks. rt_status c = LeafStatus.Pending}"
    and "name_status checks LeafStatus_is_terminal n"
  shows "name_status (map (launched env A) checks) LeafStatus_is_terminal n"
proof -
  from assms(3) obtain c where c: "c \<in> set checks" "rt_name c = n" "LeafStatus_is_terminal (rt_status c)"
    by (auto simp: name_status_def)
  have "rt_name c \<notin> A"
  proof
    assume "rt_name c \<in> A"
    with assms(2) obtain d where "d \<in> set checks" "rt_status d = LeafStatus.Pending" "rt_name c = rt_name d" by blast
    with same_check [OF assms(1) c(1)] c(3) show False by (auto simp: terminal_iff)
  qed
  then have "launched env A c = c" by (simp add: launched_def)
  with c show ?thesis unfolding name_status_def by (metis image_eqI list.set_map)
qed

lemma launched_running:
  assumes "A \<subseteq> rt_name ` set checks"
  shows "rt_name ` {c \<in> set (map (launched env A) checks). rt_status c = LeafStatus.Running} =
    rt_name ` {c \<in> set checks. rt_status c = LeafStatus.Running} \<union> A"
  unfolding image_map_filter using assms by (auto simp: launched_status)

lemma launched_holders:
  "rt_plan ` {c \<in> set (map (launched env A) checks). holds_resources services c} =
     rt_plan ` {c \<in> set checks. holds_resources services c \<or> rt_name c \<in> A}"
  unfolding image_map_filter by (rule arg_cong2 [of _ _ _ _ image]) (auto simp: launched_status holds_resources_def)

lemma launched_order:
  assumes "distinct (map rt_name checks)" and "order_ok checks"
    and "A \<subseteq> rt_name ` {c \<in> set checks. startable invalidators checks c}"
  shows "order_ok (map (launched env A) checks)"
  unfolding order_ok_def
proof (intro ballI impI)
  fix c' n
  assume "c' \<in> set (map (launched env A) checks)" and run: "rt_status c' = LeafStatus.Running"
    and n: "n \<in> set (cp_after (rt_plan c')) \<union> set (cp_requires (rt_plan c'))"
  then obtain c where c: "c \<in> set checks" "c' = launched env A c" by auto
  have pending: "A \<subseteq> rt_name ` {c \<in> set checks. rt_status c = LeafStatus.Pending}"
    using assms(3) by (auto simp: startable_def)
  have "rt_status c = LeafStatus.Running \<or> startable invalidators checks c"
  proof (cases "rt_name c \<in> A")
    case True
    with assms(3) obtain d where "d \<in> set checks" "startable invalidators checks d" "rt_name c = rt_name d" by blast
    with same_check [OF assms(1) c(1)] show ?thesis by auto
  qed (use run c in \<open>simp add: launched_status\<close>)
  then have "name_status checks LeafStatus_is_terminal n"
    using n c assms(2) by (auto simp: order_ok_def startable_def)
  then show "name_status (map (launched env A) checks) LeafStatus_is_terminal n"
    by (rule launched_terminal [OF assms(1) pending])
qed

lemma launch_inv:
  assumes inv: "run_inv plans s"
    and ready: "ready_checks_with_available_resources invalidators (map fst (rs_services s)) (rs_checks s) = Some names"
    and launch: "launch_loop env abort names (rs_checks s) (rs_running s) = Ok (checks', running')"
  shows "run_inv plans (s\<lparr>rs_checks := checks', rs_running := running'\<rparr>)"
proof -
  have distinct: "distinct (map rt_name (rs_checks s))" using inv by (simp add: run_inv_def tasks_ok_def)
  have free: "exclusive ResourceClaim_conflicts cp_resources
      (rt_plan ` {c \<in> set (rs_checks s). holds_resources (map fst (rs_services s)) c})"
    using inv by (simp add: run_inv_def holders_def)
  note admitted = admission [OF distinct ready free]
  obtain ls where ls: "distinct ls" "set ls \<subseteq> set names" "running' = rs_running s @ ls"
    "checks' = map (launched env (set ls)) (rs_checks s)"
    using launch_loop_result [OF launch distinct admitted(1)] by blast
  have start: "set ls \<subseteq> rt_name ` {c \<in> set (rs_checks s). startable invalidators (rs_checks s) c}"
    using ls(2) admitted(2) by blast
  have pending: "set ls \<subseteq> rt_name ` {c \<in> set (rs_checks s). rt_status c = LeafStatus.Pending}"
    using start by (auto simp: startable_def)
  have known: "set ls \<subseteq> rt_name ` set (rs_checks s)" using pending by blast
  have "set (rs_running s) \<inter> set ls = {}"
  proof (rule equals0I)
    fix n
    assume "n \<in> set (rs_running s) \<inter> set ls"
    moreover have "set (rs_running s) = rt_name ` {c \<in> set (rs_checks s). rt_status c = LeafStatus.Running}"
      using inv by (simp add: run_inv_def tasks_ok_def)
    ultimately obtain c d where "c \<in> set (rs_checks s)" "d \<in> set (rs_checks s)" "rt_name c = rt_name d"
      "rt_status c = LeafStatus.Running" "rt_status d = LeafStatus.Pending"
      using pending by auto
    with same_check [OF distinct] show False by fastforce
  qed
  then have "tasks_ok (s\<lparr>rs_checks := checks', rs_running := running'\<rparr>)"
    using inv ls launched_running [OF known, of env] launched_terminal [OF distinct pending, of _ env]
    by (simp add: run_inv_def tasks_ok_def comp_def)
  moreover have "order_ok checks'"
    unfolding ls(4) using launched_order [OF distinct _ start] inv by (simp add: run_inv_def)
  moreover have "exclusive ResourceClaim_conflicts cp_resources
      (holders (s\<lparr>rs_checks := checks', rs_running := running'\<rparr>))"
    by (rule exclusive_subset [OF admitted(3)])
      (use ls(2) in \<open>auto simp: holders_def ls(4) launched_holders simp del: set_map\<close>)
  moreover have "plans_of checks' = plans" using inv by (simp add: ls(4) run_inv_def plans_of_def comp_def)
  ultimately show ?thesis by (simp add: run_inv_def)
qed


section \<open>Every step keeps the invariant\<close>

lemma conclude_pass_state: "conclude_pass s = Waiting s' \<Longrightarrow> s' = s" "conclude_pass s = Finished s' \<Longrightarrow> s' = s"
  by (auto simp: conclude_pass_def split: if_splits)

lemma blocked_cancelled_settles:
  assumes "mark_blocked env run invalidators (rs_checks s) = Some checks"
  shows "list_all2 settles (rs_checks s) (cancel_now env run s checks)"
proof -
  have "list_all2 settles (rs_checks s) checks"
    using mark_blocked_fixpoint [OF assms] by (auto elim: list_all2_mono intro: blocked_settles)
  then show ?thesis
    using settled_trans [OF _ cancelled_settles] by (simp add: cancel_now_def)
qed

text \<open>The checks of a pass before any is launched.\<close>

definition blocked_now :: "Env \<Rightarrow> string \<Rightarrow> invalidators \<Rightarrow> RunState \<Rightarrow> CheckRuntime list \<Rightarrow> bool" where
  "blocked_now env run invalidators s cs \<longleftrightarrow>
     (\<exists>marked. mark_blocked env run invalidators (rs_checks s) = Some marked \<and> cs = cancel_now env run s marked)"

lemma schedule_pass_cases:
  assumes "schedule_pass env run invalidators s = Waiting s' \<or> schedule_pass env run invalidators s = Finished s'"
  obtains (unsafe) cs where "list_all2 settles (rs_checks s) cs" "s' = s\<lparr>rs_checks := cs, rs_abort := abort_now s\<rparr>"
      "blocked_now env run invalidators s cs"
    | (launch) cs names checks running where "list_all2 settles (rs_checks s) cs"
      "ready_checks_with_available_resources invalidators (map fst (rs_services s)) cs = Some names"
      "launch_loop env (abort_now s) names cs (rs_running s) = Ok (checks, running)"
      "s' = s\<lparr>rs_checks := checks, rs_running := running, rs_abort := abort_now s\<rparr>"
      "blocked_now env run invalidators s cs"
proof -
  obtain marked where marked: "mark_blocked env run invalidators (rs_checks s) = Some marked"
    using assms by (auto simp: schedule_pass_def split: option.splits)
  note settled = blocked_cancelled_settles [OF marked]
  let ?cs = "cancel_now env run s marked"
  have now: "blocked_now env run invalidators s ?cs" unfolding blocked_now_def using marked by blast
  show ?thesis
  proof (cases "is_unsafe (abort_now s)")
    case True
    with assms have "s' = s\<lparr>rs_checks := ?cs, rs_abort := abort_now s\<rparr>"
      by (auto simp: schedule_pass_eq [OF marked] dest: conclude_pass_state)
    with settled show ?thesis using now by (rule unsafe)
  next
    case False
    from assms obtain names where names:
      "ready_checks_with_available_resources invalidators (map fst (rs_services s)) ?cs = Some names"
      by (auto simp: schedule_pass_eq [OF marked] False Let_def split: option.splits)
    from assms obtain checks running where run:
      "launch_loop env (abort_now s) names ?cs (rs_running s) = Ok (checks, running)"
      by (auto simp: schedule_pass_eq [OF marked] False Let_def names split: sum.splits)
    have "s' = s\<lparr>rs_checks := checks, rs_running := running, rs_abort := abort_now s\<rparr>"
      using assms by (auto simp: schedule_pass_eq [OF marked] False Let_def names run dest: conclude_pass_state)
    with settled names run show ?thesis using now by (rule launch)
  qed
qed

lemma pass_inv:
  assumes "schedule_pass env run invalidators s = Waiting s' \<or> schedule_pass env run invalidators s = Finished s'"
    and inv: "run_inv plans s"
  shows "run_inv plans s'"
  using assms(1)
proof (cases rule: schedule_pass_cases)
  case (unsafe cs)
  then show ?thesis using settled_inv [OF unsafe(1) inv] by simp
next
  case (launch cs names checks running)
  let ?s = "s\<lparr>rs_checks := cs\<rparr>"
  have "run_inv plans (?s\<lparr>rs_checks := checks, rs_running := running\<rparr>)"
    using launch_inv [OF settled_inv [OF launch(1) inv]] launch(2,3) by simp
  then show ?thesis using launch(4) run_inv_flags(1) [of plans _ "s\<lparr>rs_checks := checks, rs_running := running\<rparr>"]
    by simp
qed

lemma settled_update:
  "i < length checks \<Longrightarrow> settles (checks ! i) c \<Longrightarrow> list_all2 settles checks (checks[i := c])"
  by (auto simp: list_all2_conv_all_nth nth_list_update)

lemma observe_case_status [simp]: "kr_status (observe_case update report) = kr_status report"
  by (simp add: observe_case_def split: option.splits)

lemma observe_cases_status: "kr_status (fold observe_case ps report) = kr_status report"
  by (induction ps arbitrary: report) simp_all

lemma refresh_execution_settles: "settles c (refresh_execution (c\<lparr>rt_processes := ps\<rparr>))"
  by (simp add: settles_def refresh_execution_def refresh_report_def rt_status_def Let_def
      observe_cases_status split: option.splits)

lemma refresh_all_settles: "list_all2 settles checks (map refresh_execution checks)"
proof -
  have "c\<lparr>rt_processes := rt_processes c\<rparr> = c" for c :: CheckRuntime
    by simp
  then show ?thesis
    using refresh_execution_settles by (metis list_all2_all_nthI length_map nth_map)
qed

lemma observe_settles:
  "apply_process_update update (checks, capacity) = Ok (checks', capacity') \<Longrightarrow> list_all2 settles checks checks'"
  by (auto simp: apply_process_update_def Let_def split: option.splits dest!: check_index_Ok
      intro!: settled_update refresh_execution_settles)

lemma exit_runtime_settles:
  assumes "LeafStatus_is_terminal (rt_status c)"
  shows "settles c (exit_runtime env run cleanup exit c)"
proof -
  have leaf: "LeafStatus_is_terminal (leaf_status_of p)" for p by (cases p) (simp_all add: terminal_iff)
  then show ?thesis
    using assms by (auto simp: settles_def exit_runtime_def rt_status_def Let_def terminal_iff split: prod.splits)
qed

lemma service_exit_settles:
  assumes "mark_service_exit env run cleanup name exit checks = Ok checks'"
    and "distinct (map rt_name checks)" and "name_status checks LeafStatus_is_terminal name"
  shows "list_all2 settles checks checks'"
proof -
  obtain i where i: "check_index checks name = Ok i"
    "checks' = checks[i := exit_runtime env run cleanup exit (checks ! i)]"
    using assms(1) by (auto simp: mark_service_exit_def)
  note i' = check_index_Ok [OF i(1)]
  from assms(3) obtain c where "c \<in> set checks" "rt_name c = name" "LeafStatus_is_terminal (rt_status c)"
    by (auto simp: name_status_def)
  with i' have "LeafStatus_is_terminal (rt_status (checks ! i))"
    using same_check [OF assms(2), of c "checks ! i"] by simp
  with i' show ?thesis unfolding i(2) by (intro settled_update exit_runtime_settles) auto
qed


lemma service_exit_inv:
  assumes "mark_service_exit env run cleanup name exit (rs_checks s) = Ok checks" and "run_inv plans s"
    and "name_status (rs_checks s) LeafStatus_is_terminal name"
  shows "run_inv plans (s\<lparr>rs_checks := checks, rs_services := bt_remove name (rs_services s)\<rparr>)"
    and "list_all2 settles (rs_checks s) checks"
proof -
  show "list_all2 settles (rs_checks s) checks"
    using service_exit_settles [OF assms(1) _ assms(3)] assms(2) by (simp add: run_inv_def tasks_ok_def)
  from remove_service_inv [OF settled_inv [OF this assms(2)], of name]
  show "run_inv plans (s\<lparr>rs_checks := checks, rs_services := bt_remove name (rs_services s)\<rparr>)" by simp
qed

lemma service_terminal:
  "run_inv plans s \<Longrightarrow> name \<in> fst ` set (rs_services s) \<Longrightarrow> name_status (rs_checks s) LeafStatus_is_terminal name"
  by (auto simp: run_inv_def tasks_ok_def)

lemma stop_services_inv:
  "stop_services env run exits s = Ok s' \<Longrightarrow> run_inv plans s \<Longrightarrow>
     \<forall>name \<in> set (map fst exits). name_status (rs_checks s) LeafStatus_is_terminal name \<Longrightarrow>
     run_inv plans s' \<and> list_all2 settles (rs_checks s) (rs_checks s')"
proof (induction env run exits s rule: stop_services.induct)
  case (1 env run s)
  then show ?case by (simp add: List.list_all2_same)
next
  case (2 env run name exit exits s)
  then obtain checks where mark: "mark_service_exit env run True name exit (rs_checks s) = Ok checks"
    and rest: "stop_services env run exits
        (s\<lparr>rs_checks := checks, rs_services := bt_remove name (rs_services s)\<rparr>) = Ok s'" by auto
  note exit = service_exit_inv [OF mark "2.prems"(2)]
  have "name_status (rs_checks s) LeafStatus_is_terminal name" using "2.prems"(3) by simp
  note exit = exit [OF this]
  have IH: "run_inv plans s' \<and> list_all2 settles checks (rs_checks s')"
    using "2.IH" [OF mark rest exit(1)] "2.prems"(3) settled_name_status [OF exit(2)] by simp
  with exit(2) show ?case by (blast intro: settled_trans)
qed

lemma apply_outcome_simps:
  assumes "apply_outcome clock now outcome (runtime, services) = (runtime', services')"
  shows "rt_plan runtime' = rt_plan runtime" and "rt_status runtime' = oc_status outcome"
    and "services' = services \<or> (\<exists>pgid. services' = bt_insert (rt_name runtime) pgid services)"
  using assms by (auto simp: apply_outcome_def Let_def rt_status_def split: option.splits)

definition replaced :: "CheckRuntime \<Rightarrow> CheckRuntime \<Rightarrow> CheckRuntime" where
  "replaced r c = (if rt_name c = rt_name r then r else c)"

lemma replaced_name [simp]: "rt_name (replaced r c) = rt_name c"
  by (simp add: replaced_def)

lemma take_outcome_cases:
  assumes "take_outcome clock now name outcome s = Ok s'" and "distinct (map rt_name (rs_checks s))"
  obtains c r services where "c \<in> set (rs_checks s)" "rt_name c = name" "rt_name r = name" "rt_plan r = rt_plan c"
    "rt_status r = oc_status outcome"
    "services = rs_services s \<or> (\<exists>pgid. services = bt_insert name pgid (rs_services s))"
    "rs_checks s' = map (replaced r) (rs_checks s)" "rs_services s' = services"
    "rs_running s' = remove1 name (rs_running s)"
proof -
  obtain i where index: "check_index (rs_checks s) name = Ok i" using assms(1) by (auto simp: take_outcome_def)
  note i = check_index_Ok [OF index]
  obtain r services where out:
    "apply_outcome clock now outcome (rs_checks s ! i, rs_services s) = (r, services)" by fastforce
  note r = apply_outcome_simps [OF out]
  have "rt_name r = name" using r(1) i by (simp add: rt_name_def)
  moreover from this have "rs_checks s' = map (replaced r) (rs_checks s)"
    using assms(1) index out update_by_name [OF assms(2) conjunct1 [OF i], of "\<lambda>_. r"] i
    by (auto simp: take_outcome_def replaced_def [abs_def] Let_def split: if_splits)
  moreover have "rs_services s' = services" "rs_running s' = remove1 name (rs_running s)"
    using assms(1) index out by (auto simp: take_outcome_def Let_def split: if_splits)
  ultimately show ?thesis
    using that [of "rs_checks s ! i" r services] r i by simp
qed


lemma replaced_plans:
  assumes "distinct (map rt_name checks)" and "c \<in> set checks" and "rt_name r = rt_name c" and "rt_plan r = rt_plan c"
    and "d \<in> set checks"
  shows "rt_plan (replaced r d) = rt_plan d"
  using same_check [OF assms(1,5,2)] assms(3,4) by (auto simp: replaced_def)

lemma replaced_terminal:
  assumes "LeafStatus_is_terminal (rt_status r)" and "name_status checks LeafStatus_is_terminal n"
  shows "name_status (map (replaced r) checks) LeafStatus_is_terminal n"
proof -
  from assms(2) obtain c where c: "c \<in> set checks" "rt_name c = n" "LeafStatus_is_terminal (rt_status c)"
    by (auto simp: name_status_def)
  have "replaced r c \<in> set (map (replaced r) checks)" using c(1) by simp
  moreover have "LeafStatus_is_terminal (rt_status (replaced r c))" using assms(1) c(3) by (simp add: replaced_def)
  ultimately show ?thesis using c(2) unfolding name_status_def by (metis replaced_name)
qed

lemma service_names:
  "services' = services \<or> (\<exists>pgid. services' = bt_insert name pgid services) \<Longrightarrow>
     n \<noteq> name \<Longrightarrow> n \<in> fst ` set services' \<Longrightarrow> n \<in> fst ` set services"
  by (elim disjE exE) (simp_all only: fst_set_bt_insert insert_iff simp_thms)

lemma outcome_tasks:
  assumes tasks: "tasks_ok s" and r: "LeafStatus_is_terminal (rt_status r)"
    and c: "c \<in> set (rs_checks s)" "rt_name c = name" "rt_name r = name"
    and services: "services = rs_services s \<or> (\<exists>pgid. services = bt_insert name pgid (rs_services s))"
    and s': "rs_checks s' = map (replaced r) (rs_checks s)" "rs_services s' = services"
      "rs_running s' = remove1 name (rs_running s)"
  shows "tasks_ok s'"
proof -
  have "rt_name ` {c \<in> set (rs_checks s'). rt_status c = LeafStatus.Running} =
      rt_name ` {c \<in> set (rs_checks s). rt_status c = LeafStatus.Running} - {name}"
    unfolding s'(1) image_map_filter using r c by (auto simp: replaced_def terminal_iff)
  moreover have "name_status (rs_checks s') LeafStatus_is_terminal n" if "n \<in> fst ` set (rs_services s')" for n
  proof (cases "n = name")
    case True
    with c r show ?thesis unfolding name_status_def s'(1) by (force simp: replaced_def)
  next
    case False
    with that services s'(2) have "n \<in> fst ` set (rs_services s)" using service_names by blast
    with tasks have "name_status (rs_checks s) LeafStatus_is_terminal n" unfolding tasks_ok_def by blast
    then show ?thesis unfolding s'(1) by (rule replaced_terminal [OF r])
  qed
  ultimately show ?thesis
    using tasks services s' by (auto simp: tasks_ok_def comp_def)
qed

lemma outcome_inv:
  assumes "take_outcome clock now name outcome s = Ok s'" and inv: "run_inv plans s"
    and name: "name \<in> set (rs_running s)" and terminal: "LeafStatus_is_terminal (oc_status outcome)"
  shows "run_inv plans s'"
proof -
  have distinct: "distinct (map rt_name (rs_checks s))" using inv by (simp add: run_inv_def tasks_ok_def)
  obtain c r services where c: "c \<in> set (rs_checks s)" "rt_name c = name" "rt_name r = name" "rt_plan r = rt_plan c"
    and status: "rt_status r = oc_status outcome"
    and services: "services = rs_services s \<or> (\<exists>pgid. services = bt_insert name pgid (rs_services s))"
    and s': "rs_checks s' = map (replaced r) (rs_checks s)" "rs_services s' = services"
      "rs_running s' = remove1 name (rs_running s)"
    using assms(1) distinct by (rule take_outcome_cases)
  have r: "LeafStatus_is_terminal (rt_status r)" using status terminal by simp
  have plan: "rt_plan (replaced r d) = rt_plan d" if "d \<in> set (rs_checks s)" for d
    using replaced_plans [OF distinct c(1) _ c(4) that] c(2,3) by simp
  have "order_ok (rs_checks s')"
    unfolding order_ok_def
  proof (intro ballI impI)
    fix d' n
    assume "d' \<in> set (rs_checks s')" and run: "rt_status d' = LeafStatus.Running"
      and n: "n \<in> set (cp_after (rt_plan d')) \<union> set (cp_requires (rt_plan d'))"
    then obtain d where d: "d \<in> set (rs_checks s)" "d' = replaced r d" by (auto simp: s'(1))
    with run r have "d' = d" by (auto simp: replaced_def terminal_iff)
    with d run n inv have "name_status (rs_checks s) LeafStatus_is_terminal n"
      by (auto simp: run_inv_def order_ok_def)
    then show "name_status (rs_checks s') LeafStatus_is_terminal n" unfolding s'(1) by (rule replaced_terminal [OF r])
  qed
  moreover have "exclusive ResourceClaim_conflicts cp_resources (holders s')"
  proof (rule exclusive_subset)
    show "exclusive ResourceClaim_conflicts cp_resources (holders s)" using inv by (simp add: run_inv_def)
    have held: "holds_resources (map fst (rs_services s)) d"
      if "d \<in> set (rs_checks s)" "holds_resources (map fst (rs_services s')) (replaced r d)" for d
    proof (cases "rt_name d = name")
      case True
      have "name \<in> rt_name ` {c \<in> set (rs_checks s). rt_status c = LeafStatus.Running}"
        using inv name by (simp add: run_inv_def tasks_ok_def)
      then have "rt_status d = LeafStatus.Running" using True that(1) same_check [OF distinct] by force
      then show ?thesis by (simp add: holds_resources_def)
    next
      case False
      with that(2) c(3) service_names [OF services False] s'(2) show ?thesis
        by (simp add: holds_resources_def replaced_def) blast
    qed
    show "holders s' \<subseteq> holders s"
      unfolding holders_def s'(1) image_map_filter using held plan by (auto simp: image_iff)
  qed
  moreover have "plans_of (rs_checks s') = plans"
    using inv plan by (auto simp: s'(1) plans_of_def run_inv_def)
  moreover have "tasks_ok s'"
    using outcome_tasks [OF _ r c(1,2,3) services s'] inv by (simp add: run_inv_def)
  ultimately show ?thesis by (simp add: run_inv_def)
qed

lemma run_step_inv:
  assumes "run_step run invalidators s s'" and inv: "run_inv plans s"
  shows "run_inv plans s'"
  using assms(1)
proof cases
  case (pass env)
  then show ?thesis by (intro pass_inv [OF disjI1 inv])
next
  case (finish env)
  then show ?thesis by (intro pass_inv [OF disjI2 inv])
next
  case (outcome name outcome clock now)
  then show ?thesis by (intro outcome_inv [OF _ inv])
next
  case (observe update capacity checks capacity')
  then show ?thesis using settled_inv [OF observe_settles inv] by simp
next
  case refresh
  then show ?thesis using settled_inv [OF refresh_all_settles inv] by simp
next
  case (lost name env exit)
  then obtain checks where mark: "mark_service_exit env run False name exit (rs_checks s) = Ok checks"
    by (auto simp: lose_service_def)
  have "name_status (rs_checks s) LeafStatus_is_terminal name"
    using service_terminal [OF inv] lost by (auto simp: bt_contains_def bt_get_None)
  from service_exit_inv(1) [OF mark inv this] lost mark show ?thesis
    by (auto simp: lose_service_def Let_def)
next
  case (stop exits env)
  have "\<forall>name \<in> set (map fst exits). name_status (rs_checks s) LeafStatus_is_terminal name"
    using service_terminal [OF inv] stop(2) by simp
  with stop_services_inv [OF stop(3) inv] show ?thesis by simp
qed (use inv in simp_all)

interpretation run: invariant_system "run_initial plans" "run_step run_id invalidators" "run_inv plans"
  for plans run_id invalidators
  by unfold_locales (simp_all add: run_initial_inv run_step_inv)


section \<open>What a step may change\<close>

lemma run_inv_distinct: "run_inv plans s \<Longrightarrow> distinct (map rt_name (rs_checks s))"
  by (simp add: run_inv_def tasks_ok_def)

lemma schedule_pass_launched:
  assumes "schedule_pass env run invalidators s = Waiting s' \<or> schedule_pass env run invalidators s = Finished s'"
    and inv: "run_inv plans s"
  shows "\<exists>cs A. list_all2 settles (rs_checks s) cs \<and>
    A \<subseteq> rt_name ` {c \<in> set cs. startable invalidators cs c} \<and> rs_checks s' = map (launched env A) cs \<and>
    blocked_now env run invalidators s cs"
  using assms(1)
proof (cases rule: schedule_pass_cases)
  case (unsafe cs)
  moreover have "map (launched env {}) cs = cs" by (simp add: launched_def map_idI)
  ultimately show ?thesis by (intro exI [of _ cs] exI [of _ "{}"]) simp
next
  case (launch cs names checks running)
  have inv': "run_inv plans (s\<lparr>rs_checks := cs\<rparr>)" by (rule settled_inv [OF launch(1) inv])
  have distinct: "distinct (map rt_name cs)" using run_inv_distinct [OF inv'] by simp
  have free: "exclusive ResourceClaim_conflicts cp_resources
      (rt_plan ` {c \<in> set cs. holds_resources (map fst (rs_services s)) c})"
    using inv' by (simp add: run_inv_def holders_def)
  note admitted = admission [OF distinct launch(2) free]
  obtain ls where "set ls \<subseteq> set names" "checks = map (launched env (set ls)) cs"
    using launch_loop_result [OF launch(3) distinct admitted(1)] by blast
  with admitted(2) launch(1,4,5) show ?thesis by (intro exI [of _ cs] exI [of _ "set ls"]) auto
qed

lemma pass_terminal:
  assumes "schedule_pass env run invalidators s = Waiting s' \<or> schedule_pass env run invalidators s = Finished s'"
    and inv: "run_inv plans s" and terminal: "name_status (rs_checks s) LeafStatus_is_terminal n"
  shows "name_status (rs_checks s') LeafStatus_is_terminal n"
proof -
  from schedule_pass_launched [OF assms(1) inv] obtain cs A where
    settled: "list_all2 settles (rs_checks s) cs"
    and A: "A \<subseteq> rt_name ` {c \<in> set cs. startable invalidators cs c}"
    and s': "rs_checks s' = map (launched env A) cs" by blast
  have "distinct (map rt_name cs)" using run_inv_distinct [OF settled_inv [OF settled inv]] by simp
  moreover have "A \<subseteq> rt_name ` {c \<in> set cs. rt_status c = LeafStatus.Pending}" using A by (auto simp: startable_def)
  ultimately show ?thesis
    unfolding s' using launched_terminal settled_name_status [OF settled terminal] by blast
qed

lemma step_terminal:
  assumes "run_step run invalidators s s'" and inv: "run_inv plans s"
    and terminal: "name_status (rs_checks s) LeafStatus_is_terminal n"
  shows "name_status (rs_checks s') LeafStatus_is_terminal n"
  using assms(1)
proof cases
  case (pass env)
  then show ?thesis by (intro pass_terminal [OF disjI1 inv terminal])
next
  case (finish env)
  then show ?thesis by (intro pass_terminal [OF disjI2 inv terminal])
next
  case (observe update capacity checks capacity')
  then show ?thesis using settled_name_status [OF observe_settles terminal] by simp
next
  case refresh
  then show ?thesis using settled_name_status [OF refresh_all_settles terminal] by simp
next
  case (outcome name outcome clock now)
  obtain r where "rt_status r = oc_status outcome" "rs_checks s' = map (replaced r) (rs_checks s)"
    using outcome(3) run_inv_distinct [OF inv] by (rule take_outcome_cases)
  with outcome(2) terminal show ?thesis by (simp add: replaced_terminal)
next
  case (lost name env exit)
  then obtain checks where mark: "mark_service_exit env run False name exit (rs_checks s) = Ok checks"
    by (auto simp: lose_service_def)
  have "name_status (rs_checks s) LeafStatus_is_terminal name"
    using service_terminal [OF inv] lost by (auto simp: bt_contains_def bt_get_None)
  from service_exit_inv(2) [OF mark inv this] have "name_status checks LeafStatus_is_terminal n"
    using terminal by (rule settled_name_status)
  with lost mark show ?thesis by (auto simp: lose_service_def Let_def)
next
  case (stop exits env)
  have "\<forall>name \<in> set (map fst exits). name_status (rs_checks s) LeafStatus_is_terminal name"
    using service_terminal [OF inv] stop(2) by simp
  with stop_services_inv [OF stop(3) inv] terminal show ?thesis by (auto intro: settled_name_status)
qed (use terminal in simp_all)

lemma stop_services_running: "stop_services env run exits s = Ok s' \<Longrightarrow> rs_running s' = rs_running s"
  by (induction env run exits s rule: stop_services.induct) auto

lemma launched_success:
  assumes "distinct (map rt_name cs)" and "A \<subseteq> rt_name ` {c \<in> set cs. startable invalidators cs c}"
    and "name_status cs LeafStatus_is_success n"
  shows "name_status (map (launched env A) cs) LeafStatus_is_success n"
proof -
  from assms(3) obtain d where d: "d \<in> set cs" "rt_name d = n" "LeafStatus_is_success (rt_status d)"
    by (auto simp: name_status_def)
  have "rt_name d \<notin> A"
  proof
    assume "rt_name d \<in> A"
    with assms(2) obtain e where "e \<in> set cs" "startable invalidators cs e" "rt_name d = rt_name e" by blast
    with same_check [OF assms(1) d(1)] d(3) show False
      by (auto simp: startable_def LeafStatus_is_success_def)
  qed
  then have "launched env A d = d" by (simp add: launched_def)
  with d show ?thesis unfolding name_status_def by (metis image_eqI list.set_map)
qed

lemma pass_launch_success:
  assumes "schedule_pass env run invalidators s = Waiting s' \<or> schedule_pass env run invalidators s = Finished s'"
    and inv: "run_inv plans s"
    and c': "c' \<in> set (rs_checks s')" "rt_status c' = LeafStatus.Running" "rt_name c' \<notin> set (rs_running s)"
      "cp_phase (rt_plan c') \<noteq> CheckPhase.Cleanup"
    and n: "n \<in> set (cp_requires (rt_plan c')) \<union> set (inv_names invalidators (rt_name c'))"
  shows "name_status (rs_checks s') LeafStatus_is_success n"
proof -
  from schedule_pass_launched [OF assms(1) inv] obtain cs A where
    settled: "list_all2 settles (rs_checks s) cs"
    and A: "A \<subseteq> rt_name ` {c \<in> set cs. startable invalidators cs c}"
    and s': "rs_checks s' = map (launched env A) cs" by blast
  have distinct: "distinct (map rt_name cs)" using run_inv_distinct [OF settled_inv [OF settled inv]] by simp
  from c'(1) s' obtain c where c: "c \<in> set cs" "c' = launched env A c" by auto
  have "rt_name c \<in> A"
  proof (rule ccontr)
    assume "rt_name c \<notin> A"
    with c c'(2) have "rt_name c \<in> rt_name ` {c \<in> set cs. rt_status c = LeafStatus.Running}"
      by (auto simp: launched_def)
    then have "rt_name c \<in> set (rs_running s)"
      unfolding settled_running [OF settled] using inv by (simp add: run_inv_def tasks_ok_def)
    with c'(3) c show False by simp
  qed
  with A obtain d where "d \<in> set cs" "startable invalidators cs d" "rt_name c = rt_name d" by blast
  with same_check [OF distinct c(1)] have "startable invalidators cs c" by auto
  with n c c'(4) have "name_status cs LeafStatus_is_success n" by (auto simp: startable_def)
  then show ?thesis unfolding s' by (rule launched_success [OF distinct A])
qed

lemma step_launch_success:
  assumes step: "run_step run invalidators s s'" and inv: "run_inv plans s"
    and c': "c' \<in> set (rs_checks s')" "rt_status c' = LeafStatus.Running" "rt_name c' \<notin> set (rs_running s)"
      "cp_phase (rt_plan c') \<noteq> CheckPhase.Cleanup"
    and n: "n \<in> set (cp_requires (rt_plan c')) \<union> set (inv_names invalidators (rt_name c'))"
  shows "name_status (rs_checks s') LeafStatus_is_success n"
proof -
  have "rt_name c' \<in> set (rs_running s')"
    using run_step_inv [OF step inv] c'(1,2) by (auto simp: run_inv_def tasks_ok_def)
  with c'(3) have new: "\<not> set (rs_running s') \<subseteq> set (rs_running s)" by blast
  from step show ?thesis
  proof cases
    case (pass env)
    then show ?thesis by (intro pass_launch_success [OF disjI1 inv c' n])
  next
    case (finish env)
    then show ?thesis by (intro pass_launch_success [OF disjI2 inv c' n])
  next
    case (outcome name outcome clock now)
    obtain "rs_running s' = remove1 name (rs_running s)"
      using outcome(3) run_inv_distinct [OF inv] by (rule take_outcome_cases)
    with new show ?thesis using set_remove1_subset by metis
  next
    case (lost name env exit)
    with new show ?thesis by (auto simp: lose_service_def Let_def split: if_splits)
  next
    case (stop exits env)
    with new show ?thesis by (simp add: stop_services_running)
  qed (use new in auto)
qed

section \<open>Invalidators of the active checks\<close>

lemma inv_names_push:
  assumes "bt_ok m"
  shows "set (inv_names (push_invalidator name t m) n) =
    set (inv_names m n) \<union> (if n = t then {name} else {})"
  using assms by (auto simp: inv_names_def push_invalidator_def bt_get_insert split: option.splits)

lemma push_invalidator_ok: "bt_ok m \<Longrightarrow> bt_ok (push_invalidator name t m)"
  by (simp add: push_invalidator_def)

lemma push_targets:
  "bt_ok m \<Longrightarrow>
   bt_ok (fold (\<lambda>t m. if t \<in> N then push_invalidator name t m else m) ts m) \<and>
   set (inv_names (fold (\<lambda>t m. if t \<in> N then push_invalidator name t m else m) ts m) n) =
     set (inv_names m n) \<union> (if n \<in> N \<and> n \<in> set ts then {name} else {})"
  by (induction ts arbitrary: m) (auto simp: inv_names_push push_invalidator_ok)

lemma push_checks:
  "bt_ok m \<Longrightarrow>
   bt_ok (fold (\<lambda>check m. fold (\<lambda>t m. if t \<in> N then push_invalidator (rt_name check) t m else m)
       (cp_invalidates (rt_plan check)) m) checks m) \<and>
   set (inv_names (fold (\<lambda>check m. fold (\<lambda>t m. if t \<in> N then push_invalidator (rt_name check) t m else m)
       (cp_invalidates (rt_plan check)) m) checks m) n) =
     set (inv_names m n) \<union> {rt_name c | c. c \<in> set checks \<and> n \<in> N \<and> n \<in> set (cp_invalidates (rt_plan c))}"
proof (induction checks arbitrary: m)
  case (Cons c checks)
  let ?m = "fold (\<lambda>t m. if t \<in> N then push_invalidator (rt_name c) t m else m) (cp_invalidates (rt_plan c)) m"
  from push_targets [OF Cons.prems] have ok: "bt_ok ?m" and
    set: "set (inv_names ?m n) = set (inv_names m n) \<union>
      (if n \<in> N \<and> n \<in> set (cp_invalidates (rt_plan c)) then {rt_name c} else {})" by blast+
  from Cons.IH [OF ok] show ?case unfolding fold_Cons comp_apply set by (intro conjI) auto
qed simp

lemma inv_names_sort: "set (inv_names (bt_map sort m) n) = set (inv_names m n)"
  by (auto simp: inv_names_def bt_get_map split: option.splits)

lemma invalidator_map_names:
  assumes "n \<in> names_of_checks checks"
  shows "set (inv_names (invalidator_map checks) n) =
    {rt_name c | c. c \<in> set checks \<and> n \<in> set (cp_invalidates (rt_plan c))}"
proof -
  have "n \<in> set (map rt_name checks)" using assms by (simp add: names_of_checks_def)
  with push_checks [OF bt_ok_Nil, of "set (map rt_name checks)" checks n]
  show ?thesis unfolding invalidator_map_def inv_names_sort by (auto simp: inv_names_def)
qed

end
