(* ===== verification/Run_Properties.thy ===== *)
theory Run_Properties
  imports Run_Safety
begin

text \<open>
  Runs of an accepted plan: the active checks of a plan that \<^verbatim>\<open>ExecutionPlan::validate\<close> accepts
  satisfy what the scheduler relies on, so that its runs are safe, ordered and never stuck.
\<close>

section \<open>Runs of an accepted plan\<close>

text \<open>Cleanup may wait for any check; what the loop needs is that those checks are active.\<close>

definition cleanup_dependencies_active :: "ExecutionPlan \<Rightarrow> bool" where
  "cleanup_dependencies_active p \<longleftrightarrow>
     (\<forall>c \<in> set (ep_checks p). cp_phase c = CheckPhase.Cleanup \<longrightarrow>
        (\<forall>e \<in> set (ep_checks p). cp_name e \<in> set (cp_after c) \<union> set (cp_requires c) \<longrightarrow> check_is_active p e))"


lemma active_names_distinct: "ExecutionPlan_validate p = Ok () \<Longrightarrow> distinct (map cp_name (active_checks p))"
  using valid_plan_names(1) [of p] by (simp add: active_checks_def distinct_map_filter)

lemma active_invalidators:
  assumes plans: "plans_of checks = active_checks p" and "q \<in> set (active_checks p)"
  shows "set (inv_names (invalidator_map checks) (cp_name q)) =
      {cp_name r | r. r \<in> set (active_checks p) \<and> cp_name q \<in> set (cp_invalidates r)}"
proof -
  have "cp_name q \<in> names_of_checks checks" using assms plans_names_set by (metis imageI)
  from invalidator_map_names [OF this] show ?thesis
    unfolding plans [symmetric] by (auto simp: plans_of_def rt_name_def)
qed


lemma active_blocking_ok:
  assumes "ExecutionPlan_validate p = Ok ()" and plans: "plans_of checks = active_checks p"
  shows "blocking_ok (invalidator_map checks) (active_checks p)"
proof -
  have known: "set (cp_requires q) \<subseteq> cp_name ` set (active_checks p)"
    if q: "q \<in> set (active_checks p)" "cp_phase q \<noteq> CheckPhase.Cleanup" for q
  proof
    fix d
    assume d: "d \<in> set (cp_requires q)"
    have "q \<in> set (ep_checks p)" "check_is_active p q" using q(1) by (simp_all add: active_checks_def)
    with valid_plan_dependency [OF assms(1), of q d] d q(2) obtain e where
      "e \<in> set (ep_checks p)" "cp_name e = d" "cp_tier e \<le> cp_tier q" by auto
    moreover from this have "check_is_active p e"
      using \<open>check_is_active p q\<close> q(2) by (auto simp: check_is_active_def)
    ultimately show "d \<in> cp_name ` set (active_checks p)"
      by (auto simp: active_checks_def)
  qed
  then show ?thesis
    using active_names_distinct [OF assms(1)] active_invalidators [OF plans] by (auto simp: blocking_ok_def)
qed


lemma new_runtime_simps [simp]:
  "rt_plan (new_runtime c reused q started inputs now) = c"
  "rt_status (new_runtime c reused q started inputs now) \<noteq> LeafStatus.Running"
  by (simp_all add: new_runtime_def rt_status_def Let_def)

lemma initialize_loop_ok:
  "initialize_loop resolve receipts_match artifact_receipts plan base started_at now plans = Ok checks \<Longrightarrow>
     plans_of checks = plans \<and> none_running checks"
proof (induction plans arbitrary: checks)
  case (Cons c plans)
  then show ?case by (auto simp: plans_of_def none_running_def split: if_splits option.splits)
qed (simp add: plans_of_def none_running_def)

lemma publish_reused_keeps [simp]:
  "rt_plan (publish_reused_check env run started c) = rt_plan c"
  "rt_status (publish_reused_check env run started c) = LeafStatus.Running \<longleftrightarrow> rt_status c = LeafStatus.Running"
  by (simp_all add: publish_reused_check_def set_status_def rt_status_def)

lemma start_checks_ok:
  assumes "start_checks env resolve receipts_match artifact_receipts plan base started_at now started = Ok checks"
  shows "plans_of checks = active_checks plan" and "none_running checks"
proof -
  obtain cs where cs: "initialize_loop resolve receipts_match artifact_receipts plan base started_at now (active_checks plan) = Ok cs"
    and checks: "checks = publish_reused_leaf_metadata env (ep_run_id plan) started cs"
    using assms by (auto simp: start_checks_def initialize_checks_def)
  show "plans_of checks = active_checks plan" and "none_running checks"
    using initialize_loop_ok [OF cs]
    by (auto simp: checks publish_reused_leaf_metadata_def plans_of_def none_running_def comp_def)
qed

lemma accepted_run:
  assumes "ExecutionPlan_validate plan = Ok ()"
    and "start_checks env0 resolve receipts_match artifact_receipts plan base started_at now started = Ok checks"
    and "(run_step run_id invalidators)\<^sup>*\<^sup>* (initial_run checks) s"
  shows "run_inv (active_checks plan) s"
proof -
  have "plans_of checks = active_checks plan" "none_running checks"
    using start_checks_ok [OF assms(2)] by simp_all
  moreover have "distinct (map cp_name (active_checks plan))"
    using valid_plan_names(1) [OF assms(1)] by (simp add: active_checks_def distinct_map_filter)
  ultimately have "run_initial (active_checks plan) (initial_run checks)" by (auto simp: run_initial_def)
  from run.steps_inv [OF run.init_inv [OF this] assms(3)] show ?thesis .
qed

section \<open>Sample run\<close>

definition sample_initialize :: "ExecutionPlan \<Rightarrow> (ExecutorError, CheckRuntime list) result" where
  "sample_initialize plan =
     start_checks sample_env (\<lambda>cwd. Ok [RootDir]) (\<lambda>_. Ok True) (\<lambda>_. Ok []) plan [RootDir] ''start'' 1 1"

definition sample_checks :: "CheckRuntime list" where
  "sample_checks = (case sample_initialize (sample_plan [build_check, test_check]) of Inr checks \<Rightarrow> checks | Inl _ \<Rightarrow> [])"

lemma sample_fields [simp]:
  "cp_name build_check = ''build''" "cp_name test_check = ''test''"
  "cp_after build_check = []" "cp_requires build_check = []" "cp_invalidates build_check = []"
  "cp_after test_check = []" "cp_requires test_check = [''build'']" "cp_invalidates test_check = []"
  "cp_resources build_check = []" "cp_resources test_check = []"
  "cp_phase build_check = CheckPhase.Build" "cp_phase test_check = CheckPhase.Check"
  "cp_tier build_check = Development" "cp_tier test_check = Development"
  by (simp_all add: build_check_def test_check_def sample_check_def)

lemma sample_runtime_fields [simp]:
  "rt_name (new_runtime c r q st i now) = cp_name c"
  "rt_status (new_runtime c None False st i now) = LeafStatus.Pending"
  by (simp_all add: new_runtime_def rt_name_def rt_status_def Let_def)

lemma sample_initialized:
  "sample_initialize (sample_plan [build_check, test_check]) = Ok sample_checks"
  "sample_checks = [new_runtime build_check None False ''start'' [] 1, new_runtime test_check None False ''start'' [] 1]"
  by (simp_all add: sample_checks_def sample_initialize_def start_checks_def initialize_checks_def active_checks_def
      check_is_active_def sample_plan_def publish_reused_leaf_metadata_def publish_reused_check_def)


definition sample_launched :: RunState where
  "sample_launched = (initial_run sample_checks)
     \<lparr>rs_checks := [launch_check sample_env (new_runtime build_check None False ''start'' [] 1),
                    new_runtime test_check None False ''start'' [] 1],
      rs_running := [''build'']\<rparr>"

lemma sample_invalidators: "invalidator_map sample_checks = []"
  by (simp add: sample_initialized(2) invalidator_map_def bt_map_def)

lemma sample_statuses:
  "statuses_of sample_checks = [(''build'', LeafStatus.Pending), (''test'', LeafStatus.Pending)]"
  by (simp add: sample_initialized(2) statuses_of_def)

lemma sample_unblocked: "mark_blocked env run [] sample_checks = Some sample_checks"
proof -
  have "mark_blocked_once env run [] sample_checks = Some sample_checks"
    unfolding mark_blocked_once_def sample_statuses
    by (simp add: sample_initialized(2) block_check_def did_not_pass_def LeafStatus_is_terminal_def)
  then show ?thesis by (subst mark_blocked_Some) simp
qed

lemma sample_admitted: "ready_checks_with_available_resources [] [] sample_checks = Some [''build'']"
  unfolding ready_checks_with_available_resources_def ready_checks_def sample_statuses
  by (simp add: sample_initialized(2) is_ready_def LeafStatus_is_terminal_def holds_resources_def claims_conflict_def)

lemma initial_run_fields [simp]:
  "rs_checks (initial_run checks) = checks" "rs_running (initial_run checks) = []"
  "rs_services (initial_run checks) = []" "abort_now (initial_run checks) = None"
  "cancel_now env run (initial_run checks) cs = cs" "rs_abort (initial_run checks) = None"
  by (simp_all add: initial_run_def abort_now_def cancel_now_def)

lemma sample_launch:
  "launch_loop sample_env None [''build''] sample_checks [] = Ok (rs_checks sample_launched, [''build''])"
  by (simp add: sample_initialized(2) sample_launched_def check_index_def)

lemma sample_wait: "conclude_pass sample_launched = Waiting sample_launched"
  by (simp add: conclude_pass_def sample_launched_def terminal_iff)

lemma sample_pass:
  "schedule_pass sample_env run (invalidator_map sample_checks) (initial_run sample_checks) = Waiting sample_launched"
proof -
  have marked: "mark_blocked sample_env run [] (rs_checks (initial_run sample_checks)) = Some sample_checks"
    by (simp add: sample_unblocked)
  have "(initial_run sample_checks)\<lparr>rs_checks := rs_checks sample_launched, rs_running := [''build''], rs_abort := None\<rparr> =
      sample_launched"
    by (simp add: sample_launched_def initial_run_def)
  then show ?thesis
    unfolding sample_invalidators schedule_pass_eq [OF marked]
    by (simp add: sample_admitted sample_launch sample_wait is_unsafe_def del: launch_loop.simps)
qed

lemma sample_reached: "(run_step run (invalidator_map sample_checks))\<^sup>*\<^sup>* (initial_run sample_checks) sample_launched"
  by (intro r_into_rtranclp run_step.pass [OF sample_pass])

definition sample_outcome :: CheckOutcome where
  "sample_outcome = \<lparr>oc_cache_key = None, oc_status = LeafStatus.Passed, oc_exit_code = Some 0, oc_reason = None, oc_artifacts = [],
     oc_cache_inputs = [], oc_consumed_artifacts = [], oc_retained_artifacts = [], oc_streams = [], oc_case_count = 0,
     oc_cases = [], oc_cases_truncated = False, oc_failures = [], oc_service = None, oc_duration_seconds = Finite 1\<rparr>"

definition built_check :: CheckRuntime where
  "built_check = fst (apply_outcome 0 1 sample_outcome
     (launch_check sample_env (new_runtime build_check None False ''start'' [] 1), []))"

lemma built_check_fields [simp]:
  "rt_plan built_check = build_check" "rt_name built_check = ''build''" "rt_status built_check = LeafStatus.Passed"
  by (simp_all add: built_check_def apply_outcome_def sample_outcome_def rt_name_def rt_status_def Let_def)

definition sample_built :: RunState where
  "sample_built = (initial_run sample_checks)
     \<lparr>rs_checks := [built_check, new_runtime test_check None False ''start'' [] 1]\<rparr>"

definition sample_tested :: RunState where
  "sample_tested = (initial_run sample_checks)
     \<lparr>rs_checks := [built_check, launch_check sample_env (new_runtime test_check None False ''start'' [] 1)],
      rs_running := [''test'']\<rparr>"

lemma sample_built_outcome: "take_outcome 0 1 ''build'' sample_outcome sample_launched = Ok sample_built"
proof -
  have "apply_outcome 0 1 sample_outcome (launch_check sample_env (new_runtime build_check None False ''start'' [] 1), []) =
      (built_check, [])"
    by (simp add: built_check_def apply_outcome_def sample_outcome_def Let_def)
  moreover have "oc_status sample_outcome = LeafStatus.Passed" by (simp add: sample_outcome_def)
  ultimately show ?thesis
    by (simp add: take_outcome_def sample_launched_def sample_built_def check_index_def initial_run_def Let_def
        LeafStatus_is_success_def)
qed

lemma sample_built_pass: "schedule_pass sample_env run [] sample_built = Waiting sample_tested"
proof -
  have st: "statuses_of (rs_checks sample_built) = [(''build'', LeafStatus.Passed), (''test'', LeafStatus.Pending)]"
    by (simp add: sample_built_def statuses_of_def)
  have "mark_blocked_once sample_env run [] (rs_checks sample_built) = Some (rs_checks sample_built)"
    unfolding mark_blocked_once_def st
    by (simp add: sample_built_def block_check_def did_not_pass_def LeafStatus_is_terminal_def LeafStatus_is_success_def)
  then have marked: "mark_blocked sample_env run [] (rs_checks sample_built) = Some (rs_checks sample_built)"
    by (subst mark_blocked_Some) simp
  have "ready_checks_with_available_resources [] [] (rs_checks sample_built) = Some [''test'']"
    unfolding ready_checks_with_available_resources_def ready_checks_def st
    by (simp add: sample_built_def is_ready_def LeafStatus_is_terminal_def LeafStatus_is_success_def
        holds_resources_def claims_conflict_def)
  moreover have "launch_loop sample_env None [''test''] (rs_checks sample_built) [] =
      Ok (rs_checks sample_tested, [''test''])"
    by (simp add: sample_built_def sample_tested_def check_index_def)
  moreover have "abort_now sample_built = None" "rs_services sample_built = []" "rs_running sample_built = []"
    "cancel_now sample_env run sample_built cs = cs" for cs
    by (simp_all add: sample_built_def initial_run_def abort_now_def cancel_now_def)
  moreover have "sample_built\<lparr>rs_checks := rs_checks sample_tested, rs_running := [''test''], rs_abort := None\<rparr> =
      sample_tested"
    by (simp add: sample_built_def sample_tested_def initial_run_def)
  moreover have "conclude_pass sample_tested = Waiting sample_tested"
    by (simp add: conclude_pass_def sample_tested_def terminal_iff)
  ultimately show ?thesis
    unfolding schedule_pass_eq [OF marked] by (simp add: is_unsafe_def del: launch_loop.simps)
qed

lemma sample_built_reached:
  "(run_step run (invalidator_map sample_checks))\<^sup>*\<^sup>* (initial_run sample_checks) sample_built"
proof -
  have "run_step run (invalidator_map sample_checks) sample_launched sample_built"
    by (rule run_step.outcome [OF _ _ sample_built_outcome])
      (simp_all add: sample_launched_def sample_outcome_def LeafStatus_is_terminal_def)
  with sample_reached show ?thesis by (rule rtranclp.rtrancl_into_rtrancl)
qed

lemma sample_tested_step: "run_step run (invalidator_map sample_checks) sample_built sample_tested"
  unfolding sample_invalidators by (rule run_step.pass [OF sample_built_pass])

lemma sample_tested_reached:
  "(run_step run (invalidator_map sample_checks))\<^sup>*\<^sup>* (initial_run sample_checks) sample_tested"
  by (rule rtranclp.rtrancl_into_rtrancl [OF sample_built_reached sample_tested_step])

lemmas sample_run = sample_plan_valid sample_initialized(1) [unfolded sample_initialize_def] sample_tested_reached

text \<open>A plan whose cleanup waits for a check of a tier that is not requested.\<close>

definition release_check :: CheckPlan where
  "release_check = sample_check ''test'' Release CheckPhase.Check []"

definition sweep_check :: CheckPlan where
  "sweep_check = sample_check ''sweep'' Development CheckPhase.Cleanup [''test'']"

definition sweep_plan :: ExecutionPlan where
  "sweep_plan = sample_plan [release_check, sweep_check]"

lemma sweep_plan_valid: "ExecutionPlan_validate sweep_plan = Ok ()"
proof -
  have "validate_check release_check = Ok ()" "validate_check sweep_check = Ok ()"
    by (simp_all add: release_check_def sweep_check_def sample_check_valid)
  moreover have "cp_name release_check = ''test''" "cp_name sweep_check = ''sweep''"
    "cp_after release_check = []" "cp_requires release_check = []" "cp_invalidates release_check = []"
    "cp_after sweep_check = []" "cp_requires sweep_check = [''test'']" "cp_invalidates sweep_check = []"
    "cp_consumes release_check = []" "cp_consumes sweep_check = []"
    "cp_qualification_of release_check = None" "cp_qualification_of sweep_check = None"
    "cp_cases release_check = None" "cp_cases sweep_check = None"
    "cp_tier release_check = Release" "cp_tier sweep_check = Development" "cp_phase sweep_check = CheckPhase.Cleanup"
    "\<not> outputs_collide release_check sweep_check"
    by (simp_all add: release_check_def sweep_check_def sample_check_def outputs_collide_def check_outputs_def)
  ultimately show ?thesis
    by (simp add: sweep_plan_def ExecutionPlan_validate_def sample_plan_identity sample_plan_paths)
      (simp add: plan_evaluation)
qed

lemma sweep_initialized:
  "sample_initialize sweep_plan = Ok [new_runtime sweep_check None False ''start'' [] 1]"
  by (simp add: sweep_plan_def sample_initialize_def start_checks_def initialize_checks_def active_checks_def
      publish_reused_leaf_metadata_def publish_reused_check_def check_is_active_def sample_plan_def release_check_def sweep_check_def sample_check_def less_eq_ValidationTier_def)

section \<open>Properties of a run\<close>

text \<open>
  C1: in every state a run of an accepted plan reaches, checks that run and
  services that are alive hold resources that do not conflict pairwise, and the names of the
  running tasks are exactly the checks whose status is running.
\<close>

theorem run_mutual_exclusion:
  assumes "ExecutionPlan_validate plan = Ok ()"
    and "start_checks env0 resolve receipts_match artifact_receipts plan base started_at now started = Ok checks"
    and "(run_step run_id (invalidator_map checks))\<^sup>*\<^sup>* (initial_run checks) s"
  shows "(\<forall>c \<in> set (rs_checks s). \<forall>d \<in> set (rs_checks s). rt_name c \<noteq> rt_name d \<longrightarrow>
            holds_resources (map fst (rs_services s)) c \<longrightarrow> holds_resources (map fst (rs_services s)) d \<longrightarrow>
            (\<forall>x \<in> set (cp_resources (rt_plan c)). \<forall>y \<in> set (cp_resources (rt_plan d)). \<not> ResourceClaim_conflicts x y))
    \<and> distinct (rs_running s)
    \<and> set (rs_running s) = rt_name ` {c \<in> set (rs_checks s). rt_status c = LeafStatus.Running}"
proof (intro conjI ballI impI)
  note inv = accepted_run [OF assms]
  show "distinct (rs_running s)"
    and "set (rs_running s) = rt_name ` {c \<in> set (rs_checks s). rt_status c = LeafStatus.Running}"
    using inv by (simp_all add: run_inv_def tasks_ok_def)
  fix c d x y
  assume "c \<in> set (rs_checks s)" "d \<in> set (rs_checks s)" "rt_name c \<noteq> rt_name d"
    "holds_resources (map fst (rs_services s)) c" "holds_resources (map fst (rs_services s)) d"
    "x \<in> set (cp_resources (rt_plan c))" "y \<in> set (cp_resources (rt_plan d))"
  moreover from this have "rt_plan c \<in> holders s" "rt_plan d \<in> holders s" "rt_plan c \<noteq> rt_plan d"
    by (auto simp: holders_def rt_name_def)
  moreover have "exclusive ResourceClaim_conflicts cp_resources (holders s)" using inv by (simp add: run_inv_def)
  ultimately show "\<not> ResourceClaim_conflicts x y" by (auto simp: exclusive_def compatible_def)
qed

theorem run_mutual_exclusion_witness:
  "set (rs_running sample_tested) = rt_name ` {c \<in> set (rs_checks sample_tested). rt_status c = LeafStatus.Running}"
  using run_mutual_exclusion [OF sample_run] by blast

text \<open>
  C3: in every state a run of an accepted plan reaches, whatever a running
  check waits for has ended; no step makes a check that ended pending or running again.
\<close>

theorem run_dependency_order:
  assumes "ExecutionPlan_validate plan = Ok ()"
    and "start_checks env0 resolve receipts_match artifact_receipts plan base started_at now started = Ok checks"
    and "(run_step run_id (invalidator_map checks))\<^sup>*\<^sup>* (initial_run checks) s"
  shows "(\<forall>c \<in> set (rs_checks s). rt_status c = LeafStatus.Running \<longrightarrow>
            (\<forall>n \<in> set (cp_after (rt_plan c)) \<union> set (cp_requires (rt_plan c)).
               name_status (rs_checks s) LeafStatus_is_terminal n))
    \<and> (\<forall>s' n. run_step run_id (invalidator_map checks) s s' \<longrightarrow>
         name_status (rs_checks s) LeafStatus_is_terminal n \<longrightarrow> name_status (rs_checks s') LeafStatus_is_terminal n)"
  using accepted_run [OF assms] step_terminal by (auto simp: run_inv_def order_ok_def)

theorem run_dependency_order_witness:
  "name_status (rs_checks sample_tested) LeafStatus_is_terminal ''build''"
  using run_dependency_order [OF sample_run] by (simp add: sample_tested_def)

text \<open>
  C4: a step that starts a check other than cleanup does so only when every
  check it requires, and every active check that can invalidate it, has succeeded.
\<close>

theorem launch_requires_success:
  assumes "ExecutionPlan_validate plan = Ok ()"
    and init: "start_checks env0 resolve receipts_match artifact_receipts plan base started_at now started = Ok checks"
    and "(run_step run_id (invalidator_map checks))\<^sup>*\<^sup>* (initial_run checks) s"
    and step: "run_step run_id (invalidator_map checks) s s'"
    and c: "c \<in> set (rs_checks s')" "rt_status c = LeafStatus.Running" "rt_name c \<notin> set (rs_running s)"
      "cp_phase (rt_plan c) \<noteq> CheckPhase.Cleanup"
  shows "(\<forall>n \<in> set (cp_requires (rt_plan c)). name_status (rs_checks s') LeafStatus_is_success n)
    \<and> (\<forall>q \<in> set (active_checks plan). rt_name c \<in> set (cp_invalidates q) \<longrightarrow>
         name_status (rs_checks s') LeafStatus_is_success (cp_name q))"
proof -
  note inv = accepted_run [OF assms(1-3)]
  have plans: "plans_of checks = active_checks plan" using start_checks_ok [OF init] by simp
  have "plans_of (rs_checks s') = active_checks plan" using run_step_inv [OF step inv] by (simp add: run_inv_def)
  with c(1) plans plans_names_set [of "rs_checks s'"] plans_names_set [of checks]
  have "rt_name c \<in> names_of_checks checks" by (auto simp: names_of_checks_def)
  from invalidator_map_names [OF this] have "cp_name q \<in> set (inv_names (invalidator_map checks) (rt_name c))"
    if "q \<in> set (active_checks plan)" "rt_name c \<in> set (cp_invalidates q)" for q
    using that unfolding plans [symmetric] by (auto simp: plans_of_def rt_name_def)
  with step_launch_success [OF step inv c] show ?thesis by blast
qed

theorem launch_requires_success_witness:
  "name_status (rs_checks sample_tested) LeafStatus_is_success ''build''"
proof -
  let ?c = "launch_check sample_env (new_runtime test_check None False ''start'' [] 1)"
  have "?c \<in> set (rs_checks sample_tested)" "rt_status ?c = LeafStatus.Running"
    "rt_name ?c \<notin> set (rs_running sample_built)" "cp_phase (rt_plan ?c) \<noteq> CheckPhase.Cleanup"
    by (simp_all add: sample_tested_def sample_built_def)
  from launch_requires_success [OF sample_run(1,2) sample_built_reached sample_tested_step this]
  show ?thesis by simp
qed




text \<open>
  C37: the condition on cleanup is needed.  A plan that validation accepts,
  in which a cleanup check requires a check of a tier above the requested one, makes the first
  pass of the scheduler index the table of statuses with a name that is not there.
\<close>

theorem cleanup_dependency_panics:
  "ExecutionPlan_validate sweep_plan = Ok () \<and> \<not> cleanup_dependencies_active sweep_plan \<and>
   (\<exists>checks. sample_initialize sweep_plan = Ok checks \<and>
      schedule_pass env run (invalidator_map checks) (initial_run checks) = Panicked)"
proof (intro conjI exI)
  let ?checks = "[new_runtime sweep_check None False ''start'' [] 1]"
  show "ExecutionPlan_validate sweep_plan = Ok ()" by (rule sweep_plan_valid)
  show "\<not> cleanup_dependencies_active sweep_plan"
    by (simp add: cleanup_dependencies_active_def sweep_plan_def sample_plan_def sweep_check_def release_check_def
        sample_check_def check_is_active_def less_eq_ValidationTier_def)
  show "sample_initialize sweep_plan = Ok ?checks" by (rule sweep_initialized)
  have fields: "cp_name sweep_check = ''sweep''" "cp_after sweep_check = []" "cp_requires sweep_check = [''test'']"
    "cp_invalidates sweep_check = []" "cp_phase sweep_check = CheckPhase.Cleanup"
    by (simp_all add: sweep_check_def sample_check_def)
  have inv: "invalidator_map ?checks = []" by (simp add: invalidator_map_def bt_map_def fields)
  have st: "statuses_of ?checks = [(''sweep'', LeafStatus.Pending)]" by (simp add: statuses_of_def fields)
  have "mark_blocked_once env run [] ?checks = Some ?checks"
    unfolding mark_blocked_once_def by (simp add: block_check_def fields)
  then have marked: "mark_blocked env run [] (rs_checks (initial_run ?checks)) = Some ?checks"
    by (subst mark_blocked_Some) simp
  have "ready_checks_with_available_resources [] [] ?checks = None"
    unfolding ready_checks_with_available_resources_def ready_checks_def st
    by (simp add: is_ready_def fields)
  then show "schedule_pass env run (invalidator_map ?checks) (initial_run ?checks) = Panicked"
    unfolding inv schedule_pass_eq [OF marked] by (simp add: is_unsafe_def)
qed

text \<open>
  C34: on the active checks of any accepted plan, whatever its cleanup waits for, the blocking loop
  returns, at a fixed point of its pass: it changed only pending checks other than cleanup, and each such check
  left pending has no invalidator that failed, nor a failed requirement once all of them ended.
\<close>

theorem blocking_settles:
  assumes "ExecutionPlan_validate plan = Ok ()" and plans: "plans_of checks = active_checks plan"
  shows "\<exists>checks'. mark_blocked env run (invalidator_map checks) checks = Some checks'
    \<and> mark_blocked_once env run (invalidator_map checks) checks' = Some checks'
    \<and> unblocked (invalidator_map checks) checks'
    \<and> list_all2 (\<lambda>c c'. c' = c \<or> rt_status c = LeafStatus.Pending \<and> cp_phase (rt_plan c) \<noteq> CheckPhase.Cleanup \<and>
         did_not_pass (rt_status c') \<and> rt_plan c' = rt_plan c) checks checks'"
proof -
  have graph: "blocking_ok (invalidator_map checks) (plans_of checks)"
    using active_blocking_ok [OF assms] by (simp add: plans)
  then obtain checks' where marked: "mark_blocked env run (invalidator_map checks) checks = Some checks'"
    using mark_blocked_known by blast
  note fixpoint = mark_blocked_fixpoint [OF marked]
  moreover have "unblocked (invalidator_map checks) checks'"
    using fixpoint_unblocked [OF conjunct1 [OF fixpoint]] graph blocked_plans [OF conjunct2 [OF fixpoint]] by simp
  ultimately show ?thesis using marked unfolding blocked_by_def by blast
qed

theorem blocking_settles_witness:
  "\<exists>checks'. mark_blocked sample_env ''run-1'' (invalidator_map sample_checks) sample_checks = Some checks'"
proof -
  have "plans_of sample_checks = active_checks (sample_plan [build_check, test_check])"
    by (simp add: sample_initialized(2) plans_of_def active_checks_def check_is_active_def sample_plan_def)
  then show ?thesis using blocking_settles [OF sample_run(1)] by blast
qed


text \<open>
  C7: when a run of an accepted plan ends with the verdict passed, every
  check that the requested tier activates is among its checks and ended in success, nothing was
  aborted, and no report of a failure other than the executor's own is left.
\<close>

theorem passed_run_is_complete:
  assumes "ExecutionPlan_validate plan = Ok ()"
    and "start_checks env0 resolve receipts_match artifact_receipts plan base started_at now started = Ok checks"
    and "(run_step run_id (invalidator_map checks))\<^sup>*\<^sup>* (initial_run checks) s"
    and "final_status source_changed s = RunStatus.Passed"
  shows "(\<forall>p \<in> set (ep_checks plan). cp_tier p \<le> ep_requested_tier plan \<longrightarrow>
            (\<exists>c \<in> set (rs_checks s). rt_plan c = p \<and> LeafStatus_is_success (rt_status c) \<and>
               (\<forall>f \<in> set (rt_failures c). fie_origin f = DiagnosticOrigin.Executor)))
    \<and> rs_abort s = None \<and> rs_running s = []"
proof -
  note inv = accepted_run [OF assms(1-3)]
  have all: "\<forall>c \<in> set (rs_checks s). LeafStatus_is_success (rt_status c) \<and>
      (\<forall>f \<in> set (rt_failures c). fie_origin f = DiagnosticOrigin.Executor)"
    and abort: "rs_abort s = None"
    using assms(4) by (auto simp: final_status_def list_ex_iff split: if_splits)
  have "\<exists>c \<in> set (rs_checks s). rt_plan c = p"
    if "p \<in> set (ep_checks plan)" "cp_tier p \<le> ep_requested_tier plan" for p
  proof -
    have "p \<in> set (plans_of (rs_checks s))"
      using inv that by (simp add: run_inv_def active_checks_def check_is_active_def)
    then show ?thesis by (auto simp: plans_of_def)
  qed
  moreover have "set (rs_running s) = {}"
    using inv all by (auto simp: run_inv_def tasks_ok_def LeafStatus_is_success_def)
  ultimately show ?thesis using all abort by fastforce
qed


definition reused_plan :: ExecutionPlan where
  "reused_plan = (sample_plan [build_check])
     \<lparr>ep_reused := [(''build'', [\<lparr>ar_path = ''out/app'', ar_size = 1, ar_sha256 = sample_digest\<rparr>])]\<rparr>"

lemma reused_plan_valid: "ExecutionPlan_validate reused_plan = Ok ()"
proof -
  have "validate_check build_check = Ok ()" by (simp add: build_check_def sample_check_valid)
  moreover have "cp_consumes build_check = []" "cp_qualification_of build_check = None" "cp_cases build_check = None"
    by (simp_all add: build_check_def sample_check_def)
  moreover have "validate_plan_identity reused_plan = validate_plan_identity (sample_plan [build_check])"
    "validate_plan_paths reused_plan = validate_plan_paths (sample_plan [build_check])"
    by (simp_all add: reused_plan_def validate_plan_identity_def validate_plan_paths_def split: option.splits)
  moreover have "validate_plan_identity (sample_plan [build_check]) = Ok ()"
    by (simp add: sample_plan_identity)
  ultimately show ?thesis
    by (simp add: ExecutionPlan_validate_def sample_plan_paths)
      (simp add: reused_plan_def plan_evaluation validate_relative_path_def components_def segment_component_def
        is_absolute_def sample_digest_valid nul_def)
qed

definition reused_checks :: "CheckRuntime list" where
  "reused_checks = [new_runtime build_check
     (Some [\<lparr>ar_path = ''out/app'', ar_size = 1, ar_sha256 = sample_digest\<rparr>]) False ''start'' [] 1]"

lemma reused_initialized: "sample_initialize reused_plan = Ok reused_checks"
  by (simp add: reused_plan_def reused_checks_def sample_initialize_def start_checks_def initialize_checks_def
      active_checks_def publish_reused_leaf_metadata_def publish_reused_check_def check_is_active_def sample_plan_def
      sample_env_def)

theorem passed_run_is_complete_witness:
  "\<exists>c \<in> set reused_checks. rt_plan c = build_check \<and> LeafStatus_is_success (rt_status c)"
proof -
  have "final_status False (initial_run reused_checks) = RunStatus.Passed"
    by (simp add: final_status_def reused_checks_def new_runtime_def rt_status_def LeafStatus_is_success_def Let_def)
  from passed_run_is_complete [OF reused_plan_valid reused_initialized [unfolded sample_initialize_def]
      rtranclp.rtrancl_refl this]
  show ?thesis by (auto simp: reused_plan_def sample_plan_def)
qed

end
