(* ===== verification/Check_Execution.thy ===== *)
theory Check_Execution
  imports Leaf_Evidence
begin

text \<open>
  The execution of one check, \<^verbatim>\<open>execute_check\<close> of \<^verbatim>\<open>src/rust/executor-core/src/runner.rs\<close>: its
  inputs, the reuse of an earlier result, the single process of a direct check, and the discovery
  and the cases of a fan-out check, with the fixture and the cleanup around a case that has a
  database.  Processes, files, clocks and the reservation of resources are fields of the
  environment \<open>CheckEnv\<close>; what the code makes of them is modelled in full.  A selector is
  built from names the plan contract has accepted, so its \<^verbatim>\<open>expect\<close> cannot fail.
\<close>

section \<open>Environment\<close>

record ProcessRequest =
  rq_run_id :: string
  rq_check_name :: string
  rq_leaf_id :: string
  rq_command :: "string list"
  rq_cwd :: string
  rq_env :: "(string, string) btree_map"
  rq_scratch :: string
  rq_shared_artifacts :: string
  rq_diagnostics_dir :: string
  rq_evidence_dir :: string
  rq_log_selector :: LeafSelector
  rq_timeout_seconds :: "u64 option"
  rq_completion :: CompletionMode
  rq_capture_manifest :: bool

text \<open>Whether a process stops when the run is cancelled.\<close>

datatype CancellationScope = RunCancellation | NoCancellation

text \<open>The cancellation \<^verbatim>\<open>execute_check\<close> is started with.\<close>

definition check_scope :: "CheckPlan \<Rightarrow> CancellationScope" where
  "check_scope check = (if cp_phase check = CheckPhase.Cleanup then NoCancellation else RunCancellation)"

datatype ReservationResult = Reserved | ReservationRefused string | ReservationCancelled

text \<open>A file opened without following links; \<open>None\<close> for bytes that cannot be read.\<close>

record PrivateFile =
  pf_regular :: bool
  pf_mode :: u32
  pf_size :: int
  pf_bytes :: "string option"

text \<open>
  The surroundings of one check: what its processes do, the resources it reserves, the files
  before and after its processes (receipts, the reuse store, the retained trees, the private
  environments), the writing of its own files, the decoders, the text of a contract error (which
  the model keeps as a format and its values), the clocks by leaf in milliseconds and nanoseconds, and the order in which the tasks of its cases end, with the error of a task
  that panicked.
\<close>

record CheckEnv =
  ce_env :: Env
  ce_root :: string
  ce_current :: string
  ce_log_dir :: string
  ce_run_process :: "ProcessRequest \<Rightarrow> CancellationScope \<Rightarrow> ProcessResult"
  ce_reserve :: "string \<Rightarrow> ReservationResult"
  ce_receipts_before :: "string list \<Rightarrow> (ExecutorError, ArtifactReceipt list) result"
  ce_receipts_after :: "string list \<Rightarrow> (ExecutorError, ArtifactReceipt list) result"
  ce_reuse_key :: "CheckPlan \<Rightarrow> ArtifactReceipt list \<Rightarrow> ArtifactReceipt list \<Rightarrow> string option"
  ce_reuse_lookup :: "CheckPlan \<Rightarrow> string \<Rightarrow> ArtifactReceipt list option"
  ce_retain :: "string \<Rightarrow> RetainedArtifactSpec list \<Rightarrow> (ExecutorError, RetainedArtifactReceipt list) result"
  ce_private_file :: "string \<Rightarrow> (ExecutorError, PrivateFile) result"
  ce_plain_file :: "string \<Rightarrow> string option"
  ce_write :: "string \<Rightarrow> string \<Rightarrow> nat \<Rightarrow> (ExecutorError, unit) result"
  ce_decode_environment :: "string \<Rightarrow> (string, string) btree_map option"
  ce_decode_manifest :: "string \<Rightarrow> CaseSpec list option"
  ce_contract_message :: "ContractError \<Rightarrow> string"
  ce_encode_cases :: "string \<Rightarrow> CaseReport list \<Rightarrow> (ExecutorError, string) result"
  ce_started :: "LeafSelector \<Rightarrow> u64"
  ce_finished :: "LeafSelector \<Rightarrow> u64"
  ce_elapsed :: "LeafSelector \<Rightarrow> nat"
  ce_case_elapsed :: "string \<Rightarrow> nat"
  ce_joins :: "CaseSpec list \<Rightarrow> (CaseSpec \<times> string option) list"

definition leaf_env :: "CheckEnv \<Rightarrow> LeafSelector \<Rightarrow> Env" where
  "leaf_env ce selector = (ce_env ce)\<lparr>env_epoch_ms := ce_finished ce selector\<rparr>"

definition discovery_selector :: "string \<Rightarrow> LeafSelector" where
  "discovery_selector name = \<lparr>ls_check = Some name, ls_phase = LogPhase.Discovery, ls_case_id = None\<rparr>"

definition case_selector :: "string \<Rightarrow> LogPhase \<Rightarrow> string \<Rightarrow> LeafSelector" where
  "case_selector name phase case_id = \<lparr>ls_check = Some name, ls_phase = phase, ls_case_id = Some case_id\<rparr>"

fun ExecutorError_display :: "ExecutorError \<Rightarrow> string" where
  "ExecutorError_display (ExecutorError message) = message"

definition MAX_INLINE_CASES :: nat where
  "MAX_INLINE_CASES = 128"

definition MAX_CASE_EVIDENCE_BYTES :: nat where
  "MAX_CASE_EVIDENCE_BYTES = 4 * 1024 * 1024"

definition millis :: "nat \<Rightarrow> u64" where
  "millis nanos = saturating_of_nat (nanos div 1000000)"

section \<open>Paths and requests\<close>

text \<open>\<^verbatim>\<open>Path::join\<close>.\<close>

definition path_join :: "string \<Rightarrow> string \<Rightarrow> string" where
  "path_join base path =
     (if is_absolute path then path
      else if base = [] \<or> last base = CHR ''/'' then base @ path
      else base @ ''/'' @ path)"

definition selector_check :: "LeafSelector \<Rightarrow> string" where
  "selector_check selector = (case ls_check selector of Some check \<Rightarrow> check | None \<Rightarrow> [])"

definition selector_case :: "LeafSelector \<Rightarrow> string" where
  "selector_case selector = (case ls_case_id selector of Some case_id \<Rightarrow> case_id | None \<Rightarrow> [])"

definition leaf_log_directory :: "string \<Rightarrow> LeafSelector \<Rightarrow> string" where
  "leaf_log_directory run_dir selector =
     (let check_dir = path_join (path_join run_dir ''checks'') (selector_check selector)
      in case ls_phase selector of
           LogPhase.Executor \<Rightarrow> path_join run_dir ''executor''
         | LogPhase.Check \<Rightarrow> path_join check_dir ''check''
         | LogPhase.Discovery \<Rightarrow> path_join check_dir ''discovery''
         | LogPhase.Case \<Rightarrow> path_join (path_join check_dir ''cases'') (selector_case selector)
         | LogPhase.Fixture \<Rightarrow> path_join (path_join check_dir ''fixtures'') (selector_case selector)
         | LogPhase.Cleanup \<Rightarrow> path_join (path_join check_dir ''cleanup'') (selector_case selector))"

definition scratch_directory :: "string \<Rightarrow> string \<Rightarrow> LeafSelector \<Rightarrow> string" where
  "scratch_directory current name selector =
     (let check_dir = path_join (path_join current ''scratch'') name
      in case ls_case_id selector of
           None \<Rightarrow> check_dir
         | Some case_id \<Rightarrow>
             let directory = path_join (path_join check_dir ''cases'') case_id
             in case ls_phase selector of
                  LogPhase.Fixture \<Rightarrow> path_join directory ''fixture''
                | LogPhase.Cleanup \<Rightarrow> path_join directory ''cleanup''
                | _ \<Rightarrow> directory)"

definition process_request ::
  "CheckEnv \<Rightarrow> ExecutionPlan \<Rightarrow> CheckPlan \<Rightarrow> LeafSelector \<Rightarrow> string \<Rightarrow> string list \<Rightarrow> CompletionMode \<Rightarrow> bool
   \<Rightarrow> ProcessRequest" where
  "process_request ce plan check selector leaf command completion capture_manifest =
     \<lparr>rq_run_id = ep_run_id plan, rq_check_name = cp_name check, rq_leaf_id = leaf, rq_command = command,
      rq_cwd = path_join (ce_root ce) (cp_cwd check), rq_env = cp_env check,
      rq_scratch = scratch_directory (ce_current ce) (cp_name check) selector,
      rq_shared_artifacts = path_join (ce_current ce) ''artifacts'',
      rq_diagnostics_dir = path_join (leaf_log_directory (ce_log_dir ce) selector) ''diagnostics'',
      rq_evidence_dir = path_join (leaf_log_directory (ce_log_dir ce) selector) ''evidence'',
      rq_log_selector = selector, rq_timeout_seconds = cp_timeout_seconds check,
      rq_completion = completion, rq_capture_manifest = capture_manifest\<rparr>"

section \<open>Private environments\<close>

definition extend_env :: "(string, string) btree_map \<Rightarrow> (string, string) btree_map \<Rightarrow> (string, string) btree_map" where
  "extend_env added m = fold (\<lambda>(key, value). bt_insert key value) added m"

text \<open>\<^verbatim>\<open>stat.st_mode & 0o077\<close> is not zero.\<close>

definition shared_mode :: "u32 \<Rightarrow> bool" where
  "shared_mode mode \<longleftrightarrow> unat mode mod 64 \<noteq> 0"

definition read_database_environment ::
  "CheckEnv \<Rightarrow> string \<Rightarrow> (ExecutorError, (string, string) btree_map) result" where
  "read_database_environment ce path =
     (if \<not> str_starts_with path ''database-'' \<or> \<not> str_ends_with path ''.json'' \<or> length (components path) \<noteq> 1
      then Err (ExecutorError ''invalid private database environment identity'')
      else then_do (ce_private_file ce path) (\<lambda>file.
        if \<not> pf_regular file \<or> shared_mode (pf_mode file) \<or> 65536 < pf_size file
        then Err (ExecutorError ''private database environment has invalid type, permissions or size'')
        else case pf_bytes file of
          None \<Rightarrow> Err (ExecutorError ''private database environment cannot be read'')
        | Some bytes \<Rightarrow>
            let bytes = take 65537 bytes
            in if 65536 < length bytes
               then Err (ExecutorError ''private database environment exceeds its bound'')
               else case ce_decode_environment ce bytes of
                 None \<Rightarrow> Err (ExecutorError ''private database environment is invalid'')
               | Some environment \<Rightarrow>
                   if \<not> set (map fst environment) \<subseteq>
                        {''PGHOST'', ''PGPORT'', ''PGUSER'', ''PGPASSWORD'', ''PGDATABASE'', ''DATABASE_URL''}
                   then Err (ExecutorError ''private database environment contains an unsupported field'')
                   else Ok environment))"

text \<open>\<^verbatim>\<open>split_once('?')\<close> and \<^verbatim>\<open>rfind('/')\<close>.\<close>

definition before_query :: "string \<Rightarrow> string" where
  "before_query url = takeWhile (\<lambda>c. c \<noteq> CHR ''?'') url"

definition query_of :: "string \<Rightarrow> string" where
  "query_of url = drop 1 (dropWhile (\<lambda>c. c \<noteq> CHR ''?'') url)"

definition through_last_slash :: "string \<Rightarrow> string" where
  "through_last_slash base = rev (dropWhile (\<lambda>c. c \<noteq> CHR ''/'') (rev base))"

definition database_url_with_database :: "string \<Rightarrow> string \<Rightarrow> string" where
  "database_url_with_database url database =
     (if CHR ''/'' \<notin> set (before_query url) then url
      else through_last_slash (before_query url) @ database @
        (if query_of url = [] then [] else CHR ''?'' # query_of url))"

definition case_environment_key :: "(string \<Rightarrow> string) \<Rightarrow> string \<Rightarrow> string \<Rightarrow> string" where
  "case_environment_key sha256 check case_id =
     ''case-'' @ lower_hex (take 16 (sha256 (be_bytes 8 (length check) @ check @ case_id)))"

section \<open>Outcomes that end a check early\<close>

definition check_failure ::
  "CheckEnv \<Rightarrow> ExecutionPlan \<Rightarrow> CheckPlan \<Rightarrow> LeafStatus \<Rightarrow> TerminationReason option \<Rightarrow> ErrorCategory \<Rightarrow> FailureIndexEntry" where
  "check_failure ce plan check status reason category =
     failure_entry (env_sha256 (ce_env ce)) (ep_run_id plan) (Some (cp_name check)) None status None reason category None"

definition empty_outcome :: "CheckEnv \<Rightarrow> CheckPlan \<Rightarrow> LeafStatus \<Rightarrow> CheckOutcome" where
  "empty_outcome ce check status =
     \<lparr>oc_cache_key = None, oc_status = status, oc_exit_code = None, oc_reason = None, oc_artifacts = [],
      oc_cache_inputs = [], oc_consumed_artifacts = [], oc_retained_artifacts = [], oc_streams = [],
      oc_case_count = 0, oc_cases = [], oc_cases_truncated = False, oc_failures = [], oc_service = None,
      oc_duration_seconds = seconds (ce_elapsed ce (check_selector (cp_name check)))\<rparr>"

definition artifact_input_failure :: "CheckEnv \<Rightarrow> ExecutionPlan \<Rightarrow> CheckPlan \<Rightarrow> string \<Rightarrow> CheckOutcome" where
  "artifact_input_failure ce plan check reason =
     (empty_outcome ce check LeafStatus.Failed)\<lparr>oc_reason := Some (bounded_reason reason),
       oc_failures := [check_failure ce plan check LeafStatus.Failed None ErrorCategory.Artifact]\<rparr>"

definition direct_outcome ::
  "CheckEnv \<Rightarrow> CheckPlan \<Rightarrow> ProcessResult \<Rightarrow> ArtifactReceipt list \<Rightarrow> RetainedArtifactReceipt list
   \<Rightarrow> ArtifactReceipt list \<Rightarrow> ArtifactReceipt list \<Rightarrow> CheckOutcome" where
  "direct_outcome ce check process artifacts retained cache_inputs consumed =
     (empty_outcome ce check (leaf_status_of (px_status process)))\<lparr>
       oc_exit_code := px_exit_code process, oc_reason := map_option bounded_reason (px_reason process),
       oc_artifacts := artifacts, oc_cache_inputs := cache_inputs, oc_consumed_artifacts := consumed,
       oc_retained_artifacts := retained, oc_streams := px_streams process,
       oc_failures := px_diagnostics process, oc_service := px_service process\<rparr>"

definition fanout_setup_failure ::
  "CheckEnv \<Rightarrow> CheckPlan \<Rightarrow> ProcessResult \<Rightarrow> LogStreamSummary list \<Rightarrow> CheckOutcome" where
  "fanout_setup_failure ce check process streams =
     (empty_outcome ce check (leaf_status_of (px_status process)))\<lparr>
       oc_exit_code := px_exit_code process,
       oc_reason := Some (bounded_reason (case px_reason process of
         Some reason \<Rightarrow> reason | None \<Rightarrow> ''case discovery failed'')),
       oc_streams := streams, oc_failures := px_diagnostics process\<rparr>"

definition case_selection_failure ::
  "CheckEnv \<Rightarrow> ExecutionPlan \<Rightarrow> CheckPlan \<Rightarrow> LogStreamSummary list \<Rightarrow> string \<Rightarrow> CheckOutcome" where
  "case_selection_failure ce plan check streams reason =
     (empty_outcome ce check LeafStatus.Failed)\<lparr>oc_reason := Some reason, oc_streams := streams,
       oc_failures := [check_failure ce plan check LeafStatus.Failed None ErrorCategory.Dependency]\<rparr>"

definition discovery_postprocess_failure ::
  "CheckEnv \<Rightarrow> ExecutionPlan \<Rightarrow> CheckPlan \<Rightarrow> ProcessResult \<Rightarrow> LogStreamSummary list \<Rightarrow> LeafStatus \<Rightarrow> string
   \<Rightarrow> ErrorCategory \<Rightarrow> TerminationReason option \<Rightarrow> CheckOutcome" where
  "discovery_postprocess_failure ce plan check process streams status reason category termination =
     (let selector = discovery_selector (cp_name check);
          process = record_leaf_postprocess_failure (leaf_env ce selector) (ep_run_id plan) check selector
            (ce_started ce selector) status category termination (Some reason) process
      in (empty_outcome ce check (leaf_status_of (px_status process)))\<lparr>
           oc_exit_code := px_exit_code process, oc_reason := Some (bounded_reason reason),
           oc_streams := streams, oc_failures := px_diagnostics process\<rparr>)"

section \<open>Leaves\<close>

text \<open>Run a process and finalise its evidence under the plan \<open>check\<close>.\<close>

definition run_leaf ::
  "CheckEnv \<Rightarrow> ExecutionPlan \<Rightarrow> CheckPlan \<Rightarrow> CancellationScope \<Rightarrow> ProcessRequest \<Rightarrow> ProcessResult" where
  "run_leaf ce plan check scope request =
     (let selector = rq_log_selector request
      in finalize_leaf_evidence (leaf_env ce selector) (ep_run_id plan) check selector (ce_started ce selector)
           (ce_run_process ce request scope))"

section \<open>Cases\<close>

record CaseOutcome =
  cso_report :: CaseReport
  cso_failures :: "FailureIndexEntry list"

definition case_report_of :: "string \<Rightarrow> LeafStatus \<Rightarrow> DiagnosticExit \<Rightarrow> u64 \<Rightarrow> LogStreamSummary list \<Rightarrow> CaseReport" where
  "case_report_of case_id status exit duration streams =
     \<lparr>cr_phases = [], cr_execution = None, cr_id = case_id, cr_status = status, cr_exit = exit,
      cr_duration_ms = duration, cr_streams = streams\<rparr>"

definition unsafe_case ::
  "CheckEnv \<Rightarrow> ExecutionPlan \<Rightarrow> CheckPlan \<Rightarrow> CaseSpec \<Rightarrow> nat \<Rightarrow> ErrorCategory \<Rightarrow> CaseOutcome" where
  "unsafe_case ce plan check c nanos category =
     \<lparr>cso_report = case_report_of (cs_id c) LeafStatus.Unsafe (diagnostic_exit None) (millis nanos) [],
      cso_failures = [failure_entry (env_sha256 (ce_env ce)) (ep_run_id plan) (Some (cp_name check))
        (Some (cs_id c)) LeafStatus.Unsafe None (Some UnsafeStop) category None]\<rparr>"

definition database_case_failure :: "CheckEnv \<Rightarrow> ExecutionPlan \<Rightarrow> CheckPlan \<Rightarrow> CaseSpec \<Rightarrow> nat \<Rightarrow> CaseOutcome" where
  "database_case_failure ce plan check c nanos = unsafe_case ce plan check c nanos ErrorCategory.Artifact"

text \<open>The environment of a plain case: its database, if it has one, and its private file; \<open>Err\<close>
  is the category of the failure that replaces the case.\<close>

definition case_database_env ::
  "ExecutionPlan \<Rightarrow> CheckPlan \<Rightarrow> CaseSpec \<Rightarrow> (string, string) btree_map \<Rightarrow> (ErrorCategory, (string, string) btree_map) result" where
  "case_database_env plan check c m =
     (case cs_postgres c of
        None \<Rightarrow> Ok m
      | Some branch \<Rightarrow>
          (case or_else (bt_get (ep_postgres_databases plan) (cp_name check @ ''-'' @ cs_id c))
                  (bt_get (ep_postgres_databases plan) branch) of
             None \<Rightarrow> Err ErrorCategory.Dependency
           | Some database \<Rightarrow>
               Ok (bt_modify ''DATABASE_URL'' (\<lambda>url. database_url_with_database url database)
                 (bt_insert ''PGDATABASE'' database m))))"

definition case_private_env ::
  "CheckEnv \<Rightarrow> ExecutionPlan \<Rightarrow> CheckPlan \<Rightarrow> CaseSpec \<Rightarrow> (string, string) btree_map \<Rightarrow> (ErrorCategory, (string, string) btree_map) result" where
  "case_private_env ce plan check c m =
     (case bt_get (ep_environment_files plan) (cp_name check @ ''/'' @ cs_id c) of
        None \<Rightarrow> Ok m
      | Some file \<Rightarrow>
          (case ce_plain_file ce (path_join (ce_current ce) file) of
             None \<Rightarrow> Err ErrorCategory.Artifact
           | Some bytes \<Rightarrow>
               (case ce_decode_environment ce bytes of
                  None \<Rightarrow> Err ErrorCategory.Artifact
                | Some environment \<Rightarrow> Ok (extend_env environment m))))"

definition run_plain_case :: "CheckEnv \<Rightarrow> ExecutionPlan \<Rightarrow> CheckPlan \<Rightarrow> CaseSpec \<Rightarrow> string list \<Rightarrow> CaseOutcome" where
  "run_plain_case ce plan check c base_command =
     (let selector = case_selector (cp_name check) LogPhase.Case (cs_id c);
          nanos = ce_elapsed ce selector;
          request = process_request ce plan check selector (cp_name check @ ''/case/'' @ cs_id c)
            (base_command @ cs_args c) Process False
      in case then_do (case_database_env plan check c (rq_env request)) (case_private_env ce plan check c) of
           Inl category \<Rightarrow> unsafe_case ce plan check c nanos category
         | Inr environment \<Rightarrow>
             let process = run_leaf ce plan check (check_scope check) (request\<lparr>rq_env := environment\<rparr>)
             in \<lparr>cso_report = case_report_of (cs_id c) (leaf_status_of (px_status process))
                   (diagnostic_exit (px_exit_code process)) (millis nanos) (px_streams process),
                 cso_failures = px_diagnostics process\<rparr>)"

text \<open>The fixture or the cleanup of a case; \<open>program\<close> and \<open>branch\<close> are the fixture program of the
  plan and the database of the case.\<close>

definition native_plan :: "CheckPlan \<Rightarrow> CheckPlan" where
  "native_plan check = check\<lparr>cp_diagnostic_sources := [], cp_expect_failure := False,
     cp_expected_failure := None, cp_expected_exit_code := None\<rparr>"

definition native_case_phase ::
  "CheckEnv \<Rightarrow> ExecutionPlan \<Rightarrow> CheckPlan \<Rightarrow> CaseSpec \<Rightarrow> string \<Rightarrow> string \<Rightarrow> LogPhase \<Rightarrow> CancellationScope
   \<Rightarrow> ProcessResult \<times> CasePhaseReport" where
  "native_case_phase ce plan check c program branch phase scope =
     (let stage = (if phase = LogPhase.Fixture then ''fixture'' else ''cleanup'');
          node = cp_name check @ ''/'' @ stage @ ''/'' @ cs_id c @ ''/'' @ branch;
          selector = case_selector (cp_name check) phase (cs_id c);
          process = run_leaf ce plan (native_plan check) scope
            (process_request ce plan check selector node [program, ''fixture'', node] Process False)
      in (process,
          \<lparr>cpr_phase = (if phase = LogPhase.Fixture then CheckPhase.Fixture else CheckPhase.Cleanup),
           cpr_status = leaf_status_of (px_status process), cpr_duration_ms = millis (ce_elapsed ce selector),
           cpr_streams = px_streams process\<rparr>))"

text \<open>The body of a case with a fixture, and whether it ran.\<close>

definition fixture_case_body ::
  "CheckEnv \<Rightarrow> ExecutionPlan \<Rightarrow> CheckPlan \<Rightarrow> CaseSpec \<Rightarrow> string list \<Rightarrow> ProcessResult \<Rightarrow> CaseOutcome \<times> bool" where
  "fixture_case_body ce plan check c base_command setup =
     (if px_status setup = ProcessStatus.Passed
      then case read_database_environment ce (''database-'' @
               case_environment_key (env_sha256 (ce_env ce)) (cp_name check) (cs_id c) @ ''.json'') of
             Inr environment \<Rightarrow>
               (run_plain_case ce plan (check\<lparr>cp_env := extend_env environment (cp_env check)\<rparr>)
                  (c\<lparr>cs_postgres := None\<rparr>) base_command, True)
           | Inl error \<Rightarrow> (database_case_failure ce plan check c (ce_case_elapsed ce (cs_id c)), False)
      else (\<lparr>cso_report = case_report_of (cs_id c) (leaf_status_of (px_status setup)) DiagnosticExit_default 0 [],
             cso_failures = []\<rparr>, False))"

definition run_case_with_fixture ::
  "CheckEnv \<Rightarrow> ExecutionPlan \<Rightarrow> CheckPlan \<Rightarrow> CaseSpec \<Rightarrow> string list \<Rightarrow> string \<Rightarrow> string \<Rightarrow> CaseOutcome" where
  "run_case_with_fixture ce plan check c base_command program branch =
     (let (setup, setup_phase) = native_case_phase ce plan check c program branch LogPhase.Fixture (check_scope check);
          (outcome, ran_body) = fixture_case_body ce plan check c base_command setup;
          report = cso_report outcome;
          body_phase = \<lparr>cpr_phase = CheckPhase.Case,
            cpr_status = (if ran_body then cr_status report else LeafStatus.Invalidated),
            cpr_duration_ms = (if ran_body then cr_duration_ms report else 0), cpr_streams = cr_streams report\<rparr>;
          (cleanup, cleanup_phase) = native_case_phase ce plan check c program branch LogPhase.Cleanup NoCancellation
      in \<lparr>cso_report = report\<lparr>
            cr_status := (if \<not> LeafStatus_is_success (cpr_status cleanup_phase) \<and> LeafStatus_is_success (cr_status report)
              then cpr_status cleanup_phase else cr_status report),
            cr_phases := [setup_phase, body_phase, cleanup_phase],
            cr_duration_ms := millis (ce_case_elapsed ce (cs_id c))\<rparr>,
          cso_failures = cso_failures outcome @ px_diagnostics setup @ px_diagnostics cleanup\<rparr>)"

definition run_case :: "CheckEnv \<Rightarrow> ExecutionPlan \<Rightarrow> CheckPlan \<Rightarrow> CaseSpec \<Rightarrow> string list \<Rightarrow> CaseOutcome" where
  "run_case ce plan check c base_command =
     (case (ep_fixture_program plan, cs_postgres c) of
        (Some program, Some branch) \<Rightarrow> run_case_with_fixture ce plan check c base_command program branch
      | _ \<Rightarrow> run_plain_case ce plan check c base_command)"

section \<open>Fan-out checks\<close>

definition unwrap_or_default :: "string list option \<Rightarrow> string list" where
  "unwrap_or_default command = (case command of Some words \<Rightarrow> words | None \<Rightarrow> [])"

text \<open>The cases of a fan-out check and the streams of their discovery, or the outcome that ends the check.\<close>

definition discover_cases ::
  "CheckEnv \<Rightarrow> ExecutionPlan \<Rightarrow> CheckPlan \<Rightarrow> (CheckOutcome, CaseSpec list \<times> LogStreamSummary list) result" where
  "discover_cases ce plan check =
     (case cp_cases check of
        Some static_cases \<Rightarrow> Ok (static_cases, [])
      | None \<Rightarrow>
          let selector = discovery_selector (cp_name check);
              discovery = run_leaf ce plan check (check_scope check) (process_request ce plan check selector
                (cp_name check @ ''/discovery'') (unwrap_or_default (cp_discover check)) Process True);
              streams = px_streams discovery;
              process = discovery\<lparr>px_manifest := None\<rparr>;
              invalid = (\<lambda>reason. discovery_postprocess_failure ce plan check process streams LeafStatus.Failed reason
                ErrorCategory.StructuredEvidenceInvalid None)
          in if px_status discovery \<noteq> ProcessStatus.Passed then Err (fanout_setup_failure ce check discovery streams)
             else case px_manifest discovery of
               None \<Rightarrow> Err (invalid ''case discovery closed without a descriptor manifest'')
             | Some manifest \<Rightarrow>
                 if mc_truncated manifest \<or> MAX_MANIFEST_BYTES < unat (mc_observed manifest)
                 then Err (invalid ''case manifest descriptor exceeds 2 MiB'')
                 else if mc_payload manifest = []
                 then Err (invalid ''case discovery descriptor closed without a manifest'')
                 else case ce_write ce (path_join (path_join (path_join (ce_current ce) ''checks'') (cp_name check))
                     ''manifest.json'') (mc_payload manifest) MAX_MANIFEST_BYTES of
                   Inl error \<Rightarrow> Err (discovery_postprocess_failure ce plan check process streams LeafStatus.Unsafe
                     (ExecutorError_display error) ErrorCategory.LogStorage (Some UnsafeStop))
                 | Inr _ \<Rightarrow>
                     (case CaseManifest_from_json (ce_decode_manifest ce) (mc_payload manifest) of
                        Inl error \<Rightarrow> Err (invalid (ce_contract_message ce error))
                      | Inr cases \<Rightarrow> Ok (cases, streams)))"

text \<open>The cases that run: sorted by identity, restricted to the selection of the plan.\<close>

definition select_cases :: "ExecutionPlan \<Rightarrow> CheckPlan \<Rightarrow> CaseSpec list \<Rightarrow> (string, CaseSpec list) result" where
  "select_cases plan check discovered =
     (let cases = sort_key cs_id discovered
      in then_do (case bt_get (ep_case_selection plan) (cp_name check) of
             None \<Rightarrow> Ok cases
           | Some selected \<Rightarrow>
               if \<not> set selected \<subseteq> set (map cs_id cases)
               then Err ''selected case was not reported by discovery''
               else Ok (filter (\<lambda>c. cs_id c \<in> set selected) cases)) (\<lambda>cases.
         if ep_fixture_program plan = None \<and>
            list_ex (\<lambda>c. optb (\<lambda>branch. \<not> bt_contains (ep_postgres_databases plan) branch) (cs_postgres c)) cases
         then Err ''case references an unavailable PostgreSQL branch''
         else Ok cases))"

text \<open>The tasks of the cases in the order they end: the outcomes, and the error of the last one lost.\<close>

definition case_outcomes ::
  "CheckEnv \<Rightarrow> ExecutionPlan \<Rightarrow> CheckPlan \<Rightarrow> (CaseSpec \<times> string option) list \<Rightarrow> CaseOutcome list" where
  "case_outcomes ce plan check joins =
     sort_key (\<lambda>outcome. cr_id (cso_report outcome))
       (map (\<lambda>(c, _). run_case ce plan check c (unwrap_or_default (cp_case_command check)))
          (filter (\<lambda>(c, error). error = None) joins))"

definition join_failure :: "(CaseSpec \<times> string option) list \<Rightarrow> string option" where
  "join_failure joins =
     fold (\<lambda>(c, error) failure. case error of
         Some e \<Rightarrow> Some (''case task failed internally: '' @ e) | None \<Rightarrow> failure) joins None"

definition any_case :: "CaseReport list \<Rightarrow> LeafStatus \<Rightarrow> bool" where
  "any_case reports status = list_ex (\<lambda>report. cr_status report = status) reports"

definition fanout_status :: "string option \<Rightarrow> CaseReport list \<Rightarrow> LeafStatus \<times> string option" where
  "fanout_status failure reports =
     (case failure of
        Some reason \<Rightarrow> (LeafStatus.Unsafe, Some reason)
      | None \<Rightarrow>
          if any_case reports LeafStatus.Unsafe then (LeafStatus.Unsafe, Some ''one or more cases became unsafe'')
          else if any_case reports LeafStatus.TimedOut then (LeafStatus.TimedOut, Some ''one or more cases timed out'')
          else if any_case reports LeafStatus.Cancelled
          then (LeafStatus.Cancelled, Some ''one or more cases were cancelled'')
          else if any_case reports LeafStatus.Failed then (LeafStatus.Failed, Some ''one or more cases failed'')
          else (LeafStatus.Passed, None))"

text \<open>The end of a fan-out check: its verdict so far, its evidence file and its artifacts.\<close>

definition write_case_evidence :: "CheckEnv \<Rightarrow> CheckPlan \<Rightarrow> CaseReport list \<Rightarrow> (ExecutorError, unit) result" where
  "write_case_evidence ce check reports =
     then_do (ce_encode_cases ce (cp_name check) reports) (\<lambda>payload.
       ce_write ce (path_join (path_join (path_join (ce_current ce) ''checks'') (cp_name check)) ''case-report.json'')
         payload MAX_CASE_EVIDENCE_BYTES)"

definition fanout_evidence ::
  "CheckEnv \<Rightarrow> ExecutionPlan \<Rightarrow> CheckPlan \<Rightarrow> CaseReport list
   \<Rightarrow> LeafStatus \<times> string option \<times> FailureIndexEntry list \<Rightarrow> LeafStatus \<times> string option \<times> FailureIndexEntry list" where
  "fanout_evidence ce plan check reports = (\<lambda>(status, reason, failures).
     case write_case_evidence ce check reports of
       Inr _ \<Rightarrow> (status, reason, failures)
     | Inl error \<Rightarrow> (LeafStatus.Unsafe, Some (ExecutorError_display error), failures @
         [check_failure ce plan check LeafStatus.Unsafe (Some UnsafeStop) ErrorCategory.LogStorage]))"

definition fanout_artifacts ::
  "CheckEnv \<Rightarrow> ExecutionPlan \<Rightarrow> CheckPlan \<Rightarrow> LeafStatus \<times> string option \<times> FailureIndexEntry list
   \<Rightarrow> (LeafStatus \<times> string option \<times> FailureIndexEntry list) \<times> ArtifactReceipt list" where
  "fanout_artifacts ce plan check = (\<lambda>(status, reason, failures).
     if status \<noteq> LeafStatus.Passed then ((status, reason, failures), [])
     else case ce_receipts_after ce (cp_produces check) of
       Inr receipts \<Rightarrow> ((status, reason, failures), receipts)
     | Inl error \<Rightarrow> ((LeafStatus.Failed, Some (ExecutorError_display error), failures @
         [check_failure ce plan check LeafStatus.Failed None ErrorCategory.Artifact]), []))"

definition conclude_fanout ::
  "CheckEnv \<Rightarrow> ExecutionPlan \<Rightarrow> CheckPlan \<Rightarrow> LogStreamSummary list \<Rightarrow> string option \<Rightarrow> CaseOutcome list \<Rightarrow> CheckOutcome" where
  "conclude_fanout ce plan check streams failure outcomes =
     (let failures = concat (map cso_failures outcomes);
          reports = map cso_report outcomes;
          (status, reason) = fanout_status failure reports;
          failures = (if status = LeafStatus.Unsafe \<and> failures = []
            then [check_failure ce plan check status (Some UnsafeStop) ErrorCategory.Internal] else failures);
          ((status, reason, failures), artifacts) =
            fanout_artifacts ce plan check (fanout_evidence ce plan check reports (status, reason, failures))
      in (empty_outcome ce check status)\<lparr>oc_reason := map_option bounded_reason reason, oc_artifacts := artifacts,
           oc_streams := streams, oc_case_count := saturating_of_nat (length reports),
           oc_cases := take MAX_INLINE_CASES reports,
           oc_cases_truncated := MAX_INLINE_CASES < length reports, oc_failures := failures\<rparr>)"

definition execute_fanout :: "CheckEnv \<Rightarrow> ExecutionPlan \<Rightarrow> CheckPlan \<Rightarrow> CheckOutcome" where
  "execute_fanout ce plan check =
     (case discover_cases ce plan check of
        Inl outcome \<Rightarrow> outcome
      | Inr (discovered, streams) \<Rightarrow>
          (case select_cases plan check discovered of
             Inl reason \<Rightarrow> case_selection_failure ce plan check streams reason
           | Inr cases \<Rightarrow>
               let joins = ce_joins ce cases
               in conclude_fanout ce plan check streams (join_failure joins) (case_outcomes ce plan check joins)))"

section \<open>Direct checks\<close>

definition leaf_postprocess_failure ::
  "CheckEnv \<Rightarrow> ExecutionPlan \<Rightarrow> CheckPlan \<Rightarrow> string option \<Rightarrow> ProcessResult \<Rightarrow> ProcessResult" where
  "leaf_postprocess_failure ce plan check reason process =
     (let selector = check_selector (cp_name check)
      in record_leaf_postprocess_failure (leaf_env ce selector) (ep_run_id plan) check selector
           (ce_started ce selector) LeafStatus.Failed ErrorCategory.Artifact None reason process)"

definition retain_artifacts ::
  "CheckEnv \<Rightarrow> ExecutionPlan \<Rightarrow> CheckPlan \<Rightarrow> ProcessResult \<Rightarrow> ProcessResult \<times> RetainedArtifactReceipt list" where
  "retain_artifacts ce plan check process =
     (if (px_status process = ProcessStatus.Passed \<or> px_status process = ProcessStatus.Failed) \<and>
         px_process_started process \<and> px_exit_code process \<noteq> None \<and> px_service process = None
      then case ce_retain ce (path_join (leaf_log_directory (ce_log_dir ce) (check_selector (cp_name check))) ''evidence'')
               (cp_retained_artifacts check) of
             Inr receipts \<Rightarrow> (process, receipts)
           | Inl error \<Rightarrow> (leaf_postprocess_failure ce plan check (Some (ExecutorError_display error)) process, [])
      else (process, []))"

definition produced_artifacts ::
  "CheckEnv \<Rightarrow> ExecutionPlan \<Rightarrow> CheckPlan \<Rightarrow> ProcessResult \<Rightarrow> ProcessResult \<times> ArtifactReceipt list" where
  "produced_artifacts ce plan check process =
     (if px_status process = ProcessStatus.Passed
      then case ce_receipts_after ce (cp_produces check) of
             Inr receipts \<Rightarrow> (process, receipts)
           | Inl error \<Rightarrow>
               (leaf_postprocess_failure ce plan check (Some (ExecutorError_display error))
                  (process\<lparr>px_status := ProcessStatus.Failed, px_reason := Some (ExecutorError_display error)\<rparr>), [])
      else (process, []))"

definition execute_direct ::
  "CheckEnv \<Rightarrow> ExecutionPlan \<Rightarrow> CheckPlan \<Rightarrow> string list \<Rightarrow> ArtifactReceipt list \<Rightarrow> ArtifactReceipt list \<Rightarrow> CheckOutcome" where
  "execute_direct ce plan check command cache_inputs consumed =
     (let process = run_leaf ce plan check (check_scope check) (process_request ce plan check
            (check_selector (cp_name check)) (cp_name check) command (cp_completion check) False);
          (process, retained) = retain_artifacts ce plan check process;
          (process, artifacts) = produced_artifacts ce plan check process
      in direct_outcome ce check process artifacts retained cache_inputs consumed)"

section \<open>A check\<close>

definition cancelled_outcome :: "CheckEnv \<Rightarrow> ExecutionPlan \<Rightarrow> CheckPlan \<Rightarrow> CheckOutcome" where
  "cancelled_outcome ce plan check =
     (artifact_input_failure ce plan check ''cancelled while waiting for a resource'')\<lparr>
       oc_status := LeafStatus.Cancelled,
       oc_failures := [check_failure ce plan check LeafStatus.Cancelled (Some RunCancelled) ErrorCategory.Cancellation]\<rparr>"

definition reserve_resources :: "CheckEnv \<Rightarrow> ExecutionPlan \<Rightarrow> CheckPlan \<Rightarrow> (CheckOutcome, unit) result" where
  "reserve_resources ce plan check =
     (if cp_resources check = [] then Ok ()
      else case ce_reserve ce (cp_name check) of
        Reserved \<Rightarrow> Ok ()
      | ReservationRefused reason \<Rightarrow> Err (artifact_input_failure ce plan check reason)
      | ReservationCancelled \<Rightarrow> Err (cancelled_outcome ce plan check))"

definition database_environment :: "CheckEnv \<Rightarrow> ExecutionPlan \<Rightarrow> CheckPlan \<Rightarrow> (CheckOutcome, CheckPlan) result" where
  "database_environment ce plan check =
     (case bt_get (ep_environment_files plan) (cp_name check) of
        None \<Rightarrow> Ok check
      | Some path \<Rightarrow>
          (case read_database_environment ce path of
             Inr environment \<Rightarrow> Ok (check\<lparr>cp_env := extend_env environment (cp_env check)\<rparr>)
           | Inl error \<Rightarrow> Err (artifact_input_failure ce plan check (ExecutorError_display error))))"

definition input_receipts ::
  "CheckEnv \<Rightarrow> ExecutionPlan \<Rightarrow> CheckPlan \<Rightarrow> (ExecutorError, ArtifactReceipt list) result
   \<Rightarrow> (CheckOutcome, ArtifactReceipt list \<times> ArtifactReceipt list) result" where
  "input_receipts ce plan check expected =
     (case (ce_receipts_before ce (cp_cache_inputs check), ce_receipts_before ce (map ca_path (cp_consumes check))) of
        (Inl error, _) \<Rightarrow> Err (artifact_input_failure ce plan check (ExecutorError_display error))
      | (_, Inl error) \<Rightarrow> Err (artifact_input_failure ce plan check (ExecutorError_display error))
      | (Inr cache_inputs, Inr consumed) \<Rightarrow>
          if expected \<noteq> Ok consumed
          then Err (artifact_input_failure ce plan check ''consumed artifact changed after its producer completed'')
          else Ok (cache_inputs, consumed))"

definition reused_outcome ::
  "CheckEnv \<Rightarrow> CheckPlan \<Rightarrow> string option \<Rightarrow> ArtifactReceipt list \<Rightarrow> ArtifactReceipt list \<Rightarrow> CheckOutcome option" where
  "reused_outcome ce check cache_key cache_inputs consumed =
     (case Option.bind cache_key (ce_reuse_lookup ce check) of
        None \<Rightarrow> None
      | Some artifacts \<Rightarrow>
          let selector = check_selector (cp_name check)
          in if env_publish (ce_env ce)
               \<lparr>llm_selector = selector, llm_status = LeafStatus.Reused, llm_exit = DiagnosticExit_default,
                llm_started_at_epoch_ms = ce_started ce selector,
                llm_finished_at_epoch_ms = Some (ce_finished ce selector), llm_process_started = False,
                llm_complete = True, llm_structured_evidence_formats = [], llm_structured_evidence_count = 0\<rparr>
             then Some ((empty_outcome ce check LeafStatus.Reused)\<lparr>oc_artifacts := artifacts,
                    oc_cache_inputs := cache_inputs, oc_consumed_artifacts := consumed\<rparr>)
             else None)"

fun either :: "('a, 'a) result \<Rightarrow> 'a" where
  "either (Inl x) = x"
| "either (Inr x) = x"

definition execute_check ::
  "CheckEnv \<Rightarrow> ExecutionPlan \<Rightarrow> CheckPlan \<Rightarrow> (ExecutorError, ArtifactReceipt list) result \<Rightarrow> CheckOutcome" where
  "execute_check ce plan check expected = either (
     then_do (reserve_resources ce plan check) (\<lambda>_.
     then_do (database_environment ce plan check) (\<lambda>check.
     then_do (input_receipts ce plan check expected) (\<lambda>(cache_inputs, consumed).
       let cache_key = ce_reuse_key ce check cache_inputs consumed
       in Ok (case reused_outcome ce check cache_key cache_inputs consumed of
                Some outcome \<Rightarrow> outcome
              | None \<Rightarrow>
                  (case cp_command check of
                     Some command \<Rightarrow>
                       (execute_direct ce plan check command cache_inputs consumed)\<lparr>oc_cache_key := cache_key\<rparr>
                   | None \<Rightarrow> (execute_fanout ce plan check)\<lparr>oc_cache_inputs := cache_inputs,
                       oc_consumed_artifacts := consumed\<rparr>))))))"

end
