(* ===== verification/Leaf_Validity.thy ===== *)
theory Leaf_Validity
  imports Leaf_Evidence
begin

text \<open>
  The diagnostics a leaf ends with are acceptable to the protocol: valid entries that refer to the
  logs of the leaf only.  The normalisation keeps this, since the entries it merges refer to the
  same two logs, and so does every failure the runner itself records; a failure recorded after
  the process is therefore never lost in the normalisation.
\<close>

section \<open>Entries stay valid\<close>

lemma normalized_leaf_entry:
  assumes "digest_size sha256" and "DiagnosticContext_validate context = Ok ()"
    and "normalize_diagnostics sha256 entries = Ok result" and "accepted context entries"
    and "e \<in> set (nd_entries result)"
  shows "leaf_entry context e"
proof -
  note ok = normalize_ok [OF assms(3)] and ctx = context_valid [OF assms(2)]
  have leaf: "leaf_entry context x" if "x \<in> set entries" for x
    using assms(4) that by (simp add: accepted_def list_all_iff)
  have "e \<in> set (map snd (groups_of sha256 entries))" using assms(5) unfolding ok(1) by (metis in_set_takeD set_sort)
  then obtain k where "(k, e) \<in> set (groups_of sha256 entries)" by auto
  note group = groups_of_group [OF this ok(5)]
  let ?members = "filter (\<lambda>x. diagnostic_fingerprint sha256 x = fie_fingerprint e) entries"
  obtain first where first: "first \<in> set ?members" "e = first\<lparr>fie_fingerprint := fie_fingerprint e,
      fie_occurrences := fie_occurrences e, fie_log_refs := fie_log_refs e\<rparr>"
    using group unfolding group_of_def Let_def by blast
  have valid: "FailureIndexEntry_validate first = Ok ()" and "fie_check first = Some (dc_check context)"
    using leaf first(1) by (simp_all add: leaf_entry_def)
  then have named: "fie_check e = Some (dc_check context)" by (subst first(2)) simp
  have refs: "set (fie_log_refs e) \<subseteq> set (DiagnosticContext_log_refs context)"
    using group leaf unfolding group_of_def Let_def leaf_entry_def by fastforce
  have distinct: "distinct (fie_log_refs e)" using group unfolding group_of_def Let_def by blast
  have "length (fie_log_refs e) = card (set (fie_log_refs e))" using distinct_card [OF distinct] by simp
  also have "\<dots> \<le> card (set (DiagnosticContext_log_refs context))" by (rule card_mono [OF finite_set refs])
  also have "\<dots> \<le> 2" using card_length [of "DiagnosticContext_log_refs context"] ctx(5) by simp
  finally have short: "length (fie_log_refs e) \<le> 2" .
  have fp: "validate_fingerprint (fie_fingerprint e) = Ok ()"
    using first(1) fingerprint_valid [OF assms(1), of first] by simp
  have "fie_occurrences first \<noteq> 0" using valid by (auto simp: FailureIndexEntry_validate_def steps_ok)
  then have "0 < unat (fie_occurrences first)" by (simp add: unat_gt_0)
  also have "\<dots> \<le> occurrences_of ?members"
    unfolding occurrences_of_def using first(1) by (intro member_le_sum_list) auto
  finally have "0 < unat (fie_occurrences e)" using group unfolding group_of_def Let_def by simp
  then have occ: "fie_occurrences e \<noteq> 0" by auto
  have "FailureIndexEntry_validate (first\<lparr>fie_fingerprint := fie_fingerprint e,
      fie_occurrences := fie_occurrences e, fie_log_refs := fie_log_refs e\<rparr>) = Ok ()"
    using valid short distinct fp occ ctx(3) refs
    by (auto simp: FailureIndexEntry_validate_def steps_ok MAX_DIAGNOSTIC_LOG_REFS_def)
  then show ?thesis using refs named first(2) by (simp add: leaf_entry_def)
qed

lemma normalized_accepted:
  "digest_size sha256 \<Longrightarrow> DiagnosticContext_validate context = Ok () \<Longrightarrow>
     normalize_diagnostics sha256 entries = Ok result \<Longrightarrow> accepted context entries \<Longrightarrow>
     accepted context (nd_entries result)"
  using normalized_leaf_entry by (simp add: accepted_def list_all_iff)

text \<open>An exit code as \<^verbatim>\<open>ExitStatus\<close> gives it: a signal number is at most 127.\<close>

definition exit_ok :: "int option \<Rightarrow> bool" where
  "exit_ok code \<longleftrightarrow> optb (\<lambda>c. -127 \<le> c) code \<or> code = None"

lemma diagnostic_exit_valid:
  assumes "exit_ok code"
  shows "DiagnosticExit_validate (diagnostic_exit code) = Ok ()"
proof (cases code)
  case (Some c)
  show ?thesis
  proof (cases "c < 0")
    case True
    define n where "n = nat (- c)"
    have n: "0 < n" "n < 128" "- c = int n" using True assms Some by (auto simp: exit_ok_def n_def)
    then have "unat (of_int (- c) :: u8) = n" by (simp add: unat_of_nat)
    then have "(of_int (- c) :: u8) \<noteq> 0" and "\<not> (127 :: u8) < of_int (- c)"
      using n by (auto simp: word_less_nat_alt)
    with True n Some show ?thesis by (simp add: diagnostic_exit_def DiagnosticExit_validate_def)
  qed (simp add: Some diagnostic_exit_def DiagnosticExit_validate_def)
qed (simp add: diagnostic_exit_def DiagnosticExit_validate_def)

section \<open>Failures of the runner\<close>

lemma failure_is_new_entry:
  "failure_entry sha256 (dc_run_id context) (Some (dc_check context)) (dc_case context) status code reason category
     (Some (dc_phase context)) =
   new_entry sha256 context None status (diagnostic_exit code) reason None category None None
     DiagnosticOrigin.Executor"
  by (simp add: failure_entry_def new_entry_def Let_def failure_log_refs_def DiagnosticContext_log_refs_def
      combined_case_def split: option.split)

lemma leaf_failure_entry:
  assumes "digest_size (env_sha256 env)" and "DiagnosticContext_validate (leaf_context run check selector) = Ok ()"
    and "exit_ok (px_exit_code process)" and "is_failure_status status"
  shows "leaf_entry (leaf_context run check selector) (leaf_failure env run check selector process status reason category)"
proof -
  have "leaf_failure env run check selector process status reason category =
      new_entry (env_sha256 env) (leaf_context run check selector) None status
        (diagnostic_exit (px_exit_code process)) reason None category None None DiagnosticOrigin.Executor"
    using failure_is_new_entry [of "env_sha256 env" "leaf_context run check selector"]
    by (simp add: leaf_failure_def leaf_context_def)
  then show ?thesis
    using assms by (simp add: new_leaf_entry diagnostic_exit_valid if_some_def)
qed

lemma reason_leaf_entry:
  assumes "digest_size sha256" and "leaf_entry context entry"
  shows "leaf_entry context (failure_entry_with_reason sha256 entry reason)"
  using assms bounded_value_valid [OF assms(1)] fingerprint_valid [OF assms(1)]
  by (auto simp: failure_entry_with_reason_def leaf_entry_def FailureIndexEntry_validate_def steps_ok if_some_def Let_def
      split: option.split)

lemma failure_statuses [simp]:
  "is_failure_status LeafStatus.Failed" "is_failure_status LeafStatus.TimedOut"
  "is_failure_status LeafStatus.Cancelled" "is_failure_status LeafStatus.Unsafe"
  by (simp_all add: is_failure_status_def)

lemma leaf_status_failure: "status \<noteq> ProcessStatus.Passed \<Longrightarrow> is_failure_status (leaf_status_of status)"
  by (cases status) simp_all

section \<open>The diagnostics of a finalised leaf\<close>

text \<open>A result whose diagnostics may be recorded for the leaf.\<close>

definition leaf_ok :: "DiagnosticContext \<Rightarrow> ProcessResult \<Rightarrow> bool" where
  "leaf_ok context process \<longleftrightarrow> exit_ok (px_exit_code process) \<and> accepted context (px_diagnostics process)"

lemma read_sources_accepted:
  assumes "digest_size (env_sha256 env)" and "DiagnosticContext_validate context = Ok ()"
  shows "read_sources env selector context sources (formats, diagnostics, invalid) = (formats', diagnostics', invalid') \<Longrightarrow>
    accepted context diagnostics \<Longrightarrow> accepted context diagnostics'"
proof (induction sources arbitrary: formats diagnostics invalid)
  case (Cons source sources)
  have declared: "accepted context entries"
    if declared: "read_declared_diagnostics env selector source context = Some entries" for entries
  proof -
    obtain input parsed where "parse_declared_report (env_sha256 env) (env_decoders env) source input context = Ok parsed"
      and entries: "entries = nd_entries parsed"
      using declared by (auto simp: read_declared_diagnostics_def split: option.splits sum.splits)
    then obtain raw where "parse_report_entries (env_sha256 env) (env_decoders env) (drs_format source) input context = Ok raw"
      and norm: "normalize_diagnostics (env_sha256 env) raw = Ok parsed"
      by (auto simp: parse_declared_report_def)
    then show ?thesis
      unfolding entries by (intro normalized_accepted [OF assms norm] parse_report_entries_valid [OF assms])
  qed
  show ?case
  proof (cases "read_declared_diagnostics env selector source context")
    case None
    with Cons show ?thesis by simp
  next
    case (Some entries)
    with Cons declared show ?thesis by simp
  qed
qed simp

lemma judge_leaf_ok:
  assumes "digest_size (env_sha256 env)" and "DiagnosticContext_validate (leaf_context run check selector) = Ok ()"
    and "leaf_ok (leaf_context run check selector) process"
  shows "leaf_ok (leaf_context run check selector) (judge_leaf env run check selector invalid process)"
proof -
  note entry = leaf_failure_entry [OF assms(1,2)]
  have 1: "leaf_ok (leaf_context run check selector) (fail_on_diagnostics process)"
    using assms(3) by (simp add: leaf_ok_def fail_on_diagnostics_def)
  have 2: "leaf_ok (leaf_context run check selector) (mark_invalid_evidence env run check selector p)"
    if "leaf_ok (leaf_context run check selector) p" for p
    using that entry by (simp add: leaf_ok_def mark_invalid_evidence_def)
  have 3: "leaf_ok (leaf_context run check selector) (judge_qualification env check p)"
    if "leaf_ok (leaf_context run check selector) p" for p
    using that by (simp add: leaf_ok_def judge_qualification_def split: ProcessStatus.split)
  have 4: "leaf_ok (leaf_context run check selector) (ensure_executor_failure env run check selector p)"
    if "leaf_ok (leaf_context run check selector) p" for p
    using that entry leaf_status_failure
    by (auto simp: leaf_ok_def ensure_executor_failure_def Let_def leaf_status_success split: prod.split)
  have 5: "leaf_ok (leaf_context run check selector) (normalize_leaf env run check selector p)"
    if "leaf_ok (leaf_context run check selector) p" for p
    using that entry normalized_accepted [OF assms(1,2)]
    by (auto simp: leaf_ok_def normalize_leaf_def split: sum.split)
  show ?thesis
    unfolding judge_leaf_def Let_def by (intro 5 4) (use 1 2 3 in simp)
qed

lemma lose_evidence_ok:
  assumes "digest_size (env_sha256 env)" and "DiagnosticContext_validate (leaf_context run check selector) = Ok ()"
    and "leaf_ok (leaf_context run check selector) process"
  shows "leaf_ok (leaf_context run check selector) (lose_evidence env run check selector reason process)"
  using assms(3) leaf_failure_entry [OF assms(1,2)] by (simp add: leaf_ok_def lose_evidence_def)

lemma publish_leaf_ok:
  assumes "digest_size (env_sha256 env)" and "DiagnosticContext_validate (leaf_context run check selector) = Ok ()"
    and "leaf_ok (leaf_context run check selector) process"
  shows "leaf_ok (leaf_context run check selector) (publish_leaf env run check selector started formats process)"
  using assms(3) lose_evidence_ok [OF assms(1,2)] by (simp add: publish_leaf_def Let_def)

lemma finalize_ok:
  assumes "digest_size (env_sha256 env)" and "DiagnosticContext_validate (leaf_context run check selector) = Ok ()"
    and "leaf_ok (leaf_context run check selector) process"
  shows "leaf_ok (leaf_context run check selector) (finalize_leaf_evidence env run check selector started process)"
proof (cases "px_service process = None")
  case True
  let ?p = "require_streams (process\<lparr>px_streams := supplement_stream_summaries env run selector (px_streams process)\<rparr>)"
  have p: "px_diagnostics ?p = px_diagnostics process" "px_exit_code ?p = px_exit_code process"
    by (simp_all add: require_streams_def)
  obtain formats diagnostics invalid where
    read: "read_sources env selector (leaf_context run check selector) (cp_diagnostic_sources check)
      ([], px_diagnostics ?p, px_structured_evidence_invalid ?p) = (formats, diagnostics, invalid)"
    by (cases rule: prod_cases3)
  have "leaf_ok (leaf_context run check selector) (?p\<lparr>px_diagnostics := diagnostics\<rparr>)"
    using assms(3) read_sources_accepted [OF assms(1,2) read] p by (simp add: leaf_ok_def)
  then have "leaf_ok (leaf_context run check selector) (publish_leaf env run check selector started formats
      (judge_leaf env run check selector invalid (?p\<lparr>px_diagnostics := diagnostics\<rparr>)))"
    by (intro publish_leaf_ok judge_leaf_ok assms(1,2))
  then show ?thesis using True read by (simp add: finalize_leaf_evidence_def Let_def)
qed (simp add: finalize_leaf_evidence_def assms(3))

section \<open>Failures after the process are never lost\<close>

lemma normalize_accepted_ok:
  assumes "digest_size sha256" and "accepted context entries" and "length entries \<le> MAX_DIAGNOSTIC_EVENTS"
  obtains result where "normalize_diagnostics sha256 entries = Ok result"
  using normalize_accepts [OF assms(1), of entries] assms(2,3) by (auto simp: accepted_def leaf_entry_def list_all_iff)

lemma record_failure_ok:
  assumes "digest_size (env_sha256 env)" and "DiagnosticContext_validate (leaf_context run check selector) = Ok ()"
    and "leaf_ok (leaf_context run check selector) process" and "is_failure_status status"
    and result: "result =
      record_leaf_postprocess_failure env run check selector started status category termination reason process"
  shows "leaf_ok (leaf_context run check selector) result" and "px_status result \<noteq> ProcessStatus.Passed"
    and "length (px_diagnostics process) < MAX_DIAGNOSTIC_EVENTS \<Longrightarrow> px_diagnostics result \<noteq> []"
proof -
  define p where "p = process\<lparr>
      px_status := (if status = LeafStatus.Unsafe then ProcessStatus.Unsafe else ProcessStatus.Failed),
      px_log_storage_failed := (px_log_storage_failed process \<or> category = ErrorCategory.LogStorage),
      px_structured_evidence_invalid := (px_structured_evidence_invalid process \<or>
        category = ErrorCategory.StructuredEvidenceInvalid),
      px_reason := or_else (map_option bounded_reason reason) (px_reason process)\<rparr>"
  define entry where "entry = failure_entry_with_reason (env_sha256 env)
      (leaf_failure env run check selector p status termination category) (px_reason p)"
  define q where "q = (case normalize_diagnostics (env_sha256 env) (px_diagnostics p @ [entry]) of
      Inr normalized \<Rightarrow> p\<lparr>px_diagnostics := nd_entries normalized\<rparr>
    | Inl e \<Rightarrow> p\<lparr>px_diagnostics := [], px_structured_evidence_invalid := True\<rparr>)"
  have p: "px_diagnostics p = px_diagnostics process" "px_exit_code p = px_exit_code process"
    "px_status p \<noteq> ProcessStatus.Passed" by (simp_all add: p_def)
  have "leaf_entry (leaf_context run check selector) entry"
    unfolding entry_def using assms(3,4) p by (intro reason_leaf_entry leaf_failure_entry assms(1,2)) (simp_all add: leaf_ok_def)
  then have acc: "accepted (leaf_context run check selector) (px_diagnostics p @ [entry])"
    using assms(3) p by (simp add: leaf_ok_def)
  have q: "leaf_ok (leaf_context run check selector) q" "px_status q \<noteq> ProcessStatus.Passed"
    using normalized_accepted [OF assms(1,2) _ acc] assms(3) p
    by (auto simp: leaf_ok_def q_def split: sum.split)
  have "result = q \<or> result = lose_evidence env run check selector ''cannot publish terminal leaf evidence'' q"
    by (simp add: result record_leaf_postprocess_failure_def Let_def flip: p_def entry_def q_def)
  then show "leaf_ok (leaf_context run check selector) result" and "px_status result \<noteq> ProcessStatus.Passed"
    and "length (px_diagnostics process) < MAX_DIAGNOSTIC_EVENTS \<Longrightarrow> px_diagnostics result \<noteq> []"
    using q lose_evidence_ok [OF assms(1,2) q(1)] normalize_accepted_ok [OF assms(1) acc] p(1) normalize_empty_iff
    by (auto simp: lose_evidence_def q_def split: sum.splits)
qed

text \<open>A finalised leaf has few diagnostics: those of the index and at most two for its store.\<close>

lemma normalized_length: "normalize_diagnostics sha256 entries = Ok result \<Longrightarrow> length (nd_entries result) \<le> MAX_FAILURE_INDEX"
  by (simp add: normalize_ok(1))

lemma judge_leaf_length: "length (px_diagnostics (judge_leaf env run check selector invalid process)) \<le> MAX_FAILURE_INDEX"
  using normalized_length
  by (auto simp: judge_leaf_def Let_def normalize_leaf_def MAX_FAILURE_INDEX_def split: sum.split)

lemma finalize_length:
  assumes "px_service process = None"
  shows "length (px_diagnostics (finalize_leaf_evidence env run check selector started process)) < MAX_DIAGNOSTIC_EVENTS"
proof -
  have "length (px_diagnostics (publish_leaf env run check selector started formats
      (judge_leaf env run check selector invalid p))) < MAX_DIAGNOSTIC_EVENTS" for formats invalid p
    using judge_leaf_length [of env run check selector invalid p]
    by (simp add: publish_leaf_def Let_def lose_evidence_def MAX_FAILURE_INDEX_def MAX_DIAGNOSTIC_EVENTS_def)
  then show ?thesis using assms by (simp add: finalize_leaf_evidence_def Let_def split: prod.split)
qed

lemma kept_service [simp]:
  "px_service (finalize_leaf_evidence env run check selector started process) = px_service process"
  "px_service (record_leaf_postprocess_failure env run check selector started status category termination reason process)
     = px_service process"
proof -
  have 1: "px_service (publish_leaf env run check selector started formats p) = px_service p" for formats p
    by (simp add: publish_leaf_def Let_def lose_evidence_def)
  have "px_service (normalize_leaf env run check selector p) = px_service p" for p
    by (simp add: normalize_leaf_def split: sum.split)
  moreover have "px_service (ensure_executor_failure env run check selector p) = px_service p" for p
    by (simp add: ensure_executor_failure_def Let_def split: prod.split)
  moreover have "px_service (judge_qualification env check p) = px_service p" for p
    by (simp add: judge_qualification_def split: ProcessStatus.split)
  moreover have "px_service (mark_invalid_evidence env run check selector p) = px_service p" for p
    by (simp add: mark_invalid_evidence_def)
  moreover have "px_service (fail_on_diagnostics p) = px_service p" for p
    by (simp add: fail_on_diagnostics_def)
  ultimately have 2: "px_service (judge_leaf env run check selector invalid p) = px_service p" for invalid p
    by (simp add: judge_leaf_def Let_def)
  show "px_service (finalize_leaf_evidence env run check selector started process) = px_service process"
    by (simp add: finalize_leaf_evidence_def Let_def 1 2 require_streams_def split: prod.split)
  show "px_service (record_leaf_postprocess_failure env run check selector started status category termination reason process)
      = px_service process"
    by (simp add: record_leaf_postprocess_failure_def Let_def lose_evidence_def split: sum.split)
qed

section \<open>Lost evidence and unsafe leaves stay unsafe\<close>

text \<open>A result that passed has kept its logs and its structured evidence.\<close>

definition clean_leaf :: "ProcessResult \<Rightarrow> bool" where
  "clean_leaf process \<longleftrightarrow> (px_status process = ProcessStatus.Passed \<longrightarrow>
     \<not> px_log_storage_failed process \<and> \<not> px_structured_evidence_invalid process)"

lemma read_sources_invalid:
  "read_sources env selector context sources (formats, diagnostics, True) = (formats', diagnostics', invalid') \<Longrightarrow> invalid'"
  by (induction sources arbitrary: formats diagnostics) (auto split: option.splits)

lemma judge_leaf_clean:
  assumes "clean_leaf process" and "px_structured_evidence_invalid process \<Longrightarrow> invalid"
  shows "clean_leaf (judge_leaf env run check selector invalid process)"
    and "px_status process = ProcessStatus.Unsafe \<Longrightarrow>
      px_status (judge_leaf env run check selector invalid process) = ProcessStatus.Unsafe"
proof -
  let ?p1 = "fail_on_diagnostics process"
  let ?p2 = "if invalid then mark_invalid_evidence env run check selector ?p1 else ?p1"
  let ?p3 = "if cp_expect_failure check \<and> \<not> invalid \<and> \<not> px_log_storage_failed ?p2
    then judge_qualification env check ?p2 else ?p2"
  have 2: "clean_leaf ?p2" "px_status process = ProcessStatus.Unsafe \<longrightarrow> px_status ?p2 = ProcessStatus.Unsafe"
    "invalid \<or> \<not> px_structured_evidence_invalid ?p2"
    using assms by (auto simp: clean_leaf_def fail_on_diagnostics_def mark_invalid_evidence_def)
  have 3: "clean_leaf ?p3" "px_status process = ProcessStatus.Unsafe \<longrightarrow> px_status ?p3 = ProcessStatus.Unsafe"
    using 2 by (auto simp: clean_leaf_def judge_qualification_def split: ProcessStatus.split)
  have ensured: "clean_leaf p \<Longrightarrow> clean_leaf (ensure_executor_failure env run check selector p)"
    "px_status (ensure_executor_failure env run check selector p) = px_status p" for p
    by (simp_all add: clean_leaf_def ensure_executor_failure_def Let_def split: prod.split)
  have normal: "clean_leaf p \<Longrightarrow> clean_leaf (normalize_leaf env run check selector p)"
    "px_status p = ProcessStatus.Unsafe \<Longrightarrow> px_status (normalize_leaf env run check selector p) = ProcessStatus.Unsafe" for p
    by (simp_all add: clean_leaf_def normalize_leaf_def split: sum.split)
  show "clean_leaf (judge_leaf env run check selector invalid process)"
    unfolding judge_leaf_def Let_def by (rule normal(1) [OF ensured(1) [OF 3(1)]])
  show "px_status (judge_leaf env run check selector invalid process) = ProcessStatus.Unsafe"
    if "px_status process = ProcessStatus.Unsafe"
    unfolding judge_leaf_def Let_def
    by (rule normal(2)) (use 3(2) that in \<open>simp only: ensured(2) simp_thms\<close>)
qed

lemma publish_leaf_clean:
  "clean_leaf process \<Longrightarrow> clean_leaf (publish_leaf env run check selector started formats process)"
  "px_status process = ProcessStatus.Unsafe \<Longrightarrow>
     px_status (publish_leaf env run check selector started formats process) = ProcessStatus.Unsafe"
  by (simp_all add: clean_leaf_def publish_leaf_def Let_def lose_evidence_def)

lemma finalize_clean:
  assumes "px_service process = None" and "clean_leaf process"
  shows "clean_leaf (finalize_leaf_evidence env run check selector started process)"
    and "px_status process = ProcessStatus.Unsafe \<Longrightarrow>
      px_status (finalize_leaf_evidence env run check selector started process) = ProcessStatus.Unsafe"
proof -
  let ?p = "require_streams (process\<lparr>px_streams := supplement_stream_summaries env run selector (px_streams process)\<rparr>)"
  have p: "clean_leaf ?p" "px_status process = ProcessStatus.Unsafe \<longrightarrow> px_status ?p = ProcessStatus.Unsafe"
    using assms(2) by (simp_all add: clean_leaf_def require_streams_def)
  obtain formats diagnostics invalid where
    read: "read_sources env selector (leaf_context run check selector) (cp_diagnostic_sources check)
      ([], px_diagnostics ?p, px_structured_evidence_invalid ?p) = (formats, diagnostics, invalid)"
    by (cases rule: prod_cases3)
  let ?q = "?p\<lparr>px_diagnostics := diagnostics\<rparr>"
  have q: "clean_leaf ?q" "px_status process = ProcessStatus.Unsafe \<longrightarrow> px_status ?q = ProcessStatus.Unsafe"
    "px_structured_evidence_invalid ?q \<Longrightarrow> invalid"
    using p read read_sources_invalid by (auto simp: clean_leaf_def)
  have result: "finalize_leaf_evidence env run check selector started process = publish_leaf env run check selector started
      formats (judge_leaf env run check selector invalid ?q)"
    using assms(1) read by (simp add: finalize_leaf_evidence_def Let_def)
  show "clean_leaf (finalize_leaf_evidence env run check selector started process)"
    unfolding result by (intro publish_leaf_clean(1) judge_leaf_clean(1) q)
  show "px_status (finalize_leaf_evidence env run check selector started process) = ProcessStatus.Unsafe"
    if "px_status process = ProcessStatus.Unsafe"
    unfolding result using q that by (intro publish_leaf_clean(2) judge_leaf_clean(2)) simp_all
qed

end
