(* ===== verification/Check_Verdict.thy ===== *)
theory Check_Verdict
  imports Check_Execution Leaf_Validity
begin

text \<open>
  What the outcome of a check guarantees, whichever way it was reached: its status is terminal, it
  is a success exactly when the outcome carries no failure, and every failure is acceptable to the
  report contract.  For the cases of a fan-out check: a case with a fixture succeeds only when
  its fixture, its body and its cleanup all did, its cleanup always runs, and the check passes
  only when each of its cases passed.
\<close>

section \<open>What is assumed of the surroundings\<close>

definition request_context :: "ProcessRequest \<Rightarrow> DiagnosticContext" where
  "request_context request =
     \<lparr>dc_run_id = rq_run_id request, dc_check = rq_check_name request,
      dc_case = ls_case_id (rq_log_selector request), dc_phase = ls_phase (rq_log_selector request)\<rparr>"

text \<open>
  Digests have 32 bytes; the diagnostic events of a process were checked against the leaf it
  belongs to, and its exit code is that of a Unix process; only a check that completes by an event
  leaves a service behind, and then its result is a pass without diagnostics; every task that was
  spawned is joined, and no other.
\<close>

definition check_env_ok :: "CheckEnv \<Rightarrow> bool" where
  "check_env_ok ce \<longleftrightarrow> digest_size (env_sha256 (ce_env ce)) \<and>
     (\<forall>request scope. leaf_ok (request_context request) (ce_run_process ce request scope)) \<and>
     (\<forall>request scope. px_service (ce_run_process ce request scope) \<noteq> None \<longrightarrow>
        rq_completion request = Event \<and> px_status (ce_run_process ce request scope) = ProcessStatus.Passed \<and>
        px_diagnostics (ce_run_process ce request scope) = []) \<and>
     (\<forall>cases. mset (map fst (ce_joins ce cases)) = mset cases)"

text \<open>The names the plan contract has accepted.\<close>

definition names_ok :: "ExecutionPlan \<Rightarrow> CheckPlan \<Rightarrow> bool" where
  "names_ok plan check \<longleftrightarrow> validate_identity ''log run_id'' (ep_run_id plan) 128 = Ok () \<and>
     validate_name ''log check'' (cp_name check) 64 = Ok () \<and>
     (\<forall>cs. cp_cases check = Some cs \<longrightarrow> validate_cases cs = Ok ())"

lemma validate_name_kind: "validate_name kind name n = Ok () \<Longrightarrow> validate_name kind' name n = Ok ()"
  by (simp add: validate_name_def)

lemma validate_identity_kind: "validate_identity kind name n = Ok () \<Longrightarrow> validate_identity kind' name n = Ok ()"
  by (simp add: validate_identity_def)

lemma valid_plan_names_ok:
  assumes "ExecutionPlan_validate plan = Ok ()" and "check \<in> set (ep_checks plan)"
  shows "names_ok plan check"
proof -
  have valid: "validate_check check = Ok ()" using valid_plan_names(2) [OF assms(1)] assms(2) by blast
  have "validate_plan_identity plan = Ok ()" using assms(1) by (rule validate_plan_parts)
  then have "validate_identity ''run_id'' (ep_run_id plan) 128 = Ok ()"
    by (simp add: validate_plan_identity_def)
  moreover have "validate_cases cs = Ok ()" if "cp_cases check = Some cs" for cs
    using valid that by (auto simp: validate_check_ok validate_check_evidence_def if_some_def)
  ultimately show ?thesis
    unfolding names_ok_def using validate_check_name [OF valid] validate_name_kind validate_identity_kind by metis
qed

lemma check_context_valid:
  assumes "names_ok plan check"
  shows "DiagnosticContext_validate (leaf_context (ep_run_id plan) check (check_selector (cp_name check))) = Ok ()"
    and "DiagnosticContext_validate (leaf_context (ep_run_id plan) check (discovery_selector (cp_name check))) = Ok ()"
    and "validate_case_id case_id = Ok () \<Longrightarrow> phase \<in> {LogPhase.Case, LogPhase.Fixture, LogPhase.Cleanup} \<Longrightarrow>
      DiagnosticContext_validate (leaf_context (ep_run_id plan) check (case_selector (cp_name check) phase case_id)) = Ok ()"
  using assms
  by (auto simp: names_ok_def DiagnosticContext_validate_def DiagnosticContext_log_refs_def leaf_context_def
      check_selector_def discovery_selector_def case_selector_def LogRef_validate_def check_log_ref_def case_log_ref_def
      or_error_ok)

section \<open>Leaves\<close>

lemma run_leaf_ok:
  assumes "check_env_ok ce"
    and "DiagnosticContext_validate (leaf_context (ep_run_id plan) check (rq_log_selector request)) = Ok ()"
    and "rq_run_id request = ep_run_id plan" and "rq_check_name request = cp_name check"
  shows "leaf_ok (leaf_context (ep_run_id plan) check (rq_log_selector request)) (run_leaf ce plan check scope request)"
proof -
  have "request_context request = leaf_context (ep_run_id plan) check (rq_log_selector request)"
    using assms(3,4) by (simp add: request_context_def leaf_context_def)
  then have "leaf_ok (leaf_context (ep_run_id plan) check (rq_log_selector request)) (ce_run_process ce request scope)"
    using assms(1) unfolding check_env_ok_def by metis
  moreover have "digest_size (env_sha256 (leaf_env ce (rq_log_selector request)))"
    using assms(1) by (simp add: check_env_ok_def leaf_env_def)
  ultimately show ?thesis using assms(2) by (simp add: run_leaf_def Let_def finalize_ok)
qed

lemma finalize_settled:
  "px_service process = None \<Longrightarrow> settled_leaf (finalize_leaf_evidence env run check selector started process)"
  using publish_leaf_settles [OF judge_leaf_settles]
  by (simp add: finalize_leaf_evidence_def Let_def split: prod.splits)

lemma run_leaf_settled:
  assumes "check_env_ok ce"
  shows "settled_leaf (run_leaf ce plan check scope request)"
    and "length (px_diagnostics (run_leaf ce plan check scope request)) < MAX_DIAGNOSTIC_EVENTS"
proof -
  define raw where "raw = ce_run_process ce request scope"
  have leaf: "run_leaf ce plan check scope request = finalize_leaf_evidence (leaf_env ce (rq_log_selector request))
      (ep_run_id plan) check (rq_log_selector request) (ce_started ce (rq_log_selector request)) raw"
    by (simp add: run_leaf_def Let_def raw_def)
  have "px_service raw \<noteq> None \<Longrightarrow> px_status raw = ProcessStatus.Passed \<and> px_diagnostics raw = []"
    using assms by (auto simp: check_env_ok_def raw_def)
  then show "settled_leaf (run_leaf ce plan check scope request)"
    and "length (px_diagnostics (run_leaf ce plan check scope request)) < MAX_DIAGNOSTIC_EVENTS"
    using finalize_settled [of raw] finalize_length [of raw] unfolding leaf
    by (cases "px_service raw = None"; simp add: finalize_leaf_evidence_def settled_leaf_def MAX_DIAGNOSTIC_EVENTS_def)+
qed

section \<open>Verdicts\<close>

definition valid_failures :: "string \<Rightarrow> FailureIndexEntry list \<Rightarrow> bool" where
  "valid_failures name failures \<longleftrightarrow>
     list_all (\<lambda>e. FailureIndexEntry_validate e = Ok () \<and> fie_check e = Some name) failures"

lemma valid_failures_simps [simp]:
  "valid_failures name []"
  "valid_failures name (e # es) \<longleftrightarrow>
     FailureIndexEntry_validate e = Ok () \<and> fie_check e = Some name \<and> valid_failures name es"
  "valid_failures name (xs @ ys) \<longleftrightarrow> valid_failures name xs \<and> valid_failures name ys"
  by (simp_all add: valid_failures_def)

definition verdict_ok :: "string \<Rightarrow> LeafStatus \<Rightarrow> FailureIndexEntry list \<Rightarrow> bool" where
  "verdict_ok name status failures \<longleftrightarrow> LeafStatus_is_terminal status \<and>
     (LeafStatus_is_success status \<longleftrightarrow> failures = []) \<and> valid_failures name failures"

lemma accepted_valid: "accepted context entries \<Longrightarrow> valid_failures (dc_check context) entries"
  by (simp add: accepted_def leaf_entry_def valid_failures_def list_all_iff)

lemma leaf_status_terminal: "LeafStatus_is_terminal (leaf_status_of status)"
  by (cases status) (simp_all add: LeafStatus_is_terminal_def)

lemma leaf_verdict:
  "leaf_ok context process \<Longrightarrow> settled_leaf process \<Longrightarrow>
     verdict_ok (dc_check context) (leaf_status_of (px_status process)) (px_diagnostics process)"
  by (auto simp: verdict_ok_def leaf_ok_def settled_leaf_def leaf_status_terminal leaf_status_success accepted_valid)

lemma failure_entry_check:
  "fie_check (failure_entry sha256 run check case_id status code reason category phase) = check"
  by (simp add: failure_entry_def Let_def)

lemma plain_failure_valid:
  assumes "digest_size sha256" and "validate_name ''log check'' name 64 = Ok ()" and "is_failure_status status"
    and "\<forall>id. case_id = Some id \<longrightarrow> validate_case_id id = Ok ()"
  shows "FailureIndexEntry_validate
    (failure_entry sha256 run (Some name) case_id status None reason category None) = Ok ()"
  using assms(2-4) fingerprint_valid [OF assms(1)] validate_name_kind case_id_diagnostic_name
  by (auto simp: failure_entry_def Let_def FailureIndexEntry_validate_def steps_ok failure_log_refs_def
      if_some_def diagnostic_exit_def DiagnosticExit_validate_def MAX_DIAGNOSTIC_LOG_REFS_def split: option.split)

lemma check_failure_valid:
  "check_env_ok ce \<Longrightarrow> names_ok plan check \<Longrightarrow> is_failure_status status \<Longrightarrow>
     FailureIndexEntry_validate (check_failure ce plan check status reason category) = Ok ()
     \<and> fie_check (check_failure ce plan check status reason category) = Some (cp_name check)"
  using plain_failure_valid [of "env_sha256 (ce_env ce)" "cp_name check" status None]
  by (simp add: check_failure_def check_env_ok_def names_ok_def failure_entry_check)

lemma dc_check_leaf [simp]: "dc_check (leaf_context run check selector) = cp_name check"
  by (simp add: leaf_context_def)

lemma status_kinds [simp]:
  "LeafStatus_is_terminal LeafStatus.Failed" "LeafStatus_is_terminal LeafStatus.Unsafe"
  "LeafStatus_is_terminal LeafStatus.Cancelled" "LeafStatus_is_terminal LeafStatus.TimedOut"
  "LeafStatus_is_terminal LeafStatus.Passed" "LeafStatus_is_terminal LeafStatus.Reused"
  "\<not> LeafStatus_is_success LeafStatus.Failed" "\<not> LeafStatus_is_success LeafStatus.Unsafe"
  "\<not> LeafStatus_is_success LeafStatus.Cancelled" "\<not> LeafStatus_is_success LeafStatus.TimedOut"
  "LeafStatus_is_success LeafStatus.Passed" "LeafStatus_is_success LeafStatus.Reused"
  by (simp_all add: LeafStatus_is_terminal_def LeafStatus_is_success_def)

section \<open>Cases\<close>

lemma names_ok_env [simp]: "names_ok plan (check\<lparr>cp_env := environment\<rparr>) \<longleftrightarrow> names_ok plan check"
  by (simp add: names_ok_def)

lemma native_plan_name [simp]: "cp_name (native_plan check) = cp_name check"
  by (simp add: native_plan_def)

lemma native_context [simp]: "leaf_context run (native_plan check) selector = leaf_context run check selector"
  by (simp add: leaf_context_def)

definition case_verdict :: "CheckPlan \<Rightarrow> CaseSpec \<Rightarrow> CaseOutcome \<Rightarrow> bool" where
  "case_verdict check c outcome \<longleftrightarrow> cr_id (cso_report outcome) = cs_id c \<and>
     cr_status (cso_report outcome) \<in> range leaf_status_of \<and>
     verdict_ok (cp_name check) (cr_status (cso_report outcome)) (cso_failures outcome)"

lemma unsafe_in_range: "LeafStatus.Unsafe \<in> range leaf_status_of"
  by (metis leaf_status_of.simps(5) rangeI)

lemma unsafe_case_verdict:
  "check_env_ok ce \<Longrightarrow> names_ok plan check \<Longrightarrow> validate_case_id (cs_id c) = Ok () \<Longrightarrow>
     case_verdict check c (unsafe_case ce plan check c nanos category)"
  by (simp add: case_verdict_def unsafe_case_def case_report_of_def unsafe_in_range verdict_ok_def plain_failure_valid
      check_env_ok_def names_ok_def failure_entry_check)

lemma plain_case_verdict:
  assumes "check_env_ok ce" and "names_ok plan check" and "validate_case_id (cs_id c) = Ok ()"
  shows "case_verdict check c (run_plain_case ce plan check c command)"
proof -
  let ?selector = "case_selector (cp_name check) LogPhase.Case (cs_id c)"
  let ?request = "process_request ce plan check ?selector (cp_name check @ ''/case/'' @ cs_id c)
    (command @ cs_args c) Process False"
  have ctx: "DiagnosticContext_validate (leaf_context (ep_run_id plan) check ?selector) = Ok ()"
    using check_context_valid(3) [OF assms(2,3)] by simp
  have "verdict_ok (cp_name check) (leaf_status_of (px_status p)) (px_diagnostics p)"
    if "p = run_leaf ce plan check (check_scope check) (?request\<lparr>rq_env := environment\<rparr>)" for p environment
    unfolding that
    by (intro leaf_verdict [OF run_leaf_ok [OF assms(1)] run_leaf_settled(1) [OF assms(1)], simplified])
      (simp_all add: process_request_def ctx)
  then show ?thesis
    using unsafe_case_verdict [OF assms]
    by (auto simp: run_plain_case_def Let_def case_verdict_def case_report_of_def split: sum.split)
qed

lemma native_phase_verdict:
  assumes "check_env_ok ce" and "names_ok plan check" and "validate_case_id (cs_id c) = Ok ()"
    and "phase = LogPhase.Fixture \<or> phase = LogPhase.Cleanup"
    and "native_case_phase ce plan check c program branch phase scope = (process, report)"
  shows "verdict_ok (cp_name check) (leaf_status_of (px_status process)) (px_diagnostics process)"
    and "cpr_status report = leaf_status_of (px_status process)"
proof -
  let ?selector = "case_selector (cp_name check) phase (cs_id c)"
  have ctx: "DiagnosticContext_validate (leaf_context (ep_run_id plan) check ?selector) = Ok ()"
    using check_context_valid(3) [OF assms(2,3)] assms(4) by auto
  show "cpr_status report = leaf_status_of (px_status process)"
    using assms(5) by (auto simp: native_case_phase_def Let_def)
  obtain node command where "process = run_leaf ce plan (native_plan check) scope
      (process_request ce plan check ?selector node command Process False)"
    using assms(5) by (auto simp: native_case_phase_def Let_def)
  then show "verdict_ok (cp_name check) (leaf_status_of (px_status process)) (px_diagnostics process)"
    using run_leaf_ok [OF assms(1), of plan "native_plan check" "process_request ce plan check ?selector node command Process False"]
      run_leaf_settled(1) [OF assms(1)] ctx leaf_verdict [of "leaf_context (ep_run_id plan) check ?selector"]
    by (auto simp: process_request_def)
qed

lemma fixture_body_verdict:
  assumes "check_env_ok ce" and "names_ok plan check" and "validate_case_id (cs_id c) = Ok ()"
    and "fixture_case_body ce plan check c command setup = (outcome, ran_body)"
  shows "px_status setup = ProcessStatus.Passed \<Longrightarrow> case_verdict check c outcome"
    and "px_status setup \<noteq> ProcessStatus.Passed \<Longrightarrow> cso_failures outcome = [] \<and> \<not> ran_body \<and>
      cr_id (cso_report outcome) = cs_id c \<and> cr_status (cso_report outcome) = leaf_status_of (px_status setup)"
    and "LeafStatus_is_success (cr_status (cso_report outcome)) \<Longrightarrow> ran_body"
  using assms(4) plain_case_verdict [OF assms(1), of plan "check\<lparr>cp_env := environment\<rparr>" "c\<lparr>cs_postgres := None\<rparr>" command for environment]
    unsafe_case_verdict [OF assms(1-3)] assms(2,3)
  by (auto simp: fixture_case_body_def database_case_failure_def case_report_of_def leaf_status_success
      case_verdict_def unsafe_case_def split: if_splits sum.splits)

lemma fixture_case_verdict:
  assumes "check_env_ok ce" and "names_ok plan check" and "validate_case_id (cs_id c) = Ok ()"
    and result: "outcome = run_case_with_fixture ce plan check c command program branch"
  shows "case_verdict check c outcome"
    and "LeafStatus_is_success (cr_status (cso_report outcome)) \<longleftrightarrow>
      list_all (\<lambda>phase. LeafStatus_is_success (cpr_status phase)) (cr_phases (cso_report outcome))"
proof -
  obtain fixture fixture_phase where
    fixture: "native_case_phase ce plan check c program branch LogPhase.Fixture (check_scope check) = (fixture, fixture_phase)"
    by fastforce
  obtain cleanup cleanup_phase where
    cleanup: "native_case_phase ce plan check c program branch LogPhase.Cleanup NoCancellation = (cleanup, cleanup_phase)"
    by fastforce
  obtain body ran_body where body: "fixture_case_body ce plan check c command fixture = (body, ran_body)" by fastforce
  note s = native_phase_verdict [OF assms(1-3) disjI1 [OF refl] fixture]
    and k = native_phase_verdict [OF assms(1-3) disjI2 [OF refl] cleanup]
    and b = fixture_body_verdict [OF assms(1-3) body]
  have range: "cr_status (cso_report body) \<in> range leaf_status_of"
    using b(1,2) by (cases "px_status fixture = ProcessStatus.Passed") (auto simp: case_verdict_def)
  have ident: "cr_id (cso_report body) = cs_id c"
    using b(1,2) by (cases "px_status fixture = ProcessStatus.Passed") (auto simp: case_verdict_def)
  have good: "LeafStatus_is_success (cr_status (cso_report body)) \<longleftrightarrow>
      px_status fixture = ProcessStatus.Passed \<and> ran_body \<and> LeafStatus_is_success (cr_status (cso_report body))"
    using b(2,3) by (metis leaf_status_success)
  have invalidated: "\<not> LeafStatus_is_success LeafStatus.Invalidated" by (simp add: LeafStatus_is_success_def)
  have outcome: "outcome = \<lparr>cso_report = (cso_report body)\<lparr>
        cr_status := (if \<not> LeafStatus_is_success (cpr_status cleanup_phase) \<and> LeafStatus_is_success (cr_status (cso_report body))
          then cpr_status cleanup_phase else cr_status (cso_report body)),
        cr_phases := [fixture_phase, \<lparr>cpr_phase = CheckPhase.Case,
          cpr_status = (if ran_body then cr_status (cso_report body) else LeafStatus.Invalidated),
          cpr_duration_ms = (if ran_body then cr_duration_ms (cso_report body) else 0),
          cpr_streams = cr_streams (cso_report body)\<rparr>, cleanup_phase],
        cr_duration_ms := millis (ce_case_elapsed ce (cs_id c))\<rparr>,
      cso_failures = cso_failures body @ px_diagnostics fixture @ px_diagnostics cleanup\<rparr>"
    by (simp add: result run_case_with_fixture_def fixture cleanup body Let_def)
  show "LeafStatus_is_success (cr_status (cso_report outcome)) \<longleftrightarrow>
      list_all (\<lambda>phase. LeafStatus_is_success (cpr_status phase)) (cr_phases (cso_report outcome))"
    using good s(2) k(2) invalidated by (auto simp: outcome leaf_status_success)
  show "case_verdict check c outcome"
  proof (cases "px_status fixture = ProcessStatus.Passed")
    case True
    then show ?thesis
      using b(1) s(1) k range by (auto simp: case_verdict_def outcome verdict_ok_def leaf_status_success)
  next
    case False
    then show ?thesis
      using b(2) s(1) k range by (auto simp: case_verdict_def outcome verdict_ok_def leaf_status_success)
  qed
qed

lemma run_case_verdict:
  assumes "check_env_ok ce" and "names_ok plan check" and "validate_case_id (cs_id c) = Ok ()"
  shows "case_verdict check c (run_case ce plan check c command)"
  using plain_case_verdict [OF assms] fixture_case_verdict(1) [OF assms refl]
  by (simp add: run_case_def split: option.split)

section \<open>Fan-out checks\<close>

definition outcome_ok :: "CheckPlan \<Rightarrow> CheckOutcome \<Rightarrow> bool" where
  "outcome_ok check outcome \<longleftrightarrow> verdict_ok (cp_name check) (oc_status outcome) (oc_failures outcome)"

lemmas verdict_outcome = outcome_ok_def [THEN iffD2]

lemma empty_outcome_fields [simp]:
  "oc_status (empty_outcome ce check status) = status" "oc_failures (empty_outcome ce check status) = []"
  "oc_service (empty_outcome ce check status) = None"
  by (simp_all add: empty_outcome_def)

lemma check_failure_outcome:
  "check_env_ok ce \<Longrightarrow> names_ok plan check \<Longrightarrow> outcome_ok check (artifact_input_failure ce plan check reason)"
  "check_env_ok ce \<Longrightarrow> names_ok plan check \<Longrightarrow> outcome_ok check (case_selection_failure ce plan check streams reason)"
  "check_env_ok ce \<Longrightarrow> names_ok plan check \<Longrightarrow> outcome_ok check (cancelled_outcome ce plan check)"
  by (simp_all add: outcome_ok_def verdict_ok_def artifact_input_failure_def case_selection_failure_def
      cancelled_outcome_def check_failure_valid)

lemma discovery_failure_outcome:
  assumes "check_env_ok ce" and "names_ok plan check" and "is_failure_status status"
    and "leaf_ok (leaf_context (ep_run_id plan) check (discovery_selector (cp_name check))) process"
    and "length (px_diagnostics process) < MAX_DIAGNOSTIC_EVENTS"
  shows "outcome_ok check (discovery_postprocess_failure ce plan check process streams status reason category termination)"
    and "\<not> LeafStatus_is_success
      (oc_status (discovery_postprocess_failure ce plan check process streams status reason category termination))"
proof -
  let ?selector = "discovery_selector (cp_name check)"
  let ?p = "record_leaf_postprocess_failure (leaf_env ce ?selector) (ep_run_id plan) check ?selector
    (ce_started ce ?selector) status category termination (Some reason) process"
  have digest: "digest_size (env_sha256 (leaf_env ce ?selector))"
    using assms(1) by (simp add: check_env_ok_def leaf_env_def)
  note failed = record_failure_ok [OF digest check_context_valid(2) [OF assms(2)] assms(4,3) refl]
  have "verdict_ok (cp_name check) (leaf_status_of (px_status ?p)) (px_diagnostics ?p)"
    by (rule leaf_verdict [OF failed(1), simplified]) (simp add: settled_leaf_def failed(2) failed(3) [OF assms(5)])
  then show "outcome_ok check (discovery_postprocess_failure ce plan check process streams status reason category termination)"
    by (intro verdict_outcome) (simp add: discovery_postprocess_failure_def Let_def)
  show "\<not> LeafStatus_is_success
      (oc_status (discovery_postprocess_failure ce plan check process streams status reason category termination))"
    using failed(2) by (simp add: discovery_postprocess_failure_def Let_def leaf_status_success)
qed

lemma discover_cases_ok:
  assumes "check_env_ok ce" and "names_ok plan check"
  shows "discover_cases ce plan check = Err outcome \<Longrightarrow>
      outcome_ok check outcome \<and> \<not> LeafStatus_is_success (oc_status outcome)"
    and "discover_cases ce plan check = Ok (cases, streams) \<Longrightarrow> validate_cases cases = Ok ()"
proof -
  let ?selector = "discovery_selector (cp_name check)"
  let ?request = "process_request ce plan check ?selector (cp_name check @ ''/discovery'')
    (unwrap_or_default (cp_discover check)) Process True"
  define discovery where "discovery = run_leaf ce plan check (check_scope check) ?request"
  have rq: "rq_log_selector ?request = ?selector" "rq_run_id ?request = ep_run_id plan"
    "rq_check_name ?request = cp_name check" by (simp_all add: process_request_def)
  have leaf: "leaf_ok (leaf_context (ep_run_id plan) check ?selector) discovery"
    using run_leaf_ok [OF assms(1), of plan check ?request] check_context_valid(2) [OF assms(2)] rq
    by (simp add: discovery_def)
  have settled: "settled_leaf discovery" unfolding discovery_def by (rule run_leaf_settled(1) [OF assms(1)])
  have "length (px_diagnostics discovery) < MAX_DIAGNOSTIC_EVENTS"
    unfolding discovery_def by (rule run_leaf_settled(2) [OF assms(1)])
  then have failure: "outcome_ok check (discovery_postprocess_failure ce plan check (discovery\<lparr>px_manifest := None\<rparr>) streams
      status reason category ending) \<and> \<not> LeafStatus_is_success (oc_status (discovery_postprocess_failure ce plan check
      (discovery\<lparr>px_manifest := None\<rparr>) streams status reason category ending))" if "is_failure_status status" for streams status reason category ending
    using leaf by (intro conjI discovery_failure_outcome [OF assms that]) (simp_all add: leaf_ok_def)
  have lost: "outcome_ok check (fanout_setup_failure ce check discovery streams) \<and>
      (px_status discovery \<noteq> ProcessStatus.Passed \<longrightarrow>
        \<not> LeafStatus_is_success (oc_status (fanout_setup_failure ce check discovery streams)))" for streams
    using leaf_verdict [OF leaf settled]
    by (intro conjI verdict_outcome) (simp_all add: fanout_setup_failure_def leaf_status_success)
  have fold_discovery: "run_leaf ce plan check (check_scope check) ?request = discovery" by (simp add: discovery_def)
  show "discover_cases ce plan check = Err outcome \<Longrightarrow>
      outcome_ok check outcome \<and> \<not> LeafStatus_is_success (oc_status outcome)"
    using failure lost
    by (auto simp: discover_cases_def Let_def fold_discovery split: option.splits if_splits sum.splits)
  show "discover_cases ce plan check = Ok (cases, streams) \<Longrightarrow> validate_cases cases = Ok ()"
    using assms(2)
    by (auto simp: discover_cases_def Let_def names_ok_def CaseManifest_from_json_def
        split: option.splits if_splits sum.splits)
qed

lemma select_cases_ok:
  assumes "select_cases plan check discovered = Ok cases" and "validate_cases discovered = Ok ()"
  shows "sorted (map cs_id cases)" and "distinct (map cs_id cases)"
    and "\<forall>c \<in> set cases. validate_case_id (cs_id c) = Ok ()" and "set cases \<subseteq> set discovered"
proof -
  have valid: "distinct (map cs_id discovered)" "\<forall>c \<in> set discovered. validate_case_id (cs_id c) = Ok ()"
    using assms(2) by (simp_all add: validate_cases_ok)
  obtain P where cases: "cases = filter P (sort_key cs_id discovered)"
    using assms(1) that [of "\<lambda>_. True"]
    by (auto simp: select_cases_def Let_def split: option.splits if_splits)
  have "distinct (map cs_id (sort_key cs_id discovered))" using valid(1) by (simp only: distinct_map_sort_key)
  then show "distinct (map cs_id cases)" unfolding cases by (rule distinct_map_filter)
  show "sorted (map cs_id cases)" unfolding cases by (rule sorted_filter) simp
  show "\<forall>c \<in> set cases. validate_case_id (cs_id c) = Ok ()" and "set cases \<subseteq> set discovered"
    using valid(2) by (auto simp: cases)
qed

lemma join_failure_None: "join_failure joins = None \<longleftrightarrow> (\<forall>(c, error) \<in> set joins. error = None)"
proof -
  have "fold (\<lambda>(c, error) failure. case error of
      Some e \<Rightarrow> Some (''case task failed internally: '' @ e) | None \<Rightarrow> failure) joins start = None \<longleftrightarrow>
      start = None \<and> (\<forall>(c, error) \<in> set joins. error = None)" for start
    by (induction joins arbitrary: start) (auto split: option.splits)
  then show ?thesis by (simp add: join_failure_def)
qed

text \<open>When no task is lost, the outcomes are those of the cases in their order, however they ended.\<close>

lemma case_outcomes_order:
  assumes "mset (map fst joins) = mset cases" and "join_failure joins = None"
    and "sorted (map cs_id cases)" and "distinct (map cs_id cases)"
    and "\<forall>c \<in> set cases. cr_id (cso_report (run_case ce plan check c (unwrap_or_default (cp_case_command check)))) = cs_id c"
  shows "case_outcomes ce plan check joins = map (\<lambda>c. run_case ce plan check c (unwrap_or_default (cp_case_command check))) cases"
proof -
  let ?run = "\<lambda>c. run_case ce plan check c (unwrap_or_default (cp_case_command check))" and ?id = "\<lambda>outcome. cr_id (cso_report outcome)"
  have all: "filter (\<lambda>(c, error). error = None) joins = joins"
    using assms(2) unfolding join_failure_None by (auto simp: filter_id_conv)
  have run: "map (\<lambda>(c, _). ?run c) joins = map ?run (map fst joins)" by (simp add: case_prod_unfold)
  have mset: "mset (map ?run (map fst joins)) = mset (map ?run cases)"
    using assms(1) by (metis mset_map)
  have members: "set (map ?run (map fst joins)) = set (map ?run cases)" using mset by (rule mset_eq_setD)
  have ids: "map ?id (map ?run cases) = map cs_id cases" using assms(5) by simp
  have "inj_on ?id (set (map ?run cases))" using assms(4) ids by (metis distinct_map)
  then have "sort_key ?id (map ?run (map fst joins)) = map ?run cases"
    using assms(3) unfolding members [symmetric] by (intro sort_key_inj_key_eq [OF mset]) (simp_all only: ids)
  then show ?thesis by (simp add: case_outcomes_def all run)
qed

text \<open>A status of the cases: it fails when one of them did, or a task was lost.\<close>

lemma fanout_status_passed:
  assumes "\<forall>report \<in> set reports. cr_status report \<in> range leaf_status_of"
  shows "fst (fanout_status failure reports) \<in> range leaf_status_of"
    and "fst (fanout_status failure reports) = LeafStatus.Passed \<longleftrightarrow>
      failure = None \<and> (\<forall>report \<in> set reports. cr_status report = LeafStatus.Passed)"
proof -
  have all: "range leaf_status_of =
      {LeafStatus.Passed, LeafStatus.Failed, LeafStatus.TimedOut, LeafStatus.Cancelled, LeafStatus.Unsafe}"
  proof -
    have univ: "(UNIV :: ProcessStatus set) = {ProcessStatus.Passed, ProcessStatus.Failed, ProcessStatus.TimedOut,
        ProcessStatus.Cancelled, ProcessStatus.Unsafe}" using ProcessStatus.exhaust by auto
    show ?thesis unfolding univ by simp
  qed
  show "fst (fanout_status failure reports) \<in> range leaf_status_of"
    by (simp add: all fanout_status_def split: option.split)
  show "fst (fanout_status failure reports) = LeafStatus.Passed \<longleftrightarrow>
      failure = None \<and> (\<forall>report \<in> set reports. cr_status report = LeafStatus.Passed)"
    using assms unfolding all fanout_status_def any_case_def list_ex_iff
    by (cases failure; auto; metis LeafStatus.distinct)
qed

lemma conclude_fanout_ok:
  assumes "check_env_ok ce" and "names_ok plan check" and "\<forall>outcome \<in> set outcomes. \<exists>c. case_verdict check c outcome"
  shows "outcome_ok check (conclude_fanout ce plan check streams failure outcomes)"
    and "oc_status (conclude_fanout ce plan check streams failure outcomes) = LeafStatus.Passed \<Longrightarrow>
      failure = None \<and> (\<forall>outcome \<in> set outcomes. cr_status (cso_report outcome) = LeafStatus.Passed)"
proof -
  let ?reports = "map cso_report outcomes" and ?failures = "concat (map cso_failures outcomes)"
  obtain status reason where st: "fanout_status failure ?reports = (status, reason)" by fastforce
  have "\<forall>report \<in> set ?reports. cr_status report \<in> range leaf_status_of" using assms(3) by (auto simp: case_verdict_def)
  note parts = fanout_status_passed [OF this, of failure, unfolded st fst_conv]
  have valid: "valid_failures (cp_name check) ?failures"
    using assms(3) by (fastforce simp: case_verdict_def verdict_ok_def valid_failures_def list_all_iff)
  have silent: "?failures = [] \<longleftrightarrow> (\<forall>outcome \<in> set outcomes. cr_status (cso_report outcome) = LeafStatus.Passed)"
  proof -
    have "cso_failures outcome = [] \<longleftrightarrow> cr_status (cso_report outcome) = LeafStatus.Passed" if "outcome \<in> set outcomes" for outcome
      using assms(3) that by (fastforce simp: case_verdict_def verdict_ok_def leaf_status_success)
    then show ?thesis by (auto simp: concat_eq_Nil_conv)
  qed
  define failures where "failures = (if status = LeafStatus.Unsafe \<and> ?failures = []
      then [check_failure ce plan check status (Some UnsafeStop) ErrorCategory.Internal] else ?failures)"
  have "LeafStatus_is_terminal status" "LeafStatus_is_success status \<longleftrightarrow> status = LeafStatus.Passed"
    using parts(1) by (auto simp: leaf_status_terminal leaf_status_success)
  moreover have "status = LeafStatus.Unsafe" if "failure \<noteq> None" using st that by (auto simp: fanout_status_def)
  ultimately have now: "verdict_ok (cp_name check) status failures" "LeafStatus_is_success status \<longleftrightarrow> status = LeafStatus.Passed"
    using parts(2) valid silent check_failure_valid [OF assms(1,2)] by (auto simp: verdict_ok_def failures_def)
  obtain status1 reason1 failures1 where
    ev: "fanout_evidence ce plan check ?reports (status, reason, failures) = (status1, reason1, failures1)"
    by (rule prod_cases3)
  have one: "verdict_ok (cp_name check) status1 failures1" "LeafStatus_is_success status1 \<longleftrightarrow> status1 = LeafStatus.Passed"
    "status1 = LeafStatus.Passed \<Longrightarrow> status = LeafStatus.Passed"
    using now ev check_failure_valid [OF assms(1,2)]
    by (auto simp: fanout_evidence_def verdict_ok_def split: sum.splits)
  obtain status2 reason2 failures2 artifacts where
    art: "fanout_artifacts ce plan check (status1, reason1, failures1) = ((status2, reason2, failures2), artifacts)"
    by (metis prod_cases3 surj_pair)
  have two: "verdict_ok (cp_name check) status2 failures2" "status2 = LeafStatus.Passed \<Longrightarrow> status1 = LeafStatus.Passed"
    using one art check_failure_valid [OF assms(1,2)]
    by (auto simp: fanout_artifacts_def verdict_ok_def split: sum.splits if_splits)
  have out: "oc_status (conclude_fanout ce plan check streams failure outcomes) = status2"
    "oc_failures (conclude_fanout ce plan check streams failure outcomes) = failures2"
    unfolding conclude_fanout_def Let_def st prod.case failures_def [symmetric] ev art by simp_all
  show "outcome_ok check (conclude_fanout ce plan check streams failure outcomes)"
    using two(1) by (intro verdict_outcome) (simp add: out)
  show "failure = None \<and> (\<forall>outcome \<in> set outcomes. cr_status (cso_report outcome) = LeafStatus.Passed)"
    if "oc_status (conclude_fanout ce plan check streams failure outcomes) = LeafStatus.Passed"
    using that two(2) one(3) parts(2) by (auto simp: out)
qed

lemma case_outcomes_verdicts:
  assumes "check_env_ok ce" and "names_ok plan check" and "\<forall>c \<in> set cases. validate_case_id (cs_id c) = Ok ()"
  shows "\<forall>outcome \<in> set (case_outcomes ce plan check (ce_joins ce cases)). \<exists>c. case_verdict check c outcome"
proof -
  have "set (map fst (ce_joins ce cases)) = set cases"
    using assms(1) unfolding check_env_ok_def by (metis mset_eq_setD)
  then have "\<forall>(c, error) \<in> set (ce_joins ce cases). c \<in> set cases" by force
  then show ?thesis using run_case_verdict [OF assms(1,2)] assms(3) by (fastforce simp: case_outcomes_def)
qed

lemma execute_fanout_ok:
  assumes "check_env_ok ce" and "names_ok plan check"
  shows "outcome_ok check (execute_fanout ce plan check)"
proof -
  have "outcome_ok check (conclude_fanout ce plan check streams (join_failure (ce_joins ce cases))
      (case_outcomes ce plan check (ce_joins ce cases)))"
    if "discover_cases ce plan check = Ok (discovered, streams)" and "select_cases plan check discovered = Ok cases"
    for discovered streams cases
    using case_outcomes_verdicts [OF assms] select_cases_ok(3) [OF that(2) discover_cases_ok(2) [OF assms that(1)]]
    by (intro conclude_fanout_ok(1) [OF assms]) blast
  then show ?thesis
    using discover_cases_ok(1) [OF assms] check_failure_outcome(2) [OF assms]
    by (auto simp: execute_fanout_def Let_def split: sum.split)
qed

section \<open>Direct checks\<close>

text \<open>The result of a process on its way to the outcome of a direct check.\<close>

definition direct_ok :: "ExecutionPlan \<Rightarrow> CheckPlan \<Rightarrow> ProcessResult \<Rightarrow> bool" where
  "direct_ok plan check process \<longleftrightarrow>
     leaf_ok (leaf_context (ep_run_id plan) check (check_selector (cp_name check))) process \<and>
     settled_leaf process"

lemma postprocess_direct_ok:
  assumes "check_env_ok ce" and "names_ok plan check"
    and leaf: "leaf_ok (leaf_context (ep_run_id plan) check (check_selector (cp_name check))) process"
    and "length (px_diagnostics process) < MAX_DIAGNOSTIC_EVENTS"
  shows "direct_ok plan check (leaf_postprocess_failure ce plan check reason process)"
    and "px_status (leaf_postprocess_failure ce plan check reason process) \<noteq> ProcessStatus.Passed"
proof -
  let ?selector = "check_selector (cp_name check)"
  have digest: "digest_size (env_sha256 (leaf_env ce ?selector))"
    using assms(1) by (simp add: check_env_ok_def leaf_env_def)
  have result: "leaf_postprocess_failure ce plan check reason process = record_leaf_postprocess_failure
      (leaf_env ce ?selector) (ep_run_id plan) check ?selector (ce_started ce ?selector) LeafStatus.Failed
      ErrorCategory.Artifact None reason process"
    by (simp add: leaf_postprocess_failure_def Let_def)
  note failed = record_failure_ok [OF digest check_context_valid(1) [OF assms(2)] leaf failure_statuses(1) result]
  show "direct_ok plan check (leaf_postprocess_failure ce plan check reason process)"
    using failed assms(4) by (auto simp: direct_ok_def settled_leaf_def result)
  show "px_status (leaf_postprocess_failure ce plan check reason process) \<noteq> ProcessStatus.Passed" by (rule failed(2))
qed

lemma execute_direct_ok:
  assumes "check_env_ok ce" and "names_ok plan check"
  shows "outcome_ok check (execute_direct ce plan check command cache_inputs consumed)"
proof -
  let ?request = "process_request ce plan check (check_selector (cp_name check)) (cp_name check) command
    (cp_completion check) False"
  define process where "process = run_leaf ce plan check (check_scope check) ?request"
  have rq: "rq_log_selector ?request = check_selector (cp_name check)" "rq_run_id ?request = ep_run_id plan"
    "rq_check_name ?request = cp_name check" by (simp_all add: process_request_def)
  have leaf: "leaf_ok (leaf_context (ep_run_id plan) check (check_selector (cp_name check))) process"
    using run_leaf_ok [OF assms(1), of plan check ?request] check_context_valid(1) [OF assms(2)] rq
    by (simp add: process_def)
  have settled: "settled_leaf process" and short: "length (px_diagnostics process) < MAX_DIAGNOSTIC_EVENTS"
    unfolding process_def by (rule run_leaf_settled [OF assms(1)])+
  obtain p1 retained where p1: "retain_artifacts ce plan check process = (p1, retained)" by fastforce
  have one: "direct_ok plan check p1"
    using p1 leaf settled short postprocess_direct_ok(1) [OF assms, of process]
    by (auto simp: retain_artifacts_def direct_ok_def split: if_splits sum.splits)
  obtain p2 artifacts where p2: "produced_artifacts ce plan check p1 = (p2, artifacts)" by fastforce
  have two: "direct_ok plan check p2"
  proof (cases "p2 = p1")
    case False
    then obtain reason where passed: "px_status p1 = ProcessStatus.Passed"
      and p2: "p2 = leaf_postprocess_failure ce plan check (Some reason)
        (p1\<lparr>px_status := ProcessStatus.Failed, px_reason := Some reason\<rparr>)"
      using p2 by (auto simp: produced_artifacts_def split: if_splits sum.splits)
    show ?thesis
      unfolding p2 using one passed
      by (intro postprocess_direct_ok(1) [OF assms])
        (auto simp: direct_ok_def leaf_ok_def settled_leaf_def MAX_DIAGNOSTIC_EVENTS_def)
  qed (simp add: one)
  have "execute_direct ce plan check command cache_inputs consumed =
      direct_outcome ce check p2 artifacts retained cache_inputs consumed"
    using p1 p2 by (simp add: execute_direct_def process_def Let_def)
  then show ?thesis
    using two leaf_verdict [of "leaf_context (ep_run_id plan) check (check_selector (cp_name check))" p2]
    by (simp add: outcome_ok_def direct_outcome_def direct_ok_def)
qed

section \<open>Checks\<close>

lemma execute_check_ok:
  assumes "check_env_ok ce" and "names_ok plan check"
  shows "outcome_ok check (execute_check ce plan check expected)"
proof -
  have body: "outcome_ok c (either (then_do (input_receipts ce plan c expected) (\<lambda>(cache_inputs, consumed).
       let cache_key = ce_reuse_key ce c cache_inputs consumed
       in Ok (case reused_outcome ce c cache_key cache_inputs consumed of
                Some outcome \<Rightarrow> outcome
              | None \<Rightarrow>
                  (case cp_command c of
                     Some command \<Rightarrow>
                       (execute_direct ce plan c command cache_inputs consumed)\<lparr>oc_cache_key := cache_key\<rparr>
                   | None \<Rightarrow> (execute_fanout ce plan c)\<lparr>oc_cache_inputs := cache_inputs,
                       oc_consumed_artifacts := consumed\<rparr>)))))"
    if c: "names_ok plan c" for c
  proof (cases "input_receipts ce plan c expected")
    case (Inl outcome)
    then show ?thesis
      using check_failure_outcome(1) [OF assms(1) c]
      by (auto simp: input_receipts_def split: sum.splits if_splits)
  next
    case (Inr receipts)
    have "outcome_ok c (outcome\<lparr>oc_cache_key := key\<rparr>) \<longleftrightarrow> outcome_ok c outcome"
      and "outcome_ok c (outcome\<lparr>oc_cache_inputs := a, oc_consumed_artifacts := b\<rparr>) \<longleftrightarrow> outcome_ok c outcome" for outcome key a b
      by (simp_all add: outcome_ok_def)
    moreover have "outcome_ok c outcome" if "reused_outcome ce c key a b = Some outcome" for outcome key a b
      using that by (auto simp: reused_outcome_def outcome_ok_def verdict_ok_def Let_def split: option.splits if_splits)
    ultimately show ?thesis
      using execute_direct_ok [OF assms(1) c] execute_fanout_ok [OF assms(1) c] Inr
      by (simp add: Let_def split: prod.split option.split)
  qed
  show ?thesis
  proof (cases "reserve_resources ce plan check")
    case (Inl outcome)
    then show ?thesis
      using check_failure_outcome(1,3) [OF assms]
      by (auto simp: execute_check_def reserve_resources_def split: if_splits ReservationResult.splits)
  next
    case (Inr u)
    show ?thesis
    proof (cases "database_environment ce plan check")
      case (Inl outcome)
      then show ?thesis
        using Inr check_failure_outcome(1) [OF assms]
        by (auto simp: execute_check_def database_environment_def split: option.splits sum.splits)
    next
      case environment: (Inr c)
      then have "names_ok plan c" and "cp_name c = cp_name check"
        using assms(2) by (auto simp: database_environment_def split: option.splits sum.splits)
      with body [of c] environment Inr show ?thesis by (simp add: execute_check_def outcome_ok_def)
    qed
  qed
qed

text \<open>
  C8: whatever the processes, the files and the reservation of resources do, the
  outcome of a check of an accepted plan is a verdict the run can use: its status is terminal,
  every failure it carries names the check and is accepted by the report contract, and it is a
  success exactly when it carries no failure: no failed check is silent and no passed one has a
  failure on record.
\<close>

theorem check_outcome_settled:
  assumes "ExecutionPlan_validate plan = Ok ()" and "check \<in> set (ep_checks plan)" and "check_env_ok ce"
  shows "LeafStatus_is_terminal (oc_status (execute_check ce plan check expected))
    \<and> (\<forall>e \<in> set (oc_failures (execute_check ce plan check expected)).
         FailureIndexEntry_validate e = Ok () \<and> fie_check e = Some (cp_name check))
    \<and> (LeafStatus_is_success (oc_status (execute_check ce plan check expected)) \<longleftrightarrow>
         oc_failures (execute_check ce plan check expected) = [])"
  using execute_check_ok [OF assms(3) valid_plan_names_ok [OF assms(1,2)], of expected]
  by (simp add: outcome_ok_def verdict_ok_def valid_failures_def list_all_iff)

text \<open>
  C10: a fan-out check passes only when every case it was asked to run passed.
  The cases are those of its declaration or of its discovery, sorted and restricted to the
  selection of the plan; the outcome counts all of them and lists their reports in that order,
  up to the bound of the report, in whatever order their tasks ended.
\<close>

theorem fanout_pass_all_cases:
  assumes "ExecutionPlan_validate plan = Ok ()" and "check \<in> set (ep_checks plan)" and "check_env_ok ce"
    and "oc_status (execute_fanout ce plan check) = LeafStatus.Passed"
  shows "\<exists>discovered streams cases.
      discover_cases ce plan check = Ok (discovered, streams) \<and> select_cases plan check discovered = Ok cases
    \<and> (\<forall>c \<in> set cases. cr_status (cso_report (run_case ce plan check c (unwrap_or_default (cp_case_command check))))
         = LeafStatus.Passed)
    \<and> oc_case_count (execute_fanout ce plan check) = saturating_of_nat (length cases)
    \<and> oc_cases (execute_fanout ce plan check) = take MAX_INLINE_CASES
        (map (\<lambda>c. cso_report (run_case ce plan check c (unwrap_or_default (cp_case_command check)))) cases)"
proof -
  let ?run = "\<lambda>c. run_case ce plan check c (unwrap_or_default (cp_case_command check))"
  note names = valid_plan_names_ok [OF assms(1,2)]
  have fail: "oc_status outcome \<noteq> LeafStatus.Passed" if "discover_cases ce plan check = Err outcome" for outcome
    using discover_cases_ok(1) [OF assms(3) names that] status_kinds by metis
  obtain discovered streams where found: "discover_cases ce plan check = Ok (discovered, streams)"
    using assms(4) fail by (cases "discover_cases ce plan check") (auto simp: execute_fanout_def)
  obtain cases where selected: "select_cases plan check discovered = Ok cases"
    using assms(4) found
    by (cases "select_cases plan check discovered") (auto simp: execute_fanout_def case_selection_failure_def)
  note cases = select_cases_ok [OF selected discover_cases_ok(2) [OF assms(3) names found]]
  let ?joins = "ce_joins ce cases"
  have fanout: "execute_fanout ce plan check =
      conclude_fanout ce plan check streams (join_failure ?joins) (case_outcomes ce plan check ?joins)"
    by (simp add: execute_fanout_def found selected Let_def)
  note passed = conclude_fanout_ok(2) [OF assms(3) names case_outcomes_verdicts [OF assms(3) names cases(3)]
      assms(4) [unfolded fanout]]
  have "\<forall>c \<in> set cases. cr_id (cso_report (?run c)) = cs_id c"
    using run_case_verdict [OF assms(3) names] cases(3) by (auto simp: case_verdict_def)
  then have order: "case_outcomes ce plan check ?joins = map ?run cases"
    using assms(3) passed cases(1,2) by (intro case_outcomes_order) (simp_all add: check_env_ok_def)
  have "oc_case_count (execute_fanout ce plan check) = saturating_of_nat (length cases)"
    and "oc_cases (execute_fanout ce plan check) = take MAX_INLINE_CASES (map (\<lambda>c. cso_report (?run c)) cases)"
    by (simp_all add: fanout order conclude_fanout_def Let_def o_def split: prod.split)
  with found selected passed order show ?thesis by auto
qed

text \<open>
  C9: a case with a fixture reports its fixture, its body and its cleanup, in this order.
  The cleanup is run whatever the fixture and the body did, and outside the reach of the run's
  cancellation; the case succeeds exactly when all three phases did, so that a failed cleanup
  never leaves a passed case; the body runs only after a fixture that passed.
\<close>

theorem fixture_case_phases:
  assumes "ExecutionPlan_validate plan = Ok ()" and "check \<in> set (ep_checks plan)" and "check_env_ok ce"
    and "validate_case_id (cs_id c) = Ok ()"
  shows "map cpr_phase (cr_phases (cso_report (run_case_with_fixture ce plan check c command program branch)))
      = [CheckPhase.Fixture, CheckPhase.Case, CheckPhase.Cleanup]
    \<and> cr_phases (cso_report (run_case_with_fixture ce plan check c command program branch)) ! 2
      = snd (native_case_phase ce plan check c program branch LogPhase.Cleanup NoCancellation)
    \<and> (LeafStatus_is_success (cr_status (cso_report (run_case_with_fixture ce plan check c command program branch))) \<longleftrightarrow>
      list_all (\<lambda>phase. LeafStatus_is_success (cpr_status phase))
        (cr_phases (cso_report (run_case_with_fixture ce plan check c command program branch))))
    \<and> (cpr_status (cr_phases (cso_report (run_case_with_fixture ce plan check c command program branch)) ! 0)
        \<noteq> LeafStatus.Passed \<longrightarrow>
      cpr_status (cr_phases (cso_report (run_case_with_fixture ce plan check c command program branch)) ! 1)
        = LeafStatus.Invalidated)"
proof -
  obtain fixture fixture_phase where
    fixture: "native_case_phase ce plan check c program branch LogPhase.Fixture (check_scope check) = (fixture, fixture_phase)"
    by fastforce
  obtain cleanup cleanup_phase where
    cleanup: "native_case_phase ce plan check c program branch LogPhase.Cleanup NoCancellation = (cleanup, cleanup_phase)"
    by fastforce
  obtain body ran_body where body: "fixture_case_body ce plan check c command fixture = (body, ran_body)" by fastforce
  have phases: "cpr_phase fixture_phase = CheckPhase.Fixture" "cpr_phase cleanup_phase = CheckPhase.Cleanup"
    using fixture cleanup by (auto simp: native_case_phase_def Let_def)
  have passed: "cpr_status fixture_phase = LeafStatus.Passed \<longleftrightarrow> px_status fixture = ProcessStatus.Passed"
    using fixture by (cases "px_status fixture") (auto simp: native_case_phase_def Let_def)
  have "ran_body \<longrightarrow> px_status fixture = ProcessStatus.Passed"
    using body by (auto simp: fixture_case_body_def split: if_splits)
  then show ?thesis
    using fixture_case_verdict(2) [OF assms(3) valid_plan_names_ok [OF assms(1,2)] assms(4) refl, of command program branch]
    by (simp add: run_case_with_fixture_def fixture cleanup body Let_def phases passed)
qed

section \<open>Samples\<close>

text \<open>Processes that end with code zero and two complete logs, in surroundings where nothing fails.\<close>

definition sample_stream :: "LeafSelector \<Rightarrow> LogStream \<Rightarrow> LogStreamSummary" where
  "sample_stream selector stream = stream_summary ''run-1'' selector stream
     \<lparr>sm_selector = selector, sm_stream = stream, sm_bytes = 0, sm_lines = 0, sm_first_write_epoch_ms = None,
      sm_last_write_epoch_ms = None, sm_complete = True, sm_sha256 = sample_digest\<rparr>"

definition passed_process :: "LeafSelector \<Rightarrow> ProcessResult" where
  "passed_process selector = sample_process\<lparr>px_streams := [sample_stream selector Stdout, sample_stream selector Stderr]\<rparr>"

definition sample_check_env :: CheckEnv where
  "sample_check_env =
     \<lparr>ce_env = sample_env, ce_root = ''/work'', ce_current = ''/work/current'', ce_log_dir = ''/work/logs'',
      ce_run_process = (\<lambda>request scope. passed_process (rq_log_selector request)),
      ce_reserve = (\<lambda>_. Reserved), ce_receipts_before = (\<lambda>_. Ok []), ce_receipts_after = (\<lambda>_. Ok []),
      ce_reuse_key = (\<lambda>_ _ _. None), ce_reuse_lookup = (\<lambda>_ _. None), ce_retain = (\<lambda>_ _. Ok []),
      ce_private_file = (\<lambda>_. Err (ExecutorError [])), ce_plain_file = (\<lambda>_. None), ce_write = (\<lambda>_ _ _. Ok ()),
      ce_decode_environment = (\<lambda>_. None), ce_decode_manifest = (\<lambda>_. None), ce_contract_message = (\<lambda>_. []),
      ce_encode_cases = (\<lambda>_ _. Ok []), ce_started = (\<lambda>_. 1), ce_finished = (\<lambda>_. 2), ce_elapsed = (\<lambda>_. 0),
      ce_case_elapsed = (\<lambda>_. 0), ce_joins = map (\<lambda>c. (c, None))\<rparr>"

lemma sample_check_env_ok: "check_env_ok sample_check_env"
  by (simp add: check_env_ok_def sample_check_env_def sample_env_def sample_digest_size leaf_ok_def exit_ok_def
      passed_process_def sample_process_def o_def)

definition sample_fanout :: CheckPlan where
  "sample_fanout = (sample_check ''unit'' Development CheckPhase.Check [])\<lparr>cp_command := None,
     cp_case_command := Some [''run''],
     cp_cases := Some [\<lparr>cs_id = ''b'', cs_args = [], cs_postgres = None\<rparr>,
       \<lparr>cs_id = ''a'', cs_args = [], cs_postgres = None\<rparr>]\<rparr>"

lemma sample_fanout_valid: "ExecutionPlan_validate (sample_plan [sample_fanout]) = Ok ()"
proof -
  have retained: "validate_retained_artifacts check [] = Ok ()" for check
    by (simp add: validate_retained_artifacts_def retained_overlap_def protocol_bounds)
  have "validate_check sample_fanout = Ok ()"
    by (simp add: sample_fanout_def sample_check_def validate_check_defs check_field_defs validate_cases_def
      validate_case_arguments_def validate_case_id_def if_some_def retained case_args_total_def)
  moreover have "cp_name sample_fanout = ''unit''" "cp_after sample_fanout = []" "cp_requires sample_fanout = []"
    "cp_invalidates sample_fanout = []" "cp_consumes sample_fanout = []" "cp_qualification_of sample_fanout = None"
    "cp_tier sample_fanout = Development" "cp_phase sample_fanout = CheckPhase.Check"
    "cp_cases sample_fanout = Some [\<lparr>cs_id = ''b'', cs_args = [], cs_postgres = None\<rparr>,
       \<lparr>cs_id = ''a'', cs_args = [], cs_postgres = None\<rparr>]"
    by (simp_all add: sample_fanout_def sample_check_def)
  ultimately show ?thesis
    by (simp add: ExecutionPlan_validate_def sample_plan_identity sample_plan_paths)
      (simp add: plan_evaluation)
qed

lemma passed_leaf:
  "px_status (run_leaf sample_check_env plan check scope request) = ProcessStatus.Passed \<and>
   px_diagnostics (run_leaf sample_check_env plan check scope request) = []"
  if "cp_diagnostic_sources check = []" "\<not> cp_expect_failure check"
  using that
  by (simp add: run_leaf_def sample_check_env_def leaf_env_def finalize_leaf_evidence_def passed_process_def
      sample_process_def sample_env_def sample_stream_def stream_summary_def supplement_stream_summaries_def
      supplement_stream_def require_streams_def streams_complete_def judge_leaf_def fail_on_diagnostics_def
      ensure_executor_failure_def LeafStatus_is_success_def normalize_leaf_def normalize_diagnostics_def
      publish_leaf_def Let_def)


text \<open>A check whose process lost its logs: it fails, and says so.\<close>

definition lost_check_env :: CheckEnv where
  "lost_check_env = sample_check_env\<lparr>ce_run_process := (\<lambda>request scope. sample_process)\<rparr>"

lemma lost_check_env_ok: "check_env_ok lost_check_env"
  using sample_check_env_ok by (simp add: check_env_ok_def lost_check_env_def leaf_ok_def exit_ok_def sample_process_def)

theorem check_outcome_settled_witness:
  "LeafStatus_is_terminal (oc_status (execute_check lost_check_env (sample_plan [build_check, test_check]) build_check (Ok [])))"
  using check_outcome_settled [OF sample_plan_valid _ lost_check_env_ok, of build_check "Ok []"]
  by (simp add: sample_plan_def)

lemma sample_fanout_passes:
  "oc_status (execute_fanout sample_check_env (sample_plan [sample_fanout]) sample_fanout) = LeafStatus.Passed"
proof -
  have plain: "cr_status (cso_report (run_case sample_check_env (sample_plan [sample_fanout]) sample_fanout c command))
      = LeafStatus.Passed" if "cs_postgres c = None" for c command
    using that passed_leaf [of sample_fanout]
    by (simp add: run_case_def sample_plan_def run_plain_case_def case_database_env_def case_private_env_def
        case_report_of_def Let_def sample_fanout_def sample_check_def)
  have fields: "cp_cases sample_fanout = Some [\<lparr>cs_id = ''b'', cs_args = [], cs_postgres = None\<rparr>,
       \<lparr>cs_id = ''a'', cs_args = [], cs_postgres = None\<rparr>]"
    "ep_case_selection (sample_plan [sample_fanout]) = []"
    by (simp_all add: sample_fanout_def sample_plan_def)
  define outcomes where "outcomes = case_outcomes sample_check_env (sample_plan [sample_fanout]) sample_fanout
      [(\<lparr>cs_id = ''a'', cs_args = [], cs_postgres = None\<rparr>, None), (\<lparr>cs_id = ''b'', cs_args = [], cs_postgres = None\<rparr>, None)]"
  have passed: "\<forall>report \<in> set (map cso_report outcomes). cr_status report = LeafStatus.Passed"
    by (auto simp: outcomes_def case_outcomes_def plain)
  have "execute_fanout sample_check_env (sample_plan [sample_fanout]) sample_fanout =
      conclude_fanout sample_check_env (sample_plan [sample_fanout]) sample_fanout [] None outcomes"
    by (simp add: execute_fanout_def discover_cases_def select_cases_def fields outcomes_def join_failure_def)
      (simp add: sample_check_env_def)
  moreover have "fanout_status None (map cso_report outcomes) = (LeafStatus.Passed, None)"
    using passed by (auto simp: fanout_status_def any_case_def list_ex_iff)
  ultimately show ?thesis
    by (simp add: conclude_fanout_def fanout_evidence_def fanout_artifacts_def write_case_evidence_def Let_def)
      (simp add: sample_check_env_def)
qed

theorem fanout_pass_all_cases_witness:
  "\<exists>discovered streams cases. discover_cases sample_check_env (sample_plan [sample_fanout]) sample_fanout = Ok (discovered, streams)
    \<and> select_cases (sample_plan [sample_fanout]) sample_fanout discovered = Ok cases"
  using fanout_pass_all_cases [OF sample_fanout_valid _ sample_check_env_ok sample_fanout_passes]
  by (auto simp: sample_plan_def)

theorem fixture_case_phases_witness:
  "map cpr_phase (cr_phases (cso_report (run_case_with_fixture sample_check_env (sample_plan [sample_fanout]) sample_fanout
      \<lparr>cs_id = ''a'', cs_args = [], cs_postgres = Some ''main''\<rparr> [''run''] ''/bin/fixture'' ''main'')))
    = [CheckPhase.Fixture, CheckPhase.Case, CheckPhase.Cleanup]"
  using fixture_case_phases [OF sample_fanout_valid _ sample_check_env_ok, of sample_fanout
      "\<lparr>cs_id = ''a'', cs_args = [], cs_postgres = Some ''main''\<rparr>" "[''run'']" "''/bin/fixture''" "''main''"]
  by (simp add: sample_plan_def validate_case_id_def check_field_defs)

end
