(* ===== verification/Report_Diagnostics.thy ===== *)
theory Report_Diagnostics
  imports Check_Runtime
begin

text \<open>
  The writer and the reader of a report's diagnostics together: \<^verbatim>\<open>write_report\<close> normalises the
  failures of the checks and counts the structured ones per check, and the report contract
  (\<^verbatim>\<open>ExecutionReport::validate\<close>) recomputes these counts from the failure index.  The lemmas show
  that the two agree.
\<close>

section \<open>Entries of the index come from failures\<close>

lemma normalized_entry_origin:
  assumes "normalize_diagnostics sha256 entries = Ok result" and "e \<in> set (nd_entries result)"
  shows "\<exists>x \<in> set entries. fie_check e = fie_check x \<and> fie_origin e = fie_origin x" and "0 < fie_occurrences e"
proof -
  note ok = normalize_ok [OF assms(1)]
  have valid: "FailureIndexEntry_validate (x\<lparr>fie_fingerprint := diagnostic_fingerprint sha256 x\<rparr>) = Ok ()"
    if "x \<in> set entries" for x
    using assms(1) that by (auto simp: normalize_diagnostics_def prepare_entries_ok split: if_splits)
  have "e \<in> set (map snd (groups_of sha256 entries))" using assms(2) unfolding ok(1) by (metis in_set_takeD set_sort)
  then obtain k where "(k, e) \<in> set (groups_of sha256 entries)" by auto
  note group = groups_of_group [OF this ok(5)]
  let ?members = "filter (\<lambda>x. diagnostic_fingerprint sha256 x = fie_fingerprint e) entries"
  obtain first where first: "first \<in> set ?members" "e = first\<lparr>fie_fingerprint := fie_fingerprint e,
      fie_occurrences := fie_occurrences e, fie_log_refs := fie_log_refs e\<rparr>"
    using group unfolding group_of_def Let_def by blast
  have "fie_check e = fie_check first" by (subst first(2)) simp
  moreover have "fie_origin e = fie_origin first" by (subst first(2)) simp
  ultimately show "\<exists>x \<in> set entries. fie_check e = fie_check x \<and> fie_origin e = fie_origin x" using first(1) by auto
  have "fie_occurrences first \<noteq> 0"
    using valid [of first] first(1) by (auto simp: FailureIndexEntry_validate_def steps_ok)
  then have "0 < unat (fie_occurrences first)" by (simp add: unat_gt_0)
  also have "\<dots> \<le> occurrences_of ?members"
    unfolding occurrences_of_def using first(1) by (intro member_le_sum_list) auto
  finally have "0 < unat (fie_occurrences e)" using group unfolding group_of_def Let_def by simp
  then show "0 < fie_occurrences e" by (simp add: word_less_nat_alt)
qed

section \<open>Counting per check\<close>

definition structured :: "FailureIndexEntry list \<Rightarrow> FailureIndexEntry list" where
  "structured entries = filter (\<lambda>f. fie_origin f \<noteq> DiagnosticOrigin.Executor) entries"

definition occurrences_for :: "string \<Rightarrow> FailureIndexEntry list \<Rightarrow> nat" where
  "occurrences_for check entries = occurrences_of (filter (\<lambda>f. fie_check f = Some check) (structured entries))"

definition counted :: "(string, u32) btree_map \<Rightarrow> string \<Rightarrow> u32" where
  "counted counts check = (case bt_get counts check of Some n \<Rightarrow> n | None \<Rightarrow> 0)"

lemma count_failure_ok: "bt_ok counts \<Longrightarrow> bt_ok (count_failure f counts)"
  by (simp add: count_failure_def split: option.splits)

lemma counted_count_failure:
  "bt_ok counts \<Longrightarrow> unat (counted (count_failure f counts) check) =
     (if fie_origin f \<noteq> DiagnosticOrigin.Executor \<and> fie_check f = Some check
      then min (unat (counted counts check) + unat (fie_occurrences f)) (2 ^ 32 - 1) else unat (counted counts check))"
  by (auto simp: count_failure_def counted_def bt_get_insert unat_saturating_add split: option.splits)

lemma counted_fold:
  "bt_ok counts \<Longrightarrow> unat (counted counts check) + occurrences_for check entries < 2 ^ 32 \<Longrightarrow>
     unat (counted (fold count_failure entries counts) check) = unat (counted counts check) + occurrences_for check entries"
proof (induction entries arbitrary: counts)
  case (Cons f entries)
  have step: "unat (counted (count_failure f counts) check) =
      (if fie_origin f \<noteq> DiagnosticOrigin.Executor \<and> fie_check f = Some check
       then unat (counted counts check) + unat (fie_occurrences f) else unat (counted counts check))"
    using counted_count_failure [OF Cons.prems(1), of f check] Cons.prems(2)
    by (auto simp: occurrences_for_def structured_def occurrences_of_def)
  show ?case
    using Cons.IH [OF count_failure_ok [OF Cons.prems(1), of f]] step Cons.prems(2)
    by (auto simp: occurrences_for_def structured_def occurrences_of_def)
qed (simp add: occurrences_for_def structured_def occurrences_of_def)

text \<open>Summed over distinct checks, the occurrences of the entries that name one of them.\<close>

lemma sum_over_checks:
  assumes "distinct names" and "\<forall>f \<in> set entries. fie_origin f \<noteq> DiagnosticOrigin.Executor \<longrightarrow>
      (\<exists>name \<in> set names. fie_check f = Some name)"
  shows "(\<Sum>name\<leftarrow>names. occurrences_for name entries) = occurrences_of (structured entries)"
  using assms(2)
proof (induction entries)
  case (Cons f entries)
  have one: "(\<Sum>name\<leftarrow>names. if fie_check f = Some name then n else 0) = (n :: nat)"
    if "name \<in> set names" and "fie_check f = Some name" for name n
    using that assms(1) by (auto simp: sum_list_distinct_conv_sum_set)
  have split: "occurrences_for name (f # entries) = occurrences_for name entries +
      (if fie_origin f \<noteq> DiagnosticOrigin.Executor \<and> fie_check f = Some name then unat (fie_occurrences f) else 0)" for name
    by (simp add: occurrences_for_def structured_def occurrences_of_def)
  show ?case
  proof (cases "fie_origin f = DiagnosticOrigin.Executor")
    case True
    with Cons show ?thesis by (simp add: split) (simp add: structured_def)
  next
    case False
    then obtain name where "name \<in> set names" "fie_check f = Some name" using Cons.prems by auto
    with False Cons one show ?thesis
      by (simp add: split sum_list_addf) (simp add: structured_def occurrences_of_def)
  qed
qed (simp add: occurrences_for_def structured_def occurrences_of_def)

lemma occurrences_for_le: "occurrences_for check entries \<le> occurrences_of (structured entries)"
  unfolding occurrences_for_def occurrences_of_def by (rule sum_list_filter_le_nat)

section \<open>A written report\<close>

lemma finish_check_report_fields:
  "kr_name (finish_check_report counts check) = kr_name (rt_report check)"
  "kr_failed_diagnostics (finish_check_report counts check) = counted counts (kr_name (rt_report check))"
  by (simp_all add: finish_check_report_def counted_def Let_def split: option.splits)

lemma write_report_index:
  assumes "write_report sha256 plan checks capacity started_at nanos status finished_at source_changed source_error = Ok report"
  obtains failures normalized where
    "normalize_diagnostics sha256 (take MAX_DIAGNOSTIC_EVENTS failures) = Ok normalized"
    and "failures = concat (map rt_failures checks) @
      (if source_changed then [source_failure sha256 (ep_run_id plan) source_error] else [])"
    and "er_failure_index report = nd_entries normalized"
    and "er_checks report = map (finish_check_report (fold count_failure (nd_entries normalized) [])) checks"
  using assms
  by (auto simp: write_report_def Let_def normalize_failures_def split: sum.splits if_splits)

lemma u32_sum: "(\<Sum>x\<leftarrow>xs. unat (f x)) < 2 ^ 32 \<Longrightarrow> unat (\<Sum>x\<leftarrow>xs. f x :: u32) = (\<Sum>x\<leftarrow>xs. unat (f x))"
proof (induction xs)
  case (Cons x xs)
  then have "unat (\<Sum>x\<leftarrow>xs. f x) = (\<Sum>x\<leftarrow>xs. unat (f x))" by simp
  with Cons.prems show ?case by (simp add: unat_add_bounded)
qed simp

text \<open>
  The diagnostics of a report the runner writes pass the report
  contract: when the checks have distinct names, the structured failures name checks of the run,
  a run handed over as passed has no failure recorded by the executor itself, and the counters
  do not overflow, then the sum of the per-check counts, the total of the report and the
  occurrences in its failure index agree, and no passed report has an entry in its index.
\<close>

theorem written_diagnostics_validate:
  assumes "write_report sha256 plan checks capacity started_at nanos status finished_at source_changed source_error = Ok report"
    and "distinct (map (\<lambda>check. kr_name (rt_report check)) checks)"
    and "\<forall>check \<in> set checks. \<forall>f \<in> set (rt_failures check). fie_origin f \<noteq> DiagnosticOrigin.Executor \<longrightarrow>
      fie_check f \<in> Some ` (\<lambda>check. kr_name (rt_report check)) ` set checks"
    and "status = RunStatus.Passed \<Longrightarrow> \<not> source_changed \<and>
      (\<forall>check \<in> set checks. \<forall>f \<in> set (rt_failures check). fie_origin f \<noteq> DiagnosticOrigin.Executor)"
    and "indexed_failed_diagnostics report < 2 ^ 32"
  shows "validate_report_diagnostics report = Ok ()"
proof -
  obtain failures normalized where
    norm: "normalize_diagnostics sha256 (take MAX_DIAGNOSTIC_EVENTS failures) = Ok normalized"
    and failures: "failures = concat (map rt_failures checks) @
      (if source_changed then [source_failure sha256 (ep_run_id plan) source_error] else [])"
    and index: "er_failure_index report = nd_entries normalized"
    and reports: "er_checks report = map (finish_check_report (fold count_failure (nd_entries normalized) [])) checks"
    by (rule write_report_index [OF assms(1)])
  let ?names = "map (\<lambda>check. kr_name (rt_report check)) checks" and ?entries = "nd_entries normalized"
  have origin: "\<exists>x \<in> set failures. fie_check e = fie_check x \<and> fie_origin e = fie_origin x"
    if "e \<in> set ?entries" for e
    using normalized_entry_origin(1) [OF norm that] in_set_takeD by metis
  have executor: "fie_origin (source_failure sha256 (ep_run_id plan) source_error) = DiagnosticOrigin.Executor"
    by (simp add: source_failure_def failure_entry_def Let_def)
  have known: "\<forall>f \<in> set ?entries. fie_origin f \<noteq> DiagnosticOrigin.Executor \<longrightarrow>
      (\<exists>name \<in> set ?names. fie_check f = Some name)"
    using origin executor assms(3) by (fastforce simp: failures split: if_splits)
  have indexed: "indexed_failed_diagnostics report = occurrences_of (structured ?entries)"
    by (simp add: indexed_failed_diagnostics_def index structured_def occurrences_of_def)
  have count: "unat (counted (fold count_failure ?entries []) name) = occurrences_for name ?entries" for name
    using counted_fold [of "[]" name ?entries] occurrences_for_le [of name ?entries] assms(5)
    by (simp add: counted_def indexed)
  have total: "calculated_failed_diagnostics report = indexed_failed_diagnostics report"
    using sum_over_checks [OF assms(2) known]
    by (simp add: calculated_failed_diagnostics_def reports finish_check_report_fields count indexed o_def)
  have sum: "unat (er_failed_diagnostics report) = calculated_failed_diagnostics report"
    using u32_sum [of kr_failed_diagnostics "er_checks report"] total assms(5)
    by (simp add: write_report_fields(3) [OF assms(1)] calculated_failed_diagnostics_def)
  have passed: "er_failed_diagnostics report = 0 \<and> er_failure_index report = []" if "er_status report = RunStatus.Passed"
  proof -
    have st: "status = RunStatus.Passed" and zero: "er_failed_diagnostics report = 0"
      using that write_report_fields(4) [OF assms(1)] by (auto simp: word_gt_0 split: if_splits)
    have "structured ?entries = ?entries"
      using origin assms(4) [OF st] by (fastforce simp: structured_def failures filter_id_conv)
    moreover have "occurrences_of (structured ?entries) = 0" using zero sum total indexed by simp
    ultimately have "\<forall>e \<in> set ?entries. fie_occurrences e = 0"
      by (auto simp: occurrences_of_def sum_list_eq_0_iff unat_eq_zero)
    then have "?entries = []" using normalized_entry_origin(2) [OF norm] by (metis hd_in_set less_irrefl)
    with zero index show ?thesis by simp
  qed
  show ?thesis unfolding validate_report_diagnostics_def using sum total passed by (auto simp: reject_if_def)
qed

theorem written_diagnostics_validate_witness:
  "\<exists>report. sample_write [sample_runtime] = Ok report \<and> validate_report_diagnostics report = Ok ()"
proof -
  obtain report where r: "sample_write [sample_runtime] = Ok report" using sample_write_ok by blast
  have failures: "rt_failures sample_runtime = []"
    by (simp add: sample_runtime_def set_status_def new_runtime_def Let_def)
  have "er_failure_index report = []"
    using r by (auto simp: sample_write_def write_report_def Let_def normalize_failures_def normalize_diagnostics_def
        failures)
  then show ?thesis
    using r written_diagnostics_validate [OF r [unfolded sample_write_def]]
    by (simp add: failures indexed_failed_diagnostics_def)
qed

end
