(* ===== verification/Run_Report.thy ===== *)
theory Run_Report
  imports Run_Properties Check_Verdict Report_Diagnostics
begin

text \<open>
  The run and its report together.  In a run whose checks end with the outcomes of
  \<^verbatim>\<open>execute_check\<close>, every check keeps an account of its failures that fits its status: a check
  that did not pass has a failure on record, any other has none, and each failure names its
  check and is valid.  So the report can be written at every point of the run, and the final
  report meets the diagnostics part of the report contract.
\<close>

section \<open>Steps with sound outcomes\<close>

definition service_context :: "string \<Rightarrow> string \<Rightarrow> DiagnosticContext" where
  "service_context run name = \<lparr>dc_run_id = run, dc_check = name, dc_case = None, dc_phase = LogPhase.Check\<rparr>"

definition service_exit_ok :: "string \<Rightarrow> string \<Rightarrow> ServiceExit \<Rightarrow> bool" where
  "service_exit_ok run name exit \<longleftrightarrow> exit_ok (se_exit_code exit) \<and>
     accepted (service_context run name) (se_diagnostics exit)"

text \<open>
  The steps of a run in which digests have 32 bytes, the outcomes are those of \<^verbatim>\<open>execute_check\<close>
  (\<open>outcome_ok\<close>), and the diagnostic events of services were checked against their leaf, as they
  are by the code that watches a service (\<open>service_exit_meets_contract\<close> of \<open>Process_Verdict\<close>).
\<close>

inductive sound_step :: "string \<Rightarrow> invalidators \<Rightarrow> RunState \<Rightarrow> RunState \<Rightarrow> bool"
  for run :: string and invalidators :: invalidators where
  pass: "digest_size (env_sha256 env) \<Longrightarrow> schedule_pass env run invalidators s = Waiting s' \<Longrightarrow>
     sound_step run invalidators s s'"
| finish: "digest_size (env_sha256 env) \<Longrightarrow> schedule_pass env run invalidators s = Finished s' \<Longrightarrow>
     sound_step run invalidators s s'"
| observe: "apply_process_update update (rs_checks s, capacity) = Ok (checks, capacity') \<Longrightarrow>
     sound_step run invalidators s (s\<lparr>rs_checks := checks\<rparr>)"
| outcome: "name \<in> set (rs_running s) \<Longrightarrow> \<forall>c \<in> set (rs_checks s). rt_name c = name \<longrightarrow> outcome_ok (rt_plan c) outcome \<Longrightarrow>
     LeafStatus_is_terminal (oc_status outcome) \<Longrightarrow> take_outcome clock now name outcome s = Ok s' \<Longrightarrow>
     sound_step run invalidators s s'"
| lost: "digest_size (env_sha256 env) \<Longrightarrow> service_exit_ok run name exit \<Longrightarrow> bt_contains (rs_services s) name \<Longrightarrow>
     lose_service env run name exit s = Ok s' \<Longrightarrow> sound_step run invalidators s s'"
| stop: "digest_size (env_sha256 env) \<Longrightarrow> \<forall>(name, exit) \<in> set exits. service_exit_ok run name exit \<Longrightarrow>
     services_done s \<Longrightarrow> set (map fst exits) = set (map fst (rs_services s)) \<Longrightarrow>
     stop_services env run exits s = Ok s' \<Longrightarrow> sound_step run invalidators s s'"
| cancel: "sound_step run invalidators s (s\<lparr>rs_cancelled := True\<rparr>)"
| notice: "rs_cancelled s \<Longrightarrow> rs_abort s = None \<Longrightarrow>
     sound_step run invalidators s (s\<lparr>rs_abort := Some Abort.Cancelled\<rparr>)"
| refresh: "sound_step run invalidators s (s\<lparr>rs_checks := map refresh_execution (rs_checks s)\<rparr>)"

lemma sound_run_step: "sound_step run invalidators s s' \<Longrightarrow> run_step run invalidators s s'"
  by (induction rule: sound_step.induct) (rule run_step.intros; assumption)+

section \<open>Checks keep an account of their failures\<close>

definition sound_check :: "CheckRuntime \<Rightarrow> bool" where
  "sound_check c \<longleftrightarrow> kr_name (rt_report c) = rt_name c \<and>
     validate_name ''log check'' (rt_name c) 64 = Ok () \<and> valid_failures (rt_name c) (rt_failures c) \<and>
     (did_not_pass (rt_status c) \<longleftrightarrow> rt_failures c \<noteq> [])"

abbreviation sound_checks :: "CheckRuntime list \<Rightarrow> bool" where
  "sound_checks checks \<equiv> \<forall>c \<in> set checks. sound_check c"

lemma finish_blocked_sound:
  assumes "digest_size (env_sha256 env)" and "sound_check c" and "did_not_pass status" and "is_failure_status status"
  shows "sound_check (finish_blocked env run status c)"
proof -
  have "\<exists>final reason category. is_failure_status final \<and> finish_blocked env run status c =
      c\<lparr>rt_report := (rt_report c)\<lparr>kr_status := final, kr_finished_at := Some (iso_at (env_epoch_ms env div 1000)),
          kr_duration_seconds := Some (Finite 0)\<rparr>,
        rt_failures := rt_failures c @
          [failure_entry (env_sha256 env) run (Some (rt_name c)) None final None reason category None]\<rparr>"
    unfolding finish_blocked_def Let_def case_prod_unfold
    by (intro exI conjI [rotated], rule refl) (simp add: assms(4))
  then obtain final reason category where
    c': "rt_failures (finish_blocked env run status c) = rt_failures c @
      [failure_entry (env_sha256 env) run (Some (rt_name c)) None final None reason category None]"
    "rt_status (finish_blocked env run status c) = final" "is_failure_status final"
    "kr_name (rt_report (finish_blocked env run status c)) = kr_name (rt_report c)"
    by (auto simp: rt_status_def)
  have "did_not_pass final" using c'(3) by (auto simp: did_not_pass_def is_failure_status_def LeafStatus_is_success_def LeafStatus_is_terminal_def)
  then show ?thesis
    using c' assms plain_failure_valid [OF assms(1) _ c'(3), of "rt_name c" None]
    by (simp add: sound_check_def failure_entry_check)
qed

lemma blocked_sound:
  assumes "digest_size (env_sha256 env)" and "mark_blocked_once env run invalidators checks = Some checks'"
    and "sound_checks checks"
  shows "sound_checks checks'"
proof
  fix c' assume "c' \<in> set checks'"
  then obtain c where c: "c \<in> set checks" "block_check env run invalidators (statuses_of checks) c = Some c'"
    using assms(2) unfolding mark_blocked_once_def traverse_Some list_all2_conv_all_nth
    by (force simp: in_set_conv_nth)
  have old: "sound_check c" using assms(3) c(1) by blast
  have "sound_check (finish_blocked env run LeafStatus.Invalidated c)"
    and "sound_check (finish_blocked env run LeafStatus.NotMeaningful c)"
    by (rule finish_blocked_sound [OF assms(1) old]; simp add: is_failure_status_def)+
  with block_check_cases [OF c(2)] old show "sound_check c'" by metis
qed

lemma mark_blocked_sound:
  "digest_size (env_sha256 env) \<Longrightarrow> mark_blocked env run invalidators checks = Some checks' \<Longrightarrow>
     sound_checks checks \<Longrightarrow> sound_checks checks'"
proof (induction env run invalidators checks rule: mark_blocked.induct)
  case (1 env run invalidators checks)
  from "1.prems"(2) obtain checks1 where
    once: "mark_blocked_once env run invalidators checks = Some checks1"
    and rest: "if pending_count checks1 = pending_count checks then checks' = checks1
               else mark_blocked env run invalidators checks1 = Some checks'"
    unfolding mark_blocked_Some [of env run invalidators checks] by blast
  note sound = blocked_sound [OF "1.prems"(1) once "1.prems"(3)]
  show ?case
    using "1.IH" [OF once _ "1.prems"(1) _ sound] rest sound by (auto split: if_splits)
qed

lemma cancelled_sound:
  assumes "digest_size (env_sha256 env)" and "sound_checks checks"
  shows "sound_checks (mark_pending_cancelled env run retain checks)"
  using assms(2) finish_blocked_sound [OF assms(1) _ did_not_pass_simps(3) failure_statuses(3)]
  by (auto simp: mark_pending_cancelled_def)

lemma launch_sound: "sound_check c \<Longrightarrow> rt_status c = LeafStatus.Pending \<Longrightarrow> sound_check (launch_check env c)"
  by (simp add: sound_check_def launch_check_def rt_status_def rt_name_def)

lemma pass_sound:
  assumes "schedule_pass env run invalidators s = Waiting s' \<or> schedule_pass env run invalidators s = Finished s'"
    and inv: "run_inv plans s" and digest: "digest_size (env_sha256 env)" and "sound_checks (rs_checks s)"
  shows "sound_checks (rs_checks s')"
proof -
  from schedule_pass_launched [OF assms(1) inv] obtain cs A where
    settled: "list_all2 settles (rs_checks s) cs"
    and A: "A \<subseteq> rt_name ` {c \<in> set cs. startable invalidators cs c}"
    and s': "rs_checks s' = map (launched env A) cs" and now: "blocked_now env run invalidators s cs" by blast
  have distinct: "distinct (map rt_name cs)" using run_inv_distinct [OF settled_inv [OF settled inv]] by simp
  obtain marked where marked: "mark_blocked env run invalidators (rs_checks s) = Some marked"
    and cs: "cs = cancel_now env run s marked" using now by (auto simp: blocked_now_def)
  have sound: "sound_checks cs"
    unfolding cs cancel_now_def using mark_blocked_sound [OF digest marked assms(4)] cancelled_sound [OF digest] by simp
  have "rt_status c = LeafStatus.Pending" if "c \<in> set cs" and "rt_name c \<in> A" for c
    using that A same_check [OF distinct that(1)] by (auto simp: startable_def)
  with sound show ?thesis by (auto simp: s' launched_def intro: launch_sound)
qed

lemma sound_update: "sound_checks checks \<Longrightarrow> sound_check c \<Longrightarrow> sound_checks (checks[i := c])"
  by (auto dest: set_update_subset_insert [THEN subsetD])

lemma observe_case_name: "kr_name (observe_case update report) = kr_name report"
  by (simp add: observe_case_def split: option.splits)

lemma observe_cases_name: "kr_name (fold observe_case ps report) = kr_name report"
  by (induction ps arbitrary: report) (simp_all add: observe_case_name)

lemma refresh_name: "kr_name (rt_report (refresh_execution c)) = kr_name (rt_report c)"
  by (simp add: refresh_execution_def refresh_report_def Let_def observe_cases_name split: option.splits)

lemma refresh_failures: "rt_failures (refresh_execution c) = rt_failures c"
  by (simp add: refresh_execution_def)

lemma refresh_sound:
  assumes "sound_check c"
  shows "sound_check (refresh_execution (c\<lparr>rt_processes := ps\<rparr>))"
proof -
  let ?c = "refresh_execution (c\<lparr>rt_processes := ps\<rparr>)"
  have "rt_status ?c = rt_status c" and "rt_plan ?c = rt_plan c"
    by (simp_all add: refresh_execution_def refresh_report_def rt_status_def Let_def observe_cases_status
        split: option.splits)
  then show ?thesis using assms by (simp add: sound_check_def refresh_name refresh_failures rt_name_def)
qed

lemma refresh_all_sound: "sound_checks checks \<Longrightarrow> sound_checks (map refresh_execution checks)"
proof -
  have "c\<lparr>rt_processes := rt_processes c\<rparr> = c" for c :: CheckRuntime
    by simp
  then show "sound_checks checks \<Longrightarrow> sound_checks (map refresh_execution checks)"
    using refresh_sound by (metis imageE list.set_map)
qed

lemma observe_sound:
  "apply_process_update update (checks, capacity) = Ok (checks', capacity') \<Longrightarrow> sound_checks checks \<Longrightarrow> sound_checks checks'"
proof -
  assume update: "apply_process_update update (checks, capacity) = Ok (checks', capacity')" and sound: "sound_checks checks"
  obtain i ps where i: "i < length checks" "checks' = checks[i := refresh_execution ((checks ! i)\<lparr>rt_processes := ps\<rparr>)]"
    using update by (auto simp: apply_process_update_def Let_def split: option.splits dest!: check_index_Ok)
  show "sound_checks checks'" unfolding i(2) by (rule sound_update [OF sound refresh_sound]) (use sound i(1) in simp)
qed

lemma outcome_sound:
  assumes "take_outcome clock now name outcome s = Ok s'" and "sound_checks (rs_checks s)"
    and "\<forall>c \<in> set (rs_checks s). rt_name c = name \<longrightarrow> outcome_ok (rt_plan c) outcome"
  shows "sound_checks (rs_checks s')"
proof -
  obtain i where index: "check_index (rs_checks s) name = Ok i" using assms(1) by (auto simp: take_outcome_def)
  note i = check_index_Ok [OF index]
  let ?c = "rs_checks s ! i"
  have c: "?c \<in> set (rs_checks s)" "rt_name ?c = name" using i by simp_all
  obtain r services where out: "apply_outcome clock now outcome (?c, rs_services s) = (r, services)" by fastforce
  have r: "rt_plan r = rt_plan ?c" "rt_status r = oc_status outcome" "rt_failures r = oc_failures outcome"
    "kr_name (rt_report r) = kr_name (rt_report ?c)"
    using out by (auto simp: apply_outcome_def Let_def rt_status_def)
  have "outcome_ok (rt_plan ?c) outcome" and old: "sound_check ?c" using assms(2,3) c by simp_all
  then have "verdict_ok (rt_name ?c) (oc_status outcome) (oc_failures outcome)"
    by (simp add: outcome_ok_def rt_name_def)
  then have "sound_check r"
    using old r by (auto simp: sound_check_def verdict_ok_def did_not_pass_def rt_name_def)
  then have "sound_checks ((rs_checks s)[i := r])" by (rule sound_update [OF assms(2)])
  moreover have "rs_checks s' = (rs_checks s)[i := r]"
    using assms(1) index out by (auto simp: take_outcome_def Let_def split: if_splits)
  ultimately show ?thesis by simp
qed

lemma service_context_valid:
  "validate_identity ''log run_id'' run 128 = Ok () \<Longrightarrow> validate_name ''log check'' name 64 = Ok () \<Longrightarrow>
     DiagnosticContext_validate (service_context run name) = Ok ()"
  by (simp add: service_context_def DiagnosticContext_validate_def DiagnosticContext_log_refs_def LogRef_validate_def
      check_log_ref_def or_error_ok)

lemma exit_runtime_sound:
  assumes "validate_identity ''log run_id'' run 128 = Ok ()" and "digest_size (env_sha256 env)"
    and "sound_check c" and "LeafStatus_is_terminal (rt_status c)" and "service_exit_ok run (rt_name c) exit"
  shows "sound_check (exit_runtime env run cleanup exit c)"
proof -
  let ?selector = "check_selector (rt_name c)" and ?raw = "exit_process cleanup exit"
  define started where "started = (case rt_started_epoch_ms c of Some t \<Rightarrow> t | None \<Rightarrow> env_epoch_ms env)"
  define p where "p = finalize_leaf_evidence env run (rt_plan c) ?selector started ?raw"
  have ctx: "leaf_context run (rt_plan c) ?selector = service_context run (rt_name c)"
    by (simp add: leaf_context_def service_context_def check_selector_def rt_name_def)
  have valid: "DiagnosticContext_validate (leaf_context run (rt_plan c) ?selector) = Ok ()"
    using service_context_valid [OF assms(1)] assms(3) by (simp add: ctx sound_check_def)
  have raw: "px_service ?raw = None" "clean_leaf ?raw" "leaf_ok (leaf_context run (rt_plan c) ?selector) ?raw"
    "\<not> cleanup \<Longrightarrow> px_status ?raw = ProcessStatus.Unsafe"
    using assms(5) unfolding ctx by (auto simp: exit_process_def clean_leaf_def leaf_ok_def service_exit_ok_def)
  have settled: "settled_leaf p" unfolding p_def by (rule finalize_settled [OF raw(1)])
  have clean: "clean_leaf p" "\<not> cleanup \<Longrightarrow> px_status p = ProcessStatus.Unsafe"
    unfolding p_def using finalize_clean [OF raw(1,2)] raw(4) by blast+
  have "leaf_ok (leaf_context run (rt_plan c) ?selector) p"
    unfolding p_def by (rule finalize_ok [OF assms(2) valid raw(3)])
  then have failures: "valid_failures (rt_name c) (px_diagnostics p)"
    using accepted_valid [of "leaf_context run (rt_plan c) ?selector"] by (simp add: leaf_ok_def rt_name_def)
  define final where "final = (if \<not> cleanup \<or> px_log_storage_failed p \<or> px_structured_evidence_invalid p
      then LeafStatus.Unsafe
      else if px_status p \<noteq> ProcessStatus.Passed then leaf_status_of (px_status p) else rt_status c)"
  have final: "did_not_pass final \<longleftrightarrow> rt_failures c @ px_diagnostics p \<noteq> []"
  proof (cases "px_status p = ProcessStatus.Passed")
    case True
    with clean settled have "final = rt_status c" "px_diagnostics p = []"
      by (auto simp: final_def clean_leaf_def settled_leaf_def)
    with assms(3) show ?thesis by (simp add: sound_check_def)
  next
    case False
    then have "did_not_pass (leaf_status_of (px_status p))"
      by (simp add: did_not_pass_def leaf_status_terminal leaf_status_success)
    with False settled show ?thesis
      by (auto simp: final_def settled_leaf_def did_not_pass_def)
  qed
  have "exit_runtime env run cleanup exit c = c\<lparr>rt_report := (rt_report c)\<lparr>kr_exit := diagnostic_exit (px_exit_code p),
      kr_streams := px_streams p, kr_status := final\<rparr>, rt_failures := rt_failures c @ px_diagnostics p\<rparr>"
    by (simp add: exit_runtime_def Let_def final_def flip: started_def p_def)
  then show ?thesis
    using assms(3) failures final by (simp add: sound_check_def rt_status_def rt_name_def)
qed

lemma service_exit_sound:
  assumes "mark_service_exit env run cleanup name exit checks = Ok checks'" and "sound_checks checks"
    and "distinct (map rt_name checks)" and "name_status checks LeafStatus_is_terminal name"
    and "validate_identity ''log run_id'' run 128 = Ok ()" and "digest_size (env_sha256 env)"
    and "service_exit_ok run name exit"
  shows "sound_checks checks'"
proof -
  obtain i where i: "check_index checks name = Ok i"
    "checks' = checks[i := exit_runtime env run cleanup exit (checks ! i)]"
    using assms(1) by (auto simp: mark_service_exit_def)
  note i' = check_index_Ok [OF i(1)]
  from assms(4) obtain c where "c \<in> set checks" "rt_name c = name" "LeafStatus_is_terminal (rt_status c)"
    by (auto simp: name_status_def)
  with i' have "LeafStatus_is_terminal (rt_status (checks ! i))"
    using same_check [OF assms(3), of c "checks ! i"] by simp
  with i' assms have "sound_check (exit_runtime env run cleanup exit (checks ! i))"
    by (intro exit_runtime_sound) auto
  then show ?thesis unfolding i(2) by (rule sound_update [OF assms(2)])
qed

lemma stop_services_sound:
  "stop_services env run exits s = Ok s' \<Longrightarrow> run_inv plans s \<Longrightarrow>
     \<forall>name \<in> set (map fst exits). name_status (rs_checks s) LeafStatus_is_terminal name \<Longrightarrow>
     \<forall>(name, exit) \<in> set exits. service_exit_ok run name exit \<Longrightarrow>
     validate_identity ''log run_id'' run 128 = Ok () \<Longrightarrow> digest_size (env_sha256 env) \<Longrightarrow>
     sound_checks (rs_checks s) \<Longrightarrow> sound_checks (rs_checks s')"
proof (induction env run exits s rule: stop_services.induct)
  case (1 env run s)
  then show ?case by simp
next
  case (2 env run name exit exits s)
  then obtain checks where mark: "mark_service_exit env run True name exit (rs_checks s) = Ok checks"
    and rest: "stop_services env run exits
        (s\<lparr>rs_checks := checks, rs_services := bt_remove name (rs_services s)\<rparr>) = Ok s'" by auto
  have terminal: "name_status (rs_checks s) LeafStatus_is_terminal name" using "2.prems"(3) by simp
  note exit = service_exit_inv [OF mark "2.prems"(2) terminal]
  have "sound_checks checks"
    using service_exit_sound [OF mark "2.prems"(7) run_inv_distinct [OF "2.prems"(2)] terminal "2.prems"(5,6)] "2.prems"(4)
    by simp
  with "2.IH" [OF mark rest exit(1)] "2.prems"(3-6) settled_name_status [OF exit(2)] show ?case by simp
qed

lemma sound_step_kept:
  assumes "sound_step run invalidators s s'" and inv: "run_inv plans s" and sound: "sound_checks (rs_checks s)"
    and run: "validate_identity ''log run_id'' run 128 = Ok ()"
  shows "sound_checks (rs_checks s')"
  using assms(1)
proof (cases rule: sound_step.cases)
  case (pass env)
  then show ?thesis using pass_sound [OF disjI1 inv _ sound] by blast
next
  case (finish env)
  then show ?thesis using pass_sound [OF disjI2 inv _ sound] by blast
next
  case (observe update capacity checks capacity')
  then show ?thesis using observe_sound [OF _ sound] by simp
next
  case refresh
  then show ?thesis using refresh_all_sound [OF sound] by simp
next
  case (outcome name outcome clock now)
  then show ?thesis by (intro outcome_sound [OF _ sound])
next
  case (lost env name exit)
  then obtain checks where mark: "mark_service_exit env run False name exit (rs_checks s) = Ok checks"
    and s': "rs_checks s' = checks"
    by (auto simp: lose_service_def Let_def split: if_splits)
  have "name_status (rs_checks s) LeafStatus_is_terminal name"
    using service_terminal [OF inv] lost by (auto simp: bt_contains_def bt_get_None)
  then show ?thesis
    unfolding s' using service_exit_sound [OF mark sound run_inv_distinct [OF inv] _ run] lost by blast
next
  case (stop env exits)
  have "\<forall>name \<in> set (map fst exits). name_status (rs_checks s) LeafStatus_is_terminal name"
    using service_terminal [OF inv] stop(4) by simp
  then show ?thesis using stop_services_sound [OF stop(5) inv _ stop(2) run stop(1) sound] by blast
qed (use sound in simp_all)

section \<open>Checks at the start of a run\<close>

lemma new_runtime_sound:
  assumes "validate_name ''log check'' (cp_name check) 64 = Ok ()"
  shows "sound_check (new_runtime check reused qualification started_at inputs now)"
  using assms
  by (simp add: sound_check_def new_runtime_def Let_def rt_status_def rt_name_def did_not_pass_def
      LeafStatus_is_terminal_def)

lemma publish_reused_sound:
  assumes "sound_check c" and "digest_size (env_sha256 env)" and "validate_identity ''log run_id'' run 128 = Ok ()"
  shows "sound_check (publish_reused_check env run started c)"
proof -
  let ?entry = "failure_entry (env_sha256 env) run (Some (rt_name c)) None LeafStatus.Unsafe None (Some UnsafeStop)
    ErrorCategory.LogStorage (Some LogPhase.Check)"
  have name: "validate_name ''log check'' (rt_name c) 64 = Ok ()" using assms(1) by (simp add: sound_check_def)
  have "leaf_entry (service_context run (rt_name c)) ?entry"
    using failure_is_new_entry [of "env_sha256 env" "service_context run (rt_name c)"]
      new_leaf_entry [OF assms(2) service_context_valid [OF assms(3) name], of LeafStatus.Unsafe "diagnostic_exit None"]
      diagnostic_exit_valid [of None]
    by (simp add: service_context_def if_some_def exit_ok_def)
  then have "FailureIndexEntry_validate ?entry = Ok ()" "fie_check ?entry = Some (rt_name c)"
    by (simp_all add: leaf_entry_def service_context_def)
  then show ?thesis
    using assms(1) by (auto simp: publish_reused_check_def set_status_def sound_check_def rt_status_def rt_name_def
        did_not_pass_def LeafStatus_is_success_def LeafStatus_is_terminal_def)
qed

lemma start_checks_sound:
  assumes "ExecutionPlan_validate plan = Ok ()" and "digest_size (env_sha256 env)"
    and "start_checks env resolve receipts_match artifact_receipts plan base started_at now started = Ok checks"
  shows "sound_checks checks"
proof -
  have names: "names_ok plan c" if "c \<in> set (active_checks plan)" for c
    using valid_plan_names_ok [OF assms(1)] that by (simp add: active_checks_def)
  have loop: "initialize_loop resolve receipts_match artifact_receipts plan base started_at now plans = Ok cs \<Longrightarrow>
      \<forall>c \<in> set plans. validate_name ''log check'' (cp_name c) 64 = Ok () \<Longrightarrow> sound_checks cs" for plans cs
    by (induction plans arbitrary: cs) (auto split: if_splits option.splits intro: new_runtime_sound)
  obtain cs where cs: "initialize_loop resolve receipts_match artifact_receipts plan base started_at now (active_checks plan) = Ok cs"
    and checks: "checks = publish_reused_leaf_metadata env (ep_run_id plan) started cs"
    using assms(3) by (auto simp: start_checks_def initialize_checks_def)
  have "sound_checks cs" using loop [OF cs] names by (simp add: names_ok_def)
  moreover have "validate_identity ''log run_id'' (ep_run_id plan) 128 = Ok ()" if "c \<in> set cs" for c
  proof -
    have "active_checks plan \<noteq> []" using initialize_loop_ok [OF cs] that by (auto simp: plans_of_def)
    then show ?thesis using names [of "hd (active_checks plan)"] by (simp add: names_ok_def)
  qed
  ultimately show ?thesis
    using publish_reused_sound [OF _ assms(2)] by (simp add: checks publish_reused_leaf_metadata_def)
qed

text \<open>Every state of a run of an accepted plan: the invariants of the run, and sound checks.\<close>

lemma sound_run:
  assumes "ExecutionPlan_validate plan = Ok ()" and "digest_size (env_sha256 env0)"
    and "start_checks env0 resolve receipts_match artifact_receipts plan base started_at now started = Ok checks"
    and "(sound_step (ep_run_id plan) invalidators)\<^sup>*\<^sup>* (initial_run checks) s"
  shows "run_inv (active_checks plan) s \<and> sound_checks (rs_checks s)"
proof -
  have "validate_plan_identity plan = Ok ()" using assms(1) by (rule validate_plan_parts)
  then have "validate_identity ''run_id'' (ep_run_id plan) 128 = Ok ()" by (simp add: validate_plan_identity_def)
  then have run: "validate_identity ''log run_id'' (ep_run_id plan) 128 = Ok ()" by (rule validate_identity_kind)
  from assms(4) show ?thesis
  proof (induction rule: rtranclp_induct)
    case base
    then show ?case
      using accepted_run [OF assms(1,3) rtranclp.rtrancl_refl] start_checks_sound [OF assms(1-3)]
      by (simp add: initial_run_def)
  next
    case (step s s')
    then show ?case using run.step_inv [OF _ sound_run_step] sound_step_kept [OF _ _ _ run] by blast
  qed
qed

section \<open>The report of a run\<close>




text \<open>
  C28: the report a run of an accepted plan ends with meets the diagnostics part of the
  report contract, provided its counters do not overflow; it says passed exactly when the source did not change,
  nothing aborted the run and every check succeeded; and it lists a failure whenever a check did
  not pass or the source changed.
\<close>

theorem final_report_accepted:
  assumes "ExecutionPlan_validate plan = Ok ()" and "digest_size (env_sha256 env0)" and "digest_size sha256"
    and "start_checks env0 resolve receipts_match artifact_receipts plan base started_at now started = Ok checks"
    and "(sound_step (ep_run_id plan) invalidators)\<^sup>*\<^sup>* (initial_run checks) s"
    and report: "write_report sha256 plan (rs_checks s) capacity begun nanos (final_status source_changed s) finished
      source_changed source_error = Ok report"
    and "indexed_failed_diagnostics report < 2 ^ 32"
  shows "validate_report_diagnostics report = Ok ()
    \<and> (er_status report = RunStatus.Passed \<longleftrightarrow> \<not> source_changed \<and> rs_abort s = None \<and>
        (\<forall>c \<in> set (rs_checks s). LeafStatus_is_success (rt_status c)))
    \<and> (source_changed \<or> (\<exists>c \<in> set (rs_checks s). did_not_pass (rt_status c)) \<longrightarrow> er_failure_index report \<noteq> [])"
proof -
  have inv: "run_inv (active_checks plan) s" and sound: "sound_checks (rs_checks s)"
    using sound_run [OF assms(1,2,4,5)] by simp_all
  have silent: "rt_failures c = []" if "c \<in> set (rs_checks s)" and "LeafStatus_is_success (rt_status c)" for c
    using sound that by (auto simp: sound_check_def did_not_pass_def)
  have names: "map (\<lambda>check. kr_name (rt_report check)) (rs_checks s) = map rt_name (rs_checks s)"
    using sound by (simp add: sound_check_def)
  have passed: "final_status source_changed s = RunStatus.Passed \<longleftrightarrow> \<not> source_changed \<and> rs_abort s = None \<and>
      (\<forall>c \<in> set (rs_checks s). LeafStatus_is_success (rt_status c))"
    using silent by (force simp: final_status_def list_ex_iff)
  obtain failures normalized where
    norm: "normalize_diagnostics sha256 (take MAX_DIAGNOSTIC_EVENTS failures) = Ok normalized"
    and failures: "failures = concat (map rt_failures (rs_checks s)) @
      (if source_changed then [source_failure sha256 (ep_run_id plan) source_error] else [])"
    and index: "er_failure_index report = nd_entries normalized"
    and reports: "er_checks report = map (finish_check_report (fold count_failure (nd_entries normalized) [])) (rs_checks s)"
    by (rule write_report_index [OF report])
  have known: "fie_check f \<in> Some ` (\<lambda>check. kr_name (rt_report check)) ` set (rs_checks s)"
    if "c \<in> set (rs_checks s)" and "f \<in> set (rt_failures c)" for c f
    using sound that by (force simp: sound_check_def valid_failures_def list_all_iff)
  have "distinct (map (\<lambda>check. kr_name (rt_report check)) (rs_checks s))"
    unfolding names by (rule run_inv_distinct [OF inv])
  then have "validate_report_diagnostics report = Ok ()"
  proof (rule written_diagnostics_validate [OF report _ _ _ assms(7)])
    show "\<not> source_changed \<and> (\<forall>check \<in> set (rs_checks s). \<forall>f \<in> set (rt_failures check). fie_origin f \<noteq> DiagnosticOrigin.Executor)"
      if "final_status source_changed s = RunStatus.Passed"
      using that passed silent by auto
  qed (use known in blast)
  moreover have "er_status report = RunStatus.Passed \<longleftrightarrow> final_status source_changed s = RunStatus.Passed"
  proof
    assume ok: "final_status source_changed s = RunStatus.Passed"
    then have "failures = []" using passed silent by (simp add: failures)
    then have "nd_entries normalized = []" using normalize_empty_iff [OF norm] by simp
    then have "er_failed_diagnostics report = 0"
      by (simp add: write_report_fields(3) [OF report] reports finish_check_report_fields counted_def o_def sum_list_triv)
    with ok show "er_status report = RunStatus.Passed" using write_report_fields(4) [OF report] by simp
  qed (use write_report_fields(4) [OF report] in \<open>auto split: if_splits\<close>)
  moreover have "er_failure_index report \<noteq> []" if "source_changed \<or> (\<exists>c \<in> set (rs_checks s). did_not_pass (rt_status c))"
  proof -
    have "failures \<noteq> []" using that sound by (auto simp: failures sound_check_def)
    then have "take MAX_DIAGNOSTIC_EVENTS failures \<noteq> []" by (simp add: MAX_DIAGNOSTIC_EVENTS_def)
    then show ?thesis using normalize_empty_iff [OF norm] by (simp add: index)
  qed
  ultimately show ?thesis using passed by blast
qed

section \<open>Samples\<close>

text \<open>A run whose first check was built and passed.\<close>

lemma sample_env_digest: "digest_size (env_sha256 sample_env)"
  by (simp add: sample_env_def sample_digest_size)

lemma sample_sound_run:
  "(sound_step run (invalidator_map sample_checks))\<^sup>*\<^sup>* (initial_run sample_checks) sample_built"
proof -
  have "sound_step run (invalidator_map sample_checks) (initial_run sample_checks) sample_launched"
    by (rule sound_step.pass [OF sample_env_digest sample_pass])
  moreover have "sound_step run (invalidator_map sample_checks) sample_launched sample_built"
    by (rule sound_step.outcome [OF _ _ _ sample_built_outcome])
      (simp_all add: sample_launched_def sample_outcome_def outcome_ok_def verdict_ok_def)
  ultimately show ?thesis by (blast intro: rtranclp.rtrancl_into_rtrancl r_into_rtranclp)
qed

lemma sample_started: "start_checks sample_env (\<lambda>cwd. Ok [RootDir]) (\<lambda>_. Ok True) (\<lambda>_. Ok [])
    (sample_plan [build_check, test_check]) [RootDir] ''start'' 1 1 = Ok sample_checks"
  using sample_initialized(1) by (simp add: sample_initialize_def)

definition sample_final :: "bool \<Rightarrow> (ExecutorError, ExecutionReport) result" where
  "sample_final source_changed =
     write_report (\<lambda>_. replicate 32 (CHR ''x'')) (sample_plan [build_check, test_check]) (rs_checks sample_built)
       \<lparr>cap_learned_capacity = None, cap_effective_capacity = None, cap_capacity_wait_count = 0\<rparr>
       ''start'' 0 (final_status source_changed sample_built) (Some ''end'') source_changed False"


lemma sample_built_failures: "rt_failures c = []" if "c \<in> set (rs_checks sample_built)"
  using that by (auto simp: sample_built_def built_check_def apply_outcome_def sample_outcome_def new_runtime_def Let_def)

lemma sample_final_index: "\<exists>report. sample_final False = Ok report \<and> er_failure_index report = []"
proof -
  have none: "concat (map rt_failures (rs_checks sample_built)) = []" using sample_built_failures by simp
  have "\<exists>result. normalize_diagnostics sha256 [] = Ok result \<and> nd_entries result = []" for sha256
    by (simp add: normalize_diagnostics_def)
  then obtain result where "normalize_diagnostics (\<lambda>_. replicate 32 (CHR ''x'')) [] = Ok result" "nd_entries result = []"
    by blast
  then show ?thesis
    unfolding sample_final_def write_report_def Let_def none normalize_failures_def by simp
qed

theorem final_report_accepted_witness:
  "\<exists>report. sample_final False = Ok report \<and> validate_report_diagnostics report = Ok () \<and> er_status report \<noteq> RunStatus.Passed"
proof -
  obtain report where r: "sample_final False = Ok report" "er_failure_index report = []" using sample_final_index by blast
  have "\<not> (\<forall>c \<in> set (rs_checks sample_built). LeafStatus_is_success (rt_status c))"
    by (simp add: sample_built_def new_runtime_def rt_status_def Let_def LeafStatus_is_success_def)
  with r final_report_accepted [OF sample_plan_valid sample_env_digest sample_digest_size sample_started sample_sound_run
      r(1) [unfolded sample_final_def]]
  show ?thesis by (simp add: indexed_failed_diagnostics_def)
qed

end
