(* ===== verification/Log_Writer.thy ===== *)
theory Log_Writer
  imports Leaf_Evidence
begin

text \<open>
  The writer of a log stream (\<^verbatim>\<open>CompleteLogWriter\<close> in
  \<^verbatim>\<open>src/rust/executor-core/src/log_store.rs\<close>): it stores every byte it is given, however the
  operating system splits the writes, and keeps beside the stream a digest, the number of lines
  and a sparse index of the positions of lines 1, 257, 513 and so on.  The lemmas show that after
  any sequence of writes these agree with a declarative reading of the stored file.  The files
  are the strings \<open>lw_file\<close> and \<open>lw_index\<close>; what the operating system answers is a parameter, a
  function of what the files hold so far, which leaves every sequence of answers possible.
\<close>

section \<open>Errors\<close>

datatype IncompleteOperation = StreamWrite | IndexWrite | StreamSync | IndexSync | MetadataPublish

fun IncompleteOperation_as_str :: "IncompleteOperation \<Rightarrow> string" where
  "IncompleteOperation_as_str StreamWrite = ''stream_write''"
| "IncompleteOperation_as_str IndexWrite = ''index_write''"
| "IncompleteOperation_as_str StreamSync = ''stream_sync''"
| "IncompleteOperation_as_str IndexSync = ''index_sync''"
| "IncompleteOperation_as_str MetadataPublish = ''metadata_publish''"

text \<open>An \<^verbatim>\<open>io::Error\<close> is the text it displays.\<close>

datatype LogStoreError =
    InvalidRunId
  | InvalidComponent string
  | InvalidSelector string
  | InvalidMetadata string
  | LeaseContended
  | Io string string
  | StorageIncomplete IncompleteOperation string

fun LogStoreError_code :: "LogStoreError \<Rightarrow> string" where
  "LogStoreError_code InvalidRunId = ''args_invalid''"
| "LogStoreError_code (InvalidComponent _) = ''args_invalid''"
| "LogStoreError_code (InvalidSelector _) = ''args_invalid''"
| "LogStoreError_code (InvalidMetadata _) = ''args_invalid''"
| "LogStoreError_code LeaseContended = ''test_log_run_active''"
| "LogStoreError_code (Io _ _) = ''test_log_unavailable''"
| "LogStoreError_code (StorageIncomplete _ _) = ''test_log_storage_incomplete''"

fun is_storage_incomplete :: "LogStoreError \<Rightarrow> bool" where
  "is_storage_incomplete (StorageIncomplete _ _) = True"
| "is_storage_incomplete _ = False"

fun LogStoreError_display :: "LogStoreError \<Rightarrow> string" where
  "LogStoreError_display InvalidRunId = ''invalid governed-test run identifier''"
| "LogStoreError_display (InvalidComponent part) = ''invalid governed-test '' @ part @ '' component''"
| "LogStoreError_display (InvalidSelector reason) = ''invalid log selector: '' @ reason"
| "LogStoreError_display (InvalidMetadata reason) = ''invalid log metadata: '' @ reason"
| "LogStoreError_display LeaseContended = ''governed-test run is already active''"
| "LogStoreError_display (Io operation source) = operation @ '' failed: '' @ source"
| "LogStoreError_display (StorageIncomplete operation source) =
     ''log storage became incomplete during '' @ IncompleteOperation_as_str operation @ '': '' @ source"

section \<open>The writer\<close>

definition LINE_INDEX_STRIDE :: u64 where
  "LINE_INDEX_STRIDE = 256"

text \<open>
  The two files, the bytes fed to the digest, and the metadata last published beside the stream.
\<close>

record CompleteLogWriter =
  lw_selector :: LeafSelector
  lw_stream :: LogStream
  lw_file :: string
  lw_index :: string
  lw_hashed :: string
  lw_bytes :: u64
  lw_lf_lines :: u64
  lw_at_line_start :: bool
  lw_first_write_epoch_ms :: "u64 option"
  lw_last_write_epoch_ms :: "u64 option"
  lw_poisoned :: bool
  lw_sealed :: bool
  lw_published :: "StreamMetadata option"

text \<open>
  The operating system: \<open>lo_write\<close> answers a write of a payload to the stream (the number of
  bytes stored or an error), \<open>lo_write_index\<close> a write of records to the index (on an error, how
  many bytes were stored before it), \<open>lo_publish\<close> whether a step of the replacement of the metadata
  file fails.
\<close>

datatype AtomicStep = CreateTemporary | WriteTemporary | SyncTemporary | RenameTemporary | SyncDirectory

record LogOs =
  lo_sha256 :: "string \<Rightarrow> string"
  lo_epoch_ms :: "string \<Rightarrow> u64"
  lo_write :: "string \<Rightarrow> string \<Rightarrow> (string, nat) result"
  lo_write_index :: "string \<Rightarrow> string \<Rightarrow> (string \<times> nat) option"
  lo_sync_stream :: "string \<Rightarrow> string option"
  lo_sync_index :: "string \<Rightarrow> string option"
  lo_publish :: "StreamMetadata \<Rightarrow> AtomicStep \<Rightarrow> string option"

text \<open>
  Replacing a file by way of a temporary one: whether the new contents are in place, and the error
  of the first step that failed.  Only the last step fails after the replacement.
\<close>

fun atomic_steps :: "(AtomicStep \<Rightarrow> string option) \<Rightarrow> AtomicStep list \<Rightarrow> bool \<times> string option" where
  "atomic_steps failing [] = (True, None)"
| "atomic_steps failing (s # ss) =
     (case failing s of
        Some source \<Rightarrow> (s = SyncDirectory, Some source)
      | None \<Rightarrow> atomic_steps failing ss)"

definition atomic_write_relative :: "(AtomicStep \<Rightarrow> string option) \<Rightarrow> bool \<times> string option" where
  "atomic_write_relative failing =
     atomic_steps failing [CreateTemporary, WriteTemporary, SyncTemporary, RenameTemporary, SyncDirectory]"

definition new_writer :: "LeafSelector \<Rightarrow> LogStream \<Rightarrow> CompleteLogWriter" where
  "new_writer selector stream =
     \<lparr>lw_selector = selector, lw_stream = stream, lw_file = [], lw_index = [], lw_hashed = [],
      lw_bytes = 0, lw_lf_lines = 0, lw_at_line_start = True, lw_first_write_epoch_ms = None,
      lw_last_write_epoch_ms = None, lw_poisoned = False, lw_sealed = False, lw_published = None\<rparr>"

definition line_count :: "CompleteLogWriter \<Rightarrow> u64" where
  "line_count w = lw_lf_lines w + (if lw_at_line_start w then 0 else 1)"

definition writer_metadata :: "LogOs \<Rightarrow> bool \<Rightarrow> CompleteLogWriter \<Rightarrow> StreamMetadata" where
  "writer_metadata os whole w =
     \<lparr>sm_selector = lw_selector w, sm_stream = lw_stream w, sm_bytes = lw_bytes w, sm_lines = line_count w,
      sm_first_write_epoch_ms = lw_first_write_epoch_ms w, sm_last_write_epoch_ms = lw_last_write_epoch_ms w,
      sm_complete = whole, sm_sha256 = lower_hex (lo_sha256 os (lw_hashed w))\<rparr>"

definition publish_metadata :: "LogOs \<Rightarrow> StreamMetadata \<Rightarrow> CompleteLogWriter \<Rightarrow> string option \<times> CompleteLogWriter" where
  "publish_metadata os metadata w =
     (let (replaced, failure) = atomic_write_relative (lo_publish os metadata)
      in (failure, if replaced then w\<lparr>lw_published := Some metadata\<rparr> else w))"

definition fail_writer :: "LogOs \<Rightarrow> CompleteLogWriter \<Rightarrow> CompleteLogWriter" where
  "fail_writer os w =
     (let w = w\<lparr>lw_poisoned := True\<rparr> in snd (publish_metadata os (writer_metadata os False w) w))"

text \<open>\<^verbatim>\<open>u64::to_le_bytes\<close>.\<close>

definition le_bytes :: "u64 \<Rightarrow> string" where
  "le_bytes n = rev (be_bytes 8 (unat n))"

fun index_loop :: "u64 \<Rightarrow> string \<Rightarrow> string \<times> u64 \<times> bool \<Rightarrow> string \<times> u64 \<times> bool" where
  "index_loop offset [] state = state"
| "index_loop offset (byte # bytes) (records, lf_lines, at_line_start) =
     (let line = lf_lines + 1;
          records = (if at_line_start \<and> (line - 1) mod LINE_INDEX_STRIDE = 0
                     then records @ le_bytes line @ le_bytes offset else records)
      in index_loop (offset + 1) bytes
           (if byte = CHR 0x0A then (records, saturating_add lf_lines 1, True) else (records, lf_lines, False)))"

definition index_stored_bytes :: "LogOs \<Rightarrow> string \<Rightarrow> u64 \<Rightarrow> CompleteLogWriter \<Rightarrow> string option \<times> CompleteLogWriter" where
  "index_stored_bytes os stored base w =
     (let (records, lf_lines, at_line_start) = index_loop base stored ([], lw_lf_lines w, lw_at_line_start w);
          w = w\<lparr>lw_lf_lines := lf_lines, lw_at_line_start := at_line_start\<rparr>
      in case lo_write_index os (lw_index w) records of
           None \<Rightarrow> (None, w\<lparr>lw_index := lw_index w @ records\<rparr>)
         | Some (source, n) \<Rightarrow> (Some source, w\<lparr>lw_index := lw_index w @ take n records\<rparr>))"

text \<open>One round of the loop of \<^verbatim>\<open>write_all\<close> after \<open>n\<close> bytes of the payload were stored.\<close>

definition store_bytes :: "LogOs \<Rightarrow> string \<Rightarrow> CompleteLogWriter \<Rightarrow> string option \<times> CompleteLogWriter" where
  "store_bytes os stored w =
     (let now = lo_epoch_ms os (lw_file w)
      in index_stored_bytes os stored (lw_bytes w) (w\<lparr>
           lw_file := lw_file w @ stored,
           lw_first_write_epoch_ms := (case lw_first_write_epoch_ms w of None \<Rightarrow> Some now | Some t \<Rightarrow> Some t),
           lw_last_write_epoch_ms := Some now,
           lw_hashed := lw_hashed w @ stored,
           lw_bytes := saturating_add (lw_bytes w) (of_nat (length stored))\<rparr>))"

function write_loop :: "LogOs \<Rightarrow> string \<Rightarrow> CompleteLogWriter \<Rightarrow> (LogStoreError, unit) result \<times> CompleteLogWriter" where
  "write_loop os payload w =
     (if payload = [] then (Ok (), w)
      else case lo_write os (lw_file w) payload of
          Inl source \<Rightarrow> (Err (StorageIncomplete StreamWrite source), fail_writer os w)
        | Inr n \<Rightarrow>
            if n = 0 then (Err (StorageIncomplete StreamWrite ''write zero''), fail_writer os w)
            else case store_bytes os (take n payload) w of
                (Some source, w) \<Rightarrow> (Err (StorageIncomplete IndexWrite source), fail_writer os w)
              | (None, w) \<Rightarrow> write_loop os (drop n payload) w)"
  by pat_completeness auto
termination write_loop
  by (relation "measure (\<lambda>(os, payload, w). length payload)") auto

declare write_loop.simps [simp del]

definition write_all :: "LogOs \<Rightarrow> string \<Rightarrow> CompleteLogWriter \<Rightarrow> (LogStoreError, unit) result \<times> CompleteLogWriter" where
  "write_all os payload w =
     (if lw_poisoned w then (Err (StorageIncomplete StreamWrite ''stream was already incomplete''), w)
      else write_loop os payload w)"

text \<open>The end of a writer that was not sealed; sealing consumes the writer, so this follows it too.\<close>

definition drop_writer :: "LogOs \<Rightarrow> CompleteLogWriter \<Rightarrow> CompleteLogWriter" where
  "drop_writer os w =
     (if lw_sealed w then w else snd (publish_metadata os (writer_metadata os False w) w))"

definition seal_open :: "LogOs \<Rightarrow> CompleteLogWriter \<Rightarrow> (LogStoreError, StreamMetadata) result \<times> CompleteLogWriter" where
  "seal_open os w =
     (if lw_poisoned w then (Err (StorageIncomplete StreamSync ''stream was already incomplete''), w)
      else case lo_sync_stream os (lw_file w) of
        Some source \<Rightarrow> (Err (StorageIncomplete StreamSync source), fail_writer os w)
      | None \<Rightarrow>
          (case lo_sync_index os (lw_index w) of
             Some source \<Rightarrow> (Err (StorageIncomplete IndexSync source), fail_writer os w)
           | None \<Rightarrow>
               let metadata = writer_metadata os True w
               in case publish_metadata os metadata w of
                    (Some source, w) \<Rightarrow> (Err (StorageIncomplete MetadataPublish source), w\<lparr>lw_poisoned := True\<rparr>)
                  | (None, w) \<Rightarrow> (Ok metadata, w\<lparr>lw_sealed := True\<rparr>)))"

definition seal :: "LogOs \<Rightarrow> CompleteLogWriter \<Rightarrow> (LogStoreError, StreamMetadata) result \<times> CompleteLogWriter" where
  "seal os w = (let (result, w) = seal_open os w in (result, drop_writer os w))"

section \<open>A declarative reading of the stream\<close>

text \<open>The positions at which a line starts, and the sparse index of a file.\<close>

definition line_starts :: "string \<Rightarrow> nat list" where
  "line_starts s = filter (\<lambda>i. i = 0 \<or> s ! (i - 1) = CHR 0x0A) [0..<length s]"

definition index_record :: "string \<Rightarrow> nat \<Rightarrow> string" where
  "index_record s k = le_bytes (of_nat (k + 1)) @ le_bytes (of_nat (line_starts s ! k))"

definition sparse_index :: "string \<Rightarrow> string" where
  "sparse_index s =
     concat (map (index_record s) (filter (\<lambda>k. k mod 256 = 0) [0..<length (line_starts s)]))"

definition at_start :: "string \<Rightarrow> bool" where
  "at_start s \<longleftrightarrow> s = [] \<or> last s = CHR 0x0A"

lemma line_starts_snoc:
  "line_starts (s @ [c]) = line_starts s @ (if at_start s then [length s] else [])"
proof -
  let ?P = "\<lambda>t i. i = 0 \<or> t ! (i - 1) = CHR 0x0A"
  have same: "filter (?P (s @ [c])) [0..<length s] = filter (?P s) [0..<length s]"
    by (rule filter_cong) (auto simp: nth_append)
  have end_of_s: "?P (s @ [c]) (length s) \<longleftrightarrow> at_start s"
    by (cases s rule: rev_cases) (auto simp: at_start_def nth_append)
  have "line_starts (s @ [c]) = filter (?P (s @ [c])) [0..<length s] @ filter (?P (s @ [c])) [length s]"
    by (simp add: line_starts_def)
  then show ?thesis unfolding same using end_of_s by (simp add: line_starts_def)
qed

lemma length_line_starts:
  "length (line_starts s) = length (filter (\<lambda>c. c = CHR 0x0A) s) + (if at_start s then 0 else 1)"
proof (induction s rule: rev_induct)
  case (snoc c s)
  then show ?case by (auto simp: line_starts_snoc at_start_def split: if_splits)
qed (simp add: line_starts_def at_start_def)

lemma index_record_append:
  "k < length (line_starts s) \<Longrightarrow> index_record (s @ [c]) k = index_record s k"
  by (simp add: index_record_def line_starts_snoc nth_append)

lemma sparse_index_snoc:
  "sparse_index (s @ [c]) = sparse_index s @
     (if at_start s \<and> length (line_starts s) mod 256 = 0
      then le_bytes (of_nat (length (line_starts s) + 1)) @ le_bytes (of_nat (length s)) else [])"
proof -
  let ?n = "length (line_starts s)"
  let ?old = "filter (\<lambda>k. k mod 256 = 0) [0..<?n]"
  have old: "map (index_record (s @ [c])) ?old = map (index_record s) ?old"
    by (rule map_cong) (auto simp: index_record_append)
  show ?thesis
  proof (cases "at_start s")
    case True
    then have entry: "index_record (s @ [c]) ?n = le_bytes (of_nat (?n + 1)) @ le_bytes (of_nat (length s))"
      and length: "length (line_starts (s @ [c])) = Suc ?n"
      by (simp_all add: index_record_def line_starts_snoc nth_append)
    have "sparse_index (s @ [c]) = concat (map (index_record (s @ [c])) ?old) @
        (if ?n mod 256 = 0 then index_record (s @ [c]) ?n else [])"
      unfolding sparse_index_def length by simp
    then show ?thesis using True unfolding old entry by (simp add: sparse_index_def)
  next
    case False
    then have "sparse_index (s @ [c]) = concat (map (index_record (s @ [c])) ?old)"
      by (simp add: sparse_index_def line_starts_snoc)
    then show ?thesis using False unfolding old by (simp add: sparse_index_def)
  qed
qed

lemma length_line_starts_le: "length (line_starts s) \<le> length s"
  unfolding line_starts_def by (rule order_trans [OF length_filter_le]) simp

definition line_feeds :: "string \<Rightarrow> nat" where
  "line_feeds s = length (filter (\<lambda>c. c = CHR 0x0A) s)"

lemma line_feeds_simps [simp]:
  "line_feeds [] = 0" "line_feeds (s @ t) = line_feeds s + line_feeds t"
  "line_feeds (c # s) = (if c = CHR 0x0A then 1 else 0) + line_feeds s"
  by (simp_all add: line_feeds_def)

lemma line_feeds_le: "line_feeds s \<le> length s"
  by (simp add: line_feeds_def)

lemma line_starts_at_start: "at_start s \<Longrightarrow> length (line_starts s) = line_feeds s"
  by (simp add: length_line_starts line_feeds_def)

section \<open>Invariant of the writer\<close>

definition writer_ok :: "CompleteLogWriter \<Rightarrow> bool" where
  "writer_ok w \<longleftrightarrow> lw_hashed w = lw_file w \<and> unat (lw_bytes w) = length (lw_file w) \<and>
     unat (lw_lf_lines w) = line_feeds (lw_file w) \<and> lw_at_line_start w = at_start (lw_file w) \<and>
     lw_index w = sparse_index (lw_file w) \<and>
     (lw_first_write_epoch_ms w = None \<longleftrightarrow> lw_file w = []) \<and> (lw_last_write_epoch_ms w = None \<longleftrightarrow> lw_file w = [])"

lemma new_writer_ok: "writer_ok (new_writer selector stream)"
  by (simp add: writer_ok_def new_writer_def at_start_def sparse_index_def line_starts_def)

lemma stride_iff:
  assumes "n < 2 ^ 64"
  shows "(of_nat n :: u64) mod LINE_INDEX_STRIDE = 0 \<longleftrightarrow> n mod 256 = 0"
proof -
  have "unat ((of_nat n :: u64) mod LINE_INDEX_STRIDE) = n mod 256"
    using assms by (simp add: LINE_INDEX_STRIDE_def unat_mod unat_of_nat take_bit_eq_mod)
  then show ?thesis by (metis unsigned_eq_0_iff)
qed

lemma unat_of_nat_self: "of_nat (unat (x :: u64)) = x"
  by simp

lemma unat_of_nat_small: "n < 2 ^ 64 \<Longrightarrow> unat (of_nat n :: u64) = n"
  by (simp add: unat_of_nat take_bit_eq_mod)

lemma saturating_add_of_nat:
  assumes "n + m < 2 ^ 64"
  shows "saturating_add (of_nat n :: u64) (of_nat m) = of_nat (n + m)"
proof -
  have "unat (of_nat n :: u64) + unat (of_nat m :: u64) < 2 ^ 64"
    using assms unat_of_nat_small [of n] unat_of_nat_small [of m] by linarith
  then show ?thesis unfolding saturating_add_def by simp
qed

lemma index_loop_reads:
  assumes "length (s @ bytes) < 2 ^ 64" and "before @ records = sparse_index s"
    and "index_loop (of_nat (length s)) bytes (records, of_nat (line_feeds s), at_start s) = (records', lf, start)"
  shows "before @ records' = sparse_index (s @ bytes) \<and> lf = of_nat (line_feeds (s @ bytes)) \<and> start = at_start (s @ bytes)"
  using assms
proof (induction bytes arbitrary: s records)
  case (Cons byte bytes)
  let ?records = "if at_start s \<and> line_feeds s mod 256 = 0
    then records @ le_bytes (of_nat (line_feeds s) + 1) @ le_bytes (of_nat (length s)) else records"
  have small: "line_feeds s < 2 ^ 64" using Cons.prems(1) line_feeds_le [of s] by simp
  then have step: "at_start s \<and> (of_nat (line_feeds s) + 1 - 1 :: u64) mod LINE_INDEX_STRIDE = 0 \<longleftrightarrow>
      at_start s \<and> line_feeds s mod 256 = 0"
    using stride_iff by simp
  have records: "before @ ?records = sparse_index (s @ [byte])"
    using Cons.prems(2) by (auto simp: sparse_index_snoc line_starts_at_start add.commute)
  have feeds: "line_feeds s + 1 < 2 ^ 64" using Cons.prems(1) line_feeds_le [of s] by simp
  have "saturating_add (of_nat (line_feeds s) :: u64) 1 = of_nat (line_feeds s + 1)"
    using saturating_add_of_nat [OF feeds] by simp
  then have state: "(if byte = CHR 0x0A then (?records, saturating_add (of_nat (line_feeds s)) 1, True)
      else (?records, of_nat (line_feeds s), False)) =
      (?records, of_nat (line_feeds (s @ [byte])) :: u64, at_start (s @ [byte]))"
    by (simp add: at_start_def add.commute)
  have offset: "(of_nat (length (s @ [byte])) :: u64) = of_nat (length s) + 1" by simp
  have "index_loop (of_nat (length (s @ [byte]))) bytes
      (?records, of_nat (line_feeds (s @ [byte])), at_start (s @ [byte])) = (records', lf, start)"
    using Cons.prems(3) unfolding offset by (simp only: index_loop.simps Let_def step state)
  from Cons.IH [OF _ records this] Cons.prems(1) show ?case by simp
qed simp

text \<open>The bytes a writer counts never exceed what it stored.\<close>

lemma store_bytes_ok:
  assumes "writer_ok w" and "stored \<noteq> []" and "length (lw_file w @ stored) < 2 ^ 64"
    and "store_bytes os stored w = (None, w')"
  shows "writer_ok w' \<and> lw_file w' = lw_file w @ stored"
proof -
  let ?s = "lw_file w"
  have bytes: "lw_bytes w = of_nat (length ?s)" and feeds: "lw_lf_lines w = of_nat (line_feeds ?s)"
    using assms(1) unfolding writer_ok_def by (metis unat_of_nat_self)+
  obtain records lf start where loop: "index_loop (lw_bytes w) stored ([], lw_lf_lines w, lw_at_line_start w) = (records, lf, start)"
    by (cases "index_loop (lw_bytes w) stored ([], lw_lf_lines w, lw_at_line_start w)") auto
  have "lw_index w @ [] = sparse_index ?s" and start: "lw_at_line_start w = at_start ?s"
    using assms(1) by (simp_all add: writer_ok_def)
  from index_loop_reads [OF assms(3) this(1), of records lf start] loop
  have read: "lw_index w @ records = sparse_index (?s @ stored)" "lf = of_nat (line_feeds (?s @ stored))"
      "start = at_start (?s @ stored)"
    unfolding bytes feeds start by auto
  have small: "line_feeds (?s @ stored) < 2 ^ 64" using assms(3) line_feeds_le [of "?s @ stored"] by linarith
  have total: "saturating_add (lw_bytes w) (of_nat (length stored)) = of_nat (length (?s @ stored))"
    unfolding bytes using saturating_add_of_nat assms(3) by simp
  have fields: "lw_file w' = ?s @ stored" "lw_hashed w' = lw_hashed w @ stored" "lw_index w' = lw_index w @ records"
      "lw_bytes w' = saturating_add (lw_bytes w) (of_nat (length stored))" "lw_lf_lines w' = lf"
      "lw_at_line_start w' = start" "lw_first_write_epoch_ms w' \<noteq> None" "lw_last_write_epoch_ms w' \<noteq> None"
    using assms(4) by (auto simp: store_bytes_def index_stored_bytes_def loop Let_def split: option.splits prod.splits)
  show ?thesis
    unfolding writer_ok_def fields(1-6) read total unat_of_nat_small [OF small] unat_of_nat_small [OF assms(3)]
    using assms(1,2) fields(7,8) by (simp add: writer_ok_def)
qed

lemma write_loop_ok:
  assumes "writer_ok w" and "length (lw_file w @ payload) < 2 ^ 64"
    and "write_loop os payload w = (Ok (), w')"
  shows "writer_ok w' \<and> lw_file w' = lw_file w @ payload \<and> lw_poisoned w' = lw_poisoned w"
  using assms
proof (induction os payload w rule: write_loop.induct)
  case (1 os payload w)
  show ?case
  proof (cases "payload = []")
    case True
    then show ?thesis using "1.prems" by (simp add: write_loop.simps)
  next
    case False
    with "1.prems"(3) obtain n w2 where n: "lo_write os (lw_file w) payload = Ok n" "n \<noteq> 0"
      and stored: "store_bytes os (take n payload) w = (None, w2)"
      and rest: "write_loop os (drop n payload) w2 = (Ok (), w')"
      by (subst (asm) write_loop.simps) (auto split: sum.splits if_splits prod.splits option.splits)
    have after: "writer_ok w2 \<and> lw_file w2 = lw_file w @ take n payload"
      using store_bytes_ok [OF "1.prems"(1) _ _ stored] "1.prems"(2) False n(2) by simp
    have poison: "lw_poisoned w2 = lw_poisoned w"
      using stored by (auto simp: store_bytes_def index_stored_bytes_def Let_def split: option.splits prod.splits)
    have "writer_ok w' \<and> lw_file w' = lw_file w2 @ drop n payload \<and> lw_poisoned w' = lw_poisoned w2"
      using "1.IH" [OF False n(1,2) stored [symmetric] refl] after "1.prems"(2) rest by simp
    then show ?thesis using after poison by simp
  qed
qed

lemma atomic_write_replaced: "atomic_write_relative failing = (replaced, None) \<Longrightarrow> replaced"
  by (auto simp: atomic_write_relative_def split: option.splits)

lemma writer_lines:
  assumes "writer_ok w" and "length (lw_file w) < 2 ^ 64"
  shows "line_count w = of_nat (length (line_starts (lw_file w)))"
proof -
  have "lw_lf_lines w = of_nat (line_feeds (lw_file w))"
    using assms(1) unfolding writer_ok_def by (metis unat_of_nat_self)
  then show ?thesis
    using assms(1) by (simp add: line_count_def writer_ok_def length_line_starts line_feeds_def add.commute)
qed

text \<open>What the metadata of a completely stored stream says.\<close>

definition describes :: "LogOs \<Rightarrow> LeafSelector \<Rightarrow> LogStream \<Rightarrow> string \<Rightarrow> StreamMetadata \<Rightarrow> bool" where
  "describes os selector stream bytes metadata \<longleftrightarrow>
     sm_selector metadata = selector \<and> sm_stream metadata = stream \<and> sm_complete metadata \<and>
     sm_bytes metadata = of_nat (length bytes) \<and> sm_lines metadata = of_nat (length (line_starts bytes)) \<and>
     sm_sha256 metadata = lower_hex (lo_sha256 os bytes) \<and>
     (sm_first_write_epoch_ms metadata = None \<longleftrightarrow> bytes = []) \<and>
     (sm_last_write_epoch_ms metadata = None \<longleftrightarrow> bytes = [])"

lemma seal_ok:
  assumes "writer_ok w" and "length (lw_file w) < 2 ^ 64" and "seal os w = (Ok metadata, w')"
  shows "describes os (lw_selector w) (lw_stream w) (lw_file w) metadata \<and> lw_published w' = Some metadata \<and>
    lw_file w' = lw_file w \<and> lw_index w' = sparse_index (lw_file w)"
proof -
  obtain w2 where result: "seal_open os w = (Ok metadata, w2)" "w' = drop_writer os w2"
    using assms(3) by (auto simp: seal_def split: prod.splits)
  then have metadata: "metadata = writer_metadata os True w"
    and w2: "w2 = w\<lparr>lw_published := Some metadata, lw_sealed := True\<rparr>"
    using atomic_write_replaced
    by (auto simp: seal_open_def publish_metadata_def Let_def split: if_splits option.splits prod.splits)
  have "lw_bytes w = of_nat (length (lw_file w))"
    using assms(1) unfolding writer_ok_def by (metis unat_of_nat_self)
  then show ?thesis
    using assms(1) writer_lines [OF assms(1,2)] result(2) unfolding w2 metadata
    by (simp add: describes_def writer_metadata_def writer_ok_def drop_writer_def)
qed

end
