(* ===== verification/Process_Streams.thy ===== *)
theory Process_Streams
  imports Log_Writer Leaf_Validity
begin

text \<open>
  What the executor reads from a process it runs (\<^verbatim>\<open>src/rust/executor-core/src/process.rs\<close>): its
  two output streams (\<^verbatim>\<open>pump\<close>), its diagnostic events, the manifest of its cases and its completion
  event.  Each is read in blocks of whatever size the pipe delivers.  The lemmas show what each reader
  makes of the bytes: the logs are stored completely, the diagnostic events and the manifest
  depend on the bytes only and not on how they were cut into blocks; the completion event does
  depend on it.

  A pipe is the list of the answers to the reads from it, an empty block or the end of the list is
  the end of the stream.  Messages the reader of a stream sends about a failure are returned as a list.
\<close>

datatype FatalLeafError = LogStorage | StructuredEvidence

datatype PumpError = Storage LogStoreError | Read string

type_synonym pipe = "(string, string) result list"

text \<open>The bytes of a pipe up to its end, or the error that cut it off.\<close>

fun received :: "pipe \<Rightarrow> (string, string) result" where
  "received [] = Ok []"
| "received (Inl e # reads) = Err e"
| "received (Inr block # reads) =
     (if block = [] then Ok [] else then_do (received reads) (\<lambda>bytes. Ok (block @ bytes)))"

section \<open>Output streams\<close>

definition finish_pump ::
  "LogOs \<Rightarrow> CompleteLogWriter \<Rightarrow> (PumpError, StreamMetadata) result \<times> FatalLeafError list \<times> CompleteLogWriter" where
  "finish_pump os w =
     (case seal os w of
        (Inr metadata, w) \<Rightarrow> (Ok metadata, [], w)
      | (Inl e, w) \<Rightarrow> (Err (Storage e), [FatalLeafError.LogStorage], w))"

fun pump :: "LogOs \<Rightarrow> pipe \<Rightarrow> CompleteLogWriter
    \<Rightarrow> (PumpError, StreamMetadata) result \<times> FatalLeafError list \<times> CompleteLogWriter" where
  "pump os [] w = finish_pump os w"
| "pump os (Inl e # reads) w = (Err (Read e), [FatalLeafError.LogStorage], drop_writer os w)"
| "pump os (Inr block # reads) w =
     (if block = [] then finish_pump os w
      else case write_all os block w of
          (Inl e, w) \<Rightarrow> (Err (Storage e), [FatalLeafError.LogStorage], drop_writer os w)
        | (Inr u, w) \<Rightarrow> pump os reads w)"

definition pumped_summary :: "string \<Rightarrow> StreamMetadata \<Rightarrow> LogStreamSummary" where
  "pumped_summary run metadata =
     \<lparr>lss_log_ref = \<lparr>lr_run_id = run, lr_check = ls_check (sm_selector metadata),
        lr_phase = ls_phase (sm_selector metadata), lr_case = ls_case_id (sm_selector metadata),
        lr_stream = sm_stream metadata\<rparr>,
      lss_bytes = sm_bytes metadata, lss_lines = sm_lines metadata, lss_sha256 = sm_sha256 metadata,
      lss_first_write_epoch_ms = sm_first_write_epoch_ms metadata,
      lss_last_write_epoch_ms = sm_last_write_epoch_ms metadata, lss_complete = sm_complete metadata\<rparr>"

text \<open>A task that panicked or was cancelled joins with \<open>None\<close>.\<close>

fun finish_pumps :: "string \<Rightarrow> (PumpError, StreamMetadata) result option list \<Rightarrow> LogStreamSummary list \<times> bool" where
  "finish_pumps run [] = ([], False)"
| "finish_pumps run (task # tasks) =
     (let (streams, storage_failed) = finish_pumps run tasks
      in case task of
           Some (Inr metadata) \<Rightarrow> (pumped_summary run metadata # streams, storage_failed)
         | _ \<Rightarrow> (streams, True))"

fun seal_prestart_streams :: "LogOs \<Rightarrow> CompleteLogWriter list \<Rightarrow> StreamMetadata list \<times> bool" where
  "seal_prestart_streams os [] = ([], False)"
| "seal_prestart_streams os (w # ws) =
     (let (streams, storage_failed) = seal_prestart_streams os ws
      in case fst (seal os w) of
           Inr metadata \<Rightarrow> (metadata # streams, storage_failed)
         | Inl e \<Rightarrow> (streams, True))"

section \<open>Diagnostic events\<close>

text \<open>
  The parser of one event, which is \<^verbatim>\<open>parse_diagnostic_event\<close> for the context of the leaf, is an
  argument.  A refusal comes with what was sent to the supervisor of the process before it.
\<close>

definition event_byte ::
  "(string \<Rightarrow> FailureIndexEntry option) \<Rightarrow> char \<Rightarrow> FailureIndexEntry list \<times> string
   \<Rightarrow> (ExecutorError \<times> FatalLeafError list, FailureIndexEntry list \<times> string) result" where
  "event_byte parse byte state =
     (let (entries, current) = state
      in if byte = CHR 0x0A
         then if current = [] then Ok (entries, current)
              else case parse current of
                  None \<Rightarrow> Err (ExecutorError ''structured diagnostic event is invalid'', [FatalLeafError.StructuredEvidence])
                | Some entry \<Rightarrow>
                    if MAX_DIAGNOSTIC_EVENTS < length (entries @ [entry])
                    then Err (ExecutorError ''structured diagnostic event count exceeds its bound'',
                           [FatalLeafError.StructuredEvidence])
                    else Ok (entries @ [entry], [])
         else if MAX_EVENT_BYTES < length (current @ [byte])
              then Err (ExecutorError ''structured diagnostic event exceeds 4096 bytes'', [FatalLeafError.StructuredEvidence])
              else Ok (entries, current @ [byte]))"

fun event_block ::
  "(string \<Rightarrow> FailureIndexEntry option) \<Rightarrow> string \<Rightarrow> FailureIndexEntry list \<times> string
   \<Rightarrow> (ExecutorError \<times> FatalLeafError list, FailureIndexEntry list \<times> string) result" where
  "event_block parse [] state = Ok state"
| "event_block parse (byte # block) state = then_do (event_byte parse byte state) (event_block parse block)"

fun event_reads ::
  "(string \<Rightarrow> FailureIndexEntry option) \<Rightarrow> pipe \<Rightarrow> FailureIndexEntry list \<times> string
   \<Rightarrow> (ExecutorError \<times> FatalLeafError list, FailureIndexEntry list \<times> string) result" where
  "event_reads parse [] state = Ok state"
| "event_reads parse (Inl e # reads) state =
     Err (ExecutorError ''cannot read structured diagnostic event channel'', [FatalLeafError.StructuredEvidence])"
| "event_reads parse (Inr block # reads) state =
     (if block = [] then Ok state else then_do (event_block parse block state) (event_reads parse reads))"

definition last_event ::
  "(string \<Rightarrow> FailureIndexEntry option) \<Rightarrow> FailureIndexEntry list \<times> string
   \<Rightarrow> (ExecutorError \<times> FatalLeafError list, FailureIndexEntry list) result" where
  "last_event parse state =
     (let (entries, current) = state
      in then_do
           (if current = [] then Ok entries
            else case parse current of
                None \<Rightarrow> Err (ExecutorError ''structured diagnostic event is invalid'', [FatalLeafError.StructuredEvidence])
              | Some entry \<Rightarrow> Ok (entries @ [entry]))
           (\<lambda>entries. if MAX_DIAGNOSTIC_EVENTS < length entries
              then Err (ExecutorError ''structured diagnostic event count exceeds its bound'', [FatalLeafError.StructuredEvidence])
              else Ok entries))"

definition read_diagnostic_events ::
  "(string \<Rightarrow> FailureIndexEntry option) \<Rightarrow> pipe
   \<Rightarrow> (ExecutorError, FailureIndexEntry list) result \<times> FatalLeafError list" where
  "read_diagnostic_events parse reads =
     (case then_do (event_reads parse reads ([], [])) (last_event parse) of
        Inl (error, sent) \<Rightarrow> (Err error, sent)
      | Inr entries \<Rightarrow> (Ok entries, []))"

definition finish_diagnostics ::
  "(ExecutorError, FailureIndexEntry list) result option \<Rightarrow> FailureIndexEntry list \<times> bool" where
  "finish_diagnostics task = (case task of Some (Inr entries) \<Rightarrow> (entries, False) | _ \<Rightarrow> ([], True))"

section \<open>Manifests\<close>

fun capture_loop :: "pipe \<Rightarrow> string \<times> u64 \<Rightarrow> (ExecutorError, string \<times> u64) result" where
  "capture_loop [] state = Ok state"
| "capture_loop (Inl e # reads) state = Err (ExecutorError (''cannot read case manifest descriptor: '' @ e))"
| "capture_loop (Inr block # reads) (payload, observed) =
     (if block = [] then Ok (payload, observed)
      else capture_loop reads
        (payload @ take (MAX_MANIFEST_BYTES + 1 - length payload) block,
         saturating_add observed (of_nat (length block))))"

definition capture_manifest :: "pipe \<Rightarrow> (ExecutorError, ManifestCapture) result" where
  "capture_manifest reads =
     then_do (capture_loop reads ([], 0)) (\<lambda>(payload, observed).
       Ok \<lparr>mc_payload = payload, mc_observed = observed, mc_truncated = (of_nat MAX_MANIFEST_BYTES < observed)\<rparr>)"

text \<open>The manifest of a process that has one, and the error of a task that panicked.\<close>

definition finish_manifest ::
  "(string, (ExecutorError, ManifestCapture) result) result option \<Rightarrow> (ExecutorError, ManifestCapture option) result" where
  "finish_manifest manifest =
     (case manifest of
        None \<Rightarrow> Ok None
      | Some (Inl e) \<Rightarrow> Err (ExecutorError (''manifest task failed: '' @ e))
      | Some (Inr result) \<Rightarrow> then_do result (\<lambda>capture. Ok (Some capture)))"

section \<open>Completion events\<close>

fun event_payload :: "string \<Rightarrow> pipe \<Rightarrow> (ExecutorError, string) result" where
  "event_payload payload [] = Err (ExecutorError ''completion event descriptor closed without an event'')"
| "event_payload payload (Inl e # reads) = Err (ExecutorError (''cannot read completion event: '' @ e))"
| "event_payload payload (Inr block # reads) =
     (if block = [] then Err (ExecutorError ''completion event descriptor closed without an event'')
      else if CHR 0x0A \<in> set block
      then let line = takeWhile (\<lambda>c. c \<noteq> CHR 0x0A) block
           in if length line + 1 \<noteq> length block then Err (ExecutorError ''completion event contains trailing data'')
              else Ok (payload @ line)
      else if MAX_EVENT_BYTES < length (payload @ block)
      then Err (ExecutorError ''completion event exceeds 4096 bytes'')
      else event_payload (payload @ block) reads)"

definition read_event ::
  "(string \<Rightarrow> (string, CompletionEvent) result) \<Rightarrow> pipe \<Rightarrow> (ExecutorError, CompletionEvent) result" where
  "read_event decode reads =
     then_do (event_payload [] reads) (\<lambda>payload.
       if MAX_EVENT_BYTES < length payload then Err (ExecutorError ''completion event exceeds 4096 bytes'')
       else case decode payload of
           Inl e \<Rightarrow> Err (ExecutorError (''invalid completion event: '' @ e))
         | Inr event \<Rightarrow> Ok event)"

section \<open>Logs are complete\<close>

lemma write_all_writer:
  assumes "writer_ok w" and "length (lw_file w @ payload) < 2 ^ 64" and "write_all os payload w = (Ok u, w')"
  shows "writer_ok w' \<and> lw_file w' = lw_file w @ payload"
  using write_loop_ok [OF assms(1,2)] assms(3) by (auto simp: write_all_def split: if_splits)

lemma write_all_identity:
  assumes "write_all os payload w = (result, w')"
  shows "lw_selector w' = lw_selector w \<and> lw_stream w' = lw_stream w"
proof -
  have "lw_selector (snd (write_loop os payload w)) = lw_selector w \<and> lw_stream (snd (write_loop os payload w)) = lw_stream w"
  proof (induction os payload w rule: write_loop.induct)
    case (1 os payload w)
    have stored: "lw_selector w2 = lw_selector w \<and> lw_stream w2 = lw_stream w" if "store_bytes os s w = (e, w2)" for s e w2
      using that by (auto simp: store_bytes_def index_stored_bytes_def Let_def split: option.splits prod.splits)
    have failed: "lw_selector (fail_writer os v) = lw_selector v \<and> lw_stream (fail_writer os v) = lw_stream v" for v
      by (simp add: fail_writer_def publish_metadata_def Let_def split: prod.splits)
    show ?case
      using "1.IH" stored failed
      by (subst (1 2) write_loop.simps) (auto split: sum.splits prod.splits option.splits)
  qed
  then show ?thesis using assms by (auto simp: write_all_def split: if_splits)
qed

lemma finish_pump_ok: "finish_pump os w = (Ok metadata, fatal, w') \<longleftrightarrow> seal os w = (Ok metadata, w') \<and> fatal = []"
  by (auto simp: finish_pump_def split: prod.splits sum.splits)

lemma pump_received: "pump os reads w = (Ok metadata, fatal, w') \<Longrightarrow> \<exists>bytes. received reads = Ok bytes"
  by (induction os reads w rule: pump.induct) (auto split: if_splits prod.splits sum.splits)

lemma pump_fatal: "pump os reads w = (result, fatal, w') \<Longrightarrow> fatal = (if isl result then [FatalLeafError.LogStorage] else [])"
  by (induction os reads w rule: pump.induct) (auto simp: finish_pump_def split: if_splits prod.splits sum.splits)

lemma pump_stores:
  assumes "writer_ok w" and "received reads = Ok bytes" and "length (lw_file w @ bytes) < 2 ^ 64"
    and "pump os reads w = (Ok metadata, fatal, w')"
  shows "describes os (lw_selector w) (lw_stream w) (lw_file w @ bytes) metadata \<and> lw_published w' = Some metadata \<and>
    lw_file w' = lw_file w @ bytes \<and> lw_index w' = sparse_index (lw_file w @ bytes)"
  using assms
proof (induction os reads w arbitrary: bytes rule: pump.induct)
  case (1 os w)
  then show ?case using seal_ok [of w os metadata w'] by (simp add: finish_pump_ok)
next
  case (3 os block reads w)
  show ?case
  proof (cases "block = []")
    case True
    then show ?thesis using 3 seal_ok [of w os metadata w'] by (simp add: finish_pump_ok)
  next
    case False
    with "3.prems"(2) obtain rest where rest: "received reads = Ok rest" "bytes = block @ rest" by auto
    from False "3.prems"(4) obtain w2 where w2: "write_all os block w = (Ok (), w2)"
      and more: "pump os reads w2 = (Ok metadata, fatal, w')"
      by (auto split: prod.splits sum.splits)
    have "writer_ok w2 \<and> lw_file w2 = lw_file w @ block"
      using write_all_writer [OF "3.prems"(1) _ w2] "3.prems"(3) rest(2) by simp
    with "3.IH" [OF False w2 [symmetric] refl _ rest(1) _ more] "3.prems"(3) rest(2) write_all_identity [OF w2]
    show ?thesis by simp
  qed
qed simp

text \<open>
  C13: a log stream that was pumped without an error is complete.  The file holds
  exactly the bytes the process wrote, however pipe and file system split them; the published
  metadata says so and gives their number, the number of their lines and their digest, and the
  sparse index beside the file holds the position of every 256th line.
\<close>

theorem pumped_log_complete:
  assumes "pump os reads (new_writer selector stream) = (Ok metadata, fatal, w)"
    and "\<And>bytes. received reads = Ok bytes \<Longrightarrow> length bytes < 2 ^ 64"
  shows "received reads = Ok (lw_file w) \<and> lw_published w = Some metadata
    \<and> describes os selector stream (lw_file w) metadata \<and> lw_index w = sparse_index (lw_file w)"
proof -
  obtain bytes where bytes: "received reads = Ok bytes" using pump_received [OF assms(1)] by blast
  from pump_stores [OF new_writer_ok bytes _ assms(1)] assms(2) [OF bytes] bytes
  show ?thesis by (simp add: new_writer_def)
qed

text \<open>A file system that stores at most two bytes at a time.\<close>

definition narrow_os :: LogOs where
  "narrow_os = \<lparr>lo_sha256 = (\<lambda>_. replicate 32 (CHR ''x'')), lo_epoch_ms = (\<lambda>_. 1000),
     lo_write = (\<lambda>_ payload. Ok (min 2 (length payload))), lo_write_index = (\<lambda>_ _. None),
     lo_sync_stream = (\<lambda>_. None), lo_sync_index = (\<lambda>_. None), lo_publish = (\<lambda>_ _. None)\<rparr>"

definition sample_pump :: "(PumpError, StreamMetadata) result \<times> FatalLeafError list \<times> CompleteLogWriter" where
  "sample_pump = pump narrow_os [Inr (''one'' @ [CHR 0x0A]), Inr ''two''] (new_writer (check_selector ''build'') LogStream.Stdout)"

lemma sample_pump_ok: "isl (fst sample_pump) = False"
  by code_simp

theorem pumped_log_complete_witness:
  "lw_file (snd (snd sample_pump)) = ''one'' @ CHR 0x0A # ''two'' \<and>
     lw_index (snd (snd sample_pump)) = sparse_index (lw_file (snd (snd sample_pump)))"
proof -
  obtain result fatal w where parts: "sample_pump = (result, fatal, w)" by (cases sample_pump) auto
  obtain metadata where "result = Ok metadata" using sample_pump_ok unfolding parts by (cases result) simp_all
  with parts pumped_log_complete [of narrow_os "[Inr (''one'' @ [CHR 0x0A]), Inr ''two'']" "check_selector ''build''"
      LogStream.Stdout metadata fatal w]
  show ?thesis by (auto simp: sample_pump_def)
qed

section \<open>Diagnostic events depend on the bytes only\<close>

lemma event_block_append:
  "event_block parse (xs @ ys) state = then_do (event_block parse xs state) (event_block parse ys)"
  by (induction xs arbitrary: state) (auto simp: then_do_def split: sum.splits)

lemma event_reads_received:
  "received reads = Ok bytes \<Longrightarrow> event_reads parse reads state = event_block parse bytes state"
proof (induction parse reads state arbitrary: bytes rule: event_reads.induct)
  case (3 parse block reads state)
  show ?case
  proof (cases "block = []")
    case False
    with "3.prems" obtain rest where rest: "received reads = Ok rest" "bytes = block @ rest" by auto
    with "3.IH" [OF False _ rest(1)] False show ?thesis
      by (cases "event_block parse block state") (simp_all add: event_block_append)
  qed (use 3 in simp)
qed simp_all

lemma event_reads_ok: "event_reads parse reads state = Ok state' \<Longrightarrow> \<exists>bytes. received reads = Ok bytes"
  by (induction parse reads state rule: event_reads.induct) (auto split: if_splits)

lemma split_lines_append:
  assumes "CHR 0x0A \<notin> set current"
  shows "split_lines (current @ bytes) = (case split_lines bytes of [] \<Rightarrow> [current] | l # ls \<Rightarrow> (current @ l) # ls)"
  using assms
proof (induction current)
  case Nil
  have "split_lines bytes \<noteq> []" by (induction bytes) (auto split: list.splits)
  then show ?case by (cases "split_lines bytes") simp_all
qed (auto split: list.splits)

lemma split_lines_cons: "\<exists>l ls. split_lines bytes = l # ls"
  by (induction bytes) (auto split: list.splits)

text \<open>What a list of lines holds as events.\<close>

definition line_events :: "(string \<Rightarrow> FailureIndexEntry option) \<Rightarrow> string list \<Rightarrow> FailureIndexEntry list \<Rightarrow> bool" where
  "line_events parse lines entries \<longleftrightarrow>
     list_all (\<lambda>l. length l \<le> MAX_EVENT_BYTES) lines \<and>
     map parse (filter (\<lambda>l. l \<noteq> []) lines) = map Some entries"

lemma line_events_Nil [simp]: "line_events parse [] entries \<longleftrightarrow> entries = []"
  by (auto simp: line_events_def)

lemma line_events_Cons:
  "line_events parse (l # ls) entries \<longleftrightarrow> length l \<le> MAX_EVENT_BYTES \<and>
     (if l = [] then line_events parse ls entries
      else \<exists>e rest. parse l = Some e \<and> entries = e # rest \<and> line_events parse ls rest)"
  by (cases entries) (auto simp: line_events_def)

lemma event_block_lines:
  assumes "CHR 0x0A \<notin> set current" and "length current \<le> MAX_EVENT_BYTES" and "length entries \<le> MAX_DIAGNOSTIC_EVENTS"
  shows "then_do (event_block parse bytes (entries, current)) (last_event parse) = Ok result \<longleftrightarrow>
    (\<exists>more. result = entries @ more \<and> line_events parse (split_lines (current @ bytes)) more \<and>
       length result \<le> MAX_DIAGNOSTIC_EVENTS)"
  using assms
proof (induction bytes arbitrary: entries current)
  case Nil
  have lines: "split_lines current = [current]" using split_lines_append [OF Nil(1), of "[]"] by simp
  show ?case
    using Nil(2,3) by (auto simp: lines last_event_def line_events_Cons not_less split: option.splits)
next
  case (Cons byte bytes)
  obtain l ls where rest: "split_lines bytes = l # ls" using split_lines_cons by blast
  show ?case
  proof (cases "byte = CHR 0x0A")
    case True
    then have lines: "split_lines (current @ byte # bytes) = current # split_lines bytes"
      using split_lines_append [OF Cons.prems(1), of "byte # bytes"] by simp
    show ?thesis
    proof (cases "current = []")
      case empty: True
      with True Cons.IH [of "[]" entries] Cons.prems(3) show ?thesis
        unfolding lines by (simp add: event_byte_def line_events_Cons)
    next
      case current: False
      show ?thesis
      proof (cases "parse current")
        case None
        with True current show ?thesis unfolding lines by (simp add: event_byte_def line_events_Cons)
      next
        case (Some e)
        show ?thesis
        proof (cases "MAX_DIAGNOSTIC_EVENTS < length (entries @ [e])")
          case True
          with \<open>byte = CHR 0x0A\<close> current Some show ?thesis
            unfolding lines by (auto simp: event_byte_def line_events_Cons)
        next
          case False
          with \<open>byte = CHR 0x0A\<close> current Some Cons.IH [of "[]" "entries @ [e]"] Cons.prems(2) show ?thesis
            unfolding lines by (auto simp: event_byte_def line_events_Cons)
        qed
      qed
    qed
  next
    case False
    show ?thesis
    proof (cases "MAX_EVENT_BYTES < length (current @ [byte])")
      case True
      have "split_lines (current @ byte # bytes) = (current @ byte # l) # ls"
        using split_lines_append [OF Cons.prems(1), of "byte # bytes"] False rest by simp
      with True False show ?thesis by (simp add: event_byte_def line_events_Cons)
    next
      case short: False
      with False Cons.IH [of "current @ [byte]" entries] Cons.prems show ?thesis
        by (simp add: event_byte_def)
    qed
  qed
qed

lemma read_diagnostic_events_Ok:
  "fst (read_diagnostic_events parse reads) = Ok entries \<longleftrightarrow>
     then_do (event_reads parse reads ([], [])) (last_event parse) = Ok entries"
  by (auto simp: read_diagnostic_events_def split: sum.splits prod.splits)

lemma read_diagnostic_events_lines:
  "fst (read_diagnostic_events parse reads) = Ok entries \<longleftrightarrow>
     (\<exists>bytes. received reads = Ok bytes \<and> line_events parse (split_lines bytes) entries \<and>
        length entries \<le> MAX_DIAGNOSTIC_EVENTS)"
proof (cases "received reads")
  case (Inl e)
  then have "event_reads parse reads ([], []) \<noteq> Ok state" for state using event_reads_ok by fastforce
  then show ?thesis
    unfolding read_diagnostic_events_Ok using Inl by (cases "event_reads parse reads ([], [])") auto
next
  case (Inr bytes)
  have "then_do (event_block parse bytes ([], [])) (last_event parse) = Ok entries \<longleftrightarrow>
      line_events parse (split_lines bytes) entries \<and> length entries \<le> MAX_DIAGNOSTIC_EVENTS"
    using event_block_lines [of "[]" "[]" parse bytes entries] by simp
  then show ?thesis unfolding read_diagnostic_events_Ok event_reads_received [OF Inr] using Inr by simp
qed

text \<open>Each place that refuses has sent its message.\<close>

lemma event_byte_sent: "event_byte parse byte state = Err (error, sent) \<Longrightarrow> sent = [FatalLeafError.StructuredEvidence]"
  by (auto simp: event_byte_def Let_def split: prod.splits if_splits option.splits)

lemma event_block_sent: "event_block parse block state = Err (error, sent) \<Longrightarrow> sent = [FatalLeafError.StructuredEvidence]"
  by (induction block arbitrary: state) (auto simp: then_do_def split: sum.splits dest: event_byte_sent)

lemma event_reads_sent: "event_reads parse reads state = Err (error, sent) \<Longrightarrow> sent = [FatalLeafError.StructuredEvidence]"
  by (induction parse reads state rule: event_reads.induct)
    (auto simp: then_do_def split: sum.splits if_splits dest: event_block_sent)

lemma last_event_sent: "last_event parse state = Err (error, sent) \<Longrightarrow> sent = [FatalLeafError.StructuredEvidence]"
  by (auto simp: last_event_def Let_def then_do_def split: prod.splits if_splits option.splits)

lemma read_diagnostic_events_sent:
  "read_diagnostic_events parse reads = (Err error, sent) \<Longrightarrow> sent = [FatalLeafError.StructuredEvidence]"
  by (auto simp: read_diagnostic_events_def then_do_def split: sum.splits prod.splits
      dest: event_reads_sent last_event_sent)

lemma read_diagnostic_events_quiet: "read_diagnostic_events parse reads = (Ok entries, sent) \<Longrightarrow> sent = []"
  by (auto simp: read_diagnostic_events_def split: sum.splits prod.splits)

text \<open>
  C14: reading the diagnostic events of a process depends on the bytes it wrote
  and not on how the pipe delivered them.  The events are accepted exactly when the pipe was read to
  its end, no line is longer than 4096 bytes, every line that is not empty is an event, and there
  are at most 4096 of them; they are then the events of the lines in order.  Every refusal, wherever
  it happens, was reported to the supervisor of the process exactly once, and nothing else is.
\<close>

theorem diagnostic_events_exact:
  "(fst (read_diagnostic_events parse reads) = Ok entries \<longleftrightarrow>
      (\<exists>bytes. received reads = Ok bytes \<and> line_events parse (split_lines bytes) entries \<and>
         length entries \<le> MAX_DIAGNOSTIC_EVENTS))
   \<and> (case read_diagnostic_events parse reads of
        (Inr es, sent) \<Rightarrow> sent = []
      | (Inl e, sent) \<Rightarrow> sent = [FatalLeafError.StructuredEvidence])"
  using read_diagnostic_events_sent [of parse reads] read_diagnostic_events_quiet [of parse reads]
  by (auto simp: read_diagnostic_events_lines split: prod.splits sum.splits)

section \<open>Manifests are captured up to their bound\<close>

lemma capture_loop_received:
  assumes "received reads = Ok bytes" and "length (seen @ bytes) < 2 ^ 64"
  shows "capture_loop reads (take (MAX_MANIFEST_BYTES + 1) seen, of_nat (length seen)) =
    Ok (take (MAX_MANIFEST_BYTES + 1) (seen @ bytes), of_nat (length (seen @ bytes)))"
  using assms
proof (induction reads arbitrary: seen bytes)
  case (Cons read reads)
  show ?case
  proof (cases read)
    case (Inr block)
    show ?thesis
    proof (cases "block = []")
      case False
      with Cons.prems(1) Inr obtain rest where rest: "received reads = Ok rest" "bytes = block @ rest" by auto
      have kept: "take (MAX_MANIFEST_BYTES + 1) seen @
          take (MAX_MANIFEST_BYTES + 1 - length (take (MAX_MANIFEST_BYTES + 1) seen)) block
          = take (MAX_MANIFEST_BYTES + 1) (seen @ block)"
        by (simp add: min_def)
      have count: "saturating_add (of_nat (length seen) :: u64) (of_nat (length block)) = of_nat (length (seen @ block))"
        using saturating_add_of_nat [of "length seen" "length block"] Cons.prems(2) rest(2) by simp
      show ?thesis
        using Cons.IH [OF rest(1), of "seen @ block"] Cons.prems(2) False rest(2)
        unfolding Inr capture_loop.simps kept count by simp
    qed (use Cons.prems Inr in simp)
  qed (use Cons.prems in simp)
qed simp

lemma capture_loop_ok: "capture_loop reads state = Ok state' \<Longrightarrow> \<exists>bytes. received reads = Ok bytes"
  by (induction reads state rule: capture_loop.induct) (auto split: if_splits)

text \<open>
  The manifest a process writes is captured whole up to its bound, whatever the
  blocks it arrives in: the capture holds the first 2 MiB and one byte, counts every byte, and is
  marked as truncated exactly when the manifest is longer than 2 MiB.
\<close>

theorem captured_manifest_exact:
  assumes "\<And>bytes. received reads = Ok bytes \<Longrightarrow> length bytes < 2 ^ 64"
  shows "capture_manifest reads = Ok capture \<longleftrightarrow> (\<exists>bytes. received reads = Ok bytes \<and>
    capture = \<lparr>mc_payload = take (MAX_MANIFEST_BYTES + 1) bytes, mc_observed = of_nat (length bytes),
      mc_truncated = (MAX_MANIFEST_BYTES < length bytes)\<rparr>)"
proof (cases "received reads")
  case (Inl e)
  then have "capture_loop reads state \<noteq> Ok state'" for state state' using capture_loop_ok by fastforce
  then show ?thesis using Inl by (cases "capture_loop reads ([], 0)") (auto simp: capture_manifest_def)
next
  case (Inr bytes)
  have "length bytes < 2 ^ 64" using assms [OF Inr] .
  then have "(of_nat MAX_MANIFEST_BYTES < (of_nat (length bytes) :: u64)) = (MAX_MANIFEST_BYTES < length bytes)"
    using unat_of_nat_small [of "length bytes"] by (simp add: word_less_nat_alt MAX_MANIFEST_BYTES_def)
  then show ?thesis
    using capture_loop_received [OF Inr, of "[]"] \<open>length bytes < 2 ^ 64\<close> Inr
    by (auto simp: capture_manifest_def)
qed

section \<open>Completion events\<close>

lemma event_payload_ok:
  "event_payload payload reads = Ok line \<Longrightarrow> CHR 0x0A \<notin> set payload \<Longrightarrow>
     CHR 0x0A \<notin> set line \<and> (\<exists>blocks later. reads = map Inr blocks @ later \<and> payload @ concat blocks = line @ [CHR 0x0A])"
proof (induction payload reads rule: event_payload.induct)
  case (3 payload block reads)
  show ?case
  proof (cases "CHR 0x0A \<in> set block")
    case True
    let ?line = "takeWhile (\<lambda>c. c \<noteq> CHR 0x0A) block"
    have line: "line = payload @ ?line" "length ?line + 1 = length block"
      using 3 True by (auto simp: Let_def split: if_splits)
    have drops: "block = ?line @ dropWhile (\<lambda>c. c \<noteq> CHR 0x0A) block" by simp
    have "length (dropWhile (\<lambda>c. c \<noteq> CHR 0x0A) block) = 1"
      using line(2) length_append [of ?line "dropWhile (\<lambda>c. c \<noteq> CHR 0x0A) block"] unfolding takeWhile_dropWhile_id by linarith
    moreover have "hd (dropWhile (\<lambda>c. c \<noteq> CHR 0x0A) block) = CHR 0x0A"
      using True hd_dropWhile [of "\<lambda>c. c \<noteq> CHR 0x0A" block] by (auto simp: dropWhile_eq_Nil_conv)
    ultimately have "dropWhile (\<lambda>c. c \<noteq> CHR 0x0A) block = [CHR 0x0A]"
      by (cases "dropWhile (\<lambda>c. c \<noteq> CHR 0x0A) block") auto
    then have "block = ?line @ [CHR 0x0A]" using drops by metis
    then have "Inr block # reads = map Inr [block] @ reads \<and> payload @ concat [block] = line @ [CHR 0x0A]"
      using line(1) by simp
    moreover have "CHR 0x0A \<notin> set line" using 3(3) line(1) set_takeWhileD by fastforce
    ultimately show ?thesis by blast
  next
    case False
    then have nonempty: "block \<noteq> []" and short: "\<not> MAX_EVENT_BYTES < length (payload @ block)"
      and more: "event_payload (payload @ block) reads = Ok line"
      using "3.prems"(1) by (auto split: if_splits)
    obtain blocks later where "CHR 0x0A \<notin> set line" "reads = map Inr blocks @ later"
        "(payload @ block) @ concat blocks = line @ [CHR 0x0A]"
      using "3.IH" [OF nonempty False short more] "3.prems"(2) False by auto
    then have "Inr block # reads = map Inr (block # blocks) @ later \<and> payload @ concat (block # blocks) = line @ [CHR 0x0A]"
      by simp
    with \<open>CHR 0x0A \<notin> set line\<close> show ?thesis by blast
  qed
qed simp_all

text \<open>
  A completion event that was accepted is one line of at most 4096 bytes at the start of the pipe.
  What follows it is refused or overlooked depending on the blocks: in the same block it is
  trailing data, in a later one it is never read.
\<close>

lemma read_event_line:
  assumes "read_event decode reads = Ok event"
  shows "\<exists>line blocks later. reads = map Inr blocks @ later \<and> concat blocks = line @ [CHR 0x0A] \<and>
    CHR 0x0A \<notin> set line \<and> length line \<le> MAX_EVENT_BYTES \<and> decode line = Ok event"
proof -
  obtain line where line: "event_payload [] reads = Ok line" "length line \<le> MAX_EVENT_BYTES" "decode line = Ok event"
    using assms by (auto simp: read_event_def split: if_splits sum.splits)
  with event_payload_ok [OF line(1)] show ?thesis by auto
qed

lemma completion_event_race:
  assumes "CHR 0x0A \<notin> set line" and "length line \<le> MAX_EVENT_BYTES" and "decode line = Ok event" and "extra \<noteq> []"
  shows "read_event decode [Inr (line @ [CHR 0x0A]), Inr extra] = Ok event
    \<and> read_event decode [Inr (line @ CHR 0x0A # extra)] = Err (ExecutorError ''completion event contains trailing data'')"
proof -
  have "takeWhile (\<lambda>c. c \<noteq> CHR 0x0A) (line @ CHR 0x0A # rest) = line" for rest
    using assms(1) by (induction line) auto
  then show ?thesis using assms(2-4) by (simp add: read_event_def)
qed

end
