(* ===== verification/Process_Group.thy ===== *)
theory Process_Group
  imports Civil_Time Retention
begin

text \<open>
  Ending a process and its process group (\<^verbatim>\<open>signal_group\<close>, \<^verbatim>\<open>process_group_exists\<close>,
  \<^verbatim>\<open>cleanup_process_group\<close> and \<^verbatim>\<open>terminate\<close> of \<^verbatim>\<open>src/rust/executor-core/src/process.rs\<close>).  The
  answers of the kernel are a parameter: functions of a state of the operating system, which they
  change.  Time is in milliseconds; a sleep lasts at least as long as asked.  The state keeps a
  trace of what was observed and sent, over which the lemmas state that a successful cleanup
  leaves no group behind unless it has been killed, and that nothing is killed before the
  grace period has passed.
\<close>

section \<open>The kernel\<close>

datatype ExitStatus = ExitCode int | ExitSignal int | NoExitStatus

definition exit_success :: "ExitStatus \<Rightarrow> bool" where
  "exit_success status \<longleftrightarrow> status = ExitCode 0"

fun exit_code :: "ExitStatus \<Rightarrow> int option" where
  "exit_code (ExitCode code) = Some code"
| "exit_code (ExitSignal signal) = Some (- signal)"
| "exit_code NoExitStatus = None"

definition show_int :: "int \<Rightarrow> string" where
  "show_int i = (if i < 0 then CHR ''-'' # decimal (nat (- i)) else decimal (nat i))"

fun display_exit :: "ExitStatus \<Rightarrow> string" where
  "display_exit (ExitCode code) = show_int code"
| "display_exit (ExitSignal signal) = ''from signal '' @ show_int signal"
| "display_exit NoExitStatus = ''without a status''"

datatype Signal = SIGTERM | SIGKILL

datatype Errno = SRCH | OtherErrno string

text \<open>
  \<open>k_probe\<close> is the null signal to the group, \<open>k_delay\<close> by how much a sleep is late, and \<open>k_wait_within\<close>
  whether waiting for the child ran into the given time.
\<close>

record 'os Kernel =
  k_probe :: "'os \<Rightarrow> (Errno, unit) result \<times> 'os"
  k_signal :: "Signal \<Rightarrow> 'os \<Rightarrow> (Errno, unit) result \<times> 'os"
  k_delay :: "'os \<Rightarrow> nat \<times> 'os"
  k_try_wait :: "'os \<Rightarrow> (string, ExitStatus option) result \<times> 'os"
  k_wait :: "'os \<Rightarrow> (string, ExitStatus) result \<times> 'os"
  k_wait_within :: "nat \<Rightarrow> 'os \<Rightarrow> bool \<times> 'os"

datatype GroupEvent = Seen bool | Sent Signal nat

record 'os Group =
  g_os :: 'os
  g_now :: nat
  g_trace :: "GroupEvent list"

definition TERMINATION_GRACE :: nat where
  "TERMINATION_GRACE = 2000"

definition GROUP_OBSERVATION_INTERVAL :: nat where
  "GROUP_OBSERVATION_INTERVAL = 50"

text \<open>The \<^verbatim>\<open>?\<close> operator on an operation that changes the state.\<close>

definition io_then :: "('e, 'a) result \<times> 's \<Rightarrow> ('a \<Rightarrow> 's \<Rightarrow> ('e, 'b) result \<times> 's) \<Rightarrow> ('e, 'b) result \<times> 's" where
  "io_then answer f = (case answer of (Inl e, s) \<Rightarrow> (Err e, s) | (Inr x, s) \<Rightarrow> f x s)"

section \<open>Process groups\<close>

definition group_error :: "string \<Rightarrow> int \<Rightarrow> string \<Rightarrow> ExecutorError" where
  "group_error action pgid source = ExecutorError (''cannot '' @ action @ '' process group '' @ show_int pgid @ '': '' @ source)"

definition signal_group :: "'os Kernel \<Rightarrow> int \<Rightarrow> Signal \<Rightarrow> 'os Group \<Rightarrow> (ExecutorError, unit) result \<times> 'os Group" where
  "signal_group k pgid signal g =
     (if pgid = 0 then (Err (ExecutorError ''process group id is invalid''), g)
      else
        let (answer, os) = k_signal k signal (g_os g);
            g = g\<lparr>g_os := os, g_trace := g_trace g @ [Sent signal (g_now g)]\<rparr>
        in case answer of
             Inl (OtherErrno source) \<Rightarrow> (Err (group_error ''signal'' pgid source), g)
           | _ \<Rightarrow> (Ok (), g))"

definition process_group_exists :: "'os Kernel \<Rightarrow> int \<Rightarrow> 'os Group \<Rightarrow> (ExecutorError, bool) result \<times> 'os Group" where
  "process_group_exists k pgid g =
     (if pgid = 0 then (Err (ExecutorError ''process group id is invalid''), g)
      else
        let (answer, os) = k_probe k (g_os g)
        in case answer of
             Inl (OtherErrno source) \<Rightarrow> (Err (group_error ''inspect'' pgid source), g\<lparr>g_os := os\<rparr>)
           | Inl SRCH \<Rightarrow> (Ok False, g\<lparr>g_os := os, g_trace := g_trace g @ [Seen False]\<rparr>)
           | Inr u \<Rightarrow> (Ok True, g\<lparr>g_os := os, g_trace := g_trace g @ [Seen True]\<rparr>))"

definition observation_sleep :: "'os Kernel \<Rightarrow> 'os Group \<Rightarrow> 'os Group" where
  "observation_sleep k g =
     (let (late, os) = k_delay k (g_os g)
      in g\<lparr>g_os := os, g_now := g_now g + GROUP_OBSERVATION_INTERVAL + late\<rparr>)"

lemma process_group_exists_now: "g_now (snd (process_group_exists k pgid g)) = g_now g"
  by (simp add: process_group_exists_def Let_def split: prod.splits sum.splits Errno.splits)

lemma observation_sleep_now: "g_now g < g_now (observation_sleep k g)"
  by (simp add: observation_sleep_def Let_def GROUP_OBSERVATION_INTERVAL_def split: prod.splits)

text \<open>The loop that waits for a group that was asked to end, until \<open>deadline\<close>.\<close>

function observe_group :: "'os Kernel \<Rightarrow> int \<Rightarrow> nat \<Rightarrow> 'os Group \<Rightarrow> (ExecutorError, unit) result \<times> 'os Group" where
  "observe_group k pgid deadline g =
     (case process_group_exists k pgid g of
        (Inl e, g2) \<Rightarrow> (Err e, g2)
      | (Inr present, g2) \<Rightarrow>
          if present \<and> g_now g2 < deadline then observe_group k pgid deadline (observation_sleep k g2)
          else (Ok (), g2))"
  by pat_completeness auto
termination observe_group
proof (relation "measure (\<lambda>(k, pgid, deadline, g). deadline - g_now g)")
  fix k :: "'os Kernel" and pgid deadline g x g2 present
  assume "(x, g2) = process_group_exists k pgid g" and "present \<and> g_now g2 < deadline"
  then have "g_now g2 = g_now g" using process_group_exists_now [of k pgid g] by (metis snd_conv)
  then show "((k, pgid, deadline, observation_sleep k g2), (k, pgid, deadline, g))
      \<in> measure (\<lambda>(k, pgid, deadline, g). deadline - g_now g)"
    using observation_sleep_now [of g2 k] \<open>present \<and> g_now g2 < deadline\<close> by (auto intro: diff_less_mono2)
qed simp

declare observe_group.simps [simp del]

definition cleanup_process_group :: "'os Kernel \<Rightarrow> int \<Rightarrow> 'os Group \<Rightarrow> (ExecutorError, unit) result \<times> 'os Group" where
  "cleanup_process_group k pgid g =
     io_then (process_group_exists k pgid g) (\<lambda>present g.
       if \<not> present then (Ok (), g)
       else io_then (signal_group k pgid SIGTERM g) (\<lambda>_ g.
         io_then (observe_group k pgid (g_now g + TERMINATION_GRACE) g) (\<lambda>_ g.
           io_then (process_group_exists k pgid g) (\<lambda>present g.
             if present then signal_group k pgid SIGKILL g else (Ok (), g)))))"

text \<open>Waiting for the child for at most the grace period; whether the period ran out.\<close>

definition wait_grace :: "'os Kernel \<Rightarrow> 'os Group \<Rightarrow> bool \<times> 'os Group" where
  "wait_grace k g =
     (let (elapsed, os) = k_wait_within k TERMINATION_GRACE (g_os g)
      in (elapsed, g\<lparr>g_os := os, g_now := g_now g + (if elapsed then TERMINATION_GRACE else 0)\<rparr>))"

definition wait_child :: "'os Kernel \<Rightarrow> 'os Group \<Rightarrow> (ExecutorError, ExitStatus) result \<times> 'os Group" where
  "wait_child k g =
     (let (answer, os) = k_wait k (g_os g)
      in (case answer of Inl source \<Rightarrow> Err (ExecutorError source) | Inr status \<Rightarrow> Ok status, g\<lparr>g_os := os\<rparr>))"

definition try_wait_child :: "'os Kernel \<Rightarrow> 'os Group \<Rightarrow> (ExecutorError, ExitStatus option) result \<times> 'os Group" where
  "try_wait_child k g =
     (let (answer, os) = k_try_wait k (g_os g)
      in (case answer of Inl source \<Rightarrow> Err (ExecutorError source) | Inr status \<Rightarrow> Ok status, g\<lparr>g_os := os\<rparr>))"

definition terminate :: "'os Kernel \<Rightarrow> int \<Rightarrow> 'os Group \<Rightarrow> (ExecutorError, unit) result \<times> 'os Group" where
  "terminate k pgid g =
     io_then (try_wait_child k g) (\<lambda>status g.
       if status \<noteq> None then cleanup_process_group k pgid g
       else io_then (signal_group k pgid SIGTERM g) (\<lambda>_ g.
         let (elapsed, g) = wait_grace k g
         in io_then
              (if elapsed
               then io_then (signal_group k pgid SIGKILL g) (\<lambda>_ g. io_then (wait_child k g) (\<lambda>_ g. (Ok (), g)))
               else (Ok (), g))
              (\<lambda>_ g. cleanup_process_group k pgid g)))"

section \<open>What a cleanup leaves behind\<close>

text \<open>The group is gone: it was seen to be, or it was killed.\<close>

definition group_gone :: "GroupEvent list \<Rightarrow> bool" where
  "group_gone trace \<longleftrightarrow> trace \<noteq> [] \<and> (last trace = Seen False \<or> (\<exists>t. last trace = Sent SIGKILL t))"

text \<open>
  A \<^verbatim>\<open>SIGKILL\<close> at \<open>t\<close> is late enough: the group has been asked to end, and every \<^verbatim>\<open>SIGTERM\<close> that was
  sent to it is at least the grace period old.
\<close>

definition late_kill :: "GroupEvent list \<Rightarrow> nat \<Rightarrow> bool" where
  "late_kill earlier t \<longleftrightarrow> (\<exists>s. Sent SIGTERM s \<in> set earlier) \<and>
     (\<forall>s. Sent SIGTERM s \<in> set earlier \<longrightarrow> s + TERMINATION_GRACE \<le> t)"

text \<open>
  What the code relies on of process groups: a group that a probe finds without processes has none at the next
  probe either; its id is not given to a new group in between.
\<close>

definition group_stays_gone :: "'os Kernel \<Rightarrow> bool" where
  "group_stays_gone k \<longleftrightarrow> (\<forall>os os'. k_probe k os = (Err SRCH, os') \<longrightarrow> fst (k_probe k os') \<noteq> Ok ())"

text \<open>Nothing in the trace lies in the future.\<close>

definition sent_before :: "'os Group \<Rightarrow> bool" where
  "sent_before g \<longleftrightarrow> (\<forall>signal t. Sent signal t \<in> set (g_trace g) \<longrightarrow> t \<le> g_now g)"

definition kills_late :: "GroupEvent list \<Rightarrow> bool" where
  "kills_late trace \<longleftrightarrow> (\<forall>earlier t later. trace = earlier @ Sent SIGKILL t # later \<longrightarrow> late_kill earlier t)"

lemma kills_late_Nil [simp]: "kills_late []"
  by (simp add: kills_late_def)

lemma kills_late_snoc:
  "kills_late (trace @ [e]) \<longleftrightarrow> kills_late trace \<and> (\<forall>t. e = Sent SIGKILL t \<longrightarrow> late_kill trace t)"
proof
  assume late: "kills_late (trace @ [e])"
  have "late_kill earlier t" if "trace = earlier @ Sent SIGKILL t # later" for earlier t later
    using late [unfolded kills_late_def, rule_format, of earlier t "later @ [e]"] that by simp
  moreover have "late_kill trace t" if "e = Sent SIGKILL t" for t
    using late [unfolded kills_late_def, rule_format, of trace t "[]"] that by simp
  ultimately show "kills_late trace \<and> (\<forall>t. e = Sent SIGKILL t \<longrightarrow> late_kill trace t)"
    by (simp add: kills_late_def)
next
  assume late: "kills_late trace \<and> (\<forall>t. e = Sent SIGKILL t \<longrightarrow> late_kill trace t)"
  have "late_kill earlier t" if split: "trace @ [e] = earlier @ Sent SIGKILL t # later" for earlier t later
  proof (cases later rule: rev_cases)
    case Nil
    then show ?thesis using split late by simp
  next
    case (snoc more f)
    then have "trace = earlier @ Sent SIGKILL t # more" using split by simp
    then show ?thesis using late unfolding kills_late_def by blast
  qed
  then show "kills_late (trace @ [e])" by (simp add: kills_late_def)
qed

lemma kills_late_append:
  "kills_late trace \<Longrightarrow> (\<And>t. Sent SIGKILL t \<notin> set events) \<Longrightarrow> kills_late (trace @ events)"
proof (induction events rule: rev_induct)
  case (snoc e events)
  then have "kills_late ((trace @ events) @ [e])" unfolding kills_late_snoc by auto
  then show ?case by simp
qed simp

lemma process_group_exists_trace:
  assumes "process_group_exists k pgid g = (answer, g')"
  shows "g_now g' = g_now g" and "answer = Ok present \<Longrightarrow> g_trace g' = g_trace g @ [Seen present]"
    and "\<exists>events. g_trace g' = g_trace g @ events \<and> (\<forall>signal t. Sent signal t \<notin> set events)"
    and "answer = Ok True \<Longrightarrow> fst (k_probe k (g_os g)) = Ok ()"
    and "answer = Ok False \<Longrightarrow> k_probe k (g_os g) = (Err SRCH, g_os g')"
  using assms by (auto simp: process_group_exists_def Let_def split: if_splits prod.splits sum.splits Errno.splits)

lemma signal_group_trace:
  assumes "signal_group k pgid signal g = (answer, g')"
  shows "g_now g' = g_now g" and "answer = Ok u \<Longrightarrow> g_trace g' = g_trace g @ [Sent signal (g_now g)]"
    and "g_trace g' = g_trace g \<or> g_trace g' = g_trace g @ [Sent signal (g_now g)]"
  using assms by (auto simp: signal_group_def Let_def split: if_splits prod.splits sum.splits Errno.splits)

text \<open>The waiting loop only observes; when it ends well, the group was just seen gone or the deadline has passed.\<close>

lemma observe_group_trace:
  assumes "observe_group k pgid deadline g = (answer, g')"
  shows "g_now g \<le> g_now g' \<and> (\<exists>events. g_trace g' = g_trace g @ events \<and> (\<forall>signal t. Sent signal t \<notin> set events)) \<and>
    (answer = Ok () \<longrightarrow> (\<exists>os. k_probe k os = (Err SRCH, g_os g')) \<or> deadline \<le> g_now g')"
  using assms
proof (induction k pgid deadline g rule: observe_group.induct)
  case (1 k pgid deadline g)
  obtain probe g2 where probe: "process_group_exists k pgid g = (probe, g2)" by fastforce
  note seen = process_group_exists_trace [OF probe]
  show ?case
  proof (cases probe)
    case (Inl e)
    have "answer = Err e \<and> g' = g2" using "1.prems" by (subst (asm) observe_group.simps) (simp add: probe Inl)
    then show ?thesis using seen(1,3) by auto
  next
    case (Inr present)
    have trace: "g_trace g2 = g_trace g @ [Seen present]" using seen(2) Inr by simp
    show ?thesis
    proof (cases "present \<and> g_now g2 < deadline")
      case True
      let ?g3 = "observation_sleep k g2"
      have g3: "g_trace ?g3 = g_trace g2" by (simp add: observation_sleep_def Let_def split: prod.splits)
      have "observe_group k pgid deadline ?g3 = (answer, g')"
        using "1.prems" True by (subst (asm) observe_group.simps) (simp add: probe Inr)
      from "1.IH" [OF probe [symmetric] Inr True this] observation_sleep_now [of g2 k] seen(1)
      show ?thesis unfolding g3 trace by fastforce
    next
      case False
      then have ended: "answer = Ok () \<and> g' = g2"
        using "1.prems" by (subst (asm) observe_group.simps) (auto simp: probe Inr)
      have "k_probe k (g_os g) = (Err SRCH, g_os g2)" if "\<not> present"
        using seen(5) Inr that by simp
      then show ?thesis using False trace seen(1) ended by (cases present) auto
    qed
  qed
qed

text \<open>What every operation keeps: nothing is killed early, and the trace lies in the past.\<close>

definition graceful :: "'os Group \<Rightarrow> bool" where
  "graceful g \<longleftrightarrow> kills_late (g_trace g) \<and> sent_before g"

lemma graceful_quiet:
  assumes "graceful g" and "g_now g \<le> g_now g'" and "g_trace g' = g_trace g @ events" and "\<forall>signal t. Sent signal t \<notin> set events"
  shows "graceful g'"
  using assms kills_late_append [of "g_trace g" events] by (fastforce simp: graceful_def sent_before_def)

lemma exists_graceful: "process_group_exists k pgid g = (answer, g') \<Longrightarrow> graceful g \<Longrightarrow> graceful g'"
  using process_group_exists_trace(1,3) [of k pgid g answer g'] graceful_quiet by (metis order_refl)

lemma observe_graceful: "observe_group k pgid deadline g = (answer, g') \<Longrightarrow> graceful g \<Longrightarrow> graceful g'"
  using observe_group_trace [of k pgid deadline g answer g'] graceful_quiet by metis

lemma signal_graceful:
  "signal_group k pgid signal g = (answer, g') \<Longrightarrow> graceful g \<Longrightarrow>
     (signal = SIGKILL \<Longrightarrow> late_kill (g_trace g) (g_now g)) \<Longrightarrow> graceful g'"
  using signal_group_trace(1,3) [of k pgid signal g answer g']
  by (auto simp: graceful_def sent_before_def kills_late_snoc)

text \<open>A request to end, and a wait of at least the grace period without another one.\<close>

lemma late_after_request:
  assumes "signal_group k pgid SIGTERM g = (Ok u, g1)" and "graceful g"
    and "g_trace g2 = g_trace g1 @ events" and "\<forall>signal t. Sent signal t \<notin> set events"
    and "g_now g1 + TERMINATION_GRACE \<le> g_now g2"
  shows "late_kill (g_trace g2) (g_now g2)"
proof -
  have "g_trace g1 = g_trace g @ [Sent SIGTERM (g_now g)]" "g_now g1 = g_now g"
    using signal_group_trace(1,2) [OF assms(1)] by simp_all
  then show ?thesis
    using assms(2-5) by (fastforce simp: late_kill_def graceful_def sent_before_def)
qed

lemma io_then_cases:
  assumes "io_then answer f = (result, g')"
  obtains e where "answer = (Err e, g')" "result = Err e"
  | x g where "answer = (Ok x, g)" "f x g = (result, g')"
  using assms by (auto simp: io_then_def split: prod.splits sum.splits)

text \<open>The end of a cleanup that has asked the group to end.\<close>

lemma cleanup_asked:
  assumes "group_stays_gone k" and "graceful g" and "signal_group k pgid SIGTERM g = (Ok u, g1)"
    and "io_then (observe_group k pgid (g_now g1 + TERMINATION_GRACE) g1) (\<lambda>_ g.
           io_then (process_group_exists k pgid g) (\<lambda>present g.
             if present then signal_group k pgid SIGKILL g else (Ok (), g))) = (answer, g')"
  shows "graceful g' \<and> (answer = Ok () \<longrightarrow> group_gone (g_trace g'))"
proof -
  have kept1: "graceful g1"
    using signal_graceful [OF assms(3,2)] by simp
  from assms(4) show ?thesis
  proof (cases rule: io_then_cases)
    case (1 e)
    then show ?thesis using observe_graceful [OF 1(1) kept1] by simp
  next
    case (2 v g2)
    note seen = observe_group_trace [OF 2(1)] and kept2 = observe_graceful [OF 2(1) kept1]
    from 2(2) show ?thesis
    proof (cases rule: io_then_cases)
      case (1 e)
      then show ?thesis using exists_graceful [OF 1(1) kept2] by simp
    next
      case (2 again g3)
      note probed = process_group_exists_trace [OF 2(1)] and kept3 = exists_graceful [OF 2(1) kept2]
      show ?thesis
      proof (cases again)
        case True
        then have killed: "signal_group k pgid SIGKILL g3 = (answer, g')" using 2(2) by simp
        have "\<not> (\<exists>os. k_probe k os = (Err SRCH, g_os g2))"
          using probed(4) True assms(1) by (auto simp: group_stays_gone_def)
        then have waited: "g_now g1 + TERMINATION_GRACE \<le> g_now g3" using seen probed(1) by simp
        obtain events where "g_trace g2 = g_trace g1 @ events" "\<forall>signal t. Sent signal t \<notin> set events"
          using seen by blast
        moreover have "g_trace g3 = g_trace g2 @ [Seen True]" using probed(2) True by simp
        ultimately have "late_kill (g_trace g3) (g_now g3)"
          using late_after_request [OF assms(3,2) _ _ waited, of "events @ [Seen True]"] by simp
        then show ?thesis
          using signal_graceful [OF killed kept3] signal_group_trace(2) [OF killed] by (auto simp: group_gone_def)
      next
        case False
        then show ?thesis using 2(2) kept3 probed(2) by (auto simp: group_gone_def)
      qed
    qed
  qed
qed

lemma cleanup_graceful:
  assumes "group_stays_gone k" and "cleanup_process_group k pgid g = (answer, g')" and "graceful g"
  shows "graceful g' \<and> (answer = Ok () \<longrightarrow> group_gone (g_trace g'))"
  using assms(2) [unfolded cleanup_process_group_def]
proof (cases rule: io_then_cases)
  case (1 e)
  then show ?thesis using exists_graceful [OF 1(1) assms(3)] by simp
next
  case (2 present g1)
  note kept1 = exists_graceful [OF 2(1) assms(3)]
  show ?thesis
  proof (cases present)
    case False
    then show ?thesis using 2 kept1 process_group_exists_trace(2) [OF 2(1)] by (auto simp: group_gone_def)
  next
    case True
    with 2(2) have "io_then (signal_group k pgid SIGTERM g1) (\<lambda>_ g.
         io_then (observe_group k pgid (g_now g + TERMINATION_GRACE) g) (\<lambda>_ g.
           io_then (process_group_exists k pgid g) (\<lambda>present g.
             if present then signal_group k pgid SIGKILL g else (Ok (), g)))) = (answer, g')" by simp
    then show ?thesis
    proof (cases rule: io_then_cases)
      case (1 e)
      then show ?thesis using signal_graceful [OF 1(1) kept1] by simp
    next
      case (2 u g2)
      then show ?thesis using cleanup_asked [OF assms(1) kept1 2(1)] by simp
    qed
  qed
qed

text \<open>Whatever the kernel answers, a cleanup that succeeds leaves no group behind.\<close>

lemma ended_gone:
  "process_group_exists k pgid g = (Ok False, g') \<Longrightarrow> group_gone (g_trace g')"
  "signal_group k pgid SIGKILL g = (Ok u, g') \<Longrightarrow> group_gone (g_trace g')"
  using process_group_exists_trace(2) [of k pgid g "Ok False" g' False] signal_group_trace(2) [of k pgid SIGKILL g "Ok u" g' u]
  by (simp_all add: group_gone_def)

lemma cleanup_gone:
  assumes "cleanup_process_group k pgid g = (Ok u, g')"
  shows "group_gone (g_trace g')"
  using assms unfolding cleanup_process_group_def
  by (elim io_then_cases) (auto split: if_splits elim!: io_then_cases intro: ended_gone)

lemma wait_grace_trace:
  "wait_grace k g = (elapsed, g') \<Longrightarrow> g_trace g' = g_trace g \<and> g_now g' = g_now g + (if elapsed then TERMINATION_GRACE else 0)"
  by (auto simp: wait_grace_def Let_def split: prod.splits)

lemma wait_child_trace: "wait_child k g = (answer, g') \<Longrightarrow> g_trace g' = g_trace g \<and> g_now g' = g_now g"
  by (auto simp: wait_child_def Let_def split: prod.splits)

lemma try_wait_child_trace: "try_wait_child k g = (answer, g') \<Longrightarrow> g_trace g' = g_trace g \<and> g_now g' = g_now g"
  by (auto simp: try_wait_child_def Let_def split: prod.splits)

lemma same_trace_graceful: "g_trace g' = g_trace g \<and> g_now g' = g_now g \<Longrightarrow> graceful g \<Longrightarrow> graceful g'"
  by (simp add: graceful_def sent_before_def)

lemma kill_child_graceful:
  assumes "io_then (signal_group k pgid SIGKILL g) (\<lambda>_ g. io_then (wait_child k g) (\<lambda>_ g. (Ok (), g))) = (answer, g')"
    and "graceful g" and "late_kill (g_trace g) (g_now g)"
  shows "graceful g'"
  using assms(1)
proof (cases rule: io_then_cases)
  case (1 e)
  then show ?thesis using signal_graceful [OF 1(1) assms(2)] assms(3) by simp
next
  case (2 u g1)
  have "graceful g1" using signal_graceful [OF 2(1) assms(2)] assms(3) by simp
  with 2(2) show ?thesis
    by (cases rule: io_then_cases) (use same_trace_graceful wait_child_trace [of k g1] in auto)
qed

lemma terminate_graceful:
  assumes "group_stays_gone k" and "terminate k pgid g = (answer, g')" and "graceful g"
  shows "graceful g' \<and> (answer = Ok () \<longrightarrow> group_gone (g_trace g'))"
  using assms(2) [unfolded terminate_def]
proof (cases rule: io_then_cases)
  case (1 e)
  then show ?thesis using same_trace_graceful [OF try_wait_child_trace [OF 1(1)] assms(3)] by simp
next
  case (2 status g1)
  have kept1: "graceful g1" using same_trace_graceful [OF try_wait_child_trace [OF 2(1)] assms(3)] .
  show ?thesis
  proof (cases "status = None")
    case False
    then show ?thesis using 2(2) cleanup_graceful [OF assms(1) _ kept1] by simp
  next
    case True
    from True 2(2) have "io_then (signal_group k pgid SIGTERM g1) (\<lambda>_ g.
         let (elapsed, g) = wait_grace k g
         in io_then
              (if elapsed
               then io_then (signal_group k pgid SIGKILL g) (\<lambda>_ g. io_then (wait_child k g) (\<lambda>_ g. (Ok (), g)))
               else (Ok (), g))
              (\<lambda>_ g. cleanup_process_group k pgid g)) = (answer, g')" by simp
    then show ?thesis
    proof (cases rule: io_then_cases)
      case (1 e)
      then show ?thesis using signal_graceful [OF 1(1) kept1] by simp
    next
      case (2 u g2)
      have kept2: "graceful g2" using signal_graceful [OF 2(1) kept1] by simp
      obtain elapsed g3 where grace: "wait_grace k g2 = (elapsed, g3)" by fastforce
      note waited = wait_grace_trace [OF grace]
      have kept3: "graceful g3" using graceful_quiet [OF kept2, of g3 "[]"] waited by simp
      have due: "late_kill (g_trace g3) (g_now g3)" if elapsed
        using late_after_request [OF 2(1) kept1, of g3 "[]"] waited that by simp
      from 2(2) have "io_then
          (if elapsed
           then io_then (signal_group k pgid SIGKILL g3) (\<lambda>_ g. io_then (wait_child k g) (\<lambda>_ g. (Ok (), g)))
           else (Ok (), g3)) (\<lambda>_ g. cleanup_process_group k pgid g) = (answer, g')"
        by (simp add: grace)
      then show ?thesis
      proof (cases rule: io_then_cases)
        case (1 e)
        then show ?thesis using kill_child_graceful [OF _ kept3] due kept3 by (auto split: if_splits)
      next
        case (2 v g4)
        have "graceful g4" using 2(1) kill_child_graceful [OF _ kept3] due kept3 by (auto split: if_splits)
        then show ?thesis using cleanup_graceful [OF assms(1) 2(2)] by simp
      qed
    qed
  qed
qed

text \<open>
  C16: ending a process gives it and its group time.  Given that a process group that is gone does
  not come back, a group is killed only after it was asked to end and when every request to end is at least the
  grace period of two seconds old, and when the termination reports success, the group was
  seen to be gone or has been killed.
\<close>

theorem terminate_gracefully:
  assumes "group_stays_gone k" and "terminate k pgid (g\<lparr>g_trace := []\<rparr>) = (answer, g')"
  shows "kills_late (g_trace g') \<and> (answer = Ok () \<longrightarrow> group_gone (g_trace g'))"
  using terminate_graceful [OF assms] by (simp add: graceful_def sent_before_def)

text \<open>A kernel in which the group ignores the request to end: the child and the group have to be killed.\<close>

definition stubborn_kernel :: "bool Kernel" where
  "stubborn_kernel = \<lparr>k_probe = (\<lambda>alive. (if alive then Ok () else Err SRCH, alive)),
     k_signal = (\<lambda>signal alive. (Ok (), alive \<and> signal = SIGTERM)), k_delay = (\<lambda>alive. (0, alive)),
     k_try_wait = (\<lambda>alive. (Ok (if alive then None else Some (ExitSignal 9)), alive)),
     k_wait = (\<lambda>alive. (Ok (ExitSignal 9), alive)), k_wait_within = (\<lambda>_ alive. (alive, alive))\<rparr>"

definition fresh_group :: "bool Group" where
  "fresh_group = \<lparr>g_os = True, g_now = 0, g_trace = []\<rparr>"

lemma stubborn_terminate:
  "terminate stubborn_kernel 7 (fresh_group\<lparr>g_trace := []\<rparr>) =
     (Ok (), \<lparr>g_os = False, g_now = 2000, g_trace = [Sent SIGTERM 0, Sent SIGKILL 2000, Seen False]\<rparr>)"
  by (simp add: terminate_def try_wait_child_def stubborn_kernel_def fresh_group_def io_then_def signal_group_def
      wait_grace_def wait_child_def cleanup_process_group_def process_group_exists_def TERMINATION_GRACE_def)

theorem terminate_gracefully_witness:
  "kills_late [Sent SIGTERM 0, Sent SIGKILL 2000, Seen False] \<and> group_gone [Sent SIGTERM 0, Sent SIGKILL 2000, Seen False]"
proof -
  have "group_stays_gone stubborn_kernel"
    by (auto simp: group_stays_gone_def stubborn_kernel_def split: if_splits)
  from terminate_gracefully [OF this stubborn_terminate] show ?thesis by simp
qed

end
