(* ===== verification/Process_Execution.thy ===== *)
theory Process_Execution
  imports Process_Streams Process_Group Check_Verdict Schedule
begin

text \<open>
  One process of the executor, from the request for capacity to its result
  (\<^verbatim>\<open>src/rust/executor-core/src/process.rs\<close>): the directories and logs it needs, its environment
  and descriptors, the race between its end, its completion event, its deadline, the cancellation
  of the run and a failure of its evidence, and what is left to do afterwards.  The answers of the
  operating system are fields of the environment \<open>ProcessEnv\<close>: for a request, what each step of the preparation
  answers, what the pipes of the child deliver, which of the events comes first, and the kernel
  for its process group.
\<close>

section \<open>Results\<close>

definition failure :: "ProcessStatus \<Rightarrow> int option \<Rightarrow> string \<Rightarrow> ProcessResult" where
  "failure status code reason =
     \<lparr>px_status = status, px_exit_code = code, px_reason = Some reason, px_streams = [], px_diagnostics = [],
      px_log_storage_failed = False, px_structured_evidence_invalid = False, px_process_started = False,
      px_service = None, px_manifest = None\<rparr>"

definition storage_failure :: "int option \<Rightarrow> string \<Rightarrow> ProcessResult" where
  "storage_failure code reason = (failure ProcessStatus.Unsafe code reason)\<lparr>px_log_storage_failed := True\<rparr>"

fun fatal_reason :: "FatalLeafError \<Rightarrow> string" where
  "fatal_reason FatalLeafError.LogStorage = ''log storage became incomplete''"
| "fatal_reason FatalLeafError.StructuredEvidence = ''structured diagnostic evidence is invalid''"

definition deadline_reason :: "u64 option \<Rightarrow> string \<Rightarrow> string" where
  "deadline_reason timeout kind =
     (case timeout of
        Some limit \<Rightarrow> kind @ '' exceeded '' @ decimal (unat limit) @ '' second deadline''
      | None \<Rightarrow> kind @ '' deadline elapsed'')"

section \<open>The environment of a process\<close>

definition DIAGNOSTIC_FD :: nat where "DIAGNOSTIC_FD = 197"
definition EVENT_FD :: nat where "EVENT_FD = 198"
definition MANIFEST_FD :: nat where "MANIFEST_FD = 199"

definition coordinator_variables :: "ProcessRequest \<Rightarrow> (string \<times> string) list" where
  "coordinator_variables request =
     [(''DEVCOORDINATOR_RUN_ID'', rq_run_id request),
      (''DEVCOORDINATOR_CHECK_NAME'', rq_check_name request),
      (''DEVCOORDINATOR_CHECK_SCRATCH'', rq_scratch request),
      (''DEVCOORDINATOR_SHARED_ARTIFACTS'', rq_shared_artifacts request),
      (''DEVCOORDINATOR_DIAGNOSTICS_DIR'', rq_diagnostics_dir request),
      (''DEVCOORDINATOR_EVIDENCE_DIR'', rq_evidence_dir request),
      (''DEVCOORDINATOR_DIAGNOSTIC_FD'', decimal DIAGNOSTIC_FD)] @
     (if rq_completion request = CompletionMode.Event then [(''DEVCOORDINATOR_EVENT_FD'', decimal EVENT_FD)] else []) @
     (if rq_capture_manifest request then [(''DEVCOORDINATOR_CASE_MANIFEST_FD'', decimal MANIFEST_FD)] else [])"

definition command_environment :: "ProcessRequest \<Rightarrow> (string, string) btree_map" where
  "command_environment request =
     fold (\<lambda>(key, v). bt_insert key v) (coordinator_variables request) (rq_env request)"

section \<open>Parameters\<close>

datatype Acquire = Granted | AcquireFailed string | AcquireCancelled

text \<open>The system calls of \<^verbatim>\<open>cloexec_pipe\<close>; the two on a descriptor name its end.\<close>

datatype PipeCall = CreatePipe | InspectEnd string | ProtectEnd string

text \<open>
  What the child delivers: its output, the diagnostic events, the manifest and the completion event.
  A task that panicked has no pipe (\<open>None\<close>).
\<close>

record ChildPipes =
  ch_stdout :: "pipe option"
  ch_stderr :: "pipe option"
  ch_diagnostics :: "pipe option"
  ch_manifest :: "(string, pipe) result"
  ch_event :: pipe

text \<open>What comes first while the process runs, and, for a service, what ends it.\<close>

datatype First =
    FirstEvent
  | FirstExit "(string, ExitStatus) result"
  | FirstTimeout
  | FirstCancel
  | FirstFatal "FatalLeafError option"

datatype ServiceEnd = ServiceWaited "(string, ExitStatus) result" | ServiceFatal "FatalLeafError option"

record 'os ProcessEnv =
  pe_sha256 :: "string \<Rightarrow> string"
  pe_log_os :: LogOs
  pe_decode_diagnostic :: "string \<Rightarrow> DiagnosticEvent option"
  pe_decode_event :: "string \<Rightarrow> (string, CompletionEvent) result"
  pe_acquire :: "ProcessRequest \<Rightarrow> CancellationScope \<Rightarrow> Acquire"
  pe_scratch :: "ProcessRequest \<Rightarrow> string option"
  pe_create_stream :: "ProcessRequest \<Rightarrow> LogStream \<Rightarrow> LogStoreError option"
  pe_create_dir :: "ProcessRequest \<Rightarrow> string option"
  pe_inspect_dir :: "ProcessRequest \<Rightarrow> (string, bool) result"
  pe_protect_dir :: "ProcessRequest \<Rightarrow> string option"
  pe_lock_poisoned :: "ProcessRequest \<Rightarrow> bool"
  pe_pipe_call :: "ProcessRequest \<Rightarrow> string \<Rightarrow> PipeCall \<Rightarrow> string option"
  pe_spawn :: "ProcessRequest \<Rightarrow> (string, int option) result"
  pe_child_pipe :: "ProcessRequest \<Rightarrow> LogStream \<Rightarrow> bool"
  pe_pipes :: "ProcessRequest \<Rightarrow> ChildPipes"
  pe_first :: "ProcessRequest \<Rightarrow> CancellationScope \<Rightarrow> First"
  pe_service_end :: "ProcessRequest \<Rightarrow> ServiceEnd"
  pe_kernel :: "ProcessRequest \<Rightarrow> 'os Kernel"
  pe_group :: "ProcessRequest \<Rightarrow> 'os Group"

section \<open>Starting the process\<close>

definition prepare_private_directory :: "'os ProcessEnv \<Rightarrow> ProcessRequest \<Rightarrow> string \<Rightarrow> (ExecutorError, unit) result" where
  "prepare_private_directory pe request label =
     (case pe_create_dir pe request of
        Some source \<Rightarrow> Err (ExecutorError (''cannot create '' @ label @ '' directory: '' @ source))
      | None \<Rightarrow>
          (case pe_inspect_dir pe request of
             Inl source \<Rightarrow> Err (ExecutorError (''cannot inspect '' @ label @ '' directory: '' @ source))
           | Inr real_directory \<Rightarrow>
               if \<not> real_directory then Err (ExecutorError (label @ '' directory is not a real directory''))
               else case pe_protect_dir pe request of
                   Some source \<Rightarrow> Err (ExecutorError (''cannot protect '' @ label @ '' directory: '' @ source))
                 | None \<Rightarrow> Ok ()))"

record SpawnFailure =
  sf_error :: ExecutorError
  sf_streams :: "StreamMetadata list"
  sf_storage_failed :: bool

definition SpawnFailure_from :: "ExecutorError \<Rightarrow> SpawnFailure" where
  "SpawnFailure_from error = \<lparr>sf_error = error, sf_streams = [], sf_storage_failed = True\<rparr>"

text \<open>The \<^verbatim>\<open>?\<close> operator on an error that becomes a failed start.\<close>

definition or_spawn_failure :: "(ExecutorError, 'a) result \<Rightarrow> (SpawnFailure, 'a) result" where
  "or_spawn_failure r = (case r of Inl e \<Rightarrow> Err (SpawnFailure_from e) | Inr x \<Rightarrow> Ok x)"

definition pipe_call :: "'os ProcessEnv \<Rightarrow> ProcessRequest \<Rightarrow> string \<Rightarrow> PipeCall \<Rightarrow> string \<Rightarrow> (ExecutorError, unit) result" where
  "pipe_call pe request kind call message =
     (case pe_pipe_call pe request kind call of
        None \<Rightarrow> Ok ()
      | Some source \<Rightarrow> Err (ExecutorError (message @ '': '' @ source)))"

definition cloexec_pipe :: "'os ProcessEnv \<Rightarrow> ProcessRequest \<Rightarrow> string \<Rightarrow> (ExecutorError, unit) result" where
  "cloexec_pipe pe request kind = steps [
     pipe_call pe request kind CreatePipe (''cannot create '' @ kind @ '' pipe''),
     pipe_call pe request kind (InspectEnd ''read'') (''cannot inspect '' @ kind @ '' pipe read descriptor''),
     pipe_call pe request kind (ProtectEnd ''read'') (''cannot protect '' @ kind @ '' pipe read descriptor''),
     pipe_call pe request kind (InspectEnd ''write'') (''cannot inspect '' @ kind @ '' pipe write descriptor''),
     pipe_call pe request kind (ProtectEnd ''write'') (''cannot protect '' @ kind @ '' pipe write descriptor'')]"

text \<open>The child that was started: its process group and the tasks that read from it, as they end.\<close>

record SpawnedProcess =
  sp_pgid :: int
  sp_stdout :: "(PumpError, StreamMetadata) result option"
  sp_stderr :: "(PumpError, StreamMetadata) result option"
  sp_diagnostics :: "(ExecutorError, FailureIndexEntry list) result option"
  sp_event_reader :: "pipe option"
  sp_manifest :: "(string, (ExecutorError, ManifestCapture) result) result option"

definition event_parser :: "'os ProcessEnv \<Rightarrow> DiagnosticContext \<Rightarrow> string \<Rightarrow> FailureIndexEntry option" where
  "event_parser pe context line =
     (case parse_diagnostic_event (pe_sha256 pe) (pe_decode_diagnostic pe) line context of
        Inr entry \<Rightarrow> Some entry | Inl e \<Rightarrow> None)"

definition spawned_process :: "'os ProcessEnv \<Rightarrow> ProcessRequest \<Rightarrow> int \<Rightarrow> SpawnedProcess" where
  "spawned_process pe request pgid =
     (let pipes = pe_pipes pe request; os = pe_log_os pe
      in \<lparr>sp_pgid = pgid,
          sp_stdout = map_option (\<lambda>reads. fst (pump os reads (new_writer (rq_log_selector request) LogStream.Stdout)))
            (ch_stdout pipes),
          sp_stderr = map_option (\<lambda>reads. fst (pump os reads (new_writer (rq_log_selector request) LogStream.Stderr)))
            (ch_stderr pipes),
          sp_diagnostics = map_option (\<lambda>reads. fst (read_diagnostic_events
            (event_parser pe (request_context request)) reads)) (ch_diagnostics pipes),
          sp_event_reader = (if rq_completion request = CompletionMode.Event then Some (ch_event pipes) else None),
          sp_manifest = (if rq_capture_manifest request
            then Some (case ch_manifest pipes of Inl e \<Rightarrow> Err e | Inr reads \<Rightarrow> Ok (capture_manifest reads)) else None)\<rparr>)"

definition spawn_process :: "'os ProcessEnv \<Rightarrow> ProcessRequest \<Rightarrow> (SpawnFailure, SpawnedProcess) result" where
  "spawn_process pe request =
     (if rq_command request = [] then Err (SpawnFailure_from (ExecutorError ''leaf command is empty''))
      else then_do (or_spawn_failure (steps [
         reject_if (pe_lock_poisoned pe request) (ExecutorError ''process descriptor lock is poisoned''),
         cloexec_pipe pe request ''diagnostic'',
         (if rq_completion request = CompletionMode.Event then cloexec_pipe pe request ''event'' else Ok ()),
         (if rq_capture_manifest request then cloexec_pipe pe request ''manifest'' else Ok ())])) (\<lambda>_.
       case pe_spawn pe request of
         Inl source \<Rightarrow>
           let (streams, storage_failed) = seal_prestart_streams (pe_log_os pe)
                 [new_writer (rq_log_selector request) LogStream.Stdout, new_writer (rq_log_selector request) LogStream.Stderr]
           in Err \<lparr>sf_error = ExecutorError source, sf_streams = streams, sf_storage_failed = storage_failed\<rparr>
       | Inr None \<Rightarrow> Err (SpawnFailure_from (ExecutorError ''spawned leaf has no valid process id''))
       | Inr (Some pgid) \<Rightarrow>
           if \<not> pe_child_pipe pe request LogStream.Stdout
           then Err (SpawnFailure_from (ExecutorError ''spawned leaf has no stdout pipe''))
           else if \<not> pe_child_pipe pe request LogStream.Stderr
           then Err (SpawnFailure_from (ExecutorError ''spawned leaf has no stderr pipe''))
           else Ok (spawned_process pe request pgid)))"

section \<open>The end of the process\<close>

definition finalize_process ::
  "'os Kernel \<Rightarrow> string \<Rightarrow> SpawnedProcess \<Rightarrow> 'os Group \<Rightarrow> ProcessStatus \<Rightarrow> int option \<Rightarrow> string option \<Rightarrow> FatalLeafError option
   \<Rightarrow> ProcessResult" where
  "finalize_process k run process g status code reason fatal =
     (let cleanup_failed = isl (fst (cleanup_process_group k (sp_pgid process) g));
          (streams, storage_failed) = finish_pumps run [sp_stdout process, sp_stderr process];
          (entries, invalid) = finish_diagnostics (sp_diagnostics process);
          manifest = finish_manifest (sp_manifest process);
          log_storage_failed = (storage_failed \<or> fatal = Some FatalLeafError.LogStorage);
          structured_evidence_invalid = (invalid \<or> fatal = Some FatalLeafError.StructuredEvidence);
          unsafe_evidence = (log_storage_failed \<or> structured_evidence_invalid \<or> cleanup_failed)
      in \<lparr>px_status = (if unsafe_evidence then ProcessStatus.Unsafe else status), px_exit_code = code,
          px_reason = (if unsafe_evidence
            then Some (if log_storage_failed then ''log storage became incomplete''
              else if structured_evidence_invalid then ''structured diagnostic evidence is invalid''
              else ''process group cleanup failed'')
            else reason),
          px_streams = streams, px_diagnostics = entries, px_log_storage_failed = log_storage_failed,
          px_structured_evidence_invalid = structured_evidence_invalid, px_process_started = True,
          px_service = None, px_manifest = (case manifest of Inr m \<Rightarrow> m | Inl _ \<Rightarrow> None)\<rparr>)"

text \<open>Terminate the child: the error if there was one, the code it left, and the group afterwards.\<close>

definition exit_code_now :: "'os Kernel \<Rightarrow> 'os Group \<Rightarrow> int option \<times> 'os Group" where
  "exit_code_now k g =
     (case try_wait_child k g of
        (Inr (Some status), g) \<Rightarrow> (exit_code status, g)
      | (_, g) \<Rightarrow> (None, g))"

definition stop_child :: "'os Kernel \<Rightarrow> int \<Rightarrow> 'os Group \<Rightarrow> ExecutorError option \<times> int option \<times> 'os Group" where
  "stop_child k pgid g =
     (let (answer, g) = terminate k pgid g; (code, g) = exit_code_now k g
      in (case answer of Inl e \<Rightarrow> Some e | Inr _ \<Rightarrow> None, code, g))"

definition fatal_or_storage :: "FatalLeafError option \<Rightarrow> FatalLeafError" where
  "fatal_or_storage fatal = (case fatal of Some f \<Rightarrow> f | None \<Rightarrow> FatalLeafError.LogStorage)"

section \<open>Processes that run to their exit\<close>

text \<open>How the race ends: status, code, reason, failure of the evidence, and the group afterwards.\<close>

definition exit_race ::
  "'os Kernel \<Rightarrow> int \<Rightarrow> u64 option \<Rightarrow> First \<Rightarrow> 'os Group
   \<Rightarrow> ProcessStatus \<times> int option \<times> string option \<times> FatalLeafError option \<times> 'os Group" where
  "exit_race k pgid timeout first g =
     (let stopped = (\<lambda>status fallback fatal.
            let (detail, code, g) = stop_child k pgid g
            in (status, code, Some (case detail of Some e \<Rightarrow> ExecutorError_display e | None \<Rightarrow> fallback), fatal, g))
      in case first of
           FirstExit (Inr status) \<Rightarrow>
             if exit_success status then (ProcessStatus.Passed, exit_code status, None, None, g)
             else (ProcessStatus.Failed, exit_code status, Some (''process exited '' @ display_exit status), None, g)
         | FirstExit (Inl source) \<Rightarrow>
             (ProcessStatus.Unsafe, None, Some (''cannot wait for leaf: '' @ source), None, g)
         | FirstTimeout \<Rightarrow> stopped ProcessStatus.TimedOut (deadline_reason timeout ''leaf'') None
         | FirstFatal fatal \<Rightarrow>
             stopped ProcessStatus.Unsafe (fatal_reason (fatal_or_storage fatal)) (Some (fatal_or_storage fatal))
         | _ \<Rightarrow> stopped ProcessStatus.Cancelled ''run cancelled'' None)"

text \<open>The last branch is \<open>FirstCancel\<close>: nothing reads an event of a process that runs to its exit.\<close>

definition run_to_exit ::
  "'os Kernel \<Rightarrow> string \<Rightarrow> u64 option \<Rightarrow> First \<Rightarrow> 'os Group \<Rightarrow> SpawnedProcess \<Rightarrow> ProcessResult" where
  "run_to_exit k run timeout first g process =
     (let (status, code, reason, fatal, g) = exit_race k (sp_pgid process) timeout first g;
          cleanup = fst (cleanup_process_group k (sp_pgid process) g);
          (streams, storage_failed) = finish_pumps run [sp_stdout process, sp_stderr process];
          (entries, invalid) = finish_diagnostics (sp_diagnostics process);
          manifest = finish_manifest (sp_manifest process);
          capture = (case manifest of Inr m \<Rightarrow> m | Inl _ \<Rightarrow> None)
      in if \<not> isl cleanup \<and> \<not> storage_failed \<and> \<not> invalid \<and> \<not> isl manifest
         then \<lparr>px_status = status, px_exit_code = code, px_reason = reason, px_streams = streams,
               px_diagnostics = entries, px_log_storage_failed = (fatal = Some FatalLeafError.LogStorage),
               px_structured_evidence_invalid = (fatal = Some FatalLeafError.StructuredEvidence),
               px_process_started = True, px_service = None, px_manifest = capture\<rparr>
         else
           let detail = (case cleanup of
                 Inl e \<Rightarrow> ExecutorError_display e
               | Inr _ \<Rightarrow> if storage_failed then ''log storage became incomplete''
                   else ''structured diagnostic evidence is invalid'')
           in (failure ProcessStatus.Unsafe code detail)\<lparr>px_streams := streams, px_diagnostics := entries,
                px_log_storage_failed := (storage_failed \<or> fatal = Some FatalLeafError.LogStorage),
                px_structured_evidence_invalid := (invalid \<or> isl manifest \<or> fatal = Some FatalLeafError.StructuredEvidence),
                px_manifest := capture\<rparr>)"

section \<open>Processes that report by an event\<close>

text \<open>A process that goes on after its event is left running: the result holds its process group.\<close>

definition service_result :: "int \<Rightarrow> ProcessResult" where
  "service_result pgid =
     \<lparr>px_status = ProcessStatus.Passed, px_exit_code = None, px_reason = None, px_streams = [], px_diagnostics = [],
      px_log_storage_failed = False, px_structured_evidence_invalid = False, px_process_started = True,
      px_service = Some pgid, px_manifest = None\<rparr>"

definition event_accepted ::
  "'os Kernel \<Rightarrow> string \<Rightarrow> 'os Group \<Rightarrow> SpawnedProcess \<Rightarrow> ProcessResult" where
  "event_accepted k run g process =
     (case try_wait_child k g of
        (Inr (Some status), g) \<Rightarrow>
          finalize_process k run process g (if exit_success status then ProcessStatus.Passed else ProcessStatus.Failed)
            (exit_code status)
            (if exit_success status then None else Some (''event process exited '' @ display_exit status)) None
      | (Inr None, g) \<Rightarrow> service_result (sp_pgid process)
      | (Inl e, g) \<Rightarrow>
          let g = snd (terminate k (sp_pgid process) g)
          in finalize_process k run process g ProcessStatus.Unsafe None
               (Some (''cannot inspect event process: '' @ ExecutorError_display e)) None)"

definition run_to_event ::
  "(string \<Rightarrow> (string, CompletionEvent) result) \<Rightarrow> 'os Kernel \<Rightarrow> string \<Rightarrow> string \<Rightarrow> u64 option \<Rightarrow> First \<Rightarrow> 'os Group
   \<Rightarrow> SpawnedProcess \<Rightarrow> ProcessResult" where
  "run_to_event decode k run check timeout first g process =
     (case sp_event_reader process of
        None \<Rightarrow>
          let g = snd (terminate k (sp_pgid process) g)
          in finalize_process k run process g ProcessStatus.Unsafe None (Some ''event leaf has no event descriptor'')
               (Some FatalLeafError.StructuredEvidence)
      | Some reads \<Rightarrow>
          let stopped = (\<lambda>status reason fatal.
                let (detail, code, g) = stop_child k (sp_pgid process) g
                in finalize_process k run process g status code (Some reason) fatal)
          in case first of
               FirstExit status \<Rightarrow>
                 (case status of
                    Inr s \<Rightarrow> finalize_process k run process g ProcessStatus.Failed (exit_code s)
                      (Some (''process exited '' @ display_exit s @ '' before its completion event'')) None
                  | Inl source \<Rightarrow> finalize_process k run process g ProcessStatus.Failed None
                      (Some (''cannot wait for event leaf: '' @ source)) None)
             | FirstTimeout \<Rightarrow> stopped ProcessStatus.TimedOut (deadline_reason timeout ''event leaf'') None
             | FirstCancel \<Rightarrow> stopped ProcessStatus.Cancelled ''run cancelled'' None
             | FirstFatal fatal \<Rightarrow>
                 stopped ProcessStatus.Unsafe (fatal_reason (fatal_or_storage fatal)) (Some (fatal_or_storage fatal))
             | FirstEvent \<Rightarrow>
                 (case read_event decode reads of
                    Inl e \<Rightarrow> stopped ProcessStatus.Unsafe (ExecutorError_display e) (Some FatalLeafError.StructuredEvidence)
                  | Inr event \<Rightarrow>
                      if ce_run_id event \<noteq> run \<or> ce_check event \<noteq> check
                      then stopped ProcessStatus.Unsafe ''completion event carried the wrong run or check identity''
                        (Some FatalLeafError.StructuredEvidence)
                      else if ce_status event \<noteq> EventStatus.Passed
                      then stopped
                        (if ce_status event = EventStatus.Unsafe then ProcessStatus.Unsafe else ProcessStatus.Failed)
                        (case ce_reason event of Some reason \<Rightarrow> reason | None \<Rightarrow> ''completion event reported failure'') None
                      else event_accepted k run g process))"

text \<open>The end of a service that was left running.\<close>

definition service_exit ::
  "'os Kernel \<Rightarrow> string \<Rightarrow> ServiceEnd \<Rightarrow> 'os Group \<Rightarrow> SpawnedProcess \<Rightarrow> ServiceExit" where
  "service_exit k run ended g process =
     (let (code, fatal, g) = (case ended of
            ServiceWaited (Inr status) \<Rightarrow> (exit_code status, None, g)
          | ServiceWaited (Inl _) \<Rightarrow> (None, None, g)
          | ServiceFatal fatal \<Rightarrow>
              let (detail, code, g) = stop_child k (sp_pgid process) g in (code, Some (fatal_or_storage fatal), g));
          result = finalize_process k run process g ProcessStatus.Passed code None fatal
      in \<lparr>se_exit_code = px_exit_code result, se_streams = px_streams result, se_diagnostics = px_diagnostics result,
          se_log_storage_failed = px_log_storage_failed result,
          se_structured_evidence_invalid = px_structured_evidence_invalid result\<rparr>)"

section \<open>Running a process\<close>

definition spawn_failed :: "string \<Rightarrow> SpawnFailure \<Rightarrow> ProcessResult" where
  "spawn_failed run spawn =
     (let reason = ''cannot start leaf: '' @ ExecutorError_display (sf_error spawn);
          result = (if sf_storage_failed spawn then storage_failure None reason
                    else failure ProcessStatus.Failed None reason)
      in result\<lparr>px_streams := map (pumped_summary run) (sf_streams spawn)\<rparr>)"

definition started_process :: "'os ProcessEnv \<Rightarrow> ProcessRequest \<Rightarrow> CancellationScope \<Rightarrow> SpawnedProcess \<Rightarrow> ProcessResult" where
  "started_process pe request scope process =
     (case rq_completion request of
        CompletionMode.Process \<Rightarrow>
          run_to_exit (pe_kernel pe request) (rq_run_id request) (rq_timeout_seconds request)
            (pe_first pe request scope) (pe_group pe request) process
      | CompletionMode.Event \<Rightarrow>
          run_to_event (pe_decode_event pe) (pe_kernel pe request) (rq_run_id request) (rq_check_name request)
            (rq_timeout_seconds request) (pe_first pe request scope) (pe_group pe request) process)"

definition run_process :: "'os ProcessEnv \<Rightarrow> ProcessRequest \<Rightarrow> CancellationScope \<Rightarrow> ProcessResult" where
  "run_process pe request scope =
     (case pe_acquire pe request scope of
        AcquireFailed source \<Rightarrow> failure ProcessStatus.Unsafe None source
      | AcquireCancelled \<Rightarrow> failure ProcessStatus.Cancelled None ''run cancelled before capacity grant''
      | Granted \<Rightarrow>
          (case pe_scratch pe request of
             Some source \<Rightarrow> failure ProcessStatus.Failed None (''cannot prepare leaf scratch directory: '' @ source)
           | None \<Rightarrow>
               (case (pe_create_stream pe request LogStream.Stdout, pe_create_stream pe request LogStream.Stderr) of
                  (Some e, _) \<Rightarrow> storage_failure None (LogStoreError_display e)
                | (None, Some e) \<Rightarrow> storage_failure None (LogStoreError_display e)
                | (None, None) \<Rightarrow>
                    (case prepare_private_directory pe request ''diagnostic report'' of
                       Inl e \<Rightarrow> storage_failure None (ExecutorError_display e)
                     | Inr _ \<Rightarrow>
                         (case spawn_process pe request of
                            Inl spawn \<Rightarrow> spawn_failed (rq_run_id request) spawn
                          | Inr process \<Rightarrow> (started_process pe request scope process)\<lparr>px_process_started := True\<rparr>)))))"

text \<open>The status the progress of a process ends with; that of a service is known when it has exited.\<close>

definition finished_status :: "ProcessResult \<Rightarrow> LeafStatus option" where
  "finished_status result = (if px_service result = None then Some (leaf_status_of (px_status result)) else None)"

definition service_status :: "ServiceExit \<Rightarrow> LeafStatus" where
  "service_status exit = (if se_exit_code exit = Some 0 then LeafStatus.Passed else LeafStatus.Cancelled)"

end
