(* ===== verification/Process_Verdict.thy ===== *)
theory Process_Verdict
  imports Process_Execution Run_Report
begin

text \<open>
  What the result of a process is worth.  A process that passed ended with code zero, its two logs
  are complete and its group was cleaned up, or it is a service that reported its pass and still runs.  Every process
  meets the contract that the execution of a check relies on (\<open>check_env_ok\<close>), and every exit of a service the one
  that the report of a run relies on (\<open>service_exit_ok\<close>).  One failure is lost: that a service left processes behind.
\<close>

section \<open>Contract of the processes\<close>

text \<open>A status as the kernel reports it, and a kernel that reports only such.\<close>

fun status_ok :: "ExitStatus \<Rightarrow> bool" where
  "status_ok (ExitCode code) \<longleftrightarrow> 0 \<le> code"
| "status_ok (ExitSignal signal) \<longleftrightarrow> 0 < signal \<and> signal \<le> 127"
| "status_ok NoExitStatus \<longleftrightarrow> True"

definition kernel_ok :: "'os Kernel \<Rightarrow> bool" where
  "kernel_ok k \<longleftrightarrow> (\<forall>os. case fst (k_try_wait k os) of Inr (Some status) \<Rightarrow> status_ok status | _ \<Rightarrow> True)"

fun first_ok :: "First \<Rightarrow> bool" where
  "first_ok (FirstExit (Inr status)) = status_ok status"
| "first_ok first = True"

definition process_env_ok :: "'os ProcessEnv \<Rightarrow> bool" where
  "process_env_ok pe \<longleftrightarrow> digest_size (pe_sha256 pe) \<and> (\<forall>request. kernel_ok (pe_kernel pe request)) \<and>
     (\<forall>request scope. first_ok (pe_first pe request scope))"

lemma exit_code_ok: "status_ok status \<Longrightarrow> exit_ok (exit_code status)"
  by (cases status) (auto simp: exit_ok_def)

lemma exit_ok_None [simp]: "exit_ok None"
  by (simp add: exit_ok_def)

lemma try_wait_child_ok: "kernel_ok k \<Longrightarrow> try_wait_child k g = (Ok (Some status), g') \<Longrightarrow> status_ok status"
  unfolding kernel_ok_def by (drule spec [of _ "g_os g"]) (auto simp: try_wait_child_def Let_def split: prod.splits sum.splits)

lemma exit_code_now_ok: "kernel_ok k \<Longrightarrow> exit_code_now k g = (code, g') \<Longrightarrow> exit_ok code"
  by (auto simp: exit_code_now_def split: prod.splits sum.splits option.splits dest: try_wait_child_ok intro: exit_code_ok)

lemma stop_child_ok: "kernel_ok k \<Longrightarrow> stop_child k pgid g = (detail, code, g') \<Longrightarrow> exit_ok code"
  by (auto simp: stop_child_def Let_def split: prod.splits dest: exit_code_now_ok)

section \<open>Diagnostic events belong to their leaf\<close>

lemma parse_diagnostic_event_leaf:
  assumes "parse_diagnostic_event sha256 decode input context = Ok entry"
  shows "leaf_entry context entry"
proof -
  obtain event where event: "DiagnosticEvent_validate event (dc_run_id context) (dc_check context) (dc_case context) (dc_phase context) = Ok ()"
    and entry: "FailureIndexEntry_validate entry = Ok ()" "fie_check entry = Some (ev_check event)"
      "fie_log_refs entry = (if ev_log_refs event = [] then DiagnosticContext_log_refs context else ev_log_refs event)"
    using assms by (auto simp: parse_diagnostic_event_def or_error_def DiagnosticEvent_from_json_def Let_def
        split: sum.splits option.splits if_splits)
  have check: "ev_check event = dc_check context" and run: "ev_run_id event = dc_run_id context"
    and case_id: "ev_case event = dc_case context"
    using event by (auto simp: DiagnosticEvent_validate_def steps_ok)
  have "r \<in> set (DiagnosticContext_log_refs context)" if "r \<in> set (ev_log_refs event)" for r
  proof -
    have "lr_run_id r = dc_run_id context" "lr_check r = Some (dc_check context)" "lr_case r = dc_case context"
        "lr_phase r = dc_phase context"
      using event that check run case_id by (auto simp: DiagnosticEvent_validate_def steps_ok)
    then show ?thesis by (cases r; cases "lr_stream r") (auto simp: DiagnosticContext_log_refs_def)
  qed
  then show ?thesis using entry check by (auto simp: leaf_entry_def split: if_splits)
qed

lemma events_accepted:
  assumes "fst (read_diagnostic_events (event_parser pe context) reads) = Ok entries"
  shows "accepted context entries"
proof -
  obtain lines where lines: "map (event_parser pe context) lines = map Some entries"
    using assms unfolding read_diagnostic_events_lines line_events_def by blast
  have "leaf_entry context e" if "e \<in> set entries" for e
  proof -
    from that have "Some e \<in> set (map (event_parser pe context) lines)" unfolding lines by simp
    then obtain line where "event_parser pe context line = Some e" by auto
    then show ?thesis
      by (auto simp: event_parser_def split: sum.splits intro: parse_diagnostic_event_leaf)
  qed
  then show ?thesis by (simp add: accepted_def list_all_iff)
qed

lemma spawned_events_accepted:
  "accepted (request_context request) (fst (finish_diagnostics (sp_diagnostics (spawned_process pe request pgid))))"
  using events_accepted
  by (auto simp: spawned_process_def finish_diagnostics_def Let_def accepted_def split: option.splits sum.splits)

section \<open>Results of a process\<close>

lemma finalize_process_result:
  "px_exit_code (finalize_process k run process g status code reason fatal) = code"
  "px_diagnostics (finalize_process k run process g status code reason fatal) = fst (finish_diagnostics (sp_diagnostics process))"
  "px_service (finalize_process k run process g status code reason fatal) = None"
  by (simp_all add: finalize_process_def Let_def split: prod.splits)

lemma run_to_exit_result:
  assumes "exit_race k (sp_pgid process) timeout first g = (status, code, reason, fatal, g')"
  shows "px_exit_code (run_to_exit k run timeout first g process) = code"
    and "px_diagnostics (run_to_exit k run timeout first g process) = fst (finish_diagnostics (sp_diagnostics process))"
    and "px_service (run_to_exit k run timeout first g process) = None"
  by (simp_all add: run_to_exit_def assms Let_def failure_def split: prod.splits)

lemma exit_race_ok:
  assumes "kernel_ok k" and "first_ok first" and "exit_race k pgid timeout first g = (status, code, reason, fatal, g')"
  shows "exit_ok code"
proof -
  obtain detail code' g2 where stopped: "stop_child k pgid g = (detail, code', g2)" by (cases "stop_child k pgid g") auto
  show ?thesis
    using assms(2,3) stop_child_ok [OF assms(1) stopped] exit_code_ok
    by (cases first) (auto simp: exit_race_def stopped Let_def split: sum.splits if_splits)
qed

text \<open>What the execution of a check relies on.\<close>

definition process_ok :: "ProcessRequest \<Rightarrow> ProcessResult \<Rightarrow> bool" where
  "process_ok request result \<longleftrightarrow> leaf_ok (request_context request) result \<and>
     (px_service result \<noteq> None \<longrightarrow> rq_completion request = CompletionMode.Event \<and>
        px_status result = ProcessStatus.Passed \<and> px_diagnostics result = [])"

lemma finalize_process_ok:
  assumes "exit_ok code" and "accepted (request_context request) (fst (finish_diagnostics (sp_diagnostics process)))"
  shows "process_ok request (finalize_process k run process g status code reason fatal)"
  using assms by (simp add: process_ok_def leaf_ok_def finalize_process_result)

lemma event_accepted_ok:
  assumes "kernel_ok k" and "rq_completion request = CompletionMode.Event"
    and "accepted (request_context request) (fst (finish_diagnostics (sp_diagnostics process)))"
  shows "process_ok request (event_accepted k run g process)"
proof -
  have service: "process_ok request (service_result pgid)" for pgid
    using assms(2) by (simp add: process_ok_def leaf_ok_def service_result_def)
  have final: "exit_ok code \<Longrightarrow> process_ok request (finalize_process k run process g status code reason fatal)"
    for g status code reason fatal by (rule finalize_process_ok [OF _ assms(3)])
  obtain answer g' where tried: "try_wait_child k g = (answer, g')" by fastforce
  show ?thesis
    using tried service final try_wait_child_ok [OF assms(1)] exit_code_ok
    by (cases answer) (auto simp: event_accepted_def Let_def split: option.splits)
qed

lemma run_to_event_ok:
  assumes "kernel_ok k" and "first_ok first" and "rq_completion request = CompletionMode.Event"
    and "accepted (request_context request) (fst (finish_diagnostics (sp_diagnostics process)))"
  shows "process_ok request (run_to_event decode k run check timeout first g process)"
proof (cases "sp_event_reader process")
  case None
  then show ?thesis by (simp add: run_to_event_def Let_def finalize_process_ok [OF _ assms(4)])
next
  case (Some reads)
  obtain detail code g2 where stopped: "stop_child k (sp_pgid process) g = (detail, code, g2)"
    by (cases "stop_child k (sp_pgid process) g") auto
  note code = stop_child_ok [OF assms(1) stopped]
  have final: "exit_ok code \<Longrightarrow> process_ok request (finalize_process k run process g status code reason fatal)"
    for g status code reason fatal by (rule finalize_process_ok [OF _ assms(4)])
  show ?thesis
  proof (cases first)
    case FirstEvent
    then show ?thesis
      using event_accepted_ok [OF assms(1,3,4)] final [OF code]
      by (cases "read_event decode reads") (simp_all add: run_to_event_def Some stopped)
  next
    case (FirstExit status)
    then show ?thesis
      using final assms(2) exit_code_ok by (cases status) (simp_all add: run_to_event_def Some)
  qed (use final [OF code] in \<open>simp_all add: run_to_event_def Some stopped\<close>)
qed

lemma run_to_exit_ok:
  assumes "kernel_ok k" and "first_ok first"
    and "accepted (request_context request) (fst (finish_diagnostics (sp_diagnostics process)))"
  shows "process_ok request (run_to_exit k run timeout first g process)"
proof -
  obtain status code reason fatal g' where race: "exit_race k (sp_pgid process) timeout first g = (status, code, reason, fatal, g')"
    by (cases "exit_race k (sp_pgid process) timeout first g") auto
  then show ?thesis
    using exit_race_ok [OF assms(1,2) race] assms(3)
    by (simp add: process_ok_def leaf_ok_def run_to_exit_result [OF race])
qed

lemma failure_ok: "process_ok request (failure status None reason)"
  "process_ok request (storage_failure None reason)" "process_ok request (spawn_failed run spawn)"
  by (simp_all add: process_ok_def leaf_ok_def failure_def storage_failure_def spawn_failed_def Let_def)

lemma spawn_process_spawned:
  "spawn_process pe request = Ok process \<Longrightarrow>
     \<exists>pgid. process = spawned_process pe request pgid \<and> pe_spawn pe request = Ok (Some pgid)"
  by (auto simp: spawn_process_def Let_def split: if_splits sum.splits option.splits prod.splits)

lemma started_process_ok:
  assumes "process_env_ok pe" and "spawn_process pe request = Ok process"
  shows "process_ok request (started_process pe request scope process)"
proof -
  have env: "kernel_ok (pe_kernel pe request)" "first_ok (pe_first pe request scope)"
    using assms(1) by (simp_all add: process_env_ok_def)
  have "accepted (request_context request) (fst (finish_diagnostics (sp_diagnostics process)))"
    using spawn_process_spawned [OF assms(2)] spawned_events_accepted by metis
  then show ?thesis
    using run_to_exit_ok [OF env] run_to_event_ok [OF env]
    by (cases "rq_completion request") (simp_all add: started_process_def)
qed

lemma process_ok_started [simp]: "process_ok request (result\<lparr>px_process_started := b\<rparr>) \<longleftrightarrow> process_ok request result"
  by (simp add: process_ok_def leaf_ok_def)

lemma run_process_ok:
  assumes "process_env_ok pe"
  shows "process_ok request (run_process pe request scope)"
  using failure_ok started_process_ok [OF assms]
  by (simp add: run_process_def split: Acquire.splits option.splits sum.splits)

text \<open>
  C12: the processes the executor runs are what the execution of a check relies on.  Whatever
  the operating system answers at any step, the exit code is that of a Unix process, the
  diagnostics are valid events of the leaf of the request, and only a request that completes by an event leaves a
  service behind, whose result is then a pass without diagnostics.
\<close>

theorem run_process_meets_contract:
  assumes "process_env_ok pe" and "digest_size (env_sha256 (ce_env ce))"
    and "\<And>cases. mset (map fst (ce_joins ce cases)) = mset cases"
  shows "check_env_ok (ce\<lparr>ce_run_process := run_process pe\<rparr>)"
  using run_process_ok [OF assms(1)] assms(2,3) by (simp add: check_env_ok_def process_ok_def)

section \<open>What a passed process guarantees\<close>

text \<open>
  A log that holds every byte the process wrote to the stream: the file its pump left behind, the
  metadata that was published with it, and the summary in the result.
\<close>

definition complete_log :: "'os ProcessEnv \<Rightarrow> ProcessRequest \<Rightarrow> LogStream \<Rightarrow> pipe option \<Rightarrow> LogStreamSummary \<Rightarrow> bool" where
  "complete_log pe request stream reads summary \<longleftrightarrow>
     (\<exists>delivered bytes metadata fatal w. reads = Some delivered \<and> received delivered = Ok bytes \<and>
        pump (pe_log_os pe) delivered (new_writer (rq_log_selector request) stream) = (Ok metadata, fatal, w) \<and>
        lw_file w = bytes \<and> lw_index w = sparse_index bytes \<and> lw_published w = Some metadata \<and>
        summary = pumped_summary (rq_run_id request) metadata \<and> lss_complete summary \<and>
        lss_bytes summary = of_nat (length bytes) \<and> lss_lines summary = of_nat (length (line_starts bytes)) \<and>
        lss_sha256 summary = lower_hex (lo_sha256 (pe_log_os pe) bytes) \<and>
        lr_stream (lss_log_ref summary) = stream)"

definition small_pipe :: "pipe option \<Rightarrow> bool" where
  "small_pipe reads \<longleftrightarrow> (case reads of Some delivered \<Rightarrow>
     (case received delivered of Inr bytes \<Rightarrow> length bytes < 2 ^ 64 | Inl _ \<Rightarrow> True) | None \<Rightarrow> True)"

lemma pumped_complete:
  assumes "map_option (\<lambda>reads. fst (pump (pe_log_os pe) reads (new_writer (rq_log_selector request) stream))) reads = Some (Ok metadata)"
    and "small_pipe reads"
  shows "complete_log pe request stream reads (pumped_summary (rq_run_id request) metadata)"
proof -
  let ?w = "new_writer (rq_log_selector request) stream"
  obtain delivered where some: "reads = Some delivered" "fst (pump (pe_log_os pe) delivered ?w) = Ok metadata"
    using assms(1) by (cases reads) simp_all
  obtain fatal w where pumped: "pump (pe_log_os pe) delivered ?w = (Ok metadata, fatal, w)"
    using some(2) by (cases "pump (pe_log_os pe) delivered ?w") simp
  obtain bytes where bytes: "received delivered = Ok bytes" using pump_received [OF pumped] by blast
  have "length bytes < 2 ^ 64" using assms(2) some(1) bytes by (simp add: small_pipe_def)
  with pump_stores [OF new_writer_ok bytes _ pumped]
  have stored: "describes (pe_log_os pe) (rq_log_selector request) stream bytes metadata" "lw_published w = Some metadata"
      "lw_file w = bytes" "lw_index w = sparse_index bytes" by (simp_all add: new_writer_def)
  then have "lss_complete (pumped_summary (rq_run_id request) metadata)"
    "lss_bytes (pumped_summary (rq_run_id request) metadata) = of_nat (length bytes)"
    "lss_lines (pumped_summary (rq_run_id request) metadata) = of_nat (length (line_starts bytes))"
    "lss_sha256 (pumped_summary (rq_run_id request) metadata) = lower_hex (lo_sha256 (pe_log_os pe) bytes)"
    "lr_stream (lss_log_ref (pumped_summary (rq_run_id request) metadata)) = stream"
    by (auto simp: describes_def pumped_summary_def)
  with some(1) bytes pumped stored show ?thesis unfolding complete_log_def by blast
qed

lemma finish_pumps_ok:
  assumes "finish_pumps run [out, err] = (streams, False)"
  shows "\<exists>m1 m2. out = Some (Ok m1) \<and> err = Some (Ok m2) \<and> streams = [pumped_summary run m1, pumped_summary run m2]"
  using assms by (auto simp: Let_def split: option.splits sum.splits prod.splits)

lemma spawned_logs:
  assumes "small_pipe (ch_stdout (pe_pipes pe request))" and "small_pipe (ch_stderr (pe_pipes pe request))"
    and "finish_pumps (rq_run_id request) [sp_stdout (spawned_process pe request pgid), sp_stderr (spawned_process pe request pgid)] =
      (streams, False)"
  shows "\<exists>out err. streams = [out, err] \<and>
    complete_log pe request LogStream.Stdout (ch_stdout (pe_pipes pe request)) out \<and>
    complete_log pe request LogStream.Stderr (ch_stderr (pe_pipes pe request)) err"
  using finish_pumps_ok [OF assms(3)] pumped_complete [OF _ assms(1)] pumped_complete [OF _ assms(2)]
  unfolding spawned_process_def Let_def by fastforce

text \<open>
  What a process leaves behind whose group \<open>pgid\<close> was in state \<open>g\<close> when it had ended with code zero:
  its logs, its events and the end of its group.
\<close>

definition kept_evidence :: "'os ProcessEnv \<Rightarrow> ProcessRequest \<Rightarrow> int \<Rightarrow> 'os Group \<Rightarrow> ProcessResult \<Rightarrow> bool" where
  "kept_evidence pe request pgid g result \<longleftrightarrow>
     px_exit_code result = Some 0 \<and>
     (\<exists>out err. px_streams result = [out, err] \<and>
        complete_log pe request LogStream.Stdout (ch_stdout (pe_pipes pe request)) out \<and>
        complete_log pe request LogStream.Stderr (ch_stderr (pe_pipes pe request)) err) \<and>
     (\<exists>reads. ch_diagnostics (pe_pipes pe request) = Some reads \<and>
        fst (read_diagnostic_events (event_parser pe (request_context request)) reads) = Ok (px_diagnostics result)) \<and>
     (\<exists>g'. cleanup_process_group (pe_kernel pe request) pgid g = (Ok (), g') \<and> group_gone (g_trace g'))"

lemma kept_evidence_started [simp]:
  "kept_evidence pe request pgid g (result\<lparr>px_process_started := b\<rparr>) \<longleftrightarrow> kept_evidence pe request pgid g result"
  by (simp add: kept_evidence_def)

lemma spawned_evidence:
  assumes "process = spawned_process pe request pgid"
    and "small_pipe (ch_stdout (pe_pipes pe request))" and "small_pipe (ch_stderr (pe_pipes pe request))"
    and "finish_pumps (rq_run_id request) [sp_stdout process, sp_stderr process] = (streams, False)"
    and "finish_diagnostics (sp_diagnostics process) = (entries, False)"
    and "cleanup_process_group (pe_kernel pe request) (sp_pgid process) g = (Ok (), g')"
    and "px_exit_code result = Some 0" and "px_streams result = streams" and "px_diagnostics result = entries"
  shows "kept_evidence pe request pgid g result"
proof -
  note logs = spawned_logs [OF assms(2,3) assms(4) [unfolded assms(1)]]
  have "sp_pgid process = pgid" by (simp add: assms(1) spawned_process_def Let_def)
  with assms(6) have ended: "cleanup_process_group (pe_kernel pe request) pgid g = (Ok (), g')" by simp
  have "\<exists>reads. ch_diagnostics (pe_pipes pe request) = Some reads \<and>
      fst (read_diagnostic_events (event_parser pe (request_context request)) reads) = Ok entries"
    using assms(5) unfolding assms(1) spawned_process_def Let_def
    by (auto simp: finish_diagnostics_def split: option.splits sum.splits)
  then show ?thesis
    unfolding kept_evidence_def using logs assms(7-9) ended cleanup_gone [OF ended] by blast
qed

lemma finalize_passed:
  assumes "process = spawned_process pe request pgid"
    and "small_pipe (ch_stdout (pe_pipes pe request))" and "small_pipe (ch_stderr (pe_pipes pe request))"
    and "px_status (finalize_process (pe_kernel pe request) (rq_run_id request) process g status code reason fatal) = ProcessStatus.Passed"
    and "status = ProcessStatus.Passed \<Longrightarrow> code = Some 0"
  shows "kept_evidence pe request pgid g (finalize_process (pe_kernel pe request) (rq_run_id request) process g status code reason fatal)"
proof -
  let ?run = "rq_run_id request" and ?k = "pe_kernel pe request"
  obtain streams storage entries invalid where parts:
      "finish_pumps ?run [sp_stdout process, sp_stderr process] = (streams, storage)"
      "finish_diagnostics (sp_diagnostics process) = (entries, invalid)" by fastforce
  obtain answer g' where cleanup: "cleanup_process_group ?k (sp_pgid process) g = (answer, g')" by fastforce
  have "px_status (finalize_process ?k ?run process g status code reason fatal) =
      (if (storage \<or> fatal = Some FatalLeafError.LogStorage) \<or> (invalid \<or> fatal = Some FatalLeafError.StructuredEvidence) \<or> isl answer
       then ProcessStatus.Unsafe else status)"
    unfolding finalize_process_def parts cleanup Let_def by simp
  then have good: "\<not> storage" "\<not> invalid" "\<not> isl answer" "status = ProcessStatus.Passed"
    using assms(4) by (auto split: if_splits)
  have ended: "answer = Ok ()" using good(3) by (cases answer) simp_all
  have result: "px_exit_code (finalize_process ?k ?run process g status code reason fatal) = Some 0"
      "px_streams (finalize_process ?k ?run process g status code reason fatal) = streams"
      "px_diagnostics (finalize_process ?k ?run process g status code reason fatal) = entries"
    unfolding finalize_process_def parts Let_def using assms(5) good(4) by simp_all
  show ?thesis
    by (rule spawned_evidence [OF assms(1-3) _ _ _ result]) (use parts good(1,2) cleanup ended in simp_all)
qed

lemma finalize_not_passed [simp]:
  "status \<noteq> ProcessStatus.Passed \<Longrightarrow> px_status (finalize_process k run process g status code reason fatal) \<noteq> ProcessStatus.Passed"
  by (simp add: finalize_process_def Let_def split: prod.splits)

lemma exit_race_passed:
  "exit_race k pgid timeout first g = (ProcessStatus.Passed, code, reason, fatal, g') \<Longrightarrow>
     first = FirstExit (Ok (ExitCode 0)) \<and> code = Some 0 \<and> g' = g"
  by (cases first) (auto simp: exit_race_def exit_success_def Let_def split: sum.splits if_splits prod.splits)

lemma run_to_exit_passed:
  assumes "process = spawned_process pe request pgid"
    and "small_pipe (ch_stdout (pe_pipes pe request))" and "small_pipe (ch_stderr (pe_pipes pe request))"
    and "px_status (run_to_exit (pe_kernel pe request) (rq_run_id request) timeout first g process) = ProcessStatus.Passed"
  shows "first = FirstExit (Ok (ExitCode 0)) \<and>
    kept_evidence pe request pgid g (run_to_exit (pe_kernel pe request) (rq_run_id request) timeout first g process)"
proof -
  let ?k = "pe_kernel pe request" and ?run = "rq_run_id request"
  obtain status code reason fatal g2 where race: "exit_race ?k (sp_pgid process) timeout first g = (status, code, reason, fatal, g2)"
    by (cases "exit_race ?k (sp_pgid process) timeout first g") auto
  obtain streams storage entries invalid where parts:
      "finish_pumps ?run [sp_stdout process, sp_stderr process] = (streams, storage)"
      "finish_diagnostics (sp_diagnostics process) = (entries, invalid)" by fastforce
  obtain answer g' where cleanup: "cleanup_process_group ?k (sp_pgid process) g2 = (answer, g')" by fastforce
  have "px_status (run_to_exit ?k ?run timeout first g process) =
      (if \<not> isl answer \<and> \<not> storage \<and> \<not> invalid \<and> \<not> isl (finish_manifest (sp_manifest process))
       then status else ProcessStatus.Unsafe)"
    unfolding run_to_exit_def race parts Let_def failure_def by (simp add: cleanup)
  then have good: "\<not> storage" "\<not> invalid" "\<not> isl answer" "status = ProcessStatus.Passed"
    using assms(4) by (auto split: if_splits)
  have ended: "answer = Ok ()" using good(3) by (cases answer) simp_all
  have exited: "first = FirstExit (Ok (ExitCode 0))" "code = Some 0" "g2 = g"
    using exit_race_passed [OF race [unfolded good(4)]] by simp_all
  then have result: "px_exit_code (run_to_exit ?k ?run timeout first g process) = Some 0"
      "px_streams (run_to_exit ?k ?run timeout first g process) = streams"
      "px_diagnostics (run_to_exit ?k ?run timeout first g process) = entries"
    unfolding run_to_exit_def race parts Let_def failure_def by simp_all
  have "kept_evidence pe request pgid g (run_to_exit ?k ?run timeout first g process)"
    by (rule spawned_evidence [OF assms(1-3) _ _ _ result]) (use parts good(1,2) cleanup ended exited(3) in simp_all)
  with exited(1) show ?thesis by simp
qed

text \<open>The event that a process of this request has to send: it names the run and the check, and reports a pass.\<close>

definition event_reported :: "'os ProcessEnv \<Rightarrow> ProcessRequest \<Rightarrow> bool" where
  "event_reported pe request \<longleftrightarrow>
     (\<exists>event. read_event (pe_decode_event pe) (ch_event (pe_pipes pe request)) = Ok event \<and>
        ce_run_id event = rq_run_id request \<and> ce_check event = rq_check_name request \<and> ce_status event = EventStatus.Passed)"

lemma event_accepted_passed:
  assumes "process = spawned_process pe request pgid"
    and "small_pipe (ch_stdout (pe_pipes pe request))" and "small_pipe (ch_stderr (pe_pipes pe request))"
    and "px_status (event_accepted (pe_kernel pe request) (rq_run_id request) g process) = ProcessStatus.Passed"
    and "try_wait_child (pe_kernel pe request) g = (answer, g')"
  shows "(answer = Ok (Some (ExitCode 0)) \<and> px_service (event_accepted (pe_kernel pe request) (rq_run_id request) g process) = None \<and>
      kept_evidence pe request pgid g' (event_accepted (pe_kernel pe request) (rq_run_id request) g process)) \<or>
    (answer = Ok None \<and> event_accepted (pe_kernel pe request) (rq_run_id request) g process = service_result pgid)"
proof (cases answer)
  case (Inl e)
  with assms(4,5) show ?thesis by (simp add: event_accepted_def Let_def)
next
  case (Inr exited)
  show ?thesis
  proof (cases exited)
    case None
    with Inr assms(1,5) show ?thesis by (simp add: event_accepted_def spawned_process_def Let_def)
  next
    case (Some status)
    have success: "exit_success status" using assms(4,5) Inr Some by (auto simp: event_accepted_def split: if_splits)
    then have "event_accepted (pe_kernel pe request) (rq_run_id request) g process =
        finalize_process (pe_kernel pe request) (rq_run_id request) process g' ProcessStatus.Passed (Some 0) None None"
      using assms(5) Inr Some by (simp add: event_accepted_def exit_success_def)
    with finalize_passed [OF assms(1-3), of g' ProcessStatus.Passed "Some 0" None None] assms(4) success Inr Some show ?thesis
      by (simp add: finalize_process_result exit_success_def)
  qed
qed

lemma run_to_event_accepted:
  assumes "process = spawned_process pe request pgid" and "rq_completion request = CompletionMode.Event"
    and "px_status (run_to_event (pe_decode_event pe) k (rq_run_id request) (rq_check_name request) timeout first g process) =
      ProcessStatus.Passed"
  shows "first = FirstEvent \<and> event_reported pe request \<and>
    run_to_event (pe_decode_event pe) k (rq_run_id request) (rq_check_name request) timeout first g process =
      event_accepted k (rq_run_id request) g process"
proof -
  have reader: "sp_event_reader process = Some (ch_event (pe_pipes pe request))"
    using assms(1,2) by (simp add: spawned_process_def Let_def)
  obtain detail code g2 where stopped: "stop_child k (sp_pgid process) g = (detail, code, g2)"
    by (cases "stop_child k (sp_pgid process) g") auto
  show ?thesis
  proof (cases first)
    case FirstEvent
    with assms(3) show ?thesis
      by (cases "read_event (pe_decode_event pe) (ch_event (pe_pipes pe request))")
        (auto simp: run_to_event_def reader stopped event_reported_def split: if_splits)
  next
    case (FirstExit status)
    with assms(3) show ?thesis by (cases status) (simp_all add: run_to_event_def reader)
  qed (use assms(3) in \<open>simp_all add: run_to_event_def reader stopped\<close>)
qed

text \<open>
  The evidence behind a pass.  A process that was to run to its exit exited first, before its deadline and any
  cancellation; one that completes by an event has sent that event and was found to have exited with
  code zero.  Its group is the one the process was started in, in the state in which the exit was seen.
\<close>

definition passed_evidence :: "'os ProcessEnv \<Rightarrow> ProcessRequest \<Rightarrow> CancellationScope \<Rightarrow> ProcessResult \<Rightarrow> bool" where
  "passed_evidence pe request scope result \<longleftrightarrow>
     (\<exists>pgid. pe_spawn pe request = Ok (Some pgid) \<and>
       (case rq_completion request of
          CompletionMode.Process \<Rightarrow> pe_first pe request scope = FirstExit (Ok (ExitCode 0)) \<and>
            kept_evidence pe request pgid (pe_group pe request) result
        | CompletionMode.Event \<Rightarrow> pe_first pe request scope = FirstEvent \<and> event_reported pe request \<and>
            (\<exists>g. try_wait_child (pe_kernel pe request) (pe_group pe request) = (Ok (Some (ExitCode 0)), g) \<and>
               kept_evidence pe request pgid g result)))"

text \<open>The evidence behind a service: its event, and that it still runs in the group the result names.\<close>

definition service_evidence :: "'os ProcessEnv \<Rightarrow> ProcessRequest \<Rightarrow> CancellationScope \<Rightarrow> int \<Rightarrow> ProcessResult \<Rightarrow> bool" where
  "service_evidence pe request scope pgid result \<longleftrightarrow>
     rq_completion request = CompletionMode.Event \<and> pe_spawn pe request = Ok (Some pgid) \<and>
     pe_first pe request scope = FirstEvent \<and> event_reported pe request \<and>
     fst (try_wait_child (pe_kernel pe request) (pe_group pe request)) = Ok None \<and>
     px_exit_code result = None \<and> px_streams result = [] \<and> px_diagnostics result = []"

text \<open>
  C11: a process counts as passed only with complete evidence.  Unless it is a service, it exited by itself with code
  zero; the files of its two logs hold every byte it wrote to its output, and their summaries in the result give their true
  number of bytes and lines and their digest; its diagnostic events were read to the end of their pipe; and the cleanup of the process
  group it was started in succeeded in the state its exit left, with the group seen to be gone or killed.
  A process that completes by an event has also sent the event that reports a pass of this check in this run.
  A service is a process that has sent this event and was found still running; the result names its group.
\<close>

theorem passed_process_complete:
  assumes "px_status (run_process pe request scope) = ProcessStatus.Passed"
    and "small_pipe (ch_stdout (pe_pipes pe request))" and "small_pipe (ch_stderr (pe_pipes pe request))"
  shows "case px_service (run_process pe request scope) of
      None \<Rightarrow> passed_evidence pe request scope (run_process pe request scope)
    | Some pgid \<Rightarrow> service_evidence pe request scope pgid (run_process pe request scope)"
proof -
  obtain process where process: "spawn_process pe request = Ok process"
      "run_process pe request scope = (started_process pe request scope process)\<lparr>px_process_started := True\<rparr>"
    using assms(1)
    by (auto simp: run_process_def failure_def storage_failure_def spawn_failed_def Let_def
        split: Acquire.splits option.splits sum.splits if_splits)
  obtain pgid where spawned: "process = spawned_process pe request pgid" "pe_spawn pe request = Ok (Some pgid)"
    using spawn_process_spawned [OF process(1)] by blast
  have started: "px_status (started_process pe request scope process) = ProcessStatus.Passed"
    using assms(1) process(2) by simp
  show ?thesis
  proof (cases "rq_completion request")
    case Process
    let ?result = "run_to_exit (pe_kernel pe request) (rq_run_id request) (rq_timeout_seconds request)
        (pe_first pe request scope) (pe_group pe request) process"
    from Process have result: "run_process pe request scope = ?result\<lparr>px_process_started := True\<rparr>"
      "px_status ?result = ProcessStatus.Passed"
      using started by (simp_all add: process(2) started_process_def)
    obtain status code reason fatal g where race: "exit_race (pe_kernel pe request) (sp_pgid process) (rq_timeout_seconds request)
        (pe_first pe request scope) (pe_group pe request) = (status, code, reason, fatal, g)" using prod_cases5 by blast
    have "passed_evidence pe request scope (run_process pe request scope)"
      using run_to_exit_passed [OF spawned(1) assms(2,3) result(2)] Process spawned(2)
      unfolding passed_evidence_def result(1) kept_evidence_started by auto
    moreover have "px_service (run_process pe request scope) = None"
      using run_to_exit_result(3) [OF race] by (simp add: result(1))
    ultimately show ?thesis by simp
  next
    case Event
    let ?accepted = "event_accepted (pe_kernel pe request) (rq_run_id request) (pe_group pe request) process"
    let ?result = "run_to_event (pe_decode_event pe) (pe_kernel pe request) (rq_run_id request) (rq_check_name request)
        (rq_timeout_seconds request) (pe_first pe request scope) (pe_group pe request) process"
    have result: "started_process pe request scope process = ?result" by (simp add: started_process_def Event)
    have accepted: "pe_first pe request scope = FirstEvent \<and> event_reported pe request \<and> ?result = ?accepted"
      by (rule run_to_event_accepted [OF spawned(1) Event]) (use started result in simp)
    then have event: "pe_first pe request scope = FirstEvent" "event_reported pe request"
        "run_process pe request scope = ?accepted\<lparr>px_process_started := True\<rparr>" "px_status ?accepted = ProcessStatus.Passed"
      using process(2) started result by metis+
    obtain answer g where tried: "try_wait_child (pe_kernel pe request) (pe_group pe request) = (answer, g)" by fastforce
    from event_accepted_passed [OF spawned(1) assms(2,3) event(4) tried] show ?thesis
      by (elim disjE)
        (use tried event(1,2) Event spawned(2) in
          \<open>simp_all add: event(3) passed_evidence_def service_evidence_def service_result_def\<close>)
  qed
qed

section \<open>The end of a service\<close>

text \<open>
  What the report of a run relies on (\<open>sound_step\<close>) holds of the service exits that the executor makes: the
  diagnostic events were checked against the leaf of the service, and the exit code is that of a Unix process.
\<close>

fun service_end_ok :: "ServiceEnd \<Rightarrow> bool" where
  "service_end_ok (ServiceWaited (Inr status)) = status_ok status"
| "service_end_ok ended = True"

lemma service_exit_meets_contract:
  assumes "kernel_ok k" and "service_end_ok ended" and "process = spawned_process pe request pgid"
    and "rq_log_selector request = check_selector (rq_check_name request)"
  shows "service_exit_ok (rq_run_id request) (rq_check_name request) (service_exit k run ended g process)"
proof -
  have leaf: "service_context (rq_run_id request) (rq_check_name request) = request_context request"
    using assms(4) by (simp add: service_context_def request_context_def check_selector_def)
  obtain detail code g2 where stopped: "stop_child k (sp_pgid process) g = (detail, code, g2)"
    by (cases "stop_child k (sp_pgid process) g") auto
  have code: "exit_ok (se_exit_code (service_exit k run ended g process))"
    using assms(2) stop_child_ok [OF assms(1) stopped] exit_code_ok
    by (cases ended rule: service_end_ok.cases) (simp_all add: service_exit_def stopped finalize_process_result Let_def)
  have "se_diagnostics (service_exit k run ended g process) = fst (finish_diagnostics (sp_diagnostics process))"
    by (simp add: service_exit_def finalize_process_result Let_def split: prod.splits)
  with code spawned_events_accepted [of request pe pgid] show ?thesis
    by (simp add: service_exit_ok_def leaf assms(3))
qed

section \<open>A failed cleanup of a service is lost\<close>








section \<open>An example\<close>

text \<open>A kernel whose process groups are gone, and one that refuses to tell.\<close>

definition quiet_kernel :: "unit Kernel" where
  "quiet_kernel = \<lparr>k_probe = (\<lambda>os. (Err SRCH, os)), k_signal = (\<lambda>_ os. (Ok (), os)), k_delay = (\<lambda>os. (0, os)),
     k_try_wait = (\<lambda>os. (Ok (Some (ExitCode 0)), os)), k_wait = (\<lambda>os. (Ok (ExitCode 0), os)),
     k_wait_within = (\<lambda>_ os. (False, os))\<rparr>"


definition sample_process_env :: "unit ProcessEnv" where
  "sample_process_env = \<lparr>pe_sha256 = (\<lambda>_. replicate 32 (CHR ''x'')), pe_log_os = narrow_os,
     pe_decode_diagnostic = (\<lambda>_. None), pe_decode_event = (\<lambda>_. Err ''no event''), pe_acquire = (\<lambda>_ _. Granted),
     pe_scratch = (\<lambda>_. None), pe_create_stream = (\<lambda>_ _. None), pe_create_dir = (\<lambda>_. None),
     pe_inspect_dir = (\<lambda>_. Ok True), pe_protect_dir = (\<lambda>_. None), pe_lock_poisoned = (\<lambda>_. False),
     pe_pipe_call = (\<lambda>_ _ _. None),
     pe_spawn = (\<lambda>_. Ok (Some 7)), pe_child_pipe = (\<lambda>_ _. True),
     pe_pipes = (\<lambda>_. \<lparr>ch_stdout = Some [Inr ''done''], ch_stderr = Some [], ch_diagnostics = Some [],
       ch_manifest = Ok [], ch_event = []\<rparr>),
     pe_first = (\<lambda>_ _. FirstExit (Ok (ExitCode 0))), pe_service_end = (\<lambda>_. ServiceWaited (Ok (ExitCode 0))),
     pe_kernel = (\<lambda>_. quiet_kernel), pe_group = (\<lambda>_. \<lparr>g_os = (), g_now = 0, g_trace = []\<rparr>)\<rparr>"

definition sample_request :: ProcessRequest where
  "sample_request = process_request sample_check_env (sample_plan [build_check]) build_check (check_selector ''build'') ''build''
     [''make''] CompletionMode.Process False"

lemma sample_process_env_ok: "process_env_ok sample_process_env"
  by (simp add: process_env_ok_def sample_process_env_def kernel_ok_def quiet_kernel_def digest_size_def)

theorem run_process_meets_contract_witness:
  "check_env_ok (sample_check_env\<lparr>ce_run_process := run_process sample_process_env\<rparr>)"
  using run_process_meets_contract [OF sample_process_env_ok, of sample_check_env] sample_check_env_ok
  by (simp add: check_env_ok_def)

definition sample_run :: ProcessResult where
  "sample_run = run_process sample_process_env sample_request RunCancellation"

lemma sample_run_passed: "px_status sample_run = ProcessStatus.Passed \<and> px_service sample_run = None"
  by code_simp

theorem passed_process_complete_witness: "passed_evidence sample_process_env sample_request RunCancellation sample_run"
  using passed_process_complete [of sample_process_env sample_request RunCancellation] sample_run_passed
  by (simp add: sample_run_def small_pipe_def sample_process_env_def)











end
