(* ===== verification/Log_Search.thy ===== *)
theory Log_Search
  imports Log_Writer
begin

text \<open>
  Literal search in a log stream (\<^verbatim>\<open>find_literal_lines\<close> and \<^verbatim>\<open>kmp_prefix\<close> in
  \<^verbatim>\<open>src/rust/executor-core/src/log_query.rs\<close>): the stream is read block by block and each byte
  advances a Knuth-Morris-Pratt automaton.  Shown: the table and the automaton never leave their
  arrays and always come to rest, and the search returns exactly the lines that contain the text,
  in order and up to the number asked for, however the reads split the stream.

  A position in a file and the number of a line are natural numbers: both are bounded by the size
  of a file, which a \<^verbatim>\<open>u64\<close> holds.  A loop that would not end, and an index out of range, which
  panics, have the value \<open>None\<close>.
\<close>

section \<open>Files\<close>

datatype LogQueryError =
    ArgsInvalid
  | LogNotFound
  | LogExpired
  | CursorStale
  | StoreMalformed
  | Unavailable
  | MaintenanceBusy

fun LogQueryError_code :: "LogQueryError \<Rightarrow> string" where
  "LogQueryError_code ArgsInvalid = ''args_invalid''"
| "LogQueryError_code LogNotFound = ''log_not_found''"
| "LogQueryError_code LogExpired = ''log_expired''"
| "LogQueryError_code CursorStale = ''cursor_stale''"
| "LogQueryError_code StoreMalformed = ''test_log_unavailable''"
| "LogQueryError_code Unavailable = ''test_log_unavailable''"
| "LogQueryError_code MaintenanceBusy = ''test_log_unavailable''"

text \<open>
  An open file: whether a clone of it can be moved to a position, and what a read of at most \<open>n\<close>
  bytes at a position returns (\<open>None\<close> for an error, no bytes at the end of the file), and the size
  and the device and inode its metadata gives.
\<close>

record File =
  fl_seek :: "nat \<Rightarrow> bool"
  fl_read :: "nat \<Rightarrow> nat \<Rightarrow> string option"
  fl_len :: "nat option"
  fl_identity :: "(u64 \<times> u64) option"

definition READ_BLOCK_BYTES :: nat where
  "READ_BLOCK_BYTES = 64 * 1024"

text \<open>
  A file that can be read and holds \<open>s\<close>: a read returns at least one byte before the end, and may
  return fewer than asked for.
\<close>

definition holds :: "File \<Rightarrow> string \<Rightarrow> bool" where
  "holds f s \<longleftrightarrow> fl_len f = Some (length s) \<and> (\<forall>p. fl_seek f p) \<and>
     (\<forall>p n. 0 < n \<longrightarrow> (\<exists>k. k \<le> n \<and> (p < length s \<longrightarrow> 0 < k) \<and> fl_read f p n = Some (take k (drop p s))))"

lemma holds_seek: "holds f s \<Longrightarrow> fl_seek f p"
  by (simp add: holds_def)

lemma holds_len: "holds f s \<Longrightarrow> fl_len f = Some (length s)"
  by (simp add: holds_def)

text \<open>A block read before the position \<open>n\<close>.\<close>

lemma holds_block:
  assumes "holds f s" and "n \<le> length s" and "p < n"
  obtains bytes where "fl_read f p (min (n - p) READ_BLOCK_BYTES) = Some bytes" and "bytes \<noteq> []"
    and "p + length bytes \<le> n" and "drop p (take n s) = bytes @ drop (p + length bytes) (take n s)"
proof -
  let ?size = "min (n - p) READ_BLOCK_BYTES"
  have "0 < ?size"
    using assms(3) by (simp add: READ_BLOCK_BYTES_def)
  then obtain k where k: "k \<le> ?size" "0 < k" and answer: "fl_read f p ?size = Some (take k (drop p s))"
    using assms unfolding holds_def by (metis order_less_le_trans)
  define bytes where "bytes = take k (drop p s)"
  have size: "length bytes = k"
    using k assms(2,3) by (auto simp: bytes_def)
  have "take k (drop p (take n s)) = bytes"
    using k(1) by (simp add: bytes_def drop_take min_absorb1)
  then have "drop p (take n s) = bytes @ drop (p + k) (take n s)"
    by (metis add.commute append_take_drop_id drop_drop)
  moreover have "p + k \<le> n" "bytes \<noteq> []"
    using k assms(3) size by auto
  ultimately show thesis
    using that answer size by (simp add: bytes_def)
qed

section \<open>The automaton\<close>

text \<open>
  \<^verbatim>\<open>while matched > 0 && needle[matched] != byte { matched = prefix[matched - 1]; }\<close>
\<close>

partial_function (option) kmp_back :: "nat list \<Rightarrow> string \<Rightarrow> char \<Rightarrow> nat \<Rightarrow> nat option" where
  "kmp_back table needle byte matched =
     (if matched = 0 then Some 0
      else if length needle \<le> matched then None
      else if needle ! matched = byte then Some matched
      else if length table \<le> matched - 1 then None
      else kmp_back table needle byte (table ! (matched - 1)))"

declare kmp_back.simps [code]

fun kmp_prefix_loop :: "string \<Rightarrow> nat list \<Rightarrow> nat list \<Rightarrow> nat \<Rightarrow> nat list option" where
  "kmp_prefix_loop needle [] table matched = Some table"
| "kmp_prefix_loop needle (i # is) table matched =
     (case kmp_back table needle (needle ! i) matched of
        None \<Rightarrow> None
      | Some matched \<Rightarrow>
          if needle ! i = needle ! matched
          then kmp_prefix_loop needle is (table[i := matched + 1]) (matched + 1)
          else kmp_prefix_loop needle is table matched)"

definition kmp_prefix :: "string \<Rightarrow> nat list option" where
  "kmp_prefix needle = kmp_prefix_loop needle [1..<length needle] (replicate (length needle) 0) 0"

section \<open>The search\<close>

record LineHit =
  lh_line :: nat
  lh_byte_start :: nat

record SearchState =
  ss_matched :: nat
  ss_line_matched :: bool
  ss_line :: nat
  ss_line_start :: nat
  ss_position :: nat
  ss_output :: "LineHit list"

text \<open>One byte that does not end a line: the position is advanced by the caller.\<close>

definition search_byte :: "nat list \<Rightarrow> string \<Rightarrow> char \<Rightarrow> SearchState \<Rightarrow> SearchState option" where
  "search_byte table needle byte st =
     (case kmp_back table needle byte (ss_matched st) of
        None \<Rightarrow> None
      | Some matched \<Rightarrow>
          if length needle \<le> matched then None
          else if needle ! matched = byte then
            (if matched + 1 = length needle then
               (if length table \<le> matched then None
                else Some (st\<lparr>ss_line_matched := True, ss_matched := table ! matched\<rparr>))
             else Some (st\<lparr>ss_matched := matched + 1\<rparr>))
          else Some (st\<lparr>ss_matched := matched\<rparr>))"

text \<open>The bytes of a block; the loop over them is left when enough lines are found.\<close>

fun search_block :: "nat list \<Rightarrow> string \<Rightarrow> nat \<Rightarrow> string \<Rightarrow> SearchState \<Rightarrow> SearchState option" where
  "search_block table needle maximum [] st = Some st"
| "search_block table needle maximum (byte # bytes) st =
     (if byte \<noteq> CHR 0x0A
      then case search_byte table needle byte st of
             None \<Rightarrow> None
           | Some st \<Rightarrow> search_block table needle maximum bytes (st\<lparr>ss_position := ss_position st + 1\<rparr>)
      else let st = st\<lparr>ss_position := ss_position st + 1\<rparr>;
               st = (if ss_line_matched st
                     then st\<lparr>ss_output := ss_output st @ [\<lparr>lh_line = ss_line st, lh_byte_start = ss_line_start st\<rparr>]\<rparr>
                     else st)
           in if ss_line_matched st \<and> length (ss_output st) = maximum then Some st
              else search_block table needle maximum bytes
                     (st\<lparr>ss_line := ss_line st + 1, ss_line_start := ss_position st, ss_matched := 0,
                         ss_line_matched := False\<rparr>))"

lemma search_byte_position:
  "search_byte table needle byte st = Some st' \<Longrightarrow>
     ss_position st' = ss_position st \<and> ss_output st' = ss_output st \<and> ss_line st' = ss_line st \<and>
     ss_line_start st' = ss_line_start st"
  by (auto simp: search_byte_def split: option.splits if_splits)

lemma search_block_position:
  "search_block table needle maximum bytes st = Some st' \<Longrightarrow> bytes \<noteq> [] \<Longrightarrow> ss_position st < ss_position st'"
proof (induction bytes arbitrary: st)
  case (Cons byte bytes)
  show ?case
    using Cons.prems Cons.IH
    by (cases "bytes = []")
      (fastforce simp: Let_def dest!: search_byte_position split: option.splits if_splits)+
qed simp

function search_loop ::
    "File \<Rightarrow> nat list \<Rightarrow> string \<Rightarrow> nat \<Rightarrow> nat \<Rightarrow> SearchState \<Rightarrow> (LogQueryError, SearchState) result option" where
  "search_loop f table needle snapshot_bytes maximum st =
     (if ss_position st < snapshot_bytes \<and> length (ss_output st) < maximum
      then case fl_read f (ss_position st) (min (snapshot_bytes - ss_position st) READ_BLOCK_BYTES) of
             None \<Rightarrow> Some (Err Unavailable)
           | Some bytes \<Rightarrow>
               if bytes = [] then Some (Err StoreMalformed)
               else (case search_block table needle maximum bytes st of
                       None \<Rightarrow> None
                     | Some st \<Rightarrow> search_loop f table needle snapshot_bytes maximum st)
      else Some (Ok st))"
  by pat_completeness auto
termination search_loop
  by (relation "measure (\<lambda>(f, table, needle, snapshot_bytes, maximum, st). snapshot_bytes - ss_position st)")
    (auto dest: search_block_position)

declare search_loop.simps [simp del]

definition find_literal_lines ::
    "File \<Rightarrow> nat \<Rightarrow> nat \<Rightarrow> nat \<Rightarrow> string \<Rightarrow> nat \<Rightarrow> (LogQueryError, LineHit list) result option" where
  "find_literal_lines f snapshot_bytes start_byte start_line needle maximum =
     (if needle = [] \<or> snapshot_bytes < start_byte then Some (Err ArgsInvalid)
      else case kmp_prefix needle of
        None \<Rightarrow> None
      | Some table \<Rightarrow>
          if \<not> fl_seek f start_byte then Some (Err Unavailable)
          else case search_loop f table needle snapshot_bytes maximum
                      \<lparr>ss_matched = 0, ss_line_matched = False, ss_line = start_line, ss_line_start = start_byte,
                       ss_position = start_byte, ss_output = []\<rparr> of
              None \<Rightarrow> None
            | Some (Inl e) \<Rightarrow> Some (Err e)
            | Some (Inr st) \<Rightarrow>
                Some (Ok (if ss_position st = snapshot_bytes \<and> ss_line_start st < snapshot_bytes \<and>
                             ss_line_matched st \<and> length (ss_output st) < maximum
                          then ss_output st @ [\<lparr>lh_line = ss_line st, lh_byte_start = ss_line_start st\<rparr>]
                          else ss_output st)))"

section \<open>The table\<close>

text \<open>The first \<open>k\<close> bytes of the text end what was read.\<close>

definition overlap :: "string \<Rightarrow> string \<Rightarrow> nat \<Rightarrow> bool" where
  "overlap p w k \<longleftrightarrow> k \<le> length p \<and> suffix (take k p) w"

definition longest_below :: "string \<Rightarrow> string \<Rightarrow> nat \<Rightarrow> nat \<Rightarrow> bool" where
  "longest_below p w bound n \<longleftrightarrow> n < bound \<and> overlap p w n \<and> (\<forall>k. n < k \<longrightarrow> k < bound \<longrightarrow> \<not> overlap p w k)"

definition table_ok :: "string \<Rightarrow> nat list \<Rightarrow> nat \<Rightarrow> bool" where
  "table_ok p table n \<longleftrightarrow> length table = length p \<and>
     (\<forall>j. 0 < j \<longrightarrow> j \<le> n \<longrightarrow> longest_below p (take j p) j (table ! (j - 1)))"

lemma overlap_0 [simp]: "overlap p w 0"
  by (simp add: overlap_def)

lemma overlap_snoc:
  "overlap p (w @ [c]) (Suc k) \<longleftrightarrow> overlap p w k \<and> k < length p \<and> p ! k = c"
proof (cases "k < length p")
  case True
  then show ?thesis
    by (auto simp: overlap_def take_Suc_conv_app_nth)
qed (simp add: overlap_def)

lemma overlap_nested:
  assumes "overlap p w j" and "k \<le> j"
  shows "overlap p w k \<longleftrightarrow> overlap p (take j p) k"
proof
  assume "overlap p w k"
  then have "suffix (take k p) (take j p)"
    using assms by (auto simp: overlap_def intro: suffix_length_suffix)
  then show "overlap p (take j p) k"
    using \<open>overlap p w k\<close> by (simp add: overlap_def)
next
  assume "overlap p (take j p) k"
  then show "overlap p w k"
    using assms by (auto simp: overlap_def intro: suffix_order.trans)
qed

lemma kmp_back_longest:
  assumes "table_ok p table matched" and "matched < length p" and "overlap p w matched"
    and "\<And>k. matched < k \<Longrightarrow> k < bound \<Longrightarrow> overlap p w k \<Longrightarrow> p ! k \<noteq> c"
  shows "\<exists>r\<le>matched. kmp_back table p c matched = Some r \<and> overlap p w r \<and> (r = 0 \<or> p ! r = c) \<and>
    (\<forall>k. r < k \<longrightarrow> k < bound \<longrightarrow> overlap p w k \<longrightarrow> p ! k \<noteq> c)"
  using assms
proof (induction matched rule: less_induct)
  case (less matched)
  show ?case
  proof (cases "matched = 0 \<or> p ! matched = c")
    case True
    then show ?thesis
      using less.prems by (subst kmp_back.simps) auto
  next
    case False
    define n where "n = table ! (matched - 1)"
    have n: "longest_below p (take matched p) matched n"
      using less.prems(1) False by (simp add: table_ok_def n_def)
    have nested: "overlap p w k \<longleftrightarrow> overlap p (take matched p) k" if "k \<le> matched" for k
      using overlap_nested [OF less.prems(3) that] .
    have "p ! k \<noteq> c" if "n < k" "k < bound" "overlap p w k" for k
      using that n nested [of k] less.prems(4) [of k] False
      by (cases k matched rule: linorder_cases) (auto simp: longest_below_def)
    moreover have "n < matched" "overlap p w n" "table_ok p table n"
      using n nested [of n] less.prems(1) by (auto simp: longest_below_def table_ok_def)
    ultimately obtain r where "r \<le> n" "kmp_back table p c n = Some r" "overlap p w r" "r = 0 \<or> p ! r = c"
      "\<forall>k. r < k \<longrightarrow> k < bound \<longrightarrow> overlap p w k \<longrightarrow> p ! k \<noteq> c"
      using less.IH [of n] less.prems(2) by auto
    moreover have "kmp_back table p c matched = kmp_back table p c n"
      using False less.prems(1,2) by (subst kmp_back.simps) (auto simp: table_ok_def n_def)
    ultimately show ?thesis
      using \<open>n < matched\<close> by (intro exI [of _ r]) auto
  qed
qed

text \<open>After the byte \<open>c\<close> the automaton knows the longest overlap again.\<close>

lemma kmp_step:
  assumes "table_ok p table n" and "longest_below p w bound n" and "bound \<le> length p"
  obtains r where "kmp_back table p c n = Some r" and "r < length p"
    and "longest_below p (w @ [c]) (Suc bound) (if p ! r = c then Suc r else 0)"
    and "p ! r \<noteq> c \<Longrightarrow> r = 0"
proof -
  obtain r where r: "r \<le> n" "kmp_back table p c n = Some r" "overlap p w r" "r = 0 \<or> p ! r = c"
      "\<And>k. r < k \<Longrightarrow> k < bound \<Longrightarrow> overlap p w k \<Longrightarrow> p ! k \<noteq> c"
    using kmp_back_longest [OF assms(1), where w = w and bound = bound and c = c] assms(2,3) by (auto simp: longest_below_def)
  have bounds: "r < bound" "r < length p"
    using r(1) assms(2,3) by (auto simp: longest_below_def)
  have "\<not> overlap p (w @ [c]) k" if "(if p ! r = c then Suc r else 0) < k" "k < Suc bound" for k
  proof (cases k)
    case (Suc m)
    then show ?thesis
      using that r(4) r(5) [of m] by (cases "m = r") (auto simp: overlap_snoc split: if_splits)
  qed (use that in simp)
  moreover have "overlap p (w @ [c]) (if p ! r = c then Suc r else 0)"
    using r(3) bounds(2) by (simp add: overlap_snoc)
  ultimately have "longest_below p (w @ [c]) (Suc bound) (if p ! r = c then Suc r else 0)"
    using bounds(1) by (simp add: longest_below_def)
  then show thesis
    using that r bounds by auto
qed


lemma kmp_prefix_loop_ok:
  assumes "table_ok p table i" and "longest_below p (take i p) i matched" and "i \<le> length p"
    and "\<And>j. i \<le> j \<Longrightarrow> j < length p \<Longrightarrow> table ! j = 0"
  shows "\<exists>t. kmp_prefix_loop p [i..<length p] table matched = Some t \<and> table_ok p t (length p)"
  using assms
proof (induction "length p - i" arbitrary: i table matched)
  case 0
  then show ?case
    by simp
next
  case (Suc d)
  then have i: "i < length p" and matched: "matched < i" and size: "length table = length p"
    by (auto simp: longest_below_def table_ok_def)
  have "table_ok p table matched"
    using Suc.prems(1) matched by (simp add: table_ok_def)
  from kmp_step [OF this Suc.prems(2,3), of "p ! i"] obtain r where
      fallback: "kmp_back table p (p ! i) matched = Some r" and r: "p ! r \<noteq> p ! i \<Longrightarrow> r = 0" and
      best: "longest_below p (take i p @ [p ! i]) (Suc i) (if p ! r = p ! i then Suc r else 0)"
    by auto
  define table' where "table' = (if p ! r = p ! i then table[i := Suc r] else table)"
  define matched' where "matched' = (if p ! r = p ! i then Suc r else 0)"
  have longest: "longest_below p (take (Suc i) p) (Suc i) matched'"
    using best i by (simp add: take_Suc_conv_app_nth matched'_def)
  have entry: "table' ! i = matched'"
    using Suc.prems(4) [of i] i size by (simp add: table'_def matched'_def)
  have "table_ok p table' (Suc i)"
    unfolding table_ok_def
  proof (intro conjI allI impI)
    show "length table' = length p"
      using size by (simp add: table'_def)
    show "longest_below p (take j p) j (table' ! (j - 1))" if "0 < j" "j \<le> Suc i" for j
      using that longest entry Suc.prems(1) by (cases "j = Suc i") (auto simp: table_ok_def table'_def)
  qed
  moreover have "table' ! j = 0" if "Suc i \<le> j" "j < length p" for j
    using Suc.prems(4) [of j] that by (simp add: table'_def)
  moreover have "d = length p - Suc i"
    using Suc.hyps(2) i by simp
  ultimately obtain t where "kmp_prefix_loop p [Suc i..<length p] table' matched' = Some t" "table_ok p t (length p)"
    using Suc.hyps(1) [OF _ _ longest, of table'] i by auto
  then show ?case
    using i fallback r by (auto simp: upt_conv_Cons table'_def matched'_def split: if_splits)
qed

lemma kmp_prefix_ok:
  assumes "p \<noteq> []"
  shows "\<exists>t. kmp_prefix p = Some t \<and> table_ok p t (length p)"
proof -
  have "table_ok p (replicate (length p) 0) 1" "longest_below p (take 1 p) 1 0"
    using assms by (auto simp: table_ok_def longest_below_def le_Suc_eq)
  then show ?thesis
    unfolding kmp_prefix_def using assms by (intro kmp_prefix_loop_ok) (auto simp: Suc_le_eq)
qed

section \<open>The lines found\<close>

text \<open>The lines of a text without their terminators; a last line may be unterminated.\<close>

fun stream_lines :: "string \<Rightarrow> string list" where
  "stream_lines [] = []"
| "stream_lines (c # cs) =
     (if c = CHR 0x0A then [] # stream_lines cs
      else case stream_lines cs of [] \<Rightarrow> [[c]] | l # ls \<Rightarrow> (c # l) # ls)"

fun literal_lines :: "string \<Rightarrow> nat \<Rightarrow> nat \<Rightarrow> string list \<Rightarrow> LineHit list" where
  "literal_lines needle line start [] = []"
| "literal_lines needle line start (l # ls) =
     (if str_contains l needle then [\<lparr>lh_line = line, lh_byte_start = start\<rparr>] else []) @
     literal_lines needle (line + 1) (start + length l + 1) ls"


lemma stream_lines_terminated: "CHR 0x0A \<notin> set w \<Longrightarrow> stream_lines (w @ CHR 0x0A # rest) = w # stream_lines rest"
  by (induction w) auto

lemma stream_lines_last: "CHR 0x0A \<notin> set w \<Longrightarrow> stream_lines w = (if w = [] then [] else [w])"
  by (induction w) auto

lemma str_contains_iff: "str_contains s part \<longleftrightarrow> (\<exists>before after. s = before @ part @ after)"
proof
  assume "str_contains s part"
  then obtain rest where "suffix rest s" "take (length part) rest = part"
    by (auto simp: str_contains_def list_ex_iff str_starts_with_def)
  then show "\<exists>before after. s = before @ part @ after"
    by (metis append_take_drop_id suffix_def)
next
  assume "\<exists>before after. s = before @ part @ after"
  then obtain before after where "s = before @ part @ after"
    by blast
  then have "suffix (part @ after) s"
    by (auto simp: suffix_def)
  then show "str_contains s part"
    unfolding str_contains_def list_ex_iff str_starts_with_def by (intro bexI [of _ "part @ after"]) auto
qed

lemma str_contains_snoc:
  assumes "part \<noteq> []"
  shows "str_contains (s @ [c]) part \<longleftrightarrow> str_contains s part \<or> suffix part (s @ [c])"
proof
  assume "str_contains (s @ [c]) part"
  then obtain before after where split: "s @ [c] = before @ part @ after"
    by (auto simp: str_contains_iff)
  show "str_contains s part \<or> suffix part (s @ [c])"
  proof (cases after rule: rev_cases)
    case Nil
    then show ?thesis
      using split by (auto simp: suffix_def)
  next
    case (snoc after' d)
    then have "s = before @ part @ after'"
      using split by (metis append_assoc butlast_snoc)
    then show ?thesis
      by (auto simp: str_contains_iff)
  qed
next
  assume "str_contains s part \<or> suffix part (s @ [c])"
  then show "str_contains (s @ [c]) part"
    by (auto simp: str_contains_iff suffix_def) (metis append_Nil2)+
qed

lemma str_contains_Nil: "part \<noteq> [] \<Longrightarrow> \<not> str_contains [] part"
  by (simp add: str_contains_iff)

text \<open>The automaton after the bytes \<open>w\<close> of the current line.\<close>

definition scanned :: "string \<Rightarrow> SearchState \<Rightarrow> string \<Rightarrow> bool" where
  "scanned p st w \<longleftrightarrow> CHR 0x0A \<notin> set w \<and> longest_below p w (length p) (ss_matched st) \<and>
     (ss_line_matched st \<longleftrightarrow> str_contains w p) \<and> ss_position st = ss_line_start st + length w"

lemma search_byte_ok:
  assumes "table_ok p t (length p)" and "scanned p st w" and "c \<noteq> CHR 0x0A"
  shows "\<exists>st'. search_byte t p c st = Some st' \<and> scanned p (st'\<lparr>ss_position := ss_position st' + 1\<rparr>) (w @ [c])"
proof -
  let ?n = "length p"
  have longest: "longest_below p w ?n (ss_matched st)"
    using assms(2) by (simp add: scanned_def)
  have "p \<noteq> []" and "table_ok p t (ss_matched st)"
    using longest assms(1) by (auto simp: longest_below_def table_ok_def)
  from kmp_step [OF this(2) longest order_refl, of c] obtain r where
      fallback: "kmp_back t p c (ss_matched st) = Some r" and r: "r < ?n" "p ! r \<noteq> c \<Longrightarrow> r = 0" and
      best: "longest_below p (w @ [c]) (Suc ?n) (if p ! r = c then Suc r else 0)"
    by blast
  have whole: "overlap p (w @ [c]) ?n \<longleftrightarrow> suffix p (w @ [c])"
    by (simp add: overlap_def)
  show ?thesis
  proof (cases "p ! r = c \<and> Suc r = ?n")
    case True
    then have found: "overlap p (w @ [c]) ?n"
      using best by (simp add: longest_below_def)
    have "longest_below p p ?n (t ! r)"
      using assms(1) True [THEN conjunct2, symmetric] unfolding table_ok_def by (metis diff_Suc_1 order_refl take_all zero_less_Suc)
    then have "longest_below p (w @ [c]) ?n (t ! r)"
      using overlap_nested [OF found] by (simp add: longest_below_def)
    moreover have "search_byte t p c st = Some (st\<lparr>ss_line_matched := True, ss_matched := t ! r\<rparr>)"
      using True r(1) fallback assms(1) by (simp add: search_byte_def table_ok_def)
    moreover have "str_contains (w @ [c]) p"
      using found whole str_contains_snoc [OF \<open>p \<noteq> []\<close>] by blast
    ultimately show ?thesis
      using assms(2,3) by (simp add: scanned_def)
  next
    case False
    define m where "m = (if p ! r = c then Suc r else 0)"
    have m: "m < ?n" "longest_below p (w @ [c]) (Suc ?n) m"
      using False r(1) best \<open>p \<noteq> []\<close> by (auto simp: m_def)
    then have "longest_below p (w @ [c]) ?n m" "\<not> suffix p (w @ [c])"
      using whole by (auto simp: longest_below_def)
    moreover have "search_byte t p c st = Some (st\<lparr>ss_matched := m\<rparr>)"
      using False r fallback by (auto simp: search_byte_def m_def)
    moreover have "str_contains (w @ [c]) p \<longleftrightarrow> str_contains w p"
      using calculation(2) str_contains_snoc [OF \<open>p \<noteq> []\<close>] by blast
    ultimately show ?thesis
      using assms(2,3) by (simp add: scanned_def)
  qed
qed

text \<open>All lines that will have been found when \<open>rest\<close> has been read too.\<close>

definition all_found :: "string \<Rightarrow> SearchState \<Rightarrow> string \<Rightarrow> string \<Rightarrow> LineHit list" where
  "all_found p st w rest = ss_output st @ literal_lines p (ss_line st) (ss_line_start st) (stream_lines (w @ rest))"

lemma search_block_ok:
  assumes "table_ok p t (length p)" and "p \<noteq> []" and "scanned p st w" and "length (ss_output st) < maximum"
  shows "\<exists>st' w'. search_block t p maximum bytes st = Some st' \<and>
    (length (ss_output st') = maximum \<and> (\<forall>rest. \<exists>more. all_found p st w (bytes @ rest) = ss_output st' @ more) \<or>
     length (ss_output st') < maximum \<and> scanned p st' w' \<and> ss_position st' = ss_position st + length bytes \<and>
       (\<forall>rest. all_found p st w (bytes @ rest) = all_found p st' w' rest))"
  using assms(3,4)
proof (induction bytes arbitrary: st w)
  case Nil
  then show ?case
    by auto
next
  case (Cons c bytes)
  show ?case
  proof (cases "c = CHR 0x0A")
    case False
    from search_byte_ok [OF assms(1) Cons.prems(1) False] obtain st1 where
        st1: "search_byte t p c st = Some st1" "scanned p (st1\<lparr>ss_position := ss_position st1 + 1\<rparr>) (w @ [c])"
      by blast
    note same = search_byte_position [OF st1(1)]
    show ?thesis
      using Cons.IH [OF st1(2)] Cons.prems(2) same st1(1) False
      by (auto simp: all_found_def)
  next
    case True
    define st1 where "st1 = st\<lparr>ss_position := ss_position st + 1,
      ss_output := ss_output st @ (if ss_line_matched st
        then [\<lparr>lh_line = ss_line st, lh_byte_start = ss_line_start st\<rparr>] else [])\<rparr>"
    define st2 where "st2 = st1\<lparr>ss_line := ss_line st + 1, ss_line_start := ss_position st + 1, ss_matched := 0,
      ss_line_matched := False\<rparr>"
    have found: "all_found p st w (c # bytes @ rest) = all_found p st2 [] (bytes @ rest)" for rest
      using Cons.prems(1) True
      by (simp add: all_found_def scanned_def stream_lines_terminated st1_def st2_def)
    have step: "search_block t p maximum (c # bytes) st =
        (if length (ss_output st1) = maximum then Some st1 else search_block t p maximum bytes st2)"
      using True Cons.prems(2) by (auto simp: Let_def st1_def st2_def)
    show ?thesis
    proof (cases "length (ss_output st1) = maximum")
      case True
      then show ?thesis
        using step found by (auto simp: all_found_def st2_def)
    next
      case False
      have "scanned p st2 []"
        using assms(2) str_contains_Nil [OF assms(2)] by (simp add: scanned_def st1_def st2_def longest_below_def overlap_def)
      moreover have "length (ss_output st2) < maximum"
        using False Cons.prems(2) by (auto simp: st1_def st2_def split: if_splits)
      ultimately show ?thesis
        using Cons.IH [of st2 "[]"] False step found by (auto simp: st1_def st2_def)
    qed
  qed
qed


lemma search_loop_ok:
  assumes "table_ok p t (length p)" and "p \<noteq> []" and "holds f s" and "n \<le> length s"
    and "scanned p st w" and "length (ss_output st) < maximum" and "ss_position st \<le> n"
    and "T = all_found p st w (drop (ss_position st) (take n s))"
  shows "\<exists>st'. search_loop f t p n maximum st = Some (Ok st') \<and>
    (length (ss_output st') = maximum \<and> ss_output st' = take maximum T \<or>
     length (ss_output st') < maximum \<and> ss_position st' = n \<and> (\<exists>w'. scanned p st' w' \<and> T = all_found p st' w' []))"
  using assms(5-8)
proof (induction "n - ss_position st" arbitrary: st w rule: less_induct)
  case less
  show ?case
  proof (cases "ss_position st < n")
    case False
    then show ?thesis
      using less.prems by (subst search_loop.simps) auto
  next
    case True
    from holds_block [OF assms(3,4) True] obtain bytes where
        answer: "fl_read f (ss_position st) (min (n - ss_position st) READ_BLOCK_BYTES) = Some bytes"
        and bytes: "bytes \<noteq> []" "ss_position st + length bytes \<le> n"
        and split: "drop (ss_position st) (take n s) = bytes @ drop (ss_position st + length bytes) (take n s)"
      by blast
    have loop: "search_loop f t p n maximum st =
        (case search_block t p maximum bytes st of None \<Rightarrow> None | Some st \<Rightarrow> search_loop f t p n maximum st)"
      using True less.prems(2) answer bytes(1) by (subst search_loop.simps) simp
    obtain st' w' where block: "search_block t p maximum bytes st = Some st'" and
      cases: "length (ss_output st') = maximum \<and> (\<forall>rest. \<exists>more. all_found p st w (bytes @ rest) = ss_output st' @ more) \<or>
        length (ss_output st') < maximum \<and> scanned p st' w' \<and> ss_position st' = ss_position st + length bytes \<and>
        (\<forall>rest. all_found p st w (bytes @ rest) = all_found p st' w' rest)"
      using search_block_ok [OF assms(1,2) less.prems(1,2), of bytes] by blast
    show ?thesis
      using cases
    proof (elim disjE conjE)
      assume full: "length (ss_output st') = maximum"
        and "\<forall>rest. \<exists>more. all_found p st w (bytes @ rest) = ss_output st' @ more"
      then have "ss_output st' = take maximum T"
        using less.prems(4) split by (metis append_eq_conv_conj)
      then show ?thesis
        using loop block full by (simp add: search_loop.simps [of f t p n maximum st'])
    next
      assume "length (ss_output st') < maximum" "scanned p st' w'" "ss_position st' = ss_position st + length bytes"
        "\<forall>rest. all_found p st w (bytes @ rest) = all_found p st' w' rest"
      moreover have "n - (ss_position st + length bytes) < n - ss_position st"
        using True bytes by (simp add: diff_less_mono2)
      ultimately show ?thesis
        using less.hyps [of st' w'] loop block split bytes(2) less.prems(4) by simp
    qed
  qed
qed

text \<open>
  C18: a search of a stream for a text that is not empty returns the lines
  from its start position up to the snapshot that contain the text, each with its number and the
  position of its first byte, in order, and no more than the number asked for.  The automaton
  agrees with the plain reading: a line is found exactly when the text occurs in it.
\<close>

theorem find_literal_lines_exact:
  assumes "holds f s" and "n \<le> length s" and "start \<le> n" and "needle \<noteq> []"
  shows "find_literal_lines f n start line needle maximum =
    Some (Ok (take maximum (literal_lines needle line start (stream_lines (drop start (take n s))))))"
proof -
  obtain t where t: "kmp_prefix needle = Some t" "table_ok needle t (length needle)"
    using kmp_prefix_ok [OF assms(4)] by blast
  define st where "st = \<lparr>ss_matched = 0, ss_line_matched = False, ss_line = line, ss_line_start = start,
    ss_position = start, ss_output = []\<rparr>"
  define T where "T = literal_lines needle line start (stream_lines (drop start (take n s)))"
  have seek: "fl_seek f start"
    using assms(1) by (simp add: holds_def)
  show ?thesis
  proof (cases "maximum = 0")
    case True
    then show ?thesis
      using assms(3,4) t seek by (simp add: find_literal_lines_def search_loop.simps)
  next
    case False
    have "scanned needle st []"
      using assms(4) str_contains_Nil [OF assms(4)] by (simp add: scanned_def st_def longest_below_def overlap_def)
    moreover have "T = all_found needle st [] (drop (ss_position st) (take n s))"
      by (simp add: T_def all_found_def st_def)
    ultimately obtain st' where loop: "search_loop f t needle n maximum st = Some (Ok st')" and
      cases: "length (ss_output st') = maximum \<and> ss_output st' = take maximum T \<or>
        length (ss_output st') < maximum \<and> ss_position st' = n \<and>
        (\<exists>w'. scanned needle st' w' \<and> T = all_found needle st' w' [])"
      using search_loop_ok [OF t(2) assms(4,1,2), of st "[]" maximum T] False assms(3) by (auto simp: st_def)
    have "(if ss_position st' = n \<and> ss_line_start st' < n \<and> ss_line_matched st' \<and> length (ss_output st') < maximum
          then ss_output st' @ [\<lparr>lh_line = ss_line st', lh_byte_start = ss_line_start st'\<rparr>]
          else ss_output st') = take maximum T"
      using cases str_contains_Nil [OF assms(4)]
      by (auto simp: scanned_def all_found_def stream_lines_last)
    then show ?thesis
      using assms(3,4) t seek loop unfolding find_literal_lines_def st_def T_def by simp
  qed
qed


text \<open>A file whose reads return at most two bytes.\<close>

definition slow_file :: "string \<Rightarrow> File" where
  "slow_file s = \<lparr>fl_seek = (\<lambda>p. True), fl_read = (\<lambda>p n. Some (take (min n 2) (drop p s))), fl_len = Some (length s),
     fl_identity = Some (1, 1)\<rparr>"

lemma slow_file_holds: "holds (slow_file s) s"
proof -
  have "\<exists>k\<le>n. (p < length s \<longrightarrow> 0 < k) \<and> take (min n 2) (drop p s) = take k (drop p s)" if "0 < n" for p n :: nat
    using that by (intro exI [of _ "min n 2"]) auto
  then show ?thesis
    by (auto simp: holds_def slow_file_def)
qed

theorem find_literal_lines_exact_witness:
  "find_literal_lines (slow_file (''xaab'' @ [CHR 0x0A] @ ''ab'' @ [CHR 0x0A] @ ''aaab'')) 12 0 1 ''aab'' 5 =
    Some (Ok [\<lparr>lh_line = 1, lh_byte_start = 0\<rparr>, \<lparr>lh_line = 3, lh_byte_start = 8\<rparr>])"
  using find_literal_lines_exact [OF slow_file_holds, of 12 "''xaab'' @ [CHR 0x0A] @ ''ab'' @ [CHR 0x0A] @ ''aaab''"
      0 "''aab''" 1 5]
  by (simp add: str_contains_def list_ex_iff str_starts_with_def)

end
