(* ===== verification/Log_Store.thy ===== *)
theory Log_Store
  imports Log_Writer Check_Execution Leaf_Validity
begin

text \<open>
  The log store of a run (\<^verbatim>\<open>src/rust/executor-core/src/log_store.rs\<close>): the selectors of leaves,
  the directories they name, the lease on a run, the metadata and diagnostics published beside
  the logs and the reading of declared reports.  The lemmas show that different leaves have
  separate directories, that the runner looks for the files of a leaf where the store keeps them,
  and that the store accepts the evidence of every finalised leaf.  System calls are fields of
  the lease.
\<close>

section \<open>Names\<close>

definition is_name_byte :: "char \<Rightarrow> bool" where
  "is_name_byte b \<longleftrightarrow> is_ascii_lowercase b \<or> is_ascii_digit b \<or> b = CHR ''-''"

definition is_id_byte :: "char \<Rightarrow> bool" where
  "is_id_byte b \<longleftrightarrow> is_ascii_alphanumeric b \<or> b = CHR ''.'' \<or> b = CHR ''_'' \<or> b = CHR ''-''"

definition log_validate_run_id :: "string \<Rightarrow> (LogStoreError, unit) result" where
  "log_validate_run_id s =
     (if s \<noteq> [] \<and> length s \<le> 128 \<and> is_ascii_alphanumeric (hd s) \<and> list_all is_id_byte s \<and>
         s \<noteq> ''.'' \<and> s \<noteq> ''..'' then Ok () else Err InvalidRunId)"

definition log_validate_check :: "string \<Rightarrow> (LogStoreError, unit) result" where
  "log_validate_check s =
     reject_if (\<not> (s \<noteq> [] \<and> length s \<le> 64) \<or> \<not> is_ascii_lowercase (hd s) \<and> \<not> is_ascii_digit (hd s) \<or>
       \<not> list_all is_name_byte s) (InvalidComponent ''check'')"

definition log_validate_case :: "string \<Rightarrow> (LogStoreError, unit) result" where
  "log_validate_case s =
     reject_if (\<not> (s \<noteq> [] \<and> length s \<le> 128) \<or> \<not> is_ascii_alphanumeric (hd s) \<or> \<not> list_all is_id_byte s)
       (InvalidComponent ''case'')"

definition log_validate_test :: "string \<Rightarrow> (LogStoreError, unit) result" where
  "log_validate_test s =
     reject_if (\<not> (s \<noteq> [] \<and> length s \<le> 32) \<or> \<not> is_ascii_lowercase (hd s) \<and> \<not> is_ascii_digit (hd s) \<or>
       \<not> list_all is_name_byte s) (InvalidComponent ''test'')"

definition validate_time_order :: "u64 \<Rightarrow> u64 option \<Rightarrow> (LogStoreError, unit) result" where
  "validate_time_order started finished =
     reject_if (optb (\<lambda>t. t < started) finished) (InvalidMetadata ''finish time precedes start time'')"

section \<open>Selectors\<close>

definition LeafSelector_new :: "string option \<Rightarrow> LogPhase \<Rightarrow> string option \<Rightarrow> (LogStoreError, LeafSelector) result" where
  "LeafSelector_new check phase case_id =
     (let fits = (case phase of
            LogPhase.Executor \<Rightarrow> check = None \<and> case_id = None
          | LogPhase.Check \<Rightarrow> check \<noteq> None \<and> case_id = None
          | LogPhase.Discovery \<Rightarrow> check \<noteq> None \<and> case_id = None
          | _ \<Rightarrow> check \<noteq> None \<and> case_id \<noteq> None)
      in then_do (steps [
           reject_if (\<not> fits) (InvalidSelector ''phase, check, and case do not identify one log leaf''),
           if_some log_validate_check check,
           if_some log_validate_case case_id]) (\<lambda>_.
         Ok \<lparr>ls_check = check, ls_phase = phase, ls_case_id = case_id\<rparr>))"

definition LeafSelector_executor :: LeafSelector where
  "LeafSelector_executor = \<lparr>ls_check = None, ls_phase = LogPhase.Executor, ls_case_id = None\<rparr>"

definition revalidate :: "LeafSelector \<Rightarrow> (LogStoreError, LeafSelector) result" where
  "revalidate selector = LeafSelector_new (ls_check selector) (ls_phase selector) (ls_case_id selector)"

section \<open>Metadata\<close>

record RunLogMetadata =
  rlm_schema :: u8
  rlm_run_id :: string
  rlm_test :: string
  rlm_started_at_epoch_ms :: u64
  rlm_finished_at_epoch_ms :: "u64 option"
  rlm_status :: RunStatus
  rlm_complete :: bool

definition RunLogMetadata_validate :: "RunLogMetadata \<Rightarrow> (LogStoreError, unit) result" where
  "RunLogMetadata_validate m = steps [
     reject_if (rlm_schema m \<noteq> 2) (InvalidMetadata ''schema must be 2''),
     log_validate_run_id (rlm_run_id m),
     log_validate_test (rlm_test m),
     validate_time_order (rlm_started_at_epoch_ms m) (rlm_finished_at_epoch_ms m),
     reject_if ((rlm_finished_at_epoch_ms m \<noteq> None) = (rlm_status m = RunStatus.Running))
       (InvalidMetadata ''run status and finish time disagree''),
     reject_if (rlm_status m = RunStatus.Running \<and> rlm_complete m)
       (InvalidMetadata ''running run evidence cannot be complete'')]"

text \<open>The model's metadata of a leaf has the schema 2 by construction.\<close>

definition LeafLogMetadata_validate :: "LeafLogMetadata \<Rightarrow> (LogStoreError, unit) result" where
  "LeafLogMetadata_validate m = steps [
     then_do (revalidate (llm_selector m)) (\<lambda>_. Ok ()),
     (case DiagnosticExit_validate (llm_exit m) of
        Inl _ \<Rightarrow> Err (InvalidMetadata ''diagnostic exit is invalid'') | Inr _ \<Rightarrow> Ok ()),
     validate_time_order (llm_started_at_epoch_ms m) (llm_finished_at_epoch_ms m),
     reject_if ((llm_finished_at_epoch_ms m \<noteq> None) \<noteq> LeafStatus_is_terminal (llm_status m))
       (InvalidMetadata ''leaf status and finish time disagree''),
     reject_if (\<not> LeafStatus_is_terminal (llm_status m) \<and> llm_complete m)
       (InvalidMetadata ''nonterminal leaf evidence cannot be complete''),
     reject_if (\<not> llm_process_started m \<and> (de_code (llm_exit m) \<noteq> None \<or> de_signal (llm_exit m) \<noteq> None))
       (InvalidMetadata ''a pre-start leaf cannot have a process exit''),
     reject_if (MAX_DIAGNOSTIC_SOURCES < length (llm_structured_evidence_formats m) \<or>
         of_nat MAX_DIAGNOSTIC_EVENTS < llm_structured_evidence_count m)
       (InvalidMetadata ''structured evidence metadata exceeds its bound''),
     reject_if (\<not> successively (\<lambda>a b. format_rank a < format_rank b) (llm_structured_evidence_formats m))
       (InvalidMetadata ''structured evidence formats must be sorted and unique'')]"

section \<open>Directories\<close>

datatype MkdirAnswer = MkdirDone | MkdirExists | MkdirFailed string

text \<open>
  The lease on the directory of a run: a path below it is the list of its components; making and
  opening a directory, and the steps of replacing a file in it, may fail.
\<close>

record RunLogLease =
  ll_run_id :: string
  ll_mkdir :: "string list \<Rightarrow> MkdirAnswer"
  ll_open_dir :: "string list \<Rightarrow> string option"
  ll_replace :: "string list \<Rightarrow> AtomicStep \<Rightarrow> string option"

definition ensure_directory :: "RunLogLease \<Rightarrow> string list \<Rightarrow> string \<Rightarrow> (LogStoreError, string list) result" where
  "ensure_directory lease parent name =
     (case ll_mkdir lease (parent @ [name]) of
        MkdirFailed source \<Rightarrow> Err (Io ''create log directory'' source)
      | _ \<Rightarrow>
          (case ll_open_dir lease (parent @ [name]) of
             Some source \<Rightarrow> Err (Io ''open log directory'' source)
           | None \<Rightarrow> Ok (parent @ [name])))"

fun phase_name :: "LogPhase \<Rightarrow> string" where
  "phase_name LogPhase.Executor = ''executor''"
| "phase_name LogPhase.Check = ''check''"
| "phase_name LogPhase.Discovery = ''discovery''"
| "phase_name LogPhase.Case = ''case''"
| "phase_name LogPhase.Fixture = ''fixture''"
| "phase_name LogPhase.Cleanup = ''cleanup''"

fun stream_name :: "LogStream \<Rightarrow> string" where
  "stream_name LogStream.Stdout = ''stdout''"
| "stream_name LogStream.Stderr = ''stderr''"

fun case_directory :: "LogPhase \<Rightarrow> string" where
  "case_directory LogPhase.Fixture = ''fixtures''"
| "case_directory LogPhase.Cleanup = ''cleanup''"
| "case_directory phase = ''cases''"

text \<open>The selector is one that \<open>LeafSelector_new\<close> accepted, so the \<^verbatim>\<open>expect\<close> of its parts cannot fail.\<close>

definition open_leaf :: "RunLogLease \<Rightarrow> LeafSelector \<Rightarrow> (LogStoreError, string list) result" where
  "open_leaf lease selector =
     (let check_dir = then_do (ensure_directory lease [] ''checks'')
            (\<lambda>checks. ensure_directory lease checks (selector_check selector))
      in if ls_phase selector = LogPhase.Executor then ensure_directory lease [] ''executor''
         else if ls_phase selector = LogPhase.Check \<or> ls_phase selector = LogPhase.Discovery
         then then_do check_dir (\<lambda>check. ensure_directory lease check (phase_name (ls_phase selector)))
         else then_do check_dir (\<lambda>check.
           then_do (ensure_directory lease check (case_directory (ls_phase selector))) (\<lambda>cases.
             ensure_directory lease cases (selector_case selector))))"

section \<open>Publishing\<close>

definition publish_typed_metadata :: "RunLogLease \<Rightarrow> string list \<Rightarrow> string \<Rightarrow> (LogStoreError, unit) result" where
  "publish_typed_metadata lease directory name =
     (case atomic_write_relative (ll_replace lease (directory @ [name])) of
        (replaced, Some source) \<Rightarrow> Err (StorageIncomplete MetadataPublish source)
      | (replaced, None) \<Rightarrow> Ok ())"

definition publish_run_metadata :: "RunLogLease \<Rightarrow> RunLogMetadata \<Rightarrow> (LogStoreError, unit) result" where
  "publish_run_metadata lease m =
     steps [RunLogMetadata_validate m,
       reject_if (rlm_run_id m \<noteq> ll_run_id lease) (InvalidMetadata ''run metadata does not match the active lease''),
       publish_typed_metadata lease [] ''run.json'']"

definition publish_leaf_metadata :: "RunLogLease \<Rightarrow> LeafLogMetadata \<Rightarrow> (LogStoreError, unit) result" where
  "publish_leaf_metadata lease m =
     then_do (LeafLogMetadata_validate m) (\<lambda>_.
       then_do (revalidate (llm_selector m)) (\<lambda>selector.
         then_do (open_leaf lease selector) (\<lambda>directory. publish_typed_metadata lease directory ''leaf.json'')))"

definition foreign_ref :: "string \<Rightarrow> LeafSelector \<Rightarrow> LogRef \<Rightarrow> bool" where
  "foreign_ref run selector r \<longleftrightarrow> lr_run_id r \<noteq> run \<or> lr_check r \<noteq> ls_check selector \<or>
     lr_phase r \<noteq> ls_phase selector \<or> lr_case r \<noteq> ls_case_id selector"

definition check_leaf_entry :: "string \<Rightarrow> LeafSelector \<Rightarrow> FailureIndexEntry \<Rightarrow> (LogStoreError, unit) result" where
  "check_leaf_entry run selector entry = steps [
     (case FailureIndexEntry_validate entry of
        Inl _ \<Rightarrow> Err (InvalidMetadata ''structured diagnostic entry is invalid'') | Inr _ \<Rightarrow> Ok ()),
     reject_if (fie_check entry \<noteq> ls_check selector \<or> list_ex (foreign_ref run selector) (fie_log_refs entry))
       (InvalidMetadata ''structured diagnostic entry belongs to another leaf'')]"

definition publish_leaf_diagnostics ::
  "RunLogLease \<Rightarrow> LeafSelector \<Rightarrow> FailureIndexEntry list \<Rightarrow> (LogStoreError, unit) result" where
  "publish_leaf_diagnostics lease selector entries =
     (if MAX_DIAGNOSTIC_EVENTS < length entries
      then Err (InvalidMetadata ''structured diagnostic count exceeds its bound'')
      else then_do (revalidate selector) (\<lambda>selector.
        then_do (for_each (check_leaf_entry (ll_run_id lease) selector) entries) (\<lambda>_.
          then_do (open_leaf lease selector) (\<lambda>directory.
            publish_typed_metadata lease directory ''diagnostics.json''))))"

section \<open>The lease\<close>

datatype LockAnswer = Locked | Contended | LockFailed string

text \<open>
  What acquiring the lease asks of the system: the directory is opened, the lock file in it opened
  and locked, and the directory synced.
\<close>

record LeaseOs =
  lz_open_run_dir :: "string option"
  lz_open_lock :: "string option"
  lz_lock :: LockAnswer
  lz_sync :: "string option"

definition io_step :: "string \<Rightarrow> string option \<Rightarrow> (LogStoreError, unit) result" where
  "io_step operation failed = (case failed of None \<Rightarrow> Ok () | Some source \<Rightarrow> Err (Io operation source))"

definition acquire_lease :: "LeaseOs \<Rightarrow> string option \<Rightarrow> string \<Rightarrow> (LogStoreError, string) result" where
  "acquire_lease os basename run =
     then_do (steps [
       log_validate_run_id run,
       reject_if (basename \<noteq> Some run) (InvalidSelector ''log directory basename does not match its run identifier''),
       io_step ''open run log directory'' (lz_open_run_dir os),
       io_step ''open log file'' (lz_open_lock os),
       (case lz_lock os of
          Locked \<Rightarrow> Ok () | Contended \<Rightarrow> Err LeaseContended | LockFailed source \<Rightarrow> Err (Io ''lock active run'' source)),
       io_step ''sync run directory'' (lz_sync os)]) (\<lambda>_. Ok run)"

section \<open>Streams\<close>

text \<open>Creating the two files of a stream: an existing one is an error, and the log is removed when its index cannot be made.\<close>

record StreamOs =
  so_create_log :: "string option"
  so_create_index :: "string option"
  so_sync_leaf :: "string option"

definition create_stream ::
  "RunLogLease \<Rightarrow> StreamOs \<Rightarrow> LeafSelector \<Rightarrow> LogStream \<Rightarrow> (LogStoreError, CompleteLogWriter) result" where
  "create_stream lease os selector stream =
     then_do (revalidate selector) (\<lambda>selector.
       then_do (open_leaf lease selector) (\<lambda>directory.
         then_do (steps [
           io_step ''open log file'' (so_create_log os),
           io_step ''open log file'' (so_create_index os),
           io_step ''sync leaf directory'' (so_sync_leaf os)]) (\<lambda>_.
             Ok (new_writer selector stream))))"

section \<open>Declared reports\<close>

definition validated_relative_components :: "string \<Rightarrow> (LogStoreError, string list) result" where
  "validated_relative_components path =
     (if path = [] \<or> hd path = CHR ''/'' \<or> last path = CHR ''/'' \<or> str_contains path ''//'' \<or>
         CHR 0x5C \<in> set path \<or> nul \<in> set path \<or>
         \<not> list_all (\<lambda>c. case c of Normal _ \<Rightarrow> True | _ \<Rightarrow> False) (components path) \<or> components path = []
      then Err (InvalidComponent ''diagnostic report path'')
      else Ok (concat (map (\<lambda>c. case c of Normal name \<Rightarrow> [name] | _ \<Rightarrow> []) (components path))))"

text \<open>
  The file of a report: its type, length and identity (device, inode, length and time of change) before
  and after reading, and its bytes up to the requested number.
\<close>

record ReportFile =
  rf_regular :: bool
  rf_length :: u64
  rf_read :: "nat \<Rightarrow> (string, string) result"
  rf_before :: "u64 \<times> u64 \<times> u64 \<times> int \<times> int"
  rf_after :: "u64 \<times> u64 \<times> u64 \<times> int \<times> int"

text \<open>\<open>directory\<close> opens a directory on the way without following links, \<open>report\<close> the file itself.\<close>

fun open_path :: "(string list \<Rightarrow> string option) \<Rightarrow> string list \<Rightarrow> string list \<Rightarrow> (LogStoreError, string list) result" where
  "open_path directory path [] = Ok path"
| "open_path directory path (name # names) =
     (case directory (path @ [name]) of
        Some source \<Rightarrow> Err (Io ''open declared diagnostic directory'' source)
      | None \<Rightarrow> open_path directory (path @ [name]) names)"

definition read_report_file :: "u64 \<Rightarrow> ReportFile \<Rightarrow> (LogStoreError, string) result" where
  "read_report_file maximum rf =
     (if \<not> rf_regular rf \<or> maximum < rf_length rf
      then Err (InvalidMetadata ''declared diagnostic report is not a bounded regular file'')
      else case rf_read rf (unat (saturating_add maximum 1)) of
          Inl source \<Rightarrow> Err (Io ''read declared diagnostic report'' source)
        | Inr payload \<Rightarrow>
            if unat maximum < length payload
            then Err (InvalidMetadata ''declared diagnostic report exceeds its read bound'')
            else if rf_before rf \<noteq> rf_after rf
            then Err (InvalidMetadata ''declared diagnostic report changed while being read'')
            else Ok payload)"

definition read_declared_report ::
  "RunLogLease \<Rightarrow> (string list \<Rightarrow> string option) \<Rightarrow> (string list \<Rightarrow> (string, ReportFile) result)
   \<Rightarrow> LeafSelector \<Rightarrow> string \<Rightarrow> u64 \<Rightarrow> (LogStoreError, string) result" where
  "read_declared_report lease directory report selector relative maximum =
     (if maximum = 0 then Err (InvalidMetadata ''declared report read bound must be positive'')
      else then_do (revalidate selector) (\<lambda>selector.
        then_do (open_leaf lease selector) (\<lambda>leaf.
          then_do (validated_relative_components relative) (\<lambda>names.
            then_do (open_path directory leaf (butlast names)) (\<lambda>parent.
              case report (parent @ [last names]) of
                Inl source \<Rightarrow> Err (Io ''open declared diagnostic report'' source)
              | Inr rf \<Rightarrow> read_report_file maximum rf)))))"

section \<open>Leaves have separate directories\<close>

definition valid_selector :: "LeafSelector \<Rightarrow> bool" where
  "valid_selector selector \<longleftrightarrow> revalidate selector = Ok selector"

text \<open>The directory of a leaf, as its components.\<close>

definition leaf_path :: "LeafSelector \<Rightarrow> string list" where
  "leaf_path selector =
     (case ls_phase selector of
        LogPhase.Executor \<Rightarrow> [''executor'']
      | LogPhase.Check \<Rightarrow> [''checks'', selector_check selector, ''check'']
      | LogPhase.Discovery \<Rightarrow> [''checks'', selector_check selector, ''discovery'']
      | phase \<Rightarrow> [''checks'', selector_check selector, case_directory phase, selector_case selector])"

lemma ensure_directory_ok: "ensure_directory lease parent name = Ok path \<Longrightarrow> path = parent @ [name]"
  by (auto simp: ensure_directory_def split: MkdirAnswer.splits option.splits)

lemma open_leaf_path: "open_leaf lease selector = Ok path \<Longrightarrow> path = leaf_path selector"
  by (cases "ls_phase selector") (auto simp: open_leaf_def leaf_path_def dest!: ensure_directory_ok)

lemma revalidate_ok:
  "revalidate selector = Ok result \<Longrightarrow> result = selector \<and> valid_selector selector"
  by (auto simp: valid_selector_def revalidate_def LeafSelector_new_def Let_def)

lemma valid_selector_parts:
  assumes "valid_selector selector"
  shows "ls_check selector = (if ls_phase selector = LogPhase.Executor then None else Some (selector_check selector))"
    and "ls_case_id selector = (if ls_phase selector \<in> {LogPhase.Executor, LogPhase.Check, LogPhase.Discovery} then None
      else Some (selector_case selector))"
    and "ls_phase selector \<noteq> LogPhase.Executor \<Longrightarrow> log_validate_check (selector_check selector) = Ok ()"
    and "ls_phase selector \<notin> {LogPhase.Executor, LogPhase.Check, LogPhase.Discovery} \<Longrightarrow>
      log_validate_case (selector_case selector) = Ok ()"
  using assms
  by (cases "ls_phase selector"; auto simp: valid_selector_def revalidate_def LeafSelector_new_def Let_def steps_ok
      selector_check_def selector_case_def)+

lemma leaf_path_inject:
  assumes "valid_selector a" and "valid_selector b" and "prefix (leaf_path a) (leaf_path b)"
  shows "a = b"
proof -
  have "ls_phase a = ls_phase b \<and> (ls_phase a \<noteq> LogPhase.Executor \<longrightarrow> selector_check a = selector_check b) \<and>
      (ls_phase a \<notin> {LogPhase.Executor, LogPhase.Check, LogPhase.Discovery} \<longrightarrow> selector_case a = selector_case b)"
    using assms(3) by (cases "ls_phase a"; cases "ls_phase b") (simp_all add: leaf_path_def)
  then show ?thesis
    using valid_selector_parts(1,2) [OF assms(1)] valid_selector_parts(1,2) [OF assms(2)]
    by (auto intro!: LeafSelector.equality)
qed

lemma name_bytes_plain:
  assumes "s \<noteq> []" and "is_ascii_alphanumeric (hd s)" and "list_all is_id_byte s"
  shows "components s = [Normal s]" and "nul \<notin> set s"
  using identity_component [OF assms(1,2)] assms(3) path_safe_byte_def
  by (auto simp: list_all_iff is_id_byte_def is_identity_byte_def)

lemma check_name_plain:
  assumes "log_validate_check s = Ok ()"
  shows "components s = [Normal s]"
  using assms name_bytes_plain(1) [of s]
  by (auto simp: log_validate_check_def is_name_byte_def is_id_byte_def is_ascii_alphanumeric_def list_all_iff)

lemma case_name_plain: "log_validate_case s = Ok () \<Longrightarrow> components s = [Normal s]"
  using name_bytes_plain(1) [of s] by (auto simp: log_validate_case_def)

lemma leaf_path_plain:
  assumes "valid_selector selector"
  shows "list_all (\<lambda>name. components name = [Normal name]) (leaf_path selector)"
proof -
  have fixed: "components name = [Normal name]"
    if "name \<in> {''executor'', ''checks'', ''check'', ''discovery'', ''cases'', ''fixtures'', ''cleanup''}" for name
    using that by (auto simp: components_def is_absolute_def segment_component_def)
  show ?thesis
    using valid_selector_parts(3,4) [OF assms] check_name_plain case_name_plain fixed
    by (cases "ls_phase selector") (simp_all add: leaf_path_def)
qed

text \<open>
  C17: two leaves of a run never share a directory.  The directories the store opens for different
  selectors lie beside each other, none inside the other, and consist of plain names, so that
  none leaves the directory of the run.
\<close>

theorem leaf_directories_isolated:
  assumes "valid_selector a" and "valid_selector b" and "a \<noteq> b"
    and "open_leaf lease a = Ok p" and "open_leaf lease b = Ok q"
  shows "\<not> prefix p q \<and> \<not> prefix q p \<and> list_all (\<lambda>name. components name = [Normal name]) p"
  using leaf_path_inject assms(1-3) leaf_path_plain [OF assms(1)] open_leaf_path [OF assms(4)] open_leaf_path [OF assms(5)]
  by metis

lemma components_path_join:
  assumes "is_absolute base" and "components name = [Normal name]"
  shows "components (path_join base name) = components base @ [Normal name]" and "is_absolute (path_join base name)"
proof -
  have relative: "\<not> is_absolute name" using assms(2) by (auto simp: components_def)
  have parts: "concat (map segment_component (segments name)) = [Normal name]"
    using components_relative [OF relative] assms(2) by simp
  show "is_absolute (path_join base name)" using assms(1) relative by (simp add: path_join_def)
  show "components (path_join base name) = components base @ [Normal name]"
  proof (cases "last base = CHR ''/''")
    case True
    obtain p where base: "base = p @ [CHR ''/'']"
      using True assms(1) by (metis append_butlast_last_id is_absolute_def list.simps(4))
    have "components (base @ name) = [RootDir] @ concat (map segment_component (segments p)) @ [Normal name]"
      using is_absolute_append [OF assms(1), of name] parts segments_append_slash [of p name]
      by (simp add: components_def base)
    moreover have "components base = [RootDir] @ concat (map segment_component (segments p))"
      using assms(1) segments_append_slash [of p "[]"] by (simp add: components_def base segment_component_def)
    ultimately show ?thesis using relative True by (simp add: path_join_def)
  next
    case False
    then show ?thesis
      using assms(1) relative components_join [OF assms(1), of name] parts
      by (auto simp: path_join_def is_absolute_def)
  qed
qed

lemma components_foldl_join:
  "is_absolute base \<Longrightarrow> list_all (\<lambda>name. components name = [Normal name]) names \<Longrightarrow>
     components (foldl path_join base names) = components base @ map Normal names"
  by (induction names arbitrary: base) (simp_all add: components_path_join)

text \<open>
  The directory in which the runner looks for the files of a leaf is the one in which
  the log store keeps them: the directory of the run followed by the components the store opens.
\<close>

theorem leaf_log_directory_agrees:
  assumes "valid_selector selector" and "is_absolute base" and "open_leaf lease selector = Ok path"
  shows "components (leaf_log_directory base selector) = components base @ map Normal path"
proof -
  have "leaf_log_directory base selector = foldl path_join base (leaf_path selector)"
    by (cases "ls_phase selector") (simp_all add: leaf_log_directory_def leaf_path_def Let_def)
  then show ?thesis
    using components_foldl_join [OF assms(2) leaf_path_plain [OF assms(1)]] open_leaf_path [OF assms(3)] by simp
qed

section \<open>The store accepts the evidence of finalised leaves\<close>

lemma sort_key_formats: "sorted (map format_rank (sort_key format_rank formats))"
  by simp

lemma format_rank_inject: "format_rank a = format_rank b \<longleftrightarrow> a = b"
  by (cases a; cases b) simp_all

lemma remdups_adj_successively:
  "sorted (map format_rank formats) \<Longrightarrow> successively (\<lambda>a b. format_rank a < format_rank b) (remdups_adj formats)"
proof (induction formats rule: remdups_adj.induct)
  case (3 x y xs)
  then show ?case
  proof (cases "x = y")
    case False
    then have "format_rank x < format_rank y" using "3.prems" format_rank_inject [of x y] by (simp add: le_less)
    moreover have "successively (\<lambda>a b. format_rank a < format_rank b) (remdups_adj (y # xs))"
      using "3.IH"(2) [OF False] "3.prems" by simp
    ultimately show ?thesis using False by (simp add: successively_Cons)
  qed simp
qed simp_all

lemma formats_bounded: "length (remdups_adj (sort_key format_rank formats)) \<le> 4"
proof -
  have "sorted_wrt (<) (map format_rank (remdups_adj (sort_key format_rank formats)))"
    using remdups_adj_successively [OF sort_key_formats, of formats]
    by (simp add: successively_map flip: successively_conv_sorted_wrt [OF transp_on_less])
  then have "distinct (map format_rank (remdups_adj (sort_key format_rank formats)))"
    by (simp add: strict_sorted_iff)
  then have distinct: "distinct (remdups_adj (sort_key format_rank formats))" by (simp add: distinct_map)
  have "set (remdups_adj (sort_key format_rank formats)) \<subseteq>
      {DiagnosticReportFormat.Junit, DiagnosticReportFormat.PlaywrightJson, DiagnosticReportFormat.RustJson,
       DiagnosticReportFormat.CoordinatorJson}"
    using DiagnosticReportFormat.exhaust by blast
  from card_mono [OF _ this] have "card (set (remdups_adj (sort_key format_rank formats))) \<le> 4" by simp
  then show ?thesis using distinct_card [OF distinct] by simp
qed

lemma leaf_metadata_valid:
  assumes "valid_selector selector" and "exit_ok (px_exit_code process)" and "started \<le> env_epoch_ms env"
    and "LeafStatus_is_terminal status" and "px_process_started process \<or> px_exit_code process = None"
    and "length (px_diagnostics process) \<le> MAX_DIAGNOSTIC_EVENTS"
  shows "LeafLogMetadata_validate (leaf_metadata env selector started formats status process) = Ok ()"
proof -
  have small: "length (px_diagnostics process) < 2 ^ 64" using assms(6) by (simp add: MAX_DIAGNOSTIC_EVENTS_def)
  have count: "\<not> of_nat MAX_DIAGNOSTIC_EVENTS < (of_nat (length (px_diagnostics process)) :: u64)"
    using assms(6) unat_of_nat_small [OF small] by (simp add: word_less_nat_alt MAX_DIAGNOSTIC_EVENTS_def)
  have formats: "length (remdups_adj (sort_key format_rank formats)) \<le> MAX_DIAGNOSTIC_SOURCES"
    using formats_bounded [of formats] by (simp add: MAX_DIAGNOSTIC_SOURCES_def)
  have exit: "px_process_started process \<or> de_code (diagnostic_exit (px_exit_code process)) = None \<and>
      de_signal (diagnostic_exit (px_exit_code process)) = None"
    using assms(5) by (auto simp: diagnostic_exit_def)
  show ?thesis
    using assms(1,3,4) count formats exit diagnostic_exit_valid [OF assms(2)]
      remdups_adj_successively [OF sort_key_formats, of formats]
    by (auto simp: LeafLogMetadata_validate_def leaf_metadata_def steps_ok valid_selector_def validate_time_order_def)
qed

lemma leaf_entry_checked:
  assumes "leaf_entry (leaf_context run check selector) entry" and "ls_check selector = Some (cp_name check)"
  shows "check_leaf_entry run selector entry = Ok ()"
proof -
  have "\<not> foreign_ref run selector r" if "r \<in> set (fie_log_refs entry)" for r
    using assms that by (auto simp: leaf_entry_def leaf_context_def DiagnosticContext_log_refs_def foreign_ref_def)
  then show ?thesis
    using assms by (auto simp: check_leaf_entry_def steps_ok leaf_entry_def leaf_context_def list_ex_iff)
qed

text \<open>An environment whose evidence goes to the log store, and one that publishes everything.\<close>

definition store_env :: "RunLogLease \<Rightarrow> Env \<Rightarrow> Env" where
  "store_env lease env = env\<lparr>
     env_publish_diagnostics := (\<lambda>selector entries. \<not> isl (publish_leaf_diagnostics lease selector entries)),
     env_publish := (\<lambda>metadata. \<not> isl (publish_leaf_metadata lease metadata))\<rparr>"

definition ideal_env :: "Env \<Rightarrow> Env" where
  "ideal_env env = env\<lparr>env_publish_diagnostics := (\<lambda>_ _. True), env_publish := (\<lambda>_. True)\<rparr>"

text \<open>The system calls for one leaf succeed.\<close>

definition storage_works :: "RunLogLease \<Rightarrow> LeafSelector \<Rightarrow> bool" where
  "storage_works lease selector \<longleftrightarrow> open_leaf lease selector = Ok (leaf_path selector) \<and>
     publish_typed_metadata lease (leaf_path selector) ''leaf.json'' = Ok () \<and>
     publish_typed_metadata lease (leaf_path selector) ''diagnostics.json'' = Ok ()"

lemma leaf_failure_store: "leaf_failure (store_env lease env) = leaf_failure (ideal_env env)"
  by (intro ext) (simp add: leaf_failure_def store_env_def ideal_env_def)

lemma env_fields: "env_sha256 (store_env lease env) = env_sha256 env" "env_sha256 (ideal_env env) = env_sha256 env"
    "env_decoders (store_env lease env) = env_decoders env" "env_decoders (ideal_env env) = env_decoders env"
    "env_read_report (store_env lease env) = env_read_report env" "env_read_report (ideal_env env) = env_read_report env"
    "env_stream_metadata (store_env lease env) = env_stream_metadata env"
    "env_stream_metadata (ideal_env env) = env_stream_metadata env"
    "env_epoch_ms (store_env lease env) = env_epoch_ms env" "env_epoch_ms (ideal_env env) = env_epoch_ms env"
  by (simp_all add: store_env_def ideal_env_def)

lemma judge_leaf_store: "judge_leaf (store_env lease env) run check selector invalid process =
    judge_leaf (ideal_env env) run check selector invalid process"
proof -
  have expected: "expected_diagnostic (store_env lease env) = expected_diagnostic (ideal_env env)"
    by (intro ext) (simp add: expected_diagnostic_def env_fields)
  have "mark_invalid_evidence (store_env lease env) run check selector p = mark_invalid_evidence (ideal_env env) run check selector p" for p
    by (simp add: mark_invalid_evidence_def leaf_failure_store)
  moreover have "judge_qualification (store_env lease env) check p = judge_qualification (ideal_env env) check p" for p
    by (simp add: judge_qualification_def failed_as_expected_def expected)
  moreover have "ensure_executor_failure (store_env lease env) run check selector p =
      ensure_executor_failure (ideal_env env) run check selector p" for p
    unfolding ensure_executor_failure_def leaf_failure_store by (rule refl)
  moreover have "normalize_leaf (store_env lease env) run check selector p = normalize_leaf (ideal_env env) run check selector p" for p
    unfolding normalize_leaf_def leaf_failure_store env_fields by (rule refl)
  ultimately show ?thesis unfolding judge_leaf_def Let_def by simp
qed

lemma read_sources_store:
  "read_sources (store_env lease env) selector context sources state = read_sources (ideal_env env) selector context sources state"
proof (induction sources arbitrary: state)
  case (Cons source sources)
  have "read_declared_diagnostics (store_env lease env) selector source context =
      read_declared_diagnostics (ideal_env env) selector source context"
    unfolding read_declared_diagnostics_def env_fields by simp
  with Cons show ?case by (cases state) simp
qed (cases state; simp)

lemma leaf_terminal: "LeafStatus_is_terminal (leaf_status_of status)"
  by (cases status) (simp_all add: LeafStatus_is_terminal_def)

lemma publish_leaf_store:
  assumes "digest_size (env_sha256 env)" and "valid_selector selector" and "ls_check selector = Some (cp_name check)"
    and "leaf_ok (leaf_context run check selector) process" and "length (px_diagnostics process) \<le> MAX_DIAGNOSTIC_EVENTS"
    and "px_process_started process \<or> px_exit_code process = None" and "ll_run_id lease = run"
    and "started \<le> env_epoch_ms env" and "storage_works lease selector"
  shows "publish_leaf (store_env lease env) run check selector started formats process = process"
proof -
  note works = assms(9) [unfolded storage_works_def]
  have revalid: "revalidate selector = Ok selector" using assms(2) by (simp add: valid_selector_def)
  have "for_each (check_leaf_entry run selector) (px_diagnostics process) = Ok ()"
    using assms(4) leaf_entry_checked [OF _ assms(3)] by (auto simp: leaf_ok_def accepted_def list_all_iff)
  then have diagnostics: "publish_leaf_diagnostics lease selector (px_diagnostics process) = Ok ()"
    using works revalid assms(5,7) by (simp add: publish_leaf_diagnostics_def)
  have "LeafLogMetadata_validate (leaf_metadata env' selector started formats (leaf_status_of (px_status process)) process) = Ok ()"
    if "env_epoch_ms env' = env_epoch_ms env" for env'
    using assms(2,4-6,8) that leaf_terminal [of "px_status process"] by (intro leaf_metadata_valid) (simp_all add: leaf_ok_def)
  moreover have "llm_selector (leaf_metadata env' selector started formats status process) = selector" for env' status
    by (simp add: leaf_metadata_def)
  ultimately have "publish_leaf_metadata lease
      (leaf_metadata env' selector started formats (leaf_status_of (px_status process)) process) = Ok ()"
    if "env_epoch_ms env' = env_epoch_ms env" for env'
    using works revalid that by (simp add: publish_leaf_metadata_def)
  then show ?thesis
    using diagnostics env_fields(9) [of lease env]
    by (simp add: publish_leaf_def Let_def) (simp add: store_env_def)
qed

lemma judge_leaf_process:
  "px_process_started (judge_leaf env run check selector invalid p) = px_process_started p"
  "px_exit_code (judge_leaf env run check selector invalid p) = px_exit_code p"
proof -
  have "px_process_started (normalize_leaf env run check selector p) = px_process_started p"
      "px_exit_code (normalize_leaf env run check selector p) = px_exit_code p" for p
    by (simp_all add: normalize_leaf_def split: sum.split)
  moreover have "px_process_started (ensure_executor_failure env run check selector p) = px_process_started p"
      "px_exit_code (ensure_executor_failure env run check selector p) = px_exit_code p" for p
    by (simp_all add: ensure_executor_failure_def Let_def split: prod.split)
  moreover have "px_process_started (judge_qualification env check p) = px_process_started p"
      "px_exit_code (judge_qualification env check p) = px_exit_code p" for p
    by (simp_all add: judge_qualification_def split: ProcessStatus.split)
  ultimately show "px_process_started (judge_leaf env run check selector invalid p) = px_process_started p"
      "px_exit_code (judge_leaf env run check selector invalid p) = px_exit_code p"
    by (simp_all add: judge_leaf_def Let_def mark_invalid_evidence_def fail_on_diagnostics_def)
qed

text \<open>
  C15: the log store never refuses the evidence of a finalised leaf.  As long as its system
  calls succeed and the clock does not run backwards, the diagnostics and the metadata the runner
  publishes pass every check of the store, so that the result of the leaf is the one it would
  have with a store that publishes everything.
\<close>

theorem store_accepts_leaf_evidence:
  assumes "digest_size (env_sha256 env)" and "DiagnosticContext_validate (leaf_context run check selector) = Ok ()"
    and "leaf_ok (leaf_context run check selector) process"
    and "px_process_started process \<or> px_exit_code process = None"
    and "valid_selector selector" and "ls_check selector = Some (cp_name check)" and "ll_run_id lease = run"
    and "started \<le> env_epoch_ms env" and "storage_works lease selector"
  shows "finalize_leaf_evidence (store_env lease env) run check selector started process =
    finalize_leaf_evidence (ideal_env env) run check selector started process"
proof (cases "px_service process = None")
  case True
  let ?ctx = "leaf_context run check selector"
  let ?p = "require_streams (process\<lparr>px_streams := supplement_stream_summaries (ideal_env env) run selector (px_streams process)\<rparr>)"
  have streams: "supplement_stream_summaries (store_env lease env) run selector (px_streams process) =
      supplement_stream_summaries (ideal_env env) run selector (px_streams process)"
    unfolding supplement_stream_summaries_def supplement_stream_def env_fields by (rule refl)
  have p: "px_diagnostics ?p = px_diagnostics process" "px_exit_code ?p = px_exit_code process"
      "px_process_started ?p = px_process_started process"
    by (simp_all add: require_streams_def)
  obtain formats diagnostics invalid where
    read: "read_sources (ideal_env env) selector ?ctx (cp_diagnostic_sources check)
      ([], px_diagnostics ?p, px_structured_evidence_invalid ?p) = (formats, diagnostics, invalid)"
    by (cases rule: prod_cases3)
  let ?judged = "judge_leaf (ideal_env env) run check selector invalid (?p\<lparr>px_diagnostics := diagnostics\<rparr>)"
  have digest: "digest_size (env_sha256 (ideal_env env))" using assms(1) by (simp add: env_fields)
  have "leaf_ok ?ctx (?p\<lparr>px_diagnostics := diagnostics\<rparr>)"
    using assms(3) read_sources_accepted [OF digest assms(2) read] p by (simp add: leaf_ok_def)
  then have ok: "leaf_ok ?ctx ?judged" by (rule judge_leaf_ok [OF digest assms(2)])
  have short: "length (px_diagnostics ?judged) \<le> MAX_DIAGNOSTIC_EVENTS"
    using judge_leaf_length [of "ideal_env env" run check selector invalid "?p\<lparr>px_diagnostics := diagnostics\<rparr>"]
    by (simp add: MAX_FAILURE_INDEX_def MAX_DIAGNOSTIC_EVENTS_def)
  have started: "px_process_started ?judged \<or> px_exit_code ?judged = None"
    unfolding judge_leaf_process using assms(4) p by simp
  have "publish_leaf (store_env lease env) run check selector started formats ?judged = ?judged"
    by (rule publish_leaf_store [OF assms(1,5,6) ok short started assms(7-9)])
  moreover have "publish_leaf (ideal_env env) run check selector started formats ?judged = ?judged"
    by (simp add: publish_leaf_def Let_def) (simp add: ideal_env_def)
  ultimately show ?thesis
    using True read unfolding finalize_leaf_evidence_def Let_def streams read_sources_store judge_leaf_store by simp
qed (simp add: finalize_leaf_evidence_def)

text \<open>
  A clock that was set back between the start and the end of a leaf makes the store refuse its metadata,
  and the leaf becomes unsafe whatever its process did.
\<close>

lemma clock_set_back_refused:
  assumes "env_epoch_ms env < started" and "valid_selector selector" and "exit_ok (px_exit_code process)"
  shows "publish_leaf_metadata lease (leaf_metadata env selector started formats status process)
    = Err (InvalidMetadata ''finish time precedes start time'')"
  using assms diagnostic_exit_valid [OF assms(3)]
  by (simp add: publish_leaf_metadata_def LeafLogMetadata_validate_def leaf_metadata_def valid_selector_def
      validate_time_order_def reject_if_def)

section \<open>Examples\<close>

definition sample_lease :: RunLogLease where
  "sample_lease = \<lparr>ll_run_id = ''run-1'', ll_mkdir = (\<lambda>_. MkdirExists), ll_open_dir = (\<lambda>_. None),
     ll_replace = (\<lambda>_ _. None)\<rparr>"

definition build_case :: LeafSelector where
  "build_case = case_selector ''build'' LogPhase.Case ''unit.1''"

lemma sample_selectors: "valid_selector (check_selector ''build'') \<and> valid_selector build_case \<and>
    open_leaf sample_lease (check_selector ''build'') = Ok [''checks'', ''build'', ''check''] \<and>
    open_leaf sample_lease build_case = Ok [''checks'', ''build'', ''cases'', ''unit.1'']"
  by (simp add: valid_selector_def revalidate_def LeafSelector_new_def Let_def check_selector_def build_case_def
      case_selector_def log_validate_check_def log_validate_case_def reject_if_def if_some_def is_name_byte_def is_id_byte_def
      ascii_defs open_leaf_def ensure_directory_def sample_lease_def selector_check_def selector_case_def)

theorem leaf_directories_isolated_witness:
  "\<not> prefix [''checks'', ''build'', ''check''] [''checks'', ''build'', ''cases'', ''unit.1'']"
  using leaf_directories_isolated [of "check_selector ''build''" build_case sample_lease] sample_selectors
  by (auto simp: check_selector_def build_case_def case_selector_def)

theorem leaf_log_directory_agrees_witness:
  "components (leaf_log_directory ''/logs/run-1'' build_case) =
     components ''/logs/run-1'' @ map Normal [''checks'', ''build'', ''cases'', ''unit.1'']"
  using leaf_log_directory_agrees [of build_case "''/logs/run-1''" sample_lease] sample_selectors
  by (simp add: is_absolute_def)

lemma build_context_valid:
  "DiagnosticContext_validate (leaf_context ''run-1'' build_check (check_selector ''build'')) = Ok ()"
  by code_simp

theorem store_accepts_leaf_evidence_witness:
  "finalize_leaf_evidence (store_env sample_lease sample_env) ''run-1'' build_check (check_selector ''build'') 1 sample_process =
     finalize_leaf_evidence (ideal_env sample_env) ''run-1'' build_check (check_selector ''build'') 1 sample_process"
proof (rule store_accepts_leaf_evidence)
  show "storage_works sample_lease (check_selector ''build'')"
    using sample_selectors
    by (simp add: storage_works_def leaf_path_def check_selector_def selector_check_def publish_typed_metadata_def
        atomic_write_relative_def sample_lease_def)
qed (use sample_selectors build_context_valid in \<open>simp_all add: sample_env_def digest_size_def sample_process_def leaf_ok_def
    exit_ok_def check_selector_def build_check_def sample_check_def sample_lease_def\<close>)

end
