(* ===== verification/Fingerprints.thy ===== *)
theory Fingerprints
  imports Diagnostics
begin

text \<open>
  What a fingerprint identifies.  The bytes that \<^verbatim>\<open>diagnostic_fingerprint\<close> hashes are a sequence
  of fields behind their lengths; a reader of such sequences recovers the fields, so that two
  accepted failures are hashed from the same bytes exactly when they agree on every identifying
  field.  That the digest separates different bytes is an assumption on the digest function.
\<close>

section \<open>Reading framed fields\<close>

definition be_value :: "string \<Rightarrow> nat" where
  "be_value bytes = foldl (\<lambda>n c. n * 256 + of_char c) 0 bytes"

function read_fields :: "string \<Rightarrow> string list option" where
  "read_fields bytes =
     (if bytes = [] then Some []
      else if length bytes < 8 then None
      else let n = be_value (take 8 bytes); rest = drop 8 bytes
           in if length rest < n then None
              else map_option (Cons (take n rest)) (read_fields (drop n rest)))"
  by pat_completeness auto
termination read_fields
  by (relation "measure length") auto

declare read_fields.simps [simp del]

lemma length_be_bytes [simp]: "length (be_bytes k n) = k"
  by (induction k n rule: be_bytes.induct) simp_all

lemma be_value_be_bytes: "be_value (be_bytes k n) = n mod 256 ^ k"
proof (induction k n rule: be_bytes.induct)
  case (2 k n)
  have "be_value (be_bytes (Suc k) n) = (n div 256) mod 256 ^ k * 256 + n mod 256"
    using 2 by (simp add: be_value_def)
  also have "\<dots> = n mod 256 ^ Suc k"
    using mod_mult2_eq [of n 256 "256 ^ k"] by (simp add: mult.commute)
  finally show ?case .
qed (simp add: be_value_def)

lemma read_framed:
  assumes "length field < 2 ^ 64"
  shows "read_fields (framed field @ rest) = map_option (Cons field) (read_fields rest)"
proof -
  have "be_value (be_bytes 8 (length field)) = length field" using assms by (simp add: be_value_be_bytes)
  moreover have "be_bytes 8 (length field) \<noteq> []" by (metis length_be_bytes list.size(3) zero_neq_numeral)
  ultimately show ?thesis
    by (subst read_fields.simps) (simp add: framed_def Let_def)
qed

lemma read_fields_Nil: "read_fields [] = Some []"
  by (simp add: read_fields.simps)

lemma read_framed_fields:
  "\<forall>field \<in> set fs. length field < 2 ^ 64 \<Longrightarrow> read_fields (concat (map framed fs)) = Some fs"
  by (induction fs) (simp_all add: read_framed read_fields_Nil)

text \<open>
  The bytes a fingerprint is computed from can be read back: the reader
  recovers from the concatenation of framed fields exactly those fields, in their order, when
  each is shorter than \<open>2 ^ 64\<close> bytes, which the length of every Rust string is.
\<close>

theorem framed_fields_read_back:
  assumes "\<forall>field \<in> set fs. length field < 2 ^ 64"
  shows "read_fields (concat (map framed fs)) = Some fs"
  using assms by (rule read_framed_fields)

theorem framed_fields_read_back_witness:
  "read_fields (concat (map framed [''unit'', [], ''a''])) = Some [''unit'', [], ''a'']"
  by (rule framed_fields_read_back) simp

definition short :: "string \<Rightarrow> bool" where
  "short s \<longleftrightarrow> length s < 2 ^ 64"

lemma framed_inject:
  assumes "list_all short xs" and "list_all short ys" and "concat (map framed xs) = concat (map framed ys)"
  shows "xs = ys"
proof -
  have "Some xs = read_fields (concat (map framed xs))"
    by (rule read_framed_fields [symmetric]) (use assms(1) in \<open>simp add: list_all_iff short_def\<close>)
  also have "\<dots> = read_fields (concat (map framed ys))" by (simp only: assms(3))
  also have "\<dots> = Some ys"
    by (rule read_framed_fields) (use assms(2) in \<open>simp add: list_all_iff short_def\<close>)
  finally show ?thesis by (rule option.inject [THEN iffD1])
qed

section \<open>Decimal text\<close>

lemma decimal_inject [simp]: "decimal m = decimal n \<longleftrightarrow> m = n"
  by (metis decimal_value_decimal)

lemma decimal_length: "length (decimal n) \<le> max 1 n"
proof (induction n rule: decimal.induct)
  case (1 n)
  show ?case
  proof (cases "n < 10")
    case True
    then show ?thesis by (simp add: decimal.simps [of n])
  next
    case False
    with 1 have "length (decimal (n div 10)) \<le> n div 10" by auto
    with False show ?thesis by (simp add: decimal.simps [of n])
  qed
qed

lemma decimal_short: "n < 2 ^ 64 \<Longrightarrow> length (decimal n) < 2 ^ 64"
  using decimal_length [of n] by auto

lemma int_to_string_inject [simp]: "int_to_string m = int_to_string n \<longleftrightarrow> m = n"
proof -
  have "decimal k \<noteq> CHR ''-'' # s" "CHR ''-'' # s \<noteq> decimal k" for k s
  proof -
    have "CHR ''-'' \<notin> set (decimal k)" using decimal_digits [of "CHR ''-''" k] by auto
    then show "decimal k \<noteq> CHR ''-'' # s" "CHR ''-'' # s \<noteq> decimal k" by (metis list.set_intros(1))+
  qed
  then show ?thesis by (auto simp: int_to_string_def)
qed

lemma int_to_string_nonempty [simp]: "int_to_string n \<noteq> []" "[] \<noteq> int_to_string n"
  by (simp_all add: int_to_string_def)

lemma or_default_inject:
  "\<forall>x. a = Some x \<or> b = Some x \<longrightarrow> f x \<noteq> [] \<Longrightarrow> \<forall>x y. a = Some x \<and> b = Some y \<and> f x = f y \<longrightarrow> x = y \<Longrightarrow>
     or_default (map_option f a) = or_default (map_option f b) \<longleftrightarrow> a = b"
  by (cases a; cases b) (auto simp: or_default_def)

section \<open>Names of variants differ\<close>

lemma status_name_inject [simp]: "status_name a = status_name b \<longleftrightarrow> a = b"
  by (cases a; cases b) simp_all

lemma category_name_inject [simp]: "category_name a = category_name b \<longleftrightarrow> a = b"
  by (cases a; cases b) simp_all

lemma termination_name_inject [simp]: "termination_name a = termination_name b \<longleftrightarrow> a = b"
  by (cases a; cases b) simp_all

lemma debug_class_inject [simp]: "debug_class a = debug_class b \<longleftrightarrow> a = b"
  by (cases a; cases b) simp_all

lemma debug_phase_inject [simp]: "debug_phase a = debug_phase b \<longleftrightarrow> a = b"
  by (cases a; cases b) simp_all

lemma debug_cleanup_inject [simp]: "debug_cleanup a = debug_cleanup b \<longleftrightarrow> a = b"
  by (cases a; cases b) simp_all

lemma debug_action_inject [simp]: "debug_action a = debug_action b \<longleftrightarrow> a = b"
  by (cases a; cases b) simp_all

lemma bool_to_string_inject [simp]: "bool_to_string a = bool_to_string b \<longleftrightarrow> a = b"
  by (simp add: bool_to_string_def)

lemma termination_name_nonempty [simp]: "termination_name a \<noteq> []" "[] \<noteq> termination_name a"
  by (cases a; simp)+

lemma short_names:
  "length (status_name st) < 2 ^ 64" "length (category_name c) < 2 ^ 64" "length (termination_name t) < 2 ^ 64"
  "length (debug_class cl) < 2 ^ 64" "length (debug_phase p) < 2 ^ 64" "length (debug_cleanup cs) < 2 ^ 64"
  "length (debug_action a) < 2 ^ 64" "length (bool_to_string b) < 2 ^ 64"
proof -
  show "length (status_name st) < 2 ^ 64" by (cases st) simp_all
  show "length (category_name c) < 2 ^ 64" by (cases c) simp_all
  show "length (termination_name t) < 2 ^ 64" by (cases t) simp_all
  show "length (debug_class cl) < 2 ^ 64" by (cases cl) simp_all
  show "length (debug_phase p) < 2 ^ 64" by (cases p) simp_all
  show "length (debug_cleanup cs) < 2 ^ 64" by (cases cs) simp_all
  show "length (debug_action a) < 2 ^ 64" by (cases a) simp_all
  show "length (bool_to_string b) < 2 ^ 64" by (simp add: bool_to_string_def)
qed

section \<open>Identity\<close>

definition coordinator_identity where
  "coordinator_identity c =
     (cde_class c, cde_command_phase c, cde_cleanup_status c, cde_container_id c, cde_container_name c,
      cde_native_execution_started c, cde_retryable c, cde_next_action c, cde_stdout_bytes c,
      cde_stderr_bytes c, cde_cleanup_stderr_bytes c, cde_container_labels c)"

definition diagnostic_identity where
  "diagnostic_identity entry =
     (fie_status entry, fie_error_category entry, fie_check entry, fie_case entry, fie_source entry,
      map_option dv_sha256 (fie_expected entry), fie_exit entry, fie_termination_reason entry,
      map_option coordinator_identity (fie_coordinator entry))"

text \<open>An exit code is an \<^verbatim>\<open>i32\<close>.\<close>

definition i32_exit :: "FailureIndexEntry \<Rightarrow> bool" where
  "i32_exit entry \<longleftrightarrow> (\<forall>code. de_code (fie_exit entry) = Some code \<longrightarrow> - (2 ^ 31) \<le> code \<and> code < 2 ^ 31)"

lemma label_pairs_inject:
  "concat (map (\<lambda>(key, value). [key, value]) xs) = concat (map (\<lambda>(key, value). [key, value]) ys) \<longleftrightarrow> xs = ys"
proof (induction xs arbitrary: ys)
  case Nil
  then show ?case by (cases ys) auto
next
  case (Cons x xs)
  then show ?case by (cases ys) (auto split: prod.splits)
qed

lemma valid_entry_parts:
  assumes "FailureIndexEntry_validate entry = Ok ()"
  shows "fie_check entry = Some check \<Longrightarrow> check \<noteq> [] \<and> length check \<le> 64"
    and "fie_case entry = Some case_id \<Longrightarrow> case_id \<noteq> [] \<and> length case_id \<le> 256"
    and "fie_source entry = Some source \<Longrightarrow> sl_file source \<noteq> [] \<and> length (sl_file source) \<le> 512"
    and "fie_expected entry = Some expected \<Longrightarrow> length (dv_sha256 expected) = 64"
    and "fie_coordinator entry = Some coordinator \<Longrightarrow> CoordinatorDiagnosticEntry_validate coordinator = Ok ()"
  using assms
  by (auto simp: FailureIndexEntry_validate_def steps_ok validate_name_def validate_diagnostic_name_def
      MAX_DIAGNOSTIC_NAME_BYTES_def SourceLocation_validate_def MAX_DIAGNOSTIC_PATH_BYTES_def
      validate_relative_path_def DiagnosticValue_validate_def validate_digest_def)

lemma valid_coordinator_parts:
  assumes "CoordinatorDiagnosticEntry_validate c = Ok ()"
  shows "cde_container_id c = Some cid \<Longrightarrow> length cid = 64"
    and "cde_container_name c = Some name \<Longrightarrow> name \<noteq> [] \<and> length name \<le> 129"
    and "(key, value) \<in> set (cde_container_labels c) \<Longrightarrow> length key \<le> 128 \<and> length value \<le> 256"
proof -
  show "cde_container_id c = Some cid \<Longrightarrow> length cid = 64"
    using assms by (auto simp: CoordinatorDiagnosticEntry_validate_def steps_ok)
  show "(key, value) \<in> set (cde_container_labels c) \<Longrightarrow> length key \<le> 128 \<and> length value \<le> 256"
    using assms by (force simp: CoordinatorDiagnosticEntry_validate_def steps_ok)
  assume "cde_container_name c = Some name"
  then have "\<not> invalid_container_name name"
    using assms by (auto simp: CoordinatorDiagnosticEntry_validate_def steps_ok)
  then show "name \<noteq> [] \<and> length name \<le> 129"
    by (auto simp: invalid_container_name_def Let_def strip_prefix_def str_starts_with_def split: if_splits)
qed

lemma short_default: "(\<And>x. v = Some x \<Longrightarrow> short (f x)) \<Longrightarrow> short (or_default (map_option f v))"
  by (cases v) (auto simp: or_default_def short_def)

lemma short_decimal: "short (decimal (unat (n :: 'n::len word)))" if "LENGTH('n) \<le> 64"
proof -
  have "unat n < 2 ^ LENGTH('n)" by (rule unsigned_less)
  also have "(2::nat) ^ LENGTH('n) \<le> 2 ^ 64" using that by (intro power_increasing) simp_all
  finally show ?thesis unfolding short_def by (rule decimal_short)
qed

lemma short_int: "- (2 ^ 31) \<le> n \<Longrightarrow> n < 2 ^ 31 \<Longrightarrow> short (int_to_string n)"
proof -
  assume "- (2 ^ 31) \<le> n" and "n < 2 ^ 31"
  then have "nat n \<le> 2 ^ 31" and "nat (- n) \<le> 2 ^ 31" by auto
  then show ?thesis using decimal_length [of "nat n"] decimal_length [of "nat (- n)"]
    by (auto simp: short_def int_to_string_def)
qed

lemma short_coordinator_fields:
  assumes "CoordinatorDiagnosticEntry_validate c = Ok ()"
  shows "list_all short (coordinator_fields c)"
proof -
  have "list_all short (concat (map (\<lambda>(key, value). [key, value]) (cde_container_labels c)))"
    using valid_coordinator_parts(3) [OF assms] by (fastforce simp: list_all_iff short_def)
  moreover have "short (or_default (cde_container_id c))" "short (or_default (cde_container_name c))"
    using valid_coordinator_parts(1,2) [OF assms]
    by (auto simp: or_default_def short_def split: option.splits)
  ultimately show ?thesis
    using short_names by (simp add: coordinator_fields_def short_decimal) (simp add: short_def)
qed

lemma short_diagnostic_fields:
  assumes "FailureIndexEntry_validate entry = Ok ()" and "i32_exit entry"
  shows "list_all short (diagnostic_fields entry)"
proof -
  note parts = valid_entry_parts [OF assms(1)]
  have "short (or_default (fie_check entry))" "short (or_default (fie_case entry))"
    using parts(1,2) by (auto simp: or_default_def short_def split: option.splits)
  moreover have "short (or_default (map_option sl_file (fie_source entry)))"
    "short (or_default (map_option dv_sha256 (fie_expected entry)))"
    by (rule short_default, drule parts(3) parts(4), simp add: short_def)+
  moreover have "short (or_default (map_option int_to_string (de_code (fie_exit entry))))"
    using assms(2) by (auto intro!: short_default short_int simp: i32_exit_def)
  moreover have "short (or_default (map_option termination_name (fie_termination_reason entry)))"
    by (rule short_default) (simp add: short_def short_names(3) [simplified])
  moreover have "short (status_name (fie_status entry))" "short (category_name (fie_error_category entry))"
    unfolding short_def by (rule short_names)+
  moreover have "short (or_default (map_option (\<lambda>source. decimal (unat (sl_line source))) (fie_source entry)))"
    "short (or_default (map_option (\<lambda>column. decimal (unat column)) (Option.bind (fie_source entry) sl_column)))"
    "short (or_default (map_option (\<lambda>signal. decimal (unat signal)) (de_signal (fie_exit entry))))"
    by (rule short_default, rule short_decimal, simp)+
  moreover have "short ''devcoordinator-diagnostic-v1''" by (simp add: short_def)
  ultimately show ?thesis by (simp add: diagnostic_fields_def)
qed

lemma unat_eq: "unat a = unat b \<longleftrightarrow> a = (b :: 'n::len word)"
  by (auto dest: word_unat_eq_iff [THEN iffD2])

lemma or_default_some: "(\<And>x. a = Some x \<Longrightarrow> x \<noteq> []) \<Longrightarrow> (\<And>x. b = Some x \<Longrightarrow> x \<noteq> []) \<Longrightarrow>
    or_default a = or_default b \<longleftrightarrow> a = b"
  by (cases a; cases b) (auto simp: or_default_def)

lemma coordinator_fields_inject:
  assumes "CoordinatorDiagnosticEntry_validate a = Ok ()" and "CoordinatorDiagnosticEntry_validate b = Ok ()"
  shows "coordinator_fields a = coordinator_fields b \<longleftrightarrow> coordinator_identity a = coordinator_identity b"
proof -
  note pa = valid_coordinator_parts [OF assms(1)] and pb = valid_coordinator_parts [OF assms(2)]
  have "or_default (cde_container_id a) = or_default (cde_container_id b) \<longleftrightarrow> cde_container_id a = cde_container_id b"
    by (rule or_default_some) (use pa(1) pb(1) in fastforce)+
  moreover have "or_default (cde_container_name a) = or_default (cde_container_name b) \<longleftrightarrow>
      cde_container_name a = cde_container_name b"
    by (rule or_default_some) (use pa(2) pb(2) in fastforce)+
  ultimately show ?thesis
    by (simp add: coordinator_fields_def coordinator_identity_def unat_eq label_pairs_inject)
qed

lemma source_fields_inject:
  fixes a b :: "SourceLocation option"
  assumes "\<And>source. a = Some source \<or> b = Some source \<Longrightarrow> sl_file source \<noteq> []"
  shows "or_default (map_option sl_file a) = or_default (map_option sl_file b) \<and>
     or_default (map_option (\<lambda>source. decimal (unat (sl_line source))) a) =
       or_default (map_option (\<lambda>source. decimal (unat (sl_line source))) b) \<and>
     or_default (map_option (\<lambda>column. decimal (unat column)) (Option.bind a sl_column)) =
       or_default (map_option (\<lambda>column. decimal (unat column)) (Option.bind b sl_column)) \<longleftrightarrow> a = b"
proof (cases a)
  case None
  then show ?thesis using assms by (cases b) (auto simp: or_default_def)
next
  case (Some x)
  then show ?thesis using assms
    by (cases b) (auto simp: or_default_def unat_eq split: option.splits intro: SourceLocation.equality)
qed

lemma diagnostic_fields_inject:
  assumes "FailureIndexEntry_validate a = Ok ()" and "FailureIndexEntry_validate b = Ok ()"
  shows "diagnostic_fields a = diagnostic_fields b \<longleftrightarrow>
     fie_status a = fie_status b \<and> fie_error_category a = fie_error_category b \<and>
     fie_check a = fie_check b \<and> fie_case a = fie_case b \<and> fie_source a = fie_source b \<and>
     map_option dv_sha256 (fie_expected a) = map_option dv_sha256 (fie_expected b) \<and>
     fie_exit a = fie_exit b \<and> fie_termination_reason a = fie_termination_reason b"
proof -
  note pa = valid_entry_parts [OF assms(1)] and pb = valid_entry_parts [OF assms(2)]
  have check: "or_default (fie_check a) = or_default (fie_check b) \<longleftrightarrow> fie_check a = fie_check b"
    by (rule or_default_some) (use pa(1) pb(1) in blast)+
  have case_id: "or_default (fie_case a) = or_default (fie_case b) \<longleftrightarrow> fie_case a = fie_case b"
    by (rule or_default_some) (use pa(2) pb(2) in blast)+
  have expected: "or_default (map_option dv_sha256 (fie_expected a)) = or_default (map_option dv_sha256 (fie_expected b))
      \<longleftrightarrow> map_option dv_sha256 (fie_expected a) = map_option dv_sha256 (fie_expected b)"
    by (rule or_default_some) (use pa(4) pb(4) in fastforce)+
  have code: "or_default (map_option int_to_string c) = or_default (map_option int_to_string d) \<longleftrightarrow> c = d" for c d
    by (rule or_default_inject) auto
  have signal: "or_default (map_option (\<lambda>signal. decimal (unat signal)) c) =
      or_default (map_option (\<lambda>signal. decimal (unat signal)) d) \<longleftrightarrow> c = d" for c d :: "u8 option"
    by (rule or_default_inject) (auto simp: unat_eq)
  have reason: "or_default (map_option termination_name c) = or_default (map_option termination_name d) \<longleftrightarrow> c = d" for c d
    by (rule or_default_inject) auto
  have exit: "fie_exit a = fie_exit b \<longleftrightarrow>
      de_code (fie_exit a) = de_code (fie_exit b) \<and> de_signal (fie_exit a) = de_signal (fie_exit b)"
    by (auto intro: DiagnosticExit.equality)
  have source: "sl_file s \<noteq> []" if "fie_source a = Some s \<or> fie_source b = Some s" for s
    using that pa(3) pb(3) by blast
  show ?thesis
    using source_fields_inject [of "fie_source a" "fie_source b", OF source]
    by (simp add: diagnostic_fields_def check case_id expected code signal reason exit) blast
qed

lemma fingerprint_bytes_inject:
  assumes "FailureIndexEntry_validate a = Ok ()" and "FailureIndexEntry_validate b = Ok ()"
    and "i32_exit a" and "i32_exit b"
  shows "fingerprint_bytes a = fingerprint_bytes b \<longleftrightarrow> diagnostic_identity a = diagnostic_identity b"
proof -
  let ?rest = "\<lambda>e. case fie_coordinator e of None \<Rightarrow> [] | Some c \<Rightarrow> coordinator_fields c"
  have short: "list_all short (diagnostic_fields e @ ?rest e)"
    if "FailureIndexEntry_validate e = Ok ()" and "i32_exit e" for e
    using short_diagnostic_fields [OF that] short_coordinator_fields valid_entry_parts(5) [OF that(1)]
    by (auto split: option.splits)
  have "fingerprint_bytes a = fingerprint_bytes b \<longleftrightarrow> diagnostic_fields a @ ?rest a = diagnostic_fields b @ ?rest b"
    unfolding fingerprint_bytes_def
    using framed_inject [OF short [OF assms(1,3)] short [OF assms(2,4)]] by metis
  also have "\<dots> \<longleftrightarrow> diagnostic_fields a = diagnostic_fields b \<and> ?rest a = ?rest b"
    by (rule append_eq_append_conv) (simp add: diagnostic_fields_def)
  also have "?rest a = ?rest b \<longleftrightarrow>
      map_option coordinator_identity (fie_coordinator a) = map_option coordinator_identity (fie_coordinator b)"
    using valid_entry_parts(5) [OF assms(1)] valid_entry_parts(5) [OF assms(2)]
    by (cases "fie_coordinator a"; cases "fie_coordinator b")
      (auto simp: coordinator_fields_inject, auto simp: coordinator_fields_def)
  finally show ?thesis
    by (auto simp: diagnostic_identity_def diagnostic_fields_inject [OF assms(1,2)])
qed

text \<open>
  C31: two failures the protocol accepts have the same fingerprint exactly
  when they agree on the fields that identify a failure (status, category, check, case, source,
  digest of the expected value, exit, reason, and the coordinator's evidence), when the digest
  function does not collide on the two byte sequences it is given: no two different failures are
  collapsed, because every optional or empty field is encoded apart.
\<close>

theorem fingerprint_identifies:
  assumes "FailureIndexEntry_validate a = Ok ()" and "FailureIndexEntry_validate b = Ok ()"
    and "i32_exit a" and "i32_exit b"
    and "sha256 (fingerprint_bytes a) = sha256 (fingerprint_bytes b) \<Longrightarrow> fingerprint_bytes a = fingerprint_bytes b"
  shows "diagnostic_fingerprint sha256 a = diagnostic_fingerprint sha256 b \<longleftrightarrow>
    diagnostic_identity a = diagnostic_identity b"
proof -
  have "diagnostic_fingerprint sha256 a = diagnostic_fingerprint sha256 b \<longleftrightarrow> fingerprint_bytes a = fingerprint_bytes b"
    using assms(5) by (auto simp: diagnostic_fingerprint_def lower_hex_inject)
  then show ?thesis using fingerprint_bytes_inject [OF assms(1-4)] by simp
qed

theorem fingerprint_identifies_witness:
  "diagnostic_fingerprint (\<lambda>bytes. bytes) (sample_failure None) \<noteq>
     diagnostic_fingerprint (\<lambda>bytes. bytes) (sample_failure (Some ''a''))"
  using fingerprint_identifies [OF sample_failure_valid, of "\<lambda>bytes. bytes"]
  by (simp add: i32_exit_def sample_failure_def diagnostic_identity_def)

end
