(* ===== verification/Log_Lines.thy ===== *)
theory Log_Lines
  imports Log_Search Log_Store Fingerprints
begin

text \<open>
  Lines of a stored stream (\<^verbatim>\<open>src/rust/executor-core/src/log_query.rs\<close>): the inspection of a
  stream and of its sparse index before a query, the position of a line, the line of a byte, and
  reading an interval of lines.  Shown: an index is accepted exactly when it is the index of the
  stream, and with an accepted index, or without one, positions and lines are exact and a read
  returns the lines asked for, cut at its limit, whatever the sizes of the blocks the operating
  system returns.
\<close>

section \<open>Reading a file\<close>

text \<open>\<^verbatim>\<open>read_exact\<close> from a position: an error and the end of the file are both \<open>None\<close>.\<close>

function read_exact :: "File \<Rightarrow> nat \<Rightarrow> nat \<Rightarrow> string option" where
  "read_exact f p n =
     (if n = 0 then Some []
      else case fl_read f p n of
          None \<Rightarrow> None
        | Some bytes \<Rightarrow>
            if bytes = [] then None
            else map_option ((@) bytes) (read_exact f (p + length bytes) (n - length bytes)))"
  by pat_completeness auto
termination read_exact
  by (relation "measure (\<lambda>(f, p, n). n)") auto

declare read_exact.simps [simp del]

definition read_bytes :: "File \<Rightarrow> nat \<Rightarrow> nat \<Rightarrow> (LogQueryError, string) result" where
  "read_bytes f start amount =
     (if \<not> fl_seek f start then Err Unavailable
      else case read_exact f start amount of None \<Rightarrow> Err StoreMalformed | Some bytes \<Rightarrow> Ok bytes)"

text \<open>\<^verbatim>\<open>u64::from_le_bytes\<close>.\<close>

definition from_le_bytes :: "string \<Rightarrow> nat" where
  "from_le_bytes bytes = be_value (rev bytes)"

text \<open>\<^verbatim>\<open>LINE_INDEX_STRIDE\<close> as a number; \<open>validate_stream_metadata\<close> accepts no other stride.\<close>

abbreviation index_stride :: nat where
  "index_stride \<equiv> 256"

text \<open>A record of the index: the number of a line and the position of its first byte.\<close>

definition read_record :: "File \<Rightarrow> nat \<Rightarrow> (LogQueryError, nat \<times> nat) result" where
  "read_record idx p =
     (case read_exact idx p 16 of
        None \<Rightarrow> Err StoreMalformed
      | Some bytes \<Rightarrow> Ok (from_le_bytes (take 8 bytes), from_le_bytes (drop 8 bytes)))"

definition seek_record :: "File \<Rightarrow> nat \<Rightarrow> (LogQueryError, nat \<times> nat) result" where
  "seek_record idx p = (if fl_seek idx p then read_record idx p else Err Unavailable)"

section \<open>Inspecting a stream and its index\<close>

function inspect_loop ::
    "File \<Rightarrow> nat \<Rightarrow> nat \<Rightarrow> string \<times> nat \<times> char option \<Rightarrow> (LogQueryError, string \<times> nat \<times> char option) result" where
  "inspect_loop f snapshot_bytes position (hashed, newlines, final) =
     (if position < snapshot_bytes
      then case fl_read f position (min (snapshot_bytes - position) READ_BLOCK_BYTES) of
             None \<Rightarrow> Err Unavailable
           | Some bytes \<Rightarrow>
               if bytes = [] then Err StoreMalformed
               else inspect_loop f snapshot_bytes (position + length bytes)
                      (hashed @ bytes, newlines + line_feeds bytes, Some (last bytes))
      else Ok (hashed, newlines, final))"
  by pat_completeness auto
termination inspect_loop
  by (relation "measure (\<lambda>(f, snapshot_bytes, position, st). snapshot_bytes - position)")
    (auto simp: diff_less_mono2)

declare inspect_loop.simps [simp del]

definition inspect_complete_file ::
    "(string \<Rightarrow> string) \<Rightarrow> File \<Rightarrow> nat \<Rightarrow> (LogQueryError, nat \<times> string) result" where
  "inspect_complete_file sha256 f snapshot_bytes =
     (if \<not> fl_seek f 0 then Err Unavailable
      else then_do (inspect_loop f snapshot_bytes 0 ([], 0, None)) (\<lambda>(hashed, newlines, final).
        Ok (if snapshot_bytes = 0 then 0 else newlines + (if final \<noteq> Some (CHR 0x0A) then 1 else 0),
            lower_hex (sha256 hashed))))"

text \<open>One byte of the stream: the record that is due at the start of a line is compared.\<close>

type_synonym index_scan = "nat \<times> nat \<times> nat \<times> bool"

definition index_byte :: "File \<Rightarrow> char \<Rightarrow> index_scan \<Rightarrow> (LogQueryError, index_scan) result" where
  "index_byte idx byte = (\<lambda>(record_at, position, line, at_line_start).
     then_do
       (if at_line_start \<and> (line - 1) mod index_stride = 0
        then then_do (read_record idx record_at) (\<lambda>(indexed_line, indexed_offset).
               if indexed_line \<noteq> line \<or> indexed_offset \<noteq> position then Err StoreMalformed else Ok (record_at + 16))
        else Ok record_at)
       (\<lambda>record_at. Ok (record_at, position + 1, if byte = CHR 0x0A then line + 1 else line, byte = CHR 0x0A)))"

fun index_block :: "File \<Rightarrow> string \<Rightarrow> index_scan \<Rightarrow> (LogQueryError, index_scan) result" where
  "index_block idx [] st = Ok st"
| "index_block idx (byte # bytes) st = then_do (index_byte idx byte st) (index_block idx bytes)"

function compare_index :: "File \<Rightarrow> File \<Rightarrow> nat \<Rightarrow> nat \<Rightarrow> index_scan \<Rightarrow> (LogQueryError, unit) result" where
  "compare_index stream idx snapshot_bytes read_at st =
     (if read_at < snapshot_bytes
      then case fl_read stream read_at (min (snapshot_bytes - read_at) READ_BLOCK_BYTES) of
             None \<Rightarrow> Err Unavailable
           | Some bytes \<Rightarrow>
               if bytes = [] then Err StoreMalformed
               else (case index_block idx bytes st of
                       Inl e \<Rightarrow> Err e
                     | Inr st \<Rightarrow> compare_index stream idx snapshot_bytes (read_at + length bytes) st)
      else Ok ())"
  by pat_completeness auto
termination compare_index
  by (relation "measure (\<lambda>(stream, idx, snapshot_bytes, read_at, st). snapshot_bytes - read_at)")
    (auto simp: diff_less_mono2)

declare compare_index.simps [simp del]

definition validate_sparse_index :: "File \<Rightarrow> File \<Rightarrow> nat \<Rightarrow> nat \<Rightarrow> (LogQueryError, unit) result" where
  "validate_sparse_index stream idx snapshot_bytes total_lines =
     (let expected_records = (if total_lines = 0 then 0 else (total_lines - 1) div index_stride + 1)
      in case fl_len idx of
           None \<Rightarrow> Err Unavailable
         | Some len \<Rightarrow>
             if len \<noteq> expected_records * 16 then Err StoreMalformed
             else if snapshot_bytes = 0 then Ok ()
             else if \<not> fl_seek stream 0 \<or> \<not> fl_seek idx 0 then Err Unavailable
             else compare_index stream idx snapshot_bytes 0 (0, 0, 1, True))"

section \<open>Positions and lines\<close>

record SelectedStream =
  sel_log_ref :: LogRef
  sel_metadata :: StreamMetadata
  sel_file :: File
  sel_index :: "File option"
  sel_device :: u64
  sel_inode :: u64
  sel_snapshot_bytes :: nat

abbreviation sel_lines :: "SelectedStream \<Rightarrow> nat" where
  "sel_lines sel \<equiv> unat (sm_lines (sel_metadata sel))"

fun offset_block :: "nat \<Rightarrow> string \<Rightarrow> nat \<times> nat \<Rightarrow> nat option \<times> nat \<times> nat" where
  "offset_block target_line [] (line, offset) = (None, line, offset)"
| "offset_block target_line (byte # bytes) (line, offset) =
     (if byte = CHR 0x0A
      then if line + 1 = target_line then (Some (offset + 1), line + 1, offset + 1)
           else offset_block target_line bytes (line + 1, offset + 1)
      else offset_block target_line bytes (line, offset + 1))"

lemma offset_block_offset: "offset_block target bytes (line, offset) = (None, line', offset') \<Longrightarrow>
    offset' = offset + length bytes"
  by (induction target bytes "(line, offset)" arbitrary: line offset rule: offset_block.induct)
    (auto split: if_splits)

function offset_loop :: "File \<Rightarrow> nat \<Rightarrow> nat \<Rightarrow> nat \<Rightarrow> nat \<Rightarrow> (LogQueryError, nat) result" where
  "offset_loop f snapshot_bytes target_line line offset =
     (if offset < snapshot_bytes
      then case fl_read f offset (min (snapshot_bytes - offset) READ_BLOCK_BYTES) of
             None \<Rightarrow> Err Unavailable
           | Some bytes \<Rightarrow>
               if bytes = [] then Err StoreMalformed
               else (case offset_block target_line bytes (line, offset) of
                       (Some found, _) \<Rightarrow> Ok found
                     | (None, line, offset) \<Rightarrow> offset_loop f snapshot_bytes target_line line offset)
      else Err StoreMalformed)"
  by pat_completeness auto
termination offset_loop
  by (relation "measure (\<lambda>(f, snapshot_bytes, target_line, line, offset). snapshot_bytes - offset)")
    (auto simp: diff_less_mono2 dest!: offset_block_offset [OF sym])

declare offset_loop.simps [simp del]

definition line_offset :: "SelectedStream \<Rightarrow> nat \<Rightarrow> (LogQueryError, nat) result" where
  "line_offset sel target_line =
     (if target_line = 0 \<or> sel_lines sel < target_line then Err ArgsInvalid
      else then_do
        (case sel_index sel of
           None \<Rightarrow> Ok (1, 0)
         | Some idx \<Rightarrow> seek_record idx ((target_line - 1) div index_stride * 16))
        (\<lambda>(line, offset).
           if line = 0 \<or> target_line < line \<or> sel_snapshot_bytes sel < offset then Err StoreMalformed
           else if line = target_line then Ok offset
           else if \<not> fl_seek (sel_file sel) offset then Err Unavailable
           else offset_loop (sel_file sel) (sel_snapshot_bytes sel) target_line line offset))"

function search_index ::
    "File \<Rightarrow> nat \<Rightarrow> nat \<Rightarrow> nat \<Rightarrow> nat \<times> nat \<Rightarrow> (LogQueryError, nat \<times> nat) result" where
  "search_index idx target low high chosen =
     (if low < high
      then let middle = low + (high - low) div 2
           in case seek_record idx (middle * 16) of
                Inl e \<Rightarrow> Err e
              | Inr (line, offset) \<Rightarrow>
                  if offset \<le> target then search_index idx target (middle + 1) high (line, offset)
                  else search_index idx target low middle chosen
      else Ok chosen)"
  by pat_completeness auto
termination search_index
  by (relation "measure (\<lambda>(idx, target, low, high, chosen). high - low)") auto

declare search_index.simps [simp del]

function count_loop :: "File \<Rightarrow> nat \<Rightarrow> nat \<Rightarrow> nat \<Rightarrow> (LogQueryError, nat) result" where
  "count_loop f target position line =
     (if position < target
      then case fl_read f position (min (target - position) READ_BLOCK_BYTES) of
             None \<Rightarrow> Err Unavailable
           | Some bytes \<Rightarrow>
               if bytes = [] then Err StoreMalformed
               else count_loop f target (position + length bytes) (line + line_feeds bytes)
      else Ok line)"
  by pat_completeness auto
termination count_loop
  by (relation "measure (\<lambda>(f, target, position, line). target - position)")
    (auto simp: diff_less_mono2)

declare count_loop.simps [simp del]

definition line_for_byte :: "SelectedStream \<Rightarrow> nat \<Rightarrow> (LogQueryError, nat \<times> nat) result" where
  "line_for_byte sel target =
     (if sel_snapshot_bytes sel = 0 then Ok (0, 0)
      else let target = min target (sel_snapshot_bytes sel - 1)
           in then_do
                (case sel_index sel of
                   None \<Rightarrow> Ok (1, 0)
                 | Some idx \<Rightarrow>
                     (case fl_len idx of
                        None \<Rightarrow> Err Unavailable
                      | Some len \<Rightarrow>
                          if len div 16 = 0 then Err StoreMalformed
                          else search_index idx target 0 (len div 16) (1, 0)))
                (\<lambda>(line, start).
                   if \<not> fl_seek (sel_file sel) start then Err Unavailable
                   else then_do (count_loop (sel_file sel) target start line) (\<lambda>line.
                     Ok (min line (sel_lines sel), start))))"

section \<open>Reading lines\<close>

definition MAX_TEXT_BYTES :: nat where
  "MAX_TEXT_BYTES = 8 * 1024"

record LineRead =
  rd_line_start :: nat
  rd_line_end :: nat
  rd_byte_start :: nat
  rd_byte_end :: nat
  rd_bytes :: string
  rd_truncated :: bool

record IntervalState =
  iv_bytes :: string
  iv_position :: nat
  iv_line :: nat
  iv_actual_end :: nat
  iv_truncated :: bool
  iv_done :: bool

text \<open>The bytes of a block; \<open>iv_done\<close> records that both loops were left.\<close>

fun interval_block :: "nat \<Rightarrow> nat \<Rightarrow> string \<Rightarrow> IntervalState \<Rightarrow> IntervalState" where
  "interval_block end_line max_bytes [] st = st"
| "interval_block end_line max_bytes (byte # bytes) st =
     (if length (iv_bytes st) = max_bytes then st\<lparr>iv_truncated := True, iv_done := True\<rparr>
      else let st = st\<lparr>iv_bytes := iv_bytes st @ [byte], iv_position := iv_position st + 1, iv_actual_end := iv_line st\<rparr>
           in if byte = CHR 0x0A
              then if iv_line st = end_line then st\<lparr>iv_done := True\<rparr>
                   else interval_block end_line max_bytes bytes (st\<lparr>iv_line := iv_line st + 1\<rparr>)
              else interval_block end_line max_bytes bytes st)"

lemma interval_block_position:
  "\<not> iv_done (interval_block end_line max_bytes bytes st) \<Longrightarrow>
     iv_position (interval_block end_line max_bytes bytes st) = iv_position st + length bytes"
  by (induction end_line max_bytes bytes st rule: interval_block.induct) (auto simp: Let_def split: if_splits)

function interval_loop ::
    "File \<Rightarrow> nat \<Rightarrow> nat \<Rightarrow> nat \<Rightarrow> IntervalState \<Rightarrow> (LogQueryError, IntervalState) result" where
  "interval_loop f snapshot_bytes end_line max_bytes st =
     (if iv_position st < snapshot_bytes \<and> iv_line st \<le> end_line
      then case fl_read f (iv_position st) (min (snapshot_bytes - iv_position st) READ_BLOCK_BYTES) of
             None \<Rightarrow> Err Unavailable
           | Some bytes \<Rightarrow>
               if bytes = [] then Err StoreMalformed
               else let st = interval_block end_line max_bytes bytes st
                    in if iv_done st then Ok st else interval_loop f snapshot_bytes end_line max_bytes st
      else Ok st)"
  by pat_completeness auto
termination interval_loop
  by (relation "measure (\<lambda>(f, snapshot_bytes, end_line, max_bytes, st). snapshot_bytes - iv_position st)")
    (auto simp: interval_block_position diff_less_mono2)

declare interval_loop.simps [simp del]

definition read_line_interval_from ::
    "SelectedStream \<Rightarrow> nat \<Rightarrow> nat \<Rightarrow> nat \<Rightarrow> nat option \<Rightarrow> (LogQueryError, LineRead) result" where
  "read_line_interval_from sel start_line end_line max_bytes byte_override =
     (let max_bytes = min max_bytes MAX_TEXT_BYTES
      in if start_line = 0 \<or> end_line < start_line \<or> max_bytes = 0 then Err ArgsInvalid
         else then_do (line_offset sel start_line) (\<lambda>natural_start.
           let byte_start = (case byte_override of None \<Rightarrow> natural_start | Some p \<Rightarrow> p)
           in if byte_start < natural_start \<or> sel_snapshot_bytes sel < byte_start then Err CursorStale
              else if \<not> fl_seek (sel_file sel) byte_start then Err Unavailable
              else then_do
                (interval_loop (sel_file sel) (sel_snapshot_bytes sel) end_line max_bytes
                   \<lparr>iv_bytes = [], iv_position = byte_start, iv_line = start_line, iv_actual_end = start_line,
                    iv_truncated = False, iv_done = False\<rparr>)
                (\<lambda>st. Ok \<lparr>rd_line_start = start_line, rd_line_end = min (iv_actual_end st) end_line,
                          rd_byte_start = byte_start, rd_byte_end = iv_position st, rd_bytes = iv_bytes st,
                          rd_truncated = iv_truncated st\<rparr>)))"

definition read_line_interval :: "SelectedStream \<Rightarrow> nat \<Rightarrow> nat \<Rightarrow> nat \<Rightarrow> (LogQueryError, LineRead) result" where
  "read_line_interval sel start_line end_line max_bytes =
     read_line_interval_from sel start_line end_line max_bytes None"


section \<open>What a file that holds a text returns\<close>

lemma read_exact_ok:
  assumes "holds f s" and "p + n \<le> length s"
  shows "read_exact f p n = Some (take n (drop p s))"
  using assms(2)
proof (induction n arbitrary: p rule: less_induct)
  case (less n)
  show ?case
  proof (cases "n = 0")
    case False
    then obtain k where k: "k \<le> n" "0 < k" and answer: "fl_read f p n = Some (take k (drop p s))"
      using assms(1) less.prems unfolding holds_def by (metis add_diff_cancel_left' add_lessD1 gr0I le_add_diff_inverse
        less_add_same_cancel1 order_less_le_trans)
    have "read_exact f (p + k) (n - k) = Some (take (n - k) (drop (p + k) s))"
      using less k by simp
    moreover have "take k (drop p s) @ take (n - k) (drop (p + k) s) = take n (drop p s)"
      using k(1) by (metis add.commute drop_drop le_add_diff_inverse take_add)
    ultimately show ?thesis
      using False k answer less.prems by (subst read_exact.simps) (auto simp: min_absorb1)
  qed (simp add: read_exact.simps)
qed

lemma read_exact_Some:
  assumes "holds f s" and "read_exact f p n = Some bytes" and "0 < n"
  shows "p + n \<le> length s \<and> bytes = take n (drop p s)"
proof -
  have "p + n \<le> length s"
    using assms(2,3)
  proof (induction n arbitrary: p bytes rule: less_induct)
    case (less n)
    obtain k where k: "k \<le> n" "fl_read f p n = Some (take k (drop p s))"
      using assms(1) less.prems(2) unfolding holds_def by metis
    define got where "got = take k (drop p s)"
    have "got \<noteq> []" and rest: "\<exists>more. read_exact f (p + length got) (n - length got) = Some more"
      using less.prems k by (auto simp: read_exact.simps [of f p n] got_def split: if_splits)
    have size: "p + length got \<le> length s" "length got \<le> n"
      using \<open>got \<noteq> []\<close> k(1) by (auto simp: got_def)
    show ?case
    proof (cases "length got = n")
      case False
      then show ?thesis
        using less.IH [of "n - length got" "p + length got"] rest size \<open>got \<noteq> []\<close> less.prems(2) by auto
    qed (use size in simp)
  qed
  then show ?thesis
    using assms read_exact_ok by fastforce
qed

section \<open>The records of the index\<close>

lemma be_value_snoc: "be_value (s @ [c]) = be_value s * 256 + of_char c"
  by (simp add: be_value_def)

lemma be_bytes_be_value: "length s = k \<Longrightarrow> be_bytes k (be_value s) = s"
proof (induction k arbitrary: s)
  case (Suc k)
  then obtain t c where s: "s = t @ [c]" "length t = k"
    by (metis length_Suc_conv_rev)
  have "(of_char c :: nat) < 256"
    by simp
  then show ?case
    using Suc.IH [OF s(2)] by (simp add: s be_value_snoc)
qed simp

lemma from_le_bytes_le_bytes [simp]: "from_le_bytes (le_bytes n) = unat n"
proof -
  have "unat n < 256 ^ 8"
    using unsigned_less [of n] by simp
  then show ?thesis
    by (simp add: from_le_bytes_def le_bytes_def be_value_be_bytes)
qed

lemma length_le_bytes [simp]: "length (le_bytes n) = 8"
  by (simp add: le_bytes_def)

lemma le_bytes_from_le_bytes:
  assumes "length s = 8"
  shows "le_bytes (of_nat (from_le_bytes s)) = s"
proof -
  have "be_bytes 8 (from_le_bytes s) = rev s"
    using be_bytes_be_value [of "rev s" 8] assms by (simp add: from_le_bytes_def)
  moreover have "from_le_bytes s < 256 ^ 8"
    using calculation by (metis be_value_be_bytes from_le_bytes_def mod_less_divisor zero_less_numeral zero_less_power)
  then have "unat (of_nat (from_le_bytes s) :: u64) = from_le_bytes s"
    by (intro unat_of_nat_small) simp
  ultimately show ?thesis
    by (simp add: le_bytes_def)
qed

lemma length_index_record [simp]: "length (index_record s k) = 16"
  by (simp add: index_record_def)

lemma multiples_of_256: "filter (\<lambda>k. k mod 256 = 0) [0..<n] = map ((*) 256) [0..<(n + 255) div 256]"
proof (induction n)
  case (Suc n)
  show ?case
  proof (cases "n mod 256 = 0")
    case True
    then obtain m where "n = 256 * m"
      by (metis dvd_def mod_0_imp_dvd)
    then have "(Suc n + 255) div 256 = Suc ((n + 255) div 256)" "n = 256 * ((n + 255) div 256)"
      by auto
    then show ?thesis
      using Suc True by simp
  next
    case False
    then have "(Suc n + 255) div 256 = (n + 255) div 256"
      using div_Suc [of "n + 255" 256] mod_add_self2 [of n 256] by simp
    then show ?thesis
      using Suc False by simp
  qed
qed simp

lemma sparse_index_records:
  "sparse_index s = concat (map (\<lambda>q. index_record s (256 * q)) [0..<(length (line_starts s) + 255) div 256])"
  by (simp add: sparse_index_def multiples_of_256 comp_def)

lemma length_sparse_index: "length (sparse_index s) = (length (line_starts s) + 255) div 256 * 16"
  by (simp add: sparse_index_records length_concat comp_def sum_list_triv)

lemma nth_chunk:
  assumes "\<And>q. length (g q) = n" and "i < m"
  shows "take n (drop (i * n) (concat (map g [0..<m]))) = g i"
proof -
  have "[0..<m] = [0..<i] @ i # [Suc i..<m]"
    using assms(2) by (metis add_0 le_add_diff_inverse less_imp_le_nat upt_add_eq_append upt_conv_Cons zero_le)
  moreover have "length (concat (map g [0..<i])) = i * n"
    using assms(1) by (simp add: length_concat comp_def sum_list_triv)
  ultimately show ?thesis
    using assms(1) by simp
qed

lemma record_exists: "q < (n + 255) div 256 \<longleftrightarrow> 256 * q < (n :: nat)"
  using less_eq_div_iff_mult_less_eq [of 256 "Suc q" "n + 255"] by (auto simp: Suc_le_eq)

lemma nth_index_record:
  assumes "256 * q < length (line_starts s)"
  shows "take 16 (drop (q * 16) (sparse_index s)) = index_record s (256 * q)"
proof -
  have "q < (length (line_starts s) + 255) div 256"
    using assms by (simp only: record_exists)
  then show ?thesis
    unfolding sparse_index_records by (intro nth_chunk) auto
qed

lemma seek_record_ok:
  assumes "holds idx (sparse_index s)" and "256 * q < length (line_starts s)" and "length s < 2 ^ 64"
  shows "seek_record idx (q * 16) = Ok (256 * q + 1, line_starts s ! (256 * q))"
proof -
  have "q < (length (line_starts s) + 255) div 256"
    using assms(2) by (simp only: record_exists)
  then have "q * 16 + 16 \<le> length (sparse_index s)"
    by (simp add: length_sparse_index)
  then have read: "read_exact idx (q * 16) 16 = Some (index_record s (256 * q))"
    using read_exact_ok [OF assms(1)] nth_index_record [OF assms(2)] by simp
  define line where "line = 256 * q + 1"
  define offset where "offset = line_starts s ! (256 * q)"
  have "offset \<in> set (line_starts s)"
    using assms(2) by (simp add: offset_def)
  then have "offset < 2 ^ 64"
    using assms(3) by (simp add: line_starts_def)
  moreover have "line < 2 ^ 64"
    using assms(2,3) length_line_starts_le [of s] unfolding line_def by linarith
  moreover have "index_record s (256 * q) = le_bytes (of_nat line) @ le_bytes (of_nat offset)"
    by (simp only: index_record_def line_def offset_def)
  ultimately have "seek_record idx (q * 16) = Ok (line, offset)"
    using read holds_seek [OF assms(1)] by (simp add: seek_record_def read_record_def unat_of_nat_small)
  then show ?thesis
    by (simp only: line_def offset_def)
qed

section \<open>Lines and positions of a text\<close>

lemma line_starts_prefix: "\<exists>more. line_starts (s @ t) = line_starts s @ more"
proof (induction t rule: rev_induct)
  case (snoc c t)
  then show ?case
    using line_starts_snoc [of "s @ t" c] by auto
qed simp

lemma line_starts_take:
  assumes "k < length (line_starts (take n s))"
  shows "line_starts (take n s) ! k = line_starts s ! k" "k < length (line_starts s)"
proof -
  obtain more where "line_starts s = line_starts (take n s) @ more"
    using line_starts_prefix [of "take n s" "drop n s"] by auto
  then show "line_starts (take n s) ! k = line_starts s ! k" "k < length (line_starts s)"
    using assms by (simp_all add: nth_append)
qed

lemma line_starts_nth:
  assumes "k < length (line_starts s)"
  shows "line_starts s ! k < length s \<and> at_start (take (line_starts s ! k) s) \<and>
    line_feeds (take (line_starts s ! k) s) = k"
  using assms
proof (induction s rule: rev_induct)
  case (snoc c s)
  show ?case
  proof (cases "k < length (line_starts s)")
    case True
    then show ?thesis
      using snoc.IH by (auto simp: line_starts_snoc nth_append)
  next
    case False
    then have "at_start s" "k = length (line_starts s)"
      using snoc.prems by (auto simp: line_starts_snoc split: if_splits)
    then show ?thesis
      by (simp add: line_starts_snoc nth_append line_starts_at_start)
  qed
qed (simp add: line_starts_def)

lemma line_feeds_strict:
  assumes "a < b" and "b \<le> length s" and "at_start (take b s)"
  shows "line_feeds (take a s) < line_feeds (take b s)"
proof -
  have "take b s = take (b - 1) s @ [CHR 0x0A]"
    using assms by (auto simp: at_start_def take_Suc_conv_app_nth simp flip: Suc_pred dest!: less_imp_Suc_add)
  moreover have "take (b - 1) s = take a s @ take (b - 1 - a) (drop a s)"
    using assms(1) by (metis Suc_diff_1 diff_add_inverse le_add_diff_inverse less_Suc_eq_le less_zeroE neq0_conv take_add)
  ultimately show ?thesis
    by simp
qed

lemma at_start_unique:
  assumes "at_start (take p s)" and "at_start (take q s)" and "line_feeds (take p s) = line_feeds (take q s)"
    and "p \<le> length s" and "q \<le> length s"
  shows "p = q"
  using line_feeds_strict [of p q s] line_feeds_strict [of q p s] assms by (cases p q rule: linorder_cases) auto

lemma line_starts_eqI:
  assumes "k < length (line_starts s)" and "p \<le> length s" and "at_start (take p s)" and "line_feeds (take p s) = k"
  shows "line_starts s ! k = p"
  using line_starts_nth [OF assms(1)] at_start_unique [of "line_starts s ! k" s p] assms by auto

lemma line_of_byte_bound: "p < length s \<Longrightarrow> line_feeds (take p s) < length (line_starts s)"
proof (induction s rule: rev_induct)
  case (snoc c s)
  then show ?case
    using line_starts_at_start [of s] by (cases "p = length s") (auto simp: line_starts_snoc less_Suc_eq length_line_starts line_feeds_def)
qed simp


lemma line_start_before:
  assumes "p < length s"
  shows "line_starts s ! line_feeds (take p s) \<le> p"
  using line_starts_nth [OF line_of_byte_bound [OF assms]] line_feeds_strict [of p "line_starts s ! line_feeds (take p s)" s]
  by (metis leI less_imp_le_nat nless_le)

section \<open>The inspection is exact\<close>

lemma inspect_loop_ok:
  assumes "holds f s" and "n \<le> length s" and "p \<le> n"
  shows "inspect_loop f n p (take p s, line_feeds (take p s), if p = 0 then None else Some (last (take p s))) =
    Ok (take n s, line_feeds (take n s), if n = 0 then None else Some (last (take n s)))"
  using assms(3)
proof (induction "n - p" arbitrary: p rule: less_induct)
  case less
  show ?case
  proof (cases "p < n")
    case True
    from holds_block [OF assms(1,2) True] obtain bytes where
        bytes: "fl_read f p (min (n - p) READ_BLOCK_BYTES) = Some bytes" "bytes \<noteq> []" "p + length bytes \<le> n"
        and split: "drop p (take n s) = bytes @ drop (p + length bytes) (take n s)"
      by blast
    have "bytes = take (length bytes) (drop p (take n s))"
      using split by simp
    also have "\<dots> = take (length bytes) (drop p s)"
      using bytes(3) by (simp add: drop_take min_absorb1)
    finally have "take (p + length bytes) s = take p s @ bytes"
      by (metis take_add)
    moreover have "n - (p + length bytes) < n - p"
      using True bytes(2) by (simp add: diff_less_mono2)
    ultimately show ?thesis
      using less.hyps [of "p + length bytes"] bytes True by (subst inspect_loop.simps) (simp split: if_splits)
  qed (use less.prems in \<open>simp add: inspect_loop.simps\<close>)
qed

lemma inspect_complete_file_exact:
  assumes "holds f s" and "n \<le> length s"
  shows "inspect_complete_file sha256 f n = Ok (length (line_starts (take n s)), lower_hex (sha256 (take n s)))"
proof -
  have "inspect_loop f n 0 ([], 0, None) = Ok (take n s, line_feeds (take n s), if n = 0 then None else Some (last (take n s)))"
    using inspect_loop_ok [OF assms, of 0] by simp
  moreover have "length (line_starts (take n s)) = line_feeds (take n s) + (if at_start (take n s) then 0 else 1)"
    by (simp add: length_line_starts line_feeds_def)
  ultimately show ?thesis
    using holds_seek [OF assms(1)] assms(2) by (auto simp: inspect_complete_file_def at_start_def then_do_def)
qed

text \<open>The index \<open>i\<close> begins with the records of the text \<open>u\<close>.\<close>

definition agrees :: "string \<Rightarrow> string \<Rightarrow> bool" where
  "agrees i u \<longleftrightarrow> prefix (sparse_index u) i"

definition index_state :: "string \<Rightarrow> index_scan" where
  "index_state u = (length (sparse_index u), length u, Suc (line_feeds u), at_start u)"

lemma sparse_index_prefix: "prefix (sparse_index u) (sparse_index (u @ t))"
proof (induction t rule: rev_induct)
  case (snoc c t)
  have "prefix (sparse_index (u @ t)) (sparse_index ((u @ t) @ [c]))"
    unfolding sparse_index_snoc by simp
  then show ?case
    using prefix_order.trans [OF snoc.IH] by simp
qed simp

lemma read_record_compare:
  assumes "holds idx i" and "line < 2 ^ 64" and "position < 2 ^ 64"
  shows "(\<exists>r. read_record idx p = Ok r) \<or> read_record idx p = Err StoreMalformed"
    and "read_record idx p = Ok (line, position) \<longleftrightarrow>
      p + 16 \<le> length i \<and> take 16 (drop p i) = le_bytes (of_nat line) @ le_bytes (of_nat position)"
proof -
  show "(\<exists>r. read_record idx p = Ok r) \<or> read_record idx p = Err StoreMalformed"
    by (simp add: read_record_def split: option.split)
  show "read_record idx p = Ok (line, position) \<longleftrightarrow>
      p + 16 \<le> length i \<and> take 16 (drop p i) = le_bytes (of_nat line) @ le_bytes (of_nat position)" (is "_ \<longleftrightarrow> ?right")
  proof
    assume "read_record idx p = Ok (line, position)"
    then obtain bytes where bytes: "read_exact idx p 16 = Some bytes"
        "from_le_bytes (take 8 bytes) = line" "from_le_bytes (drop 8 bytes) = position"
      by (auto simp: read_record_def split: option.splits)
    then have size: "p + 16 \<le> length i" "bytes = take 16 (drop p i)"
      using read_exact_Some [OF assms(1) bytes(1)] by simp_all
    then have "length (take 8 bytes) = 8" "length (drop 8 bytes) = 8"
      by simp_all
    then have "le_bytes (of_nat line) = take 8 bytes" "le_bytes (of_nat position) = drop 8 bytes"
      using le_bytes_from_le_bytes [of "take 8 bytes"] le_bytes_from_le_bytes [of "drop 8 bytes"] bytes(2,3) by simp_all
    then have "bytes = le_bytes (of_nat line) @ le_bytes (of_nat position)"
      by simp
    then show ?right
      using size by simp
  next
    assume right: ?right
    then have "read_exact idx p 16 = Some (le_bytes (of_nat line) @ le_bytes (of_nat position))"
      using read_exact_ok [OF assms(1), of p 16] by simp
    then show "read_record idx p = Ok (line, position)"
      using assms(2,3) by (simp add: read_record_def unat_of_nat_small)
  qed
qed

lemma prefix_extend:
  assumes "prefix u i"
  shows "prefix (u @ v) i \<longleftrightarrow> length u + length v \<le> length i \<and> take (length v) (drop (length u) i) = v"
  using assms by (auto simp: prefix_def) (metis append_take_drop_id length_append nat_add_left_cancel_le)

lemma index_byte_ok:
  assumes "holds idx i" and "agrees i u" and "length u + 1 < 2 ^ 64"
  shows "index_byte idx c (index_state u) =
    (if agrees i (u @ [c]) then Ok (index_state (u @ [c])) else Err StoreMalformed)"
proof -
  let ?m = "length (sparse_index u)" and ?line = "Suc (line_feeds u)"
  define entry where "entry = le_bytes (of_nat ?line) @ le_bytes (of_nat (length u) :: u64)"
  have line: "?line < 2 ^ 64" "length u < 2 ^ 64"
    using assms(3) line_feeds_le [of u] by linarith+
  show ?thesis
  proof (cases "at_start u \<and> line_feeds u mod 256 = 0")
    case True
    then have index: "sparse_index (u @ [c]) = sparse_index u @ entry"
      using line_starts_at_start [of u] by (simp add: sparse_index_snoc entry_def)
    have "agrees i (u @ [c]) \<longleftrightarrow> read_record idx ?m = Ok (?line, length u)"
      using assms(2) prefix_extend [of "sparse_index u" i entry] read_record_compare(2) [OF assms(1) line]
      by (simp add: agrees_def index entry_def)
    then show ?thesis
      using True read_record_compare(1) [OF assms(1) line, of ?m] index
      by (auto simp: index_byte_def index_state_def then_do_def at_start_def entry_def)
  next
    case False
    then have "sparse_index (u @ [c]) = sparse_index u"
      using line_starts_at_start [of u] by (auto simp: sparse_index_snoc)
    then show ?thesis
      using False assms(2) by (auto simp: index_byte_def index_state_def then_do_def at_start_def agrees_def)
  qed
qed

lemma agrees_prefix: "agrees i (u @ t) \<Longrightarrow> agrees i u"
  unfolding agrees_def using sparse_index_prefix prefix_order.trans by blast

lemma index_block_ok:
  assumes "holds idx i" and "agrees i u" and "length u + length bytes < 2 ^ 64"
  shows "index_block idx bytes (index_state u) =
    (if agrees i (u @ bytes) then Ok (index_state (u @ bytes)) else Err StoreMalformed)"
  using assms(2,3)
proof (induction bytes arbitrary: u)
  case (Cons c bytes)
  then show ?case
    using index_byte_ok [OF assms(1) Cons.prems(1), of c] Cons.IH [of "u @ [c]"] agrees_prefix [of i "u @ [c]" bytes]
    by (auto simp: then_do_def)
qed simp

lemma compare_index_ok:
  assumes "holds f s" and "holds idx i" and "n \<le> length s" and "length s < 2 ^ 64" and "p \<le> n" and "agrees i (take p s)"
  shows "compare_index f idx n p (index_state (take p s)) = (if agrees i (take n s) then Ok () else Err StoreMalformed)"
  using assms(5,6)
proof (induction "n - p" arbitrary: p rule: less_induct)
  case less
  show ?case
  proof (cases "p < n")
    case True
    from holds_block [OF assms(1,3) True] obtain bytes where
        bytes: "fl_read f p (min (n - p) READ_BLOCK_BYTES) = Some bytes" "bytes \<noteq> []" "p + length bytes \<le> n"
        and split: "drop p (take n s) = bytes @ drop (p + length bytes) (take n s)"
      by blast
    have "bytes = take (length bytes) (drop p (take n s))"
      using split by simp
    also have "\<dots> = take (length bytes) (drop p s)"
      using bytes(3) by (simp add: drop_take min_absorb1)
    finally have ahead: "take (p + length bytes) s = take p s @ bytes"
      by (metis take_add)
    have block: "index_block idx bytes (index_state (take p s)) =
        (if agrees i (take (p + length bytes) s) then Ok (index_state (take (p + length bytes) s)) else Err StoreMalformed)"
      using index_block_ok [OF assms(2) less.prems(2), of bytes] ahead True bytes(3) assms(3,4) by simp
    have "take n s = take (p + length bytes) s @ drop (p + length bytes) (take n s)"
      using bytes(3) by (metis append_take_drop_id min_absorb1 take_take)
    then have "agrees i (take n s) \<Longrightarrow> agrees i (take (p + length bytes) s)"
      by (metis agrees_prefix)
    moreover have "n - (p + length bytes) < n - p"
      using True bytes(2) by (simp add: diff_less_mono2)
    ultimately show ?thesis
      using less.hyps [of "p + length bytes"] bytes True block by (subst compare_index.simps) auto
  qed (use less.prems in \<open>simp add: compare_index.simps\<close>)
qed

text \<open>
  C19: the check of an index before a query accepts it exactly when it is
  the sparse index of the stream: one record for each line whose number is one more than a multiple
  of 256, with that number and the position of its first byte, and nothing else.  Any other contents
  of the index file are reported as a malformed store.
\<close>

theorem sparse_index_accepted_iff:
  assumes "holds f s" and "holds idx i" and "length s < 2 ^ 64"
  shows "validate_sparse_index f idx (length s) (length (line_starts s)) =
    (if i = sparse_index s then Ok () else Err StoreMalformed)"
proof -
  let ?L = "length (line_starts s)"
  have "(?L + 255) div 256 = Suc ((?L - 1) div 256)" if "?L \<noteq> 0"
  proof -
    have "?L + 255 = (?L - 1) + 256"
      using that by simp
    then show ?thesis
      by (metis Suc_eq_plus1 add.commute div_add_self2 zero_neq_numeral)
  qed
  then have records: "(if ?L = 0 then 0 else (?L - 1) div 256 + 1) * 16 = length (sparse_index s)"
    by (auto simp: length_sparse_index)
  have start: "index_state (take 0 s) = (0, 0, 1, True)" "agrees i (take 0 s)"
    by (simp_all add: index_state_def agrees_def sparse_index_def line_starts_def at_start_def)
  have "compare_index f idx (length s) 0 (0, 0, 1, True) = (if agrees i s then Ok () else Err StoreMalformed)"
    using compare_index_ok [OF assms(1,2) order_refl assms(3) _ start(2)] start(1) by simp
  moreover have "length i = length (sparse_index s) \<Longrightarrow> agrees i s \<longleftrightarrow> i = sparse_index s"
    by (auto simp: agrees_def prefix_def)
  moreover have "s = [] \<Longrightarrow> sparse_index s = []"
    by (simp add: sparse_index_def line_starts_def)
  ultimately show ?thesis
    unfolding validate_sparse_index_def Let_def records holds_len [OF assms(2)]
    using holds_seek [OF assms(1)] holds_seek [OF assms(2)] by (cases "length i = length (sparse_index s)") auto
qed


text \<open>Two lines, the second without an end; an empty index is refused and the right one accepted.\<close>

definition two_lines :: string where
  "two_lines = ''ok'' @ [CHR 0x0A] @ ''end''"

lemma two_lines_starts: "line_starts two_lines = [0, 3]"
  by (simp add: line_starts_def two_lines_def upt_rec)

theorem sparse_index_accepted_iff_witness:
  "validate_sparse_index (slow_file two_lines) (slow_file []) 6 2 = Err StoreMalformed \<and>
   validate_sparse_index (slow_file two_lines) (slow_file (sparse_index two_lines)) 6 2 = Ok ()"
proof -
  have size: "length two_lines = 6" "length (line_starts two_lines) = 2"
    by (simp add: two_lines_def) (simp add: two_lines_starts)
  have "[] \<noteq> sparse_index two_lines"
    using length_sparse_index [of two_lines] by (auto simp: two_lines_starts)
  then show ?thesis
    using sparse_index_accepted_iff [OF slow_file_holds slow_file_holds, of two_lines "[]"]
      sparse_index_accepted_iff [OF slow_file_holds slow_file_holds, of two_lines "sparse_index two_lines"]
    unfolding size by simp
qed

section \<open>Positions are exact\<close>

text \<open>A selected stream whose file holds \<open>s\<close>: its snapshot is a part of \<open>s\<close>, and its index, if it has one,
  is the index of \<open>s\<close>.\<close>

definition selected_ok :: "SelectedStream \<Rightarrow> string \<Rightarrow> bool" where
  "selected_ok sel s \<longleftrightarrow> holds (sel_file sel) s \<and> length s < 2 ^ 64 \<and> sel_snapshot_bytes sel \<le> length s \<and>
     sel_lines sel = length (line_starts (take (sel_snapshot_bytes sel) s)) \<and>
     (\<forall>idx. sel_index sel = Some idx \<longrightarrow> holds idx (sparse_index s))"

abbreviation snapshot :: "SelectedStream \<Rightarrow> string \<Rightarrow> string" where
  "snapshot sel s \<equiv> take (sel_snapshot_bytes sel) s"

lemma offset_block_ok:
  assumes "offset_block target bytes (line, offset) = (found, line', offset')" and "line < target"
  shows "(case found of
      None \<Rightarrow> line' = line + line_feeds bytes \<and> offset' = offset + length bytes \<and> line' < target
    | Some p \<Rightarrow> \<exists>j. 0 < j \<and> j \<le> length bytes \<and> p = offset + j \<and> last (take j bytes) = CHR 0x0A \<and>
        line + line_feeds (take j bytes) = target)"
  using assms
proof (induction bytes arbitrary: line offset)
  case (Cons c bytes)
  show ?case
  proof (cases "c = CHR 0x0A \<and> line + 1 = target")
    case True
    then show ?thesis
      using Cons.prems(1) by (auto intro!: exI [of _ 1])
  next
    case False
    define line1 where "line1 = (if c = CHR 0x0A then line + 1 else line)"
    have rest: "offset_block target bytes (line1, offset + 1) = (found, line', offset')" "line1 < target"
      using Cons.prems False by (auto simp: line1_def split: if_splits)
    show ?thesis
    proof (cases found)
      case (Some p)
      then obtain j where "0 < j" "j \<le> length bytes" "p = offset + 1 + j" "last (take j bytes) = CHR 0x0A"
          "line1 + line_feeds (take j bytes) = target"
        using Cons.IH [OF rest] by auto
      then show ?thesis
        using Some by (auto simp: line1_def intro!: exI [of _ "Suc j"])
    qed (use Cons.IH [OF rest] in \<open>auto simp: line1_def\<close>)
  qed
qed simp

lemma offset_loop_ok:
  assumes "holds f s" and "n \<le> length s" and "offset \<le> n" and "line = Suc (line_feeds (take offset s))"
    and "line < target" and "target \<le> length (line_starts (take n s))"
  shows "offset_loop f n target line offset = Ok (line_starts (take n s) ! (target - 1))"
  using assms(3-5)
proof (induction "n - offset" arbitrary: offset line rule: less_induct)
  case less
  have "length (line_starts (take n s)) \<le> Suc (line_feeds (take n s))"
    by (simp add: length_line_starts line_feeds_def)
  then have inside: "offset < n"
    using less.prems assms(6) by (cases "offset = n") auto
  from holds_block [OF assms(1,2) inside] obtain bytes where
      bytes: "fl_read f offset (min (n - offset) READ_BLOCK_BYTES) = Some bytes" "bytes \<noteq> []" "offset + length bytes \<le> n"
      and split: "drop offset (take n s) = bytes @ drop (offset + length bytes) (take n s)"
    by blast
  have ahead: "take (offset + j) s = take offset s @ take j bytes" if "j \<le> length bytes" for j
  proof -
    have "take j bytes = take j (drop offset (take n s))"
      using split that by simp
    also have "\<dots> = take j (drop offset s)"
      using bytes(3) that by (simp add: drop_take min_absorb1)
    finally show ?thesis
      by (simp add: take_add)
  qed
  obtain found line' offset' where block: "offset_block target bytes (line, offset) = (found, line', offset')"
    by (metis prod_cases3)
  note result = offset_block_ok [OF block less.prems(3)]
  show ?case
  proof (cases found)
    case None
    then have "offset' = offset + length bytes" "line' = Suc (line_feeds (take offset' s))" "line' < target"
      using result less.prems(2) ahead [of "length bytes"] by auto
    moreover have "n - (offset + length bytes) < n - offset"
      using inside bytes(2) by (simp add: diff_less_mono2)
    ultimately show ?thesis
      using less.hyps [of offset' line'] None block bytes inside by (subst offset_loop.simps) simp
  next
    case (Some p)
    then obtain j where j: "0 < j" "j \<le> length bytes" "p = offset + j" "last (take j bytes) = CHR 0x0A"
        "line + line_feeds (take j bytes) = target"
      using result by auto
    have p: "take p s = take offset s @ take j bytes" "p \<le> n"
      using ahead [OF j(2)] j(2,3) bytes(3) by auto
    have "at_start (take p s)" "line_feeds (take p s) = target - 1"
      using p(1) j less.prems(2) bytes(2) by (auto simp: at_start_def)
    then have "line_starts (take n s) ! (target - 1) = p"
      using p(2) assms(2,6) less.prems(3) by (intro line_starts_eqI) (auto simp: min_absorb1)
    then show ?thesis
      using Some block bytes inside by (subst offset_loop.simps) simp
  qed
qed

text \<open>
  The position a query computes for a line of the snapshot is the position of
  the first byte of that line, whether it starts from a record of the index or reads the stream from
  its beginning; any other line number is refused.
\<close>

lemma line_offset_exact:
  assumes "selected_ok sel s"
  shows "line_offset sel target =
    (if 0 < target \<and> target \<le> length (line_starts (snapshot sel s))
     then Ok (line_starts (snapshot sel s) ! (target - 1)) else Err ArgsInvalid)"
proof (cases "0 < target \<and> target \<le> length (line_starts (snapshot sel s))")
  case True
  let ?n = "sel_snapshot_bytes sel"
  define q where "q = (target - 1) div 256"
  have disk: "holds (sel_file sel) s" "?n \<le> length s" "length s < 2 ^ 64"
    using assms by (auto simp: selected_ok_def)
  have q: "256 * q \<le> target - 1" "256 * q < length (line_starts (snapshot sel s))"
    using True by (auto simp: q_def)
  note indexed = line_starts_take [OF q(2)] and first = line_starts_nth [OF q(2)]
  obtain line offset where entry: "(case sel_index sel of None \<Rightarrow> Ok (1, 0) | Some idx \<Rightarrow> seek_record idx (q * 16)) =
        (Ok (line, offset) :: (LogQueryError, nat \<times> nat) result)"
      and line: "line \<le> target" "line = Suc (line_feeds (take offset s))" "offset \<le> ?n" "at_start (take offset s)"
  proof (cases "sel_index sel")
    case None
    then show thesis
      using that [of 1 0] True by (simp add: at_start_def)
  next
    case (Some idx)
    then have "seek_record idx (q * 16) = Ok (256 * q + 1, line_starts s ! (256 * q))"
      using assms seek_record_ok [OF _ indexed(2) disk(3)] by (auto simp: selected_ok_def)
    moreover have "take (line_starts s ! (256 * q)) (snapshot sel s) = take (line_starts s ! (256 * q)) s"
      using first indexed(1) disk(2) by (simp add: min_absorb1)
    ultimately show thesis
      using that [of "256 * q + 1" "line_starts s ! (256 * q)"] Some first indexed(1) q(1) True disk(2) by auto
  qed
  have result: "(if line = target then Ok offset else offset_loop (sel_file sel) ?n target line offset) =
      Ok (line_starts (snapshot sel s) ! (target - 1))"
  proof (cases "line = target")
    case True
    then show ?thesis
      using line disk(2) \<open>0 < target \<and> _\<close> line_starts_eqI [of "target - 1" "snapshot sel s" offset]
      by (simp add: min_absorb1)
  next
    case False
    then show ?thesis
      using offset_loop_ok [OF disk(1,2) line(3,2)] line(1) True by simp
  qed
  have "line_offset sel target = then_do (Ok (line, offset)) (\<lambda>(line, offset).
      if line = 0 \<or> target < line \<or> ?n < offset then Err StoreMalformed
      else if line = target then Ok offset
      else if \<not> fl_seek (sel_file sel) offset then Err Unavailable
      else offset_loop (sel_file sel) ?n target line offset)"
    using True assms unfolding line_offset_def entry [unfolded q_def] by (simp add: selected_ok_def)
  moreover have "\<not> (line = 0 \<or> target < line \<or> ?n < offset)"
    using line(1-3) by simp
  ultimately show ?thesis
    using result True holds_seek [OF disk(1)] by (auto simp: then_do_def split: if_splits)
qed (use assms in \<open>auto simp: line_offset_def selected_ok_def\<close>)


lemma search_index_ok:
  assumes "holds idx (sparse_index s)" and "length s < 2 ^ 64"
    and "high \<le> (length (line_starts s) + 255) div 256" and "chosen = (Suc (line_feeds (take start s)), start)"
    and "start \<le> target"
  shows "\<exists>start. search_index idx target low high chosen = Ok (Suc (line_feeds (take start s)), start) \<and> start \<le> target"
  using assms(3-5)
proof (induction "high - low" arbitrary: low high chosen start rule: less_induct)
  case less
  show ?case
  proof (cases "low < high")
    case True
    define middle where "middle = low + (high - low) div 2"
    have middle: "low \<le> middle" "middle < high"
      using True by (auto simp: middle_def)
    then have "256 * middle < length (line_starts s)"
      using less.prems(1) record_exists [of middle] by simp
    note entry = seek_record_ok [OF assms(1) this assms(2)] and first = line_starts_nth [OF this]
    show ?thesis
    proof (cases "line_starts s ! (256 * middle) \<le> target")
      case True
      then show ?thesis
        using less.hyps [of high "middle + 1" "(256 * middle + 1, line_starts s ! (256 * middle))"
            "line_starts s ! (256 * middle)"] middle less.prems(1) entry first \<open>low < high\<close>
        by (subst search_index.simps) (simp add: Let_def flip: middle_def)
    next
      case False
      then show ?thesis
        using less.hyps [of middle low chosen start] middle less.prems entry \<open>low < high\<close>
        by (subst search_index.simps) (simp add: Let_def flip: middle_def)
    qed
  qed (use less.prems in \<open>auto simp: search_index.simps\<close>)
qed

lemma count_loop_ok:
  assumes "holds f s" and "target \<le> length s" and "p \<le> target" and "line = Suc (line_feeds (take p s))"
  shows "count_loop f target p line = Ok (Suc (line_feeds (take target s)))"
  using assms(3,4)
proof (induction "target - p" arbitrary: p line rule: less_induct)
  case less
  show ?case
  proof (cases "p < target")
    case True
    from holds_block [OF assms(1,2) True] obtain bytes where
        bytes: "fl_read f p (min (target - p) READ_BLOCK_BYTES) = Some bytes" "bytes \<noteq> []" "p + length bytes \<le> target"
        and split: "drop p (take target s) = bytes @ drop (p + length bytes) (take target s)"
      by blast
    have "bytes = take (length bytes) (drop p (take target s))"
      using split by simp
    also have "\<dots> = take (length bytes) (drop p s)"
      using bytes(3) by (simp add: drop_take min_absorb1)
    finally have "take (p + length bytes) s = take p s @ bytes"
      by (metis take_add)
    moreover have "target - (p + length bytes) < target - p"
      using True bytes(2) by (simp add: diff_less_mono2)
    ultimately show ?thesis
      using less.hyps [of "p + length bytes"] bytes True less.prems(2) by (subst count_loop.simps) simp
  qed (use less.prems in \<open>simp add: count_loop.simps\<close>)
qed

lemma line_for_byte_exact:
  assumes "selected_ok sel s" and "target < sel_snapshot_bytes sel"
  shows "\<exists>start. line_for_byte sel target = Ok (Suc (line_feeds (take target s)), start)"
proof -
  let ?n = "sel_snapshot_bytes sel"
  have disk: "holds (sel_file sel) s" "?n \<le> length s" "length s < 2 ^ 64"
    using assms(1) by (auto simp: selected_ok_def)
  have lines: "line_feeds (take target s) < sel_lines sel"
    using line_of_byte_bound [of target "snapshot sel s"] assms by (simp add: selected_ok_def min_absorb1)
  obtain start where start: "start \<le> target" and
    chosen: "(case sel_index sel of None \<Rightarrow> Ok (1, 0)
       | Some idx \<Rightarrow> (case fl_len idx of None \<Rightarrow> Err Unavailable
          | Some len \<Rightarrow> if len div 16 = 0 then Err StoreMalformed
              else search_index idx target 0 (len div 16) (1, 0))) =
       (Ok (Suc (line_feeds (take start s)), start) :: (LogQueryError, nat \<times> nat) result)"
  proof (cases "sel_index sel")
    case None
    then show thesis
      using that [of 0] by simp
  next
    case (Some idx)
    then have idx: "holds idx (sparse_index s)"
      using assms(1) by (simp add: selected_ok_def)
    have "length (line_starts s) \<noteq> 0"
      using line_of_byte_bound [of target s] assms(2) disk(2) by linarith
    then have "length (sparse_index s) div 16 = (length (line_starts s) + 255) div 256" "length (sparse_index s) div 16 \<noteq> 0"
      by (simp_all add: length_sparse_index div_eq_0_iff)
    then show thesis
      using that search_index_ok [OF idx disk(3) order_refl, of "(1, 0)" 0 target 0] Some holds_len [OF idx] by auto
  qed
  have "line_for_byte sel target = then_do (Ok (Suc (line_feeds (take start s)), start)) (\<lambda>(line, start).
      if \<not> fl_seek (sel_file sel) start then Err Unavailable
      else then_do (count_loop (sel_file sel) target start line) (\<lambda>line. Ok (min line (sel_lines sel), start)))"
    using assms(2) unfolding line_for_byte_def Let_def by (simp only: chosen min_absorb1 Suc_leI if_False) simp
  then show ?thesis
    using count_loop_ok [OF disk(1) _ start refl] assms(2) disk(2) lines holds_seek [OF disk(1)]
    by (simp add: then_do_def min_absorb1)
qed

section \<open>Reads of lines are exact\<close>

text \<open>The text through the end of its \<open>k\<close>-th line.\<close>

fun take_lines :: "nat \<Rightarrow> string \<Rightarrow> string" where
  "take_lines 0 s = []"
| "take_lines (Suc k) [] = []"
| "take_lines (Suc k) (c # cs) = c # (if c = CHR 0x0A then take_lines k cs else take_lines (Suc k) cs)"

text \<open>What the loop will have read of \<open>rest\<close>: the bytes, the position, the last line and whether it was cut.\<close>

definition interval_spec :: "nat \<Rightarrow> nat \<Rightarrow> string \<Rightarrow> IntervalState \<Rightarrow> string \<times> nat \<times> nat \<times> bool" where
  "interval_spec end_line max_bytes rest st =
     (let whole = take_lines (Suc end_line - iv_line st) rest;
          part = take (max_bytes - length (iv_bytes st)) whole
      in (iv_bytes st @ part, iv_position st + length part,
          if part = [] then iv_actual_end st else iv_line st + line_feeds (butlast part),
          max_bytes - length (iv_bytes st) < length whole))"

definition interval_view :: "IntervalState \<Rightarrow> string \<times> nat \<times> nat \<times> bool" where
  "interval_view st = (iv_bytes st, iv_position st, iv_actual_end st, iv_truncated st)"

definition reading :: "nat \<Rightarrow> nat \<Rightarrow> IntervalState \<Rightarrow> bool" where
  "reading end_line max_bytes st \<longleftrightarrow> \<not> iv_done st \<and> \<not> iv_truncated st \<and> length (iv_bytes st) \<le> max_bytes \<and>
     iv_line st \<le> end_line"

definition push_byte :: "char \<Rightarrow> IntervalState \<Rightarrow> IntervalState" where
  "push_byte c st = st\<lparr>iv_bytes := iv_bytes st @ [c], iv_position := iv_position st + 1, iv_actual_end := iv_line st,
     iv_line := (if c = CHR 0x0A then iv_line st + 1 else iv_line st)\<rparr>"

lemma interval_spec_push:
  assumes "reading end_line max_bytes st" and "length (iv_bytes st) \<noteq> max_bytes"
    and "\<not> (c = CHR 0x0A \<and> iv_line st = end_line)"
  shows "interval_spec end_line max_bytes (c # rest) st = interval_spec end_line max_bytes rest (push_byte c st)"
proof -
  obtain m where m: "max_bytes - length (iv_bytes st) = Suc m" "max_bytes - Suc (length (iv_bytes st)) = m"
    using assms(1,2) by (metis Suc_diff_Suc diff_Suc_Suc le_neq_implies_less reading_def)
  obtain k where k: "Suc end_line - iv_line st = Suc k" "k = end_line - iv_line st"
    using assms(1) by (metis Suc_diff_le reading_def)
  have more: "c = CHR 0x0A \<Longrightarrow> k = Suc (end_line - Suc (iv_line st))"
    using assms(1,3) k by (auto simp: reading_def)
  show ?thesis
    using m k more by (auto simp: interval_spec_def push_byte_def Let_def)
qed

lemma interval_block_ok:
  assumes "reading end_line max_bytes st"
  shows "(iv_done (interval_block end_line max_bytes bytes st) \<longrightarrow>
      (\<forall>more. interval_view (interval_block end_line max_bytes bytes st) = interval_spec end_line max_bytes (bytes @ more) st)) \<and>
    (\<not> iv_done (interval_block end_line max_bytes bytes st) \<longrightarrow>
      reading end_line max_bytes (interval_block end_line max_bytes bytes st) \<and>
      (\<forall>more. interval_spec end_line max_bytes more (interval_block end_line max_bytes bytes st) =
        interval_spec end_line max_bytes (bytes @ more) st))"
  using assms
proof (induction bytes arbitrary: st)
  case (Cons c bytes)
  have left: "\<exists>k. Suc end_line - iv_line st = Suc k"
    using Cons.prems by (metis Suc_diff_le reading_def)
  consider (full) "length (iv_bytes st) = max_bytes"
    | (final) "length (iv_bytes st) \<noteq> max_bytes" "c = CHR 0x0A" "iv_line st = end_line"
    | (go) "length (iv_bytes st) \<noteq> max_bytes" "\<not> (c = CHR 0x0A \<and> iv_line st = end_line)"
    by blast
  then show ?case
  proof cases
    case full
    then show ?thesis
      using left by (auto simp: interval_view_def interval_spec_def Let_def)
  next
    case final
    then obtain m where "max_bytes - length (iv_bytes st) = Suc m"
      using Cons.prems by (metis Suc_diff_Suc le_neq_implies_less reading_def)
    then show ?thesis
      using final Cons.prems by (auto simp: interval_view_def interval_spec_def Let_def reading_def)
  next
    case go
    have "reading end_line max_bytes (push_byte c st)"
      using go Cons.prems by (auto simp: reading_def push_byte_def)
    moreover have "interval_block end_line max_bytes (c # bytes) st = interval_block end_line max_bytes bytes (push_byte c st)"
      using go by (auto simp: Let_def push_byte_def)
    ultimately show ?thesis
      using Cons.IH [of "push_byte c st"] interval_spec_push [OF Cons.prems go] by simp
  qed
qed (simp add: reading_def)

lemma interval_loop_ok:
  assumes "holds f s" and "n \<le> length s" and "reading end_line max_bytes st" and "iv_position st \<le> n"
  shows "\<exists>st'. interval_loop f n end_line max_bytes st = Ok st' \<and>
    interval_view st' = interval_spec end_line max_bytes (drop (iv_position st) (take n s)) st"
  using assms(3,4)
proof (induction "n - iv_position st" arbitrary: st rule: less_induct)
  case less
  show ?case
  proof (cases "iv_position st < n")
    case True
    from holds_block [OF assms(1,2) True] obtain bytes where
        bytes: "fl_read f (iv_position st) (min (n - iv_position st) READ_BLOCK_BYTES) = Some bytes" "bytes \<noteq> []"
          "iv_position st + length bytes \<le> n"
        and split: "drop (iv_position st) (take n s) = bytes @ drop (iv_position st + length bytes) (take n s)"
      by blast
    let ?st = "interval_block end_line max_bytes bytes st"
    note block = interval_block_ok [OF less.prems(1), of bytes]
    have loop: "interval_loop f n end_line max_bytes st =
        (if iv_done ?st then Ok ?st else interval_loop f n end_line max_bytes ?st)"
      using True less.prems(1) bytes by (subst interval_loop.simps) (simp add: Let_def reading_def)
    show ?thesis
    proof (cases "iv_done ?st")
      case True
      then show ?thesis
        using loop block split by (metis append.assoc)
    next
      case False
      then have "iv_position ?st = iv_position st + length bytes"
        by (rule interval_block_position)
      moreover have "n - (iv_position st + length bytes) < n - iv_position st"
        using True bytes(2) by (simp add: diff_less_mono2)
      ultimately show ?thesis
        using less.hyps [of ?st] block False loop bytes(3) split by simp
    qed
  next
    case False
    obtain k where "Suc end_line - iv_line st = Suc k"
      using less.prems(1) by (metis Suc_diff_le reading_def)
    then show ?thesis
      using False less.prems by (subst interval_loop.simps) (simp add: interval_view_def interval_spec_def Let_def reading_def)
  qed
qed

text \<open>Reading an interval of lines, whether it starts at its first line or at the position of a cursor.\<close>

lemma line_interval_read:
  assumes "selected_ok sel s" and "0 < start_line" and "start_line \<le> length (line_starts (snapshot sel s))"
    and "start_line \<le> last_line" and "0 < limit"
    and "from = (case cursor of None \<Rightarrow> line_starts (snapshot sel s) ! (start_line - 1) | Some p \<Rightarrow> p)"
    and "line_starts (snapshot sel s) ! (start_line - 1) \<le> from" and "from \<le> sel_snapshot_bytes sel"
    and "whole = take_lines (Suc last_line - start_line) (drop from (snapshot sel s))"
    and "part = take (min limit MAX_TEXT_BYTES) whole"
  shows "read_line_interval_from sel start_line last_line limit cursor =
    Ok \<lparr>rd_line_start = start_line, rd_line_end = min (start_line + line_feeds (butlast part)) last_line,
        rd_byte_start = from, rd_byte_end = from + length part, rd_bytes = part,
        rd_truncated = (length part < length whole)\<rparr>"
proof -
  let ?max = "min limit MAX_TEXT_BYTES"
  define st where "st = \<lparr>iv_bytes = [], iv_position = from, iv_line = start_line, iv_actual_end = start_line,
    iv_truncated = False, iv_done = False\<rparr>"
  have disk: "holds (sel_file sel) s" "sel_snapshot_bytes sel \<le> length s"
    using assms(1) by (auto simp: selected_ok_def)
  have "reading last_line ?max st"
    using assms(4) by (simp add: reading_def st_def)
  then obtain st' where loop: "interval_loop (sel_file sel) (sel_snapshot_bytes sel) last_line ?max st = Ok st'"
      "interval_view st' = interval_spec last_line ?max (drop from (snapshot sel s)) st"
    using interval_loop_ok [OF disk] assms(8) by (fastforce simp: st_def)
  have fields: "iv_bytes st' = part" "iv_position st' = from + length part"
      "iv_actual_end st' = start_line + line_feeds (butlast part)" "iv_truncated st' \<longleftrightarrow> length part < length whole"
  proof -
    have "interval_view st' = (part, from + length part, if part = [] then start_line else
        start_line + line_feeds (butlast part), ?max < length whole)"
      unfolding loop(2) interval_spec_def Let_def st_def by (simp flip: assms(9) assms(10))
    moreover have "?max < length whole \<longleftrightarrow> length part < length whole"
      unfolding assms(10) by auto
    ultimately show "iv_bytes st' = part" "iv_position st' = from + length part"
        "iv_actual_end st' = start_line + line_feeds (butlast part)" "iv_truncated st' \<longleftrightarrow> length part < length whole"
      by (auto simp: interval_view_def split: if_splits)
  qed
  have offset: "line_offset sel start_line = Ok (line_starts (snapshot sel s) ! (start_line - 1))"
    using line_offset_exact [OF assms(1)] assms(2,3) by simp
  obtain m where m: "?max = Suc m"
    using assms(5) by (cases ?max) (auto simp: MAX_TEXT_BYTES_def min_def split: if_splits)
  have "read_line_interval_from sel start_line last_line limit cursor =
      then_do (interval_loop (sel_file sel) (sel_snapshot_bytes sel) last_line ?max st) (\<lambda>st.
        Ok \<lparr>rd_line_start = start_line, rd_line_end = min (iv_actual_end st) last_line, rd_byte_start = from,
           rd_byte_end = iv_position st, rd_bytes = iv_bytes st, rd_truncated = iv_truncated st\<rparr>)"
    using offset assms(2,4,6,7,8) holds_seek [OF disk(1)]
    unfolding read_line_interval_from_def Let_def st_def m by (cases cursor) (simp_all add: then_do_def)
  then show ?thesis
    using loop(1) fields by (simp add: then_do_def)
qed

text \<open>
  C20: reading the lines \<open>start\<close> to \<open>last_line\<close> of a snapshot from a position in it
  (the start of the first line, or the position a cursor gives) returns the bytes from there through
  the end of the last line or of the snapshot, cut after the limit, and says that it cut them exactly
  when bytes are missing; the number of the last line returned is the line of the last byte.
\<close>

theorem read_lines_exact:
  assumes "selected_ok sel s" and "0 < start_line" and "start_line \<le> length (line_starts (snapshot sel s))"
    and "start_line \<le> last_line" and "0 < limit"
    and "from = (case cursor of None \<Rightarrow> line_starts (snapshot sel s) ! (start_line - 1) | Some p \<Rightarrow> p)"
    and "line_starts (snapshot sel s) ! (start_line - 1) \<le> from" and "from \<le> sel_snapshot_bytes sel"
    and "whole = take_lines (Suc last_line - start_line) (drop from (snapshot sel s))"
    and "part = take (min limit MAX_TEXT_BYTES) whole"
  shows "read_line_interval_from sel start_line last_line limit cursor =
    Ok \<lparr>rd_line_start = start_line, rd_line_end = min (start_line + line_feeds (butlast part)) last_line,
        rd_byte_start = from, rd_byte_end = from + length part, rd_bytes = part,
        rd_truncated = (length part < length whole)\<rparr>"
  by (rule line_interval_read [OF assms])


definition sample_selected :: SelectedStream where
  "sample_selected =
     \<lparr>sel_log_ref = \<lparr>lr_run_id = ''run-1'', lr_check = Some ''unit'', lr_phase = LogPhase.Check, lr_case = None,
        lr_stream = Stdout\<rparr>,
      sel_metadata = \<lparr>sm_selector = \<lparr>ls_check = Some ''unit'', ls_phase = LogPhase.Check, ls_case_id = None\<rparr>,
        sm_stream = Stdout, sm_bytes = 6, sm_lines = 2, sm_first_write_epoch_ms = Some 1, sm_last_write_epoch_ms = Some 1,
        sm_complete = True, sm_sha256 = []\<rparr>,
      sel_file = slow_file two_lines, sel_index = Some (slow_file (sparse_index two_lines)), sel_device = 1,
      sel_inode = 1, sel_snapshot_bytes = 6\<rparr>"

lemma sample_selected_ok: "selected_ok sample_selected two_lines"
proof -
  have size: "length two_lines = 6"
    by (simp add: two_lines_def)
  then show ?thesis
    by (simp add: selected_ok_def sample_selected_def slow_file_holds two_lines_starts)
qed

theorem read_lines_exact_witness:
  "read_line_interval_from sample_selected 2 2 2 (Some 4) =
    Ok \<lparr>rd_line_start = 2, rd_line_end = 2, rd_byte_start = 4, rd_byte_end = 6, rd_bytes = ''nd'', rd_truncated = False\<rparr> \<and>
   read_line_interval_from sample_selected 1 2 4 None =
    Ok \<lparr>rd_line_start = 1, rd_line_end = 2, rd_byte_start = 0, rd_byte_end = 4, rd_bytes = ''ok'' @ [CHR 0x0A] @ ''e'',
        rd_truncated = True\<rparr>"
proof -
  have snapshot: "take 6 two_lines = two_lines" "sel_snapshot_bytes sample_selected = 6"
    by (simp_all add: sample_selected_def two_lines_def)
  have second: "read_line_interval_from sample_selected 2 2 2 (Some 4) =
    Ok \<lparr>rd_line_start = 2, rd_line_end = min (2 + line_feeds (butlast ''nd'')) 2, rd_byte_start = 4,
        rd_byte_end = 4 + length ''nd'', rd_bytes = ''nd'', rd_truncated = (length ''nd'' < length ''nd'')\<rparr>"
    by (rule read_lines_exact [OF sample_selected_ok])
      (simp_all add: snapshot two_lines_starts MAX_TEXT_BYTES_def, simp_all add: two_lines_def)
  have both: "read_line_interval_from sample_selected 1 2 4 None =
    Ok \<lparr>rd_line_start = 1, rd_line_end = min (1 + line_feeds (butlast (take 4 two_lines))) 2, rd_byte_start = 0,
        rd_byte_end = 0 + length (take 4 two_lines), rd_bytes = take 4 two_lines,
        rd_truncated = (length (take 4 two_lines) < length two_lines)\<rparr>"
    by (rule read_lines_exact [OF sample_selected_ok])
      (simp_all add: snapshot two_lines_starts MAX_TEXT_BYTES_def, simp_all add: two_lines_def numeral_2_eq_2)
  show ?thesis
    using second both by (simp add: two_lines_def)
qed

end
