(* ===== verification/Log_Cursor.thy ===== *)
theory Log_Cursor
  imports Log_Search
begin

text \<open>
  Cursors of log queries (\<^verbatim>\<open>src/rust/executor-core/src/log_query.rs\<close>): the two base64 alphabets, and
  the text of a cursor, its payload and a checksum of it.  Shown: decoding undoes encoding, for every
  sequence of bytes and for every cursor, and a text is only accepted with the checksum of its payload.
  The JSON codec and the digest are parameters (the crates \<^verbatim>\<open>serde_json\<close> and \<^verbatim>\<open>sha2\<close>).
\<close>

unbundle bit_operations_syntax

section \<open>Base64\<close>

abbreviation u8_of_char :: "char \<Rightarrow> u8" where
  "u8_of_char \<equiv> of_char"

definition STANDARD_ALPHABET :: string where
  "STANDARD_ALPHABET = ''ABCDEFGHIJKLMNOPQRSTUVWXYZabcdefghijklmnopqrstuvwxyz0123456789+/''"

definition URL_ALPHABET :: string where
  "URL_ALPHABET = ''ABCDEFGHIJKLMNOPQRSTUVWXYZabcdefghijklmnopqrstuvwxyz0123456789-_''"

text \<open>The four sextets of three bytes, as the code shifts and masks them.\<close>

definition sextet1 :: "u8 \<Rightarrow> u8" where
  "sextet1 a = drop_bit 2 a"

definition sextet2 :: "u8 \<Rightarrow> u8 \<Rightarrow> u8" where
  "sextet2 a b = push_bit 4 (a AND 0x03) OR drop_bit 4 b"

definition sextet3 :: "u8 \<Rightarrow> u8 \<Rightarrow> u8" where
  "sextet3 b c = push_bit 2 (b AND 0x0f) OR drop_bit 6 c"

definition sextet4 :: "u8 \<Rightarrow> u8" where
  "sextet4 c = c AND 0x3f"

abbreviation symbol :: "string \<Rightarrow> u8 \<Rightarrow> char" where
  "symbol alphabet v \<equiv> alphabet ! unat v"

fun base64_encode :: "string \<Rightarrow> string \<Rightarrow> string" where
  "base64_encode alphabet [] = []"
| "base64_encode alphabet [a] =
     [symbol alphabet (sextet1 (u8_of_char a)), symbol alphabet (sextet2 (u8_of_char a) 0), CHR ''='', CHR ''='']"
| "base64_encode alphabet [a, b] =
     [symbol alphabet (sextet1 (u8_of_char a)), symbol alphabet (sextet2 (u8_of_char a) (u8_of_char b)),
      symbol alphabet (sextet3 (u8_of_char b) 0), CHR ''='']"
| "base64_encode alphabet (a # b # c # rest) =
     [symbol alphabet (sextet1 (u8_of_char a)), symbol alphabet (sextet2 (u8_of_char a) (u8_of_char b)),
      symbol alphabet (sextet3 (u8_of_char b) (u8_of_char c)), symbol alphabet (sextet4 (u8_of_char c))] @
     base64_encode alphabet rest"

definition base64_standard_encode :: "string \<Rightarrow> string" where
  "base64_standard_encode bytes = base64_encode STANDARD_ALPHABET bytes"

definition base64_url_encode :: "string \<Rightarrow> string" where
  "base64_url_encode bytes = rev (dropWhile ((=) (CHR ''='')) (rev (base64_encode URL_ALPHABET bytes)))"

definition symbol_value :: "char \<Rightarrow> nat option" where
  "symbol_value byte =
     (if is_ascii_uppercase byte then Some (of_char byte - of_char (CHR ''A''))
      else if is_ascii_lowercase byte then Some (of_char byte - of_char (CHR ''a'') + 26)
      else if is_ascii_digit byte then Some (of_char byte - of_char (CHR ''0'') + 52)
      else if byte = CHR ''-'' then Some 62
      else if byte = CHR ''_'' then Some 63
      else None)"

fun base64_loop :: "string \<Rightarrow> u32 \<Rightarrow> nat \<Rightarrow> string \<Rightarrow> (u32 \<times> nat \<times> string) option" where
  "base64_loop [] accumulator bits out = Some (accumulator, bits, out)"
| "base64_loop (byte # bytes) accumulator bits out =
     (case symbol_value byte of
        None \<Rightarrow> None
      | Some v \<Rightarrow>
          let accumulator = push_bit 6 accumulator OR of_nat v; bits = bits + 6
          in if 8 \<le> bits
             then let bits = bits - 8
                  in base64_loop bytes (accumulator AND (push_bit bits 1 - 1)) bits
                       (out @ [char_of (unat (ucast (drop_bit bits accumulator) :: u8))])
             else base64_loop bytes accumulator bits out)"

definition base64_url_decode :: "string \<Rightarrow> string option" where
  "base64_url_decode input =
     (if list_ex (\<lambda>byte. \<not> is_ascii_alphanumeric byte \<and> byte \<noteq> CHR ''-'' \<and> byte \<noteq> CHR ''_'') input then None
      else case base64_loop input 0 0 [] of
          None \<Rightarrow> None
        | Some (accumulator, bits, out) \<Rightarrow> if 0 < bits \<and> accumulator \<noteq> 0 then None else Some out)"

section \<open>Sextets\<close>

lemma nat_shift_or:
  fixes x y :: nat
  assumes "y < 2 ^ k"
  shows "push_bit k x OR y = x * 2 ^ k + y"
proof -
  have "\<not> bit y n" if "k \<le> n" for n
    using assms that by (metis bit_take_bit_iff not_less take_bit_nat_eq_self)
  then have "push_bit k x AND y = 0"
    by (auto simp: bit_eq_iff bit_and_iff bit_push_bit_iff)
  then show ?thesis
    by (simp add: push_bit_eq_mult flip: disjunctive_add_eq_or)
qed

lemma unat_shift_or:
  fixes x y :: "'a::len word"
  assumes "unat x * 2 ^ k < 2 ^ LENGTH('a)" and "unat y < 2 ^ k"
  shows "unat (push_bit k x OR y) = unat x * 2 ^ k + unat y"
proof -
  have "unat (push_bit k x) = push_bit k (unat x)"
    using assms(1) by (simp only: unsigned_push_bit_eq) (simp add: push_bit_eq_mult take_bit_nat_eq_self)
  then show ?thesis
    using nat_shift_or [OF assms(2), of "unat x"] by (simp add: unsigned_or_eq)
qed

lemma unat_mask: "unat (x AND mask k) = unat x mod 2 ^ k" for x :: "'a::len word"
  by (simp only: unsigned_take_bit_eq flip: take_bit_eq_mask) (simp add: take_bit_eq_mod)

lemma unat_sextets:
  "unat (sextet1 a) = unat a div 4" "unat (sextet2 a b) = unat a mod 4 * 16 + unat b div 16"
  "unat (sextet3 b c) = unat b mod 16 * 4 + unat c div 64" "unat (sextet4 c) = unat c mod 64"
proof -
  have masks: "(0x03 :: u8) = mask 2" "(0x0f :: u8) = mask 4" "(0x3f :: u8) = mask 6"
    by (simp_all add: mask_eq_exp_minus_1)
  have small: "unat x < 256" for x :: u8
    using unsigned_less [of x] by simp
  have parts: "unat (a AND 0x03) = unat a mod 4" "unat (b AND 0x0f) = unat b mod 16" "unat (c AND 0x3f) = unat c mod 64"
    unfolding masks unat_mask by simp_all
  have shifts: "unat (drop_bit 4 b) = unat b div 16" "unat (drop_bit 6 c) = unat c div 64" "unat (drop_bit 2 a) = unat a div 4"
    by (simp_all add: drop_bit_eq_div unat_div)
  show "unat (sextet1 a) = unat a div 4" "unat (sextet4 c) = unat c mod 64"
    by (simp_all only: sextet1_def sextet4_def shifts parts)
  have "unat (a AND 0x03) * 2 ^ 4 < 2 ^ LENGTH(8)" "unat (drop_bit 4 b) < 2 ^ 4"
    unfolding parts shifts using small [of b] by (simp_all add: less_mult_imp_div_less)
  then show "unat (sextet2 a b) = unat a mod 4 * 16 + unat b div 16"
    unfolding sextet2_def by (subst unat_shift_or) (simp_all add: parts shifts)
  have "unat (b AND 0x0f) * 2 ^ 2 < 2 ^ LENGTH(8)" "unat (drop_bit 6 c) < 2 ^ 2"
    unfolding parts shifts using small [of c] by (simp_all add: less_mult_imp_div_less)
  then show "unat (sextet3 b c) = unat b mod 16 * 4 + unat c div 64"
    unfolding sextet3_def by (subst unat_shift_or) (simp_all add: parts shifts)
qed


section \<open>Decoding undoes encoding\<close>

lemma base64_loop_step:
  assumes "symbol_value byte = Some v" and "v < 64" and "x < 2 ^ bits" and "bits \<le> 6"
  shows "base64_loop (byte # bytes) (of_nat x) bits out =
    (if 2 \<le> bits
     then base64_loop bytes (of_nat ((x * 64 + v) mod 2 ^ (bits - 2))) (bits - 2)
            (out @ [char_of ((x * 64 + v) div 2 ^ (bits - 2))])
     else base64_loop bytes (of_nat (x * 64 + v)) (bits + 6) out)"
proof -
  define X where "X = x * 64 + v"
  have "x < 2 ^ 6"
    using assms(3,4) by (meson less_le_trans one_le_numeral power_increasing)
  then have x: "x < 64"
    by simp
  have small: "unat (of_nat n :: u32) = n" if "n < 4096" for n
    using that by (simp add: unat_of_nat take_bit_eq_mod)
  have same: "w = of_nat n" if "unat w = n" for w :: u32 and n
    using that by auto
  have X: "X < 4096"
    using x assms(2) unfolding X_def by linarith
  have "unat (push_bit 6 (of_nat x) OR of_nat v :: u32) = X"
    using x assms(2) by (subst unat_shift_or) (simp_all add: small X_def)
  then have accumulator: "push_bit 6 (of_nat x) OR of_nat v = (of_nat X :: u32)"
    by (rule same)
  show ?thesis
  proof (cases "2 \<le> bits")
    case True
    then obtain b where b: "bits = b + 2"
      by (metis le_add_diff_inverse2)
    let ?b = "bits - 2"
    have "X < (x + 1) * 64"
      using assms(2) by (simp add: X_def)
    also have "\<dots> \<le> 2 ^ bits * 64"
      using assms(3) by (intro mult_le_mono1) simp
    also have "\<dots> = 2 ^ ?b * 256"
      by (simp add: b)
    finally have top: "X div 2 ^ ?b < 256"
      by (simp add: less_mult_imp_div_less mult.commute)
    have "unat (drop_bit ?b (of_nat X) :: u32) = X div 2 ^ ?b"
      using X by (simp only: unsigned_drop_bit_eq) (simp add: small drop_bit_eq_div take_bit_nat_eq_self)
    then have byte: "unat (ucast (drop_bit ?b (of_nat X) :: u32) :: u8) = X div 2 ^ ?b"
      using top by (simp only: unsigned_ucast_eq) (simp add: take_bit_eq_mod)
    have "unat (of_nat X AND mask ?b :: u32) = X mod 2 ^ ?b"
      using X by (simp only: unat_mask small)
    then have masked: "(of_nat X AND (push_bit ?b 1 - 1) :: u32) = of_nat (X mod 2 ^ ?b)"
      by (intro same) (simp only: mask_eq_exp_minus_1 push_bit_eq_mult mult_1)
    show ?thesis
      unfolding X_def [symmetric] using assms(1) byte masked by (simp add: Let_def accumulator b)
  next
    case False
    then show ?thesis
      unfolding X_def [symmetric] using assms(1) by (simp add: Let_def accumulator)
  qed
qed


lemma symbol_value_url: "v < 64 \<Longrightarrow> symbol_value (URL_ALPHABET ! v) = Some v"
proof -
  have "list_all (\<lambda>v. symbol_value (URL_ALPHABET ! v) = Some v) [0..<64]"
    by code_simp
  then show "v < 64 \<Longrightarrow> symbol_value (URL_ALPHABET ! v) = Some v"
    by (simp add: list_all_iff)
qed

lemma url_symbols: "v < 64 \<Longrightarrow>
    URL_ALPHABET ! v \<noteq> CHR ''='' \<and> (is_ascii_alphanumeric (URL_ALPHABET ! v) \<or> URL_ALPHABET ! v = CHR ''-'' \<or> URL_ALPHABET ! v = CHR ''_'')"
proof -
  have "list_all (\<lambda>c. c \<noteq> CHR ''='' \<and> (is_ascii_alphanumeric c \<or> c = CHR ''-'' \<or> c = CHR ''_'')) URL_ALPHABET"
    by code_simp
  moreover have "length URL_ALPHABET = 64"
    by code_simp
  ultimately show "v < 64 \<Longrightarrow>
    URL_ALPHABET ! v \<noteq> CHR ''='' \<and> (is_ascii_alphanumeric (URL_ALPHABET ! v) \<or> URL_ALPHABET ! v = CHR ''-'' \<or> URL_ALPHABET ! v = CHR ''_'')"
    by (simp add: list_all_length)
qed

lemma sextet_bounds: "unat (sextet1 a) < 64" "unat (sextet2 a b) < 64" "unat (sextet3 b c) < 64" "unat (sextet4 c) < 64"
proof -
  have "unat x < 256" for x :: u8
    using unsigned_less [of x] by simp
  note small = this [of a] this [of b] this [of c]
  have "unat a mod 4 < 4" "unat b div 16 < 16" "unat b mod 16 < 16" "unat c div 64 < 4" "unat a div 4 < 64"
    using small by auto
  then show "unat (sextet1 a) < 64" "unat (sextet2 a b) < 64" "unat (sextet3 b c) < 64" "unat (sextet4 c) < 64"
    unfolding unat_sextets by linarith+
qed

text \<open>What is encoded without the padding.\<close>

fun unpadded :: "string \<Rightarrow> string" where
  "unpadded [] = []"
| "unpadded [a] = [symbol URL_ALPHABET (sextet1 (u8_of_char a)), symbol URL_ALPHABET (sextet2 (u8_of_char a) 0)]"
| "unpadded [a, b] =
     [symbol URL_ALPHABET (sextet1 (u8_of_char a)), symbol URL_ALPHABET (sextet2 (u8_of_char a) (u8_of_char b)),
      symbol URL_ALPHABET (sextet3 (u8_of_char b) 0)]"
| "unpadded (a # b # c # rest) =
     [symbol URL_ALPHABET (sextet1 (u8_of_char a)), symbol URL_ALPHABET (sextet2 (u8_of_char a) (u8_of_char b)),
      symbol URL_ALPHABET (sextet3 (u8_of_char b) (u8_of_char c)), symbol URL_ALPHABET (sextet4 (u8_of_char c))] @
     unpadded rest"

lemma unpadded_symbols:
  "list_all (\<lambda>c. c \<noteq> CHR ''='' \<and> (is_ascii_alphanumeric c \<or> c = CHR ''-'' \<or> c = CHR ''_'')) (unpadded bytes)"
  by (induction bytes rule: unpadded.induct) (simp_all add: url_symbols sextet_bounds)

lemma encode_padding: "\<exists>n. base64_encode URL_ALPHABET bytes = unpadded bytes @ replicate n (CHR ''='')"
proof (induction bytes rule: unpadded.induct)
  case (2 a)
  show ?case by (auto intro: exI [of _ 2] simp: numeral_2_eq_2)
next
  case (3 a b)
  show ?case by (auto intro: exI [of _ 1])
qed auto

lemma base64_url_encode_unpadded: "base64_url_encode bytes = unpadded bytes"
proof -
  obtain n where n: "base64_encode URL_ALPHABET bytes = unpadded bytes @ replicate n (CHR ''='')"
    using encode_padding by blast
  have "dropWhile ((=) (CHR ''='')) (replicate n (CHR ''='') @ rev (unpadded bytes)) = rev (unpadded bytes)"
  proof -
    have "dropWhile ((=) (CHR ''='')) (rev (unpadded bytes)) = rev (unpadded bytes)"
      using unpadded_symbols [of bytes] by (cases "rev (unpadded bytes)") (auto simp: list_all_iff)
    then show ?thesis
      by (simp add: dropWhile_append)
  qed
  then show ?thesis
    by (simp add: base64_url_encode_def n)
qed

lemma byte_parts:
  fixes A B C :: nat
  assumes "A < 256" and "B < 256" and "C < 256"
  shows "(A div 4 * 64 + (A mod 4 * 16 + B div 16)) div 16 = A" "(A div 4 * 64 + (A mod 4 * 16 + B div 16)) mod 16 = B div 16"
    "(B div 16 * 64 + (B mod 16 * 4 + C div 64)) div 4 = B" "(B div 16 * 64 + (B mod 16 * 4 + C div 64)) mod 4 = C div 64"
    "C div 64 * 64 + C mod 64 = C"
proof -
  have split: "A div 4 * 4 + A mod 4 = A" "B div 16 * 16 + B mod 16 = B" "B div 16 < 16" "C div 64 < 4"
    using assms by auto
  have eq: "A div 4 * 64 + (A mod 4 * 16 + B div 16) = A * 16 + B div 16"
    using split(1) by linarith
  show "(A div 4 * 64 + (A mod 4 * 16 + B div 16)) div 16 = A" "(A div 4 * 64 + (A mod 4 * 16 + B div 16)) mod 16 = B div 16"
    unfolding eq using split(3) by simp_all
  have eq: "B div 16 * 64 + (B mod 16 * 4 + C div 64) = B * 4 + C div 64"
    using split(2) by linarith
  show "(B div 16 * 64 + (B mod 16 * 4 + C div 64)) div 4 = B" "(B div 16 * 64 + (B mod 16 * 4 + C div 64)) mod 4 = C div 64"
    unfolding eq using split(4) by simp_all
  show "C div 64 * 64 + C mod 64 = C"
    by simp
qed


lemma unat_of_char: "unat (u8_of_char c) = of_char c"
proof -
  have "(of_char c :: nat) < 256"
    by simp
  moreover have "u8_of_char c = of_nat (of_char c)"
    by (cases c) simp
  ultimately show ?thesis
    by (simp add: unat_of_nat take_bit_eq_mod)
qed

text \<open>The steps of the loop over the symbols of one group of bytes.\<close>

lemma loop_first: "base64_loop (symbol URL_ALPHABET (sextet1 (u8_of_char a)) # rest) 0 0 out =
    base64_loop rest (of_nat (of_char a div 4)) 6 out"
  using base64_loop_step [OF symbol_value_url [OF sextet_bounds(1) [of "u8_of_char a"]] sextet_bounds(1), of 0 0 rest out]
  by (simp add: unat_sextets unat_of_char)

lemma loop_second: "base64_loop (symbol URL_ALPHABET (sextet2 (u8_of_char a) b) # rest) (of_nat (of_char a div 4)) 6 out =
    base64_loop rest (of_nat (unat b div 16)) 4 (out @ [a])"
proof -
  have small: "(of_char a :: nat) < 256" "unat b < 256"
    using unsigned_less [of b] by simp_all
  have "(of_char a :: nat) div 4 < 2 ^ 6"
    by (rule less_mult_imp_div_less) simp
  note step = base64_loop_step [OF symbol_value_url [OF sextet_bounds(2) [of "u8_of_char a" b]] sextet_bounds(2) this order_refl,
      of rest out]
  show ?thesis
    unfolding step using byte_parts(1,2) [OF small, of 0] by (simp add: unat_sextets unat_of_char)
qed

lemma loop_third: "base64_loop (symbol URL_ALPHABET (sextet3 (u8_of_char b) c) # rest) (of_nat (of_char b div 16)) 4 out =
    base64_loop rest (of_nat (unat c div 64)) 2 (out @ [b])"
proof -
  have small: "(of_char b :: nat) < 256" "unat c < 256"
    using unsigned_less [of c] by simp_all
  have bits: "(of_char b :: nat) div 16 < 2 ^ 4"
    by (rule less_mult_imp_div_less) simp
  have "(4 :: nat) \<le> 6"
    by simp
  note step = base64_loop_step [OF symbol_value_url [OF sextet_bounds(3) [of "u8_of_char b" c]] sextet_bounds(3) bits this,
      of rest out]
  show ?thesis
    unfolding step using byte_parts(3,4) [of 0, OF _ small] by (simp add: unat_sextets unat_of_char)
qed

lemma loop_fourth: "base64_loop (symbol URL_ALPHABET (sextet4 (u8_of_char c)) # rest) (of_nat (of_char c div 64)) 2 out =
    base64_loop rest 0 0 (out @ [c])"
proof -
  have bits: "(of_char c :: nat) div 64 < 2 ^ 2"
    by (rule less_mult_imp_div_less) simp
  have "(2 :: nat) \<le> 6"
    by simp
  note step = base64_loop_step [OF symbol_value_url [OF sextet_bounds(4) [of "u8_of_char c"]] sextet_bounds(4) bits this,
      of rest out]
  show ?thesis
    unfolding step by (simp add: unat_sextets unat_of_char)
qed

lemma base64_loop_unpadded: "\<exists>bits. base64_loop (unpadded bytes) 0 0 out = Some (0, bits, out @ bytes)"
proof (induction bytes arbitrary: out rule: unpadded.induct)
  case (4 a b c rest)
  then show ?case
    using 4 [of "out @ [a, b, c]"]
    by (simp only: unpadded.simps append_Cons append_Nil loop_first loop_second unat_of_char loop_third loop_fourth append_assoc)
qed (simp_all only: unpadded.simps loop_first loop_second unat_of_char loop_third, simp_all)

text \<open>Decoding the unpadded base64 of any bytes gives the same bytes back.\<close>

lemma base64_round_trip: "base64_url_decode (base64_url_encode bytes) = Some bytes"
proof -
  have "\<not> list_ex (\<lambda>byte. \<not> is_ascii_alphanumeric byte \<and> byte \<noteq> CHR ''-'' \<and> byte \<noteq> CHR ''_'') (unpadded bytes)"
    using unpadded_symbols [of bytes] by (auto simp: list_all_iff list_ex_iff)
  then show ?thesis
    using base64_loop_unpadded [of bytes "[]"] by (auto simp: base64_url_decode_def base64_url_encode_unpadded)
qed


section \<open>Cursors\<close>

datatype LogQueryOperation = Catalog | Tail | Search | Range | FailureContext

record CursorPayload =
  cu_schema :: u8
  cu_operation :: LogQueryOperation
  cu_log_ref :: "LogRef option"
  cu_run_id :: string
  cu_device :: u64
  cu_inode :: u64
  cu_snapshot_bytes :: nat
  cu_snapshot_lines :: nat
  cu_position :: nat
  cu_byte_position :: nat
  cu_auxiliary_position :: nat
  cu_auxiliary_byte_position :: nat
  cu_pending_line_end :: "nat option"
  cu_emitted_through_line :: nat
  cu_query_sha256 :: string

text \<open>
  The codec: the JSON of a payload and back, and the digest.
\<close>

record CursorCodec =
  cc_to_json :: "CursorPayload \<Rightarrow> string option"
  cc_from_json :: "string \<Rightarrow> CursorPayload option"
  cc_sha256 :: "string \<Rightarrow> string"

definition MAX_CURSOR_BYTES :: nat where
  "MAX_CURSOR_BYTES = 4096"

definition CURSOR_DOMAIN :: string where
  "CURSOR_DOMAIN = ''devcoordinator2-log-cursor-v1'' @ [nul]"

definition cursor_checksum :: "CursorCodec \<Rightarrow> string \<Rightarrow> string" where
  "cursor_checksum cc payload = cc_sha256 cc (CURSOR_DOMAIN @ payload)"

definition encode_cursor :: "CursorCodec \<Rightarrow> CursorPayload \<Rightarrow> (LogQueryError, string) result" where
  "encode_cursor cc cursor =
     (case cc_to_json cc cursor of
        None \<Rightarrow> Err Unavailable
      | Some payload \<Rightarrow>
          let encoded = base64_url_encode payload @ ''.'' @ base64_url_encode (cursor_checksum cc payload)
          in if MAX_CURSOR_BYTES < length encoded then Err Unavailable else Ok encoded)"

text \<open>\<^verbatim>\<open>split_once('.')\<close>.\<close>

definition split_once :: "string \<Rightarrow> (string \<times> string) option" where
  "split_once s =
     (case dropWhile (\<lambda>c. c \<noteq> CHR ''.'') s of
        [] \<Rightarrow> None
      | _ # rest \<Rightarrow> Some (takeWhile (\<lambda>c. c \<noteq> CHR ''.'') s, rest))"

definition decode_cursor :: "CursorCodec \<Rightarrow> string \<Rightarrow> (LogQueryError, CursorPayload) result" where
  "decode_cursor cc encoded =
     (if encoded = [] \<or> MAX_CURSOR_BYTES < length encoded then Err CursorStale
      else case split_once encoded of
        None \<Rightarrow> Err CursorStale
      | Some (payload, checksum) \<Rightarrow>
          (case base64_url_decode payload of
             None \<Rightarrow> Err CursorStale
           | Some payload \<Rightarrow>
               (case base64_url_decode checksum of
                  None \<Rightarrow> Err CursorStale
                | Some checksum \<Rightarrow>
                    if checksum \<noteq> cursor_checksum cc payload then Err CursorStale
                    else (case cc_from_json cc payload of None \<Rightarrow> Err CursorStale | Some cursor \<Rightarrow> Ok cursor))))"

text \<open>What is relied on: the JSON of a payload is read back as that payload.\<close>

definition codec_ok :: "CursorCodec \<Rightarrow> bool" where
  "codec_ok cc \<longleftrightarrow> (\<forall>cursor payload. cc_to_json cc cursor = Some payload \<longrightarrow> cc_from_json cc payload = Some cursor)"

definition is_ascii :: "char \<Rightarrow> bool" where
  "is_ascii c \<longleftrightarrow> (of_char c :: nat) < 128"

lemma unpadded_plain: "c \<in> set (unpadded bytes) \<Longrightarrow> c \<noteq> CHR ''.'' \<and> is_ascii c"
proof -
  assume "c \<in> set (unpadded bytes)"
  then have "is_ascii_alphanumeric c \<or> c = CHR ''-'' \<or> c = CHR ''_''"
    using unpadded_symbols [of bytes] by (auto simp: list_all_iff)
  then show "c \<noteq> CHR ''.'' \<and> is_ascii c"
    by (auto simp: is_ascii_alphanumeric_def is_ascii_lowercase_def is_ascii_uppercase_def is_ascii_digit_def is_ascii_def
        less_eq_char_def)
qed

lemma decode_encode_cursor:
  assumes "codec_ok cc" and "encode_cursor cc cursor = Ok encoded"
  shows "decode_cursor cc encoded = Ok cursor" and "encoded \<noteq> []" and "length encoded \<le> MAX_CURSOR_BYTES"
    and "list_all is_ascii encoded"
proof -
  obtain payload where payload: "cc_to_json cc cursor = Some payload"
      and encoded: "encoded = unpadded payload @ ''.'' @ unpadded (cursor_checksum cc payload)"
      and bound: "length encoded \<le> MAX_CURSOR_BYTES"
    using assms(2) by (auto simp: encode_cursor_def Let_def base64_url_encode_unpadded split: option.splits if_splits)
  have plain: "\<forall>c \<in> set (unpadded bytes). c \<noteq> CHR ''.''" for bytes
    using unpadded_plain by blast
  have "split_once encoded = Some (unpadded payload, unpadded (cursor_checksum cc payload))"
    using plain [of payload] by (simp add: split_once_def encoded dropWhile_append2 takeWhile_append2)
  moreover have "base64_url_decode (unpadded bytes) = Some bytes" for bytes
    using base64_round_trip [of bytes] by (simp add: base64_url_encode_unpadded)
  ultimately show "decode_cursor cc encoded = Ok cursor"
    using assms(1) payload bound by (simp add: decode_cursor_def codec_ok_def encoded)
  show "encoded \<noteq> []" "length encoded \<le> MAX_CURSOR_BYTES" "list_all is_ascii encoded"
    using bound unpadded_plain by (auto simp: encoded list_all_iff is_ascii_def)
qed

text \<open>
  A cursor that a query hands out is a non-empty ASCII text of at most 4096
  bytes, which the next request accepts as a cursor, and decoding it gives the same cursor back.
\<close>

theorem cursor_round_trip:
  assumes "codec_ok cc" and "encode_cursor cc cursor = Ok encoded"
  shows "decode_cursor cc encoded = Ok cursor \<and> encoded \<noteq> [] \<and> length encoded \<le> MAX_CURSOR_BYTES \<and>
    list_all is_ascii encoded"
  using decode_encode_cursor [OF assms] by blast


text \<open>A codec for the cursors that differ from a given one only in their position.\<close>

definition sample_cursor :: CursorPayload where
  "sample_cursor =
     \<lparr>cu_schema = 2, cu_operation = Range, cu_log_ref = None, cu_run_id = ''run-1'', cu_device = 1, cu_inode = 2,
      cu_snapshot_bytes = 9, cu_snapshot_lines = 2, cu_position = 1, cu_byte_position = 3, cu_auxiliary_position = 0,
      cu_auxiliary_byte_position = 0, cu_pending_line_end = None, cu_emitted_through_line = 0, cu_query_sha256 = []\<rparr>"

definition position_codec :: "CursorPayload \<Rightarrow> CursorCodec" where
  "position_codec base =
     \<lparr>cc_to_json = (\<lambda>c. if c = base\<lparr>cu_position := cu_position c, cu_byte_position := cu_byte_position c\<rparr>
        then Some (replicate (cu_position c) (CHR ''p'') @ replicate (cu_byte_position c) (CHR ''b'')) else None),
      cc_from_json = (\<lambda>text. Some (base\<lparr>cu_position := length (filter ((=) (CHR ''p'')) text),
        cu_byte_position := length (filter ((=) (CHR ''b'')) text)\<rparr>)),
      cc_sha256 = (\<lambda>text. ''sum'')\<rparr>"

lemma position_codec_ok: "codec_ok (position_codec base)"
  unfolding codec_ok_def position_codec_def
  by (auto split: if_splits)

theorem cursor_round_trip_witness:
  "encode_cursor (position_codec sample_cursor) sample_cursor = Ok ''cGJiYg.c3Vt'' \<and>
   decode_cursor (position_codec sample_cursor) ''cGJiYg.c3Vt'' = Ok sample_cursor"
proof -
  have "encode_cursor (position_codec sample_cursor) sample_cursor = Ok ''cGJiYg.c3Vt''"
    by code_simp
  then show ?thesis
    using cursor_round_trip [OF position_codec_ok] by blast
qed

end
