(* ===== verification/Log_Query.thy ===== *)
theory Log_Query
  imports Log_Lines Log_Cursor
begin

text \<open>
  Requests for parts of a stored stream (\<^verbatim>\<open>src/rust/executor-core/src/log_query.rs\<close>): the checks of a
  request, the selection of a stream, cursors bound to a request and a snapshot, and the pages of a
  range, of the tail of a stream and of a search.  What is open in the store, the JSON codecs and
  the digest are parameters.  The numbers of a request and of a cursor, which the code keeps in 64 bits, are
  natural numbers here, as positions in a file are.
\<close>

section \<open>Text\<close>

text \<open>
  \<^verbatim>\<open>String::from_utf8_lossy\<close>: the length of the character or of the ill-formed sequence at the start
  of a text, and whether it is well-formed; an ill-formed sequence is replaced by U+FFFD.
\<close>

definition utf8_second :: "nat \<Rightarrow> char \<Rightarrow> bool" where
  "utf8_second lead c =
     (let n = of_char c
      in if lead = 0xE0 then 0xA0 \<le> n \<and> n \<le> 0xBF
         else if lead = 0xED then 0x80 \<le> n \<and> n \<le> 0x9F
         else if lead = 0xF0 then 0x90 \<le> n \<and> n \<le> 0xBF
         else if lead = 0xF4 then 0x80 \<le> n \<and> n \<le> 0x8F
         else 0x80 \<le> n \<and> n \<le> (0xBF :: nat))"

fun utf8_chunk :: "string \<Rightarrow> nat \<times> bool" where
  "utf8_chunk [] = (1, False)"
| "utf8_chunk (c # cs) =
     (let n = (of_char c :: nat)
      in if n < 0x80 then (1, True)
         else if 0xC2 \<le> n \<and> n \<le> 0xDF then
           (case cs of d # _ \<Rightarrow> if is_continuation_byte d then (2, True) else (1, False) | [] \<Rightarrow> (1, False))
         else if 0xE0 \<le> n \<and> n \<le> 0xEF then
           (case cs of
              [] \<Rightarrow> (1, False)
            | d # ds \<Rightarrow>
                if \<not> utf8_second n d then (1, False)
                else (case ds of e # _ \<Rightarrow> if is_continuation_byte e then (3, True) else (2, False) | [] \<Rightarrow> (2, False)))
         else if 0xF0 \<le> n \<and> n \<le> 0xF4 then
           (case cs of
              [] \<Rightarrow> (1, False)
            | d # ds \<Rightarrow>
                if \<not> utf8_second n d then (1, False)
                else (case ds of
                        [] \<Rightarrow> (2, False)
                      | e # es \<Rightarrow>
                          if \<not> is_continuation_byte e then (2, False)
                          else (case es of g # _ \<Rightarrow> if is_continuation_byte g then (4, True) else (3, False)
                                 | [] \<Rightarrow> (3, False))))
         else (1, False))"

lemma utf8_chunk_positive: "utf8_chunk s = (k, valid) \<Longrightarrow> 0 < k"
  by (cases s) (auto simp: Let_def split: list.splits if_splits)

function utf8_lossy :: "string \<Rightarrow> string" where
  "utf8_lossy s =
     (if s = [] then []
      else case utf8_chunk s of (k, valid) \<Rightarrow>
        (if valid then take k s else [CHR 0xEF, CHR 0xBF, CHR 0xBD]) @ utf8_lossy (drop k s))"
  by pat_completeness auto
termination utf8_lossy
  by (relation "measure length") (auto dest!: utf8_chunk_positive [OF sym])

declare utf8_lossy.simps [simp del]

section \<open>Requests\<close>

definition MAX_QUERY_CONTENT_BYTES :: nat where
  "MAX_QUERY_CONTENT_BYTES = 48 * 1024"

definition MAX_QUERY_RESULT_BYTES :: nat where
  "MAX_QUERY_RESULT_BYTES = 60 * 1024"

definition MAX_BASE64_SOURCE_BYTES :: nat where
  "MAX_BASE64_SOURCE_BYTES = 32 * 1024"

definition MAX_CATALOG_ROWS :: nat where
  "MAX_CATALOG_ROWS = 100"

definition MAX_MATCHES :: nat where
  "MAX_MATCHES = 100"

definition MAX_CONTEXT_LINES :: nat where
  "MAX_CONTEXT_LINES = 100"

definition MAX_SEARCH_BYTES :: nat where
  "MAX_SEARCH_BYTES = 4096"

record LogQuerySelector =
  qs_run_id :: "string option"
  qs_check :: "string option"
  qs_phase :: "LogPhase option"
  qs_case_id :: "string option"
  qs_stream :: "LogStream option"

record LogQueryOptions =
  qo_cursor :: "string option"
  qo_limit :: "nat option"
  qo_lines :: "nat option"
  qo_max_bytes :: "nat option"
  qo_text :: "string option"
  qo_max_matches :: "nat option"
  qo_context_lines :: "nat option"
  qo_line_start :: "nat option"
  qo_line_end :: "nat option"
  qo_byte_start :: "nat option"
  qo_byte_end :: "nat option"
  qo_max_age_seconds :: "nat option"
  qo_case_depth :: "nat option"

record LogQueryRequest =
  rq_schema :: u8
  rq_operation :: LogQueryOperation
  rq_repository_id :: string
  rq_selector :: LogQuerySelector
  rq_options :: LogQueryOptions

abbreviation option_or :: "'a option \<Rightarrow> 'a \<Rightarrow> 'a" where
  "option_or v d \<equiv> (case v of None \<Rightarrow> d | Some x \<Rightarrow> x)"

definition valid_repository_id :: "string \<Rightarrow> bool" where
  "valid_repository_id value \<longleftrightarrow> length value = 17 \<and> str_starts_with value ''r'' \<and> list_all is_lower_hex (drop 1 value)"

definition query_validate_run_id :: "string \<Rightarrow> (LogQueryError, unit) result" where
  "query_validate_run_id value =
     (if 1 \<le> length value \<and> length value \<le> 128 \<and> is_ascii_alphanumeric (hd value) \<and> list_all is_id_byte value
      then Ok () else Err ArgsInvalid)"

definition valid_check :: "string \<Rightarrow> bool" where
  "valid_check value \<longleftrightarrow> value \<noteq> [] \<and> length value \<le> 64 \<and>
     all_bytes (\<lambda>b. is_ascii_lowercase b \<or> is_ascii_digit b) is_name_byte value"

definition valid_case :: "string \<Rightarrow> bool" where
  "valid_case value \<longleftrightarrow> value \<noteq> [] \<and> length value \<le> 128 \<and> all_bytes is_ascii_alphanumeric is_id_byte value"

definition bounded_positive :: "nat \<Rightarrow> nat \<Rightarrow> (LogQueryError, nat) result" where
  "bounded_positive value maximum = (if value = 0 \<or> maximum < value then Err ArgsInvalid else Ok value)"

definition validate_max_bytes :: "nat \<Rightarrow> (LogQueryError, nat) result" where
  "validate_max_bytes value =
     (if value = 0 \<or> MAX_QUERY_CONTENT_BYTES < value then Err ArgsInvalid else Ok value)"

abbreviation checked :: "('e, 'a) result \<Rightarrow> ('e, unit) result" where
  "checked r \<equiv> then_do r (\<lambda>_. Ok ())"

definition reject_options :: "LogQueryOptions \<Rightarrow> string list \<Rightarrow> (LogQueryError, unit) result" where
  "reject_options options allowed =
     reject_if (list_ex (\<lambda>(name, present). present \<and> name \<notin> set allowed)
       [(''cursor'', qo_cursor options \<noteq> None), (''limit'', qo_limit options \<noteq> None),
        (''lines'', qo_lines options \<noteq> None), (''max_bytes'', qo_max_bytes options \<noteq> None),
        (''text'', qo_text options \<noteq> None), (''max_matches'', qo_max_matches options \<noteq> None),
        (''context_lines'', qo_context_lines options \<noteq> None), (''line_start'', qo_line_start options \<noteq> None),
        (''line_end'', qo_line_end options \<noteq> None), (''byte_start'', qo_byte_start options \<noteq> None),
        (''byte_end'', qo_byte_end options \<noteq> None), (''max_age_seconds'', qo_max_age_seconds options \<noteq> None),
        (''case_depth'', qo_case_depth options \<noteq> None)]) ArgsInvalid"

definition validate_selector_filter :: "LogQuerySelector \<Rightarrow> LogQueryOperation \<Rightarrow> (LogQueryError, unit) result" where
  "validate_selector_filter selector operation = steps [
     reject_if (optb (\<lambda>check. \<not> valid_check check) (qs_check selector)) ArgsInvalid,
     reject_if (optb (\<lambda>case_id. \<not> valid_case case_id) (qs_case_id selector)) ArgsInvalid,
     reject_if (case qs_phase selector of
         Some LogPhase.Executor \<Rightarrow> qs_check selector \<noteq> None \<or> qs_case_id selector \<noteq> None
       | Some LogPhase.Check \<Rightarrow> qs_check selector = None \<or> qs_case_id selector \<noteq> None
       | Some LogPhase.Discovery \<Rightarrow> qs_check selector = None \<or> qs_case_id selector \<noteq> None
       | Some _ \<Rightarrow> qs_check selector = None \<or> qs_case_id selector = None \<and> operation \<noteq> Catalog
       | None \<Rightarrow> qs_case_id selector \<noteq> None) ArgsInvalid,
     reject_if (operation \<in> {Tail, Search, Range} \<and> (qs_phase selector = None \<or> qs_stream selector = None)) ArgsInvalid]"

definition validate_range_options :: "LogQueryOptions \<Rightarrow> (LogQueryError, unit) result" where
  "validate_range_options options =
     (let line_mode = (qo_line_start options \<noteq> None \<or> qo_line_end options \<noteq> None);
          byte_mode = (qo_byte_start options \<noteq> None \<or> qo_byte_end options \<noteq> None)
      in if line_mode = byte_mode then Err ArgsInvalid
         else if line_mode
         then (case (qo_line_start options, qo_line_end options) of
                 (Some start, Some final) \<Rightarrow> reject_if (start = 0 \<or> final < start) ArgsInvalid
               | _ \<Rightarrow> Err ArgsInvalid)
         else (case (qo_byte_start options, qo_byte_end options) of
                 (Some start, Some final) \<Rightarrow> reject_if (final < start) ArgsInvalid
               | _ \<Rightarrow> Err ArgsInvalid))"

definition validate_operation :: "LogQueryRequest \<Rightarrow> (LogQueryError, unit) result" where
  "validate_operation request =
     (let options = rq_options request
      in case rq_operation request of
           Catalog \<Rightarrow> steps [
             checked (bounded_positive (option_or (qo_limit options) 100) MAX_CATALOG_ROWS),
             reject_options options [''cursor'', ''limit'', ''max_age_seconds'', ''case_depth''],
             if_some (\<lambda>age. checked (bounded_positive age (2 ^ 64 - 1))) (qo_max_age_seconds options),
             if_some (\<lambda>depth. checked (bounded_positive depth (2 ^ 64 - 1))) (qo_case_depth options)]
         | Tail \<Rightarrow> steps [
             checked (bounded_positive (option_or (qo_lines options) 50) 5000),
             checked (validate_max_bytes (option_or (qo_max_bytes options) 32768)),
             reject_options options [''cursor'', ''lines'', ''max_bytes'']]
         | Search \<Rightarrow> steps [
             (case qo_text options of
                None \<Rightarrow> Err ArgsInvalid
              | Some t \<Rightarrow> reject_if (t = [] \<or> MAX_SEARCH_BYTES < length t) ArgsInvalid),
             checked (bounded_positive (option_or (qo_max_matches options) 20) MAX_MATCHES),
             reject_if (MAX_CONTEXT_LINES < option_or (qo_context_lines options) 2) ArgsInvalid,
             checked (validate_max_bytes (option_or (qo_max_bytes options) 32768)),
             reject_options options [''cursor'', ''text'', ''max_matches'', ''context_lines'', ''max_bytes'']]
         | Range \<Rightarrow> steps [
             checked (validate_max_bytes (option_or (qo_max_bytes options) MAX_QUERY_CONTENT_BYTES)),
             validate_range_options options,
             reject_options options [''cursor'', ''max_bytes'', ''line_start'', ''line_end'', ''byte_start'', ''byte_end'']]
         | FailureContext \<Rightarrow> steps [
             checked (bounded_positive (option_or (qo_limit options) 20) MAX_MATCHES),
             reject_if (MAX_CONTEXT_LINES < option_or (qo_context_lines options) 2) ArgsInvalid,
             checked (validate_max_bytes (option_or (qo_max_bytes options) 32768)),
             reject_options options [''cursor'', ''limit'', ''context_lines'', ''max_bytes''],
             reject_if (qs_phase (rq_selector request) = None \<or> qs_stream (rq_selector request) = None) ArgsInvalid])"

definition validate_query_request :: "LogQueryRequest \<Rightarrow> (LogQueryError, unit) result" where
  "validate_query_request request = steps [
     reject_if (rq_schema request \<noteq> 2 \<or> \<not> valid_repository_id (rq_repository_id request)) ArgsInvalid,
     if_some query_validate_run_id (qs_run_id (rq_selector request)),
     validate_selector_filter (rq_selector request) (rq_operation request),
     reject_if (optb (\<lambda>value. value = [] \<or> MAX_CURSOR_BYTES < length value \<or> \<not> list_all is_ascii value)
       (qo_cursor (rq_options request))) ArgsInvalid,
     validate_operation request]"

section \<open>Results\<close>

record LogSegment =
  sg_line_start :: nat
  sg_line_end :: nat
  sg_byte_start :: nat
  sg_byte_end :: nat
  sg_text :: "string option"
  sg_base64 :: "string option"
  sg_rank :: "nat option"
  sg_fingerprint :: "string option"
  sg_occurrences :: "nat option"

record ContentResult =
  cr_segments :: "LogSegment list"
  cr_snapshot_bytes :: nat
  cr_snapshot_lines :: nat
  cr_next_cursor :: "string option"
  cr_response_truncated :: bool

record SearchResult =
  sr_matches :: "LogSegment list"
  sr_snapshot_bytes :: nat
  sr_snapshot_lines :: nat
  sr_next_cursor :: "string option"
  sr_response_truncated :: bool

text \<open>\<^verbatim>\<open>LineRead::segment\<close>, which every caller asks for text.\<close>

definition segment_of :: "LineRead \<Rightarrow> LogSegment" where
  "segment_of r =
     \<lparr>sg_line_start = rd_line_start r, sg_line_end = rd_line_end r, sg_byte_start = rd_byte_start r,
      sg_byte_end = rd_byte_end r, sg_text = Some (utf8_lossy (rd_bytes r)), sg_base64 = None, sg_rank = None,
      sg_fingerprint = None, sg_occurrences = None\<rparr>"

section \<open>Selecting a stream\<close>

record UnindexedStream =
  us_bytes :: u64
  us_lines :: u64
  us_device :: u64
  us_inode :: u64
  us_sha256 :: string

text \<open>A stream of a leaf with the format of its index.\<close>

record InventoryLeaf =
  il_run_id :: string
  il_test :: string
  il_selector :: LeafSelector
  il_metadata :: LeafLogMetadata
  il_components :: "string list"
  il_directory_identity :: "u64 \<times> u64"
  il_active :: bool
  il_streams :: "(LogStream \<times> StreamMetadata \<times> string) list"

text \<open>The directory of a run opens the file of a name below it, by way of the components of a path.\<close>

record InventoryRun =
  ir_metadata :: RunLogMetadata
  ir_active :: bool
  ir_leaves :: "InventoryLeaf list"
  ir_directory :: "(string list \<Rightarrow> string \<Rightarrow> (LogQueryError, File) result) option"
  ir_directory_identity :: "u64 \<times> u64"
  ir_executor_streams :: "(LogStream \<times> UnindexedStream) list"

definition log_ref :: "string \<Rightarrow> LeafSelector \<Rightarrow> LogStream \<Rightarrow> LogRef" where
  "log_ref run_id selector stream =
     \<lparr>lr_run_id = run_id, lr_check = ls_check selector, lr_phase = ls_phase selector, lr_case = ls_case_id selector,
      lr_stream = stream\<rparr>"

definition run_open :: "InventoryRun \<Rightarrow> string list \<Rightarrow> string \<Rightarrow> (LogQueryError, File) result" where
  "run_open run parts name =
     (case ir_directory run of None \<Rightarrow> Err Unavailable | Some directory \<Rightarrow> directory parts name)"

definition open_selected_stream :: "InventoryRun \<Rightarrow> InventoryLeaf \<Rightarrow> LogStream \<Rightarrow> (LogQueryError, SelectedStream) result" where
  "open_selected_stream run leaf stream =
     (case map_of (il_streams leaf) stream of
        None \<Rightarrow> Err LogNotFound
      | Some (metadata, format) \<Rightarrow>
          then_do (run_open run (drop 1 (il_components leaf)) (stream_name stream @ ''.log'')) (\<lambda>f.
          then_do (if format = ''computed-active-v1'' then Ok None
                   else then_do (run_open run (drop 1 (il_components leaf)) (stream_name stream @ ''.lines''))
                          (\<lambda>idx. Ok (Some idx))) (\<lambda>idx.
          (case fl_identity f of
             None \<Rightarrow> Err Unavailable
           | Some (device, inode) \<Rightarrow>
               (case fl_len f of
                  None \<Rightarrow> Err Unavailable
                | Some len \<Rightarrow>
                    if len < unat (sm_bytes metadata) \<or> \<not> il_active leaf \<and> len \<noteq> unat (sm_bytes metadata)
                    then Err StoreMalformed
                    else Ok \<lparr>sel_log_ref = log_ref (il_run_id leaf) (il_selector leaf) stream, sel_metadata = metadata,
                             sel_file = f, sel_index = idx, sel_device = device, sel_inode = inode,
                             sel_snapshot_bytes = min (unat (sm_bytes metadata)) len\<rparr>)))))"

definition select_stream :: "InventoryRun \<Rightarrow> LogQueryRequest \<Rightarrow> bool \<Rightarrow> (LogQueryError, SelectedStream) result" where
  "select_stream run request expired_when_missing =
     (case (qs_phase (rq_selector request), qs_stream (rq_selector request)) of
        (Some phase, Some stream) \<Rightarrow>
          (case LeafSelector_new (qs_check (rq_selector request)) phase (qs_case_id (rq_selector request)) of
             Inl _ \<Rightarrow> Err ArgsInvalid
           | Inr selector \<Rightarrow>
               if ls_phase selector = LogPhase.Executor
               then (case map_of (ir_executor_streams run) stream of
                       None \<Rightarrow> Err LogNotFound
                     | Some stored \<Rightarrow>
                         then_do (run_open run [''executor''] (stream_name stream @ ''.log'')) (\<lambda>f.
                           Ok \<lparr>sel_log_ref = log_ref (rlm_run_id (ir_metadata run)) selector stream,
                               sel_metadata = \<lparr>sm_selector = selector, sm_stream = stream, sm_bytes = us_bytes stored,
                                 sm_lines = us_lines stored, sm_first_write_epoch_ms = None, sm_last_write_epoch_ms = None,
                                 sm_complete = (rlm_complete (ir_metadata run) \<and> \<not> ir_active run),
                                 sm_sha256 = us_sha256 stored\<rparr>,
                               sel_file = f, sel_index = None, sel_device = us_device stored, sel_inode = us_inode stored,
                               sel_snapshot_bytes = unat (us_bytes stored)\<rparr>))
               else (case find (\<lambda>leaf. il_selector leaf = selector) (ir_leaves run) of
                       None \<Rightarrow> Err (if expired_when_missing then LogExpired else LogNotFound)
                     | Some leaf \<Rightarrow> open_selected_stream run leaf stream))
      | _ \<Rightarrow> Err ArgsInvalid)"

section \<open>Cursors of a request\<close>

text \<open>The codecs: cursors, the JSON of a request, and the size of the JSON of a result.\<close>

record QueryEnv =
  qe_codec :: CursorCodec
  qe_request_json :: "LogQueryRequest \<Rightarrow> string option"
  qe_search_size :: "SearchResult \<Rightarrow> nat option"

definition query_digest :: "QueryEnv \<Rightarrow> LogQueryRequest \<Rightarrow> string \<Rightarrow> (LogQueryError, string) result" where
  "query_digest qe request run_id =
     (case qe_request_json qe (request\<lparr>rq_selector := (rq_selector request)\<lparr>qs_run_id := Some run_id\<rparr>,
          rq_options := (rq_options request)\<lparr>qo_cursor := None\<rparr>\<rparr>) of
        None \<Rightarrow> Err Unavailable
      | Some encoded \<Rightarrow> Ok (lower_hex (cc_sha256 (qe_codec qe) encoded)))"

definition content_cursor ::
    "QueryEnv \<Rightarrow> LogQueryRequest \<Rightarrow> SelectedStream \<Rightarrow> string \<Rightarrow> (LogQueryError, CursorPayload option) result" where
  "content_cursor qe request sel digest =
     (case qo_cursor (rq_options request) of
        None \<Rightarrow> Ok None
      | Some encoded \<Rightarrow>
          then_do (decode_cursor (qe_codec qe) encoded) (\<lambda>cursor.
            if cu_schema cursor \<noteq> 2 \<or> cu_operation cursor \<noteq> rq_operation request \<or>
               cu_log_ref cursor \<noteq> Some (sel_log_ref sel) \<or> cu_run_id cursor \<noteq> lr_run_id (sel_log_ref sel) \<or>
               cu_device cursor \<noteq> sel_device sel \<or> cu_inode cursor \<noteq> sel_inode sel
            then Err CursorStale
            else case fl_len (sel_file sel) of
                None \<Rightarrow> Err Unavailable
              | Some len \<Rightarrow>
                  if len < cu_snapshot_bytes cursor \<or> sel_lines sel < cu_snapshot_lines cursor \<or>
                     cu_query_sha256 cursor \<noteq> digest
                  then Err CursorStale else Ok (Some cursor)))"

definition clamp_to_cursor_snapshot ::
    "SelectedStream \<Rightarrow> CursorPayload option \<Rightarrow> (LogQueryError, SelectedStream) result" where
  "clamp_to_cursor_snapshot sel cursor =
     (case cursor of
        None \<Rightarrow> Ok sel
      | Some cursor \<Rightarrow>
          if sel_snapshot_bytes sel < cu_snapshot_bytes cursor \<or> sel_lines sel < cu_snapshot_lines cursor
          then Err CursorStale
          else Ok (sel\<lparr>sel_snapshot_bytes := cu_snapshot_bytes cursor,
                 sel_metadata := (sel_metadata sel)\<lparr>sm_bytes := of_nat (cu_snapshot_bytes cursor),
                   sm_lines := of_nat (cu_snapshot_lines cursor)\<rparr>\<rparr>))"

text \<open>Where to go on: the line and byte, the line and byte after a pending match, its end, and the lines emitted.\<close>

type_synonym next_state = "nat \<times> nat \<times> nat \<times> nat \<times> nat option \<times> nat"

definition cursor_payload :: "LogQueryRequest \<Rightarrow> SelectedStream \<Rightarrow> string \<Rightarrow> next_state \<Rightarrow> CursorPayload" where
  "cursor_payload request sel digest =
     (\<lambda>(position, byte_position, auxiliary_position, auxiliary_byte_position, pending_line_end, emitted_through_line).
     \<lparr>cu_schema = 2, cu_operation = rq_operation request, cu_log_ref = Some (sel_log_ref sel),
      cu_run_id = lr_run_id (sel_log_ref sel), cu_device = sel_device sel, cu_inode = sel_inode sel,
      cu_snapshot_bytes = sel_snapshot_bytes sel, cu_snapshot_lines = sel_lines sel, cu_position = position,
      cu_byte_position = byte_position, cu_auxiliary_position = auxiliary_position,
      cu_auxiliary_byte_position = auxiliary_byte_position, cu_pending_line_end = pending_line_end,
      cu_emitted_through_line = emitted_through_line, cu_query_sha256 = digest\<rparr>)"

definition make_content_cursor_with_state ::
    "QueryEnv \<Rightarrow> LogQueryRequest \<Rightarrow> SelectedStream \<Rightarrow> string \<Rightarrow> next_state \<Rightarrow> (LogQueryError, string) result" where
  "make_content_cursor_with_state qe request sel digest state =
     encode_cursor (qe_codec qe) (cursor_payload request sel digest state)"

definition make_content_cursor ::
    "QueryEnv \<Rightarrow> LogQueryRequest \<Rightarrow> SelectedStream \<Rightarrow> string \<Rightarrow> nat \<Rightarrow> nat \<Rightarrow> (LogQueryError, string) result" where
  "make_content_cursor qe request sel digest position byte_position =
     make_content_cursor_with_state qe request sel digest (position, byte_position, 0, 0, None, 0)"

definition cursor_if ::
    "bool \<Rightarrow> (LogQueryError, string) result \<Rightarrow> (LogQueryError, string option) result" where
  "cursor_if wanted r = (if wanted then then_do r (\<lambda>c. Ok (Some c)) else Ok None)"


section \<open>Ranges\<close>

definition ended_mid_line :: "LineRead \<Rightarrow> bool" where
  "ended_mid_line r \<longleftrightarrow> rd_truncated r \<and> rd_bytes r \<noteq> [] \<and> last (rd_bytes r) \<noteq> CHR 0x0A"

definition next_line :: "LineRead \<Rightarrow> nat" where
  "next_line r = (if ended_mid_line r then rd_line_end r else rd_line_end r + 1)"

definition range_lines ::
    "QueryEnv \<Rightarrow> LogQueryRequest \<Rightarrow> SelectedStream \<Rightarrow> string \<Rightarrow> nat \<Rightarrow> CursorPayload option \<Rightarrow> nat \<Rightarrow> nat
       \<Rightarrow> (LogQueryError, ContentResult) result" where
  "range_lines qe request sel digest max_bytes cursor configured_start configured_end =
     (let start = (case cursor of None \<Rightarrow> configured_start | Some c \<Rightarrow> cu_position c)
      in if sel_lines sel < start
         then Ok \<lparr>cr_segments = [], cr_snapshot_bytes = sel_snapshot_bytes sel, cr_snapshot_lines = sel_lines sel,
                  cr_next_cursor = None, cr_response_truncated = False\<rparr>
         else let last_line = min configured_end (sel_lines sel)
              in then_do (read_line_interval_from sel start last_line max_bytes
                    (case cursor of None \<Rightarrow> None | Some c \<Rightarrow> if 0 < cu_byte_position c then Some (cu_byte_position c) else None))
                  (\<lambda>read. then_do
                    (cursor_if (rd_truncated read \<and> next_line read \<le> last_line)
                       (make_content_cursor qe request sel digest (next_line read)
                          (if ended_mid_line read then rd_byte_end read else 0)))
                    (\<lambda>next_cursor. Ok \<lparr>cr_segments = [segment_of read], cr_snapshot_bytes = sel_snapshot_bytes sel,
                       cr_snapshot_lines = sel_lines sel, cr_next_cursor = next_cursor,
                       cr_response_truncated = rd_truncated read\<rparr>)))"

definition range_bytes ::
    "QueryEnv \<Rightarrow> LogQueryRequest \<Rightarrow> SelectedStream \<Rightarrow> string \<Rightarrow> nat \<Rightarrow> CursorPayload option
       \<Rightarrow> (LogQueryError, ContentResult) result" where
  "range_bytes qe request sel digest max_bytes cursor =
     (let configured_start = option_or (qo_byte_start (rq_options request)) 0;
          configured_end = option_or (qo_byte_end (rq_options request)) configured_start;
          start = (case cursor of None \<Rightarrow> configured_start | Some c \<Rightarrow> cu_byte_position c);
          last_byte = min configured_end (sel_snapshot_bytes sel)
      in if last_byte < start then Err CursorStale
         else then_do (read_bytes (sel_file sel) start
                (min (min (last_byte - start) max_bytes) MAX_BASE64_SOURCE_BYTES)) (\<lambda>bytes.
           let actual_end = start + length bytes
           in then_do (line_for_byte sel start) (\<lambda>(line_start, _).
              then_do (line_for_byte sel (actual_end - 1)) (\<lambda>(line_end, _).
              then_do (cursor_if (actual_end < last_byte) (make_content_cursor qe request sel digest line_end actual_end))
                (\<lambda>next_cursor. Ok
                  \<lparr>cr_segments = [\<lparr>sg_line_start = line_start, sg_line_end = line_end, sg_byte_start = start,
                     sg_byte_end = actual_end, sg_text = None, sg_base64 = Some (base64_standard_encode bytes),
                     sg_rank = None, sg_fingerprint = None, sg_occurrences = None\<rparr>],
                   cr_snapshot_bytes = sel_snapshot_bytes sel, cr_snapshot_lines = sel_lines sel,
                   cr_next_cursor = next_cursor, cr_response_truncated = (actual_end < last_byte)\<rparr>)))))"

definition query_range :: "QueryEnv \<Rightarrow> InventoryRun \<Rightarrow> LogQueryRequest \<Rightarrow> (LogQueryError, ContentResult) result" where
  "query_range qe run request =
     then_do (select_stream run request (qo_cursor (rq_options request) \<noteq> None)) (\<lambda>sel.
     then_do (validate_max_bytes (option_or (qo_max_bytes (rq_options request)) MAX_QUERY_CONTENT_BYTES)) (\<lambda>max_bytes.
     then_do (query_digest qe request (rlm_run_id (ir_metadata run))) (\<lambda>digest.
     then_do (content_cursor qe request sel digest) (\<lambda>cursor.
     then_do (clamp_to_cursor_snapshot sel cursor) (\<lambda>sel.
       if optb (\<lambda>c. cu_auxiliary_position c \<noteq> 0 \<or> cu_auxiliary_byte_position c \<noteq> 0 \<or> cu_pending_line_end c \<noteq> None \<or>
            cu_emitted_through_line c \<noteq> 0) cursor
       then Err CursorStale
       else case (qo_line_start (rq_options request), qo_line_end (rq_options request)) of
           (Some configured_start, Some configured_end) \<Rightarrow>
             range_lines qe request sel digest max_bytes cursor configured_start configured_end
         | _ \<Rightarrow> range_bytes qe request sel digest max_bytes cursor)))))"

section \<open>The tail\<close>

definition tail_window ::
    "QueryEnv \<Rightarrow> LogQueryRequest \<Rightarrow> SelectedStream \<Rightarrow> string \<Rightarrow> nat \<Rightarrow> CursorPayload option \<Rightarrow> nat \<Rightarrow> nat
       \<Rightarrow> (LogQueryError, ContentResult) result" where
  "tail_window qe request sel digest max_bytes pending end_line window_start =
     (if window_start = 0 \<or> end_line < window_start then Err CursorStale
      else then_do (line_offset sel window_start) (\<lambda>interval_start.
        then_do (if end_line = sel_lines sel then Ok (sel_snapshot_bytes sel) else line_offset sel (end_line + 1))
          (\<lambda>natural_interval_end.
          let interval_end = (case pending of None \<Rightarrow> natural_interval_end | Some c \<Rightarrow> cu_byte_position c)
          in if interval_end \<le> interval_start \<or> natural_interval_end < interval_end then Err CursorStale
             else let byte_start = max (interval_end - min max_bytes MAX_TEXT_BYTES) interval_start
                  in then_do (read_bytes (sel_file sel) byte_start (interval_end - byte_start)) (\<lambda>bytes.
                     then_do (line_for_byte sel byte_start) (\<lambda>(line_start, _).
                     then_do (line_for_byte sel (interval_end - 1)) (\<lambda>(line_end, _).
                     then_do (if interval_start < byte_start
                              then cursor_if True (make_content_cursor_with_state qe request sel digest
                                     (end_line, byte_start, window_start, 0, Some end_line, 0))
                              else cursor_if (1 < window_start)
                                     (make_content_cursor qe request sel digest (window_start - 1) 0)) (\<lambda>next_cursor.
                       Ok \<lparr>cr_segments = [\<lparr>sg_line_start = line_start, sg_line_end = line_end, sg_byte_start = byte_start,
                            sg_byte_end = interval_end, sg_text = Some (utf8_lossy bytes), sg_base64 = None,
                            sg_rank = None, sg_fingerprint = None, sg_occurrences = None\<rparr>],
                           cr_snapshot_bytes = sel_snapshot_bytes sel, cr_snapshot_lines = sel_lines sel,
                           cr_next_cursor = next_cursor,
                           cr_response_truncated = (interval_start < byte_start \<or> 1 < window_start)\<rparr>)))))))"

definition query_tail :: "QueryEnv \<Rightarrow> InventoryRun \<Rightarrow> LogQueryRequest \<Rightarrow> (LogQueryError, ContentResult) result" where
  "query_tail qe run request =
     then_do (select_stream run request (qo_cursor (rq_options request) \<noteq> None)) (\<lambda>sel.
     then_do (validate_max_bytes (option_or (qo_max_bytes (rq_options request)) 32768)) (\<lambda>max_bytes.
     then_do (query_digest qe request (rlm_run_id (ir_metadata run))) (\<lambda>digest.
     then_do (content_cursor qe request sel digest) (\<lambda>cursor.
     then_do (clamp_to_cursor_snapshot sel cursor) (\<lambda>sel.
       if optb (\<lambda>c. cu_auxiliary_byte_position c \<noteq> 0 \<or> cu_emitted_through_line c \<noteq> 0) cursor then Err CursorStale
       else let requested_lines = option_or (qo_lines (rq_options request)) 50;
                end_line = (case cursor of None \<Rightarrow> sel_lines sel | Some c \<Rightarrow> cu_position c)
            in if end_line = 0 \<or> sel_lines sel = 0
               then Ok \<lparr>cr_segments = [], cr_snapshot_bytes = sel_snapshot_bytes sel, cr_snapshot_lines = sel_lines sel,
                        cr_next_cursor = None, cr_response_truncated = False\<rparr>
               else let end_line = min end_line (sel_lines sel);
                        pending = (case cursor of None \<Rightarrow> None
                          | Some c \<Rightarrow> if cu_pending_line_end c \<noteq> None then Some c else None);
                        window_start = (case pending of None \<Rightarrow> max (end_line - (requested_lines - 1)) 1
                          | Some c \<Rightarrow> cu_auxiliary_position c)
                    in tail_window qe request sel digest max_bytes pending end_line window_start)))))"

section \<open>Searching\<close>

definition search_page_fits :: "QueryEnv \<Rightarrow> LogSegment list \<Rightarrow> nat \<Rightarrow> nat \<Rightarrow> (LogQueryError, bool) result" where
  "search_page_fits qe matches snapshot_bytes snapshot_lines =
     (case qe_search_size qe \<lparr>sr_matches = matches, sr_snapshot_bytes = snapshot_bytes, sr_snapshot_lines = snapshot_lines,
          sr_next_cursor = Some (replicate MAX_CURSOR_BYTES (CHR ''x'')), sr_response_truncated = True\<rparr> of
        None \<Rightarrow> Err Unavailable
      | Some n \<Rightarrow> Ok (n \<le> MAX_QUERY_RESULT_BYTES))"

record SearchPage =
  sp_matches :: "LogSegment list"
  sp_used :: nat
  sp_emitted_through :: nat
  sp_scan_line :: nat
  sp_scan_byte :: nat
  sp_next :: "next_state option"

text \<open>The rest of a match that an earlier page cut.\<close>

definition search_pending ::
    "QueryEnv \<Rightarrow> SelectedStream \<Rightarrow> nat \<Rightarrow> CursorPayload option \<Rightarrow> SearchPage \<Rightarrow> (LogQueryError, SearchPage) result" where
  "search_pending qe sel max_bytes cursor page =
     (case cursor of
        None \<Rightarrow> Ok page
      | Some c \<Rightarrow>
          (case cu_pending_line_end c of
             None \<Rightarrow> if cu_auxiliary_position c \<noteq> 0 \<or> cu_auxiliary_byte_position c \<noteq> 0 then Err CursorStale else Ok page
           | Some pending_end \<Rightarrow>
               if cu_auxiliary_position c = 0 \<or> cu_position c = 0 \<or> pending_end < cu_position c then Err CursorStale
               else then_do (read_line_interval_from sel (cu_position c) pending_end
                      (min (max_bytes - sp_used page) (4 * 1024)) (Some (cu_byte_position c))) (\<lambda>read.
                 then_do (search_page_fits qe [segment_of read] (sel_snapshot_bytes sel) (sel_lines sel)) (\<lambda>fits.
                   if \<not> fits then Err Unavailable
                   else let page = page\<lparr>sp_used := sp_used page + length (rd_bytes read),
                              sp_matches := sp_matches page @ [segment_of read]\<rparr>
                        in Ok (if rd_truncated read \<and> next_line read \<le> pending_end
                               then page\<lparr>sp_next := Some (next_line read, rd_byte_end read, cu_auxiliary_position c,
                                      cu_auxiliary_byte_position c, Some pending_end, sp_emitted_through page)\<rparr>
                               else page\<lparr>sp_emitted_through := max (sp_emitted_through page) pending_end,
                                      sp_scan_line := cu_auxiliary_position c,
                                      sp_scan_byte := cu_auxiliary_byte_position c\<rparr>)))))"

text \<open>The matches of one scan; at most \<open>k\<close> of them are returned.\<close>

fun search_hits ::
    "QueryEnv \<Rightarrow> SelectedStream \<Rightarrow> nat \<Rightarrow> nat \<Rightarrow> nat \<Rightarrow> LineHit list \<Rightarrow> SearchPage \<Rightarrow> (LogQueryError, SearchPage) result" where
  "search_hits qe sel max_bytes around 0 hits page = Ok page"
| "search_hits qe sel max_bytes around (Suc k) [] page = Ok page"
| "search_hits qe sel max_bytes around (Suc k) (hit # hits) page =
     (let resume = (case hits of h # _ \<Rightarrow> h
            | [] \<Rightarrow> \<lparr>lh_line = sel_lines sel + 1, lh_byte_start = sel_snapshot_bytes sel\<rparr>);
          start = max (max (lh_line hit - around) 1) (sp_emitted_through page + 1);
          last_line = min (lh_line hit + around) (sel_lines sel);
          again = page\<lparr>sp_next := Some (lh_line hit, lh_byte_start hit, 0, 0, None, sp_emitted_through page)\<rparr>
      in if last_line < start then search_hits qe sel max_bytes around k hits page
         else if max_bytes \<le> sp_used page then Ok again
         else then_do (read_line_interval sel start last_line (min (max_bytes - sp_used page) (4 * 1024))) (\<lambda>read.
           then_do (search_page_fits qe (sp_matches page @ [segment_of read]) (sel_snapshot_bytes sel) (sel_lines sel)) (\<lambda>fits.
             if \<not> fits then Ok again
             else let page = page\<lparr>sp_used := sp_used page + length (rd_bytes read),
                        sp_matches := sp_matches page @ [segment_of read]\<rparr>
                  in if rd_truncated read \<and> next_line read \<le> last_line
                     then Ok (page\<lparr>sp_next := Some (next_line read, rd_byte_end read, lh_line resume, lh_byte_start resume,
                            Some last_line, sp_emitted_through page)\<rparr>)
                     else search_hits qe sel max_bytes around k hits
                            (page\<lparr>sp_emitted_through := max (sp_emitted_through page) last_line\<rparr>))))"

definition search_scan ::
    "QueryEnv \<Rightarrow> SelectedStream \<Rightarrow> nat \<Rightarrow> nat \<Rightarrow> nat \<Rightarrow> string \<Rightarrow> SearchPage \<Rightarrow> (LogQueryError, SearchPage) result option" where
  "search_scan qe sel max_bytes around maximum needle page =
     (if sp_next page = None \<and> sp_scan_byte page < sel_snapshot_bytes sel
      then case find_literal_lines (sel_file sel) (sel_snapshot_bytes sel) (sp_scan_byte page) (sp_scan_line page) needle
                  (maximum + 1) of
             None \<Rightarrow> None
           | Some found \<Rightarrow> Some (then_do found (\<lambda>scan.
               then_do (search_hits qe sel max_bytes around (min (length scan) maximum) scan page) (\<lambda>page.
                 Ok (if sp_next page = None \<and> maximum < length scan
                     then let h = scan ! maximum
                          in page\<lparr>sp_next := Some (lh_line h, lh_byte_start h, 0, 0, None, sp_emitted_through page)\<rparr>
                     else page))))
      else Some (Ok page))"

definition search_result ::
    "QueryEnv \<Rightarrow> LogQueryRequest \<Rightarrow> SelectedStream \<Rightarrow> string \<Rightarrow> SearchPage \<Rightarrow> (LogQueryError, SearchResult) result" where
  "search_result qe request sel digest page =
     then_do (case sp_next page of
        None \<Rightarrow> Ok None
      | Some state \<Rightarrow> cursor_if True (make_content_cursor_with_state qe request sel digest state)) (\<lambda>next_cursor.
       Ok \<lparr>sr_matches = sp_matches page, sr_snapshot_bytes = sel_snapshot_bytes sel, sr_snapshot_lines = sel_lines sel,
           sr_next_cursor = next_cursor, sr_response_truncated = (next_cursor \<noteq> None)\<rparr>)"

definition search_start :: "CursorPayload option \<Rightarrow> SearchPage" where
  "search_start cursor =
     \<lparr>sp_matches = [], sp_used = 0,
      sp_emitted_through = (case cursor of None \<Rightarrow> 0 | Some c \<Rightarrow> cu_emitted_through_line c),
      sp_scan_line = (case cursor of None \<Rightarrow> 1 | Some c \<Rightarrow> max (cu_position c) 1),
      sp_scan_byte = (case cursor of None \<Rightarrow> 0 | Some c \<Rightarrow> cu_byte_position c), sp_next = None\<rparr>"

definition query_search ::
    "QueryEnv \<Rightarrow> InventoryRun \<Rightarrow> LogQueryRequest \<Rightarrow> (LogQueryError, SearchResult) result option" where
  "query_search qe run request =
     (let maximum = option_or (qo_max_matches (rq_options request)) 20;
          around = option_or (qo_context_lines (rq_options request)) 2
      in case then_do (select_stream run request (qo_cursor (rq_options request) \<noteq> None)) (\<lambda>sel.
              then_do (validate_max_bytes (option_or (qo_max_bytes (rq_options request)) 32768)) (\<lambda>max_bytes.
              then_do (case qo_text (rq_options request) of None \<Rightarrow> Err ArgsInvalid | Some t \<Rightarrow> Ok t) (\<lambda>needle.
              then_do (query_digest qe request (rlm_run_id (ir_metadata run))) (\<lambda>digest.
              then_do (content_cursor qe request sel digest) (\<lambda>cursor.
              then_do (clamp_to_cursor_snapshot sel cursor) (\<lambda>sel.
              then_do (search_pending qe sel max_bytes cursor (search_start cursor)) (\<lambda>page.
                Ok (sel, max_bytes, needle, digest, page)))))))) of
           Inl e \<Rightarrow> Some (Err e)
         | Inr (sel, max_bytes, needle, digest, page) \<Rightarrow>
             (case search_scan qe sel max_bytes around maximum needle page of
                None \<Rightarrow> None
              | Some found \<Rightarrow> Some (then_do found (search_result qe request sel digest))))"

end
