(* ===== verification/Log_Pages.thy ===== *)
theory Log_Pages
  imports Log_Query
begin

text \<open>
  What following the cursors of a range request returns.  A page is computed from a snapshot of the
  stream; the cursor it ends with names the snapshot, so that later pages are read from the same
  bytes even when the stream has grown in between.  Shown: the pages of a range of lines, and those
  of a range of bytes, are consecutive parts of the range, there are finitely many, and together
  they are the whole range.
\<close>

section \<open>Opening the stream again\<close>

abbreviation with_cursor :: "LogQueryRequest \<Rightarrow> string option \<Rightarrow> LogQueryRequest" where
  "with_cursor request c \<equiv> request\<lparr>rq_options := (rq_options request)\<lparr>qo_cursor := c\<rparr>\<rparr>"

text \<open>Two selections of the same snapshot.\<close>

definition alike :: "SelectedStream \<Rightarrow> SelectedStream \<Rightarrow> bool" where
  "alike sel sel' \<longleftrightarrow> sel_log_ref sel' = sel_log_ref sel \<and> sel_device sel' = sel_device sel \<and>
     sel_inode sel' = sel_inode sel \<and> sel_snapshot_bytes sel' = sel_snapshot_bytes sel \<and> sel_lines sel' = sel_lines sel"

text \<open>The run still has the stream, with at least the bytes of the snapshot.\<close>

definition still_there :: "LogQueryRequest \<Rightarrow> string \<Rightarrow> SelectedStream \<Rightarrow> string \<Rightarrow> InventoryRun \<Rightarrow> bool" where
  "still_there request run_id sel s run \<longleftrightarrow> rlm_run_id (ir_metadata run) = run_id \<and>
     (\<exists>sel' s'. select_stream run request True = Ok sel' \<and> selected_ok sel' s' \<and> sel_log_ref sel' = sel_log_ref sel \<and>
        sel_device sel' = sel_device sel \<and> sel_inode sel' = sel_inode sel \<and>
        sel_snapshot_bytes sel \<le> sel_snapshot_bytes sel' \<and> take (sel_snapshot_bytes sel) s' = snapshot sel s)"

lemma select_stream_options: "select_stream run (request\<lparr>rq_options := opts\<rparr>) missing = select_stream run request missing"
proof -
  have same: "rq_selector (request\<lparr>rq_options := opts\<rparr>) = rq_selector request"
    by simp
  show ?thesis
    unfolding select_stream_def same by (rule refl)
qed

lemma query_digest_cursor: "query_digest qe (with_cursor request c) run_id = query_digest qe request run_id"
  by (simp add: query_digest_def)

lemma cursor_payload_alike:
  "alike sel sel' \<Longrightarrow> cursor_payload (with_cursor request c) sel' digest state = cursor_payload request sel digest state"
  by (cases state) (simp add: cursor_payload_def alike_def)

lemma line_starts_mono: "m \<le> n \<Longrightarrow> length (line_starts (take m s)) \<le> length (line_starts (take n s))"
proof -
  assume "m \<le> n"
  then have "take n s = take m s @ take (n - m) (drop m s)"
    by (metis le_add_diff_inverse take_add)
  then show ?thesis
    using line_starts_prefix [of "take m s" "take (n - m) (drop m s)"] by auto
qed

lemma clamp_same_snapshot:
  assumes "selected_ok sel s" and "selected_ok sel' s'" and "sel_log_ref sel' = sel_log_ref sel"
    and "sel_device sel' = sel_device sel" and "sel_inode sel' = sel_inode sel"
    and "sel_snapshot_bytes sel \<le> sel_snapshot_bytes sel'" and "take (sel_snapshot_bytes sel) s' = snapshot sel s"
    and "cu_snapshot_bytes c = sel_snapshot_bytes sel" and "cu_snapshot_lines c = sel_lines sel"
  shows "\<exists>sel2. clamp_to_cursor_snapshot sel' (Some c) = Ok sel2 \<and> selected_ok sel2 s' \<and> alike sel sel2 \<and>
    snapshot sel2 s' = snapshot sel s"
proof -
  have lines: "sel_lines sel \<le> sel_lines sel'"
    using line_starts_mono [OF assms(6), of s'] assms(1,2,7) by (simp add: selected_ok_def)
  define sel2 where "sel2 = sel'\<lparr>sel_snapshot_bytes := sel_snapshot_bytes sel,
    sel_metadata := (sel_metadata sel')\<lparr>sm_bytes := of_nat (sel_snapshot_bytes sel), sm_lines := of_nat (sel_lines sel)\<rparr>\<rparr>"
  have "clamp_to_cursor_snapshot sel' (Some c) = Ok sel2"
    using assms(6,8,9) lines by (simp add: clamp_to_cursor_snapshot_def sel2_def)
  moreover have same: "sel_lines sel2 = sel_lines sel" "sel_snapshot_bytes sel2 = sel_snapshot_bytes sel"
      "sel_file sel2 = sel_file sel'" "sel_index sel2 = sel_index sel'"
    by (simp_all add: sel2_def)
  have "selected_ok sel2 s'" "snapshot sel2 s' = snapshot sel s"
    using assms(1,2,6,7) unfolding selected_ok_def same by auto
  moreover have "alike sel sel2"
    using assms(3-5) same unfolding alike_def by (simp add: sel2_def)
  ultimately show ?thesis
    by blast
qed

text \<open>Answering a request with a cursor of an earlier page comes down to the page of the same snapshot.\<close>

definition range_page ::
    "QueryEnv \<Rightarrow> LogQueryRequest \<Rightarrow> SelectedStream \<Rightarrow> string \<Rightarrow> nat \<Rightarrow> CursorPayload option
       \<Rightarrow> (LogQueryError, ContentResult) result" where
  "range_page qe request sel digest max_bytes cursor =
     (case (qo_line_start (rq_options request), qo_line_end (rq_options request)) of
        (Some configured_start, Some configured_end) \<Rightarrow>
          range_lines qe request sel digest max_bytes cursor configured_start configured_end
      | _ \<Rightarrow> range_bytes qe request sel digest max_bytes cursor)"

lemma first_page:
  assumes "select_stream run request False = Ok sel" and "query_digest qe request (rlm_run_id (ir_metadata run)) = Ok digest"
    and "qo_cursor (rq_options request) = None"
    and "validate_max_bytes (option_or (qo_max_bytes (rq_options request)) MAX_QUERY_CONTENT_BYTES) = Ok max_bytes"
  shows "query_range qe run request = range_page qe request sel digest max_bytes None"
  using assms by (simp add: query_range_def then_do_def content_cursor_def clamp_to_cursor_snapshot_def optb_def range_page_def)

lemma next_page:
  assumes "codec_ok (qe_codec qe)" and "selected_ok sel s" and "still_there request run_id sel s run"
    and "query_digest qe request run_id = Ok digest"
    and "validate_max_bytes (option_or (qo_max_bytes (rq_options request)) MAX_QUERY_CONTENT_BYTES) = Ok max_bytes"
    and "make_content_cursor qe request sel digest line byte = Ok c"
  shows "\<exists>sel2 s2. selected_ok sel2 s2 \<and> alike sel sel2 \<and> snapshot sel2 s2 = snapshot sel s \<and>
    query_range qe run (with_cursor request (Some c)) =
      range_page qe (with_cursor request (Some c)) sel2 digest max_bytes
        (Some (cursor_payload request sel digest (line, byte, 0, 0, None, 0)))"
proof -
  let ?c = "cursor_payload request sel digest (line, byte, 0, 0, None, 0)"
  obtain sel' s' where there: "select_stream run request True = Ok sel'" "selected_ok sel' s'"
      "sel_log_ref sel' = sel_log_ref sel" "sel_device sel' = sel_device sel" "sel_inode sel' = sel_inode sel"
      "sel_snapshot_bytes sel \<le> sel_snapshot_bytes sel'" "take (sel_snapshot_bytes sel) s' = snapshot sel s"
    and run: "rlm_run_id (ir_metadata run) = run_id"
    using assms(3) by (auto simp: still_there_def)
  have "decode_cursor (qe_codec qe) c = Ok ?c"
    using decode_encode_cursor(1) [OF assms(1)] assms(6)
    by (simp add: make_content_cursor_def make_content_cursor_with_state_def)
  moreover have "fl_len (sel_file sel') = Some (length s')" "sel_snapshot_bytes sel \<le> length s'"
    using there(2,6) holds_len by (auto simp: selected_ok_def)
  moreover have "sel_lines sel \<le> sel_lines sel'"
    using line_starts_mono [OF there(6), of s'] assms(2) there(2,7) by (simp add: selected_ok_def)
  ultimately have cursor: "content_cursor qe (with_cursor request (Some c)) sel' digest = Ok (Some ?c)"
    using there(3-5) by (simp add: content_cursor_def then_do_def cursor_payload_def)
  obtain sel2 where sel2: "clamp_to_cursor_snapshot sel' (Some ?c) = Ok sel2" "selected_ok sel2 s'" "alike sel sel2"
      "snapshot sel2 s' = snapshot sel s"
    using clamp_same_snapshot [OF assms(2) there(2-7), of ?c] by (auto simp: cursor_payload_def)
  have "query_range qe run (with_cursor request (Some c)) =
      range_page qe (with_cursor request (Some c)) sel2 digest max_bytes (Some ?c)"
    using there(1) run assms(4,5) cursor sel2(1)
    by (simp add: query_range_def then_do_def select_stream_options query_digest_cursor optb_def range_page_def
        cursor_payload_def)
  then show ?thesis
    using sel2 by blast
qed


section \<open>Following cursors\<close>

text \<open>
  The pages a client gets that repeats its request with the cursor of the last page until there is
  none; the store may have changed from one request to the next.
\<close>

fun follow ::
    "QueryEnv \<Rightarrow> (nat \<Rightarrow> InventoryRun) \<Rightarrow> LogQueryRequest \<Rightarrow> nat \<Rightarrow> nat \<Rightarrow> string option
       \<Rightarrow> (LogQueryError, ContentResult list) result option" where
  "follow qe runs request 0 i c = None"
| "follow qe runs request (Suc fuel) i c =
     (case query_range qe (runs i) (with_cursor request c) of
        Inl e \<Rightarrow> Some (Err e)
      | Inr page \<Rightarrow>
          (case cr_next_cursor page of
             None \<Rightarrow> Some (Ok [page])
           | Some c \<Rightarrow> map_option (\<lambda>r. then_do r (\<lambda>pages. Ok (page # pages))) (follow qe runs request fuel (Suc i) (Some c))))"

text \<open>The pages show consecutive chunks of the stream from a position on.\<close>

fun covers :: "(string \<Rightarrow> LogSegment \<Rightarrow> bool) \<Rightarrow> nat \<Rightarrow> string list \<Rightarrow> ContentResult list \<Rightarrow> bool" where
  "covers shown p [] [] = True"
| "covers shown p (chunk # chunks) (page # pages) =
     ((case cr_segments page of
         [sg] \<Rightarrow> sg_byte_start sg = p \<and> sg_byte_end sg = p + length chunk \<and> shown chunk sg
       | _ \<Rightarrow> False) \<and> covers shown (p + length chunk) chunks pages)"
| "covers shown p _ _ = False"

definition shown_as_base64 :: "string \<Rightarrow> LogSegment \<Rightarrow> bool" where
  "shown_as_base64 chunk sg \<longleftrightarrow> sg_base64 sg = Some (base64_standard_encode chunk)"

definition shown_as_text :: "string \<Rightarrow> LogSegment \<Rightarrow> bool" where
  "shown_as_text chunk sg \<longleftrightarrow> sg_text sg = Some (utf8_lossy chunk)"

text \<open>Every cursor into the snapshot can be encoded: its JSON stays within the bound of a cursor.\<close>

definition cursors_fit :: "QueryEnv \<Rightarrow> LogQueryRequest \<Rightarrow> SelectedStream \<Rightarrow> string \<Rightarrow> bool" where
  "cursors_fit qe request sel digest \<longleftrightarrow>
     (\<forall>line byte. line \<le> sel_lines sel \<longrightarrow> byte \<le> sel_snapshot_bytes sel \<longrightarrow>
        (\<exists>c. make_content_cursor qe request sel digest line byte = Ok c))"

lemma make_content_cursor_alike:
  "alike sel sel' \<Longrightarrow> make_content_cursor qe (with_cursor request c) sel' digest line byte =
     make_content_cursor qe request sel digest line byte"
  by (simp add: make_content_cursor_def make_content_cursor_with_state_def cursor_payload_alike)

section \<open>Ranges of bytes\<close>

lemma line_for_byte_total:
  assumes "selected_ok sel s"
  shows "\<exists>line start. line_for_byte sel target = Ok (line, start) \<and> line \<le> sel_lines sel"
proof (cases "sel_snapshot_bytes sel = 0")
  case True
  then show ?thesis
    by (simp add: line_for_byte_def)
next
  case False
  define t where "t = min target (sel_snapshot_bytes sel - 1)"
  have same: "line_for_byte sel target = line_for_byte sel t"
    by (simp add: line_for_byte_def t_def)
  have t: "t < sel_snapshot_bytes sel"
    using False by (simp add: t_def)
  then obtain start where "line_for_byte sel t = Ok (Suc (line_feeds (take t s)), start)"
    using line_for_byte_exact [OF assms] by blast
  moreover have "line_feeds (take t s) < sel_lines sel"
    using line_of_byte_bound [of t "snapshot sel s"] assms t by (simp add: selected_ok_def min_absorb1)
  ultimately show ?thesis
    using same by auto
qed

lemma range_bytes_page:
  assumes "selected_ok sel s" and "qo_byte_start (rq_options request) = Some a" and "qo_byte_end (rq_options request) = Some b"
    and "e = min b (sel_snapshot_bytes sel)" and "p = (case cursor of None \<Rightarrow> a | Some c \<Rightarrow> cu_byte_position c)" and "p \<le> e"
    and "k = min (min (e - p) max_bytes) MAX_BASE64_SOURCE_BYTES" and "chunk = take k (drop p (snapshot sel s))"
    and "\<And>line. line \<le> sel_lines sel \<Longrightarrow> \<exists>c. make_content_cursor qe request sel digest line (p + k) = Ok c"
  shows "\<exists>page line. range_bytes qe request sel digest max_bytes cursor = Ok page \<and> length chunk = k \<and>
    covers shown_as_base64 p [chunk] [page] \<and> line \<le> sel_lines sel \<and>
    (if p + k < e then \<exists>c. make_content_cursor qe request sel digest line (p + k) = Ok c \<and> cr_next_cursor page = Some c
     else cr_next_cursor page = None)"
proof -
  have disk: "holds (sel_file sel) s" "sel_snapshot_bytes sel \<le> length s"
    using assms(1) by (auto simp: selected_ok_def)
  have "k \<le> e - p" "e \<le> sel_snapshot_bytes sel"
    unfolding assms(7) by (auto simp: assms(4))
  then have inside: "p + k \<le> sel_snapshot_bytes sel"
    using assms(6) by linarith
  then have chunk: "chunk = take k (drop p s)" "length chunk = k"
    using disk(2) by (simp_all add: assms(8) drop_take min_absorb1)
  have read: "read_bytes (sel_file sel) p k = Ok chunk"
    using read_exact_ok [OF disk(1), of p k] inside disk(2) holds_seek [OF disk(1)] by (simp add: read_bytes_def chunk(1))
  obtain l1 s1 l2 s2 where lines: "line_for_byte sel p = Ok (l1, s1)" "line_for_byte sel (p + k - 1) = Ok (l2, s2)"
      "l2 \<le> sel_lines sel"
    using line_for_byte_total [OF assms(1)] by metis
  obtain c where c: "make_content_cursor qe request sel digest l2 (p + k) = Ok c"
    using assms(9) lines(3) by blast
  define page where "page = \<lparr>cr_segments = [\<lparr>sg_line_start = l1, sg_line_end = l2, sg_byte_start = p, sg_byte_end = p + k,
      sg_text = None, sg_base64 = Some (base64_standard_encode chunk), sg_rank = None, sg_fingerprint = None,
      sg_occurrences = None\<rparr>], cr_snapshot_bytes = sel_snapshot_bytes sel, cr_snapshot_lines = sel_lines sel,
    cr_next_cursor = (if p + k < e then Some c else None), cr_response_truncated = (p + k < e)\<rparr>"
  have start: "(case cursor of None \<Rightarrow> option_or (Some a) 0 | Some c \<Rightarrow> cu_byte_position c) = p"
    using assms(5) by (simp split: option.splits)
  have "range_bytes qe request sel digest max_bytes cursor = Ok page"
    unfolding range_bytes_def Let_def assms(2,3) start
    using assms(4,6) read lines(1,2) c
    by (simp add: assms(7) [symmetric] then_do_def chunk(2) cursor_if_def page_def flip: assms(4))
  then show ?thesis
    using chunk(2) lines(3) c by (auto simp: page_def shown_as_base64_def)
qed


text \<open>A request without a cursor, and a store that keeps the stream it selects.\<close>

definition paging ::
    "QueryEnv \<Rightarrow> (nat \<Rightarrow> InventoryRun) \<Rightarrow> LogQueryRequest \<Rightarrow> SelectedStream \<Rightarrow> string \<Rightarrow> string \<Rightarrow> nat \<Rightarrow> bool" where
  "paging qe runs request sel s digest max_bytes \<longleftrightarrow>
     codec_ok (qe_codec qe) \<and> selected_ok sel s \<and> select_stream (runs 0) request False = Ok sel \<and>
     query_digest qe request (rlm_run_id (ir_metadata (runs 0))) = Ok digest \<and> qo_cursor (rq_options request) = None \<and>
     validate_max_bytes (option_or (qo_max_bytes (rq_options request)) MAX_QUERY_CONTENT_BYTES) = Ok max_bytes \<and>
     (\<forall>i. still_there request (rlm_run_id (ir_metadata (runs 0))) sel s (runs i)) \<and> cursors_fit qe request sel digest"

lemma paging_max_bytes: "paging qe runs request sel s digest max_bytes \<Longrightarrow> 0 < max_bytes"
  by (auto simp: paging_def validate_max_bytes_def split: if_splits)

lemma paging_next:
  assumes "paging qe runs request sel s digest max_bytes" and "make_content_cursor qe request sel digest line byte = Ok c"
  shows "\<exists>sel2 s2. selected_ok sel2 s2 \<and> alike sel sel2 \<and> snapshot sel2 s2 = snapshot sel s \<and>
    query_range qe (runs i) (with_cursor request (Some c)) =
      range_page qe (with_cursor request (Some c)) sel2 digest max_bytes
        (Some (cursor_payload request sel digest (line, byte, 0, 0, None, 0)))"
  using next_page [of qe sel s request "rlm_run_id (ir_metadata (runs 0))" "runs i" digest max_bytes line byte c] assms
  by (auto simp: paging_def)

lemma with_cursor_None: "qo_cursor (rq_options request) = None \<Longrightarrow> with_cursor request None = request"
  by simp

lemma paging_first:
  assumes "paging qe runs request sel s digest max_bytes"
  shows "query_range qe (runs 0) (with_cursor request None) = range_page qe request sel digest max_bytes None"
proof -
  have same: "with_cursor request None = request"
    using assms by (intro with_cursor_None) (simp add: paging_def)
  show ?thesis
    unfolding same using first_page [of "runs 0" request sel qe digest max_bytes] assms by (simp add: paging_def)
qed

text \<open>A request of the client that reads from the snapshot of the first page.\<close>

definition asks ::
    "QueryEnv \<Rightarrow> InventoryRun \<Rightarrow> LogQueryRequest \<Rightarrow> SelectedStream \<Rightarrow> string \<Rightarrow> string \<Rightarrow> nat \<Rightarrow> string option
       \<Rightarrow> CursorPayload option \<Rightarrow> bool" where
  "asks qe run request sel s digest max_bytes c cursor \<longleftrightarrow>
     (\<exists>sel2 s2. selected_ok sel2 s2 \<and> alike sel sel2 \<and> snapshot sel2 s2 = snapshot sel s \<and>
        query_range qe run (with_cursor request c) = range_page qe (with_cursor request c) sel2 digest max_bytes cursor)"

lemma asks_first:
  assumes "paging qe runs request sel s digest max_bytes"
  shows "asks qe (runs 0) request sel s digest max_bytes None None"
proof -
  have same: "with_cursor request None = request"
    using assms by (intro with_cursor_None) (simp add: paging_def)
  have "selected_ok sel s" "alike sel sel"
    using assms by (simp_all add: paging_def alike_def)
  then show ?thesis
    using paging_first [OF assms] unfolding asks_def same by blast
qed

lemma asks_next:
  assumes "paging qe runs request sel s digest max_bytes" and "make_content_cursor qe request sel digest line byte = Ok c"
  shows "asks qe (runs i) request sel s digest max_bytes (Some c)
    (Some (cursor_payload request sel digest (line, byte, 0, 0, None, 0)))"
  unfolding asks_def using paging_next [OF assms] by blast

text \<open>A page that is not the last one, and the pages that follow it.\<close>

lemma follow_step:
  assumes "query_range qe (runs i) (with_cursor request c) = Ok page" and "covers shown p [chunk] [page]"
    and "cr_next_cursor page = Some c'" and "follow qe runs request fuel (Suc i) (Some c') = Some (Ok pages)"
    and "covers shown (p + length chunk) chunks pages"
  shows "follow qe runs request (Suc fuel) i c = Some (Ok (page # pages))" and "covers shown p (chunk # chunks) (page # pages)"
  using assms by (auto simp: then_do_def split: list.splits)

lemma take_chunk: "k \<le> e - p \<Longrightarrow> drop p (take e t) = take k (drop p t) @ drop (p + k) (take e t)"
proof -
  assume "k \<le> e - p"
  then have "take k (drop p (take e t)) = take k (drop p t)"
    by (simp add: drop_take min_absorb1)
  then show ?thesis
    by (metis add.commute append_take_drop_id drop_drop)
qed

lemma follow_bytes:
  assumes "paging qe runs request sel s digest max_bytes"
    and "qo_line_start (rq_options request) = None" and "qo_byte_start (rq_options request) = Some a"
    and "qo_byte_end (rq_options request) = Some b" and "e = min b (sel_snapshot_bytes sel)"
    and "asks qe (runs i) request sel s digest max_bytes c cursor"
    and "p = (case cursor of None \<Rightarrow> a | Some c \<Rightarrow> cu_byte_position c)" and "p \<le> e" and "e - p < fuel"
  shows "\<exists>pages chunks. follow qe runs request fuel i c = Some (Ok pages) \<and> covers shown_as_base64 p chunks pages \<and>
    concat chunks = drop p (take e (snapshot sel s))"
  using assms(6-9)
proof (induction fuel arbitrary: p i c cursor)
  case (Suc fuel)
  obtain sel2 s2 where sel2: "selected_ok sel2 s2" "alike sel sel2" "snapshot sel2 s2 = snapshot sel s" and
    query: "query_range qe (runs i) (with_cursor request c) = range_page qe (with_cursor request c) sel2 digest max_bytes cursor"
    using Suc.prems(1) by (auto simp: asks_def)
  define k where "k = min (min (e - p) max_bytes) MAX_BASE64_SOURCE_BYTES"
  have k: "k \<le> e - p" "0 < k \<or> p = e" "p + k \<le> sel_snapshot_bytes sel"
    using paging_max_bytes [OF assms(1)] Suc.prems(3) assms(5)
    by (auto simp: k_def MAX_BASE64_SOURCE_BYTES_def min_def split: if_splits)
  have fit: "\<exists>c'. make_content_cursor qe (with_cursor request c) sel2 digest l (p + k) = Ok c'"
    if "l \<le> sel_lines sel2" for l
    using assms(1) that k(3) sel2(2) make_content_cursor_alike [OF sel2(2)]
    by (auto simp: paging_def cursors_fit_def alike_def)
  have size: "e = min b (sel_snapshot_bytes sel2)"
    using sel2(2) assms(5) by (simp add: alike_def)
  obtain page l where page: "query_range qe (runs i) (with_cursor request c) = Ok page" and
      shown: "covers shown_as_base64 p [take k (drop p (snapshot sel s))] [page]"
        "length (take k (drop p (snapshot sel s))) = k" and
      continue: "if p + k < e then \<exists>c'. make_content_cursor qe request sel digest l (p + k) = Ok c' \<and> cr_next_cursor page = Some c'
        else cr_next_cursor page = None"
    using range_bytes_page [OF sel2(1) _ _ size Suc.prems(2,3) k_def refl fit] assms(2-4)
    by (auto simp: query range_page_def sel2(3) make_content_cursor_alike [OF sel2(2)] split: if_splits)
  have part: "drop p (take e (snapshot sel s)) = take k (drop p (snapshot sel s)) @ drop (p + k) (take e (snapshot sel s))"
    using k(1) by (rule take_chunk)
  show ?case
  proof (cases "p + k < e")
    case True
    then obtain c' where c': "make_content_cursor qe request sel digest l (p + k) = Ok c'" "cr_next_cursor page = Some c'"
      using continue by auto
    have "e - (p + k) < fuel"
      using True k(2) Suc.prems(4) by linarith
    then obtain pages chunks where rest: "follow qe runs request fuel (Suc i) (Some c') = Some (Ok pages)"
        "covers shown_as_base64 (p + k) chunks pages" "concat chunks = drop (p + k) (take e (snapshot sel s))"
      using Suc.IH [OF asks_next [OF assms(1) c'(1), of "Suc i"], of "p + k"] True by (auto simp: cursor_payload_def)
    show ?thesis
      using follow_step [OF page shown(1) c'(2) rest(1)] rest(2,3) part shown(2)
      by (intro exI [of _ "page # pages"] exI [of _ "take k (drop p (snapshot sel s)) # chunks"]) simp
  next
    case False
    then have "drop (p + k) (take e (snapshot sel s)) = []"
      by simp
    then show ?thesis
      using False continue page shown(1) part
      by (intro exI [of _ "[page]"] exI [of _ "[take k (drop p (snapshot sel s))]"]) simp
  qed
qed simp

text \<open>
  A client that follows the cursors of a range of bytes gets finitely
  many pages, which hold consecutive chunks of the stream from the first byte asked for, each as the
  base64 of its bytes, and together exactly the bytes of the range within the snapshot of the first
  page.  This holds while the stream grows between the requests.
\<close>

theorem byte_range_pages_complete:
  assumes "paging qe runs request sel s digest max_bytes"
    and "qo_line_start (rq_options request) = None" and "qo_byte_start (rq_options request) = Some a"
    and "qo_byte_end (rq_options request) = Some b" and "e = min b (sel_snapshot_bytes sel)" and "a \<le> e"
  shows "\<exists>pages chunks. follow qe runs request (Suc (e - a)) 0 None = Some (Ok pages) \<and>
    covers shown_as_base64 a chunks pages \<and> concat chunks = drop a (take e s)"
proof -
  have "take e (snapshot sel s) = take e s"
    using assms(5) by (simp add: min_absorb1)
  then show ?thesis
    using follow_bytes [OF assms(1-5) asks_first [OF assms(1)] _ assms(6), of "Suc (e - a)"] by simp
qed

section \<open>Ranges of lines\<close>

lemma take_lines_drop:
  "m \<le> length (take_lines k t) \<Longrightarrow> drop m (take_lines k t) = take_lines (k - line_feeds (take m t)) (drop m t)"
proof (induction k t arbitrary: m rule: take_lines.induct)
  case (3 k c cs)
  show ?case
  proof (cases m)
    case (Suc n)
    then show ?thesis
      using 3 by (cases "c = CHR 0x0A") auto
  qed simp
qed auto

lemma take_lines_prefix: "prefix (take_lines k t) t"
  by (induction k t rule: take_lines.induct) auto

lemma take_lines_feeds: "m < length (take_lines k t) \<Longrightarrow> line_feeds (take m t) < k"
proof (induction k t arbitrary: m rule: take_lines.induct)
  case (3 k c cs)
  then show ?case
    by (cases m; cases "c = CHR 0x0A") auto
qed auto

lemma take_lines_nonempty: "0 < k \<Longrightarrow> t \<noteq> [] \<Longrightarrow> take_lines k t \<noteq> []"
  by (cases k; cases t) auto


text \<open>Where a page of lines starts: in the line \<open>line\<close>, at the position \<open>p\<close>.\<close>

definition line_state :: "string \<Rightarrow> CursorPayload option \<Rightarrow> nat \<Rightarrow> nat \<Rightarrow> nat \<Rightarrow> bool" where
  "line_state t cursor a line p \<longleftrightarrow> p < length t \<and> line = Suc (line_feeds (take p t)) \<and>
     (case cursor of
        None \<Rightarrow> line = a \<and> at_start (take p t)
      | Some c \<Rightarrow> cu_position c = line \<and>
          (if cu_byte_position c = 0 then at_start (take p t) else cu_byte_position c = p))"

lemma lines_cut:
  assumes "p < length t" and "line = Suc (line_feeds (take p t))" and "whole = take_lines (Suc final - line) (drop p t)"
    and "whole = part @ rest" and "part \<noteq> []" and "rest \<noteq> []"
  shows "take (p + length part) t = take p t @ part" and "p + length part < length t"
    and "line_feeds part < Suc final - line"
    and "rest = take_lines (Suc final - (line + line_feeds part)) (drop (p + length part) t)"
proof -
  obtain more where more: "drop p t = whole @ more"
    using take_lines_prefix [of "Suc final - line" "drop p t"] assms(3) by (auto simp: prefix_def)
  then have seen: "take (length part) (drop p t) = part"
    using assms(4) by simp
  then show "take (p + length part) t = take p t @ part"
    by (simp add: take_add)
  have "length (drop p t) = length part + length rest + length more"
    using more assms(4) by simp
  moreover have "0 < length rest"
    using assms(6) by (cases rest) simp_all
  ultimately show "p + length part < length t"
    using assms(1) unfolding length_drop by linarith
  have short: "length part < length whole"
    using assms(4,6) by simp
  then show feeds: "line_feeds part < Suc final - line"
    using take_lines_feeds [of "length part" "Suc final - line" "drop p t"] assms(3) seen by simp
  have "rest = drop (length part) whole"
    using assms(4) by simp
  also have "\<dots> = take_lines (Suc final - line - line_feeds part) (drop (length part) (drop p t))"
    using take_lines_drop [of "length part" "Suc final - line" "drop p t"] short assms(3) seen by simp
  finally show "rest = take_lines (Suc final - (line + line_feeds part)) (drop (p + length part) t)"
    by (simp add: add.commute)
qed

lemma range_lines_read:
  assumes "(case cursor of None \<Rightarrow> a | Some c \<Rightarrow> cu_position c) = line" and "line \<le> sel_lines sel"
    and "(case cursor of None \<Rightarrow> None
           | Some c \<Rightarrow> if 0 < cu_byte_position c then Some (cu_byte_position c) else None) = override"
    and "read_line_interval_from sel line (min b (sel_lines sel)) max_bytes override = Ok read"
    and "cursor_if (rd_truncated read \<and> next_line read \<le> min b (sel_lines sel))
           (make_content_cursor qe request sel digest (next_line read) (if ended_mid_line read then rd_byte_end read else 0)) = Ok nx"
  shows "range_lines qe request sel digest max_bytes cursor a b =
    Ok \<lparr>cr_segments = [segment_of read], cr_snapshot_bytes = sel_snapshot_bytes sel, cr_snapshot_lines = sel_lines sel,
        cr_next_cursor = nx, cr_response_truncated = rd_truncated read\<rparr>"
  unfolding range_lines_def assms(1,3) Let_def using assms(2,4,5) by (simp add: then_do_def)

text \<open>The read that answers a page of lines.\<close>

definition lines_read :: "nat \<Rightarrow> nat \<Rightarrow> nat \<Rightarrow> string \<Rightarrow> string \<Rightarrow> LineRead" where
  "lines_read line final p part rest = \<lparr>rd_line_start = line, rd_line_end = min (line + line_feeds (butlast part)) final,
     rd_byte_start = p, rd_byte_end = p + length part, rd_bytes = part, rd_truncated = (rest \<noteq> [])\<rparr>"

lemma line_state_read:
  assumes "selected_ok sel s" and "t = snapshot sel s" and "line_state t cursor a line p" and "0 < max_bytes"
    and "line \<le> final" and "take_lines (Suc final - line) (drop p t) = part @ rest"
    and "part = take (min max_bytes MAX_TEXT_BYTES) (part @ rest)"
    and "override = (case cursor of None \<Rightarrow> None
           | Some c \<Rightarrow> if 0 < cu_byte_position c then Some (cu_byte_position c) else None)"
  shows "read_line_interval_from sel line final max_bytes override = Ok (lines_read line final p part rest)"
proof -
  have p: "p < length t" "line = Suc (line_feeds (take p t))"
    using assms(3) by (auto simp: line_state_def)
  have bound: "p \<le> sel_snapshot_bytes sel"
    using p(1) assms(2) by simp
  have line: "0 < line" "line \<le> length (line_starts t)" "line - 1 = line_feeds (take p t)"
    using line_of_byte_bound [OF p(1)] p(2) by auto
  have natural: "line_starts t ! (line - 1) \<le> p"
    using line_start_before [OF p(1)] line(3) by simp
  have at: "line_starts t ! (line - 1) = p" if "at_start (take p t)"
    by (rule line_starts_eqI) (use that line p(1) in auto)
  have from_p: "p = (case override of None \<Rightarrow> line_starts t ! (line - 1) | Some q \<Rightarrow> q)"
    using assms(3) at by (auto simp: assms(8) line_state_def split: option.splits if_splits)
  have longer: "(rest \<noteq> []) = (length part < length (part @ rest))"
    by simp
  show ?thesis
    unfolding lines_read_def longer
    apply (rule line_interval_read [OF assms(1) line(1) _ assms(5,4) _ _ bound _ assms(7)])
    subgoal using line(2) unfolding assms(2) by this
    subgoal using from_p unfolding assms(2) by this
    subgoal using natural unfolding assms(2) by this
    subgoal using assms(6) unfolding assms(2) by (rule sym)
    done
qed


text \<open>A page of lines, and where the next one starts.\<close>

lemma lines_page:
  assumes "selected_ok sel s" and "t = snapshot sel s" and "line_state t cursor a line p" and "0 < max_bytes"
    and "final = min b (sel_lines sel)" and "line \<le> final"
    and "take_lines (Suc final - line) (drop p t) = part @ rest" and "part \<noteq> []"
    and "part = take (min max_bytes MAX_TEXT_BYTES) (part @ rest)" and "line2 = line + line_feeds part"
    and "byte2 = (if last part = CHR 0x0A then 0 else p + length part)"
    and "rest \<noteq> [] \<Longrightarrow> make_content_cursor qe request sel digest line2 byte2 = Ok c2"
  shows "range_lines qe request sel digest max_bytes cursor a b =
    Ok \<lparr>cr_segments = [segment_of (lines_read line final p part rest)], cr_snapshot_bytes = sel_snapshot_bytes sel,
        cr_snapshot_lines = sel_lines sel, cr_next_cursor = (if rest \<noteq> [] then Some c2 else None),
        cr_response_truncated = (rest \<noteq> [])\<rparr>"
proof -
  let ?read = "lines_read line final p part rest"
  have p: "p < length t" "line = Suc (line_feeds (take p t))"
    using assms(3) by (auto simp: line_state_def)
  obtain before c where split: "part = before @ [c]"
    using assms(8) by (metis rev_exhaust)
  have more: "next_line ?read = line2" "line2 \<le> final" "(if ended_mid_line ?read then rd_byte_end ?read else 0) = byte2"
    if "rest \<noteq> []"
  proof -
    have feeds: "line_feeds part < Suc final - line"
      using lines_cut(3) [OF p assms(7) [symmetric] refl assms(8) that] by simp
    then show "line2 \<le> final"
      using assms(10) by simp
    have "line + line_feeds before \<le> final"
      using feeds split by (simp split: if_splits)
    then show "next_line ?read = line2" "(if ended_mid_line ?read then rd_byte_end ?read else 0) = byte2"
      using that split assms(10,11) by (simp_all add: next_line_def ended_mid_line_def lines_read_def min_absorb1)
  qed
  have next_cursor: "cursor_if (rd_truncated ?read \<and> next_line ?read \<le> min b (sel_lines sel))
      (make_content_cursor qe request sel digest (next_line ?read) (if ended_mid_line ?read then rd_byte_end ?read else 0)) =
      Ok (if rest \<noteq> [] then Some c2 else None)"
  proof (cases "rest = []")
    case True
    then have "\<not> rd_truncated ?read"
      by (simp add: lines_read_def)
    then show ?thesis
      using True by (simp add: cursor_if_def)
  next
    case False
    then have "rd_truncated ?read"
      by (simp add: lines_read_def)
    then show ?thesis
      unfolding more(1,3) [OF False] using False more(2) assms(5,12) by (simp add: cursor_if_def then_do_def)
  qed
  have start: "(case cursor of None \<Rightarrow> a | Some c \<Rightarrow> cu_position c) = line"
    using assms(3) by (auto simp: line_state_def split: option.splits)
  have "rd_truncated ?read = (rest \<noteq> [])"
    by (simp add: lines_read_def)
  moreover have "line \<le> sel_lines sel"
    using assms(5,6) by simp
  ultimately show ?thesis
    using range_lines_read [OF start _ refl _ next_cursor] line_state_read [OF assms(1-4,6,7,9) refl] assms(5) by simp
qed

lemma lines_next:
  assumes "line_state t cursor a line p" and "take_lines (Suc final - line) (drop p t) = part @ rest"
    and "part \<noteq> []" and "rest \<noteq> []" and "cu_position c = line + line_feeds part"
    and "cu_byte_position c = (if last part = CHR 0x0A then 0 else p + length part)"
  shows "line_state t (Some c) a (line + line_feeds part) (p + length part)"
    and "take_lines (Suc final - (line + line_feeds part)) (drop (p + length part) t) = rest"
    and "line + line_feeds part \<le> final" and "p + length part < length t"
proof -
  have p: "p < length t" "line = Suc (line_feeds (take p t))"
    using assms(1) by (auto simp: line_state_def)
  note cut = lines_cut [OF p assms(2) [symmetric] refl assms(3,4)]
  show "take_lines (Suc final - (line + line_feeds part)) (drop (p + length part) t) = rest"
    using cut(4) by (rule sym)
  show "line + line_feeds part \<le> final"
    using cut(3) by simp
  show inside: "p + length part < length t"
    by (rule cut(2))
  have "at_start (take p t @ part)" if "last part = CHR 0x0A"
    using that assms(3) by (auto simp: at_start_def)
  moreover have "0 < p + length part"
    using assms(3) by simp
  ultimately show "line_state t (Some c) a (line + line_feeds part) (p + length part)"
    using inside assms(3,5,6) p(2) by (simp add: line_state_def cut(1))
qed


lemma follow_lines:
  assumes "paging qe runs request sel s digest max_bytes" and "t = snapshot sel s"
    and "qo_line_start (rq_options request) = Some a" and "qo_line_end (rq_options request) = Some b"
    and "final = min b (sel_lines sel)"
    and "asks qe (runs i) request sel s digest max_bytes c cursor" and "line_state t cursor a line p" and "line \<le> final"
    and "length t - p < fuel"
  shows "\<exists>pages chunks. follow qe runs request fuel i c = Some (Ok pages) \<and> covers shown_as_text p chunks pages \<and>
    concat chunks = take_lines (Suc final - line) (drop p t)"
  using assms(6-9)
proof (induction fuel arbitrary: i c cursor line p)
  case (Suc fuel)
  obtain sel2 s2 where sel2: "selected_ok sel2 s2" "alike sel sel2" "snapshot sel2 s2 = t" and
    query: "query_range qe (runs i) (with_cursor request c) = range_page qe (with_cursor request c) sel2 digest max_bytes cursor"
    using Suc.prems(1) assms(2) by (auto simp: asks_def)
  have final2: "final = min b (sel_lines sel2)"
    using assms(5) sel2(2) by (simp add: alike_def)
  have p: "p < length t"
    using Suc.prems(2) by (simp add: line_state_def)
  define whole where "whole = take_lines (Suc final - line) (drop p t)"
  define part where "part = take (min max_bytes MAX_TEXT_BYTES) whole"
  define rest where "rest = drop (min max_bytes MAX_TEXT_BYTES) whole"
  have cut: "take_lines (Suc final - line) (drop p t) = part @ rest" "part = take (min max_bytes MAX_TEXT_BYTES) (part @ rest)"
    by (simp_all add: part_def rest_def flip: whole_def)
  have "whole \<noteq> []"
    using p Suc.prems(3) by (simp add: whole_def take_lines_nonempty)
  then have part: "part \<noteq> []"
    using paging_max_bytes [OF assms(1)] by (simp add: part_def MAX_TEXT_BYTES_def)
  define line2 where "line2 = line + line_feeds part"
  define byte2 where "byte2 = (if last part = CHR 0x0A then 0 else p + length part)"
  define c2 where "c2 = (case make_content_cursor qe request sel digest line2 byte2 of Inr c \<Rightarrow> c | Inl _ \<Rightarrow> [])"
  define payload where "payload = cursor_payload request sel digest (line2, byte2, 0, 0, None, 0)"
  have state: "cu_position payload = line2" "cu_byte_position payload = byte2"
    by (simp_all add: payload_def cursor_payload_def)
  note further = lines_next [OF Suc.prems(2) cut(1) part _ state [unfolded line2_def byte2_def], folded line2_def]
  have c2: "make_content_cursor qe request sel digest line2 byte2 = Ok c2" if "rest \<noteq> []"
  proof -
    have "line2 \<le> sel_lines sel" "byte2 \<le> sel_snapshot_bytes sel"
      using further(3,4) [OF that] assms(2,5) by (simp_all add: byte2_def)
    then show ?thesis
      using assms(1) by (auto simp: paging_def cursors_fit_def c2_def dest!: spec)
  qed
  obtain page where page: "query_range qe (runs i) (with_cursor request c) = Ok page"
      "cr_next_cursor page = (if rest \<noteq> [] then Some c2 else None)" "covers shown_as_text p [part] [page]"
    using lines_page [OF sel2(1) sel2(3) [symmetric] Suc.prems(2) paging_max_bytes [OF assms(1)] final2 Suc.prems(3) cut(1) part
        cut(2) line2_def byte2_def, of qe "with_cursor request c" digest c2] c2 assms(3,4)
    by (auto simp: query range_page_def make_content_cursor_alike [OF sel2(2)] segment_of_def lines_read_def shown_as_text_def)
  show ?case
  proof (cases "rest = []")
    case True
    then show ?thesis
      using page cut(1) by (intro exI [of _ "[page]"] exI [of _ "[part]"]) simp
  next
    case False
    have "length t - (p + length part) < fuel"
      using Suc.prems(4) p part by (cases part) auto
    then obtain pages chunks where later: "follow qe runs request fuel (Suc i) (Some c2) = Some (Ok pages)"
        "covers shown_as_text (p + length part) chunks pages" "concat chunks = rest"
      using Suc.IH [OF asks_next [OF assms(1) c2 [OF False], of "Suc i", folded payload_def] further(1) [OF False] further(3) [OF False]] further(2) [OF False]
      by auto
    have follows: "cr_next_cursor page = Some c2"
      using page(2) False by simp
    show ?thesis
      using follow_step [OF page(1,3) follows later(1,2)] cut(1) later(3)
      by (intro exI [of _ "page # pages"] exI [of _ "part # chunks"]) simp
  qed
qed simp

text \<open>
  A client that follows the cursors of a range of lines gets finitely
  many pages, which hold consecutive pieces of the stream from the start of the first line asked
  for, and together exactly the text of these lines within the snapshot of the first page, also when
  a line is longer than a page and is cut between two of them.  This holds while the stream grows
  between the requests.
\<close>

theorem line_range_pages_complete:
  assumes "paging qe runs request sel s digest max_bytes" and "t = take (sel_snapshot_bytes sel) s"
    and "qo_line_start (rq_options request) = Some a" and "qo_line_end (rq_options request) = Some b"
    and "final = min b (sel_lines sel)" and "0 < a" and "a \<le> final" and "p = line_starts t ! (a - 1)"
  shows "\<exists>pages chunks. follow qe runs request (Suc (length t)) 0 None = Some (Ok pages) \<and>
    covers shown_as_text p chunks pages \<and> concat chunks = take_lines (Suc final - a) (drop p t)"
proof -
  have "sel_lines sel = length (line_starts t)"
    using assms(1,2) by (simp add: paging_def selected_ok_def)
  then have "a - 1 < length (line_starts t)"
    using assms(5-7) by linarith
  from line_starts_nth [OF this] have "line_state t None a a p"
    using assms(6) by (auto simp: line_state_def assms(8))
  then show ?thesis
    using follow_lines [OF assms(1-5) asks_first [OF assms(1)] _ assms(7), of p "Suc (length t)"] by simp
qed

section \<open>A stream that grows\<close>

text \<open>The log of an executor that has written two lines when it is asked for, and more before the second request.\<close>

definition executor_run :: "string \<Rightarrow> InventoryRun" where
  "executor_run s =
     \<lparr>ir_metadata = \<lparr>rlm_schema = 2, rlm_run_id = ''run-1'', rlm_test = ''unit'', rlm_started_at_epoch_ms = 1,
        rlm_finished_at_epoch_ms = None, rlm_status = RunStatus.Running, rlm_complete = False\<rparr>,
      ir_active = True, ir_leaves = [], ir_directory = Some (\<lambda>parts name. Ok (slow_file s)),
      ir_directory_identity = (1, 3),
      ir_executor_streams = [(LogStream.Stdout, \<lparr>us_bytes = of_nat (length s), us_lines = of_nat (length (line_starts s)),
        us_device = 1, us_inode = 2, us_sha256 = []\<rparr>)]\<rparr>"

definition growing :: "nat \<Rightarrow> InventoryRun" where
  "growing i = executor_run (if i = 0 then two_lines else two_lines @ ''ing'')"

definition range_request :: LogQueryRequest where
  "range_request =
     \<lparr>rq_schema = 2, rq_operation = Range, rq_repository_id = ''r0123456789abcdef'',
      rq_selector = \<lparr>qs_run_id = None, qs_check = None, qs_phase = Some LogPhase.Executor, qs_case_id = None,
        qs_stream = Some LogStream.Stdout\<rparr>,
      rq_options = \<lparr>qo_cursor = None, qo_limit = None, qo_lines = None, qo_max_bytes = Some 2, qo_text = None,
        qo_max_matches = None, qo_context_lines = None, qo_line_start = Some 1, qo_line_end = Some 9, qo_byte_start = None,
        qo_byte_end = None, qo_max_age_seconds = None, qo_case_depth = None\<rparr>\<rparr>"

definition executor_selected :: "string \<Rightarrow> SelectedStream" where
  "executor_selected s =
     (let selector = \<lparr>ls_check = None, ls_phase = LogPhase.Executor, ls_case_id = None\<rparr>
      in \<lparr>sel_log_ref = log_ref ''run-1'' selector LogStream.Stdout,
          sel_metadata = \<lparr>sm_selector = selector, sm_stream = LogStream.Stdout, sm_bytes = of_nat (length s),
            sm_lines = of_nat (length (line_starts s)), sm_first_write_epoch_ms = None, sm_last_write_epoch_ms = None,
            sm_complete = False, sm_sha256 = []\<rparr>,
          sel_file = slow_file s, sel_index = None, sel_device = 1, sel_inode = 2, sel_snapshot_bytes = length s\<rparr>)"

definition paging_env :: QueryEnv where
  "paging_env = \<lparr>qe_codec = position_codec
       (cursor_payload range_request (executor_selected two_lines) (lower_hex ''sum'') (0, 0, 0, 0, None, 0)),
     qe_request_json = (\<lambda>request. Some ''request''), qe_search_size = (\<lambda>result. Some 0)\<rparr>"

lemma range_request_valid: "validate_query_request range_request = Ok ()"
  by code_simp

lemma two_lines_length: "length two_lines = 6"
  by (simp add: two_lines_def)

lemma longer_starts: "line_starts (two_lines @ ''ing'') = [0, 3]"
  by (simp add: line_starts_def two_lines_def upt_rec)

lemma executor_selector:
  "LeafSelector_new None LogPhase.Executor None = Ok \<lparr>ls_check = None, ls_phase = LogPhase.Executor, ls_case_id = None\<rparr>"
  by code_simp

lemma executor_select:
  assumes "length s < 2 ^ 64"
  shows "select_stream (executor_run s) range_request missing = Ok (executor_selected s)"
proof -
  have asked: "qs_phase (rq_selector range_request) = Some LogPhase.Executor" "qs_stream (rq_selector range_request) = Some LogStream.Stdout"
      "qs_check (rq_selector range_request) = None" "qs_case_id (rq_selector range_request) = None"
    by (simp_all add: range_request_def)
  have opened: "run_open (executor_run s) [''executor''] name = Ok (slow_file s)" for name
    by (simp add: run_open_def executor_run_def)
  have stored: "map_of (ir_executor_streams (executor_run s)) LogStream.Stdout = Some \<lparr>us_bytes = of_nat (length s),
      us_lines = of_nat (length (line_starts s)), us_device = 1, us_inode = 2, us_sha256 = []\<rparr>"
    by (simp add: executor_run_def)
  have meta: "rlm_run_id (ir_metadata (executor_run s)) = ''run-1''" "\<not> rlm_complete (ir_metadata (executor_run s))"
    by (simp_all add: executor_run_def)
  show ?thesis
    unfolding select_stream_def asked prod.case option.case executor_selector sum.case stored opened
    using assms by (simp add: meta executor_selected_def Let_def unat_of_nat take_bit_nat_eq_self)
qed

lemma executor_selected_ok: "length s < 2 ^ 64 \<Longrightarrow> length (line_starts s) < 2 ^ 64 \<Longrightarrow> selected_ok (executor_selected s) s"
  by (simp add: selected_ok_def executor_selected_def Let_def slow_file_holds unat_of_nat take_bit_nat_eq_self)

lemma length_unpadded: "length (unpadded bytes) \<le> 2 * length bytes"
  by (induction bytes rule: unpadded.induct) simp_all

lemma paging_cursors_fit: "cursors_fit paging_env range_request (executor_selected two_lines) (lower_hex ''sum'')"
  unfolding cursors_fit_def
proof (intro allI impI)
  fix line byte
  assume line: "line \<le> sel_lines (executor_selected two_lines)" and byte: "byte \<le> sel_snapshot_bytes (executor_selected two_lines)"
  let ?text = "replicate line (CHR ''p'') @ replicate byte (CHR ''b'')"
  have "length ?text \<le> 8"
    using line byte by (simp add: executor_selected_def Let_def two_lines_starts two_lines_length)
  then have "length (unpadded ?text) \<le> 16"
    using length_unpadded [of ?text] by linarith
  moreover have "length (unpadded ''sum'') = 4"
    by simp
  ultimately have fits: "length (unpadded ?text) + length (unpadded ''sum'') < MAX_CURSOR_BYTES"
    unfolding MAX_CURSOR_BYTES_def by linarith
  show "\<exists>c. make_content_cursor paging_env range_request (executor_selected two_lines) (lower_hex ''sum'') line byte = Ok c"
    using fits
    by (simp add: make_content_cursor_def make_content_cursor_with_state_def encode_cursor_def paging_env_def position_codec_def
        cursor_payload_def cursor_checksum_def base64_url_encode_unpadded Let_def del: unpadded.simps)
qed

lemma growing_paging: "paging paging_env growing range_request (executor_selected two_lines) two_lines (lower_hex ''sum'') 2"
proof -
  let ?sel = "executor_selected two_lines"
  have ok: "selected_ok ?sel two_lines" "selected_ok (executor_selected (two_lines @ ''ing'')) (two_lines @ ''ing'')"
    by (rule executor_selected_ok; simp add: two_lines_length two_lines_starts longer_starts)+
  have "still_there range_request ''run-1'' ?sel two_lines (growing i)" for i
  proof -
    define s where "s = (if i = 0 then two_lines else two_lines @ ''ing'')"
    have "selected_ok (executor_selected s) s" "length s < 2 ^ 64"
      using ok by (simp_all add: s_def two_lines_length)
    moreover have "take 6 s = two_lines" "6 \<le> length s"
      by (simp_all add: s_def two_lines_length)
    ultimately have "select_stream (growing i) range_request True = Ok (executor_selected s) \<and> selected_ok (executor_selected s) s \<and>
        sel_log_ref (executor_selected s) = sel_log_ref ?sel \<and> sel_device (executor_selected s) = sel_device ?sel \<and>
        sel_inode (executor_selected s) = sel_inode ?sel \<and> sel_snapshot_bytes ?sel \<le> sel_snapshot_bytes (executor_selected s) \<and>
        take (sel_snapshot_bytes ?sel) s = snapshot ?sel two_lines"
      using executor_select [of s True]
      by (simp add: growing_def s_def [symmetric]) (simp add: executor_selected_def Let_def two_lines_length)
    then show ?thesis
      unfolding still_there_def by (auto simp: growing_def executor_run_def)
  qed
  moreover have "rlm_run_id (ir_metadata (growing 0)) = ''run-1''"
    by (simp add: growing_def executor_run_def)
  moreover have "select_stream (growing 0) range_request False = Ok ?sel"
    by (simp add: growing_def executor_select two_lines_length)
  moreover have "query_digest paging_env range_request ''run-1'' = Ok (lower_hex ''sum'')"
    by (simp add: query_digest_def paging_env_def position_codec_def)
  moreover have "qo_cursor (rq_options range_request) = None"
      "validate_max_bytes (option_or (qo_max_bytes (rq_options range_request)) MAX_QUERY_CONTENT_BYTES) = Ok 2"
    by (simp_all add: range_request_def validate_max_bytes_def MAX_QUERY_CONTENT_BYTES_def)
  moreover have "codec_ok (qe_codec paging_env)"
    by (simp add: paging_env_def position_codec_ok)
  ultimately show ?thesis
    unfolding paging_def using ok(1) paging_cursors_fit by simp
qed

text \<open>Pages of two bytes give the two lines that were there at the first request, and nothing of what came later.\<close>

theorem line_range_pages_complete_witness:
  "\<exists>pages chunks. follow paging_env growing range_request 7 0 None = Some (Ok pages) \<and>
     covers shown_as_text 0 chunks pages \<and> concat chunks = two_lines"
proof -
  have sel: "sel_snapshot_bytes (executor_selected two_lines) = 6" "sel_lines (executor_selected two_lines) = 2"
    by (simp_all add: executor_selected_def Let_def two_lines_length two_lines_starts)
  have whole: "take 6 two_lines = two_lines" "take_lines (Suc (Suc 0)) two_lines = two_lines"
    by (simp_all add: two_lines_def)
  have lines: "qo_line_start (rq_options range_request) = Some 1" "qo_line_end (rq_options range_request) = Some 9"
    by (simp_all add: range_request_def)
  from line_range_pages_complete [OF growing_paging refl lines refl] show ?thesis
    unfolding sel whole by (simp add: two_lines_length two_lines_starts whole numeral_2_eq_2)
qed

end
