(* ===== verification/Api_Error.thy ===== *)
theory Api_Error
  imports Protocol_Types
begin

text \<open>
  The errors of the control plane (\<^verbatim>\<open>src/rust/api/src/lib.rs\<close>): an error code, a message and a
  bounded detail.  A detail is cut at a character boundary of UTF-8, a byte that is not a
  continuation byte.
\<close>

datatype ErrorCode =
    ProtocolInvalid | ProtocolUnsupported | RequestTooLarge | OperationUnknown | ParamsInvalid
  | RepositoryNotFound | RepositoryArchived | RepositoryArchiveBlocked | RepositoryRetirementBlocked
  | RepositoryConfigInvalid | AuthorizationRequired | ConfigurationConflict | ConfigurationInvalid
  | ConfigurationRestartRequired | WorktreeBusy | TestNotFound | TestLogUnavailable | LogNotFound
  | LogExpired | CursorStale | StructuredEvidenceInvalid | TestEvidenceExpired | TestEvidenceNotFound
  | TestEvidenceTampered | TestArtifactExpired | TestArtifactNotFound | TestArtifactTampered
  | TestStartFailed | TestsDraining | UnitStopFailed | DeploymentNotFound | Busy
  | WaitDeadlineReached | DeploymentApplyFailed | DeploymentActionFailed | DockerNetworkUnavailable
  | RouteLeaseConflict | ObservedOnly | RollbackUnavailable | PermissionDenied | UserNotFound
  | TaskNotFound | ReleaseNotFound | DecisionNotFound | GlossaryNotFound | GlossaryConflict
  | HubNotFound | HubDisabled | HubLeaseExpired | HubAttachmentInvalid | HubKeyInvalid
  | StorageNotFound | StorageConflict | StorageBlocked | StorageUnavailable | StorageActionFailed
  | InternalError | DaemonUnavailable

section \<open>Guidance\<close>

text \<open>The guidance of \<^verbatim>\<open>recovery.rs\<close>; a JSON value is kept as its text.\<close>

datatype Class = Transient | Conflict | Invalid | External | Terminal

datatype Action = Wait | Inspect | Retry | Continue | Repair | Replace | AskUser | Stop

record FieldError =
  fe_field :: string
  fe_message :: string

record RecoveryOption =
  ro_id :: string
  ro_action :: Action
  ro_operation :: "string option"
  ro_effect :: string
  ro_target :: "string option"
  ro_cost :: "string option"
  ro_risk :: "string option"
  ro_prerequisites :: "string list"
  ro_independent_work_safe :: bool
  ro_user_action_required :: bool

record Guidance =
  gd_class :: Class
  gd_retryable :: bool
  gd_waitable :: bool
  gd_safe_to_continue :: bool
  gd_state :: "string option"
  gd_reason :: string
  gd_run_id :: "string option"
  gd_deployment_id :: "string option"
  gd_generation :: "u32 option"
  gd_repository_id :: "string option"
  gd_options :: "RecoveryOption list"
  gd_field_errors :: "FieldError list"
  gd_example :: "string option"

definition Guidance_transient :: "string \<Rightarrow> string \<Rightarrow> Guidance" where
  "Guidance_transient reason state =
     \<lparr>gd_class = Transient, gd_retryable = False, gd_waitable = True, gd_safe_to_continue = True,
      gd_state = Some state, gd_reason = reason, gd_run_id = None, gd_deployment_id = None, gd_generation = None,
      gd_repository_id = None, gd_options = [], gd_field_errors = [], gd_example = None\<rparr>"

text \<open>How a code is classified: class, retryable, waitable.  It is always safe to continue.\<close>

definition classify :: "ErrorCode \<Rightarrow> Class \<times> bool \<times> bool" where
  "classify code =
     (if code \<in> {Busy, TestsDraining, WorktreeBusy} then (Transient, False, True)
      else if code \<in> {DaemonUnavailable, DockerNetworkUnavailable, AuthorizationRequired} then (External, True, False)
      else if code \<in> {ParamsInvalid, ProtocolInvalid} then (Invalid, False, False)
      else if code = CursorStale then (Conflict, False, False)
      else (Terminal, False, False))"

definition default_guidance :: "ErrorCode \<Rightarrow> string \<Rightarrow> Guidance option" where
  "default_guidance code message =
     (case classify code of (class, retryable, waitable) \<Rightarrow>
       Some \<lparr>gd_class = class, gd_retryable = retryable, gd_waitable = waitable, gd_safe_to_continue = True,
         gd_state = None, gd_reason = message, gd_run_id = None, gd_deployment_id = None, gd_generation = None,
         gd_repository_id = None,
         gd_options =
           [\<lparr>ro_id = (if waitable then ''wait-or-continue'' else ''inspect-and-decide''),
             ro_action = (if waitable then Wait else Inspect), ro_operation = None,
             ro_effect = (if waitable then ''Wait with a caller-supplied deadline or continue independent work.''
                          else ''Inspect the bounded diagnostic and choose the next operation.''),
             ro_target = None, ro_cost = Some (if waitable then ''bounded by your deadline'' else ''immediate''),
             ro_risk = Some ''none'', ro_prerequisites = [], ro_independent_work_safe = True,
             ro_user_action_required = (class = External)\<rparr>],
         gd_field_errors = [], gd_example = None\<rparr>)"

section \<open>Errors\<close>

record ProtocolError =
  pe_code :: ErrorCode
  pe_message :: string
  pe_detail :: string
  pe_recovery :: "Guidance option"

record ErrorBody =
  eb_code :: ErrorCode
  eb_message :: string
  eb_detail :: string
  eb_recovery :: "Guidance option"

definition ProtocolError_new :: "ErrorCode \<Rightarrow> string \<Rightarrow> ProtocolError" where
  "ProtocolError_new code message = \<lparr>pe_code = code, pe_message = message, pe_detail = [], pe_recovery = None\<rparr>"

definition MAX_ERROR_DETAIL_BYTES :: nat where "MAX_ERROR_DETAIL_BYTES = 4096"

definition truncate_utf8 :: "string \<Rightarrow> nat \<Rightarrow> string" where
  "truncate_utf8 s max_bytes = (if length s \<le> max_bytes then s else take (boundary_below s max_bytes) s)"

definition with_detail :: "ProtocolError \<Rightarrow> string \<Rightarrow> ProtocolError" where
  "with_detail e detail = e\<lparr>pe_detail := truncate_utf8 detail MAX_ERROR_DETAIL_BYTES\<rparr>"

definition with_recovery :: "ProtocolError \<Rightarrow> Guidance \<Rightarrow> ProtocolError" where
  "with_recovery e recovery = e\<lparr>pe_recovery := Some recovery\<rparr>"

definition into_body :: "ProtocolError \<Rightarrow> ErrorBody" where
  "into_body e =
     \<lparr>eb_code = pe_code e, eb_message = pe_message e,
      eb_detail = truncate_utf8 (pe_detail e) MAX_ERROR_DETAIL_BYTES,
      eb_recovery = (case pe_recovery e of Some r \<Rightarrow> Some r | None \<Rightarrow> default_guidance (pe_code e) (pe_message e))\<rparr>"

section \<open>Facts\<close>

lemma truncate_utf8_le: "length (truncate_utf8 s n) \<le> n"
  using boundary_below_le [of s n] by (simp add: truncate_utf8_def)

text \<open>
  The body of every error has guidance; without guidance of its own the caller may wait exactly
  for the busy codes.  Its detail is the longest beginning of the error's detail of at most 4096
  bytes that ends at a character boundary.
\<close>

theorem error_body_bounded:
  "let body = into_body e; n = length (eb_detail body) in
    (case pe_recovery e of
       Some r \<Rightarrow> eb_recovery body = Some r
     | None \<Rightarrow> (\<exists>g. eb_recovery body = Some g \<and> length (gd_options g) = 1 \<and>
         gd_waitable g = (pe_code e \<in> {Busy, TestsDraining, WorktreeBusy}) \<and> \<not> (gd_waitable g \<and> gd_retryable g))) \<and>
    n \<le> 4096 \<and> eb_detail body = take n (pe_detail e) \<and> is_char_boundary (pe_detail e) n \<and>
    (\<forall>m \<le> 4096. is_char_boundary (pe_detail e) m \<longrightarrow> m \<le> n)"
proof -
  let ?n = "length (truncate_utf8 (pe_detail e) 4096)"
  have short: "\<not> is_char_boundary s m" if "length s < m" for s m using that by (auto simp: is_char_boundary_def)
  have "is_char_boundary (pe_detail e) ?n" "truncate_utf8 (pe_detail e) 4096 = take ?n (pe_detail e)"
    using boundary_below_boundary [of "pe_detail e" 4096] boundary_below_le [of "pe_detail e" 4096]
    by (auto simp: truncate_utf8_def is_char_boundary_def min_def)
  moreover have "m \<le> ?n" if "m \<le> 4096" "is_char_boundary (pe_detail e) m" for m
    using boundary_below_greatest [OF that] boundary_below_le [of "pe_detail e" 4096] that(2) short
    by (auto simp: truncate_utf8_def not_less [symmetric])
  moreover have "case pe_recovery e of
       Some r \<Rightarrow> eb_recovery (into_body e) = Some r
     | None \<Rightarrow> (\<exists>g. eb_recovery (into_body e) = Some g \<and> length (gd_options g) = 1 \<and>
         gd_waitable g = (pe_code e \<in> {Busy, TestsDraining, WorktreeBusy}) \<and> \<not> (gd_waitable g \<and> gd_retryable g))"
    by (auto simp: into_body_def default_guidance_def classify_def split: option.splits)
  moreover have "eb_detail (into_body e) = truncate_utf8 (pe_detail e) 4096"
    by (simp add: into_body_def MAX_ERROR_DETAIL_BYTES_def)
  ultimately show ?thesis
    using truncate_utf8_le [of "pe_detail e" 4096] by (simp add: Let_def)
qed

theorem error_body_bounded_witness:
  "eb_detail (into_body (with_detail (ProtocolError_new Busy ''no'') ''later'')) =
     take (length (eb_detail (into_body (with_detail (ProtocolError_new Busy ''no'') ''later''))))
       (pe_detail (with_detail (ProtocolError_new Busy ''no'') ''later''))"
  using error_body_bounded [of "with_detail (ProtocolError_new Busy ''no'') ''later''"] unfolding Let_def by blast

end
