(* ===== verification/Capacity_State.thy ===== *)
theory Capacity_State
  imports Api_Error Systems BTree_Map F64 "HOL-Library.Product_Lexorder"
begin

text \<open>
  The state of the capacity broker, \<^verbatim>\<open>src/rust/control/src/capacity.rs\<close>, and the operations of
  \<^verbatim>\<open>impl State\<close>: granting of queued requests, pressure samples and the learning of the capacity
  at the end of an epoch.  The source of random bytes is a parameter: \<open>fill\<close> maps its state to
  eight bytes or an error and its next state.
\<close>

section \<open>Data\<close>

definition CAP_MIN :: u32 where "CAP_MIN = 1"
definition CAP_MAX :: u32 where "CAP_MAX = 65535"
definition PRESSURE_PERCENT :: f64 where "PRESSURE_PERCENT = Finite 98"
definition RECOVERY_PERCENT :: f64 where "RECOVERY_PERCENT = Finite 95"
definition UNDERUSED_PERCENT :: f64 where "UNDERUSED_PERCENT = Finite 90"
definition MEMORY_EMERGENCY_PERCENT :: f64 where "MEMORY_EMERGENCY_PERCENT = Finite 90"
definition MEMORY_RECOVERY_PERCENT :: f64 where "MEMORY_RECOVERY_PERCENT = Finite 85"

record Grant =
  gr_permit_id :: string
  gr_learned_capacity :: u32
  gr_effective_capacity :: u32
  gr_waited :: bool

datatype PendingOutcome = Waiting | Granted Grant | Denied string

record Pending =
  pn_run_id :: string
  pn_leaf_id :: string
  pn_waited :: bool
  pn_outcome :: PendingOutcome

record ActivePermit =
  ap_run_id :: string
  ap_leaf_id :: string

record Reservation =
  rv_run_id :: string
  rv_claims :: "ResourceClaim list"
  rv_granted :: bool

record Adjustment =
  adj_actor :: string
  adj_reason :: string
  adj_previous :: u32
  adj_new :: u32
  adj_cpu :: "f64 option"
  adj_memory :: "f64 option"
  adj_saturation :: "f64 option"
  adj_duration :: "f64 option"

type_synonym sample = "f64 option \<times> f64 option \<times> bool"

record State =
  st_learned :: u32
  st_cap :: "u32 option"
  st_registered_runs :: "(string, u32) btree_map"
  st_resources :: "(string, (string, ResourceClaim list) btree_map) btree_map"
  st_reservations :: "(u64, Reservation) btree_map"
  st_queues :: "(string, u64 list) btree_map"
  st_round_robin :: "string list"
  st_pending :: "(u64, Pending) btree_map"
  st_active :: "(string, ActivePermit) btree_map"
  st_next_pending_id :: u64
  st_stopping :: bool
  st_paused :: bool
  st_memory_emergency :: bool
  st_cpu_pressure_streak :: u8
  st_memory_pressure_streak :: u8
  st_recovery_streak :: u8
  st_pending_decrease :: bool
  st_epoch_memory_emergency :: bool
  st_epoch_started :: "f64 option"
  st_epoch_runs :: "string set"
  st_samples :: "sample list"
  st_run_started :: "(string, f64) btree_map"
  st_run_durations :: "f64 list"

definition State_new :: "u32 \<Rightarrow> u32 option \<Rightarrow> State" where
  "State_new learned cap =
     \<lparr>st_learned = learned, st_cap = cap, st_registered_runs = [], st_resources = [], st_reservations = [],
      st_queues = [], st_round_robin = [], st_pending = [], st_active = [], st_next_pending_id = 1,
      st_stopping = False, st_paused = False, st_memory_emergency = False, st_cpu_pressure_streak = 0,
      st_memory_pressure_streak = 0, st_recovery_streak = 0, st_pending_decrease = False,
      st_epoch_memory_emergency = False, st_epoch_started = None, st_epoch_runs = {}, st_samples = [],
      st_run_started = [], st_run_durations = []\<rparr>"

definition effective :: "State \<Rightarrow> u32" where
  "effective s = (case st_cap s of None \<Rightarrow> st_learned s | Some cap \<Rightarrow> min (st_learned s) cap)"

definition waiting :: "State \<Rightarrow> nat" where
  "waiting s = (\<Sum>q\<leftarrow>map snd (st_queues s). length q)"

definition start_epoch :: "string \<Rightarrow> f64 \<Rightarrow> State \<Rightarrow> State" where
  "start_epoch run now s =
     (let s = (if st_epoch_started s = None
               then s\<lparr>st_epoch_started := Some now, st_samples := [], st_run_durations := [],
                      st_pending_decrease := False, st_epoch_memory_emergency := False, st_epoch_runs := {}\<rparr>
               else s)
      in s\<lparr>st_epoch_runs := insert run (st_epoch_runs s),
           st_run_started := (if bt_contains (st_run_started s) run then st_run_started s
                              else bt_insert run now (st_run_started s))\<rparr>)"

section \<open>Permit ids\<close>

definition hex_digit :: "nat \<Rightarrow> char" where
  "hex_digit n = ''0123456789abcdef'' ! n"

definition hex_byte :: "u8 \<Rightarrow> string" where
  "hex_byte b = [hex_digit (unat b div 16), hex_digit (unat b mod 16)]"

definition permit_id_of :: "u8 list \<Rightarrow> string" where
  "permit_id_of bytes = CHR ''c'' # concat (map hex_byte bytes)"

fun draw_permit_id :: "('r \<Rightarrow> (string, u8 list) result \<times> 'r) \<Rightarrow> nat \<Rightarrow> 'r \<Rightarrow> (string, ActivePermit) btree_map
    \<Rightarrow> (ProtocolError, string) result \<times> 'r" where
  "draw_permit_id fill 0 r active =
     (Err (ProtocolError_new InternalError ''cannot allocate a unique capacity permit''), r)"
| "draw_permit_id fill (Suc n) r active =
     (case fill r of
        (Inl error, r) \<Rightarrow>
          (Err (with_detail (ProtocolError_new InternalError ''cannot create a capacity permit'') error), r)
      | (Inr bytes, r) \<Rightarrow>
          if bt_contains active (permit_id_of bytes) then draw_permit_id fill n r active
          else (Ok (permit_id_of bytes), r))"

definition unique_permit_id where
  "unique_permit_id fill r active = draw_permit_id fill 4 r active"

section \<open>Granting\<close>

definition deny_pending :: "string \<Rightarrow> u64 \<Rightarrow> State \<Rightarrow> State" where
  "deny_pending message pending_id s =
     s\<lparr>st_pending := bt_modify pending_id (\<lambda>p. p\<lparr>pn_outcome := Denied message\<rparr>) (st_pending s)\<rparr>"

definition grant_pending :: "string \<Rightarrow> u64 \<Rightarrow> State \<Rightarrow> State" where
  "grant_pending permit_id pending_id s =
     (case bt_get (st_pending s) pending_id of
        None \<Rightarrow> s
      | Some pending \<Rightarrow>
          s\<lparr>st_active := bt_insert permit_id \<lparr>ap_run_id = pn_run_id pending, ap_leaf_id = pn_leaf_id pending\<rparr>
              (st_active s),
            st_pending := bt_modify pending_id (\<lambda>p. p\<lparr>pn_outcome := Granted
              \<lparr>gr_permit_id = permit_id, gr_learned_capacity = st_learned s,
               gr_effective_capacity = effective s, gr_waited = pn_waited pending\<rparr>\<rparr>) (st_pending s)\<rparr>)"

definition dequeue :: "string \<Rightarrow> State \<Rightarrow> State" where
  "dequeue run s =
     (if (case bt_get (st_queues s) run of Some q \<Rightarrow> tl q = [] | None \<Rightarrow> True)
      then s\<lparr>st_queues := bt_remove run (st_queues s)\<rparr>
      else s\<lparr>st_queues := bt_modify run tl (st_queues s), st_round_robin := st_round_robin s @ [run]\<rparr>)"

text \<open>One iteration of \<^verbatim>\<open>grant_ready\<close>: leave the loop, go on, or fail.\<close>

datatype 'r turn = Stop | Continue 'r State | Fail ProtocolError 'r State

definition grant_turn :: "('r \<Rightarrow> (string, u8 list) result \<times> 'r) \<Rightarrow> 'r \<Rightarrow> State \<Rightarrow> 'r turn" where
  "grant_turn fill r s =
     (if st_paused s \<or> unat (effective s) \<le> length (st_active s) then Stop
      else case st_round_robin s of
        [] \<Rightarrow> Stop
      | run # rest \<Rightarrow>
          (let s = s\<lparr>st_round_robin := rest\<rparr> in
           case bt_get (st_queues s) run of
             None \<Rightarrow> Continue r s
           | Some [] \<Rightarrow> Continue r (s\<lparr>st_queues := bt_remove run (st_queues s)\<rparr>)
           | Some (pending_id # queue) \<Rightarrow>
               (let s = dequeue run s in
                if \<not> bt_contains (st_registered_runs s) run
                then Continue r (deny_pending ''run is no longer active'' pending_id s)
                else case unique_permit_id fill r (st_active s) of
                  (Inl error, r) \<Rightarrow> Fail error r s
                | (Inr permit_id, r) \<Rightarrow> Continue r (grant_pending permit_id pending_id s))))"

lemma waiting_remove_le: "(\<Sum>q\<leftarrow>map snd (bt_remove k m). length q) \<le> (\<Sum>q\<leftarrow>map snd m. length q)"
  by (induction m) (auto simp: bt_remove_def)

lemma waiting_remove_less:
  "bt_get m k = Some q \<Longrightarrow> q \<noteq> [] \<Longrightarrow>
     (\<Sum>q\<leftarrow>map snd (bt_remove k m). length q) < (\<Sum>q\<leftarrow>map snd m. length q)"
proof (induction m)
  case (Cons p m)
  have "(\<Sum>q\<leftarrow>map snd (bt_remove k m). length q) \<le> (\<Sum>q\<leftarrow>map snd m. length q)"
    by (rule waiting_remove_le)
  with Cons show ?case
    by (auto simp: bt_remove_def simp flip: length_greater_0_conv split: if_splits)
qed simp

lemma waiting_tl_le: "(\<Sum>q\<leftarrow>map snd (bt_modify k tl m). length q) \<le> (\<Sum>q\<leftarrow>map snd m. length q)"
  by (induction m) (auto simp: bt_modify_def)

lemma waiting_tl_less:
  "bt_get m k = Some q \<Longrightarrow> q \<noteq> [] \<Longrightarrow>
     (\<Sum>q\<leftarrow>map snd (bt_modify k tl m). length q) < (\<Sum>q\<leftarrow>map snd m. length q)"
proof (induction m)
  case (Cons p m)
  have "(\<Sum>q\<leftarrow>map snd (bt_modify k tl m). length q) \<le> (\<Sum>q\<leftarrow>map snd m. length q)"
    by (rule waiting_tl_le)
  with Cons show ?case
    by (auto simp: bt_modify_def simp flip: length_greater_0_conv split: if_splits)
qed simp

lemma waiting_dequeue:
  "bt_get (st_queues s) run = Some (p # q) \<Longrightarrow> waiting (dequeue run s) < waiting s"
  using waiting_remove_less [of "st_queues s" run "p # q"] waiting_tl_less [of "st_queues s" run "p # q"]
  by (auto simp: dequeue_def waiting_def)

lemma waiting_same [simp]:
  "waiting (deny_pending m p s) = waiting s" "waiting (grant_pending i p s) = waiting s"
  "waiting (s\<lparr>st_round_robin := rr\<rparr>) = waiting s"
  by (simp_all add: waiting_def deny_pending_def grant_pending_def split: option.splits)

lemma grant_turn_decreases:
  assumes "grant_turn fill r s = Continue r' s'"
  shows "waiting s' < waiting s \<or> waiting s' = waiting s \<and> length (st_round_robin s') < length (st_round_robin s)"
proof -
  obtain run rest where rr: "st_round_robin s = run # rest"
    using assms by (auto simp: grant_turn_def split: if_splits list.splits)
  let ?s = "s\<lparr>st_round_robin := rest\<rparr>"
  show ?thesis
  proof (cases "bt_get (st_queues s) run")
    case None
    with assms rr show ?thesis by (auto simp: grant_turn_def Let_def split: if_splits)
  next
    case (Some q)
    show ?thesis
    proof (cases q)
      case Nil
      have "waiting s' \<le> waiting s \<and> st_round_robin s' = rest"
        using assms rr Some Nil waiting_remove_le [of run "st_queues s"]
        by (auto simp: grant_turn_def Let_def waiting_def split: if_splits)
      with rr show ?thesis by auto
    next
      case (Cons p q')
      then have "waiting (dequeue run ?s) < waiting s"
        using waiting_dequeue [of ?s run p q'] Some by simp
      moreover have "waiting s' = waiting (dequeue run ?s)"
        using assms rr Some Cons
        by (auto simp: grant_turn_def Let_def split: if_splits prod.splits sum.splits)
      ultimately show ?thesis by simp
    qed
  qed
qed

function grant_ready :: "('r \<Rightarrow> (string, u8 list) result \<times> 'r) \<Rightarrow> 'r \<Rightarrow> State
    \<Rightarrow> (ProtocolError, unit) result \<times> 'r \<times> State" where
  "grant_ready fill r s =
     (case grant_turn fill r s of
        Stop \<Rightarrow> (Ok (), r, s)
      | Continue r s \<Rightarrow> grant_ready fill r s
      | Fail error r s \<Rightarrow> (Err error, r, s))"
  by pat_completeness auto

termination
proof (relation "measures [\<lambda>(fill, r, s). waiting s, \<lambda>(fill, r, s). length (st_round_robin s)]", goal_cases)
  case (2 fill r s r' s')
  then show ?case using grant_turn_decreases by fastforce
qed simp

declare grant_ready.simps [simp del]

end
