(* ===== verification/Capacity_Learning.thy ===== *)
theory Capacity_Learning
  imports Capacity_State
begin

text \<open>
  How the broker learns the capacity of the host: pressure samples pause admission, and at the
  end of an epoch the learned capacity shrinks after pressure and grows after a saturated epoch
  in which the host was underused.
\<close>

section \<open>Samples\<close>

text \<open>The order of \<^verbatim>\<open>f64::total_cmp\<close>.\<close>

fun total_key :: "f64 \<Rightarrow> int \<times> rat" where
  "total_key (Finite x) = (0, x)"
| "total_key (Infinite neg) = (if neg then - 1 else 1, 0)"
| "total_key NaN = (2, 0)"

definition bounded_percent :: "f64 option \<Rightarrow> f64 option" where
  "bounded_percent value =
     (case value of
        Some v \<Rightarrow> if f64_is_finite v \<and> f64_greater_eq v (Finite 0) \<and> f64_greater_eq (Finite 100) v
                   then Some v else None
      | None \<Rightarrow> None)"

definition percentile95 :: "f64 list \<Rightarrow> f64 option" where
  "percentile95 values =
     (if values = [] then None
      else let ordered = sort_key total_key values; index = (length ordered * 95 + 99) div 100 - 1
           in if index < length ordered then Some (ordered ! index) else None)"

definition saturated :: "State \<Rightarrow> bool" where
  "saturated s \<longleftrightarrow> 0 < waiting s \<or> st_active s \<noteq> [] \<and> unat (effective s) \<le> length (st_active s)"

definition streak :: "f64 option \<Rightarrow> u8 \<Rightarrow> u8" where
  "streak value current =
     (if optb (\<lambda>v. f64_greater_eq v PRESSURE_PERCENT) value then saturating_add current 1 else 0)"

text \<open>A sample that counts towards recovery from a pause.\<close>

definition calm :: "bool \<Rightarrow> f64 option \<Rightarrow> f64 option \<Rightarrow> bool" where
  "calm emergency cpu memory \<longleftrightarrow>
     optb (\<lambda>v. f64_less v RECOVERY_PERCENT) cpu \<and>
     optb (\<lambda>v. f64_less v (if emergency then MEMORY_RECOVERY_PERCENT else RECOVERY_PERCENT)) memory"

definition enter_emergency :: "f64 option \<Rightarrow> State \<Rightarrow> State" where
  "enter_emergency memory s =
     (if optb (\<lambda>v. f64_greater_eq v MEMORY_EMERGENCY_PERCENT) memory
      then s\<lparr>st_memory_emergency := True, st_epoch_memory_emergency := True, st_paused := True,
             st_pending_decrease := True\<rparr>
      else s)"

definition observe_pressure :: "f64 option \<Rightarrow> f64 option \<Rightarrow> State \<Rightarrow> State" where
  "observe_pressure cpu memory s =
     (let s = (if st_epoch_started s \<noteq> None
               then s\<lparr>st_samples := st_samples s @ [(cpu, memory, saturated s)]\<rparr> else s);
          s = s\<lparr>st_cpu_pressure_streak := streak cpu (st_cpu_pressure_streak s),
                st_memory_pressure_streak := streak memory (st_memory_pressure_streak s)\<rparr>
      in if 4 \<le> st_cpu_pressure_streak s \<or> 4 \<le> st_memory_pressure_streak s
         then s\<lparr>st_paused := True, st_pending_decrease := True\<rparr> else s)"

definition observe_recovery :: "f64 option \<Rightarrow> f64 option \<Rightarrow> State \<Rightarrow> State" where
  "observe_recovery cpu memory s =
     (let s = (if st_paused s \<and> calm (st_memory_emergency s) cpu memory
               then s\<lparr>st_recovery_streak := saturating_add (st_recovery_streak s) 1\<rparr>
               else if st_paused s then s\<lparr>st_recovery_streak := 0\<rparr> else s)
      in if st_paused s \<and> 2 \<le> st_recovery_streak s
         then s\<lparr>st_paused := False, st_memory_emergency := False, st_cpu_pressure_streak := 0,
                st_memory_pressure_streak := 0, st_recovery_streak := 0\<rparr>
         else s)"

definition State_record_sample :: "f64 option \<Rightarrow> f64 option \<Rightarrow> State \<Rightarrow> State" where
  "State_record_sample cpu memory s =
     (let s = enter_emergency memory s in
      if st_epoch_started s = None \<and> \<not> st_memory_emergency s then s
      else observe_recovery cpu memory (observe_pressure cpu memory s))"

section \<open>Ends of runs and epochs\<close>

definition finish_run :: "string \<Rightarrow> f64 \<Rightarrow> State \<Rightarrow> State" where
  "finish_run run now s =
     (if \<not> bt_contains (st_run_started s) run \<or> bt_contains (st_queues s) run \<or>
         bt_any (\<lambda>_ permit. ap_run_id permit = run) (st_active s) \<or> bt_contains (st_registered_runs s) run
      then s
      else case bt_get (st_run_started s) run of
        None \<Rightarrow> s
      | Some started \<Rightarrow>
          s\<lparr>st_run_started := bt_remove run (st_run_started s),
            st_run_durations := st_run_durations s @ [f64_max (f64_sub now started) (Finite 0)]\<rparr>)"

definition busy :: "State \<Rightarrow> bool" where
  "busy s \<longleftrightarrow> st_active s \<noteq> [] \<or> 0 < waiting s \<or>
     (\<exists>run \<in> st_epoch_runs s. bt_contains (st_registered_runs s) run)"

definition longest_run :: "State \<Rightarrow> f64" where
  "longest_run s = foldl f64_max (Finite 0) (st_run_durations s)"

definition eligible :: "f64 \<Rightarrow> f64 \<Rightarrow> State \<Rightarrow> bool" where
  "eligible duration minimum s \<longleftrightarrow>
     f64_greater_eq (longest_run s) minimum \<or> st_active s \<noteq> [] \<and> f64_greater_eq duration minimum"

definition cpu_values :: "State \<Rightarrow> f64 list" where
  "cpu_values s = flatten_options (map fst (st_samples s))"

definition memory_values :: "State \<Rightarrow> f64 list" where
  "memory_values s = flatten_options (map (fst \<circ> snd) (st_samples s))"

definition saturation :: "State \<Rightarrow> f64 option" where
  "saturation s =
     (if st_samples s = [] then None
      else Some (f64_div (f64_of_nat (length (filter (\<lambda>(_, _, sat). sat) (st_samples s))))
                   (f64_of_nat (length (st_samples s)))))"

definition complete_samples :: "State \<Rightarrow> bool" where
  "complete_samples s \<longleftrightarrow> st_samples s \<noteq> [] \<and> length (cpu_values s) = length (st_samples s) \<and>
     length (memory_values s) = length (st_samples s)"

definition decreased :: "u32 \<Rightarrow> u32" where
  "decreased previous = max (min (previous - 1) (saturating_mul previous 3 div 4)) 1"

definition div_ceil :: "u32 \<Rightarrow> u32 \<Rightarrow> u32" where
  "div_ceil x y = (if 0 < x mod y then x div y + 1 else x div y)"

definition increased :: "u32 \<Rightarrow> u32" where
  "increased previous = min (max (previous + 1) (div_ceil (saturating_mul previous 5) 4)) CAP_MAX"

definition may_grow :: "State \<Rightarrow> bool" where
  "may_grow s \<longleftrightarrow> \<not> st_pending_decrease s \<and> \<not> st_paused s \<and> complete_samples s \<and>
     (case st_cap s of None \<Rightarrow> True | Some cap \<Rightarrow> st_learned s < cap) \<and>
     optb (\<lambda>v. f64_greater_eq v (Finite (1 / 2))) (saturation s) \<and>
     optb (\<lambda>v. f64_less v UNDERUSED_PERCENT) (percentile95 (cpu_values s)) \<and>
     optb (\<lambda>v. f64_less v UNDERUSED_PERCENT) (percentile95 (memory_values s))"

text \<open>The verdict on an epoch: the new capacity and the reason, if there is one.\<close>

definition learn :: "bool \<Rightarrow> State \<Rightarrow> u32 \<times> string option" where
  "learn elig s =
     (if \<not> elig then (st_learned s, None)
      else if st_pending_decrease s \<and> 1 < st_learned s
      then (decreased (st_learned s),
            Some (if st_epoch_memory_emergency s then ''memory_emergency'' else ''sustained_pressure''))
      else if may_grow s then (increased (st_learned s), Some ''underused_saturated_epoch'')
      else (st_learned s, None))"

definition reset_epoch :: "bool \<Rightarrow> f64 \<Rightarrow> State \<Rightarrow> State" where
  "reset_epoch live now s =
     (let s = (if live
               then s\<lparr>st_epoch_started := Some now,
                      st_epoch_runs := Set.filter (\<lambda>run. bt_contains (st_registered_runs s) run) (st_epoch_runs s),
                      st_run_started := bt_map (\<lambda>_. now) (st_run_started s)\<rparr>
               else s\<lparr>st_epoch_started := None, st_epoch_runs := {}, st_run_started := []\<rparr>);
          s = s\<lparr>st_samples := [], st_run_durations := [], st_pending_decrease := False,
                st_epoch_memory_emergency := False\<rparr>
      in if live then s
         else s\<lparr>st_cpu_pressure_streak := 0, st_memory_pressure_streak := 0, st_recovery_streak := 0,
                st_paused := st_memory_emergency s\<rparr>)"

definition finish_epoch :: "f64 \<Rightarrow> f64 \<Rightarrow> State \<Rightarrow> Adjustment option \<times> State" where
  "finish_epoch now minimum s =
     (case st_epoch_started s of
        None \<Rightarrow> (None, s)
      | Some started \<Rightarrow>
          let duration = f64_max (f64_sub now started) (Finite 0); elig = eligible duration minimum s in
          if busy s \<and> \<not> elig then (None, s)
          else
            let (new, reason) = learn elig s;
                adjustment = (case reason of
                    Some reason \<Rightarrow>
                      if new \<noteq> st_learned s
                      then Some \<lparr>adj_actor = ''system:auto'', adj_reason = reason, adj_previous = st_learned s,
                        adj_new = new, adj_cpu = percentile95 (cpu_values s),
                        adj_memory = percentile95 (memory_values s), adj_saturation = saturation s,
                        adj_duration = Some duration\<rparr>
                      else None
                  | None \<Rightarrow> None)
            in (adjustment,
                reset_epoch (busy s) now
                  (if adjustment \<noteq> None then s\<lparr>st_learned := new\<rparr> else s)))"

end
