(* ===== verification/Capacity_Policy.thy ===== *)
theory Capacity_Policy
  imports Capacity_Learning "HOL-Library.Multiset"
begin

text \<open>
  What the broker learns: the percentile of an epoch, the adjustment of the capacity at its end
  and the pause of an emergency.
\<close>

section \<open>Bounds of an adjustment\<close>

lemma unat_min: "unat (min a b) = min (unat a) (unat (b :: 'n::len word))"
  by (simp add: min_def word_le_nat_alt)

lemma unat_max: "unat (max a b) = max (unat a) (unat (b :: 'n::len word))"
  by (simp add: max_def word_le_nat_alt)

definition valid_capacity :: "u32 \<Rightarrow> bool" where
  "valid_capacity n \<longleftrightarrow> CAP_MIN \<le> n \<and> n \<le> CAP_MAX"

lemma valid_capacity_unat: "valid_capacity n \<longleftrightarrow> 1 \<le> unat n \<and> unat n \<le> 65535"
  by (simp add: valid_capacity_def CAP_MIN_def CAP_MAX_def word_le_nat_alt)

lemma unat_decreased:
  assumes "valid_capacity p" and "1 < p"
  shows "unat (decreased p) = 3 * unat p div 4"
proof -
  have p: "2 \<le> unat p" "unat p \<le> 65535" using assms by (simp_all add: valid_capacity_unat word_less_nat_alt)
  then have "unat (saturating_mul p 3) = unat p * 3" by (simp add: unat_saturating_mul)
  moreover have "unat (p - 1) = unat p - 1" using p by (subst unat_sub) (simp_all add: word_le_nat_alt)
  ultimately have "unat (decreased p) = max (min (unat p - 1) (unat p * 3 div 4)) 1"
    by (simp add: decreased_def unat_min unat_max unat_div)
  with p show ?thesis by (simp add: min_def max_def) linarith
qed

lemma unat_increased:
  assumes "valid_capacity p"
  shows "unat (increased p) = min 65535 ((5 * unat p + 3) div 4)"
proof -
  have p: "1 \<le> unat p" "unat p \<le> 65535" using assms by (simp_all add: valid_capacity_unat)
  have five: "unat (saturating_mul p 5) = unat p * 5" using p by (simp add: unat_saturating_mul)
  have ceil: "unat (div_ceil x 4) = (unat x + 3) div 4" if "unat x \<le> 400000" for x :: u32
  proof -
    have "unat (x div 4 + 1) = unat x div 4 + 1"
      using that by (subst unat_add_bounded) (simp_all add: unat_div)
    moreover have "0 < x mod 4 \<longleftrightarrow> 0 < unat x mod 4" by (simp add: word_less_nat_alt unat_mod)
    ultimately show ?thesis by (simp add: div_ceil_def unat_div) presburger
  qed
  have "unat (p + 1) = unat p + 1" using p by (subst unat_add_bounded) simp_all
  moreover have "unat (div_ceil (saturating_mul p 5) 4) = (unat p * 5 + 3) div 4"
    using p by (simp add: ceil five)
  ultimately have "unat (increased p) = min (max (unat p + 1) ((unat p * 5 + 3) div 4)) 65535"
    by (simp add: increased_def unat_min unat_max CAP_MAX_def)
  with p show ?thesis by (simp add: min_def max_def) linarith
qed

lemma decreased_valid: "valid_capacity p \<Longrightarrow> 1 < p \<Longrightarrow> valid_capacity (decreased p)"
  by (simp add: valid_capacity_unat unat_decreased word_less_nat_alt) linarith

lemma increased_valid: "valid_capacity p \<Longrightarrow> valid_capacity (increased p)"
  by (simp add: valid_capacity_unat unat_increased) linarith

section \<open>The verdict on an epoch\<close>

lemma learn_adjusts:
  assumes "learn elig s = (n, Some reason)" and "n \<noteq> st_learned s" and "valid_capacity (st_learned s)"
  shows "valid_capacity n \<and>
    (if st_pending_decrease s
     then unat n = 3 * unat (st_learned s) div 4 \<and> reason \<in> {''memory_emergency'', ''sustained_pressure''}
     else may_grow s \<and> unat n = min 65535 ((5 * unat (st_learned s) + 3) div 4) \<and>
          reason = ''underused_saturated_epoch'')"
  using assms
  by (auto simp: learn_def decreased_valid increased_valid unat_decreased unat_increased may_grow_def
      split: if_splits)

lemma finish_epoch_adjusts:
  assumes "finish_epoch now minimum s = (Some a, s')"
  obtains elig where "learn elig s = (adj_new a, Some (adj_reason a))" "adj_previous a = st_learned s"
    "adj_new a \<noteq> st_learned s" "st_learned s' = adj_new a" "st_epoch_started s \<noteq> None"
    "adj_cpu a = percentile95 (cpu_values s)" "adj_memory a = percentile95 (memory_values s)"
  using assms
  by (auto simp: finish_epoch_def reset_epoch_def Let_def split: option.splits if_splits prod.splits)

lemma finish_epoch_unadjusted: "finish_epoch now minimum s = (None, s') \<Longrightarrow> st_learned s' = st_learned s"
  by (auto simp: finish_epoch_def reset_epoch_def Let_def split: option.splits if_splits prod.splits)

lemma finish_epoch_valid:
  assumes "finish_epoch now minimum s = (a, s')" and "valid_capacity (st_learned s)"
  shows "valid_capacity (st_learned s')"
proof (cases a)
  case None
  with assms show ?thesis by (simp add: finish_epoch_unadjusted)
next
  case (Some adj)
  with assms(1) obtain elig where "learn elig s = (adj_new adj, Some (adj_reason adj))"
    "adj_new adj \<noteq> st_learned s" "st_learned s' = adj_new adj" using finish_epoch_adjusts by blast
  with learn_adjusts [OF this(1,2) assms(2)] show ?thesis by simp
qed

text \<open>
  An epoch that ends with an adjustment starts from the learned capacity and makes
  the adjustment the new one.  After pressure it shrinks to three quarters, rounded down, and never
  below one; otherwise the host was underused and saturated with no pause and a complete set of
  samples, and it grows by a quarter, rounded up, to at most 65535.
\<close>

theorem finish_epoch_adjustment:
  assumes "finish_epoch now minimum s = (Some a, s')" and "valid_capacity (st_learned s)"
  shows "adj_previous a = st_learned s \<and> st_learned s' = adj_new a \<and> valid_capacity (adj_new a) \<and>
    (if st_pending_decrease s
     then unat (adj_new a) = 3 * unat (st_learned s) div 4 \<and> adj_new a < st_learned s \<and>
          adj_reason a \<in> {''memory_emergency'', ''sustained_pressure''}
     else unat (adj_new a) = min 65535 ((5 * unat (st_learned s) + 3) div 4) \<and> st_learned s < adj_new a \<and>
          \<not> st_paused s \<and> complete_samples s \<and>
          optb (\<lambda>v. f64_less v UNDERUSED_PERCENT) (adj_cpu a) \<and>
          optb (\<lambda>v. f64_less v UNDERUSED_PERCENT) (adj_memory a) \<and>
          adj_reason a = ''underused_saturated_epoch'')"
proof -
  obtain elig where l: "learn elig s = (adj_new a, Some (adj_reason a))" "adj_new a \<noteq> st_learned s"
    and a: "adj_previous a = st_learned s" "st_learned s' = adj_new a"
      "adj_cpu a = percentile95 (cpu_values s)" "adj_memory a = percentile95 (memory_values s)"
    using finish_epoch_adjusts [OF assms(1)] by blast
  have "1 \<le> unat (st_learned s)" "unat (st_learned s) \<le> 65535"
    using assms(2) by (simp_all add: valid_capacity_unat)
  with learn_adjusts [OF l assms(2)] l(2) a show ?thesis
    by (auto simp: may_grow_def word_less_nat_alt word_unat_eq_iff split: if_splits)
qed

definition pressed_epoch :: State where
  "pressed_epoch = (State_new 8 None)\<lparr>st_epoch_started := Some (Finite 700), st_pending_decrease := True,
     st_run_durations := [Finite 700]\<rparr>"

definition pressed_adjustment :: Adjustment where
  "pressed_adjustment = \<lparr>adj_actor = ''system:auto'', adj_reason = ''sustained_pressure'', adj_previous = 8,
     adj_new = 6, adj_cpu = None, adj_memory = None, adj_saturation = None, adj_duration = Some (Finite 0)\<rparr>"

lemma pressed_epoch_ends:
  "finish_epoch (Finite 700) (Finite 600) pressed_epoch =
     (Some pressed_adjustment, reset_epoch False (Finite 700) (pressed_epoch\<lparr>st_learned := 6\<rparr>))"
  by code_simp

theorem finish_epoch_adjustment_witness:
  "unat (adj_new pressed_adjustment) = 3 * unat (8 :: u32) div 4 \<and> valid_capacity (adj_new pressed_adjustment)"
  using finish_epoch_adjustment [OF pressed_epoch_ends]
  by (simp add: pressed_epoch_def State_new_def valid_capacity_def CAP_MIN_def CAP_MAX_def)

section \<open>The percentile\<close>

lemma filter_prefix:
  assumes "\<And>i. i \<le> k \<Longrightarrow> P (xs ! i)" and "k < length xs"
  shows "Suc k \<le> length (filter P xs)"
proof -
  have "\<forall>x \<in> set (take (Suc k) xs). P x" using assms by (auto simp: in_set_conv_nth)
  then have "filter P (take (Suc k) xs) = take (Suc k) xs" by (simp add: filter_id_conv)
  moreover have "length (filter P xs) = length (filter P (take (Suc k) xs)) + length (filter P (drop (Suc k) xs))"
    by (metis append_take_drop_id filter_append length_append)
  ultimately show ?thesis using assms(2) by simp
qed

lemma filter_suffix:
  assumes "\<And>i. k \<le> i \<Longrightarrow> i < length xs \<Longrightarrow> \<not> P (xs ! i)"
  shows "length (filter P xs) \<le> k"
proof -
  have "\<forall>x \<in> set (drop k xs). \<not> P x" using assms by (auto simp: in_set_conv_nth)
  then have "filter P (drop k xs) = []" by (simp add: filter_empty_conv)
  moreover have "length (filter P xs) = length (filter P (take k xs)) + length (filter P (drop k xs))"
    by (metis append_take_drop_id filter_append length_append)
  ultimately show ?thesis using length_filter_le [of P "take k xs"] by simp
qed

lemma length_filter_sort_key: "length (filter P (sort_key f xs)) = length (filter P xs)"
  by (metis mset_filter mset_sort size_mset)

lemma sort_key_nth_mono: "i \<le> j \<Longrightarrow> j < length xs \<Longrightarrow> f (sort_key f xs ! i) \<le> f (sort_key f xs ! j)"
  using sorted_nth_mono [OF sorted_sort_key [of f xs], of i j] by simp

text \<open>
  The percentile of a non-empty list is the smallest of its values, in the total order of
  floating-point numbers, that at least 95 percent of the values do not exceed: fewer than 95
  percent lie below it.  Only the empty list has none.
\<close>

theorem percentile95_rank:
  "case percentile95 values of
     None \<Rightarrow> values = []
   | Some v \<Rightarrow> v \<in> set values \<and>
       95 * length values \<le> 100 * length (filter (\<lambda>x. total_key x \<le> total_key v) values) \<and>
       100 * length (filter (\<lambda>x. total_key x < total_key v) values) < 95 * length values"
proof (cases "values = []")
  case True
  then show ?thesis by (simp add: percentile95_def)
next
  case False
  let ?ys = "sort_key total_key values" and ?n = "length values"
  define k where "k = (?n * 95 + 99) div 100 - 1"
  have n: "0 < ?n" using False by simp
  have "1 \<le> (?n * 95 + 99) div 100" using n by linarith
  then have "Suc k = (?n * 95 + 99) div 100" unfolding k_def by simp
  then have "100 * Suc k \<le> ?n * 95 + 99" "?n * 95 + 99 < 100 * Suc k + 100"
    using div_times_less_eq_dividend [of "?n * 95 + 99" 100] dividend_less_div_times [of 100 "?n * 95 + 99"]
    by simp_all
  with n have k: "k < ?n" "95 * ?n \<le> 100 * Suc k" "100 * k < 95 * ?n" by auto
  have p: "percentile95 values = Some (?ys ! k)"
    using False k(1) unfolding k_def by (simp add: percentile95_def Let_def)
  have "Suc k \<le> length (filter (\<lambda>x. total_key x \<le> total_key (?ys ! k)) ?ys)"
    by (rule filter_prefix) (use k in \<open>simp_all add: sort_key_nth_mono\<close>)
  moreover have "length (filter (\<lambda>x. total_key x < total_key (?ys ! k)) ?ys) \<le> k"
    by (rule filter_suffix) (simp add: sort_key_nth_mono leD)
  moreover have "?ys ! k \<in> set values" using k(1) by (metis length_sort nth_mem set_sort)
  ultimately show ?thesis using k p by (simp add: length_filter_sort_key)
qed

section \<open>Emergencies\<close>

lemma optb_disjoint:
  "optb (\<lambda>v. f64_greater_eq v (Finite a)) m \<Longrightarrow> b \<le> a \<Longrightarrow> \<not> optb (\<lambda>v. f64_less v (Finite b)) m"
proof -
  have "f64_greater_eq v (Finite a) \<Longrightarrow> b \<le> a \<Longrightarrow> \<not> f64_less v (Finite b)" for v
    by (cases v) (auto simp: f64_greater_eq_def)
  then show "optb (\<lambda>v. f64_greater_eq v (Finite a)) m \<Longrightarrow> b \<le> a \<Longrightarrow> \<not> optb (\<lambda>v. f64_less v (Finite b)) m"
    by (auto simp: optb_iff)
qed

text \<open>The part of the state that governs a pause in an emergency.\<close>

definition held :: "bool \<Rightarrow> State \<Rightarrow> bool" where
  "held calm_before s \<longleftrightarrow> st_paused s \<and> st_memory_emergency s \<and>
     (st_recovery_streak s = 0 \<or> calm_before \<and> st_recovery_streak s = 1)"

lemma sample_holds:
  assumes "held calm_before s" and "\<not> (calm_before \<and> calm True cpu memory)"
  shows "held (calm True cpu memory) (State_record_sample cpu memory s)"
proof -
  have "held calm_before (enter_emergency memory s)" using assms(1) by (simp add: held_def enter_emergency_def)
  moreover have "held calm_before s' \<Longrightarrow> held calm_before (observe_pressure cpu memory s')" for s'
    by (simp add: held_def observe_pressure_def Let_def)
  moreover have "held calm_before s' \<Longrightarrow> held (calm True cpu memory) (observe_recovery cpu memory s')" for s'
    using assms(2) by (auto simp: held_def observe_recovery_def Let_def saturating_add_def word_le_nat_alt)
  moreover have "held calm_before s' \<Longrightarrow> st_memory_emergency s'" for s' by (simp add: held_def)
  ultimately show ?thesis by (simp add: State_record_sample_def Let_def)
qed

lemma finish_epoch_holds:
  assumes "held calm_before s" and "finish_epoch now minimum s = (a, s')"
  shows "held calm_before s'"
  using assms
  by (auto simp: finish_epoch_def reset_epoch_def held_def Let_def split: option.splits if_splits prod.splits)

lemma emergency_holds:
  assumes "optb (\<lambda>v. f64_greater_eq v MEMORY_EMERGENCY_PERCENT) memory"
  shows "held False (State_record_sample cpu memory s)"
proof -
  have "\<not> calm True cpu memory"
    using assms optb_disjoint [of 90 memory 85]
    by (simp add: calm_def MEMORY_EMERGENCY_PERCENT_def MEMORY_RECOVERY_PERCENT_def)
  with assms show ?thesis
    by (simp add: State_record_sample_def enter_emergency_def observe_pressure_def observe_recovery_def held_def Let_def)
qed

end
