(* ===== verification/Capacity_Broker.thy ===== *)
theory Capacity_Broker
  imports Capacity_Policy
begin

text \<open>
  The operations of the capacity broker, \<^verbatim>\<open>impl CapacityBroker\<close> of
  \<^verbatim>\<open>src/rust/control/src/capacity.rs\<close>.  A broker holds its state, the registered fixture handlers,
  the state of the source of random bytes and the row and events of its tables.

  Every operation runs under the lock of the state.  An adjustment of the capacity leaves the
  locked section of \<^verbatim>\<open>unregister_run\<close>, \<^verbatim>\<open>record_sample\<close>, \<^verbatim>\<open>cancel_pending\<close> and \<^verbatim>\<open>release\<close> as a
  \<open>write\<close> that is stored after the lock is given back, so that other operations may come
  between; \<^verbatim>\<open>set_cap\<close> stores its adjustment under the lock.  The outcome of a transaction (an
  error, or the time stamp and the id of the event) is a parameter, as is that of reading a table (\<open>read\<close>), as are the monotonic clock
  (\<open>now\<close>) and the least length of an epoch (\<open>minimum\<close>).
\<close>

section \<open>Data\<close>

record CapacityAdjustment =
  ca_event_id :: u64
  ca_at :: string
  ca_actor :: string
  ca_reason :: string
  ca_previous_capacity :: u32
  ca_new_capacity :: u32
  ca_cap :: "u32 option"
  ca_p95_cpu_percent :: "f64 option"
  ca_p95_memory_percent :: "f64 option"
  ca_saturation_fraction :: "f64 option"
  ca_epoch_seconds :: "f64 option"

record Capacity =
  cy_learned_capacity :: u32
  cy_effective_capacity :: u32
  cy_cap :: "u32 option"
  cy_active :: u32
  cy_waiting :: u32
  cy_paused :: bool
  cy_last_adjustment :: "CapacityAdjustment option"

text \<open>The tables \<^verbatim>\<open>test_capacity_state\<close> (its one row) and \<^verbatim>\<open>test_capacity_events\<close>.\<close>

record CapacityStore =
  db_learned :: u32
  db_cap :: "u32 option"
  db_events :: "CapacityAdjustment list"

type_synonym capacity_write = "u32 \<times> u32 option \<times> Adjustment"
type_synonym transaction = "(ProtocolError, string \<times> u64) result"

record ('r, 'h) Broker =
  bk_state :: State
  bk_handlers :: "(string, 'h) btree_map"
  bk_random :: 'r
  bk_store :: CapacityStore

section \<open>Opening, storing and reporting\<close>

definition initial_capacity :: "nat \<Rightarrow> u32" where
  "initial_capacity logical_cpus =
     (let doubled = min (logical_cpus * 2) (2 ^ 64 - 1)
      in min (max (if doubled < 2 ^ 32 then of_nat doubled else CAP_MAX) CAP_MIN) CAP_MAX)"

definition with_adapters :: "(ProtocolError, CapacityStore option) result \<Rightarrow> nat \<Rightarrow> 'r \<Rightarrow> (ProtocolError, ('r, 'h) Broker) result" where
  "with_adapters read logical_cpus random = then_do read (\<lambda>stored.
      let store = (case stored of
          Some existing \<Rightarrow> existing
        | None \<Rightarrow> \<lparr>db_learned = initial_capacity logical_cpus, db_cap = None, db_events = []\<rparr>)
      in if \<not> valid_capacity (db_learned store) \<or> optb (\<lambda>cap. \<not> valid_capacity cap) (db_cap store)
         then Err (ProtocolError_new InternalError ''stored test capacity is invalid'')
         else Ok \<lparr>bk_state = State_new (db_learned store) (db_cap store), bk_handlers = [],
                  bk_random = random, bk_store = store\<rparr>)"

definition persist_adjustment :: "transaction \<Rightarrow> capacity_write \<Rightarrow> CapacityStore \<Rightarrow> (ProtocolError, unit) result \<times> CapacityStore" where
  "persist_adjustment tx w store =
     (case tx of
        Inl error \<Rightarrow> (Err error, store)
      | Inr (stamp, event_id) \<Rightarrow>
          (case w of (learned, cap, adjustment) \<Rightarrow>
            (Ok (),
             \<lparr>db_learned = learned, db_cap = cap,
              db_events = db_events store @
                [\<lparr>ca_event_id = event_id, ca_at = stamp, ca_actor = adj_actor adjustment,
                  ca_reason = adj_reason adjustment, ca_previous_capacity = adj_previous adjustment,
                  ca_new_capacity = adj_new adjustment, ca_cap = cap,
                  ca_p95_cpu_percent = adj_cpu adjustment, ca_p95_memory_percent = adj_memory adjustment,
                  ca_saturation_fraction = adj_saturation adjustment,
                  ca_epoch_seconds = adj_duration adjustment\<rparr>]\<rparr>)))"

text \<open>\<^verbatim>\<open>ORDER BY event_id DESC LIMIT 1\<close>.\<close>

definition newest_event :: "CapacityAdjustment list \<Rightarrow> CapacityAdjustment option" where
  "newest_event events =
     fold (\<lambda>e best. case best of None \<Rightarrow> Some e
                     | Some b \<Rightarrow> if ca_event_id b < ca_event_id e then Some e else Some b) events None"

definition snapshot :: "(ProtocolError, unit) result \<Rightarrow> ('r, 'h) Broker \<Rightarrow> (ProtocolError, Capacity) result" where
  "snapshot read b = then_do read (\<lambda>_. Ok (
      let s = bk_state b in
      \<lparr>cy_learned_capacity = st_learned s, cy_effective_capacity = effective s, cy_cap = st_cap s,
       cy_active = saturating_of_nat (length (st_active s)), cy_waiting = saturating_of_nat (waiting s),
       cy_paused = st_paused s, cy_last_adjustment = newest_event (db_events (bk_store b))\<rparr>))"

definition store_write :: "transaction \<Rightarrow> capacity_write \<Rightarrow> ('r, 'h) Broker \<Rightarrow> (ProtocolError, unit) result \<times> ('r, 'h) Broker" where
  "store_write tx w b =
     (let (result, store) = persist_adjustment tx w (bk_store b) in (result, b\<lparr>bk_store := store\<rparr>))"

text \<open>An operation whose locked section may leave an adjustment to store.\<close>

definition store_after :: "transaction \<Rightarrow> (ProtocolError, capacity_write option) result \<times> ('r, 'h) Broker
    \<Rightarrow> (ProtocolError, unit) result \<times> ('r, 'h) Broker" where
  "store_after tx locked =
     (case locked of
        (Inl error, b) \<Rightarrow> (Err error, b)
      | (Inr None, b) \<Rightarrow> (Ok (), b)
      | (Inr (Some w), b) \<Rightarrow> store_write tx w b)"

section \<open>Runs\<close>

definition valid_run_id :: "string \<Rightarrow> bool" where
  "valid_run_id run \<longleftrightarrow> run \<noteq> [] \<and> length run \<le> 128 \<and>
     list_all (\<lambda>(index, byte). is_ascii_alphanumeric byte \<or> 0 < index \<and> byte \<in> set ''._-'')
       (List.enumerate 0 run)"

definition validate_run_id :: "string \<Rightarrow> (ProtocolError, unit) result" where
  "validate_run_id run =
     (if valid_run_id run then Ok () else Err (ProtocolError_new ParamsInvalid ''run_id is invalid''))"

definition register_run :: "string \<Rightarrow> u32 \<Rightarrow> ('r, 'h) Broker \<Rightarrow> (ProtocolError, unit) result \<times> ('r, 'h) Broker" where
  "register_run run uid b =
     (case validate_run_id run of
        Inl error \<Rightarrow> (Err error, b)
      | Inr _ \<Rightarrow>
          if optb (\<lambda>existing. existing \<noteq> uid) (bt_get (st_registered_runs (bk_state b)) run)
          then (Err (ProtocolError_new PermissionDenied
                  (''run '' @ run @ '' is already registered to another uid'')), b)
          else (Ok (), b\<lparr>bk_state := (bk_state b)\<lparr>st_registered_runs :=
                  bt_insert run uid (st_registered_runs (bk_state b))\<rparr>\<rparr>))"

definition register_fixture_handler :: "string \<Rightarrow> 'h \<Rightarrow> ('r, 'h) Broker
    \<Rightarrow> (ProtocolError, unit) result \<times> ('r, 'h) Broker" where
  "register_fixture_handler run handler b =
     (if \<not> bt_contains (st_registered_runs (bk_state b)) run
      then (Err (ProtocolError_new PermissionDenied ''fixture run is not registered''), b)
      else (Ok (), b\<lparr>bk_handlers := bt_insert run handler (bk_handlers b)\<rparr>))"

definition register_resources :: "string \<Rightarrow> (string, ResourceClaim list) btree_map \<Rightarrow> ('r, 'h) Broker
    \<Rightarrow> (ProtocolError, unit) result \<times> ('r, 'h) Broker" where
  "register_resources run resources b =
     (if \<not> bt_contains (st_registered_runs (bk_state b)) run
      then (Err (ProtocolError_new PermissionDenied ''resource run is not registered''), b)
      else (Ok (), b\<lparr>bk_state := (bk_state b)\<lparr>st_resources :=
              bt_insert run resources (st_resources (bk_state b))\<rparr>\<rparr>))"

definition grant_broker :: "('r \<Rightarrow> (string, u8 list) result \<times> 'r) \<Rightarrow> ('r, 'h) Broker
    \<Rightarrow> (ProtocolError, unit) result \<times> ('r, 'h) Broker" where
  "grant_broker fill b =
     (case grant_ready fill (bk_random b) (bk_state b) of
        (result, random, s) \<Rightarrow> (result, b\<lparr>bk_random := random, bk_state := s\<rparr>))"

definition forget_run :: "string \<Rightarrow> State \<Rightarrow> State" where
  "forget_run run s =
     (let s = s\<lparr>st_registered_runs := bt_remove run (st_registered_runs s),
                st_resources := bt_remove run (st_resources s),
                st_reservations := bt_retain (\<lambda>_ reservation. rv_run_id reservation \<noteq> run) (st_reservations s)\<rparr>;
          s = (case bt_get (st_queues s) run of
                 None \<Rightarrow> s
               | Some queue \<Rightarrow> fold (deny_pending ''run is no longer active'') queue
                   (s\<lparr>st_queues := bt_remove run (st_queues s)\<rparr>))
      in s\<lparr>st_round_robin := filter (\<lambda>candidate. candidate \<noteq> run) (st_round_robin s),
           st_active := bt_retain (\<lambda>_ permit. ap_run_id permit \<noteq> run) (st_active s)\<rparr>)"

definition write_of :: "Adjustment option \<Rightarrow> State \<Rightarrow> capacity_write option" where
  "write_of adjustment s = map_option (\<lambda>a. (st_learned s, st_cap s, a)) adjustment"

definition unregister_handler :: "string \<Rightarrow> ('r, 'h) Broker \<Rightarrow> ('r, 'h) Broker" where
  "unregister_handler run b = b\<lparr>bk_handlers := bt_remove run (bk_handlers b)\<rparr>"

definition unregister_locked :: "('r \<Rightarrow> (string, u8 list) result \<times> 'r) \<Rightarrow> f64 \<Rightarrow> f64 \<Rightarrow> string
    \<Rightarrow> ('r, 'h) Broker \<Rightarrow> (ProtocolError, capacity_write option) result \<times> ('r, 'h) Broker" where
  "unregister_locked fill minimum now run b =
     (case finish_epoch now minimum (finish_run run now (forget_run run (bk_state b))) of
        (adjustment, s) \<Rightarrow>
          (case grant_broker fill (b\<lparr>bk_state := s\<rparr>) of
             (Inl error, b) \<Rightarrow> (Err error, b)
           | (Inr _, b) \<Rightarrow> (Ok (write_of adjustment (bk_state b)), b)))"

definition unregister_run where
  "unregister_run fill minimum tx now run b =
     store_after tx (unregister_locked fill minimum now run (unregister_handler run b))"

section \<open>Capacity\<close>

definition set_cap_locked :: "('r \<Rightarrow> (string, u8 list) result \<times> 'r) \<Rightarrow> transaction \<Rightarrow> u32 option \<Rightarrow> string
    \<Rightarrow> ('r, 'h) Broker \<Rightarrow> (ProtocolError, unit) result \<times> ('r, 'h) Broker" where
  "set_cap_locked fill tx cap actor b =
     (let s = bk_state b in
      if st_cap s = cap then (Ok (), b)
      else
        let s' = s\<lparr>st_cap := cap\<rparr>;
            adjustment = \<lparr>adj_actor = actor, adj_reason = ''administrator_cap_changed'',
              adj_previous = effective s, adj_new = effective s', adj_cpu = None, adj_memory = None,
              adj_saturation = None, adj_duration = None\<rparr>
        in case store_write tx (st_learned s', cap, adjustment) (b\<lparr>bk_state := s'\<rparr>) of
             (Inl error, b') \<Rightarrow> (Err error, b'\<lparr>bk_state := (bk_state b')\<lparr>st_cap := st_cap s\<rparr>\<rparr>)
           | (Inr _, b') \<Rightarrow> grant_broker fill b')"

definition set_cap :: "('r \<Rightarrow> (string, u8 list) result \<times> 'r) \<Rightarrow> transaction \<Rightarrow> (ProtocolError, unit) result \<Rightarrow> u32 option \<Rightarrow> string
    \<Rightarrow> ('r, 'h) Broker \<Rightarrow> (ProtocolError, Capacity) result \<times> ('r, 'h) Broker" where
  "set_cap fill tx read cap actor b =
     (if optb (\<lambda>cap. \<not> valid_capacity cap) cap
      then (Err (ProtocolError_new ParamsInvalid ''cap must be null or an integer in 1..65535''), b)
      else case set_cap_locked fill tx cap actor b of
        (Inl error, b) \<Rightarrow> (Err error, b)
      | (Inr _, b) \<Rightarrow> (snapshot read b, b))"

definition record_sample_locked :: "('r \<Rightarrow> (string, u8 list) result \<times> 'r) \<Rightarrow> f64 \<Rightarrow> f64 \<Rightarrow> f64 option \<Rightarrow> f64 option
    \<Rightarrow> ('r, 'h) Broker \<Rightarrow> capacity_write option \<times> ('r, 'h) Broker" where
  "record_sample_locked fill minimum now cpu_percent memory_percent b =
     (case finish_epoch now minimum
             (State_record_sample (bounded_percent cpu_percent) (bounded_percent memory_percent) (bk_state b)) of
        (adjustment, s) \<Rightarrow>
          (let b = b\<lparr>bk_state := s\<rparr>; b = (if \<not> st_paused s then snd (grant_broker fill b) else b)
           in (write_of adjustment (bk_state b), b)))"

definition record_sample where
  "record_sample fill minimum tx now cpu_percent memory_percent b =
     (case record_sample_locked fill minimum now cpu_percent memory_percent b of
        (Some w, b) \<Rightarrow> snd (store_write tx w b)
      | (None, b) \<Rightarrow> b)"

section \<open>Reservations of resources\<close>

definition next_id :: "u64 \<Rightarrow> u64" where
  "next_id n = max (n + 1) 1"

definition queue_reservation :: "string \<Rightarrow> string \<Rightarrow> u32 \<Rightarrow> ('r, 'h) Broker
    \<Rightarrow> (ProtocolError, u64) result \<times> ('r, 'h) Broker" where
  "queue_reservation run check uid b =
     (let s = bk_state b in
      if st_stopping s \<or> bt_get (st_registered_runs s) run \<noteq> Some uid
      then (Err (ProtocolError_new PermissionDenied ''resource run identity is unavailable''), b)
      else case Option.bind (bt_get (st_resources s) run) (\<lambda>checks. bt_get checks check) of
        None \<Rightarrow> (Err (ProtocolError_new PermissionDenied ''resource check is not registered''), b)
      | Some claims \<Rightarrow>
          (Ok (st_next_pending_id s),
           b\<lparr>bk_state := s\<lparr>st_next_pending_id := next_id (st_next_pending_id s),
               st_reservations := bt_insert (st_next_pending_id s)
                 \<lparr>rv_run_id = run, rv_claims = claims, rv_granted = False\<rparr> (st_reservations s)\<rparr>\<rparr>))"

definition reservation_conflict :: "u64 \<Rightarrow> Reservation \<Rightarrow> (u64, Reservation) btree_map \<Rightarrow> bool" where
  "reservation_conflict reservation_id requested reservations =
     bt_any (\<lambda>other_id other. other_id \<noteq> reservation_id \<and> (rv_granted other \<or> other_id < reservation_id) \<and>
         list_ex (\<lambda>left. list_ex (ResourceClaim_conflicts left) (rv_claims other)) (rv_claims requested))
       reservations"

definition try_reservation :: "u64 \<Rightarrow> ('r, 'h) Broker \<Rightarrow> (ProtocolError, bool) result \<times> ('r, 'h) Broker" where
  "try_reservation reservation_id b =
     (let s = bk_state b in
      case bt_get (st_reservations s) reservation_id of
        None \<Rightarrow> (Err (ProtocolError_new PermissionDenied ''resource reservation ended''), b)
      | Some requested \<Rightarrow>
          if rv_granted requested then (Ok True, b)
          else if reservation_conflict reservation_id requested (st_reservations s) then (Ok False, b)
          else (Ok True, b\<lparr>bk_state := s\<lparr>st_reservations :=
                  bt_modify reservation_id (\<lambda>r. r\<lparr>rv_granted := True\<rparr>) (st_reservations s)\<rparr>\<rparr>))"

definition drop_reservation :: "u64 \<Rightarrow> ('r, 'h) Broker \<Rightarrow> ('r, 'h) Broker" where
  "drop_reservation reservation_id b =
     b\<lparr>bk_state := (bk_state b)\<lparr>st_reservations := bt_remove reservation_id (st_reservations (bk_state b))\<rparr>\<rparr>"

section \<open>Permits\<close>

definition add_request :: "string \<Rightarrow> string \<Rightarrow> State \<Rightarrow> State" where
  "add_request run leaf s =
     (let pending_id = st_next_pending_id s;
          queue = bt_get (st_queues s) run
      in s\<lparr>st_next_pending_id := next_id pending_id,
           st_round_robin := (if queue = None \<or> queue = Some [] then st_round_robin s @ [run] else st_round_robin s),
           st_queues := bt_insert run ((case queue of None \<Rightarrow> [] | Some q \<Rightarrow> q) @ [pending_id]) (st_queues s),
           st_pending := bt_insert pending_id
             \<lparr>pn_run_id = run, pn_leaf_id = leaf, pn_waited = False, pn_outcome = Waiting\<rparr> (st_pending s)\<rparr>)"

definition mark_waited :: "u64 \<Rightarrow> State \<Rightarrow> State" where
  "mark_waited pending_id s =
     s\<lparr>st_pending := bt_modify pending_id
         (\<lambda>p. if pn_outcome p = Waiting then p\<lparr>pn_waited := True\<rparr> else p) (st_pending s)\<rparr>"

definition enqueue :: "('r \<Rightarrow> (string, u8 list) result \<times> 'r) \<Rightarrow> f64 \<Rightarrow> string \<Rightarrow> string \<Rightarrow> u32 \<Rightarrow> ('r, 'h) Broker
    \<Rightarrow> (ProtocolError, u64) result \<times> ('r, 'h) Broker" where
  "enqueue fill now run leaf uid b =
     (let s = bk_state b in
      if st_stopping s \<or> bt_get (st_registered_runs s) run \<noteq> Some uid
      then (Err (ProtocolError_new PermissionDenied ''run identity is unavailable''), b)
      else
        let pending_id = st_next_pending_id s
        in case grant_broker fill (b\<lparr>bk_state := start_epoch run now (add_request run leaf s)\<rparr>) of
             (Inl error, b) \<Rightarrow> (Err error, b)
           | (Inr _, b) \<Rightarrow> (Ok pending_id, b\<lparr>bk_state := mark_waited pending_id (bk_state b)\<rparr>))"

definition broker_take_outcome :: "u64 \<Rightarrow> ('r, 'h) Broker \<Rightarrow> PendingOutcome option \<times> ('r, 'h) Broker" where
  "broker_take_outcome pending_id b =
     (let s = bk_state b; outcome = map_option pn_outcome (bt_get (st_pending s) pending_id)
      in (outcome,
          if optb (\<lambda>outcome. outcome \<noteq> Waiting) outcome
          then b\<lparr>bk_state := s\<lparr>st_pending := bt_remove pending_id (st_pending s)\<rparr>\<rparr> else b))"

definition unqueue :: "u64 \<Rightarrow> string \<Rightarrow> State \<Rightarrow> State" where
  "unqueue pending_id run s =
     (case bt_get (st_queues s) run of
        None \<Rightarrow> s
      | Some queue \<Rightarrow>
          if filter (\<lambda>candidate. candidate \<noteq> pending_id) queue = []
          then s\<lparr>st_queues := bt_remove run (st_queues s),
                 st_round_robin := filter (\<lambda>candidate. candidate \<noteq> run) (st_round_robin s)\<rparr>
          else s\<lparr>st_queues := bt_modify run (filter (\<lambda>candidate. candidate \<noteq> pending_id)) (st_queues s)\<rparr>)"

text \<open>
  The common end of \<^verbatim>\<open>cancel_pending\<close> and \<^verbatim>\<open>release\<close>: the run may have ended, free capacity is
  granted, and the epoch may have ended.
\<close>

definition settle :: "('r \<Rightarrow> (string, u8 list) result \<times> 'r) \<Rightarrow> f64 \<Rightarrow> f64 \<Rightarrow> string
    \<Rightarrow> ('r, 'h) Broker \<Rightarrow> (ProtocolError, capacity_write option) result \<times> ('r, 'h) Broker" where
  "settle fill minimum now run b =
     (case grant_broker fill (b\<lparr>bk_state := finish_run run now (bk_state b)\<rparr>) of
        (Inl error, b) \<Rightarrow> (Err error, b)
      | (Inr _, b) \<Rightarrow>
          (case finish_epoch now minimum (bk_state b) of
             (adjustment, s) \<Rightarrow> (Ok (write_of adjustment s), b\<lparr>bk_state := s\<rparr>)))"

definition cancel_locked :: "('r \<Rightarrow> (string, u8 list) result \<times> 'r) \<Rightarrow> f64 \<Rightarrow> f64 \<Rightarrow> u64
    \<Rightarrow> ('r, 'h) Broker \<Rightarrow> (ProtocolError, capacity_write option) result \<times> ('r, 'h) Broker" where
  "cancel_locked fill minimum now pending_id b =
     (let s = bk_state b in
      case bt_get (st_pending s) pending_id of
        None \<Rightarrow> (Ok None, b)
      | Some pending \<Rightarrow>
          (let s = s\<lparr>st_pending := bt_remove pending_id (st_pending s)\<rparr>;
               s = (case pn_outcome pending of
                      Granted grant \<Rightarrow> s\<lparr>st_active := bt_remove (gr_permit_id grant) (st_active s)\<rparr>
                    | _ \<Rightarrow> s)
           in settle fill minimum now (pn_run_id pending)
                (b\<lparr>bk_state := unqueue pending_id (pn_run_id pending) s\<rparr>)))"

definition cancel_pending where
  "cancel_pending fill minimum tx now pending_id b =
     store_after tx (cancel_locked fill minimum now pending_id b)"

definition release_locked :: "('r \<Rightarrow> (string, u8 list) result \<times> 'r) \<Rightarrow> f64 \<Rightarrow> f64 \<Rightarrow> string
    \<Rightarrow> ('r, 'h) Broker \<Rightarrow> (ProtocolError, capacity_write option) result \<times> ('r, 'h) Broker" where
  "release_locked fill minimum now permit_id b =
     (let s = bk_state b in
      case bt_get (st_active s) permit_id of
        None \<Rightarrow> (Ok None, b)
      | Some permit \<Rightarrow>
          settle fill minimum now (ap_run_id permit)
            (b\<lparr>bk_state := s\<lparr>st_active := bt_remove permit_id (st_active s)\<rparr>\<rparr>))"

definition release where
  "release fill minimum tx now permit_id b = store_after tx (release_locked fill minimum now permit_id b)"

definition is_active :: "string \<Rightarrow> ('r, 'h) Broker \<Rightarrow> bool" where
  "is_active permit_id b = bt_contains (st_active (bk_state b)) permit_id"

text \<open>The end of a connection (\<^verbatim>\<open>impl Drop for ConnectionPermit\<close>).\<close>

definition drop_connection where
  "drop_connection fill minimum tx tx' now pending_id permit_id b =
     (let b = (case permit_id of Some permit \<Rightarrow> snd (release fill minimum tx now permit b) | None \<Rightarrow> b)
      in snd (cancel_pending fill minimum tx' now pending_id b))"

definition stop :: "('r, 'h) Broker \<Rightarrow> ('r, 'h) Broker" where
  "stop b =
     b\<lparr>bk_state := (bk_state b)\<lparr>st_stopping := True,
         st_pending := bt_map (\<lambda>p. if pn_outcome p = Waiting
                                    then p\<lparr>pn_outcome := Denied ''broker shutting down''\<rparr> else p)
                         (st_pending (bk_state b)),
         st_queues := [], st_round_robin := [], st_active := [], st_reservations := [], st_resources := []\<rparr>\<rparr>"

section \<open>Requests\<close>

record AcquireRequest =
  aq_schema :: u8
  aq_action :: string
  aq_run_id :: string
  aq_leaf_id :: string

definition CAPACITY_PROTOCOL_SCHEMA :: u8 where "CAPACITY_PROTOCOL_SCHEMA = 1"

definition acceptable_request :: "AcquireRequest \<Rightarrow> bool" where
  "acceptable_request request \<longleftrightarrow> aq_schema request = CAPACITY_PROTOCOL_SCHEMA \<and>
     aq_action request \<in> {''acquire'', ''fixture'', ''reserve''} \<and> valid_run_id (aq_run_id request) \<and>
     aq_leaf_id request \<noteq> [] \<and> length (aq_leaf_id request) \<le> 512"

text \<open>The handler a fixture request may run: its run is registered to the peer and holds a permit
  for the leaf.\<close>

definition authorized_fixture :: "AcquireRequest \<Rightarrow> u32 \<Rightarrow> ('r, 'h) Broker \<Rightarrow> 'h option" where
  "authorized_fixture request peer_uid b =
     (let s = bk_state b in
      if bt_get (st_registered_runs s) (aq_run_id request) = Some peer_uid \<and>
         bt_any (\<lambda>_ permit. ap_run_id permit = aq_run_id request \<and> ap_leaf_id permit = aq_leaf_id request)
           (st_active s)
      then bt_get (bk_handlers b) (aq_run_id request) else None)"

end
