(* ===== verification/Capacity_Safety.thy ===== *)
theory Capacity_Safety
  imports Capacity_Broker
begin

text \<open>
  Reachable states of the capacity broker.  A configuration is a broker with the writes that
  operations have left to store; \<open>broker_step\<close> is one locked section of an operation or one
  transaction.  The invariant says that the capacity and its administrative cap are in range, in
  memory, in the table and in every outstanding write; that requests wait in exactly the queues
  the round robin visits; that permits, reservations and queues belong to registered runs; that
  granted reservations exclude each other; and that a stopped broker holds nothing.
\<close>

section \<open>Steps\<close>

type_synonym ('r, 'h) config = "('r, 'h) Broker \<times> capacity_write list"

definition left_to_store :: "(ProtocolError, capacity_write option) result \<Rightarrow> capacity_write list" where
  "left_to_store result = (case result of Inr (Some w) \<Rightarrow> [w] | _ \<Rightarrow> [])"

text \<open>
  The ids of requests and reservations are not reused while the 64-bit counter has not been
  exhausted, which the two rules that draw an id require.
\<close>

definition exhausted :: "('r, 'h) Broker \<Rightarrow> bool" where
  "exhausted b \<longleftrightarrow> st_next_pending_id (bk_state b) = - 1"

inductive broker_step :: "('r \<Rightarrow> (string, u8 list) result \<times> 'r) \<Rightarrow> f64 \<Rightarrow> ('r, 'h) config \<Rightarrow> ('r, 'h) config \<Rightarrow> bool"
  for fill minimum where
  register: "register_run run uid b = (result, b') \<Longrightarrow> broker_step fill minimum (b, ws) (b', ws)"
| handler: "register_fixture_handler run h b = (result, b') \<Longrightarrow> broker_step fill minimum (b, ws) (b', ws)"
| resources: "register_resources run claims b = (result, b') \<Longrightarrow> broker_step fill minimum (b, ws) (b', ws)"
| forget_handler: "broker_step fill minimum (b, ws) (unregister_handler run b, ws)"
| unregister: "unregister_locked fill minimum now run b = (result, b') \<Longrightarrow>
    broker_step fill minimum (b, ws) (b', ws @ left_to_store result)"
| set_cap: "set_cap fill tx read cap actor b = (answer, b') \<Longrightarrow> broker_step fill minimum (b, ws) (b', ws)"
| sample: "record_sample_locked fill minimum now cpu memory b = (w, b') \<Longrightarrow>
    broker_step fill minimum (b, ws) (b', ws @ left_to_store (Ok w))"
| reserve: "\<not> exhausted b \<Longrightarrow> queue_reservation run check uid b = (drawn, b') \<Longrightarrow>
    broker_step fill minimum (b, ws) (b', ws)"
| try_reserve: "try_reservation i b = (verdict, b') \<Longrightarrow> broker_step fill minimum (b, ws) (b', ws)"
| drop_reserve: "broker_step fill minimum (b, ws) (drop_reservation i b, ws)"
| enqueue: "\<not> exhausted b \<Longrightarrow> enqueue fill now run leaf uid b = (drawn, b') \<Longrightarrow>
    broker_step fill minimum (b, ws) (b', ws)"
| take: "broker_take_outcome i b = (outcome, b') \<Longrightarrow> broker_step fill minimum (b, ws) (b', ws)"
| cancel: "cancel_locked fill minimum now i b = (result, b') \<Longrightarrow>
    broker_step fill minimum (b, ws) (b', ws @ left_to_store result)"
| release: "release_locked fill minimum now permit b = (result, b') \<Longrightarrow>
    broker_step fill minimum (b, ws) (b', ws @ left_to_store result)"
| stop: "broker_step fill minimum (b, ws) (stop b, ws)"
| store: "broker_step fill minimum (b, us @ w # vs) (snd (store_write tx w b), us @ vs)"

definition broker_initial :: "('r, 'h) config \<Rightarrow> bool" where
  "broker_initial c \<longleftrightarrow> (\<exists>read cpus r. with_adapters read cpus r = Ok (fst c)) \<and> snd c = []"

section \<open>Invariant\<close>

definition valid_cap :: "u32 option \<Rightarrow> bool" where
  "valid_cap cap \<longleftrightarrow> \<not> optb (\<lambda>cap. \<not> valid_capacity cap) cap"

definition waits :: "State \<Rightarrow> string \<Rightarrow> u64 \<Rightarrow> bool" where
  "waits s run i \<longleftrightarrow> optb (\<lambda>p. pn_run_id p = run \<and> pn_outcome p = Waiting) (bt_get (st_pending s) i)"

definition queues_inv :: "State \<Rightarrow> bool" where
  "queues_inv s \<longleftrightarrow> bt_ok (st_queues s) \<and> bt_ok (st_pending s) \<and> distinct (st_round_robin s) \<and>
     set (st_round_robin s) = dom (bt_get (st_queues s)) \<and>
     (\<forall>run q. bt_get (st_queues s) run = Some q \<longrightarrow>
        q \<noteq> [] \<and> distinct q \<and> bt_contains (st_registered_runs s) run \<and> (\<forall>i \<in> set q. waits s run i))"

definition ownership_inv :: "State \<Rightarrow> bool" where
  "ownership_inv s \<longleftrightarrow> bt_ok (st_registered_runs s) \<and> bt_ok (st_active s) \<and> bt_ok (st_reservations s) \<and>
     (\<forall>i p. bt_get (st_active s) i = Some p \<longrightarrow> bt_contains (st_registered_runs s) (ap_run_id p)) \<and>
     (\<forall>i v. bt_get (st_reservations s) i = Some v \<longrightarrow> bt_contains (st_registered_runs s) (rv_run_id v))"

definition claims_of :: "State \<Rightarrow> u64 \<Rightarrow> ResourceClaim list" where
  "claims_of s = (\<lambda>i. case bt_get (st_reservations s) i of None \<Rightarrow> [] | Some v \<Rightarrow> rv_claims v)"

definition granted_ids :: "State \<Rightarrow> u64 set" where
  "granted_ids s = {i. optb rv_granted (bt_get (st_reservations s) i)}"

definition reservations_inv :: "State \<Rightarrow> bool" where
  "reservations_inv s \<longleftrightarrow> exclusive ResourceClaim_conflicts (claims_of s) (granted_ids s)"

definition ids_inv :: "State \<Rightarrow> bool" where
  "ids_inv s \<longleftrightarrow> (\<forall>i. bt_contains (st_pending s) i \<or> bt_contains (st_reservations s) i \<longrightarrow> i < st_next_pending_id s)"

definition stopped_inv :: "State \<Rightarrow> bool" where
  "stopped_inv s \<longleftrightarrow> st_stopping s \<longrightarrow>
     st_queues s = [] \<and> st_round_robin s = [] \<and> st_active s = [] \<and> st_reservations s = [] \<and>
     (\<forall>i p. bt_get (st_pending s) i = Some p \<longrightarrow> pn_outcome p \<noteq> Waiting)"

definition core_inv :: "State \<Rightarrow> bool" where
  "core_inv s \<longleftrightarrow> queues_inv s \<and> ownership_inv s \<and> reservations_inv s \<and> ids_inv s \<and> stopped_inv s"

lemmas core_inv_defs = core_inv_def queues_inv_def ownership_inv_def reservations_inv_def ids_inv_def
  stopped_inv_def

definition capacity_inv :: "State \<Rightarrow> bool" where
  "capacity_inv s \<longleftrightarrow> valid_capacity (st_learned s) \<and> valid_cap (st_cap s)"

fun write_ok :: "capacity_write \<Rightarrow> bool" where
  "write_ok (learned, cap, adjustment) \<longleftrightarrow> valid_capacity learned \<and> valid_cap cap"

definition broker_inv :: "('r, 'h) config \<Rightarrow> bool" where
  "broker_inv c \<longleftrightarrow> core_inv (bk_state (fst c)) \<and> capacity_inv (bk_state (fst c)) \<and>
     valid_capacity (db_learned (bk_store (fst c))) \<and> valid_cap (db_cap (bk_store (fst c))) \<and>
     list_all write_ok (snd c)"

section \<open>What an operation leaves alone\<close>

text \<open>The part of the state that permits, queues and reservations live in.\<close>

definition same_core :: "State \<Rightarrow> State \<Rightarrow> bool" where
  "same_core s s' \<longleftrightarrow> st_registered_runs s' = st_registered_runs s \<and> st_resources s' = st_resources s \<and>
     st_reservations s' = st_reservations s \<and> st_queues s' = st_queues s \<and>
     st_round_robin s' = st_round_robin s \<and> st_pending s' = st_pending s \<and> st_active s' = st_active s \<and>
     st_next_pending_id s' = st_next_pending_id s \<and> st_stopping s' = st_stopping s \<and> st_cap s' = st_cap s"

lemma same_core_refl [simp]: "same_core s s"
  by (simp add: same_core_def)

lemma same_core_trans: "same_core s t \<Longrightarrow> same_core t u \<Longrightarrow> same_core s u"
  by (simp add: same_core_def)

lemma same_core_inv: "same_core s s' \<Longrightarrow> core_inv s' = core_inv s"
  by (simp add: same_core_def core_inv_defs waits_def claims_of_def granted_ids_def)

lemma finish_run_core: "same_core s (finish_run run now s)"
  and finish_run_learned: "st_learned (finish_run run now s) = st_learned s"
  by (simp_all add: finish_run_def same_core_def split: option.splits)

lemma start_epoch_core: "same_core s (start_epoch run now s)"
  and start_epoch_learned: "st_learned (start_epoch run now s) = st_learned s"
  by (simp_all add: start_epoch_def same_core_def Let_def)

lemma reset_epoch_core: "same_core s (reset_epoch live now s)"
  and reset_epoch_learned: "st_learned (reset_epoch live now s) = st_learned s"
  by (simp_all add: reset_epoch_def same_core_def Let_def)

lemma enter_emergency_core: "same_core s (enter_emergency memory s)"
  and enter_emergency_learned: "st_learned (enter_emergency memory s) = st_learned s"
  by (simp_all add: enter_emergency_def same_core_def)

lemma observe_pressure_core: "same_core s (observe_pressure cpu memory s)"
  and observe_pressure_learned: "st_learned (observe_pressure cpu memory s) = st_learned s"
  by (simp_all add: observe_pressure_def same_core_def Let_def)

lemma observe_recovery_core: "same_core s (observe_recovery cpu memory s)"
  and observe_recovery_learned: "st_learned (observe_recovery cpu memory s) = st_learned s"
  by (simp_all add: observe_recovery_def same_core_def Let_def)

lemma record_sample_core: "same_core s (State_record_sample cpu memory s)"
proof -
  let ?e = "enter_emergency memory s"
  have "same_core ?e (observe_recovery cpu memory (observe_pressure cpu memory ?e))"
    by (rule same_core_trans [OF observe_pressure_core observe_recovery_core])
  then have "same_core s (observe_recovery cpu memory (observe_pressure cpu memory ?e))"
    by (rule same_core_trans [OF enter_emergency_core])
  then show ?thesis by (simp only: State_record_sample_def Let_def enter_emergency_core split: if_split) simp
qed

lemma record_sample_learned: "st_learned (State_record_sample cpu memory s) = st_learned s"
  by (simp add: State_record_sample_def Let_def enter_emergency_learned observe_pressure_learned
      observe_recovery_learned)

lemma finish_epoch_result:
  "finish_epoch now minimum s = (a, s') \<Longrightarrow>
     a = None \<and> s' = s \<or> (\<exists>live. a = None \<and> s' = reset_epoch live now s) \<or>
     (\<exists>live adj. a = Some adj \<and> s' = reset_epoch live now (s\<lparr>st_learned := adj_new adj\<rparr>))"
  by (auto simp: finish_epoch_def Let_def split: option.splits if_splits prod.splits)

lemma finish_epoch_core: "finish_epoch now minimum s = (a, s') \<Longrightarrow> same_core s s'"
proof -
  have "same_core s (reset_epoch live now (s\<lparr>st_learned := n\<rparr>))" for live n
    by (rule same_core_trans [OF _ reset_epoch_core]) (simp add: same_core_def)
  then show "finish_epoch now minimum s = (a, s') \<Longrightarrow> same_core s s'"
    using reset_epoch_core by (auto dest!: finish_epoch_result)
qed

section \<open>Granting keeps the invariant\<close>

lemma grant_ready_keeps:
  assumes continue: "\<And>r s r' s'. grant_turn fill r s = Continue r' s' \<Longrightarrow> P s \<Longrightarrow> P s'"
    and fail: "\<And>r s e r' s'. grant_turn fill r s = Fail e r' s' \<Longrightarrow> P s \<Longrightarrow> P s'"
  shows "P s \<Longrightarrow> grant_ready fill r s = (result, r', s') \<Longrightarrow> P s'"
  using assms
proof (induction fill r s rule: grant_ready.induct)
  case (1 fill r s)
  show ?case
  proof (cases "grant_turn fill r s")
    case Stop
    with "1.prems" show ?thesis by (simp add: grant_ready.simps [of fill r s])
  next
    case (Continue r1 s1)
    then have "grant_ready fill r1 s1 = (result, r', s')"
      using "1.prems"(2) by (simp add: grant_ready.simps [of fill r s])
    with Continue "1.IH" [OF Continue] "1.prems" show ?thesis by blast
  next
    case (Fail e r1 s1)
    with "1.prems" show ?thesis by (auto simp: grant_ready.simps [of fill r s])
  qed
qed

text \<open>A turn that serves the head of the queue of the run at the front of the round robin.\<close>

definition serve :: "string \<Rightarrow> string list \<Rightarrow> State \<Rightarrow> State" where
  "serve run rest s = dequeue run (s\<lparr>st_round_robin := rest\<rparr>)"

lemma front_queue:
  assumes "queues_inv s" and "st_round_robin s = run # rest"
  obtains i q where "bt_get (st_queues s) run = Some (i # q)" "bt_contains (st_registered_runs s) run"
    "waits s run i"
proof -
  have "run \<in> dom (bt_get (st_queues s))" using assms by (auto simp: queues_inv_def)
  then obtain q where q: "bt_get (st_queues s) run = Some q" by blast
  with assms(1) have "q \<noteq> []" "bt_contains (st_registered_runs s) run" "\<forall>i \<in> set q. waits s run i"
    by (auto simp: queues_inv_def)
  with q that show ?thesis by (cases q) auto
qed

lemma dequeue_simps [simp]:
  "st_registered_runs (dequeue run s) = st_registered_runs s" "st_active (dequeue run s) = st_active s"
  "st_pending (dequeue run s) = st_pending s" "st_reservations (dequeue run s) = st_reservations s"
  "st_resources (dequeue run s) = st_resources s" "st_next_pending_id (dequeue run s) = st_next_pending_id s"
  "st_stopping (dequeue run s) = st_stopping s" "st_learned (dequeue run s) = st_learned s"
  "st_cap (dequeue run s) = st_cap s" "st_paused (dequeue run s) = st_paused s"
  by (simp_all add: dequeue_def)

lemma grant_turn_serves:
  assumes inv: "queues_inv s" and rr: "st_round_robin s = run # rest"
    and room: "\<not> st_paused s" "length (st_active s) < unat (effective s)"
    and q: "bt_get (st_queues s) run = Some (i # q)"
  shows "grant_turn fill r s =
     (case unique_permit_id fill r (st_active s) of
        (Inl error, r') \<Rightarrow> Fail error r' (serve run rest s)
      | (Inr permit, r') \<Rightarrow> Continue r' (grant_pending permit i (serve run rest s)))"
proof -
  have "bt_contains (st_registered_runs s) run" using front_queue [OF inv rr] by blast
  with rr room q show ?thesis
    by (simp add: grant_turn_def serve_def Let_def split: prod.splits sum.splits)
qed

lemma grant_turn_stops:
  assumes inv: "queues_inv s"
  shows "grant_turn fill r s = Stop \<longleftrightarrow>
     st_paused s \<or> unat (effective s) \<le> length (st_active s) \<or> st_round_robin s = []"
proof (cases "st_paused s \<or> unat (effective s) \<le> length (st_active s) \<or> st_round_robin s = []")
  case True
  then show ?thesis by (auto simp: grant_turn_def)
next
  case False
  then obtain run rest where rr: "st_round_robin s = run # rest" by (cases "st_round_robin s") auto
  obtain i q where "bt_get (st_queues s) run = Some (i # q)" using front_queue [OF inv rr] .
  with False rr inv show ?thesis by (simp add: grant_turn_serves split: prod.splits sum.splits)
qed

lemma serve_fields [simp]:
  "st_registered_runs (serve run rest s) = st_registered_runs s" "st_active (serve run rest s) = st_active s"
  "st_pending (serve run rest s) = st_pending s" "st_reservations (serve run rest s) = st_reservations s"
  "st_resources (serve run rest s) = st_resources s" "st_next_pending_id (serve run rest s) = st_next_pending_id s"
  "st_stopping (serve run rest s) = st_stopping s" "st_learned (serve run rest s) = st_learned s"
  "st_cap (serve run rest s) = st_cap s" "st_paused (serve run rest s) = st_paused s"
  by (simp_all add: serve_def)

lemma serve_queues:
  assumes "bt_get (st_queues s) run = Some (i # q)" and "bt_ok (st_queues s)"
  shows "bt_get (st_queues (serve run rest s)) = (bt_get (st_queues s))(run := if q = [] then None else Some q)"
    and "st_round_robin (serve run rest s) = rest @ (if q = [] then [] else [run])"
    and "bt_ok (st_queues (serve run rest s))"
  using assms by (simp_all add: serve_def dequeue_def bt_get_modify bt_get_remove)

lemma serve_queues_inv:
  assumes inv: "queues_inv s" and rr: "st_round_robin s = run # rest"
    and q: "bt_get (st_queues s) run = Some (i # q)"
  shows "queues_inv (serve run rest s)"
    and "bt_get (st_queues (serve run rest s)) run' = Some q' \<Longrightarrow> i \<notin> set q'"
proof -
  have ok: "bt_ok (st_queues s)" and dist: "distinct (run # rest)"
    and dom: "set (run # rest) = dom (bt_get (st_queues s))"
    and qs: "\<And>run q. bt_get (st_queues s) run = Some q \<Longrightarrow> q \<noteq> [] \<and> distinct q \<and>
               bt_contains (st_registered_runs s) run \<and> (\<forall>i \<in> set q. waits s run i)"
    using inv rr by (auto simp: queues_inv_def)
  note view = serve_queues [OF q ok, of rest]
  have waits: "waits (serve run rest s) = waits s" by (simp add: waits_def fun_eq_iff)
  show "queues_inv (serve run rest s)"
    unfolding queues_inv_def view waits
  proof (intro conjI allI impI)
    show "bt_ok (st_pending (serve run rest s))" using inv by (simp add: queues_inv_def)
    show "distinct (rest @ (if q = [] then [] else [run]))" using dist by simp
    show "set (rest @ (if q = [] then [] else [run])) =
        dom ((bt_get (st_queues s))(run := if q = [] then None else Some q))"
      using dom dist by auto
  next
    fix run' q' assume "((bt_get (st_queues s))(run := if q = [] then None else Some q)) run' = Some q'"
    then have "q' \<noteq> [] \<and> distinct q' \<and> bt_contains (st_registered_runs s) run' \<and> (\<forall>i \<in> set q'. waits s run' i)"
      using qs [OF q] qs [of run' q'] by (auto split: if_splits)
    then show "q' \<noteq> []" "distinct q'" "bt_contains (st_registered_runs (serve run rest s)) run'"
        "\<forall>i \<in> set q'. waits s run' i" by simp_all
  qed (use view in simp)
  assume q': "bt_get (st_queues (serve run rest s)) run' = Some q'"
  show "i \<notin> set q'"
  proof (cases "run' = run")
    case True
    with q' qs [OF q] show ?thesis by (auto simp: view split: if_splits)
  next
    case False
    with q' have "\<forall>j \<in> set q'. waits s run' j" using qs by (auto simp: view)
    moreover have "waits s run i" using qs [OF q] by simp
    ultimately show ?thesis using False by (auto simp: waits_def optb_iff)
  qed
qed

lemma grant_pending_fields [simp]:
  "st_registered_runs (grant_pending permit i s) = st_registered_runs s"
  "st_reservations (grant_pending permit i s) = st_reservations s"
  "st_resources (grant_pending permit i s) = st_resources s"
  "st_queues (grant_pending permit i s) = st_queues s"
  "st_round_robin (grant_pending permit i s) = st_round_robin s"
  "st_next_pending_id (grant_pending permit i s) = st_next_pending_id s"
  "st_stopping (grant_pending permit i s) = st_stopping s" "st_learned (grant_pending permit i s) = st_learned s"
  "st_cap (grant_pending permit i s) = st_cap s" "st_paused (grant_pending permit i s) = st_paused s"
  by (simp_all add: grant_pending_def split: option.splits)

lemma grant_pending_queues_inv:
  assumes inv: "queues_inv s" and free: "\<And>run q. bt_get (st_queues s) run = Some q \<Longrightarrow> i \<notin> set q"
  shows "queues_inv (grant_pending permit i s)"
proof -
  have "waits (grant_pending permit i s) run j" if "waits s run j" "j \<noteq> i" for run j
    using that by (auto simp: grant_pending_def waits_def bt_get_modify split: option.splits)
  moreover have "bt_ok (st_pending (grant_pending permit i s))"
    using inv by (simp add: queues_inv_def grant_pending_def split: option.splits)
  ultimately show ?thesis using inv free unfolding queues_inv_def by (auto; metis)
qed

lemma grant_pending_ownership:
  assumes "ownership_inv s" and "waits s run i" and "bt_contains (st_registered_runs s) run"
  shows "ownership_inv (grant_pending permit i s)"
  using assms by (auto simp: ownership_inv_def grant_pending_def waits_def optb_iff bt_get_insert split: if_splits)

lemma contains_modify [simp]: "bt_contains (bt_modify k f m) = bt_contains m"
  by (simp add: bt_contains_def bt_get_modify fun_eq_iff)

lemma grant_pending_ids: "ids_inv (grant_pending permit i s) = ids_inv s"
  by (simp add: ids_inv_def grant_pending_def split: option.splits)

lemma serve_ids: "ids_inv (serve run rest s) = ids_inv s"
  by (simp add: ids_inv_def)

lemma reservations_inv_cong: "st_reservations s' = st_reservations s \<Longrightarrow> reservations_inv s' = reservations_inv s"
  by (simp add: reservations_inv_def claims_of_def granted_ids_def)

lemma serve_core_inv:
  assumes inv: "core_inv s" and rr: "st_round_robin s = run # rest"
    and q: "bt_get (st_queues s) run = Some (i # q)"
  shows "core_inv (serve run rest s)" and "core_inv (grant_pending permit i (serve run rest s))"
proof -
  have qi: "queues_inv s" and live: "\<not> st_stopping s"
    using inv rr by (auto simp: core_inv_def stopped_inv_def)
  note serve_queues_inv [OF qi rr q]
  then have grant: "queues_inv (grant_pending permit i (serve run rest s))"
    by (intro grant_pending_queues_inv) auto
  have "waits s run i" "bt_contains (st_registered_runs s) run"
    using front_queue [OF qi rr] q by auto
  then have "ownership_inv (grant_pending permit i (serve run rest s))"
    using inv by (intro grant_pending_ownership [of _ run]) (auto simp: core_inv_def ownership_inv_def waits_def)
  with grant inv live show "core_inv (grant_pending permit i (serve run rest s))"
    using reservations_inv_cong [of "grant_pending permit i (serve run rest s)" s]
    by (simp add: core_inv_def stopped_inv_def grant_pending_ids serve_ids)
  show "core_inv (serve run rest s)"
    using inv live serve_queues_inv(1) [OF qi rr q] reservations_inv_cong [of "serve run rest s" s]
    by (simp add: core_inv_def stopped_inv_def serve_ids ownership_inv_def)
qed

text \<open>What a turn does in a state that satisfies the invariant.\<close>

lemma grant_turn_cases:
  assumes "queues_inv s"
  obtains (stop) "grant_turn fill r s = Stop"
        "st_paused s \<or> unat (effective s) \<le> length (st_active s) \<or> st_round_robin s = []"
    | (fail) run rest i q e r' where "grant_turn fill r s = Fail e r' (serve run rest s)"
        "st_round_robin s = run # rest" "bt_get (st_queues s) run = Some (i # q)"
        "unique_permit_id fill r (st_active s) = (Inl e, r')" "\<not> st_paused s" "length (st_active s) < unat (effective s)"
    | (grant) run rest i q permit r' where
        "grant_turn fill r s = Continue r' (grant_pending permit i (serve run rest s))"
        "st_round_robin s = run # rest" "bt_get (st_queues s) run = Some (i # q)"
        "unique_permit_id fill r (st_active s) = (Inr permit, r')" "\<not> st_paused s" "length (st_active s) < unat (effective s)"
proof (cases "grant_turn fill r s = Stop")
  case True
  show ?thesis by (rule stop [OF True]) (use grant_turn_stops [OF assms, of fill r] True in simp)
next
  case False
  then have room: "\<not> st_paused s" "length (st_active s) < unat (effective s)" "st_round_robin s \<noteq> []"
    using grant_turn_stops [OF assms, of fill r] by auto
  then obtain run rest where rr: "st_round_robin s = run # rest" by (cases "st_round_robin s") auto
  obtain i q where q: "bt_get (st_queues s) run = Some (i # q)" using front_queue [OF assms rr] .
  obtain u r' where u: "unique_permit_id fill r (st_active s) = (u, r')" by (rule prod.exhaust)
  note turn = grant_turn_serves [OF assms rr room(1,2) q, of fill r]
  show ?thesis
  proof (cases u)
    case (Inl e)
    then have "grant_turn fill r s = Fail e r' (serve run rest s)" using turn u by simp
    from fail [OF this rr q _ room(1,2)] u Inl show ?thesis by simp
  next
    case (Inr permit)
    then have "grant_turn fill r s = Continue r' (grant_pending permit i (serve run rest s))" using turn u by simp
    from grant [OF this rr q _ room(1,2)] u Inr show ?thesis by simp
  qed
qed

lemma grant_ready_core_inv:
  assumes "core_inv s" and "grant_ready fill r s = (result, r', s')"
  shows "core_inv s'"
proof (rule grant_ready_keeps [where P = core_inv, OF _ _ assms])
  fix r s r' s' assume turn: "grant_turn fill r s = Continue r' s'" and inv: "core_inv s"
  from inv have "queues_inv s" by (simp add: core_inv_def)
  then show "core_inv s'" by (cases rule: grant_turn_cases [of s fill r]) (use turn inv in \<open>auto simp: serve_core_inv\<close>)
next
  fix r s e r' s' assume turn: "grant_turn fill r s = Fail e r' s'" and inv: "core_inv s"
  from inv have "queues_inv s" by (simp add: core_inv_def)
  then show "core_inv s'" by (cases rule: grant_turn_cases [of s fill r]) (use turn inv in \<open>auto simp: serve_core_inv\<close>)
qed

section \<open>Every operation keeps the invariant\<close>

lemma core_inv_cap [simp]: "core_inv (s\<lparr>st_cap := cap\<rparr>) = core_inv s"
  by (simp add: core_inv_defs waits_def claims_of_def granted_ids_def)

lemma contains_insert: "bt_ok m \<Longrightarrow> bt_contains (bt_insert k v m) j \<longleftrightarrow> j = k \<or> bt_contains m j"
  by (simp add: bt_contains_def bt_get_insert)

lemma contains_remove: "bt_contains (bt_remove k m) j \<longleftrightarrow> j \<noteq> k \<and> bt_contains m j"
  by (simp add: bt_contains_def bt_get_remove)

lemma contains_get: "bt_get m k = Some v \<Longrightarrow> bt_contains m k"
  by (simp add: bt_contains_def)

lemma register_core:
  assumes "core_inv s" shows "core_inv (s\<lparr>st_registered_runs := bt_insert run uid (st_registered_runs s)\<rparr>)"
  using assms
  by (auto simp: core_inv_defs waits_def claims_of_def granted_ids_def contains_insert)

lemma resources_core:
  assumes "core_inv s" shows "core_inv (s\<lparr>st_resources := m\<rparr>)"
  using assms by (simp add: core_inv_defs waits_def claims_of_def granted_ids_def)

text \<open>Denying requests.\<close>

lemma fold_deny_fields:
  "fold (deny_pending m) q s =
     s\<lparr>st_pending := fold (\<lambda>i. bt_modify i (\<lambda>p. p\<lparr>pn_outcome := Denied m\<rparr>)) q (st_pending s)\<rparr>"
  by (induction q arbitrary: s) (simp_all add: deny_pending_def)

lemma fold_modify_ok: "bt_ok (fold (\<lambda>i. bt_modify i f) q m) = bt_ok m"
  by (induction q arbitrary: m) simp_all

lemma fold_modify_contains: "bt_contains (fold (\<lambda>i. bt_modify i f) q m) = bt_contains m"
  by (induction q arbitrary: m) simp_all

lemma fold_modify_other: "i \<notin> set q \<Longrightarrow> bt_get (fold (\<lambda>i. bt_modify i f) q m) i = bt_get m i"
  by (induction q arbitrary: m) (simp_all add: bt_get_modify)

lemma queued_waits:
  "queues_inv s \<Longrightarrow> bt_get (st_queues s) run = Some q \<Longrightarrow> i \<in> set q \<Longrightarrow> waits s run i"
  by (simp add: queues_inv_def)

lemma waits_unique: "waits s run i \<Longrightarrow> waits s run' i \<Longrightarrow> run = run'"
  by (auto simp: waits_def optb_iff)

lemma queues_disjoint:
  "queues_inv s \<Longrightarrow> bt_get (st_queues s) run = Some q \<Longrightarrow> bt_get (st_queues s) run' = Some q' \<Longrightarrow>
     run \<noteq> run' \<Longrightarrow> i \<in> set q \<Longrightarrow> i \<notin> set q'"
  by (blast dest: queued_waits waits_unique)

lemma exclusive_same:
  "exclusive conflict claims S \<Longrightarrow> T \<subseteq> S \<Longrightarrow> (\<And>i. i \<in> T \<Longrightarrow> claims' i = claims i) \<Longrightarrow> exclusive conflict claims' T"
  by (simp add: exclusive_def subset_iff)

lemma queues_inv_intro:
  assumes "bt_ok (st_queues s)" "bt_ok (st_pending s)" "distinct (st_round_robin s)"
    and "set (st_round_robin s) = dom (bt_get (st_queues s))"
    and "\<And>run q. bt_get (st_queues s) run = Some q \<Longrightarrow> q \<noteq> [] \<and> distinct q \<and> bt_contains (st_registered_runs s) run"
    and "\<And>run q i. bt_get (st_queues s) run = Some q \<Longrightarrow> i \<in> set q \<Longrightarrow> waits s run i"
  shows "queues_inv s"
  using assms by (simp add: queues_inv_def)

lemma queues_invD:
  assumes "queues_inv s"
  shows "bt_ok (st_queues s)" "bt_ok (st_pending s)" "distinct (st_round_robin s)"
    "set (st_round_robin s) = dom (bt_get (st_queues s))"
    "bt_get (st_queues s) run = Some q \<Longrightarrow> q \<noteq> [] \<and> distinct q \<and> bt_contains (st_registered_runs s) run"
  using assms by (simp_all add: queues_inv_def)

lemma bt_remove_Nil [simp]: "bt_remove k [] = []"
  by (simp add: bt_remove_def)

lemma bt_remove_absent: "bt_get m k = None \<Longrightarrow> bt_remove k m = m"
  unfolding bt_remove_def by (rule filter_True) (auto simp: bt_get_None image_iff)

text \<open>The state after \<^verbatim>\<open>unregister_run\<close> has removed what belongs to a run.\<close>

lemma forget_run_fields:
  "st_registered_runs (forget_run run s) = bt_remove run (st_registered_runs s)"
  "st_active (forget_run run s) = bt_retain (\<lambda>_ permit. ap_run_id permit \<noteq> run) (st_active s)"
  "st_reservations (forget_run run s) = bt_retain (\<lambda>_ v. rv_run_id v \<noteq> run) (st_reservations s)"
  "st_queues (forget_run run s) = bt_remove run (st_queues s)"
  "st_round_robin (forget_run run s) = filter (\<lambda>candidate. candidate \<noteq> run) (st_round_robin s)"
  "st_pending (forget_run run s) =
     fold (\<lambda>i. bt_modify i (\<lambda>p. p\<lparr>pn_outcome := Denied ''run is no longer active''\<rparr>))
       (case bt_get (st_queues s) run of None \<Rightarrow> [] | Some q \<Rightarrow> q) (st_pending s)"
  "st_next_pending_id (forget_run run s) = st_next_pending_id s" "st_stopping (forget_run run s) = st_stopping s"
  "st_learned (forget_run run s) = st_learned s" "st_cap (forget_run run s) = st_cap s"
  by (simp_all add: forget_run_def Let_def fold_deny_fields bt_remove_absent split: option.splits)

lemma forget_run_core:
  assumes inv: "core_inv s" shows "core_inv (forget_run run s)"
  unfolding core_inv_def
proof (intro conjI)
  let ?q = "case bt_get (st_queues s) run of None \<Rightarrow> [] | Some q \<Rightarrow> q"
  have qi: "queues_inv s" and ow: "ownership_inv s" and rv: "reservations_inv s" and ids: "ids_inv s"
    and st: "stopped_inv s" using inv by (simp_all add: core_inv_def)
  note q = queues_invD [OF qi]
  have other: "run' \<noteq> run \<and> bt_get (st_queues s) run' = Some q'"
    if "bt_get (st_queues (forget_run run s)) run' = Some q'" for run' q'
    using that by (auto simp: forget_run_fields bt_get_remove split: if_splits)
  show "queues_inv (forget_run run s)"
  proof (rule queues_inv_intro)
    fix run' q' i assume "bt_get (st_queues (forget_run run s)) run' = Some q'" "i \<in> set q'"
    moreover from this other have "waits s run' i" "run' \<noteq> run" using queued_waits [OF qi] by blast+
    moreover from this have "i \<notin> set ?q"
      using queued_waits [OF qi, of run ?q i] waits_unique [of s run' i run] by (cases "bt_get (st_queues s) run") auto
    ultimately show "waits (forget_run run s) run' i"
      unfolding waits_def forget_run_fields by (subst fold_modify_other)
  next
    fix run' q' assume "bt_get (st_queues (forget_run run s)) run' = Some q'"
    with other q(5) show "q' \<noteq> [] \<and> distinct q' \<and> bt_contains (st_registered_runs (forget_run run s)) run'"
      by (auto simp: forget_run_fields contains_remove)
  qed (use q in \<open>auto simp: forget_run_fields bt_get_remove fold_modify_ok\<close>)
  show "ownership_inv (forget_run run s)"
    using ow by (auto simp: ownership_inv_def forget_run_fields bt_get_retain contains_remove split: option.splits if_splits)
  show "reservations_inv (forget_run run s)"
    using rv unfolding reservations_inv_def
    by (rule exclusive_same)
      (use ow in \<open>auto simp: granted_ids_def claims_of_def forget_run_fields ownership_inv_def optb_iff bt_get_retain
        split: option.splits if_splits\<close>)
  show "ids_inv (forget_run run s)"
    using ids ow by (auto simp: ids_inv_def forget_run_fields fold_modify_contains bt_contains_def bt_get_retain
        ownership_inv_def split: option.splits if_splits)
  show "stopped_inv (forget_run run s)"
    using st by (simp add: stopped_inv_def forget_run_fields bt_remove_def bt_retain_def)
qed

text \<open>New requests.\<close>

lemma next_id_greater:
  assumes "n \<noteq> - 1" shows "n < next_id n"
proof -
  have "unat n \<noteq> 2 ^ 64 - 1" using assms unat_minus_one [where 'n = 64] by (auto simp: word_unat_eq_iff)
  moreover have "unat n < 2 ^ LENGTH(64)" by (rule unsigned_less)
  ultimately have "unat n + 1 < 2 ^ 64" by simp
  then have "n < n + 1" by (simp add: word_less_nat_alt unat_add_bounded)
  then show ?thesis by (simp add: next_id_def less_max_iff_disj)
qed

lemma add_request_core:
  assumes inv: "core_inv s" and live: "\<not> st_stopping s" and reg: "bt_contains (st_registered_runs s) run"
    and room: "st_next_pending_id s \<noteq> - 1"
  shows "core_inv (add_request run leaf s)"
  unfolding core_inv_def
proof (intro conjI)
  let ?i = "st_next_pending_id s" and ?s = "add_request run leaf s"
  let ?q = "case bt_get (st_queues s) run of None \<Rightarrow> [] | Some q \<Rightarrow> q"
  have qi: "queues_inv s" and ow: "ownership_inv s" and rv: "reservations_inv s" and ids: "ids_inv s"
    using inv by (simp_all add: core_inv_def)
  note q = queues_invD [OF qi]
  have new: "bt_get (st_pending s) ?i = None" using ids by (auto simp: ids_inv_def bt_contains_def)
  have fields: "bt_get (st_queues ?s) = (bt_get (st_queues s))(run \<mapsto> ?q @ [?i])"
    "st_round_robin ?s = (if bt_get (st_queues s) run = None then st_round_robin s @ [run] else st_round_robin s)"
    "bt_ok (st_queues ?s)" "bt_ok (st_pending ?s)" "st_registered_runs ?s = st_registered_runs s"
    using q by (auto simp: add_request_def Let_def bt_get_insert)
  have waits: "waits s run' j \<Longrightarrow> waits ?s run' j" "waits ?s run ?i" for run' j
    using new q(2) by (auto simp: waits_def add_request_def Let_def bt_get_insert)
  have unqueued: "?i \<notin> set q'" if "bt_get (st_queues s) run' = Some q'" for run' q'
    using queued_waits [OF qi that, of ?i] new by (auto simp: waits_def)
  show "queues_inv ?s"
  proof (rule queues_inv_intro)
    show "distinct (st_round_robin ?s)" using q(3,4) by (auto simp: fields)
    show "set (st_round_robin ?s) = dom (bt_get (st_queues ?s))" using q(4) by (auto simp: fields)
    fix run' q' assume q': "bt_get (st_queues ?s) run' = Some q'"
    then show "q' \<noteq> [] \<and> distinct q' \<and> bt_contains (st_registered_runs ?s) run'"
      using q(5) unqueued reg
      by (auto simp: fields split: if_splits option.splits)
    fix j assume "j \<in> set q'"
    then show "waits ?s run' j" using q' waits queued_waits [OF qi]
      by (auto simp: fields split: if_splits option.splits)
  qed (simp_all add: fields)
  show "ownership_inv ?s" using ow by (simp add: ownership_inv_def add_request_def Let_def)
  show "reservations_inv ?s"
    using rv by (subst reservations_inv_cong [of ?s s]) (simp_all add: add_request_def Let_def)
  show "stopped_inv ?s" using live by (simp add: stopped_inv_def add_request_def Let_def)
  show "ids_inv ?s" using ids next_id_greater [OF room] q(2)
    by (fastforce simp: ids_inv_def add_request_def Let_def contains_insert)
qed

lemma mark_waited_core: "core_inv s \<Longrightarrow> core_inv (mark_waited i s)"
proof -
  have "waits (mark_waited i s) = waits s"
    by (auto simp: waits_def mark_waited_def bt_get_modify fun_eq_iff optb_iff)
  moreover assume "core_inv s"
  ultimately show ?thesis
    by (auto simp: core_inv_defs mark_waited_def claims_of_def granted_ids_def bt_get_modify split: if_splits)
qed

text \<open>Answered and cancelled requests.\<close>

lemma remove_pending_core:
  assumes inv: "core_inv s" and out: "\<And>run q. bt_get (st_queues s) run = Some q \<Longrightarrow> i \<notin> set q"
  shows "core_inv (s\<lparr>st_pending := bt_remove i (st_pending s)\<rparr>)"
proof -
  let ?s = "s\<lparr>st_pending := bt_remove i (st_pending s)\<rparr>"
  have qi: "queues_inv s" using inv by (simp add: core_inv_def)
  have "queues_inv ?s"
  proof (rule queues_inv_intro)
    fix run q j assume "bt_get (st_queues ?s) run = Some q" and "j \<in> set q"
    then have "waits s run j" "j \<noteq> i" using out queued_waits [OF qi] by auto
    then show "waits ?s run j" by (simp add: waits_def bt_get_remove)
  qed (use queues_invD [OF qi] in simp_all)
  with inv show ?thesis
    by (auto simp: core_inv_defs claims_of_def granted_ids_def contains_remove bt_get_remove split: if_splits)
qed

lemma unqueue_core:
  assumes inv: "core_inv s"
  shows "core_inv (unqueue i run s)"
proof (cases "bt_get (st_queues s) run")
  case None
  with inv show ?thesis by (simp add: unqueue_def)
next
  case (Some q)
  let ?s = "unqueue i run s" and ?q = "filter (\<lambda>j. j \<noteq> i) q"
  have qi: "queues_inv s" using inv by (simp add: core_inv_def)
  note d = queues_invD [OF qi]
  have view: "bt_get (st_queues ?s) = (bt_get (st_queues s))(run := if ?q = [] then None else Some ?q)"
    "st_round_robin ?s = (if ?q = [] then filter (\<lambda>c. c \<noteq> run) (st_round_robin s) else st_round_robin s)"
    "bt_ok (st_queues ?s)"
    using Some d(1) by (auto simp: unqueue_def bt_get_modify bt_get_remove)
  have same: "st_pending ?s = st_pending s" "st_active ?s = st_active s" "st_reservations ?s = st_reservations s"
    "st_registered_runs ?s = st_registered_runs s" "st_next_pending_id ?s = st_next_pending_id s"
    "st_stopping ?s = st_stopping s"
    using Some by (simp_all add: unqueue_def)
  have waits: "waits ?s = waits s" by (simp add: waits_def fun_eq_iff same)
  have "queues_inv ?s"
  proof (rule queues_inv_intro)
    fix run' q' assume q': "bt_get (st_queues ?s) run' = Some q'"
    then show "q' \<noteq> [] \<and> distinct q' \<and> bt_contains (st_registered_runs ?s) run'"
      using d(5) [OF Some] d(5) [of run' q'] by (auto simp: view same split: if_splits)
    fix j assume "j \<in> set q'"
    with q' show "waits ?s run' j"
      using queued_waits [OF qi Some, of j] queued_waits [OF qi, of run' q' j] by (auto simp: view waits split: if_splits)
  qed (use d Some in \<open>auto simp: view same\<close>)
  with inv Some show ?thesis
    by (auto simp: core_inv_def ownership_inv_def ids_inv_def stopped_inv_def same reservations_inv_cong [of ?s s])
qed

lemma unqueue_out:
  assumes qi: "queues_inv s" and p: "bt_get (st_pending s) i = Some p"
    and q: "bt_get (st_queues (unqueue i (pn_run_id p) s)) run = Some q"
  shows "i \<notin> set q"
proof (cases "run = pn_run_id p")
  case True
  with q show ?thesis by (auto simp: unqueue_def bt_get_modify bt_get_remove split: option.splits if_splits)
next
  case False
  with q have "bt_get (st_queues s) run = Some q"
    by (auto simp: unqueue_def bt_get_modify bt_get_remove split: option.splits if_splits)
  with False p show ?thesis using queued_waits [OF qi, of run q i] by (auto simp: waits_def)
qed

lemma remove_active_core: "core_inv s \<Longrightarrow> core_inv (s\<lparr>st_active := bt_remove permit (st_active s)\<rparr>)"
  by (auto simp: core_inv_defs claims_of_def granted_ids_def waits_def bt_get_remove split: if_splits)

lemma cancelled_core:
  assumes inv: "core_inv s" and p: "bt_get (st_pending s) i = Some p"
  shows "core_inv (unqueue i (pn_run_id p) (case pn_outcome p of
      Granted grant \<Rightarrow> (s\<lparr>st_pending := bt_remove i (st_pending s)\<rparr>)\<lparr>st_active := bt_remove (gr_permit_id grant) (st_active s)\<rparr>
    | _ \<Rightarrow> s\<lparr>st_pending := bt_remove i (st_pending s)\<rparr>))" (is "core_inv (unqueue i ?run ?s)")
proof -
  let ?u = "unqueue i ?run s"
  have qi: "queues_inv s" using inv by (simp add: core_inv_def)
  have u: "core_inv (?u\<lparr>st_pending := bt_remove i (st_pending ?u)\<rparr>)"
    by (rule remove_pending_core [OF unqueue_core [OF inv]]) (rule unqueue_out [OF qi p])
  have "st_pending ?u = st_pending s" "st_active ?u = st_active s"
    by (simp_all add: unqueue_def split: option.splits)
  moreover have "unqueue i ?run (s\<lparr>st_pending := P\<rparr>) = ?u\<lparr>st_pending := P\<rparr>"
    "unqueue i ?run (s\<lparr>st_pending := P, st_active := A\<rparr>) = ?u\<lparr>st_pending := P, st_active := A\<rparr>" for P A
    by (simp_all add: unqueue_def split: option.splits)
  ultimately show ?thesis using u remove_active_core [OF u] by (auto split: PendingOutcome.splits)
qed

definition deny_waiting :: "string \<Rightarrow> Pending \<Rightarrow> Pending" where
  "deny_waiting m p = (if pn_outcome p = Waiting then p\<lparr>pn_outcome := Denied m\<rparr> else p)"

lemma denied_not_waiting: "pn_outcome (deny_waiting m p) \<noteq> Waiting"
  by (simp add: deny_waiting_def)

lemma contains_Nil [simp]: "\<not> bt_contains [] k"
  by (simp add: bt_contains_def)

lemma contains_map [simp]: "bt_contains (bt_map f m) = bt_contains m"
  by (simp add: bt_contains_def bt_get_map fun_eq_iff)

lemma stop_core:
  assumes "core_inv (bk_state b)" shows "core_inv (bk_state (stop b))"
proof -
  have stop: "bk_state (stop b) = (bk_state b)\<lparr>st_stopping := True,
         st_pending := bt_map (deny_waiting ''broker shutting down'') (st_pending (bk_state b)),
         st_queues := [], st_round_robin := [], st_active := [], st_reservations := [], st_resources := []\<rparr>"
    unfolding stop_def deny_waiting_def by simp
  have "stopped_inv (bk_state (stop b))" unfolding stop
    by (auto simp: stopped_inv_def bt_get_map denied_not_waiting)
  with assms show ?thesis
    by (simp add: stop core_inv_def queues_inv_def ownership_inv_def reservations_inv_def ids_inv_def granted_ids_def)
qed

text \<open>Reservations.\<close>

lemma queue_reservation_core:
  assumes inv: "core_inv s" and "bt_contains (st_registered_runs s) run" and room: "st_next_pending_id s \<noteq> - 1"
    and "\<not> st_stopping s"
  shows "core_inv (s\<lparr>st_next_pending_id := next_id (st_next_pending_id s),
     st_reservations := bt_insert (st_next_pending_id s) \<lparr>rv_run_id = run, rv_claims = claims, rv_granted = False\<rparr>
       (st_reservations s)\<rparr>)" (is "core_inv ?s")
proof -
  let ?i = "st_next_pending_id s"
  have ok: "bt_ok (st_reservations s)" using inv by (simp add: core_inv_def ownership_inv_def)
  have new: "bt_get (st_reservations s) ?i = None" using inv by (auto simp: core_inv_def ids_inv_def bt_contains_def)
  have "granted_ids ?s = granted_ids s"
    using ok new by (auto simp: granted_ids_def bt_get_insert split: if_splits)
  moreover have "claims_of ?s i = claims_of s i" if "i \<in> granted_ids s" for i
    using ok new that by (auto simp: granted_ids_def claims_of_def bt_get_insert)
  ultimately have "reservations_inv ?s"
    using inv by (auto simp: core_inv_def reservations_inv_def intro: exclusive_same)
  moreover have "ids_inv ?s" using inv next_id_greater [OF room] ok
    by (fastforce simp: core_inv_def ids_inv_def contains_insert)
  moreover have "ownership_inv ?s" using inv ok assms(2)
    by (auto simp: core_inv_def ownership_inv_def bt_get_insert split: if_splits)
  ultimately show ?thesis using inv assms(4) by (simp add: core_inv_def queues_inv_def stopped_inv_def waits_def)
qed

lemma no_reservation_conflict:
  assumes "bt_ok m" and "\<not> reservation_conflict i v m" and "bt_get m j = Some w" and "j \<noteq> i"
    and "rv_granted w \<or> j < i"
  shows "compatible ResourceClaim_conflicts (rv_claims v) (rv_claims w)"
  using assms by (auto simp: reservation_conflict_def bt_any_iff compatible_def list_ex_iff)

lemma grant_reservation_core:
  assumes inv: "core_inv s" and v: "bt_get (st_reservations s) i = Some v"
    and free: "\<not> reservation_conflict i v (st_reservations s)"
  shows "core_inv (s\<lparr>st_reservations := bt_modify i (\<lambda>r. r\<lparr>rv_granted := True\<rparr>) (st_reservations s)\<rparr>)" (is "core_inv ?s")
proof -
  have ok: "bt_ok (st_reservations s)" using inv by (simp add: core_inv_def ownership_inv_def)
  have ids: "granted_ids ?s = insert i (granted_ids s)"
    using v by (auto simp: granted_ids_def bt_get_modify)
  have claims: "claims_of ?s = claims_of s"
    using v by (auto simp: claims_of_def bt_get_modify fun_eq_iff)
  have "exclusive ResourceClaim_conflicts (claims_of s) (insert i (granted_ids s))"
  proof (rule resource.exclusive_insert)
    show "exclusive ResourceClaim_conflicts (claims_of s) (granted_ids s)"
      using inv by (simp add: core_inv_def reservations_inv_def)
    show "\<forall>j \<in> granted_ids s. i \<noteq> j \<longrightarrow> compatible ResourceClaim_conflicts (claims_of s i) (claims_of s j)"
      using no_reservation_conflict [OF ok free] v by (auto simp: granted_ids_def claims_of_def optb_iff)
  qed
  then have "reservations_inv ?s" by (simp add: reservations_inv_def ids claims)
  moreover have "stopped_inv ?s" using inv v by (auto simp: core_inv_def stopped_inv_def)
  moreover have "ownership_inv ?s" using inv
    by (auto simp: core_inv_def ownership_inv_def bt_get_modify split: if_splits)
  ultimately show ?thesis using inv
    by (simp add: core_inv_def queues_inv_def waits_def ids_inv_def)
qed

lemma drop_reservation_core:
  assumes inv: "core_inv s"
  shows "core_inv (s\<lparr>st_reservations := bt_remove i (st_reservations s)\<rparr>)" (is "core_inv ?s")
proof -
  have "reservations_inv ?s"
    using inv unfolding core_inv_def reservations_inv_def
    by (auto elim!: exclusive_same simp: granted_ids_def claims_of_def bt_get_remove)
  with inv show ?thesis
    by (auto simp: core_inv_def queues_inv_def waits_def ids_inv_def stopped_inv_def ownership_inv_def
        contains_remove bt_get_remove split: if_splits)
qed

section \<open>Steps keep the invariant\<close>

lemma grant_turn_capacity:
  "grant_turn fill r s = Continue r' s' \<Longrightarrow> st_learned s' = st_learned s \<and> st_cap s' = st_cap s"
  "grant_turn fill r s = Fail e r' s' \<Longrightarrow> st_learned s' = st_learned s \<and> st_cap s' = st_cap s"
  by (auto simp: grant_turn_def Let_def deny_pending_def split: if_splits list.splits option.splits prod.splits sum.splits)

lemma grant_ready_capacity:
  "grant_ready fill r s = (result, r', s') \<Longrightarrow> st_learned s' = st_learned s \<and> st_cap s' = st_cap s"
  by (rule grant_ready_keeps [where P = "\<lambda>t. st_learned t = st_learned s \<and> st_cap t = st_cap s"])
    (auto dest: grant_turn_capacity)

definition state_inv :: "State \<Rightarrow> bool" where
  "state_inv s \<longleftrightarrow> core_inv s \<and> capacity_inv s"

lemma grant_broker_keeps:
  assumes "grant_broker fill b = (result, b')" and "state_inv (bk_state b)"
  shows "state_inv (bk_state b')" and "bk_store b' = bk_store b"
  using assms grant_ready_capacity [of fill "bk_random b" "bk_state b"]
    grant_ready_core_inv [of "bk_state b" fill "bk_random b"]
  by (auto simp: grant_broker_def state_inv_def capacity_inv_def split: prod.splits)

lemma same_core_state_inv:
  "same_core s s' \<Longrightarrow> valid_capacity (st_learned s') \<Longrightarrow> state_inv s \<Longrightarrow> state_inv s'"
  unfolding state_inv_def capacity_inv_def by (simp add: same_core_inv) (simp add: same_core_def)

lemma finish_epoch_state_inv:
  "finish_epoch now minimum s = (a, s') \<Longrightarrow> state_inv s \<Longrightarrow> state_inv s'"
  by (rule same_core_state_inv [OF finish_epoch_core], assumption, rule finish_epoch_valid, assumption)
    (simp_all add: state_inv_def capacity_inv_def)

lemma finish_run_state_inv: "state_inv s \<Longrightarrow> state_inv (finish_run run now s)"
  by (rule same_core_state_inv [OF finish_run_core]) (auto simp: state_inv_def capacity_inv_def finish_run_learned)

lemma start_epoch_state_inv: "state_inv s \<Longrightarrow> state_inv (start_epoch run now s)"
  by (rule same_core_state_inv [OF start_epoch_core]) (auto simp: state_inv_def capacity_inv_def start_epoch_learned)

lemma record_sample_state_inv: "state_inv s \<Longrightarrow> state_inv (State_record_sample cpu memory s)"
  by (rule same_core_state_inv [OF record_sample_core])
    (auto simp: state_inv_def capacity_inv_def record_sample_learned)

lemma write_of_ok: "state_inv s \<Longrightarrow> list_all write_ok (left_to_store (Ok (write_of a s)))"
  by (cases a) (simp_all add: left_to_store_def write_of_def state_inv_def capacity_inv_def)

lemma settle_keeps:
  assumes "settle fill minimum now run b = (result, b')" and "state_inv (bk_state b)"
  shows "state_inv (bk_state b') \<and> bk_store b' = bk_store b \<and> list_all write_ok (left_to_store result)"
proof -
  let ?b = "b\<lparr>bk_state := finish_run run now (bk_state b)\<rparr>"
  obtain g b1 where g: "grant_broker fill ?b = (g, b1)" by (rule prod.exhaust)
  have b1: "state_inv (bk_state b1)" "bk_store b1 = bk_store b"
    using grant_broker_keeps [OF g] assms(2) by (simp_all add: finish_run_state_inv)
  show ?thesis
  proof (cases g)
    case (Inl e)
    with assms(1) g b1 show ?thesis by (auto simp: settle_def left_to_store_def)
  next
    case (Inr u)
    obtain a s where f: "finish_epoch now minimum (bk_state b1) = (a, s)" by (rule prod.exhaust)
    with assms(1) g Inr have "result = Ok (write_of a s)" "b' = b1\<lparr>bk_state := s\<rparr>" by (simp_all add: settle_def)
    with b1 finish_epoch_state_inv [OF f b1(1)] show ?thesis by (simp add: write_of_ok)
  qed
qed

lemma unregister_keeps:
  assumes "unregister_locked fill minimum now run b = (result, b')" and "state_inv (bk_state b)"
  shows "state_inv (bk_state b') \<and> bk_store b' = bk_store b \<and> list_all write_ok (left_to_store result)"
proof -
  have "state_inv (forget_run run (bk_state b))"
    using assms(2) by (simp add: state_inv_def capacity_inv_def forget_run_core forget_run_fields)
  moreover obtain a s where
    f: "finish_epoch now minimum (finish_run run now (forget_run run (bk_state b))) = (a, s)" by (rule prod.exhaust)
  ultimately have s: "state_inv s" using finish_epoch_state_inv [OF f] by (simp add: finish_run_state_inv)
  obtain g b1 where g: "grant_broker fill (b\<lparr>bk_state := s\<rparr>) = (g, b1)" by (rule prod.exhaust)
  with s have "state_inv (bk_state b1)" "bk_store b1 = bk_store b" using grant_broker_keeps [OF g] by simp_all
  with assms(1) f g show ?thesis
    using write_of_ok [of "bk_state b1" a]
    by (auto simp: unregister_locked_def left_to_store_def split: sum.splits)
qed

lemma effective_cong: "st_learned s' = st_learned s \<Longrightarrow> st_cap s' = st_cap s \<Longrightarrow> effective s' = effective s"
  by (simp add: effective_def split: option.splits)

lemma effective_updates [simp]:
  "effective (s\<lparr>st_pending := a\<rparr>) = effective s" "effective (s\<lparr>st_active := b\<rparr>) = effective s"
  "effective (s\<lparr>st_queues := c\<rparr>) = effective s" "effective (s\<lparr>st_round_robin := d\<rparr>) = effective s"
  "effective (s\<lparr>st_reservations := e\<rparr>) = effective s" "effective (s\<lparr>st_resources := f\<rparr>) = effective s"
  "effective (s\<lparr>st_registered_runs := g\<rparr>) = effective s" "effective (s\<lparr>st_next_pending_id := h\<rparr>) = effective s"
  by (simp_all add: effective_def split: option.splits)

text \<open>A turn leaves registrations alone and adds at most one permit, within the capacity.\<close>

definition turn_frame :: "State \<Rightarrow> State \<Rightarrow> bool" where
  "turn_frame s s' \<longleftrightarrow> st_registered_runs s' = st_registered_runs s \<and> st_stopping s' = st_stopping s \<and>
     effective s' = effective s \<and> length (st_active s') \<le> max (length (st_active s)) (unat (effective s))"

lemma bt_insert_length: "length (bt_insert k v m) \<le> Suc (length m)"
  by (induction k v m rule: bt_insert.induct) auto

lemma grant_pending_active: "length (st_active (grant_pending permit i s)) \<le> Suc (length (st_active s))"
  by (auto simp: grant_pending_def bt_insert_length split: option.splits)

lemma turn_frame_same:
  assumes "st_registered_runs s' = st_registered_runs s" "st_stopping s' = st_stopping s"
    "st_learned s' = st_learned s" "st_cap s' = st_cap s" "st_active s' = st_active s"
  shows "turn_frame s s'"
  using assms effective_cong [of s' s] by (simp add: turn_frame_def)

lemma grant_turn_frame:
  "grant_turn fill r s = Continue r' s' \<Longrightarrow> turn_frame s s'"
  "grant_turn fill r s = Fail e r' s' \<Longrightarrow> turn_frame s s'"
proof -
  have *: "turn_frame s (grant_pending permit i (dequeue run (s\<lparr>st_round_robin := rr\<rparr>)))"
    if "\<not> unat (effective s) \<le> length (st_active s)" for permit i run rr
    using that grant_pending_active [of permit i "dequeue run (s\<lparr>st_round_robin := rr\<rparr>)"]
      effective_cong [of "grant_pending permit i (dequeue run (s\<lparr>st_round_robin := rr\<rparr>))" s]
    by (simp add: turn_frame_def)
  have same: "turn_frame s (dequeue run (s\<lparr>st_round_robin := rr\<rparr>))" "turn_frame s (s\<lparr>st_round_robin := rr\<rparr>)"
    "turn_frame s (s\<lparr>st_round_robin := rr, st_queues := q\<rparr>)"
    "turn_frame s (deny_pending m i (dequeue run (s\<lparr>st_round_robin := rr\<rparr>)))" for run rr q m i
    by (rule turn_frame_same; simp add: deny_pending_def)+
  show "grant_turn fill r s = Continue r' s' \<Longrightarrow> turn_frame s s'"
    and "grant_turn fill r s = Fail e r' s' \<Longrightarrow> turn_frame s s'"
    using * same
    by (auto simp: grant_turn_def Let_def split: if_splits list.splits option.splits prod.splits sum.splits)
qed

lemma turn_frame_trans: "turn_frame s t \<Longrightarrow> turn_frame t u \<Longrightarrow> turn_frame s u"
  by (auto simp: turn_frame_def)

lemma grant_broker_frame:
  assumes "grant_broker fill b = (result, b')"
  shows "turn_frame (bk_state b) (bk_state b')"
proof -
  obtain r s where g: "grant_ready fill (bk_random b) (bk_state b) = (result, r, s)" "bk_state b' = s"
    using assms by (auto simp: grant_broker_def split: prod.splits)
  have "turn_frame (bk_state b) s"
    by (rule grant_ready_keeps [where P = "turn_frame (bk_state b)", OF _ _ _ g(1)])
      (auto intro: turn_frame_trans grant_turn_frame simp: turn_frame_def [of s s for s])
  with g show ?thesis by simp
qed

lemma unregister_forgets:
  assumes "unregister_locked fill minimum now run b = (result, b')"
  shows "st_registered_runs (bk_state b') = bt_remove run (st_registered_runs (bk_state b))"
proof -
  obtain a s where
    f: "finish_epoch now minimum (finish_run run now (forget_run run (bk_state b))) = (a, s)" by (rule prod.exhaust)
  have s: "st_registered_runs s = bt_remove run (st_registered_runs (bk_state b))"
    using finish_epoch_core [OF f] finish_run_core [of "forget_run run (bk_state b)" run now]
    by (simp add: same_core_def forget_run_fields)
  obtain g b1 where g: "grant_broker fill (b\<lparr>bk_state := s\<rparr>) = (g, b1)" by (rule prod.exhaust)
  have "bk_state b' = bk_state b1" using assms f g by (auto simp: unregister_locked_def split: sum.splits)
  with s grant_broker_frame [OF g] show ?thesis by (simp add: turn_frame_def)
qed

lemma sample_keeps:
  assumes "record_sample_locked fill minimum now cpu memory b = (w, b')" and "state_inv (bk_state b)"
  shows "state_inv (bk_state b') \<and> bk_store b' = bk_store b \<and> list_all write_ok (left_to_store (Ok w))"
proof -
  obtain a s where
    f: "finish_epoch now minimum (State_record_sample (bounded_percent cpu) (bounded_percent memory) (bk_state b)) = (a, s)"
    by (rule prod.exhaust)
  then have s: "state_inv s" using finish_epoch_state_inv [OF f] assms(2) by (simp add: record_sample_state_inv)
  obtain g b1 where g: "grant_broker fill (b\<lparr>bk_state := s\<rparr>) = (g, b1)" by (rule prod.exhaust)
  with s have "state_inv (bk_state b1)" "bk_store b1 = bk_store b" using grant_broker_keeps [OF g] by simp_all
  with assms(1) f g s show ?thesis
    by (auto simp: record_sample_locked_def Let_def write_of_ok split: if_splits)
qed

lemma enqueue_keeps:
  assumes "enqueue fill now run leaf uid b = (drawn, b')" and inv: "state_inv (bk_state b)" and "\<not> exhausted b"
  shows "state_inv (bk_state b') \<and> bk_store b' = bk_store b"
proof (cases "st_stopping (bk_state b) \<or> bt_get (st_registered_runs (bk_state b)) run \<noteq> Some uid")
  case True
  with assms show ?thesis by (auto simp: enqueue_def Let_def)
next
  case False
  let ?s = "add_request run leaf (bk_state b)"
  have "state_inv ?s"
    using inv False assms(3) add_request_core [of "bk_state b" run leaf]
    by (auto simp: state_inv_def capacity_inv_def exhausted_def contains_get add_request_def Let_def)
  then have s: "state_inv (start_epoch run now ?s)" by (rule start_epoch_state_inv)
  obtain g b1 where g: "grant_broker fill (b\<lparr>bk_state := start_epoch run now ?s\<rparr>) = (g, b1)" by (rule prod.exhaust)
  have b1: "state_inv (bk_state b1)" "bk_store b1 = bk_store b" using grant_broker_keeps [OF g] s by simp_all
  then have "state_inv (mark_waited i (bk_state b1))" for i
    by (simp add: state_inv_def mark_waited_core) (simp add: capacity_inv_def mark_waited_def)
  with b1 assms(1) False g show ?thesis by (auto simp: enqueue_def Let_def split: sum.splits)
qed

lemma cancel_keeps:
  assumes "cancel_locked fill minimum now i b = (result, b')" and inv: "state_inv (bk_state b)"
  shows "state_inv (bk_state b') \<and> bk_store b' = bk_store b \<and> list_all write_ok (left_to_store result)"
proof (cases "bt_get (st_pending (bk_state b)) i")
  case None
  with assms show ?thesis by (auto simp: cancel_locked_def left_to_store_def)
next
  case (Some p)
  let ?s = "case pn_outcome p of
      Granted grant \<Rightarrow> ((bk_state b)\<lparr>st_pending := bt_remove i (st_pending (bk_state b))\<rparr>)
        \<lparr>st_active := bt_remove (gr_permit_id grant) (st_active (bk_state b))\<rparr>
    | _ \<Rightarrow> (bk_state b)\<lparr>st_pending := bt_remove i (st_pending (bk_state b))\<rparr>"
  have "core_inv (unqueue i (pn_run_id p) ?s)"
    using inv cancelled_core [OF _ Some] by (simp add: state_inv_def)
  moreover have "st_learned (unqueue i (pn_run_id p) ?s) = st_learned (bk_state b)"
    "st_cap (unqueue i (pn_run_id p) ?s) = st_cap (bk_state b)"
    by (simp_all add: unqueue_def split: PendingOutcome.splits option.splits)
  ultimately have "state_inv (unqueue i (pn_run_id p) ?s)" using inv by (simp add: state_inv_def capacity_inv_def)
  moreover have "settle fill minimum now (pn_run_id p) (b\<lparr>bk_state := unqueue i (pn_run_id p) ?s\<rparr>) = (result, b')"
    using assms(1) Some by (simp add: cancel_locked_def Let_def cong: PendingOutcome.case_cong)
  ultimately show ?thesis using settle_keeps by fastforce
qed

lemma release_keeps:
  assumes "release_locked fill minimum now permit b = (result, b')" and inv: "state_inv (bk_state b)"
  shows "state_inv (bk_state b') \<and> bk_store b' = bk_store b \<and> list_all write_ok (left_to_store result)"
proof (cases "bt_get (st_active (bk_state b)) permit")
  case None
  with assms show ?thesis by (auto simp: release_locked_def left_to_store_def)
next
  case (Some p)
  let ?b = "b\<lparr>bk_state := (bk_state b)\<lparr>st_active := bt_remove permit (st_active (bk_state b))\<rparr>\<rparr>"
  have "settle fill minimum now (ap_run_id p) ?b = (result, b')"
    using assms(1) Some by (simp add: release_locked_def Let_def)
  moreover have "state_inv (bk_state ?b)"
    using inv remove_active_core by (simp add: state_inv_def capacity_inv_def)
  ultimately show ?thesis using settle_keeps by fastforce
qed

lemma set_cap_stores:
  assumes "valid_cap cap" and "st_cap (bk_state b) \<noteq> cap"
  shows "\<exists>store. db_learned store = st_learned (bk_state b) \<and> db_cap store = cap \<and>
     set_cap fill (Inr u) read cap actor b =
       (case grant_broker fill (b\<lparr>bk_state := (bk_state b)\<lparr>st_cap := cap\<rparr>, bk_store := store\<rparr>) of
          (Inl error, b) \<Rightarrow> (Err error, b) | (Inr _, b) \<Rightarrow> (snapshot read b, b))"
proof -
  let ?s = "(bk_state b)\<lparr>st_cap := cap\<rparr>"
  let ?store = "snd (persist_adjustment (Inr u) (st_learned ?s, cap,
    \<lparr>adj_actor = actor, adj_reason = ''administrator_cap_changed'', adj_previous = effective (bk_state b),
     adj_new = effective ?s, adj_cpu = None, adj_memory = None, adj_saturation = None, adj_duration = None\<rparr>) (bk_store b))"
  have "db_learned ?store = st_learned (bk_state b) \<and> db_cap ?store = cap"
    by (cases u) (simp add: persist_adjustment_def)
  moreover have "set_cap fill (Inr u) read cap actor b =
       (case grant_broker fill (b\<lparr>bk_state := ?s, bk_store := ?store\<rparr>) of
          (Inl error, b) \<Rightarrow> (Err error, b) | (Inr _, b) \<Rightarrow> (snapshot read b, b))"
    using assms by (cases u) (simp add: set_cap_def set_cap_locked_def Let_def store_write_def persist_adjustment_def valid_cap_def)
  ultimately show ?thesis by blast
qed

lemma set_cap_keeps:
  assumes "set_cap fill tx read cap actor b = (answer, b')" and inv: "state_inv (bk_state b)"
    and store: "valid_capacity (db_learned (bk_store b))" "valid_cap (db_cap (bk_store b))"
  shows "state_inv (bk_state b') \<and> valid_capacity (db_learned (bk_store b')) \<and> valid_cap (db_cap (bk_store b'))"
proof (cases "valid_cap cap \<and> st_cap (bk_state b) \<noteq> cap")
  case False
  with assms show ?thesis by (auto simp: set_cap_def set_cap_locked_def valid_cap_def Let_def split: if_splits)
next
  case True
  let ?b = "b\<lparr>bk_state := (bk_state b)\<lparr>st_cap := cap\<rparr>\<rparr>"
  have s: "state_inv ((bk_state b)\<lparr>st_cap := cap\<rparr>)" using inv True by (simp add: state_inv_def capacity_inv_def)
  show ?thesis
  proof (cases tx)
    case (Inl e)
    with assms True show ?thesis
      by (auto simp: set_cap_def set_cap_locked_def Let_def store_write_def persist_adjustment_def valid_cap_def)
  next
    case (Inr u)
    let ?stored = "\<lambda>store. ?b\<lparr>bk_store := store\<rparr>"
    obtain store where store: "db_learned store = st_learned (bk_state b)" "db_cap store = cap"
      and w: "set_cap fill tx read cap actor b =
        (case grant_broker fill (?stored store) of (Inl error, b) \<Rightarrow> (Err error, b) | (Inr _, b) \<Rightarrow> (snapshot read b, b))"
      using set_cap_stores [of cap b fill u read actor] Inr True by auto
    obtain g b1 where g: "grant_broker fill (?stored store) = (g, b1)" by (rule prod.exhaust)
    have "state_inv (bk_state b1)" "bk_store b1 = store" using grant_broker_keeps [OF g] s by simp_all
    with assms(1) w g store inv True show ?thesis
      by (auto simp: state_inv_def capacity_inv_def split: sum.splits)
  qed
qed

lemma reserve_keeps:
  assumes "queue_reservation run check uid b = (drawn, b')" and "state_inv (bk_state b)" and "\<not> exhausted b"
  shows "state_inv (bk_state b') \<and> bk_store b' = bk_store b"
  using assms queue_reservation_core [of "bk_state b" run]
  by (auto simp: queue_reservation_def Let_def state_inv_def capacity_inv_def exhausted_def contains_get
      split: if_splits option.splits)

lemma try_keeps:
  assumes "try_reservation i b = (verdict, b')" and "state_inv (bk_state b)"
  shows "state_inv (bk_state b') \<and> bk_store b' = bk_store b"
  using assms grant_reservation_core [of "bk_state b" i]
  by (auto simp: try_reservation_def Let_def state_inv_def capacity_inv_def split: if_splits option.splits)

lemma take_keeps:
  assumes "broker_take_outcome i b = (outcome, b')" and inv: "state_inv (bk_state b)"
  shows "state_inv (bk_state b') \<and> bk_store b' = bk_store b"
proof -
  let ?s = "bk_state b"
  have "state_inv (?s\<lparr>st_pending := bt_remove i (st_pending ?s)\<rparr>)"
    if "bt_get (st_pending ?s) i = Some p" "pn_outcome p \<noteq> Waiting" for p
  proof -
    have qi: "queues_inv ?s" using inv by (simp add: state_inv_def core_inv_def)
    have "i \<notin> set q" if "bt_get (st_queues ?s) run = Some q" for run q
      using queued_waits [OF qi that, of i] \<open>bt_get (st_pending ?s) i = Some p\<close> \<open>pn_outcome p \<noteq> Waiting\<close>
      by (auto simp: waits_def)
    then show ?thesis using inv remove_pending_core [of ?s i] by (simp add: state_inv_def capacity_inv_def)
  qed
  with assms show ?thesis by (auto simp: broker_take_outcome_def Let_def optb_iff split: if_splits)
qed

lemma register_keeps:
  "register_run run uid b = (result, b') \<Longrightarrow> state_inv (bk_state b) \<Longrightarrow>
     state_inv (bk_state b') \<and> bk_store b' = bk_store b"
  by (auto simp: register_run_def state_inv_def capacity_inv_def register_core split: sum.splits if_splits)

lemma register_resources_keeps:
  "register_resources run claims b = (result, b') \<Longrightarrow> state_inv (bk_state b) \<Longrightarrow>
     state_inv (bk_state b') \<and> bk_store b' = bk_store b"
  by (auto simp: register_resources_def state_inv_def capacity_inv_def resources_core split: if_splits)

section \<open>Permits stay within the capacity\<close>

text \<open>
  No step starts a stopped broker, and permits grow at most to the effective capacity before or
  after it.
\<close>

definition step_frame :: "State \<Rightarrow> State \<Rightarrow> bool" where
  "step_frame s s' \<longleftrightarrow> (st_stopping s \<longrightarrow> st_stopping s') \<and>
     length (st_active s') \<le> max (length (st_active s)) (max (unat (effective s)) (unat (effective s')))"

definition shrinks :: "State \<Rightarrow> State \<Rightarrow> bool" where
  "shrinks s s' \<longleftrightarrow> st_stopping s' = st_stopping s \<and> effective s' = effective s \<and>
     length (st_active s') \<le> length (st_active s)"

lemma shrinks_refl [simp]: "shrinks s s"
  by (simp add: shrinks_def)

lemma step_frame_shrinks: "shrinks s t \<Longrightarrow> step_frame t u \<Longrightarrow> step_frame s u"
  by (auto simp: shrinks_def step_frame_def)

lemma step_frame_shrink: "shrinks s t \<Longrightarrow> step_frame s t"
  by (auto simp: shrinks_def step_frame_def)

lemma step_frame_grant: "shrinks s t \<Longrightarrow> turn_frame t u \<Longrightarrow> step_frame s u"
  by (auto simp: shrinks_def step_frame_def turn_frame_def)

lemma finish_run_shrinks: "shrinks s (finish_run run now s)"
  using finish_run_core [of s run now] effective_cong [of "finish_run run now s" s]
  by (simp add: shrinks_def same_core_def finish_run_learned)

lemma start_epoch_shrinks: "shrinks s (start_epoch run now s)"
  using start_epoch_core [of s run now] effective_cong [of "start_epoch run now s" s]
  by (simp add: shrinks_def same_core_def start_epoch_learned)

lemma shrinks_trans: "shrinks s t \<Longrightarrow> shrinks t u \<Longrightarrow> shrinks s u"
  by (simp add: shrinks_def)

lemma settle_frame:
  assumes "settle fill minimum now run b = (result, b')"
  shows "step_frame (bk_state b) (bk_state b')"
proof -
  obtain g b1 where g: "grant_broker fill (b\<lparr>bk_state := finish_run run now (bk_state b)\<rparr>) = (g, b1)"
    by (rule prod.exhaust)
  have f: "step_frame (bk_state b) (bk_state b1)" "effective (bk_state b1) = effective (bk_state b)"
    using grant_broker_frame [OF g] finish_run_shrinks [of "bk_state b" run now]
    by (auto simp: shrinks_def step_frame_def turn_frame_def)
  have "step_frame (bk_state b) s" if "finish_epoch now minimum (bk_state b1) = (a, s)" for a s
    using f finish_epoch_core [OF that] by (auto simp: same_core_def step_frame_def)
  with assms g f(1) show ?thesis by (auto simp: settle_def split: sum.splits prod.splits)
qed

lemma unregister_frame:
  assumes "unregister_locked fill minimum now run b = (result, b')"
  shows "step_frame (bk_state b) (bk_state b')"
proof -
  let ?f = "finish_run run now (forget_run run (bk_state b))"
  obtain a s where f: "finish_epoch now minimum ?f = (a, s)" by (rule prod.exhaust)
  obtain g b1 where g: "grant_broker fill (b\<lparr>bk_state := s\<rparr>) = (g, b1)" by (rule prod.exhaust)
  have "st_stopping s = st_stopping (bk_state b)" "length (st_active s) \<le> length (st_active (bk_state b))"
    using finish_epoch_core [OF f] finish_run_core [of "forget_run run (bk_state b)" run now]
    by (simp_all add: same_core_def forget_run_fields length_bt_retain)
  moreover have "bk_state b' = bk_state b1" using assms f g by (auto simp: unregister_locked_def split: sum.splits)
  ultimately show ?thesis using grant_broker_frame [OF g] by (auto simp: step_frame_def turn_frame_def)
qed

lemma sample_frame:
  assumes "record_sample_locked fill minimum now cpu memory b = (w, b')"
  shows "step_frame (bk_state b) (bk_state b')"
proof -
  let ?r = "State_record_sample (bounded_percent cpu) (bounded_percent memory) (bk_state b)"
  obtain a s where f: "finish_epoch now minimum ?r = (a, s)" by (rule prod.exhaust)
  obtain g b1 where g: "grant_broker fill (b\<lparr>bk_state := s\<rparr>) = (g, b1)" by (rule prod.exhaust)
  have "st_stopping s = st_stopping (bk_state b)" "st_active s = st_active (bk_state b)"
    using finish_epoch_core [OF f] record_sample_core [of "bk_state b" "bounded_percent cpu" "bounded_percent memory"]
    by (simp_all add: same_core_def)
  moreover have "bk_state b' = s \<or> bk_state b' = bk_state b1"
    using assms f g by (auto simp: record_sample_locked_def Let_def split: if_splits)
  ultimately show ?thesis using grant_broker_frame [OF g] by (auto simp: step_frame_def turn_frame_def)
qed

lemma enqueue_frame:
  assumes "enqueue fill now run leaf uid b = (drawn, b')"
  shows "step_frame (bk_state b) (bk_state b')"
proof (cases "st_stopping (bk_state b) \<or> bt_get (st_registered_runs (bk_state b)) run \<noteq> Some uid")
  case True
  with assms show ?thesis by (auto simp: enqueue_def Let_def intro: step_frame_shrink)
next
  case False
  let ?s = "start_epoch run now (add_request run leaf (bk_state b))"
  obtain g b1 where g: "grant_broker fill (b\<lparr>bk_state := ?s\<rparr>) = (g, b1)" by (rule prod.exhaust)
  have "shrinks (bk_state b) (add_request run leaf (bk_state b))"
    using effective_cong [of "add_request run leaf (bk_state b)" "bk_state b"]
    by (simp add: shrinks_def add_request_def Let_def)
  then have "shrinks (bk_state b) ?s" by (rule shrinks_trans [OF _ start_epoch_shrinks])
  then have f: "step_frame (bk_state b) (bk_state b1)" using grant_broker_frame [OF g] by (simp add: step_frame_grant)
  then have "step_frame (bk_state b) (mark_waited i (bk_state b1))" for i
    by (simp add: step_frame_def mark_waited_def)
  with f assms False g show ?thesis by (auto simp: enqueue_def Let_def split: sum.splits)
qed

lemma cancel_frame:
  assumes "cancel_locked fill minimum now i b = (result, b')"
  shows "step_frame (bk_state b) (bk_state b')"
proof (cases "bt_get (st_pending (bk_state b)) i")
  case None
  with assms show ?thesis by (auto simp: cancel_locked_def intro: step_frame_shrink)
next
  case (Some p)
  define s where "s = (case pn_outcome p of
      Granted grant \<Rightarrow> ((bk_state b)\<lparr>st_pending := bt_remove i (st_pending (bk_state b))\<rparr>)
        \<lparr>st_active := bt_remove (gr_permit_id grant) (st_active (bk_state b))\<rparr>
    | _ \<Rightarrow> (bk_state b)\<lparr>st_pending := bt_remove i (st_pending (bk_state b))\<rparr>)"
  have s: "settle fill minimum now (pn_run_id p) (b\<lparr>bk_state := unqueue i (pn_run_id p) s\<rparr>) = (result, b')"
    using assms Some unfolding s_def by (simp add: cancel_locked_def Let_def cong: PendingOutcome.case_cong)
  have "shrinks (bk_state b) s"
    unfolding s_def shrinks_def by (simp add: length_bt_remove split: PendingOutcome.splits)
  then have "shrinks (bk_state b) (unqueue i (pn_run_id p) s)"
    by (auto simp: shrinks_def unqueue_def split: option.splits)
  then show ?thesis using settle_frame [OF s] by (auto intro: step_frame_shrinks)
qed

lemma release_frame:
  assumes "release_locked fill minimum now permit b = (result, b')"
  shows "step_frame (bk_state b) (bk_state b')"
proof (cases "bt_get (st_active (bk_state b)) permit")
  case None
  with assms show ?thesis by (auto simp: release_locked_def intro: step_frame_shrink)
next
  case (Some p)
  let ?s = "(bk_state b)\<lparr>st_active := bt_remove permit (st_active (bk_state b))\<rparr>"
  have "settle fill minimum now (ap_run_id p) (b\<lparr>bk_state := ?s\<rparr>) = (result, b')"
    using assms Some by (simp add: release_locked_def Let_def)
  moreover have "shrinks (bk_state b) ?s" by (simp add: shrinks_def length_bt_remove)
  ultimately show ?thesis using settle_frame by (fastforce intro: step_frame_shrinks)
qed

lemma set_cap_frame:
  assumes "set_cap fill tx read cap actor b = (answer, b')"
  shows "step_frame (bk_state b) (bk_state b')"
proof (cases "valid_cap cap \<and> st_cap (bk_state b) \<noteq> cap")
  case False
  with assms show ?thesis
    by (auto simp: set_cap_def set_cap_locked_def valid_cap_def Let_def intro: step_frame_shrink split: if_splits)
next
  case True
  show ?thesis
  proof (cases tx)
    case (Inl e)
    with assms True show ?thesis
      by (auto simp: set_cap_def set_cap_locked_def Let_def store_write_def persist_adjustment_def valid_cap_def
          intro: step_frame_shrink)
  next
    case (Inr u)
    obtain store where w: "set_cap fill tx read cap actor b =
        (case grant_broker fill (b\<lparr>bk_state := (bk_state b)\<lparr>st_cap := cap\<rparr>, bk_store := store\<rparr>) of
           (Inl error, b) \<Rightarrow> (Err error, b) | (Inr _, b) \<Rightarrow> (snapshot read b, b))"
      using set_cap_stores [of cap b fill u read actor] Inr True by auto
    obtain g b1 where g: "grant_broker fill (b\<lparr>bk_state := (bk_state b)\<lparr>st_cap := cap\<rparr>, bk_store := store\<rparr>) = (g, b1)"
      by (rule prod.exhaust)
    with assms w have "b' = b1" by (auto split: sum.splits)
    with grant_broker_frame [OF g] show ?thesis by (auto simp: step_frame_def turn_frame_def)
  qed
qed

lemma broker_step_frame:
  assumes "broker_step fill minimum (b, ws) (b', ws')"
  shows "step_frame (bk_state b) (bk_state b')"
  using assms
proof (cases rule: broker_step.cases)
  case stop
  then show ?thesis by (simp add: step_frame_def stop_def)
next
  case store
  then show ?thesis by (simp add: store_write_def step_frame_shrink split: prod.splits)
next
  case unregister
  then show ?thesis by (auto intro: unregister_frame)
next
  case set_cap
  then show ?thesis by (auto intro: set_cap_frame)
next
  case sample
  then show ?thesis by (auto intro: sample_frame)
next
  case enqueue
  then show ?thesis by (auto intro: enqueue_frame)
next
  case cancel
  then show ?thesis by (auto intro: cancel_frame)
next
  case release
  then show ?thesis by (auto intro: release_frame)
qed (auto intro!: step_frame_shrink
    simp: register_run_def register_fixture_handler_def register_resources_def unregister_handler_def
      queue_reservation_def try_reservation_def drop_reservation_def broker_take_outcome_def shrinks_def Let_def
    split: sum.splits if_splits option.splits)

section \<open>Steps keep the invariant of a broker\<close>

lemma broker_inv_alt:
  "broker_inv (b, ws) \<longleftrightarrow> state_inv (bk_state b) \<and> valid_capacity (db_learned (bk_store b)) \<and>
     valid_cap (db_cap (bk_store b)) \<and> list_all write_ok ws"
  by (auto simp: broker_inv_def state_inv_def)

lemma initial_capacity_valid: "valid_capacity (initial_capacity cpus)"
  by (simp add: initial_capacity_def valid_capacity_def Let_def CAP_MIN_def CAP_MAX_def le_max_iff_disj)

lemma State_new_core: "core_inv (State_new learned cap)"
  by (simp add: State_new_def core_inv_defs granted_ids_def)

lemma State_new_capacity [simp]:
  "st_learned (State_new learned cap) = learned" "st_cap (State_new learned cap) = cap"
  by (simp_all add: State_new_def)

lemma with_adapters_inv:
  "with_adapters read cpus r = Ok b \<Longrightarrow> broker_inv (b, [])"
  by (auto simp: with_adapters_def broker_inv_alt state_inv_def capacity_inv_def State_new_core valid_cap_def
      Let_def split: if_splits)

lemma store_write_inv:
  "broker_inv (b, us @ w # vs) \<Longrightarrow> broker_inv (snd (store_write tx w b), us @ vs)"
  by (cases w; cases tx) (auto simp: broker_inv_alt store_write_def persist_adjustment_def)

lemma broker_step_inv:
  assumes "broker_step fill minimum c c'" and "broker_inv c"
  shows "broker_inv c'"
  using assms
proof (cases rule: broker_step.cases)
  case (register run uid b result b' ws)
  with assms(2) show ?thesis using register_keeps [of run uid b] by (auto simp: broker_inv_alt)
next
  case (handler run h b result b' ws)
  with assms(2) show ?thesis by (auto simp: broker_inv_alt register_fixture_handler_def split: if_splits)
next
  case (resources run claims b result b' ws)
  with assms(2) show ?thesis using register_resources_keeps [of run claims b] by (auto simp: broker_inv_alt)
next
  case (forget_handler b ws run)
  with assms(2) show ?thesis by (auto simp: broker_inv_alt unregister_handler_def)
next
  case (unregister now run b result b' ws)
  with assms(2) show ?thesis using unregister_keeps [of fill minimum now run b] by (auto simp: broker_inv_alt)
next
  case (set_cap tx read cap actor b answer b' ws)
  with assms(2) show ?thesis using set_cap_keeps [of fill tx read cap actor b] by (auto simp: broker_inv_alt)
next
  case (sample now cpu memory b w b' ws)
  with assms(2) show ?thesis using sample_keeps [of fill minimum now cpu memory b] by (auto simp: broker_inv_alt)
next
  case (reserve b run check uid drawn b' ws)
  with assms(2) show ?thesis using reserve_keeps [of run check uid b] by (auto simp: broker_inv_alt)
next
  case (try_reserve i b verdict b' ws)
  with assms(2) show ?thesis using try_keeps [of i b] by (auto simp: broker_inv_alt)
next
  case (drop_reserve b ws i)
  with assms(2) show ?thesis
    by (auto simp: broker_inv_alt drop_reservation_def state_inv_def capacity_inv_def drop_reservation_core)
next
  case (enqueue b now run leaf uid drawn b' ws)
  with assms(2) show ?thesis using enqueue_keeps [of fill now run leaf uid b] by (auto simp: broker_inv_alt)
next
  case (take i b outcome b' ws)
  with assms(2) show ?thesis using take_keeps [of i b] by (auto simp: broker_inv_alt)
next
  case (cancel now i b result b' ws)
  with assms(2) show ?thesis using cancel_keeps [of fill minimum now i b] by (auto simp: broker_inv_alt)
next
  case (release now permit b result b' ws)
  with assms(2) show ?thesis using release_keeps [of fill minimum now permit b] by (auto simp: broker_inv_alt)
next
  case (stop b ws)
  with assms(2) show ?thesis using stop_core [of b]
    by (auto simp: broker_inv_alt state_inv_def) (simp_all add: stop_def capacity_inv_def)
next
  case (store b us w vs tx)
  with assms(2) show ?thesis using store_write_inv by blast
qed

interpretation broker: invariant_system broker_initial "broker_step fill minimum" broker_inv
  by unfold_locales (auto simp: broker_initial_def with_adapters_inv broker_step_inv)

end
