(* ===== verification/Capacity_Properties.thy ===== *)
theory Capacity_Properties
  imports Capacity_Safety
begin

text \<open>
  Properties of the capacity broker: its reachable states, the grants of permits and
  reservations, the pause of an emergency and the stored capacity.
\<close>

section \<open>A sample broker\<close>

text \<open>A source of random bytes that counts, and one that always fails.\<close>

definition counting :: "nat \<Rightarrow> (string, u8 list) result \<times> nat" where
  "counting n = (Ok (replicate 7 0 @ [of_nat n]), Suc n)"

definition failing :: "nat \<Rightarrow> (string, u8 list) result \<times> nat" where
  "failing n = (Err ''no entropy'', n)"

definition directory_claim :: "string \<Rightarrow> ResourceClaim" where
  "directory_claim path = \<lparr>rc_kind = Directory, rc_id = path, rc_access = Exclusive\<rparr>"

definition broker_0 :: "(nat, nat) Broker" where
  "broker_0 = \<lparr>bk_state = State_new 8 None, bk_handlers = [], bk_random = 0,
     bk_store = \<lparr>db_learned = 8, db_cap = None, db_events = []\<rparr>\<rparr>"

definition broker_1 :: "(nat, nat) Broker" where
  "broker_1 = snd (register_run ''r1'' 7 broker_0)"

definition broker_2 :: "(nat, nat) Broker" where
  "broker_2 = snd (enqueue counting (Finite 0) ''r1'' ''leaf'' 7 broker_1)"

lemma broker_0_opened: "with_adapters (Ok None) 4 0 = Ok broker_0"
  by (simp add: with_adapters_def initial_capacity_def broker_0_def valid_capacity_def CAP_MIN_def CAP_MAX_def)

lemma broker_1_reachable: "reachable broker_initial (broker_step fill minimum) (broker_1, [])"
proof -
  have "reachable broker_initial (broker_step fill minimum) (broker_0, [])"
    unfolding broker_initial_def using broker_0_opened by (intro reachable.initial) force
  then show ?thesis unfolding broker_1_def
    by (rule reachable.step) (rule broker_step.register, rule prod.collapse [symmetric])
qed

lemma broker_2_reachable: "reachable broker_initial (broker_step counting minimum) (broker_2, [])"
proof -
  have "\<not> exhausted broker_1" by code_simp
  from broker_step.enqueue [OF this prod.collapse [symmetric]] show ?thesis
    unfolding broker_2_def by (rule reachable.step [OF broker_1_reachable])
qed

section \<open>Range and storage of the capacity\<close>

text \<open>
  C21: in every reachable state the learned capacity and the administrative cap are in range, and
  so are those in the table: a broker opened on it takes them over, whatever writes were lost.
\<close>

theorem capacity_in_range:
  assumes "reachable broker_initial (broker_step fill minimum) (b, ws)"
  shows "valid_capacity (st_learned (bk_state b)) \<and> valid_cap (st_cap (bk_state b)) \<and>
    0 < effective (bk_state b) \<and>
    with_adapters (Ok (Some (bk_store b))) cpus r =
      Ok \<lparr>bk_state = State_new (db_learned (bk_store b)) (db_cap (bk_store b)), bk_handlers = [],
          bk_random = r, bk_store = bk_store b\<rparr>"
proof -
  have "broker_inv (b, ws)" using assms by (rule broker.reachable_inv)
  then have "valid_capacity (st_learned (bk_state b))" "valid_cap (st_cap (bk_state b))"
    and store: "valid_capacity (db_learned (bk_store b))" "valid_cap (db_cap (bk_store b))"
    by (simp_all add: broker_inv_alt state_inv_def capacity_inv_def)
  moreover from this have "0 < effective (bk_state b)"
    by (auto simp: effective_def valid_cap_def valid_capacity_unat word_less_nat_alt unat_min split: option.splits)
  ultimately show ?thesis by (simp add: with_adapters_def valid_cap_def Let_def)
qed

theorem capacity_in_range_witness: "valid_capacity (st_learned (bk_state broker_2))"
  using capacity_in_range [OF broker_2_reachable, of 4 0] by blast

text \<open>
  Setting an acceptable cap that differs from the present one either fails with the error of
  the transaction and leaves the broker as it was, or stores the learned capacity together with
  the new cap, which are then also the ones in memory.
\<close>

theorem set_cap_atomic:
  assumes "\<not> optb (\<lambda>cap. \<not> valid_capacity cap) cap" and "st_cap (bk_state b) \<noteq> cap"
  shows "case tx of
     Inl e \<Rightarrow> set_cap fill tx read cap actor b = (Err e, b)
   | Inr _ \<Rightarrow> (let b' = snd (set_cap fill tx read cap actor b) in
       st_cap (bk_state b') = cap \<and> st_learned (bk_state b') = st_learned (bk_state b) \<and>
       db_cap (bk_store b') = cap \<and> db_learned (bk_store b') = st_learned (bk_state b))"
proof (cases tx)
  case (Inl e)
  then show ?thesis using assms
    by (simp add: set_cap_def set_cap_locked_def Let_def store_write_def persist_adjustment_def)
next
  case (Inr u)
  obtain store where store: "db_learned store = st_learned (bk_state b)" "db_cap store = cap"
    and w: "set_cap fill (Inr u) read cap actor b =
      (case grant_broker fill (b\<lparr>bk_state := (bk_state b)\<lparr>st_cap := cap\<rparr>, bk_store := store\<rparr>) of
         (Inl error, b) \<Rightarrow> (Err error, b) | (Inr _, b) \<Rightarrow> (snapshot read b, b))"
    using set_cap_stores [of cap b fill u read actor] assms by (auto simp: valid_cap_def)
  obtain g b1 where g: "grant_broker fill (b\<lparr>bk_state := (bk_state b)\<lparr>st_cap := cap\<rparr>, bk_store := store\<rparr>) = (g, b1)"
    by (rule prod.exhaust)
  then have "bk_store b1 = store" "st_learned (bk_state b1) = st_learned (bk_state b)" "st_cap (bk_state b1) = cap"
    by (auto simp: grant_broker_def dest: grant_ready_capacity split: prod.splits)
  with store w g Inr show ?thesis by (auto simp: Let_def split: sum.splits)
qed

theorem set_cap_atomic_witness:
  "set_cap counting (Inl (ProtocolError_new InternalError ''down'')) (Ok ()) (Some 4) ''admin'' broker_1 =
     (Err (ProtocolError_new InternalError ''down''), broker_1)"
  using set_cap_atomic [where cap = "Some 4" and b = broker_1 and fill = counting and tx = "Inl (ProtocolError_new InternalError ''down'')" and read = "Ok ()" and actor = "''admin''"]
  by (simp add: valid_capacity_def CAP_MIN_def CAP_MAX_def broker_1_def broker_0_def register_run_def
      State_new_def split: sum.splits)

section \<open>Reservations\<close>

definition broker_3 :: "(nat, nat) Broker" where
  "broker_3 = snd (register_resources ''r1'' [(''check'', [directory_claim ''/data'']), (''other'', [directory_claim ''/logs''])] broker_1)"

definition broker_4 :: "(nat, nat) Broker" where
  "broker_4 = snd (queue_reservation ''r1'' ''check'' 7 broker_3)"

lemma broker_4_reachable: "reachable broker_initial (broker_step fill minimum) (broker_4, [])"
proof -
  have 3: "reachable broker_initial (broker_step fill minimum) (broker_3, [])"
    unfolding broker_3_def
    by (rule reachable.step [OF broker_1_reachable], rule broker_step.resources, rule prod.collapse [symmetric])
  have "\<not> exhausted broker_3" by code_simp
  from broker_step.reserve [OF this prod.collapse [symmetric]] show ?thesis
    unfolding broker_4_def by (rule reachable.step [OF 3])
qed

text \<open>
  C22: in every reachable state the claims of two granted reservations do not conflict.
\<close>

theorem granted_reservations_exclusive:
  assumes "reachable broker_initial (broker_step fill minimum) (b, ws)"
    and "bt_get (st_reservations (bk_state b)) i = Some v" and "rv_granted v"
    and "bt_get (st_reservations (bk_state b)) j = Some w" and "rv_granted w" and "i \<noteq> j"
    and "x \<in> set (rv_claims v)" and "y \<in> set (rv_claims w)"
  shows "\<not> ResourceClaim_conflicts x y"
proof -
  have "broker_inv (b, ws)" using assms(1) by (rule broker.reachable_inv)
  then have "exclusive ResourceClaim_conflicts (claims_of (bk_state b)) (granted_ids (bk_state b))"
    by (simp add: broker_inv_def core_inv_def reservations_inv_def)
  moreover have "i \<in> granted_ids (bk_state b)" "j \<in> granted_ids (bk_state b)"
    using assms by (simp_all add: granted_ids_def)
  moreover have "claims_of (bk_state b) i = rv_claims v" "claims_of (bk_state b) j = rv_claims w"
    using assms by (simp_all add: claims_of_def)
  ultimately show ?thesis using assms(6-8) by (auto simp: exclusive_def compatible_def)
qed

definition broker_5 :: "(nat, nat) Broker" where
  "broker_5 = snd (queue_reservation ''r1'' ''other'' 7 broker_4)"

definition broker_6 :: "(nat, nat) Broker" where
  "broker_6 = snd (try_reservation 2 (snd (try_reservation 1 broker_5)))"

lemma broker_6_reachable: "reachable broker_initial (broker_step fill minimum) (broker_6, [])"
proof -
  have "\<not> exhausted broker_4" by code_simp
  from broker_step.reserve [OF this prod.collapse [symmetric]]
  have 5: "reachable broker_initial (broker_step fill minimum) (broker_5, [])"
    unfolding broker_5_def by (rule reachable.step [OF broker_4_reachable])
  show ?thesis unfolding broker_6_def
    by (rule reachable.step [OF reachable.step [OF 5]]; rule broker_step.try_reserve, rule prod.collapse [symmetric])
qed

theorem granted_reservations_exclusive_witness:
  "\<not> ResourceClaim_conflicts (directory_claim ''/data'') (directory_claim ''/logs'')"
proof -
  let ?v = "\<lambda>path. \<lparr>rv_run_id = ''r1'', rv_claims = [directory_claim path], rv_granted = True\<rparr>"
  have "bt_get (st_reservations (bk_state broker_6)) 1 = Some (?v ''/data'')"
    "bt_get (st_reservations (bk_state broker_6)) 2 = Some (?v ''/logs'')" by code_simp+
  from granted_reservations_exclusive [OF broker_6_reachable this(1) _ this(2)] show ?thesis by simp
qed

text \<open>
  Waiting reservations never block each other for good: when there are any, one of them is
  granted or would be granted at its next attempt, and a refused one conflicts with a granted or an
  earlier one.
\<close>

theorem reservations_progress:
  assumes "reachable broker_initial (broker_step fill minimum) (b, ws)" and "st_reservations (bk_state b) \<noteq> []"
  shows "(\<exists>i. bt_contains (st_reservations (bk_state b)) i \<and> fst (try_reservation i b) = Ok True) \<and>
    (\<forall>i v. fst (try_reservation i b) = Ok False \<and> bt_get (st_reservations (bk_state b)) i = Some v \<longrightarrow>
       (\<exists>j w x y. bt_get (st_reservations (bk_state b)) j = Some w \<and> (rv_granted w \<or> j < i) \<and>
          x \<in> set (rv_claims v) \<and> y \<in> set (rv_claims w) \<and> ResourceClaim_conflicts x y))"
proof (intro conjI allI impI)
  let ?m = "st_reservations (bk_state b)"
  have ok: "bt_ok ?m"
    using broker.reachable_inv [OF assms(1)] by (simp add: broker_inv_def core_inv_def ownership_inv_def)
  show "\<exists>i. bt_contains ?m i \<and> fst (try_reservation i b) = Ok True"
  proof (cases "\<exists>i v. bt_get ?m i = Some v \<and> rv_granted v")
    case True
    then show ?thesis by (force simp: try_reservation_def bt_contains_def)
  next
    case False
    obtain i v m where m: "?m = (i, v) # m" using assms(2) by (metis neq_Nil_conv surj_pair)
    then have "\<not> j < i" if "bt_get ?m j = Some w" for j w
      using ok that bt_get_Some [OF ok, of j w] by (fastforce simp: bt_ok_def)
    with False have "\<not> reservation_conflict i v ?m" unfolding reservation_conflict_def bt_any_iff [OF ok] by blast
    then have "fst (try_reservation i b) = Ok True" using m by (auto simp: try_reservation_def Let_def)
    with m show ?thesis by (auto simp: bt_contains_def)
  qed
  fix i v assume "fst (try_reservation i b) = Ok False \<and> bt_get ?m i = Some v"
  then have "reservation_conflict i v ?m" by (auto simp: try_reservation_def Let_def split: if_splits)
  then show "\<exists>j w x y. bt_get ?m j = Some w \<and> (rv_granted w \<or> j < i) \<and>
      x \<in> set (rv_claims v) \<and> y \<in> set (rv_claims w) \<and> ResourceClaim_conflicts x y"
    unfolding reservation_conflict_def bt_any_iff [OF ok] list_ex_iff by blast
qed

theorem reservations_progress_witness:
  "\<exists>i. bt_contains (st_reservations (bk_state broker_4)) i \<and> fst (try_reservation i broker_4) = Ok True"
proof -
  have "st_reservations (bk_state broker_4) \<noteq> []" by code_simp
  from reservations_progress [OF broker_4_reachable this] show ?thesis by blast
qed

section \<open>Ownership and shutdown\<close>

text \<open>
  In every reachable state permits, waiting requests and reservations belong to registered
  runs, and \<^verbatim>\<open>unregister_run\<close> leaves the run without any of them, also when it fails.
\<close>

theorem unregister_revokes:
  assumes "reachable broker_initial (broker_step fill minimum) (b, ws)"
    and "unregister_locked fill minimum now run b = (result, b')"
  shows "\<not> bt_contains (st_registered_runs (bk_state b')) run \<and>
    \<not> bt_contains (st_queues (bk_state b')) run \<and> run \<notin> set (st_round_robin (bk_state b')) \<and>
    (\<forall>i p. bt_get (st_active (bk_state b')) i = Some p \<longrightarrow> ap_run_id p \<noteq> run \<and>
       bt_contains (st_registered_runs (bk_state b')) (ap_run_id p)) \<and>
    (\<forall>i v. bt_get (st_reservations (bk_state b')) i = Some v \<longrightarrow> rv_run_id v \<noteq> run)"
proof -
  have "state_inv (bk_state b)" using broker.reachable_inv [OF assms(1)] by (simp add: broker_inv_alt)
  then have inv: "core_inv (bk_state b')" using unregister_keeps [OF assms(2)] by (simp add: state_inv_def)
  have "\<not> bt_contains (st_registered_runs (bk_state b')) run"
    using unregister_forgets [OF assms(2)] by (simp add: contains_remove)
  moreover have qi: "queues_inv (bk_state b')" and ow: "ownership_inv (bk_state b')"
    using inv by (simp_all add: core_inv_def)
  moreover from calculation have "bt_get (st_queues (bk_state b')) run = None"
    by (metis queues_invD(5) not_None_eq)
  moreover from this have "run \<notin> set (st_round_robin (bk_state b'))" using queues_invD(4) [OF qi] by (simp add: domIff)
  moreover have "\<not> bt_contains (st_queues (bk_state b')) run" using calculation by (simp add: bt_contains_def)
  ultimately show ?thesis unfolding ownership_inv_def by blast
qed

theorem unregister_revokes_witness:
  "\<not> bt_contains (st_registered_runs (bk_state (snd (unregister_locked counting (Finite 0) (Finite 0) ''r1'' broker_2)))) ''r1''"
  using unregister_revokes [OF broker_2_reachable prod.collapse [symmetric], of "Finite 0" "Finite 0" "''r1''"] by blast

text \<open>
  A broker that was told to stop holds no permit, queue, reservation or waiting request, draws
  no further request or reservation, and stays that way.
\<close>

theorem stopped_broker_is_empty:
  assumes "reachable broker_initial (broker_step fill minimum) (b, ws)" and "st_stopping (bk_state b)"
    and "broker_step fill minimum (b, ws) (b', ws')"
  shows "st_stopping (bk_state b') \<and> st_active (bk_state b') = [] \<and> st_queues (bk_state b') = [] \<and>
    st_reservations (bk_state b') = [] \<and> st_active (bk_state b) = [] \<and>
    (\<forall>i p. bt_get (st_pending (bk_state b')) i = Some p \<longrightarrow> pn_outcome p \<noteq> Waiting) \<and>
    fst (enqueue fill now run leaf uid b) = Err (ProtocolError_new PermissionDenied ''run identity is unavailable'')"
proof -
  have "st_stopping (bk_state b')" using broker_step_frame [OF assms(3)] assms(2) by (simp add: step_frame_def)
  moreover have "broker_inv (b, ws)" "broker_inv (b', ws')"
    using broker.reachable_inv [OF assms(1)] broker_step_inv [OF assms(3)] by simp_all
  ultimately show ?thesis using assms(2) by (simp add: broker_inv_def core_inv_def stopped_inv_def enqueue_def)
qed

definition broker_7 :: "(nat, nat) Broker" where
  "broker_7 = stop broker_2"

theorem stopped_broker_is_empty_witness: "st_active (bk_state (snd (register_run ''r2'' 8 broker_7))) = []"
proof -
  have "reachable broker_initial (broker_step counting (Finite 0)) (broker_7, [])"
    unfolding broker_7_def by (rule reachable.step [OF broker_2_reachable broker_step.stop])
  moreover have "st_stopping (bk_state broker_7)" by code_simp
  moreover have "broker_step counting (Finite 0) (broker_7, []) (snd (register_run ''r2'' 8 broker_7), [])"
    by (rule broker_step.register) (rule prod.collapse [symmetric])
  ultimately show ?thesis using stopped_broker_is_empty by blast
qed

section \<open>Grants\<close>

text \<open>
  C24: a step lets the number of permits grow at most to the effective capacity, as it was before
  or is after the step, and no request is granted by a pass of a paused broker.
\<close>

theorem permits_within_capacity:
  assumes "broker_step fill minimum (b, ws) (b', ws')"
  shows "(length (st_active (bk_state b')) \<le> length (st_active (bk_state b)) \<or>
     length (st_active (bk_state b')) \<le> unat (effective (bk_state b)) \<or>
     length (st_active (bk_state b')) \<le> unat (effective (bk_state b'))) \<and>
    (st_paused s \<longrightarrow> grant_ready fill r s = (Ok (), r, s))"
  using broker_step_frame [OF assms] grant_ready.simps [of fill r s]
  by (auto simp: step_frame_def grant_turn_def le_max_iff_disj)

theorem permits_within_capacity_witness:
  "length (st_active (bk_state broker_2)) \<le> length (st_active (bk_state broker_1)) \<or>
   length (st_active (bk_state broker_2)) \<le> unat (effective (bk_state broker_1)) \<or>
   length (st_active (bk_state broker_2)) \<le> unat (effective (bk_state broker_2))"
proof -
  have "\<not> exhausted broker_1" by code_simp
  from broker_step.enqueue [OF this prod.collapse [symmetric]]
  have "broker_step counting (Finite 0) (broker_1, []) (broker_2, [])" unfolding broker_2_def .
  from permits_within_capacity [OF this] show ?thesis by blast
qed

lemma grant_ready_exhausts:
  assumes "core_inv s" and "grant_ready fill r s = (Ok u, r', s')"
  shows "st_paused s' \<or> unat (effective s') \<le> length (st_active s') \<or> waiting s' = 0"
  using assms
proof (induction fill r s rule: grant_ready.induct)
  case (1 fill r s)
  have qi: "queues_inv s" using "1.prems"(1) by (simp add: core_inv_def)
  then show ?case
  proof (cases rule: grant_turn_cases [of s fill r])
    case stop
    then have "s' = s" using "1.prems"(2) by (simp add: grant_ready.simps [of fill r s])
    moreover have "waiting s = 0" if "st_round_robin s = []"
      using queues_invD(4) [OF qi] that by (simp add: waiting_def dom_map_of_conv_image_fst)
    ultimately show ?thesis using stop(2) by auto
  next
    case (fail run rest i q e r')
    then show ?thesis using "1.prems"(2) by (simp add: grant_ready.simps [of fill r s])
  next
    case (grant run rest i q permit r1)
    then have "core_inv (grant_pending permit i (serve run rest s))"
      using serve_core_inv(2) [OF "1.prems"(1) grant(2,3)] by blast
    then show ?thesis using "1.IH" [OF grant(1)] "1.prems"(2) grant(1) by (simp add: grant_ready.simps [of fill r s])
  qed
qed

text \<open>
  Requests that wait without being in a queue.  Only a grant that fails puts a request there
  (\<^verbatim>\<open>grant_ready\<close> has taken it out of its queue by then), and nothing takes it out.
\<close>

definition stranded :: "State \<Rightarrow> u64 set" where
  "stranded s = {i. (\<exists>run. waits s run i) \<and> (\<forall>run q. bt_get (st_queues s) run = Some q \<longrightarrow> i \<notin> set q)}"

lemma stranded_cong:
  "st_pending s' = st_pending s \<Longrightarrow> st_queues s' = st_queues s \<Longrightarrow> stranded s' = stranded s"
  by (simp add: stranded_def waits_def)

lemma same_core_stranded: "same_core s s' \<Longrightarrow> stranded s' = stranded s"
  by (rule stranded_cong) (simp_all add: same_core_def)

lemma grant_stranded:
  assumes qi: "queues_inv s" and rr: "st_round_robin s = run # rest" and q: "bt_get (st_queues s) run = Some (i # q)"
  shows "stranded (grant_pending permit i (serve run rest s)) \<subseteq> stranded s"
proof
  fix j
  assume j: "j \<in> stranded (grant_pending permit i (serve run rest s))"
  have "waits s run i" using queued_waits [OF qi q] by simp
  then have other: "j \<noteq> i" and waits: "\<exists>run. waits s run j"
    using j by (auto simp: stranded_def waits_def optb_iff grant_pending_def bt_get_modify split: if_splits)
  have "j \<notin> set q'" if q': "bt_get (st_queues s) run' = Some q'" for run' q'
  proof (cases "run' = run")
    case True
    then have "bt_get (st_queues (serve run rest s)) run = (if q = [] then None else Some q)" "q' = i # q"
      using q q' serve_queues(1) [OF q queues_invD(1) [OF qi]] by auto
    then show ?thesis using j other by (auto simp: stranded_def split: if_splits)
  next
    case False
    then have "bt_get (st_queues (serve run rest s)) run' = Some q'"
      using q' serve_queues(1) [OF q queues_invD(1) [OF qi]] by auto
    then show ?thesis using j by (auto simp: stranded_def)
  qed
  with waits show "j \<in> stranded s" by (auto simp: stranded_def)
qed

lemma grant_ready_stranded:
  assumes "core_inv s" and "grant_ready fill r s = (Ok u, r', s')"
  shows "stranded s' \<subseteq> stranded s"
  using assms
proof (induction fill r s rule: grant_ready.induct)
  case (1 fill r s)
  have qi: "queues_inv s" using "1.prems"(1) by (simp add: core_inv_def)
  then show ?case
  proof (cases rule: grant_turn_cases [of s fill r])
    case (grant run rest i q permit r1)
    then have "core_inv (grant_pending permit i (serve run rest s))"
      using serve_core_inv(2) [OF "1.prems"(1) grant(2,3)] by blast
    then show ?thesis
      using "1.IH" [OF grant(1)] "1.prems"(2) grant(1) grant_stranded [OF qi grant(2,3)]
      by (simp add: grant_ready.simps [of fill r s]) blast
  qed (use "1.prems"(2) in \<open>simp_all add: grant_ready.simps [of fill r s]\<close>)
qed

text \<open>After a grant nothing waits while there is room, but for the requests of \<open>lost\<close>.\<close>

definition no_idle :: "u64 set \<Rightarrow> State \<Rightarrow> bool" where
  "no_idle lost s \<longleftrightarrow> st_paused s \<or> unat (effective s) \<le> length (st_active s) \<or>
     (\<forall>i p. bt_get (st_pending s) i = Some p \<longrightarrow> pn_outcome p = Waiting \<longrightarrow> i \<in> lost)"

lemma waiting_none: "waiting s = 0 \<Longrightarrow> bt_get (st_queues s) run = Some q \<Longrightarrow> q = []"
  by (auto simp: waiting_def dest!: map_of_SomeD)

lemma grant_broker_exhausts:
  assumes "grant_broker fill b = (Ok u, b')" and "state_inv (bk_state b)" and "stranded (bk_state b) \<subseteq> lost"
  shows "no_idle lost (bk_state b')"
proof -
  obtain r where grant: "grant_ready fill (bk_random b) (bk_state b) = (Ok u, r, bk_state b')"
    using assms(1) by (auto simp: grant_broker_def split: prod.splits)
  have core: "core_inv (bk_state b)" using assms(2) by (simp add: state_inv_def)
  have lost: "stranded (bk_state b') \<subseteq> lost" using grant_ready_stranded [OF core grant] assms(3) by blast
  have "i \<in> lost" if "waiting (bk_state b') = 0" "bt_get (st_pending (bk_state b')) i = Some p" "pn_outcome p = Waiting" for i p
  proof -
    have "i \<in> stranded (bk_state b')"
      using that waiting_none [OF that(1)] by (fastforce simp: stranded_def waits_def)
    then show ?thesis using lost by blast
  qed
  with grant_ready_exhausts [OF core grant] show ?thesis by (auto simp: no_idle_def)
qed

lemma add_request_stranded:
  assumes "core_inv s"
  shows "stranded (add_request run leaf s) \<subseteq> stranded s"
proof
  fix i
  assume i: "i \<in> stranded (add_request run leaf s)"
  let ?n = "st_next_pending_id s" and ?q = "case bt_get (st_queues s) run of None \<Rightarrow> [] | Some q \<Rightarrow> q"
  have ok: "bt_ok (st_queues s)" "bt_ok (st_pending s)" using assms by (simp_all add: core_inv_def queues_inv_def)
  then have fields: "bt_get (st_queues (add_request run leaf s)) = (bt_get (st_queues s))(run \<mapsto> ?q @ [?n])"
      "bt_get (st_pending (add_request run leaf s)) = (bt_get (st_pending s))(?n \<mapsto>
        \<lparr>pn_run_id = run, pn_leaf_id = leaf, pn_waited = False, pn_outcome = Waiting\<rparr>)"
    by (simp_all add: add_request_def Let_def bt_get_insert)
  have out: "i \<notin> set q" if "bt_get (st_queues (add_request run leaf s)) run' = Some q" for run' q
    using i that by (auto simp: stranded_def)
  have new: "i \<noteq> ?n" "i \<notin> set ?q" using out [of run] by (auto simp: fields)
  have "i \<notin> set q" if "bt_get (st_queues s) run' = Some q" for run' q
    using new out [of run' q] that by (cases "run' = run") (auto simp: fields)
  moreover have "\<exists>run. waits s run i" using i new(1) by (auto simp: stranded_def waits_def fields)
  ultimately show "i \<in> stranded s" by (auto simp: stranded_def)
qed

lemma mark_waited_no_idle: "no_idle lost s \<Longrightarrow> no_idle lost (mark_waited i s)"
  by (auto simp: no_idle_def mark_waited_def bt_get_modify split: if_splits)

lemma enqueue_no_idle:
  assumes "enqueue fill now run leaf uid b = (Ok i, b')" and inv: "state_inv (bk_state b)" and "\<not> exhausted b"
  shows "no_idle (stranded (bk_state b)) (bk_state b')"
proof -
  let ?s = "add_request run leaf (bk_state b)"
  have ok: "\<not> st_stopping (bk_state b)" "bt_get (st_registered_runs (bk_state b)) run = Some uid"
    using assms(1) by (auto simp: enqueue_def Let_def split: if_splits)
  obtain g b1 where g: "grant_broker fill (b\<lparr>bk_state := start_epoch run now ?s\<rparr>) = (g, b1)" by (rule prod.exhaust)
  have "state_inv ?s"
    using inv ok assms(3) add_request_core [of "bk_state b" run leaf]
    by (auto simp: state_inv_def capacity_inv_def exhausted_def contains_get add_request_def Let_def)
  moreover have "stranded (start_epoch run now ?s) \<subseteq> stranded (bk_state b)"
    using same_core_stranded [OF start_epoch_core] add_request_stranded inv by (simp add: state_inv_def)
  ultimately have "no_idle (stranded (bk_state b)) (bk_state b1)" if "g = Ok ()"
    using grant_broker_exhausts [of fill "b\<lparr>bk_state := start_epoch run now ?s\<rparr>" "()" b1] g that start_epoch_state_inv by simp
  then show ?thesis using assms(1) ok g mark_waited_no_idle by (auto simp: enqueue_def Let_def split: sum.splits)
qed

lemma forget_run_stranded:
  assumes "core_inv s"
  shows "stranded (forget_run run s) \<subseteq> stranded s"
proof
  fix i
  assume i: "i \<in> stranded (forget_run run s)"
  let ?q = "case bt_get (st_queues s) run of None \<Rightarrow> [] | Some q \<Rightarrow> q"
  let ?f = "\<lambda>p. p\<lparr>pn_outcome := Denied ''run is no longer active''\<rparr>"
  have denied: "\<not> optb (\<lambda>p. pn_outcome p = Waiting) (bt_get (fold (\<lambda>i. bt_modify i ?f) q m) j)"
    if "j \<in> set q" for j q and m :: "(u64, Pending) btree_map"
    using that
  proof (induction q arbitrary: m)
    case (Cons k q)
    show ?case
    proof (cases "j \<in> set q")
      case False
      then show ?thesis
        using Cons.prems fold_modify_other [OF False, of ?f "bt_modify k ?f m"]
        by (auto simp: bt_get_modify optb_iff)
    qed (use Cons.IH in simp)
  qed simp
  have "i \<notin> set ?q" using i denied [of i ?q "st_pending s"] by (auto simp: stranded_def waits_def forget_run_fields optb_iff)
  have out: "i \<notin> set q" if "bt_get (st_queues (forget_run run s)) run' = Some q" for run' q
    using i that by (auto simp: stranded_def)
  have "i \<notin> set q" if "bt_get (st_queues s) run' = Some q" for run' q
    using \<open>i \<notin> set ?q\<close> out [of run' q] that by (cases "run' = run") (auto simp: forget_run_fields bt_get_remove)
  moreover have "\<exists>run. waits s run i"
    using i fold_modify_other [OF \<open>i \<notin> set ?q\<close>, of ?f "st_pending s"] by (auto simp: stranded_def waits_def forget_run_fields)
  ultimately show "i \<in> stranded s" by (auto simp: stranded_def)
qed

lemma unregister_no_idle:
  assumes "unregister_locked fill minimum now run b = (Ok w, b')" and inv: "state_inv (bk_state b)"
  shows "no_idle (stranded (bk_state b)) (bk_state b')"
proof -
  have "state_inv (forget_run run (bk_state b))"
    using inv by (simp add: state_inv_def capacity_inv_def forget_run_core forget_run_fields)
  moreover obtain a s where
    f: "finish_epoch now minimum (finish_run run now (forget_run run (bk_state b))) = (a, s)" by (rule prod.exhaust)
  ultimately have s: "state_inv s" using finish_epoch_state_inv [OF f] by (simp add: finish_run_state_inv)
  have "stranded s \<subseteq> stranded (bk_state b)"
    using same_core_stranded [OF finish_epoch_core [OF f]] same_core_stranded [OF finish_run_core]
      forget_run_stranded inv by (simp add: state_inv_def)
  moreover obtain g b1 where g: "grant_broker fill (b\<lparr>bk_state := s\<rparr>) = (g, b1)" by (rule prod.exhaust)
  moreover from this assms(1) f have "g = Ok ()" "b' = b1" by (auto simp: unregister_locked_def split: sum.splits)
  ultimately show ?thesis using s grant_broker_exhausts [of fill "b\<lparr>bk_state := s\<rparr>" "()" b1] by simp
qed

lemma set_cap_no_idle:
  assumes "set_cap fill tx read cap actor b = (Ok c, b')" and "st_cap (bk_state b) \<noteq> cap" and inv: "state_inv (bk_state b)"
  shows "no_idle (stranded (bk_state b)) (bk_state b')"
proof -
  have cap: "valid_cap cap" using assms(1) by (auto simp: set_cap_def valid_cap_def split: if_splits)
  moreover obtain u where u: "tx = Inr u"
    using assms cap
    by (cases tx) (auto simp: set_cap_def set_cap_locked_def Let_def store_write_def persist_adjustment_def valid_cap_def)
  ultimately obtain store where w: "set_cap fill tx read cap actor b =
      (case grant_broker fill (b\<lparr>bk_state := (bk_state b)\<lparr>st_cap := cap\<rparr>, bk_store := store\<rparr>) of
         (Inl error, b) \<Rightarrow> (Err error, b) | (Inr _, b) \<Rightarrow> (snapshot read b, b))"
    using set_cap_stores [of cap b fill u read actor] assms(2) by auto
  let ?b = "b\<lparr>bk_state := (bk_state b)\<lparr>st_cap := cap\<rparr>, bk_store := store\<rparr>"
  have "state_inv (bk_state ?b)" using inv cap by (simp add: state_inv_def capacity_inv_def)
  moreover have "stranded (bk_state ?b) = stranded (bk_state b)" by (rule stranded_cong) simp_all
  moreover obtain g b1 where g: "grant_broker fill ?b = (g, b1)" by (rule prod.exhaust)
  moreover have "g = Ok ()" "b' = b1" using assms(1) w g by (auto split: sum.splits)
  ultimately show ?thesis using grant_broker_exhausts [of fill ?b "()" b1 "stranded (bk_state b)"] by simp
qed

text \<open>
  C25: after an accepted request, a new cap that was accepted and differs from the old one, or the end of a
  run, no pending request waits while there is room for it, unless the broker is paused.  The only
  requests this does not reach are those that a failed grant had left waiting outside all queues before (C39).
\<close>

theorem no_idle_capacity:
  assumes "reachable broker_initial (broker_step fill minimum) (b, ws)"
    and "(\<not> exhausted b \<and> enqueue fill now run leaf uid b = (Ok i, b')) \<or>
      unregister_locked fill minimum now run b = (Ok w, b') \<or>
      (set_cap fill tx read cap actor b = (Ok c, b') \<and> st_cap (bk_state b) \<noteq> cap)"
  shows "st_paused (bk_state b') \<or> unat (effective (bk_state b')) \<le> length (st_active (bk_state b')) \<or>
    (\<forall>i p. bt_get (st_pending (bk_state b')) i = Some p \<longrightarrow> pn_outcome p = Waiting \<longrightarrow> i \<in> stranded (bk_state b))"
proof -
  have inv: "state_inv (bk_state b)" using broker.reachable_inv [OF assms(1)] by (simp add: broker_inv_alt)
  have "no_idle (stranded (bk_state b)) (bk_state b')"
    using assms(2) enqueue_no_idle [OF _ inv] unregister_no_idle [OF _ inv] set_cap_no_idle [OF _ _ inv] by metis
  then show ?thesis by (simp add: no_idle_def)
qed

theorem no_idle_capacity_witness:
  "bt_get (st_pending (bk_state broker_2)) 1 \<noteq> None \<and>
   map_option pn_outcome (bt_get (st_pending (bk_state broker_2)) 1) \<noteq> Some Waiting"
proof -
  have "\<not> exhausted broker_1" "fst (enqueue counting (Finite 0) ''r1'' ''leaf'' 7 broker_1) = Ok 1" by code_simp+
  then have "\<not> exhausted broker_1 \<and> enqueue counting (Finite 0) ''r1'' ''leaf'' 7 broker_1 = (Ok 1, broker_2)"
    unfolding broker_2_def by (metis prod.collapse)
  note idle = no_idle_capacity [OF broker_1_reachable disjI1 [OF this]]
  have "\<not> st_paused (bk_state broker_2)" "\<not> unat (effective (bk_state broker_2)) \<le> length (st_active (bk_state broker_2))"
      "bt_get (st_pending (bk_state broker_2)) 1 \<noteq> None" "st_pending (bk_state broker_1) = []"
    by code_simp+
  with idle show ?thesis by (auto simp: stranded_def waits_def)
qed

end
