(* ===== verification/Capacity_Fairness.thy ===== *)
theory Capacity_Fairness
  imports Capacity_Properties
begin

text \<open>
  The order of grants: \<^verbatim>\<open>grant_ready\<close> implements a rotation over the queues of the runs.  The
  abstract queue of turns lists the runs in the order of the round robin with their waiting
  requests; \<open>serve_turns n\<close> takes \<open>n\<close> requests from it, one of each run in turn.
\<close>

section \<open>Turns\<close>

definition turn_order :: "State \<Rightarrow> (string \<times> u64 list) list" where
  "turn_order s = map (\<lambda>run. (run, case bt_get (st_queues s) run of None \<Rightarrow> [] | Some q \<Rightarrow> q)) (st_round_robin s)"

fun serve_turns :: "nat \<Rightarrow> ('a \<times> 'b list) list \<Rightarrow> 'b list \<times> ('a \<times> 'b list) list" where
  "serve_turns 0 qs = ([], qs)"
| "serve_turns (Suc n) [] = ([], [])"
| "serve_turns (Suc n) ((a, q) # qs) =
     (case serve_turns n (qs @ (if tl q = [] then [] else [(a, tl q)])) of
        (served, rest) \<Rightarrow> (hd q # served, rest))"

definition proper :: "('a \<times> 'b list) list \<Rightarrow> bool" where
  "proper qs \<longleftrightarrow> list_all (\<lambda>(_, q). q \<noteq> []) qs"

lemma serve_turns_Nil: "serve_turns n [] = ([], [])"
  by (cases n) simp_all

lemma proper_tail: "proper ((a, q) # qs) \<Longrightarrow> proper (qs @ (if tl q = [] then [] else [(a, tl q)]))"
  by (simp add: proper_def)

lemma served_waiting: "proper qs \<Longrightarrow> set (fst (serve_turns n qs)) \<subseteq> (\<Union>(_, q) \<in> set qs. set q)"
proof (induction n qs rule: serve_turns.induct)
  case (3 n a q qs)
  let ?qs = "qs @ (if tl q = [] then [] else [(a, tl q)])"
  have q: "q \<noteq> []" using "3.prems" by (simp add: proper_def)
  then have "set (tl q) \<subseteq> set q" "hd q \<in> set q" by (cases q; auto)+
  moreover have "set (fst (serve_turns n ?qs)) \<subseteq> (\<Union>(_, q) \<in> set ?qs. set q)"
    using "3.IH" proper_tail [OF "3.prems"] by simp
  ultimately show ?case by (auto split: prod.splits if_splits)
qed simp_all

text \<open>In the first round every run is served once, in the order of the turns.\<close>

lemma serve_turns_first_round:
  "k \<le> length qs \<Longrightarrow> k \<le> n \<Longrightarrow> take k (fst (serve_turns n (qs @ later))) = map (hd \<circ> snd) (take k qs)"
proof (induction qs arbitrary: n k later)
  case (Cons x qs)
  obtain a q where x: "x = (a, q)" by (rule prod.exhaust)
  show ?case
  proof (cases k)
    case (Suc j)
    with Cons.prems obtain m where m: "n = Suc m" "j \<le> m" "j \<le> length qs" by (cases n) auto
    have "take j (fst (serve_turns m (qs @ (later @ (if tl q = [] then [] else [(a, tl q)]))))) =
        map (hd \<circ> snd) (take j qs)" by (rule Cons.IH) (use m in simp_all)
    then show ?thesis using m Suc x by (simp add: case_prod_unfold comp_def)
  qed simp
qed simp

section \<open>Permit ids are new\<close>

lemma draw_permit_id_fresh:
  "draw_permit_id fill n r active = (Inr permit, r') \<Longrightarrow> \<not> bt_contains active permit"
  by (induction fill n r active rule: draw_permit_id.induct) (auto split: prod.splits sum.splits if_splits)

lemma unique_permit_id_fresh:
  "unique_permit_id fill r active = (Inr permit, r') \<Longrightarrow> bt_get active permit = None"
  unfolding unique_permit_id_def by (drule draw_permit_id_fresh) (simp add: bt_contains_def)

section \<open>Refinement\<close>

lemma turn_order_proper: "queues_inv s \<Longrightarrow> proper (turn_order s)"
  by (auto simp: proper_def turn_order_def list_all_iff queues_inv_def dom_def set_eq_iff)

lemma turn_order_waiting:
  "i \<in> (\<Union>(_, q) \<in> set (turn_order s). set q) \<Longrightarrow> \<exists>run q. bt_get (st_queues s) run = Some q \<and> i \<in> set q"
  by (auto simp: turn_order_def split: option.splits) metis

lemma turn_order_grant_pending [simp]: "turn_order (grant_pending permit i s) = turn_order s"
  by (simp add: turn_order_def)

lemma turn_order_serve:
  assumes inv: "queues_inv s" and rr: "st_round_robin s = run # rest" and q: "bt_get (st_queues s) run = Some (i # q)"
  obtains qs where "turn_order s = (run, i # q) # qs"
    "turn_order (serve run rest s) = qs @ (if q = [] then [] else [(run, q)])"
proof -
  have ok: "bt_ok (st_queues s)" and fresh: "run \<notin> set rest" using inv rr by (auto simp: queues_inv_def)
  have same: "map (\<lambda>r. (r, case ((bt_get (st_queues s))(run := x)) r of None \<Rightarrow> [] | Some q \<Rightarrow> q)) rest =
      map (\<lambda>r. (r, case bt_get (st_queues s) r of None \<Rightarrow> [] | Some q \<Rightarrow> q)) rest" for x
    by (rule map_cong) (use fresh in auto)
  show ?thesis
    by (rule that [of "map (\<lambda>r. (r, case bt_get (st_queues s) r of None \<Rightarrow> [] | Some q \<Rightarrow> q)) rest"])
      (use fresh in \<open>auto simp: turn_order_def rr q serve_queues [OF q ok] same\<close>)
qed

definition granted :: "State \<Rightarrow> u64 \<Rightarrow> bool" where
  "granted s i \<longleftrightarrow> (\<exists>p g. bt_get (st_pending s) i = Some p \<and> pn_outcome p = Granted g \<and>
     bt_get (st_active s) (gr_permit_id g) = Some \<lparr>ap_run_id = pn_run_id p, ap_leaf_id = pn_leaf_id p\<rparr>)"

text \<open>What a pass of \<^verbatim>\<open>grant_ready\<close> does to the requests and permits when it serves the given ones.\<close>

definition serves :: "u64 list \<Rightarrow> State \<Rightarrow> State \<Rightarrow> bool" where
  "serves served s s' \<longleftrightarrow>
     (\<forall>i \<in> set served. granted s' i) \<and> (\<forall>i. i \<notin> set served \<longrightarrow> bt_get (st_pending s') i = bt_get (st_pending s) i) \<and>
     bt_get (st_active s) \<subseteq>\<^sub>m bt_get (st_active s') \<and> length (st_active s') = length (st_active s) + length served"

lemma serves_Cons:
  assumes "serves [i] s t" and "serves served t u" and "i \<notin> set served"
  shows "serves (i # served) s u"
  using assms by (auto simp: serves_def granted_def map_le_def dom_def)

lemma grant_pending_serves:
  assumes "core_inv s" and "bt_get (st_pending s) i = Some p" and "bt_get (st_active s) permit = None"
  shows "serves [i] s (grant_pending permit i s)"
  using assms btm.len_insert [of "st_active s" permit]
  by (auto simp: serves_def granted_def grant_pending_def bt_get_modify bt_get_insert core_inv_def ownership_inv_def
      map_le_def)

lemma grant_ready_serves:
  assumes "core_inv s" and "\<not> st_paused s" and "grant_ready fill r s = (Ok u, r', s')"
  shows "\<exists>served. serve_turns (unat (effective s) - length (st_active s)) (turn_order s) = (served, turn_order s') \<and>
     serves served s s'"
  using assms
proof (induction fill r s rule: grant_ready.induct)
  case (1 fill r s)
  have qi: "queues_inv s" using "1.prems"(1) by (simp add: core_inv_def)
  then show ?case
  proof (cases rule: grant_turn_cases [of s fill r])
    case stop
    then have "s' = s" using "1.prems"(3) by (simp add: grant_ready.simps [of fill r s])
    moreover have "serves [] s s" by (simp add: serves_def)
    moreover have "turn_order s = []" if "st_round_robin s = []" using that by (simp add: turn_order_def)
    ultimately show ?thesis using stop(2) "1.prems"(2) by (auto simp: serve_turns_Nil)
  next
    case (fail run rest i q e r1)
    then show ?thesis using "1.prems"(3) by (simp add: grant_ready.simps [of fill r s])
  next
    case (grant run rest i q permit r1)
    let ?v = "serve run rest s" and ?t = "grant_pending permit i (serve run rest s)"
    have t: "core_inv ?t" "core_inv ?v" using serve_core_inv [OF "1.prems"(1) grant(2,3)] by blast+
    obtain p where p: "bt_get (st_pending s) i = Some p"
      using queued_waits [OF qi grant(3), of i] by (auto simp: waits_def optb_iff)
    have one: "serves [i] s ?t"
      using grant_pending_serves [OF t(2), of i p permit] p unique_permit_id_fresh [OF grant(4)]
      by (simp add: serves_def)
    obtain qs where qs: "turn_order s = (run, i # q) # qs" "turn_order ?t = qs @ (if q = [] then [] else [(run, q)])"
      using turn_order_serve [OF qi grant(2,3)] by (metis turn_order_grant_pending)
    obtain n where n: "unat (effective s) - length (st_active s) = Suc n"
      using grant(6) by (metis Suc_diff_Suc)
    have "effective ?t = effective s" by (rule effective_cong) simp_all
    then have "unat (effective ?t) - length (st_active ?t) = n" using n one by (simp add: serves_def)
    moreover have "grant_ready fill r1 ?t = (Ok u, r', s')"
      using "1.prems"(3) grant(1) by (simp add: grant_ready.simps [of fill r s])
    ultimately obtain served where s: "serve_turns n (turn_order ?t) = (served, turn_order s')" "serves served ?t s'"
      using "1.IH" [OF grant(1) t(1)] grant(5) by auto
    have "i \<notin> set served"
    proof
      assume "i \<in> set served"
      then have "i \<in> (\<Union>(_, q) \<in> set (turn_order ?t). set q)"
        using served_waiting [OF turn_order_proper, of ?t n] t(1) s(1) by (auto simp: core_inv_def)
      from turn_order_waiting [OF this] serve_queues_inv(2) [OF qi grant(2,3)] show False by auto
    qed
    then have "serves (i # served) s s'" using serves_Cons [OF one s(2)] by blast
    moreover have "serve_turns (Suc n) (turn_order s) = (i # served, turn_order s')" using s(1) [unfolded qs(2)] by (auto simp: qs(1))
    ultimately show ?thesis using n by auto
  qed
qed

text \<open>
  C23: an unpaused pass of \<^verbatim>\<open>grant_ready\<close> that does not fail serves requests as the rotation over
  the queues does, as many as the capacity has room for: the served requests are granted an active
  permit of their run and leaf, no other request and no earlier permit changes, the queues that are
  left are those of the rotation, and in the first round every waiting run is served its oldest
  request once, in the order of the turns.
\<close>

theorem grants_refine_turns:
  assumes "reachable broker_initial (broker_step fill minimum) (b, ws)" and "\<not> st_paused (bk_state b)"
    and "grant_broker fill b = (Ok (), b')"
  shows "let s = bk_state b; s' = bk_state b'; room = unat (effective s) - length (st_active s);
      (served, rest) = serve_turns room (turn_order s); first_round = min room (length (st_round_robin s)) in
    turn_order s' = rest \<and> (\<forall>i \<in> set served. granted s' i) \<and>
    (\<forall>i. i \<notin> set served \<longrightarrow> bt_get (st_pending s') i = bt_get (st_pending s) i) \<and>
    bt_get (st_active s) \<subseteq>\<^sub>m bt_get (st_active s') \<and> length (st_active s') = length (st_active s) + length served \<and>
    take first_round served = map (hd \<circ> snd) (take first_round (turn_order s))"
proof -
  let ?s = "bk_state b" and ?room = "unat (effective (bk_state b)) - length (st_active (bk_state b))"
  have inv: "core_inv ?s" using broker.reachable_inv [OF assms(1)] by (simp add: broker_inv_def)
  obtain r' where g: "grant_ready fill (bk_random b) ?s = (Ok (), r', bk_state b')"
    using assms(3) by (auto simp: grant_broker_def split: prod.splits)
  obtain served where s: "serve_turns ?room (turn_order ?s) = (served, turn_order (bk_state b'))" "serves served ?s (bk_state b')"
    using grant_ready_serves [OF inv assms(2) g] by blast
  have "length (turn_order ?s) = length (st_round_robin ?s)" by (simp add: turn_order_def)
  then have "take k (fst (serve_turns ?room (turn_order ?s))) = map (hd \<circ> snd) (take k (turn_order ?s))"
    if "k = min ?room (length (st_round_robin ?s))" for k
    using serve_turns_first_round [of k "turn_order ?s" ?room "[]"] that by simp
  with s show ?thesis by (simp add: serves_def Let_def)
qed

theorem grants_refine_turns_witness:
  "length (st_active (bk_state (snd (grant_broker counting broker_2)))) =
     1 + length (fst (serve_turns 7 (turn_order (bk_state broker_2))))"
proof -
  have "\<not> st_paused (bk_state broker_2)" "fst (grant_broker counting broker_2) = Ok ()"
    "unat (effective (bk_state broker_2)) = 8" "length (st_active (bk_state broker_2)) = 1" by code_simp+
  moreover from this have "grant_broker counting broker_2 = (Ok (), snd (grant_broker counting broker_2))"
    by (metis prod.collapse)
  ultimately show ?thesis
    using grants_refine_turns [OF broker_2_reachable, of "snd (grant_broker counting broker_2)"]
    by (simp add: Let_def case_prod_unfold)
qed

end
