(* ===== verification/Capacity_Recovery.thy ===== *)
theory Capacity_Recovery
  imports Capacity_Properties
begin

text \<open>
  The broker under pressure and under failures: how long an emergency holds admission back, what
  a failing source of random bytes does to a waiting request, and what a late transaction does to
  the stored cap.
\<close>

section \<open>Emergencies\<close>

type_synonym reading = "f64 \<times> f64 option \<times> f64 option"

text \<open>A reading (time, CPU and memory percentage) below the recovery thresholds of an emergency.\<close>

fun calm_reading :: "reading \<Rightarrow> bool" where
  "calm_reading (now, cpu, memory) \<longleftrightarrow> calm True (bounded_percent cpu) (bounded_percent memory)"

text \<open>The steps of the broker other than the samples.\<close>

inductive request_step :: "('r \<Rightarrow> (string, u8 list) result \<times> 'r) \<Rightarrow> f64 \<Rightarrow> ('r, 'h) config \<Rightarrow> ('r, 'h) config \<Rightarrow> bool"
  for fill minimum where
  register: "register_run run uid b = (result, b') \<Longrightarrow> request_step fill minimum (b, ws) (b', ws)"
| handler: "register_fixture_handler run h b = (result, b') \<Longrightarrow> request_step fill minimum (b, ws) (b', ws)"
| resources: "register_resources run claims b = (result, b') \<Longrightarrow> request_step fill minimum (b, ws) (b', ws)"
| forget_handler: "request_step fill minimum (b, ws) (unregister_handler run b, ws)"
| unregister: "unregister_locked fill minimum now run b = (result, b') \<Longrightarrow>
    request_step fill minimum (b, ws) (b', ws @ left_to_store result)"
| set_cap: "set_cap fill tx read cap actor b = (answer, b') \<Longrightarrow> request_step fill minimum (b, ws) (b', ws)"
| reserve: "\<not> exhausted b \<Longrightarrow> queue_reservation run check uid b = (drawn, b') \<Longrightarrow>
    request_step fill minimum (b, ws) (b', ws)"
| try_reserve: "try_reservation i b = (verdict, b') \<Longrightarrow> request_step fill minimum (b, ws) (b', ws)"
| drop_reserve: "request_step fill minimum (b, ws) (drop_reservation i b, ws)"
| enqueue: "\<not> exhausted b \<Longrightarrow> enqueue fill now run leaf uid b = (drawn, b') \<Longrightarrow>
    request_step fill minimum (b, ws) (b', ws)"
| take: "broker_take_outcome i b = (outcome, b') \<Longrightarrow> request_step fill minimum (b, ws) (b', ws)"
| cancel: "cancel_locked fill minimum now i b = (result, b') \<Longrightarrow>
    request_step fill minimum (b, ws) (b', ws @ left_to_store result)"
| release: "release_locked fill minimum now permit b = (result, b') \<Longrightarrow>
    request_step fill minimum (b, ws) (b', ws @ left_to_store result)"
| stop: "request_step fill minimum (b, ws) (stop b, ws)"
| store: "request_step fill minimum (b, us @ w # vs) (snd (store_write tx w b), us @ vs)"

lemma broker_step_split:
  "broker_step fill minimum c c' \<longleftrightarrow> request_step fill minimum c c' \<or>
     (\<exists>now cpu memory w. record_sample_locked fill minimum now cpu memory (fst c) = (w, fst c') \<and>
        snd c' = snd c @ left_to_store (Ok w))"
proof
  assume "broker_step fill minimum c c'"
  then show "request_step fill minimum c c' \<or>
     (\<exists>now cpu memory w. record_sample_locked fill minimum now cpu memory (fst c) = (w, fst c') \<and>
        snd c' = snd c @ left_to_store (Ok w))"
  proof cases
    case (sample now cpu memory b w b' ws)
    then show ?thesis by auto
  qed (auto intro: request_step.intros)
next
  assume either: "request_step fill minimum c c' \<or>
     (\<exists>now cpu memory w. record_sample_locked fill minimum now cpu memory (fst c) = (w, fst c') \<and>
        snd c' = snd c @ left_to_store (Ok w))"
  have "broker_step fill minimum c c'" if "request_step fill minimum c c'"
    using that by cases (auto intro: broker_step.intros)
  with either show "broker_step fill minimum c c'"
    by (cases c; cases c') (auto intro: broker_step.sample)
qed

text \<open>
  A run of the broker in an emergency: any steps in any order, as long as no two consecutive samples are calm.
  The flag tells whether the last sample was.
\<close>

inductive emergency_run :: "('r \<Rightarrow> (string, u8 list) result \<times> 'r) \<Rightarrow> f64 \<Rightarrow> ('r, 'h) config \<Rightarrow> bool \<Rightarrow> ('r, 'h) config \<Rightarrow> bool"
  for fill minimum c where
  start: "emergency_run fill minimum c False c"
| request: "emergency_run fill minimum c calm_before c1 \<Longrightarrow> request_step fill minimum c1 c2 \<Longrightarrow>
    emergency_run fill minimum c calm_before c2"
| sample: "emergency_run fill minimum c calm_before (b, ws) \<Longrightarrow> \<not> (calm_before \<and> calm_reading (now, cpu, memory)) \<Longrightarrow>
    record_sample_locked fill minimum now cpu memory b = (w, b') \<Longrightarrow>
    emergency_run fill minimum c (calm_reading (now, cpu, memory)) (b', ws @ left_to_store (Ok w))"

text \<open>The pause goes on and no permit is added.\<close>

definition still_held :: "bool \<Rightarrow> State \<Rightarrow> State \<Rightarrow> bool" where
  "still_held calm_before s s' \<longleftrightarrow> held calm_before s' \<and> set (st_active s') \<subseteq> set (st_active s)"

lemma still_held_refl: "held calm_before s \<Longrightarrow> still_held calm_before s s"
  by (simp add: still_held_def)

lemma still_heldI:
  assumes "held calm_before s" and "st_paused s' = st_paused s" and "st_memory_emergency s' = st_memory_emergency s"
    and "st_recovery_streak s' = st_recovery_streak s" and "set (st_active s') \<subseteq> set (st_active s)"
  shows "still_held calm_before s s'"
  using assms by (simp add: still_held_def held_def)

lemma still_held_trans:
  "still_held q s t \<Longrightarrow> still_held q t u \<Longrightarrow> still_held q s u"
  by (auto simp: still_held_def)

lemma grant_paused: "st_paused (bk_state b) \<Longrightarrow> grant_broker fill b = (Ok (), b)"
  by (simp add: grant_broker_def grant_ready.simps [of fill "bk_random b" "bk_state b"] grant_turn_def)

lemma finish_run_held: "held q s \<Longrightarrow> still_held q s (finish_run run now s)"
  by (rule still_heldI) (auto simp: finish_run_def split: option.splits)

lemma start_epoch_held: "held q s \<Longrightarrow> still_held q s (start_epoch run now s)"
  by (rule still_heldI) (auto simp: start_epoch_def Let_def)

lemma finish_epoch_held:
  assumes "held q s" and "finish_epoch now minimum s = (a, s')"
  shows "still_held q s s'"
  using finish_epoch_holds [OF assms] finish_epoch_core [OF assms(2)] by (simp add: still_held_def same_core_def)

lemma deny_held_fields:
  "st_paused (fold (deny_pending m) q s) = st_paused s"
  "st_memory_emergency (fold (deny_pending m) q s) = st_memory_emergency s"
  "st_recovery_streak (fold (deny_pending m) q s) = st_recovery_streak s"
  "st_active (fold (deny_pending m) q s) = st_active s"
  by (induction q arbitrary: s) (simp_all add: deny_pending_def)

lemma forget_run_held: "held q s \<Longrightarrow> still_held q s (forget_run run s)"
  by (rule still_heldI) (auto simp: forget_run_def Let_def deny_held_fields bt_retain_def split: option.splits)

lemma unqueue_held: "held q s \<Longrightarrow> still_held q s (unqueue i run s)"
  by (rule still_heldI) (auto simp: unqueue_def split: option.splits)

lemma settle_held:
  assumes "held q (bk_state b)" and "settle fill minimum now run b = (result, b')"
  shows "still_held q (bk_state b) (bk_state b')"
proof -
  let ?s = "finish_run run now (bk_state b)"
  have ended: "still_held q (bk_state b) ?s" using finish_run_held [OF assms(1)] .
  then have "held q ?s" by (simp add: still_held_def)
  then have grant: "grant_broker fill (b\<lparr>bk_state := ?s\<rparr>) = (Ok (), b\<lparr>bk_state := ?s\<rparr>)"
    by (simp add: grant_paused held_def)
  obtain a s' where epoch: "finish_epoch now minimum ?s = (a, s')" by (rule prod.exhaust)
  have "bk_state b' = s'" using assms(2) grant epoch by (auto simp: settle_def)
  then show ?thesis using still_held_trans [OF ended finish_epoch_held [OF \<open>held q ?s\<close> epoch]] by simp
qed

lemma unregister_held:
  assumes "held q (bk_state b)" and "unregister_locked fill minimum now run b = (result, b')"
  shows "still_held q (bk_state b) (bk_state b')"
proof -
  let ?f = "forget_run run (bk_state b)"
  let ?s = "finish_run run now ?f"
  have f: "still_held q (bk_state b) ?f" using forget_run_held [OF assms(1)] .
  then have s: "still_held q (bk_state b) ?s"
    using still_held_trans finish_run_held by (metis still_held_def)
  obtain a t where epoch: "finish_epoch now minimum ?s = (a, t)" by (rule prod.exhaust)
  have "held q ?s" using s by (simp add: still_held_def)
  then have t: "still_held q (bk_state b) t"
    by (rule still_held_trans [OF s finish_epoch_held [OF _ epoch]])
  then have "grant_broker fill (b\<lparr>bk_state := t\<rparr>) = (Ok (), b\<lparr>bk_state := t\<rparr>)"
    by (simp add: grant_paused still_held_def held_def)
  then have "bk_state b' = t" using assms(2) epoch by (auto simp: unregister_locked_def)
  then show ?thesis using t by simp
qed

lemma enqueue_held:
  assumes "held q (bk_state b)" and "enqueue fill now run leaf uid b = (drawn, b')"
  shows "still_held q (bk_state b) (bk_state b')"
proof -
  let ?a = "add_request run leaf (bk_state b)"
  let ?s = "start_epoch run now ?a"
  have "still_held q (bk_state b) ?a" using assms(1) by (intro still_heldI) (auto simp: add_request_def Let_def)
  then have s: "still_held q (bk_state b) ?s" using still_held_trans start_epoch_held by (metis still_held_def)
  then have "grant_broker fill (b\<lparr>bk_state := ?s\<rparr>) = (Ok (), b\<lparr>bk_state := ?s\<rparr>)"
    by (simp add: grant_paused still_held_def held_def)
  then have "bk_state b' = bk_state b \<or> bk_state b' = mark_waited (st_next_pending_id (bk_state b)) ?s"
    using assms(2) by (auto simp: enqueue_def Let_def split: if_splits)
  moreover have "still_held q (bk_state b) (mark_waited i ?s)" for i
    using s by (simp add: still_held_def held_def mark_waited_def)
  ultimately show ?thesis using still_held_refl [OF assms(1)] by auto
qed

lemma set_cap_held:
  assumes "held q (bk_state b)" and "set_cap fill tx read cap actor b = (answer, b')"
  shows "still_held q (bk_state b) (bk_state b')"
proof -
  have "bk_state b' \<in> {bk_state b, (bk_state b)\<lparr>st_cap := cap\<rparr>}"
    using assms
    by (auto simp: set_cap_def set_cap_locked_def Let_def store_write_def grant_paused held_def
        split: if_splits sum.splits prod.splits)
  then show ?thesis using assms(1) by (auto intro: still_heldI)
qed

lemma cancel_held:
  assumes "held q (bk_state b)" and "cancel_locked fill minimum now i b = (result, b')"
  shows "still_held q (bk_state b) (bk_state b')"
proof (cases "bt_get (st_pending (bk_state b)) i")
  case None
  then show ?thesis using assms still_held_refl by (auto simp: cancel_locked_def Let_def)
next
  case (Some pending)
  define t where "t = (case pn_outcome pending of
      Granted grant \<Rightarrow> (bk_state b)\<lparr>st_pending := bt_remove i (st_pending (bk_state b)),
        st_active := bt_remove (gr_permit_id grant) (st_active (bk_state b))\<rparr>
    | _ \<Rightarrow> (bk_state b)\<lparr>st_pending := bt_remove i (st_pending (bk_state b))\<rparr>)"
  have t: "still_held q (bk_state b) t"
    using assms(1) by (intro still_heldI) (auto simp: t_def bt_remove_def split: PendingOutcome.splits)
  then have u: "still_held q (bk_state b) (unqueue i (pn_run_id pending) t)"
    using still_held_trans unqueue_held by (metis still_held_def)
  have "settle fill minimum now (pn_run_id pending) (b\<lparr>bk_state := unqueue i (pn_run_id pending) t\<rparr>) = (result, b')"
    using assms(2) Some by (simp add: cancel_locked_def Let_def t_def split: PendingOutcome.splits)
  then have "still_held q (unqueue i (pn_run_id pending) t) (bk_state b')"
    using settle_held [of q "b\<lparr>bk_state := unqueue i (pn_run_id pending) t\<rparr>"] u by (simp add: still_held_def)
  then show ?thesis using still_held_trans [OF u] by blast
qed

lemma release_held:
  assumes "held q (bk_state b)" and "release_locked fill minimum now permit b = (result, b')"
  shows "still_held q (bk_state b) (bk_state b')"
proof (cases "bt_get (st_active (bk_state b)) permit")
  case None
  then show ?thesis using assms still_held_refl by (auto simp: release_locked_def Let_def)
next
  case (Some p)
  let ?s = "(bk_state b)\<lparr>st_active := bt_remove permit (st_active (bk_state b))\<rparr>"
  have s: "still_held q (bk_state b) ?s" using assms(1) by (intro still_heldI) (auto simp: bt_remove_def)
  have "still_held q ?s (bk_state b')"
    using settle_held [of q "b\<lparr>bk_state := ?s\<rparr>"] assms(2) s Some by (simp add: release_locked_def Let_def still_held_def)
  then show ?thesis using still_held_trans [OF s] by blast
qed

lemma request_held:
  assumes "request_step fill minimum c c'" and "held q (bk_state (fst c))"
  shows "still_held q (bk_state (fst c)) (bk_state (fst c'))"
  using assms(1)
proof cases
  case (register run uid b result b' ws)
  then show ?thesis using assms(2) by (auto simp: register_run_def split: sum.splits if_splits intro: still_heldI)
next
  case (handler run h b result b' ws)
  then show ?thesis using assms(2) by (auto simp: register_fixture_handler_def split: if_splits intro: still_heldI)
next
  case (resources run claims b result b' ws)
  then show ?thesis using assms(2) by (auto simp: register_resources_def split: if_splits intro: still_heldI)
next
  case (forget_handler b ws run)
  then show ?thesis using assms(2) by (simp add: unregister_handler_def still_held_def)
next
  case (reserve b run check uid drawn b' ws)
  then show ?thesis using assms(2)
    by (auto simp: queue_reservation_def Let_def split: if_splits option.splits intro: still_heldI)
next
  case (try_reserve i b verdict b' ws)
  then show ?thesis using assms(2)
    by (auto simp: try_reservation_def Let_def split: if_splits option.splits intro: still_heldI)
next
  case (drop_reserve b ws i)
  then show ?thesis using assms(2) by (auto simp: drop_reservation_def intro: still_heldI)
next
  case (take i b outcome b' ws)
  then show ?thesis using assms(2) 
    by (auto simp: broker_take_outcome_def Let_def still_held_def held_def split: if_splits)
next
  case (stop b ws)
  then show ?thesis using assms(2) by (auto simp: stop_def intro: still_heldI)
next
  case (store b us w vs tx)
  then show ?thesis using assms(2) by (auto simp: store_write_def Let_def split: prod.splits intro: still_heldI)
qed (use assms(2) unregister_held set_cap_held enqueue_held cancel_held release_held in auto)

lemma sample_held:
  assumes "held q (bk_state b)" and "\<not> (q \<and> calm_reading (now, cpu, memory))"
    and "record_sample_locked fill minimum now cpu memory b = (w, b')"
  shows "still_held (calm_reading (now, cpu, memory)) (bk_state b) (bk_state b')"
proof -
  let ?r = "State_record_sample (bounded_percent cpu) (bounded_percent memory) (bk_state b)"
  obtain a s where f: "finish_epoch now minimum ?r = (a, s)" by (rule prod.exhaust)
  have r: "held (calm_reading (now, cpu, memory)) ?r" using sample_holds [OF assms(1)] assms(2) by simp
  then have s: "still_held (calm_reading (now, cpu, memory)) ?r s" using finish_epoch_held [OF _ f] by blast
  then have "bk_state b' = s" using f assms(3) by (auto simp: record_sample_locked_def still_held_def held_def)
  moreover have "st_active ?r = st_active (bk_state b)"
    using record_sample_core [of "bk_state b" "bounded_percent cpu" "bounded_percent memory"] by (simp add: same_core_def)
  ultimately show ?thesis using s by (simp add: still_held_def)
qed

lemma emergency_run_held:
  "emergency_run fill minimum c q c' \<Longrightarrow> held False (bk_state (fst c)) \<Longrightarrow> still_held q (bk_state (fst c)) (bk_state (fst c'))"
proof (induction rule: emergency_run.induct)
  case start
  then show ?case by (rule still_held_refl)
next
  case (request q c1 c2)
  then have "still_held q (bk_state (fst c)) (bk_state (fst c1))" by simp
  moreover from this have "still_held q (bk_state (fst c1)) (bk_state (fst c2))"
    by (intro request_held [OF request.hyps(2)]) (simp add: still_held_def)
  ultimately show ?case by (rule still_held_trans)
next
  case (sample q b ws now cpu memory w b')
  then have "still_held q (bk_state (fst c)) (bk_state b)" by simp
  with sample_held [OF _ sample.hyps(2,3)] show ?case by (auto simp: still_held_def)
qed

text \<open>
  C35: after a sample at or above the emergency threshold of memory the broker stays paused and
  grants no permit, whatever runs register, ask, give back or end, whatever cap is set and
  whatever epochs end in between, for as long as no two consecutive samples are below the recovery thresholds.
\<close>

theorem emergency_pause_holds:
  assumes "optb (\<lambda>v. f64_greater_eq v MEMORY_EMERGENCY_PERCENT) (bounded_percent memory)"
    and "record_sample_locked fill minimum now cpu memory b = (w, b1)"
    and "emergency_run fill minimum (b1, ws) calm_last (b2, ws2)"
  shows "st_paused (bk_state b2) \<and> set (st_active (bk_state b2)) \<subseteq> set (st_active (bk_state b))"
proof -
  let ?r = "State_record_sample (bounded_percent cpu) (bounded_percent memory) (bk_state b)"
  obtain a s where f: "finish_epoch now minimum ?r = (a, s)" by (rule prod.exhaust)
  have s: "held False s" using finish_epoch_holds [OF emergency_holds [OF assms(1)] f] .
  then have b1: "bk_state b1 = s" using f assms(2) by (auto simp: record_sample_locked_def held_def)
  moreover have "st_active s = st_active (bk_state b)"
    using finish_epoch_core [OF f] record_sample_core [of "bk_state b" "bounded_percent cpu" "bounded_percent memory"]
    by (simp add: same_core_def)
  ultimately show ?thesis
    using emergency_run_held [OF assms(3)] s by (simp add: still_held_def held_def)
qed

text \<open>An emergency in which a calm sample, a request and another high sample follow.\<close>

definition emergency_1 :: "(nat, nat) Broker" where
  "emergency_1 = snd (record_sample_locked counting (Finite 600) (Finite 0) None (Some (Finite 95)) broker_2)"

definition emergency_2 :: "(nat, nat) Broker" where
  "emergency_2 = snd (record_sample_locked counting (Finite 600) (Finite 0) (Some (Finite 10)) (Some (Finite 20)) emergency_1)"

definition emergency_3 :: "(nat, nat) Broker" where
  "emergency_3 = snd (enqueue counting (Finite 0) ''r1'' ''more'' 7 emergency_2)"

theorem emergency_pause_holds_witness:
  "st_paused (bk_state emergency_3) \<and> set (st_active (bk_state emergency_3)) \<subseteq> set (st_active (bk_state broker_2)) \<and>
   waiting (bk_state emergency_3) = 1"
proof -
  let ?w1 = "fst (record_sample_locked counting (Finite 600) (Finite 0) None (Some (Finite 95)) broker_2)"
  let ?w2 = "fst (record_sample_locked counting (Finite 600) (Finite 0) (Some (Finite 10)) (Some (Finite 20)) emergency_1)"
  let ?ws = "left_to_store (Ok ?w2)"
  have threshold: "optb (\<lambda>v. f64_greater_eq v MEMORY_EMERGENCY_PERCENT) (bounded_percent (Some (Finite 95)))"
    by code_simp
  have first: "record_sample_locked counting (Finite 600) (Finite 0) None (Some (Finite 95)) broker_2 = (?w1, emergency_1)"
    by (simp add: emergency_1_def)
  have second: "record_sample_locked counting (Finite 600) (Finite 0) (Some (Finite 10)) (Some (Finite 20)) emergency_1 =
      (?w2, emergency_2)"
    by (simp add: emergency_2_def)
  have "emergency_run counting (Finite 600) (emergency_1, [])
      (calm_reading (Finite 0, Some (Finite 10), Some (Finite 20))) (emergency_2, ?ws)"
    using emergency_run.sample [where c = "(emergency_1, [])" and ws = "[]", OF emergency_run.start _ second] by simp
  moreover have "request_step counting (Finite 600) (emergency_2, ?ws) (emergency_3, ?ws)"
  proof (rule request_step.enqueue)
    show "\<not> exhausted emergency_2" by code_simp
    show "enqueue counting (Finite 0) ''r1'' ''more'' 7 emergency_2 =
        (fst (enqueue counting (Finite 0) ''r1'' ''more'' 7 emergency_2), emergency_3)"
      by (simp add: emergency_3_def)
  qed
  ultimately have "emergency_run counting (Finite 600) (emergency_1, [])
      (calm_reading (Finite 0, Some (Finite 10), Some (Finite 20))) (emergency_3, ?ws)"
    by (rule emergency_run.request)
  moreover have "waiting (bk_state emergency_3) = 1" by code_simp
  ultimately show ?thesis using emergency_pause_holds [OF threshold first] by blast
qed

section \<open>Failures\<close>

lemma failed_grant:
  assumes qi: "queues_inv (bk_state b)" and "\<not> st_paused (bk_state b)"
    and "length (st_active (bk_state b)) < unat (effective (bk_state b))"
    and rr: "st_round_robin (bk_state b) = run # rest" and q: "bt_get (st_queues (bk_state b)) run = Some (i # q)"
    and fill: "fill (bk_random b) = (Inl e, r)"
  shows "grant_broker fill b =
     (Err (with_detail (ProtocolError_new InternalError ''cannot create a capacity permit'') e),
      b\<lparr>bk_random := r, bk_state := serve run rest (bk_state b)\<rparr>)"
proof -
  let ?s = "bk_state b" and ?e = "with_detail (ProtocolError_new InternalError ''cannot create a capacity permit'') e"
  have "unique_permit_id fill (bk_random b) (st_active ?s) = (Inl ?e, r)"
    using fill by (simp add: unique_permit_id_def eval_nat_numeral)
  then have "grant_turn fill (bk_random b) ?s = Fail ?e r (serve run rest ?s)"
    using grant_turn_serves [OF qi rr assms(2,3) q, of fill "bk_random b"] by simp
  then show ?thesis by (simp add: grant_broker_def grant_ready.simps [of fill "bk_random b" ?s])
qed

text \<open>
  C39: when the source of random bytes fails while a released permit makes room, \<^verbatim>\<open>release\<close> reports
  the error after the request at the front has been taken out of its queue: the request stays
  waiting, but in no queue, so that no later grant reaches it.
\<close>

theorem failed_grant_loses_request:
  assumes "reachable broker_initial (broker_step fill minimum) (b, ws)" and "\<not> st_paused (bk_state b)"
    and "bt_get (st_active (bk_state b)) permit = Some p"
    and "length (st_active (bk_state b)) \<le> unat (effective (bk_state b))"
    and "st_round_robin (bk_state b) = run # rest" and "bt_get (st_queues (bk_state b)) run = Some (i # q)"
    and "fill (bk_random b) = (Inl e, r)"
  shows "(let (result, b') = release_locked fill minimum now permit b in
     result = Err (with_detail (ProtocolError_new InternalError ''cannot create a capacity permit'') e) \<and>
     \<not> is_active permit b' \<and>
     map_option pn_outcome (bt_get (st_pending (bk_state b')) i) = Some Waiting \<and>
     (\<forall>run q. bt_get (st_queues (bk_state b')) run = Some q \<longrightarrow> i \<notin> set q))"
proof -
  let ?s = "(bk_state b)\<lparr>st_active := bt_remove permit (st_active (bk_state b))\<rparr>"
  let ?f = "finish_run (ap_run_id p) now ?s"
  have inv: "core_inv (bk_state b)" using broker.reachable_inv [OF assms(1)] by (simp add: broker_inv_def)
  have core: "same_core ?s ?f" by (rule finish_run_core)
  have qi: "queues_inv ?f"
    using remove_active_core [OF inv] same_core_inv [OF core] by (simp add: core_inv_def)
  have "length (st_active ?s) < length (st_active (bk_state b))"
    using inv assms(3) by (auto simp: core_inv_def ownership_inv_def intro: btm.len_remove_less)
  moreover have "effective ?f = effective ?s" using finish_run_shrinks [of ?s] by (simp add: shrinks_def)
  moreover have paused: "st_paused ?f = st_paused (bk_state b)" by (simp add: finish_run_def split: option.splits)
  ultimately have g: "grant_broker fill (b\<lparr>bk_state := ?f\<rparr>) =
     (Err (with_detail (ProtocolError_new InternalError ''cannot create a capacity permit'') e),
      b\<lparr>bk_state := ?f, bk_random := r, bk_state := serve run rest ?f\<rparr>)"
    using failed_grant [of "b\<lparr>bk_state := ?f\<rparr>" run rest i q fill e r] assms qi core by (simp add: same_core_def)
  have "waits ?f run i"
    using queued_waits [OF qi, of run "i # q" i] assms(6) core by (simp add: same_core_def)
  moreover have "bt_get (st_active ?f) permit = None" using core by (simp add: same_core_def bt_get_remove)
  moreover have "i \<notin> set q'" if "bt_get (st_queues (serve run rest ?f)) run' = Some q'" for run' q'
    using serve_queues_inv(2) [OF qi _ _ that, of i q] assms(5,6) core by (simp add: same_core_def)
  ultimately show ?thesis using g assms(3)
    by (auto simp: release_locked_def settle_def is_active_def bt_contains_def waits_def optb_iff Let_def)
qed

definition flaky :: "nat \<Rightarrow> (string, u8 list) result \<times> nat" where
  "flaky n = (if n = 0 then counting n else failing n)"

definition flaky_1 :: "(nat, nat) Broker" where
  "flaky_1 = snd (set_cap flaky (Ok (''now'', 1)) (Ok ()) (Some 1) ''admin'' broker_1)"

definition flaky_2 :: "(nat, nat) Broker" where
  "flaky_2 = snd (enqueue flaky (Finite 0) ''r1'' ''a'' 7 flaky_1)"

definition flaky_3 :: "(nat, nat) Broker" where
  "flaky_3 = snd (enqueue flaky (Finite 0) ''r1'' ''b'' 7 flaky_2)"

lemma flaky_3_reachable: "reachable broker_initial (broker_step flaky minimum) (flaky_3, [])"
proof -
  have 1: "reachable broker_initial (broker_step flaky minimum) (flaky_1, [])"
    unfolding flaky_1_def
    by (rule reachable.step [OF broker_1_reachable], rule broker_step.set_cap, rule prod.collapse [symmetric])
  have "\<not> exhausted flaky_1" by code_simp
  from reachable.step [OF 1 broker_step.enqueue [OF this prod.collapse [symmetric]]]
  have 2: "reachable broker_initial (broker_step flaky minimum) (flaky_2, [])" unfolding flaky_2_def .
  have "\<not> exhausted flaky_2" by code_simp
  from reachable.step [OF 2 broker_step.enqueue [OF this prod.collapse [symmetric]]] show ?thesis unfolding flaky_3_def .
qed

theorem failed_grant_loses_request_witness:
  "map_option pn_outcome (bt_get (st_pending (bk_state (snd
     (release_locked flaky (Finite 0) (Finite 0) ''c0000000000000000'' flaky_3)))) 2) = Some Waiting"
proof -
  have "\<not> st_paused (bk_state flaky_3)"
    "bt_get (st_active (bk_state flaky_3)) ''c0000000000000000'' = Some \<lparr>ap_run_id = ''r1'', ap_leaf_id = ''a''\<rparr>"
    "length (st_active (bk_state flaky_3)) \<le> unat (effective (bk_state flaky_3))"
    "st_round_robin (bk_state flaky_3) = ''r1'' # []" "bt_get (st_queues (bk_state flaky_3)) ''r1'' = Some (2 # [])"
    "flaky (bk_random flaky_3) = (Inl ''no entropy'', 1)"
    by code_simp+
  from failed_grant_loses_request [OF flaky_3_reachable this, of "Finite 0" "Finite 0"] show ?thesis
    by (auto simp: Let_def split: prod.splits)
qed

lemma f64_of_nat_small [code]:
  "f64_of_nat n = (if n = 0 then Finite 0 else if n = 1 then Finite 1 else f64_of_rat (of_nat n))"
  using round_half_even_of_int [of 4503599627370496]
  by (simp add: f64_of_nat_def f64_of_rat_def unit_in_last_place_def binary_exponent_def floorlog_def Let_def)

definition late_1 :: "(nat, nat) Broker" where
  "late_1 = snd (record_sample_locked counting (Finite 0) (Finite 0) None (Some (Finite 95)) broker_2)"

definition late_write :: capacity_write where
  "late_write = (6, None, \<lparr>adj_actor = ''system:auto'', adj_reason = ''memory_emergency'', adj_previous = 8, adj_new = 6,
     adj_cpu = None, adj_memory = Some (Finite 95), adj_saturation = Some (Finite 0), adj_duration = Some (Finite 0)\<rparr>)"

definition late_2 :: "(nat, nat) Broker" where
  "late_2 = snd (set_cap counting (Ok (''now'', 1)) (Ok ()) (Some 4) ''admin'' late_1)"

definition late_3 :: "(nat, nat) Broker" where
  "late_3 = snd (store_write (Ok (''later'', 2)) late_write late_2)"

lemma late_sample:
  "record_sample_locked counting (Finite 0) (Finite 0) None (Some (Finite 95)) broker_2 = (Some late_write, late_1)"
proof -
  have "fst (record_sample_locked counting (Finite 0) (Finite 0) None (Some (Finite 95)) broker_2) = Some late_write"
    by code_simp
  then show ?thesis unfolding late_1_def by (metis prod.collapse)
qed

text \<open>
  C40: an adjustment is stored after the lock of the state has been given back, together with the cap
  as it was then.  An administrator may set a cap in between, and the late transaction overwrites
  it: all writes are stored, the cap is in force in memory, and the table has none, so that a
  restarted broker does not know it.
\<close>

theorem late_write_drops_cap:
  "\<exists>b :: (nat, nat) Broker. reachable broker_initial (broker_step counting (Finite 0)) (b, []) \<and>
     st_cap (bk_state b) = Some 4 \<and> db_cap (bk_store b) = None"
proof (intro exI conjI)
  have 1: "reachable broker_initial (broker_step counting (Finite 0)) (late_1, [late_write])"
    using reachable.step [OF broker_2_reachable broker_step.sample [OF late_sample]] by (simp add: left_to_store_def)
  have 2: "reachable broker_initial (broker_step counting (Finite 0)) (late_2, [late_write])"
    unfolding late_2_def
    by (rule reachable.step [OF 1], rule broker_step.set_cap, rule prod.collapse [symmetric])
  from broker_step.store [of counting "Finite 0" late_2 "[]" late_write "[]" "Ok (''later'', 2)"]
  show "reachable broker_initial (broker_step counting (Finite 0)) (late_3, [])"
    unfolding late_3_def by (intro reachable.step [OF 2]) simp
  show "st_cap (bk_state late_3) = Some 4" "db_cap (bk_store late_3) = None" by code_simp+
qed

end
