(* ===== verification/Spec2Isabelle.thy ===== *)
theory Spec2Isabelle
  imports Retention Run_Report Process_Verdict Log_Pages Fingerprints Capacity_Fairness
    Capacity_Recovery
begin

text \<open>
  Verification of DevCoordinator2: the contract of its test executor, the executor itself from the
  schedule of a run down to the processes and log files, and the capacity broker of the control plane.

  \<^bold>\<open>The program.\<close>  A run is described by an execution plan (\<^verbatim>\<open>src/rust/executor-protocol/src/lib.rs\<close>):
  checks with dependencies, tiers, phases, resources and outputs.  The executor
  (\<^verbatim>\<open>src/rust/executor-core/src/runner.rs\<close>) validates the plan, starts checks as their requirements
  succeed and their resources are free, executes each check (a command, or a fan-out over cases with
  fixtures and cleanup), and writes a report that the same contract validates.  A process
  (\<^verbatim>\<open>process.rs\<close>) is started in a group of its own, its output is pumped into the log store
  (\<^verbatim>\<open>log_store.rs\<close>), its failures are normalised (\<^verbatim>\<open>diagnostics.rs\<close>).  Before a process starts, the
  executor asks the capacity broker of the control plane (\<^verbatim>\<open>src/rust/control/src/capacity.rs\<close>) for a
  permit and for the resources of the check.  Queries read the stored logs (\<^verbatim>\<open>log_query.rs\<close>), and a
  retention policy removes the directories of old runs (\<^verbatim>\<open>retention.rs\<close>).

  \<^bold>\<open>Theories.\<close>
  \<^item> \<open>Prelude\<close>, \<open>Rust_Text\<close>, \<open>BTree_Map\<close>, \<open>F64\<close>: results, machine integers with their checked and
    saturating operations, byte strings and paths, ordered maps (locale \<open>keyed_store\<close>) and
    IEEE binary64 arithmetic with its rounding.
  \<^item> \<open>Systems\<close>: reachable states and invariants (locale \<open>invariant_system\<close>) and exclusive owners of
    resources (locale \<open>conflict_relation\<close>), both used by the scheduler and by the broker.
  \<^item> \<open>Protocol_Types\<close>, \<open>Protocol_Fields\<close>, \<open>Check_Contract\<close>, \<open>Check_Graph\<close>, \<open>Plan_Contract\<close>,
    \<open>Report_Contract\<close>: every struct and enum of the contract and every validation function, in the
    order of its checks and with its messages.  Shown: what an accepted name, path, check, plan or
    report guarantees (components that stay below their root, bounded artifacts, unique names,
    known dependencies, monotone tiers, outputs that are serialised, counts that add up), and that
    the depth-first search accepts exactly the acyclic graphs.
  \<^item> \<open>Diagnostic_Values\<close>, \<open>Diagnostics\<close>, \<open>Fingerprints\<close>, \<open>Diagnostic_Reports\<close>, \<open>Report_Diagnostics\<close>: bounded
    and redacted values, fingerprints, the merging and ranking of failures, the parsers of declared
    reports.  Shown: no credential is shown, a fingerprint identifies a failure, merging loses no
    occurrence, and every entry made of untrusted text is accepted by the contract.
  \<^item> \<open>Civil_Time\<close>, \<open>Progress\<close>, \<open>Check_Runtime\<close>: time stamps, the life of a progress reporter and the
    aggregation of its observations, the state of a check and \<^verbatim>\<open>write_report\<close>.
  \<^item> \<open>Leaf_Evidence\<close>, \<open>Leaf_Validity\<close>, \<open>Check_Execution\<close>, \<open>Check_Verdict\<close>: the verdict over a finished
    process and the execution of one check with every early return.  Shown, for every behaviour of
    processes, files and reservations: an outcome is terminal and has a failure exactly when it is no
    success, cleanup always runs, and a fan-out passes only with all its cases.
  \<^item> \<open>Schedule\<close>, \<open>Run_Safety\<close>, \<open>Run_Properties\<close>, \<open>Run_Report\<close>: the loop of \<^verbatim>\<open>Executor::run\<close> as a step
    relation over checks, running tasks and live services.  Shown by an invariant of the reachable
    states: mutual exclusion of resources, order of dependencies, that only checks whose requirements
    succeeded are started, that a pass over an idle state makes progress if cleanup waits for active
    checks only (and that it may panic otherwise), that the blocking loop settles, what a verdict of success means, and that a report can always be written and is accepted.
  \<^item> \<open>Log_Writer\<close>, \<open>Process_Streams\<close>, \<open>Process_Group\<close>, \<open>Process_Execution\<close>, \<open>Process_Verdict\<close>: the writer
    of a stream with its sparse index of lines, the readers of the pipes, the signals to a process
    group, and the life of a process.  Shown: a passed process left complete logs and no process
    behind, or is a service that reported its pass; results and service exits meet what the execution of a check
    (\<open>check_env_ok\<close>) and the report (\<open>service_exit_ok\<close>) rely on; a group is killed only after its grace period, provided that a
    group that is gone does not come back (\<open>group_stays_gone\<close>); and one way in which a failed cleanup is lost.
  \<^item> \<open>Log_Store\<close>: selectors, directories, metadata, the lease of a run.  Shown: leaves are isolated from
    each other, and the evidence of a finished leaf is never refused.
  \<^item> \<open>Log_Search\<close>, \<open>Log_Lines\<close>: literal search in a stream, the check of its index, positions of lines
    and reading lines.  Shown: each equals its plain reading on the bytes of the file.
  \<^item> \<open>Log_Cursor\<close>, \<open>Log_Query\<close>, \<open>Log_Pages\<close>: base64 and cursors, the checks of a request, the selection of
    a stream, and the pages of ranges, tails and searches.  Shown: decoding undoes encoding, and the
    pages that a client gets by following the cursors of a range are finitely many and together exactly the
    range in the snapshot of the first page, also when the stream grows between the requests.  The fuel of
    \<open>follow\<close> is one more than the bytes of the range, since every page but the last holds at least one byte.
  \<^item> \<open>Retention\<close>: the selection of expired directories, equal to a declarative specification.
  \<^item> \<open>Api_Error\<close>: errors of the control plane, their bounded detail and default guidance
    (\<^verbatim>\<open>src/rust/api/src/lib.rs\<close>, \<^verbatim>\<open>recovery.rs\<close>).
  \<^item> \<open>Capacity_State\<close>, \<open>Capacity_Learning\<close>, \<open>Capacity_Policy\<close>: the state of the broker, grants in turn,
    pressure samples and the learning of the capacity at the end of an epoch.  Shown: the bounds of
    an adjustment and the rank of the percentile it rests on.
  \<^item> \<open>Capacity_Broker\<close>, \<open>Capacity_Safety\<close>, \<open>Capacity_Properties\<close>, \<open>Capacity_Fairness\<close>,
    \<open>Capacity_Recovery\<close>: the operations of the broker, the step relation of their locked sections
    and late transactions, and its invariant.  Shown: capacities stay in range in memory and in the
    table, granted reservations exclude each other and waiting ones cannot block each other for
    good, permits stay within the capacity, no capacity idles, grants implement a rotation over
    the runs, an emergency holds admission back whatever else the broker is asked, unregistering revokes, a stopped broker is empty;
    and two ways in which the code loses a request or a stored cap.

  \<^bold>\<open>Correspondence.\<close>  A struct is a record whose fields carry its initials, an enum a datatype with
  the source's constructors, a \<^verbatim>\<open>Result\<close> a sum with \<open>Inl\<close> for the error; a function keeps its name,
  and the parts of a long function are definitions of their own.  A method that mutates returns
  the new state; a loop is recursion, total without fuel: \<open>grant_ready\<close> by the waiting requests and the
  turns left, \<open>visit\<close> by the unmarked nodes, \<open>mark_blocked\<close> by the pending checks, the loops over a file
  by the bytes that are left.  The one loop that ends only by virtue of its data, the fallback of the
  search automaton, is a partial function, and it is shown to return.  Panics of the code
  (an index out of range) are values of the model.  Integers have the width of the source; a
  \<^verbatim>\<open>usize\<close>, and a position in a file, is a natural number.

  \<^bold>\<open>Parameters.\<close>  Code outside the repository and the operating system are arguments of the
  definitions that use them: the digest, the decoders of JSON and XML, clocks, the source of random
  bytes, the answers of the kernel to each system call, what the pipes deliver and in which order the
  threads of a process are joined, and the outcome of a transaction or of reading a table.  What is
  relied on is a hypothesis by name: \<open>digest_size\<close> (a digest has 32 bytes), \<open>process_env_ok\<close> and
  \<open>check_env_ok\<close> (what the system calls of a process return), \<open>holds\<close> (reading a file returns its bytes,
  in blocks of any size).  The broker's invariant assumes that the 64-bit counter of request ids is not
  exhausted (the two rules that draw an id require it).  A poisoned lock is not modelled: no operation
  of the broker panics while it holds the lock of the state.

  \<^bold>\<open>Not modelled.\<close>  Of the executor: the scan of the log store, its catalogue, the context of failures and the deletion of expired directories,
  and the digests of source trees and artifacts (\<^verbatim>\<open>evidence.rs\<close>, \<^verbatim>\<open>reuse.rs\<close>), which enter as receipts.
  Of the broker: the socket server with its reads, writes and deadlines, fixture handlers and the
  reading of \<^verbatim>\<open>/proc\<close>.  And the rest of the control plane: deployments, docker, git, systemd, the
  database adapter, HTTP, planning, reviews, tickets, usage accounting and the tooling.  These drive
  other systems or compute over rows of the database.
\<close>

end
